(* ===== verification/Prelude.thy ===== *)
theory Prelude
  imports Complex_Main "HOL-Library.AList"
begin

text \<open>
  What every component shares: Python dictionaries as association lists in insertion
  order, counters, exceptions as values, the result type of fallible code and the
  collections of simplification rules the component proofs use.
\<close>

section \<open>Types\<close>

text \<open>
  Clock readings. The code takes them from \<open>time.monotonic\<close> as floats; the model has
  rationals, so a deadline is the sum of the reading and the stated number of seconds.
\<close>

type_synonym time = rat

type_synonym ('k, 'v) dict = "('k \<times> 'v) list"

text \<open>
  Exceptions, with the message of the source (or the scope, for the quota rejection).
\<close>

datatype exn =
    PolicyConfigError string
  | ValueError string
  | RuntimeError string
  | RelayMappingQuotaExceeded string
  | ClientHelloError string
  | ListenerAlreadyBoundThere
  | ListenerBlackWhiteList
  | KeyError string
  | IndexError
  | SystemExit int
  | AttributeError string
  | OSError string
  | PcapWriteError

type_synonym 'a result = "exn + 'a"

section \<open>Results\<close>

fun ebind :: "'e + 'a \<Rightarrow> ('a \<Rightarrow> 'e + 'b) \<Rightarrow> 'e + 'b" where
  "ebind (Inl e) f = Inl e"
| "ebind (Inr x) f = f x"

text \<open>A comprehension that stops at the first element that raises.\<close>

fun emap :: "('a \<Rightarrow> 'e + 'b) \<Rightarrow> 'a list \<Rightarrow> 'e + 'b list" where
  "emap f [] = Inr []"
| "emap f (x # xs) = ebind (f x) (\<lambda>y. ebind (emap f xs) (\<lambda>ys. Inr (y # ys)))"

text \<open>A loop over a list whose body updates an accumulator or raises.\<close>

fun efold :: "('a \<Rightarrow> 's \<Rightarrow> 'e + 's) \<Rightarrow> 'a list \<Rightarrow> 's \<Rightarrow> 'e + 's" where
  "efold f [] s = Inr s"
| "efold f (x # xs) s = ebind (f x s) (efold f xs)"

section \<open>Dictionaries\<close>

text \<open>
  \<open>d[k]\<close> is \<open>dget\<close>; assignment keeps the position of an existing key and appends a new
  one; \<open>pop\<close> is \<open>ddel\<close>. These are the operations of the library's association lists.
\<close>

definition dget :: "('k, 'v) dict \<Rightarrow> 'k \<Rightarrow> 'v option" where
  "dget d k = map_of d k"

definition dset :: "'k \<Rightarrow> 'v \<Rightarrow> ('k, 'v) dict \<Rightarrow> ('k, 'v) dict" where
  "dset k v d = AList.update k v d"

definition ddel :: "'k \<Rightarrow> ('k, 'v) dict \<Rightarrow> ('k, 'v) dict" where
  "ddel k d = filter (\<lambda>(k', _). k' \<noteq> k) d"

definition dkeys :: "('k, 'v) dict \<Rightarrow> 'k list" where
  "dkeys d = map fst d"

definition dvals :: "('k, 'v) dict \<Rightarrow> 'v list" where
  "dvals d = map snd d"

definition dict_ok :: "('k, 'v) dict \<Rightarrow> bool" where
  "dict_ok d \<longleftrightarrow> distinct (map fst d)"

text \<open>\<open>collections.Counter\<close>: a missing key reads as 0.\<close>

definition cget :: "('k, int) dict \<Rightarrow> 'k \<Rightarrow> int" where
  "cget c k = (case dget c k of None \<Rightarrow> 0 | Some n \<Rightarrow> n)"

text \<open>\<open>c[k] += n\<close>.\<close>

definition cadd :: "'k \<Rightarrow> int \<Rightarrow> ('k, int) dict \<Rightarrow> ('k, int) dict" where
  "cadd k n c = dset k (cget c k + n) c"

text \<open>\<open>c[k] -= 1\<close>, then \<open>if not c[k]: del c[k]\<close>.\<close>

definition cdec :: "'k \<Rightarrow> ('k, int) dict \<Rightarrow> ('k, int) dict" where
  "cdec k c = (let c' = dset k (cget c k - 1) c in
     if cget c' k = 0 then ddel k c' else c')"

section \<open>Lemmas\<close>

named_theorems dict_simps
named_theorems op_defs
named_theorems py_eval

declare dget_def [py_eval] dset_def [py_eval] ddel_def [py_eval] dkeys_def [py_eval]
  dvals_def [py_eval] cget_def [py_eval] cadd_def [py_eval] cdec_def [py_eval]

lemma ebind_Inr_iff: "ebind m f = Inr y \<longleftrightarrow> (\<exists>x. m = Inr x \<and> f x = Inr y)"
  by (cases m) auto

lemma ebind_split: "P (ebind m f) \<longleftrightarrow>
    (\<forall>e. m = Inl e \<longrightarrow> P (Inl e)) \<and> (\<forall>x. m = Inr x \<longrightarrow> P (f x))"
  by (cases m) auto

lemma emap_Inr_length: "emap f xs = Inr ys \<Longrightarrow> length ys = length xs"
  by (induction xs arbitrary: ys) (auto simp: ebind_Inr_iff)

lemma emap_Inr_set: "emap f xs = Inr ys \<Longrightarrow> y \<in> set ys \<Longrightarrow> \<exists>x \<in> set xs. f x = Inr y"
  by (induction xs arbitrary: ys) (auto simp: ebind_Inr_iff)

lemma efold_invariant:
  assumes "efold f xs s = Inr t" and "P s"
    and "\<And>x s t. x \<in> set xs \<Longrightarrow> f x s = Inr t \<Longrightarrow> P s \<Longrightarrow> P t"
  shows "P t"
  using assms
proof (induction xs arbitrary: s)
  case Nil
  then show ?case by simp
next
  case (Cons x xs)
  from Cons.prems(1) obtain u where u: "f x s = Inr u" and rest: "efold f xs u = Inr t"
    by (auto simp: ebind_Inr_iff)
  from u Cons.prems(2,3) have "P u" by auto
  with rest Cons.prems(3) show ?case by (auto intro: Cons.IH)
qed

lemma dget_dset [dict_simps]: "dget (dset k v d) = (dget d)(k \<mapsto> v)"
  by (simp add: dget_def [abs_def] dset_def update_conv')

lemma dget_ddel [dict_simps]: "dget (ddel k d) = (dget d)(k := None)"
  by (induction d) (auto simp: dget_def [abs_def] ddel_def fun_eq_iff)

lemma dget_Nil [dict_simps]: "dget [] = Map.empty"
  by (simp add: dget_def [abs_def])

lemma dget_filter:
  assumes "dict_ok d"
  shows "dget (filter (\<lambda>(k, v). P k v) d) k =
    (case dget d k of None \<Rightarrow> None | Some v \<Rightarrow> if P k v then Some v else None)"
  using assms
proof (induction d)
  case Nil
  then show ?case by (simp add: dget_def)
next
  case (Cons a d)
  obtain j v where a: "a = (j, v)" by force
  have "j = k \<Longrightarrow> map_of (filter (\<lambda>(k, v). P k v) d) k = None"
    using Cons.prems by (auto simp: a dict_ok_def map_of_eq_None_iff image_iff)
  with Cons show ?case by (auto simp: a dget_def dict_ok_def split: option.splits)
qed

lemma dget_in: "dget d k = Some v \<Longrightarrow> (k, v) \<in> set d"
  by (simp add: dget_def map_of_SomeD)

lemma in_dget: "dict_ok d \<Longrightarrow> (k, v) \<in> set d \<Longrightarrow> dget d k = Some v"
  by (simp add: dict_ok_def dget_def)

lemma dict_ok_iff: "dict_ok d \<Longrightarrow> (k, v) \<in> set d \<longleftrightarrow> dget d k = Some v"
  by (auto intro: in_dget dget_in)

lemma dkeys_iff: "k \<in> set (dkeys d) \<longleftrightarrow> dget d k \<noteq> None"
  by (auto simp: dkeys_def dget_def map_of_eq_None_iff)

lemma dict_ok_Nil [simp, intro]: "dict_ok []"
  by (simp add: dict_ok_def)

lemma dict_ok_dset [simp, intro]: "dict_ok d \<Longrightarrow> dict_ok (dset k v d)"
  by (simp add: dict_ok_def dset_def distinct_update)

lemma dict_ok_filter [simp, intro]: "dict_ok d \<Longrightarrow> dict_ok (filter P d)"
  by (simp add: dict_ok_def distinct_map_filter)

lemma dict_ok_ddel [simp, intro]: "dict_ok d \<Longrightarrow> dict_ok (ddel k d)"
  by (simp add: ddel_def)

lemma cget_cadd [dict_simps]: "cget (cadd k n c) j = (if j = k then cget c k + n else cget c j)"
  by (simp add: cget_def cadd_def dict_simps)

lemma cget_cdec [dict_simps]: "cget (cdec k c) j = (if j = k then cget c k - 1 else cget c j)"
  by (auto simp: cget_def cdec_def Let_def dict_simps)

lemma cget_Nil [dict_simps]: "cget [] k = 0"
  by (simp add: cget_def dict_simps)

section \<open>The interface of a table keyed by identity\<close>

text \<open>
  The laws every client relies on when it reads a table after writing it. The model's
  dictionaries satisfy them; the code's are Python dictionaries.
\<close>

locale table =
  fixes lookup :: "'t \<Rightarrow> 'k \<Rightarrow> 'v option"
    and store :: "'k \<Rightarrow> 'v \<Rightarrow> 't \<Rightarrow> 't"
    and remove :: "'k \<Rightarrow> 't \<Rightarrow> 't"
    and empty :: "'t"
  assumes lookup_empty: "lookup empty k = None"
    and lookup_store: "lookup (store k v t) j = (if j = k then Some v else lookup t j)"
    and lookup_remove: "lookup (remove k t) j = (if j = k then None else lookup t j)"
begin

lemma lookup_store_same: "lookup (store k v t) k = Some v"
  by (simp add: lookup_store)

lemma lookup_remove_store: "lookup (remove k (store k v t)) j = lookup (remove k t) j"
  by (simp add: lookup_store lookup_remove)

lemma store_frame: "j \<noteq> k \<Longrightarrow> lookup (store k v t) j = lookup t j"
  by (simp add: lookup_store)

lemma remove_absent: "lookup t k = None \<Longrightarrow> lookup (remove k t) j = lookup t j"
  by (simp add: lookup_remove)

end

interpretation dict_table: table dget dset ddel "[]"
  by unfold_locales (auto simp: dict_simps)

section \<open>The interface of a state machine with an invariant\<close>

text \<open>
  A component offers its initial states and its steps and promises that both keep an
  invariant; then every state any run reaches satisfies it, whatever the order of the steps.
\<close>

locale invariant_machine =
  fixes init :: "'s \<Rightarrow> bool"
    and step :: "'s \<Rightarrow> 's \<Rightarrow> bool"
    and inv :: "'s \<Rightarrow> bool"
  assumes inv_init: "init s \<Longrightarrow> inv s"
    and inv_step: "step s t \<Longrightarrow> inv s \<Longrightarrow> inv t"
begin

lemma inv_steps: "step\<^sup>*\<^sup>* s t \<Longrightarrow> inv s \<Longrightarrow> inv t"
  by (induction rule: rtranclp_induct) (auto intro: inv_step)

lemma reachable_inv: "init s \<Longrightarrow> step\<^sup>*\<^sup>* s t \<Longrightarrow> inv t"
  by (blast intro: inv_steps inv_init)

end

end
