(* ===== verification/IpAddress.thy ===== *)
theory IpAddress
  imports PyText "HOL-Library.Word"
begin

text \<open>
  The part of Python's \<open>ipaddress\<close> module the sources use: IPv4 addresses as 32-bit words,
  the strict dotted-decimal parser (CPython 3.13, no leading zeros), printing, networks and
  the address classes, and as much of the IPv6 parser as decides whether a text is an IPv6
  address and whether that address is a loopback address.
\<close>

section \<open>IPv4\<close>

type_synonym ipv4 = "32 word"

definition quad :: "nat \<Rightarrow> nat \<Rightarrow> nat \<Rightarrow> nat \<Rightarrow> ipv4" where
  "quad a b c d = of_nat (((a * 256 + b) * 256 + c) * 256 + d)"

definition octets :: "ipv4 \<Rightarrow> nat list" where
  "octets w = (let n = unat w in
     [n div 16777216, n div 65536 mod 256, n div 256 mod 256, n mod 256])"

definition show_ipv4 :: "ipv4 \<Rightarrow> string" where
  "show_ipv4 w = join_with ''.'' (map show_nat (octets w))"

definition parse_octet :: "string \<Rightarrow> nat option" where
  "parse_octet s =
     (if \<not> digits1 s then None
      else if length s > 3 then None
      else if s \<noteq> ''0'' \<and> hd s = CHR ''0'' then None
      else if nat_of_digits s > 255 then None
      else Some (nat_of_digits s))"

definition parse_ipv4 :: "string \<Rightarrow> ipv4 option" where
  "parse_ipv4 s = (case split_on CHR ''.'' s of
       [a, b, c, d] \<Rightarrow>
         (case (parse_octet a, parse_octet b, parse_octet c, parse_octet d) of
            (Some i, Some j, Some k, Some l) \<Rightarrow> Some (quad i j k l)
          | _ \<Rightarrow> None)
     | _ \<Rightarrow> None)"

section \<open>IPv4 networks and address classes\<close>

type_synonym ipv4_network = "ipv4 \<times> nat"

definition in_net :: "ipv4 \<Rightarrow> ipv4_network \<Rightarrow> bool" where
  "in_net w N \<longleftrightarrow> drop_bit (32 - snd N) w = drop_bit (32 - snd N) (fst N)"

definition network_address :: "ipv4_network \<Rightarrow> ipv4" where
  "network_address N = fst N"

definition broadcast_address :: "ipv4_network \<Rightarrow> ipv4" where
  "broadcast_address N = fst N + of_nat (2 ^ (32 - snd N) - 1)"

definition private_networks :: "ipv4_network list" where
  "private_networks =
     [(quad 0 0 0 0, 8), (quad 10 0 0 0, 8), (quad 127 0 0 0, 8), (quad 169 254 0 0, 16),
      (quad 172 16 0 0, 12), (quad 192 0 0 0, 24), (quad 192 0 0 170, 31),
      (quad 192 0 2 0, 24), (quad 192 168 0 0, 16), (quad 198 18 0 0, 15),
      (quad 198 51 100 0, 24), (quad 203 0 113 0, 24), (quad 240 0 0 0, 4),
      (quad 255 255 255 255, 32)]"

definition private_networks_exceptions :: "ipv4_network list" where
  "private_networks_exceptions = [(quad 192 0 0 9, 32), (quad 192 0 0 10, 32)]"

definition is_private :: "ipv4 \<Rightarrow> bool" where
  "is_private w \<longleftrightarrow> list_ex (in_net w) private_networks \<and>
     \<not> list_ex (in_net w) private_networks_exceptions"

definition is_global :: "ipv4 \<Rightarrow> bool" where
  "is_global w \<longleftrightarrow> \<not> in_net w (quad 100 64 0 0, 10) \<and> \<not> is_private w"

definition is_multicast :: "ipv4 \<Rightarrow> bool" where
  "is_multicast w \<longleftrightarrow> in_net w (quad 224 0 0 0, 4)"

definition is_reserved :: "ipv4 \<Rightarrow> bool" where
  "is_reserved w \<longleftrightarrow> in_net w (quad 240 0 0 0, 4)"

definition is_unspecified :: "ipv4 \<Rightarrow> bool" where
  "is_unspecified w \<longleftrightarrow> w = quad 0 0 0 0"

definition is_loopback :: "ipv4 \<Rightarrow> bool" where
  "is_loopback w \<longleftrightarrow> in_net w (quad 127 0 0 0, 8)"

definition is_link_local :: "ipv4 \<Rightarrow> bool" where
  "is_link_local w \<longleftrightarrow> in_net w (quad 169 254 0 0, 16)"

section \<open>IPv6\<close>

definition hex_val :: "char \<Rightarrow> nat option" where
  "hex_val c = (if is_digit c then Some (code c - 48)
     else if 97 \<le> code c \<and> code c \<le> 102 then Some (code c - 87)
     else if 65 \<le> code c \<and> code c \<le> 70 then Some (code c - 55) else None)"

fun hex_digits :: "nat \<Rightarrow> string \<Rightarrow> nat option" where
  "hex_digits n [] = Some n"
| "hex_digits n (c # s) = (case hex_val c of None \<Rightarrow> None | Some d \<Rightarrow> hex_digits (16 * n + d) s)"

definition parse_hextet :: "string \<Rightarrow> nat option" where
  "parse_hextet s = (if s = [] \<or> length s > 4 then None else hex_digits 0 s)"

fun hextets :: "nat \<Rightarrow> string list \<Rightarrow> nat option" where
  "hextets n [] = Some n"
| "hextets n (p # ps) =
     (case parse_hextet p of None \<Rightarrow> None | Some h \<Rightarrow> hextets (n * 65536 + h) ps)"

text \<open>The pieces between colons, an embedded IPv4 tail turned into two groups. The groups
  are kept as numbers where they come from the tail.\<close>

definition v6_parts :: "string \<Rightarrow> (string list \<times> nat list) option" where
  "v6_parts s = (let ps = split_on CHR '':'' s in
     if length ps < 3 then None
     else if CHR ''.'' \<in> set (last ps) then
       (case parse_ipv4 (last ps) of
          None \<Rightarrow> None
        | Some w \<Rightarrow> Some (butlast ps, [unat w div 65536, unat w mod 65536]))
     else Some (ps, []))"

definition empty_inner :: "string list \<Rightarrow> nat \<Rightarrow> nat list" where
  "empty_inner ps n = filter (\<lambda>i. i < length ps \<and> ps ! i = []) [1..<n - 1]"

definition tail_value :: "nat \<Rightarrow> nat list \<Rightarrow> nat" where
  "tail_value n ts = foldl (\<lambda>m t. m * 65536 + t) n ts"

definition parse_ipv6 :: "string \<Rightarrow> nat option" where
  "parse_ipv6 s = (case v6_parts s of None \<Rightarrow> None | Some (ps, ts) \<Rightarrow>
     (let n = length ps + length ts in
      if n > 9 then None
      else (case empty_inner ps n of
          [] \<Rightarrow>
            if n \<noteq> 8 \<or> hd ps = [] \<or> (ts = [] \<and> last ps = []) then None
            else map_option (\<lambda>m. tail_value m ts) (hextets 0 ps)
        | [k] \<Rightarrow>
            (let hi = (if hd ps = [] then k - 1 else k);
                 lo = (if ts = [] \<and> last ps = [] then n - k - 2 else n - k - 1) in
             if hd ps = [] \<and> hi \<noteq> 0 then None
             else if ts = [] \<and> last ps = [] \<and> lo \<noteq> 0 then None
             else if 8 < hi + lo + 1 then None
             else (case hextets 0 (take hi ps) of
                 None \<Rightarrow> None
               | Some h \<Rightarrow>
                   map_option (\<lambda>m. tail_value m ts)
                     (hextets (h * 65536 ^ (8 - (hi + lo)))
                       (drop (length ps - (lo - length ts)) ps))))
        | _ \<Rightarrow> None)))"

text \<open>The scope identifier \<open>%id\<close> is split off before parsing.\<close>

definition split_scope :: "string \<Rightarrow> string option" where
  "split_scope s = (case split_on CHR ''%'' s of
       [a] \<Rightarrow> Some a
     | [a, z] \<Rightarrow> if z = [] then None else Some a
     | _ \<Rightarrow> None)"

datatype ip_address = IPv4 ipv4 | IPv6 nat

text \<open>\<open>ipaddress.ip_address(text)\<close>; \<open>None\<close> is the \<open>ValueError\<close>.\<close>

definition ip_address :: "string \<Rightarrow> ip_address option" where
  "ip_address s = (case parse_ipv4 s of
       Some w \<Rightarrow> Some (IPv4 w)
     | None \<Rightarrow> if CHR ''/'' \<in> set s then None
         else (case split_scope s of
             None \<Rightarrow> None
           | Some a \<Rightarrow> map_option IPv6 (parse_ipv6 a)))"

fun addr_is_loopback :: "ip_address \<Rightarrow> bool" where
  "addr_is_loopback (IPv4 w) = is_loopback w"
| "addr_is_loopback (IPv6 n) =
     (if n div 4294967296 = 65535 then is_loopback (of_nat (n mod 4294967296)) else n = 1)"

section \<open>Lemmas: parsing and printing are inverse\<close>

declare quad_def [py_eval] octets_def [py_eval] show_ipv4_def [py_eval] parse_octet_def [py_eval]
  parse_ipv4_def [py_eval] in_net_def [py_eval] network_address_def [py_eval]
  broadcast_address_def [py_eval] private_networks_def [py_eval]
  private_networks_exceptions_def [py_eval] is_private_def [py_eval] is_global_def [py_eval]
  is_multicast_def [py_eval] is_reserved_def [py_eval] is_unspecified_def [py_eval]
  is_loopback_def [py_eval] is_link_local_def [py_eval] ip_address_def [py_eval]

lemma digit_char_0: "digit_char 0 = CHR ''0''"
  by (simp add: digit_char_def char_of_def bit_0)

lemma nat_of_digits_pos:
  "digits1 s \<Longrightarrow> hd s \<noteq> CHR ''0'' \<Longrightarrow> 0 < nat_of_digits s"
proof (induction s rule: rev_induct)
  case Nil
  then show ?case by (simp add: digits1_def)
next
  case (snoc c s)
  show ?case
  proof (cases s)
    case Nil
    with snoc.prems have "is_digit c" "c \<noteq> CHR ''0''" by (auto simp: digits1_def)
    then have "digit_val c \<noteq> 0"
      using digit_char_val [of c] digit_char_0 by metis
    with Nil show ?thesis by (simp add: nat_of_digits_def)
  next
    case (Cons x xs)
    with snoc have "0 < nat_of_digits s" by (auto simp: digits1_def)
    then show ?thesis by (simp add: nat_of_digits_snoc)
  qed
qed

lemma show_nat_of_digits:
  "digits1 s \<Longrightarrow> length s = 1 \<or> hd s \<noteq> CHR ''0'' \<Longrightarrow> show_nat (nat_of_digits s) = s"
proof (induction s rule: rev_induct)
  case Nil
  then show ?case by (simp add: digits1_def)
next
  case (snoc c s)
  then have c: "is_digit c" by (simp add: digits1_def)
  show ?case
  proof (cases s)
    case Nil
    with c show ?thesis
      by (simp add: nat_of_digits_def show_nat.simps digit_val_less digit_char_val)
  next
    case (Cons x xs)
    with snoc.prems have s: "digits1 s" "hd s \<noteq> CHR ''0''" by (auto simp: digits1_def)
    with snoc.IH have IH: "show_nat (nat_of_digits s) = s" by simp
    from s have "0 < nat_of_digits s" by (rule nat_of_digits_pos)
    with c IH show ?thesis
      by (subst show_nat.simps)
        (simp add: nat_of_digits_snoc digit_val_less digit_char_val)
  qed
qed

lemma parse_octet_Some:
  assumes "parse_octet s = Some n"
  shows "n < 256" and "show_nat n = s"
proof -
  from assms have s: "digits1 s" "length s \<le> 3" "s = ''0'' \<or> hd s \<noteq> CHR ''0''"
    and n: "n = nat_of_digits s" "n \<le> 255"
    by (auto simp: parse_octet_def split: if_splits)
  from n show "n < 256" by simp
  have "length s = 1 \<or> hd s \<noteq> CHR ''0''" using s(3) by auto
  with s(1) n(1) show "show_nat n = s" by (simp add: show_nat_of_digits)
qed

lemma show_nat_small: "n < 10 \<Longrightarrow> show_nat n = [digit_char n]"
  by (simp add: show_nat.simps)

lemma show_nat_big: "\<not> n < 10 \<Longrightarrow> show_nat n = show_nat (n div 10) @ [digit_char (n mod 10)]"
  by (simp add: show_nat.simps)

lemma length_show_nat: "n < 256 \<Longrightarrow> length (show_nat n) \<le> 3"
proof -
  assume n: "n < 256"
  show ?thesis
  proof (cases "n < 10")
    case True
    then show ?thesis by (simp add: show_nat_small)
  next
    case False
    then have a: "show_nat n = show_nat (n div 10) @ [digit_char (n mod 10)]"
      by (rule show_nat_big)
    show ?thesis
    proof (cases "n div 10 < 10")
      case True
      then show ?thesis by (simp add: a show_nat_small)
    next
      case False
      moreover have "n div 10 div 10 < 10" using n by linarith
      ultimately show ?thesis by (simp add: a show_nat_big show_nat_small)
    qed
  qed
qed

lemma hd_show_nat: "0 < n \<Longrightarrow> hd (show_nat n) \<noteq> CHR ''0''"
proof (induction n rule: show_nat.induct)
  case (1 n)
  show ?case
  proof (cases "n < 10")
    case True
    with 1 have "digit_val (digit_char n) \<noteq> 0" by (simp add: digit_val_char)
    then have "digit_char n \<noteq> CHR ''0''" by (auto simp: digit_val_def code_def)
    with True show ?thesis by (simp add: show_nat_small)
  next
    case False
    moreover have "show_nat (n div 10) \<noteq> []"
      using digits1_show_nat by (simp add: digits1_def)
    ultimately show ?thesis using 1 by (simp add: show_nat_big)
  qed
qed

lemma parse_octet_show: "n < 256 \<Longrightarrow> parse_octet (show_nat n) = Some n"
proof -
  assume n: "n < 256"
  have "\<not> (show_nat n \<noteq> ''0'' \<and> hd (show_nat n) = CHR ''0'')"
  proof (cases "n = 0")
    case True
    then show ?thesis by (simp add: show_nat_small digit_char_def char_of_def)
  next
    case False
    then show ?thesis by (simp add: hd_show_nat)
  qed
  with n show ?thesis
    using length_show_nat [OF n]
    by (auto simp: parse_octet_def digits1_show_nat nat_of_digits_show_nat)
qed

lemma base256: "d < 256 \<Longrightarrow> (m * 256 + d) div 256 = m" "d < 256 \<Longrightarrow> (m * 256 + d) mod 256 = d"
  "b < 256 \<Longrightarrow> b div 256 = 0" "b < 256 \<Longrightarrow> b mod 256 = b" for m d b :: nat
  by simp_all

lemma octets_quad:
  assumes "a < 256" "b < 256" "c < 256" "d < 256"
  shows "octets (quad a b c d) = [a, b, c, d]"
proof -
  let ?n = "((a * 256 + b) * 256 + c) * 256 + d"
  have "?n < 2 ^ 32" using assms by simp
  then have u: "unat (quad a b c d) = ?n"
    unfolding quad_def unat_of_nat by simp
  have d: "?n div 65536 = ?n div 256 div 256" "?n div 16777216 = ?n div 256 div 256 div 256"
    by (simp_all only: flip: div_mult2_eq) simp_all
  show ?thesis
    unfolding octets_def Let_def u d by (simp only: base256 assms)
qed

lemma quad_octets:
  "quad (unat w div 16777216) (unat w div 65536 mod 256) (unat w div 256 mod 256)
     (unat w mod 256) = w"
proof -
  let ?n = "unat (w :: ipv4)"
  have d: "?n div 65536 = ?n div 256 div 256" "?n div 16777216 = ?n div 256 div 256 div 256"
    by (simp_all flip: div_mult2_eq)
  have "((?n div 16777216 * 256 + ?n div 65536 mod 256) * 256 + ?n div 256 mod 256) * 256
     + ?n mod 256 = ?n"
    unfolding d by (simp only: div_mult_mod_eq)
  then show ?thesis by (simp only: quad_def of_nat_unat ucast_id)
qed

lemma octets_bound: "x \<in> set (octets w) \<Longrightarrow> x < 256"
proof -
  have "unat (w :: ipv4) < 4294967296" using unsigned_less [of w] by simp
  then have "unat w div 16777216 < 256" by linarith
  moreover assume "x \<in> set (octets w)"
  ultimately show ?thesis by (auto simp: octets_def Let_def)
qed

lemma dot_not_digit: "digits1 s \<Longrightarrow> CHR ''.'' \<notin> set s"
  by (auto simp: digits1_def list_all_iff is_digit_def code_def)

lemma split_show_ipv4: "split_on CHR ''.'' (show_ipv4 w) = map show_nat (octets w)"
  unfolding show_ipv4_def
  by (rule split_join) (auto simp: octets_def Let_def dest: dot_not_digit [OF digits1_show_nat, THEN notE])

lemma octets_obtain:
  obtains i j k l where "octets w = [i, j, k, l]" and "quad i j k l = w"
    and "i < 256" "j < 256" "k < 256" "l < 256"
proof -
  define i j k l where ijkl: "i = unat w div 16777216" "j = unat w div 65536 mod 256"
    "k = unat w div 256 mod 256" "l = unat w mod 256"
  have o: "octets w = [i, j, k, l]" by (simp only: octets_def Let_def ijkl)
  moreover have "quad i j k l = w" unfolding ijkl by (rule quad_octets)
  ultimately show thesis
    using octets_bound [of i w] octets_bound [of j w] octets_bound [of k w]
      octets_bound [of l w] by (intro that [of i j k l]) simp_all
qed

lemma parse_show_ipv4 [simp]: "parse_ipv4 (show_ipv4 w) = Some w"
proof -
  obtain i j k l where "octets w = [i, j, k, l]" and "quad i j k l = w"
    and "i < 256" "j < 256" "k < 256" "l < 256" by (rule octets_obtain)
  then show ?thesis
    by (simp add: parse_ipv4_def split_show_ipv4 parse_octet_show)
qed

lemma show_parse_ipv4: "parse_ipv4 s = Some w \<Longrightarrow> show_ipv4 w = s"
proof -
  assume "parse_ipv4 s = Some w"
  then obtain a b c d i j k l where sp: "split_on CHR ''.'' s = [a, b, c, d]"
    and o: "parse_octet a = Some i" "parse_octet b = Some j" "parse_octet c = Some k"
      "parse_octet d = Some l" and w: "w = quad i j k l"
    by (auto simp: parse_ipv4_def split: list.splits option.splits)
  have "octets w = [i, j, k, l]"
    unfolding w using o by (intro octets_quad) (auto dest: parse_octet_Some)
  then have "show_ipv4 w = join_with ''.'' [a, b, c, d]"
    using o by (simp add: show_ipv4_def parse_octet_Some)
  also have "\<dots> = s" using join_split [of "CHR ''.''" s] sp by simp
  finally show ?thesis .
qed

lemma parse_ipv4_inj: "parse_ipv4 s = Some w \<Longrightarrow> parse_ipv4 t = Some w \<Longrightarrow> s = t"
  by (auto dest: show_parse_ipv4)

section \<open>Lemmas: networks\<close>

lemma in_net_mono:
  assumes "in_net w (b, l)" and "in_net b (b', l')" and "l' \<le> l"
  shows "in_net w (b', l')"
proof -
  define k where "k = (32 - l') - (32 - l)"
  have "32 - l' = k + (32 - l)" using assms(3) by (simp add: k_def)
  then have e: "drop_bit (32 - l') x = drop_bit k (drop_bit (32 - l) x)" for x :: ipv4
    by (simp only: drop_bit_drop_bit)
  from assms(1) have "drop_bit (32 - l) w = drop_bit (32 - l) b" by (simp add: in_net_def)
  then have "drop_bit (32 - l') w = drop_bit (32 - l') b" by (simp only: e)
  with assms(2) show ?thesis by (simp add: in_net_def)
qed

text \<open>A list of networks covers another when each network of the second lies inside one of the
  first.\<close>

definition covers :: "ipv4_network list \<Rightarrow> ipv4_network list \<Rightarrow> bool" where
  "covers Ms Ns \<longleftrightarrow> list_all (\<lambda>N. list_ex (\<lambda>M. snd M \<le> snd N \<and> in_net (fst N) M) Ms) Ns"

lemma coversD:
  assumes "covers Ms Ns" and "list_ex (in_net w) Ns"
  shows "list_ex (in_net w) Ms"
proof -
  from assms(2) obtain N where N: "N \<in> set Ns" "in_net w N" by (auto simp: list_ex_iff)
  with assms(1) obtain M where "M \<in> set Ms" "snd M \<le> snd N" "in_net (fst N) M"
    by (auto simp: covers_def list_all_iff list_ex_iff)
  with N have "in_net w M" by (metis in_net_mono prod.collapse)
  with \<open>M \<in> set Ms\<close> show ?thesis by (auto simp: list_ex_iff)
qed

lemma covers_append: "covers (Ms @ Ls) (Ns @ Ks)" if "covers Ms Ns" "covers Ls Ks"
  using that by (auto simp: covers_def list_all_iff list_ex_iff)

text \<open>All the classes of the module at once: an address outside these networks is a global
  unicast address.\<close>

definition special_networks :: "ipv4_network list" where
  "special_networks = (quad 100 64 0 0, 10) # (quad 224 0 0 0, 4) # private_networks"

lemma special_classes:
  assumes "\<not> list_ex (in_net w) special_networks"
  shows "is_global w" "\<not> is_multicast w" "\<not> is_reserved w" "\<not> is_unspecified w"
    "\<not> is_loopback w" "\<not> is_link_local w"
  using assms
  by (auto simp: special_networks_def private_networks_def is_global_def is_private_def
      is_multicast_def is_reserved_def is_unspecified_def is_loopback_def is_link_local_def
      in_net_def)

lemma ip_address_parse_ipv4: "ip_address s = Some (IPv4 w) \<longleftrightarrow> parse_ipv4 s = Some w"
  by (auto simp: ip_address_def split: option.splits if_splits)

end
