(* ===== verification/ProcessRule.thy ===== *)
theory ProcessRule
  imports IpAddress
begin

text \<open>
  The reviewed rule of process redirection: the configuration parser of
  \<open>fakenet/diverters/processredirect.py\<close>, its address classes, and the path functions of
  Python's \<open>ntpath\<close> it compares executables with. The Windows file reviewer is a parameter.
\<close>

section \<open>Paths: the part of ntpath the module uses\<close>

definition bsl :: char where
  "bsl = char_of (92 :: nat)"

definition to_sep :: "string \<Rightarrow> string" where
  "to_sep s = map (\<lambda>c. if c = CHR ''/'' then bsl else c) s"

text \<open>\<open>s.find(sep, start)\<close>.\<close>

fun find_from :: "char \<Rightarrow> string \<Rightarrow> nat \<Rightarrow> nat option" where
  "find_from c [] i = None"
| "find_from c (x # xs) 0 = (if x = c then Some 0 else map_option Suc (find_from c xs 0))"
| "find_from c (x # xs) (Suc i) = map_option Suc (find_from c xs i)"

definition unc_prefix :: string where
  "unc_prefix = [bsl, bsl, CHR ''?'', bsl] @ ''UNC'' @ [bsl]"

definition splitroot :: "string \<Rightarrow> string \<times> string \<times> string" where
  "splitroot p = (let n = to_sep p in
     if take 1 n = [bsl] then
       if take 1 (drop 1 n) = [bsl] then
         (let start = (if upper (take 8 n) = unc_prefix then 8 else 2) in
          case find_from bsl n start of
            None \<Rightarrow> (p, [], [])
          | Some i \<Rightarrow>
              (case find_from bsl n (i + 1) of
                 None \<Rightarrow> (p, [], [])
               | Some j \<Rightarrow> (take j p, take 1 (drop j p), drop (j + 1) p)))
       else ([], take 1 p, drop 1 p)
     else if take 1 (drop 1 n) = '':'' then
       if take 1 (drop 2 n) = [bsl] then (take 2 p, take 1 (drop 2 p), drop 3 p)
       else (take 2 p, [], drop 2 p)
     else ([], [], p))"

definition splitdrive :: "string \<Rightarrow> string \<times> string" where
  "splitdrive p = (case splitroot p of (d, r, t) \<Rightarrow> (d, r @ t))"

definition isabs :: "string \<Rightarrow> bool" where
  "isabs p = (let s = to_sep (take 3 p) in
     take 2 (drop 1 s) = [CHR '':'', bsl] \<or> take 2 s = [bsl, bsl])"

text \<open>The loop of \<open>normpath\<close> over the components; the first argument is the components
  kept so far, newest first.\<close>

fun norm_comps :: "bool \<Rightarrow> string list \<Rightarrow> string list \<Rightarrow> string list" where
  "norm_comps rooted kept [] = rev kept"
| "norm_comps rooted kept (c # cs) =
     (if c = [] \<or> c = ''.'' then norm_comps rooted kept cs
      else if c = ''..'' then
        (case kept of
           k # ks \<Rightarrow> if k \<noteq> ''..'' then norm_comps rooted ks cs
                     else norm_comps rooted (c # kept) cs
         | [] \<Rightarrow> if rooted then norm_comps rooted [] cs else norm_comps rooted [c] cs)
      else norm_comps rooted (c # kept) cs)"

definition normpath :: "string \<Rightarrow> string" where
  "normpath p = (case splitroot (to_sep p) of (d, r, t) \<Rightarrow>
     (let cs = norm_comps (r \<noteq> []) [] (split_on bsl t) in
      if d @ r = [] \<and> cs = [] then ''.'' else d @ r @ join_with [bsl] cs))"

definition normcase :: "string \<Rightarrow> string" where
  "normcase p = lower (to_sep p)"

section \<open>Data\<close>

record FrozenFileIdentity =
  f_final_path :: string
  f_volume_serial :: int
  f_file_id :: int
  f_sha256 :: string

record ProcessRedirectRule =
  r_protocol :: string
  r_image_path :: string
  r_image_sha256 :: string
  original_ipv4 :: string
  target_ipv4 :: string
  file_identity :: FrozenFileIdentity

section \<open>Address classes\<close>

definition RFC1918_NETWORKS :: "ipv4_network list" where
  "RFC1918_NETWORKS = [(quad 10 0 0 0, 8), (quad 172 16 0 0, 12), (quad 192 168 0 0, 16)]"

definition NON_GLOBAL_NETWORKS :: "ipv4_network list" where
  "NON_GLOBAL_NETWORKS =
     [(quad 0 0 0 0, 8), (quad 10 0 0 0, 8), (quad 100 64 0 0, 10), (quad 127 0 0 0, 8),
      (quad 169 254 0 0, 16), (quad 172 16 0 0, 12), (quad 192 0 0 0, 24),
      (quad 192 88 99 0, 24), (quad 192 168 0 0, 16),
      (quad 198 18 0 0, 15), (quad 224 0 0 0, 4), (quad 240 0 0 0, 4)]"

definition RFC5737_NETWORKS :: "ipv4_network list" where
  "RFC5737_NETWORKS = [(quad 192 0 2 0, 24), (quad 198 51 100 0, 24), (quad 203 0 113 0, 24)]"

definition global_ipv4 :: "string \<Rightarrow> string option" where
  "global_ipv4 value = (case ip_address (strip value) of
       Some (IPv4 w) \<Rightarrow>
         (let documented = list_ex (in_net w) RFC5737_NETWORKS in
          if show_ipv4 w \<noteq> strip value \<or> (\<not> is_global w \<and> \<not> documented) \<or>
             is_multicast w \<or> is_reserved w \<or> is_unspecified w \<or> is_loopback w \<or>
             is_link_local w \<or> list_ex (in_net w) NON_GLOBAL_NETWORKS
          then None else Some (show_ipv4 w))
     | _ \<Rightarrow> None)"

definition rfc1918_ipv4 :: "string \<Rightarrow> string option" where
  "rfc1918_ipv4 value = (case ip_address (strip value) of
       Some (IPv4 w) \<Rightarrow>
         (if show_ipv4 w \<noteq> strip value then None
          else if \<not> list_ex (\<lambda>N. in_net w N \<and> w \<noteq> network_address N \<and> w \<noteq> broadcast_address N)
                    RFC1918_NETWORKS then None
          else if is_loopback w \<or> is_link_local w \<or> is_multicast w \<or> is_unspecified w \<or>
                  is_reserved w then None
          else Some (show_ipv4 w))
     | _ \<Rightarrow> None)"

section \<open>Configuration values\<close>

definition enabled_value :: "string \<Rightarrow> bool result" where
  "enabled_value value = (let normalized = lower (strip value) in
     if normalized \<in> set [''yes'', ''true'', ''on'', ''enabled''] then Inr True
     else if normalized \<in> set [''no'', ''false'', ''off'', ''disabled''] then Inr False
     else Inl (ValueError ''ExternalProcessRedirectEnabled must be Yes or No''))"

definition is_alpha :: "char \<Rightarrow> bool" where
  "is_alpha c \<longleftrightarrow> is_lower c \<or> is_upper c"

text \<open>\<open>re.match(r'^[A-Za-z]:$', drive)\<close>; a drive has at most two characters.\<close>

definition re_drive :: "string \<Rightarrow> bool" where
  "re_drive d \<longleftrightarrow> (case d of [a, b] \<Rightarrow> is_alpha a \<and> b = CHR '':''
     | [a, b, n] \<Rightarrow> is_alpha a \<and> b = CHR '':'' \<and> n = newline | _ \<Rightarrow> False)"

definition canonical_windows_path :: "string \<Rightarrow> string result" where
  "canonical_windows_path value = (let raw = strip value in
     if raw = [] \<or> CHR ''%'' \<in> set raw \<or> CHR ''*'' \<in> set raw \<or> CHR ''?'' \<in> set raw \<or>
        starts_with raw [bsl, bsl] \<or> starts_with raw ([bsl] @ ''??'' @ [bsl]) \<or> \<not> isabs raw
     then Inl (ValueError ''ExternalProcessRedirectImagePath must be an absolute drive path'')
     else (case splitdrive raw of (drive, tail) \<Rightarrow>
       if \<not> re_drive drive \<or> CHR '':'' \<in> set tail \<or> ends_with tail [bsl] \<or> ends_with tail ''/''
       then Inl (ValueError ''ExternalProcessRedirectImagePath must name a file without ADS'')
       else if normpath raw = drive @ [bsl] \<or> normpath raw = drive @ ''/''
       then Inl (ValueError ''ExternalProcessRedirectImagePath must name a file'')
       else Inr raw))"

definition is_hex_lower :: "char \<Rightarrow> bool" where
  "is_hex_lower c \<longleftrightarrow> is_digit c \<or> (97 \<le> code c \<and> code c \<le> 102)"

definition re_sha256 :: "string \<Rightarrow> bool" where
  "re_sha256 s \<longleftrightarrow> (length s = 64 \<and> list_all is_hex_lower s) \<or>
     (length s = 65 \<and> list_all is_hex_lower (butlast s) \<and> last s = newline)"

section \<open>The rule parser\<close>

text \<open>
  \<open>reviewer\<close> is \<open>process_rule_reviewer.review_rule_file\<close>: it raises, or returns an object
  that is a \<open>FrozenFileIdentity\<close> (\<open>Some\<close>) or is not (\<open>None\<close>).
\<close>

type_synonym reviewer = "string \<Rightarrow> string \<Rightarrow> FrozenFileIdentity option result"

definition redirect_fields :: "string list" where
  "redirect_fields =
     [''externalprocessredirectprotocol'', ''externalprocessredirectimagepath'',
      ''externalprocessredirectimagesha256'', ''externalprocessredirectoriginalipv4'',
      ''externalprocessredirecttargetipv4'']"

definition cfg_text :: "(string, string) dict \<Rightarrow> string \<Rightarrow> string" where
  "cfg_text config name = (case dget config name of None \<Rightarrow> [] | Some v \<Rightarrow> v)"

definition missing_fields :: "(string, string) dict \<Rightarrow> string list" where
  "missing_fields config =
     filter (\<lambda>name. dget config name = None \<or> strip (cfg_text config name) = []) redirect_fields"

definition parse_process_redirect_rule ::
  "(string, string) dict \<Rightarrow> string list \<Rightarrow> string \<Rightarrow> string option \<Rightarrow> string list \<Rightarrow>
   reviewer option \<Rightarrow> string \<Rightarrow> ProcessRedirectRule option result" where
  "parse_process_redirect_rule config local_ipv4 external_dns_server takeover_ipv4 reviewed_ipv4
     process_rule_reviewer platform_name =
   ebind (enabled_value (case dget config ''externalprocessredirectenabled'' of
       None \<Rightarrow> ''No'' | Some v \<Rightarrow> v)) (\<lambda>enabled.
   if \<not> enabled then Inr None
   else if lower platform_name \<noteq> ''windows''
   then Inl (ValueError ''ExternalProcessRedirect is supported only on Windows'')
   else (case process_rule_reviewer of
     None \<Rightarrow> Inl (ValueError ''ExternalProcessRedirect requires a Windows file reviewer'')
   | Some review \<Rightarrow>
     if missing_fields config \<noteq> []
     then Inl (ValueError (''missing process redirect fields: '' @
                           join_with '','' (missing_fields config)))
     else if strip (cfg_text config (redirect_fields ! 0)) \<noteq> ''TCP''
     then Inl (ValueError ''ExternalProcessRedirectProtocol must be TCP'')
     else ebind (canonical_windows_path (cfg_text config (redirect_fields ! 1))) (\<lambda>image_path.
     (let image_sha256 = lower (strip (cfg_text config (redirect_fields ! 2))) in
      if \<not> re_sha256 image_sha256
      then Inl (ValueError ''ExternalProcessRedirectImageSHA256 must contain 64 hex digits'')
      else (case global_ipv4 (cfg_text config (redirect_fields ! 3)) of
        None \<Rightarrow> Inl (ValueError ''ExternalProcessRedirectOriginalIPv4 must be global unicast'')
      | Some original \<Rightarrow>
        (case rfc1918_ipv4 (cfg_text config (redirect_fields ! 4)) of
          None \<Rightarrow> Inl (ValueError ''ExternalProcessRedirectTargetIPv4 must be usable RFC1918'')
        | Some target \<Rightarrow>
          if original \<in> set (external_dns_server # local_ipv4) \<or>
             target \<in> set (external_dns_server # local_ipv4)
          then Inl (ValueError ''process redirect address conflicts with local/DNS'')
          else if takeover_ipv4 = Some target \<and> target \<noteq> []
          then Inl (ValueError ''process redirect target conflicts with takeover'')
          else if original \<in> set reviewed_ipv4
          then Inl (ValueError ''process redirect original conflicts with reviewed IP'')
          else ebind (review image_path image_sha256) (\<lambda>answer.
            case answer of
              None \<Rightarrow> Inl (ValueError ''Windows file reviewer returned an invalid identity'')
            | Some identity \<Rightarrow>
              if lower (f_sha256 identity) \<noteq> image_sha256
              then Inl (ValueError ''reviewed process image SHA-256 changed'')
              else Inr (Some \<lparr>r_protocol = ''TCP'', r_image_path = f_final_path identity,
                     r_image_sha256 = image_sha256, original_ipv4 = original,
                     target_ipv4 = target, file_identity = identity\<rparr>))))))))"

section \<open>Lemmas\<close>

declare bsl_def [py_eval] to_sep_def [py_eval] unc_prefix_def [py_eval] splitroot_def [py_eval]
  splitdrive_def [py_eval] isabs_def [py_eval] normpath_def [py_eval] normcase_def [py_eval]
  RFC1918_NETWORKS_def [py_eval] NON_GLOBAL_NETWORKS_def [py_eval] RFC5737_NETWORKS_def [py_eval]
  global_ipv4_def [py_eval] rfc1918_ipv4_def [py_eval] enabled_value_def [py_eval]
  is_alpha_def [py_eval] re_drive_def [py_eval] canonical_windows_path_def [py_eval]
  is_hex_lower_def [py_eval] re_sha256_def [py_eval] redirect_fields_def [py_eval]
  cfg_text_def [py_eval] missing_fields_def [py_eval] parse_process_redirect_rule_def [py_eval]

lemma non_global_covers: "covers (NON_GLOBAL_NETWORKS @ RFC5737_NETWORKS) special_networks"
  by (simp add: covers_def NON_GLOBAL_NETWORKS_def RFC5737_NETWORKS_def special_networks_def
      private_networks_def in_net_def quad_def)

lemma non_global_classes:
  assumes "\<not> list_ex (in_net w) NON_GLOBAL_NETWORKS"
  shows "\<not> is_multicast w" "\<not> is_reserved w" "\<not> is_unspecified w" "\<not> is_loopback w"
    "\<not> is_link_local w"
  using assms
  by (auto simp: NON_GLOBAL_NETWORKS_def is_multicast_def is_reserved_def is_unspecified_def
      is_loopback_def is_link_local_def in_net_def quad_def)

lemma global_ipv4_iff:
  "global_ipv4 value = Some a \<longleftrightarrow> (\<exists>w. parse_ipv4 (strip value) = Some w \<and> a = strip value \<and>
     \<not> list_ex (in_net w) NON_GLOBAL_NETWORKS)" (is "?L \<longleftrightarrow> ?R")
proof
  assume ?L
  then show ?R
    by (auto simp: global_ipv4_def Let_def ip_address_parse_ipv4
        split: option.splits ip_address.splits if_splits)
next
  assume ?R
  then obtain w where w: "parse_ipv4 (strip value) = Some w" and a: "a = strip value"
    and n: "\<not> list_ex (in_net w) NON_GLOBAL_NETWORKS" by blast
  from w have s: "show_ipv4 w = strip value" "ip_address (strip value) = Some (IPv4 w)"
    by (simp_all add: show_parse_ipv4 ip_address_parse_ipv4)
  show ?L
  proof (cases "list_ex (in_net w) RFC5737_NETWORKS")
    case True
    with n a s show ?thesis
      by (simp add: global_ipv4_def Let_def non_global_classes)
  next
    case False
    with n have "\<not> list_ex (in_net w) special_networks"
      using coversD [OF non_global_covers, of w] by auto
    with n a s show ?thesis by (simp add: global_ipv4_def Let_def special_classes)
  qed
qed

lemma rfc1918_ipv4_Some:
  assumes "rfc1918_ipv4 value = Some a"
  shows "\<exists>w. parse_ipv4 (strip value) = Some w \<and> a = strip value \<and>
     list_ex (in_net w) RFC1918_NETWORKS"
  using assms
  by (auto simp: rfc1918_ipv4_def ip_address_parse_ipv4 list_ex_iff
      split: option.splits ip_address.splits if_splits)

lemma rfc1918_non_global: "covers NON_GLOBAL_NETWORKS RFC1918_NETWORKS"
  by (simp add: covers_def NON_GLOBAL_NETWORKS_def RFC1918_NETWORKS_def in_net_def quad_def)

definition addr_in :: "string \<Rightarrow> ipv4_network list \<Rightarrow> bool" where
  "addr_in a Ns \<longleftrightarrow> (case parse_ipv4 a of None \<Rightarrow> False | Some w \<Rightarrow> list_ex (in_net w) Ns)"

definition is_dotted :: "string \<Rightarrow> bool" where
  "is_dotted a \<longleftrightarrow> parse_ipv4 a \<noteq> None"

lemma process_rule_safe:
  assumes "parse_process_redirect_rule config local_ipv4 dns takeover reviewed_ips reviewer platform =
    Inr (Some r)"
  shows "is_dotted (original_ipv4 r) \<and> \<not> addr_in (original_ipv4 r) NON_GLOBAL_NETWORKS \<and>
    addr_in (target_ipv4 r) RFC1918_NETWORKS \<and>
    original_ipv4 r \<notin> set (dns # local_ipv4 @ reviewed_ips) \<and>
    target_ipv4 r \<notin> set (dns # local_ipv4) \<and> takeover \<noteq> Some (target_ipv4 r) \<and>
    original_ipv4 r \<noteq> target_ipv4 r"
proof -
  from assms obtain v v' where g: "global_ipv4 v = Some (original_ipv4 r)"
    and t: "rfc1918_ipv4 v' = Some (target_ipv4 r)"
    and n: "original_ipv4 r \<notin> set (dns # local_ipv4 @ reviewed_ips)"
      "target_ipv4 r \<notin> set (dns # local_ipv4)"
    and to: "\<not> (takeover = Some (target_ipv4 r) \<and> target_ipv4 r \<noteq> [])"
    by (auto simp: parse_process_redirect_rule_def ebind_Inr_iff Let_def
        split: if_splits option.splits)
  from g have o: "is_dotted (original_ipv4 r)" "\<not> addr_in (original_ipv4 r) NON_GLOBAL_NETWORKS"
    by (auto simp: global_ipv4_iff is_dotted_def addr_in_def)
  from rfc1918_ipv4_Some [OF t] have t1: "addr_in (target_ipv4 r) RFC1918_NETWORKS"
    by (auto simp: addr_in_def)
  have "addr_in (target_ipv4 r) NON_GLOBAL_NETWORKS"
    using t1 coversD [OF rfc1918_non_global] by (auto simp: addr_in_def split: option.splits)
  with o have "original_ipv4 r \<noteq> target_ipv4 r" by auto
  moreover have "target_ipv4 r \<noteq> []" using t1 by (auto simp: addr_in_def parse_ipv4_def)
  ultimately show ?thesis using o n to t1 by auto
qed

text \<open>A concrete rule, used to instantiate the statements.\<close>

definition demo_identity :: FrozenFileIdentity where
  "demo_identity = \<lparr>f_final_path = ''C:'' @ [bsl] @ ''tools'' @ [bsl] @ ''agent.exe'',
     f_volume_serial = 7, f_file_id = 99, f_sha256 = replicate 64 CHR ''a''\<rparr>"

definition demo_redirect_config :: "(string, string) dict" where
  "demo_redirect_config =
     [(''externalprocessredirectenabled'', ''Yes''),
      (''externalprocessredirectprotocol'', ''TCP''),
      (''externalprocessredirectimagepath'', ''C:'' @ [bsl] @ ''tools'' @ [bsl] @ ''agent.exe''),
      (''externalprocessredirectimagesha256'', replicate 64 CHR ''A''),
      (''externalprocessredirectoriginalipv4'', ''203.0.113.9''),
      (''externalprocessredirecttargetipv4'', '' 192.168.56.20'')]"

section \<open>Properties\<close>

text \<open>A process redirect rule that the parser accepts rewrites a public address into a
  private one: the original address is a dotted IPv4 address outside every non-global network,
  the target lies in an RFC 1918 network, the two differ, and neither is the DNS server or an
  address of this machine; the original is no reviewed address and the target not the takeover
  sink.\<close>

theorem redirect_rule_safe:
  assumes "parse_process_redirect_rule config local_ipv4 dns takeover reviewed_ips reviewer platform
    = Inr (Some r)"
  shows "is_dotted (original_ipv4 r) \<and> \<not> addr_in (original_ipv4 r) NON_GLOBAL_NETWORKS \<and>
    addr_in (target_ipv4 r) RFC1918_NETWORKS \<and>
    original_ipv4 r \<notin> set (dns # local_ipv4 @ reviewed_ips) \<and>
    target_ipv4 r \<notin> set (dns # local_ipv4) \<and> takeover \<noteq> Some (target_ipv4 r) \<and>
    original_ipv4 r \<noteq> target_ipv4 r"
  using assms by (rule process_rule_safe)

lemma demo_rule_parses:
  "parse_process_redirect_rule demo_redirect_config [''192.168.56.10''] ''8.8.8.8'' None []
     (Some (\<lambda>_ _. Inr (Some demo_identity))) ''Windows'' =
   Inr (Some \<lparr>r_protocol = ''TCP'', r_image_path = f_final_path demo_identity,
     r_image_sha256 = replicate 64 CHR ''a'', original_ipv4 = ''203.0.113.9'',
     target_ipv4 = ''192.168.56.20'', file_identity = demo_identity\<rparr>)"
  by (simp add: py_eval demo_redirect_config_def demo_identity_def)

theorem redirect_rule_safe_witness:
  "addr_in ''192.168.56.20'' RFC1918_NETWORKS \<and> \<not> addr_in ''203.0.113.9'' NON_GLOBAL_NETWORKS"
  using redirect_rule_safe [OF demo_rule_parses] by simp

end
