(* ===== verification/EgressConfig.thy ===== *)
theory EgressConfig
  imports ProcessRule "HOL-Library.List_Lexorder" "HOL-Library.Char_ord"
begin

text \<open>
  The configuration layer of \<open>fakenet/diverters/egresspolicy.py\<close>: hostnames, allowed domains,
  address classes, the takeover fields, the reviewed IPv4 rules and the checks of
  \<open>EgressPolicy.__init__\<close>. Configuration values are text, as \<open>configparser\<close> gives them. The IDNA
  encoding of a non-ASCII name (\<open>idna\<close>) and SHA-256 (\<open>sha256\<close>, in hexadecimal) are parameters.
\<close>

section \<open>Hostnames\<close>

datatype Verdict = REDIRECT_TLS_RELAY | ALLOW_INTERNAL_UPSTREAM | ALLOW_REVIEWED_IP
  | ALLOW_TAKEOVER_SINK | DIVERT_FAKE | REINJECT_LOCAL | DROP_EXTERNAL

type_synonym idna_codec = "string \<Rightarrow> string option"

text \<open>\<open>value.encode('idna')\<close>: an ASCII name is returned as it is when its labels have the
  permitted lengths; anything else is the codec's work.\<close>

definition encode_idna :: "idna_codec \<Rightarrow> string \<Rightarrow> string option" where
  "encode_idna idna value =
     (if value = [] then Some []
      else if list_all is_ascii value then
        (let labels = split_on CHR ''.'' value in
         if list_all (\<lambda>l. 0 < length l \<and> length l < 64) (butlast labels) \<and>
            length (last labels) < 64
         then Some value else None)
      else idna value)"

definition is_alnum :: "char \<Rightarrow> bool" where
  "is_alnum c \<longleftrightarrow> is_lower c \<or> is_digit c"

definition ldh_label :: "string \<Rightarrow> bool" where
  "ldh_label s \<longleftrightarrow> s \<noteq> [] \<and> is_alnum (hd s) \<and> is_alnum (last s) \<and>
     list_all (\<lambda>c. is_alnum c \<or> c = CHR ''-'') s"

text \<open>\<open>re.match(r'^[a-z0-9](?:[a-z0-9-]*[a-z0-9])?$', label)\<close>.\<close>

definition re_label :: "string \<Rightarrow> bool" where
  "re_label s \<longleftrightarrow> ldh_label s \<or> (s \<noteq> [] \<and> last s = newline \<and> ldh_label (butlast s))"

definition bad_hostname :: "string \<Rightarrow> bool" where
  "bad_hostname v \<longleftrightarrow> v = [] \<or> contains v ''://'' \<or> CHR ''/'' \<in> set v \<or> CHR ''*'' \<in> set v \<or>
     CHR '':'' \<in> set v \<or> list_ex is_space v"

definition normalize_hostname :: "idna_codec \<Rightarrow> string \<Rightarrow> string result" where
  "normalize_hostname idna raw = (let value = strip raw in
     if bad_hostname value
     then Inl (PolicyConfigError
       ''domain must be a hostname without scheme, port, path or wildcard'')
     else (let value = (if last value = CHR ''.'' then butlast value else value) in
       case encode_idna idna value of
         None \<Rightarrow> Inl (PolicyConfigError ''domain is not valid IDNA'')
       | Some ace \<Rightarrow>
           (let result = lower ace; labels = split_on CHR ''.'' result in
            if length result > 253 \<or>
               list_ex (\<lambda>l. l = [] \<or> length l > 63 \<or> \<not> re_label l) labels
            then Inl (PolicyConfigError ''domain has invalid labels'')
            else Inr result)))"

definition split_csv :: "string \<Rightarrow> string list" where
  "split_csv value = filter (\<lambda>p. p \<noteq> []) (map strip (split_on CHR '','' value))"

definition normalize_allowed_domain :: "idna_codec \<Rightarrow> string \<Rightarrow> string result" where
  "normalize_allowed_domain idna raw = (let value = strip raw in
     if starts_with value ''*.''
     then ebind (normalize_hostname idna (drop 2 value)) (\<lambda>h. Inr (''*.'' @ h))
     else normalize_hostname idna value)"

definition parse_allowed_domains :: "idna_codec \<Rightarrow> string \<Rightarrow> (string list \<times> string list) result" where
  "parse_allowed_domains idna raw =
     efold (\<lambda>item (exact, wildcards).
         ebind (normalize_allowed_domain idna item) (\<lambda>entry.
           if starts_with entry ''*.'' then Inr (exact, List.insert entry wildcards)
           else Inr (List.insert entry exact, wildcards)))
       (split_csv raw) ([], [])"

section \<open>Flows\<close>

type_synonym flow_key = "string \<times> string \<times> int \<times> string \<times> int"

definition flow_key :: "string \<Rightarrow> string \<Rightarrow> int \<Rightarrow> string \<Rightarrow> int \<Rightarrow> flow_key" where
  "flow_key proto src_ip sport dst_ip dport = (upper proto, src_ip, sport, dst_ip, dport)"

section \<open>Addresses\<close>

definition NON_REVIEWED_IPV4_NETWORKS :: "ipv4_network list" where
  "NON_REVIEWED_IPV4_NETWORKS =
     [(quad 0 0 0 0, 8), (quad 10 0 0 0, 8), (quad 100 64 0 0, 10), (quad 127 0 0 0, 8),
      (quad 169 254 0 0, 16), (quad 172 16 0 0, 12), (quad 192 0 0 0, 24),
      (quad 192 0 2 0, 24), (quad 192 88 99 0, 24), (quad 192 168 0 0, 16),
      (quad 198 18 0 0, 15), (quad 198 51 100 0, 24), (quad 203 0 113 0, 24),
      (quad 224 0 0 0, 4), (quad 240 0 0 0, 4)]"

definition is_global_ipv4 :: "string \<Rightarrow> bool" where
  "is_global_ipv4 value = (case ip_address value of
       Some (IPv4 w) \<Rightarrow> is_global w \<and> \<not> is_multicast w \<and> \<not> is_reserved w \<and>
         \<not> is_unspecified w \<and> \<not> is_loopback w \<and> \<not> is_link_local w \<and>
         \<not> list_ex (in_net w) NON_REVIEWED_IPV4_NETWORKS
     | _ \<Rightarrow> False)"

definition is_rfc1918_unicast_ipv4 :: "string \<Rightarrow> bool" where
  "is_rfc1918_unicast_ipv4 value = (case ip_address value of
       Some (IPv4 w) \<Rightarrow>
         list_ex (\<lambda>N. in_net w N \<and> w \<notin> set [network_address N, broadcast_address N])
           RFC1918_NETWORKS
     | _ \<Rightarrow> False)"

definition TAKEOVER_KEYS :: "string list" where
  "TAKEOVER_KEYS = [''externaltakeoveripv4'', ''externaltakeoverdnsttl'',
     ''externaltakeoverprobetcpports'', ''externaltakeoverprobetimeoutms'']"

definition parse_takeover_ipv4 :: "string \<Rightarrow> string result" where
  "parse_takeover_ipv4 value = (let raw = strip value in
     if raw = [] \<or> list_ex (contains raw) [''/'', '':'', '','', ''-'', ''://'']
     then Inl (PolicyConfigError ''ExternalTakeoverIPv4 must be one dotted-decimal IPv4 address'')
     else (case ip_address raw of
         None \<Rightarrow> Inl (PolicyConfigError ''ExternalTakeoverIPv4 must be a valid IPv4 address'')
       | Some (IPv6 _) \<Rightarrow>
           Inl (PolicyConfigError ''ExternalTakeoverIPv4 must be an RFC1918 IPv4 address'')
       | Some (IPv4 w) \<Rightarrow>
           if \<not> list_ex (in_net w) RFC1918_NETWORKS
           then Inl (PolicyConfigError ''ExternalTakeoverIPv4 must be an RFC1918 IPv4 address'')
           else if is_loopback w \<or> is_link_local w \<or> is_multicast w \<or> is_unspecified w \<or>
             is_reserved w \<or> show_ipv4 w = ''255.255.255.255''
           then Inl (PolicyConfigError ''ExternalTakeoverIPv4 is not a usable sink'')
           else Inr (show_ipv4 w)))"

definition parse_probe_port :: "string \<Rightarrow> int list \<Rightarrow> int list result" where
  "parse_probe_port part ports = (let part = strip part in
     if \<not> re_digits part
     then Inl (PolicyConfigError ''ExternalTakeoverProbeTCPPorts must contain decimal ports'')
     else ebind (py_int_exn part) (\<lambda>port.
       if \<not> (1 \<le> port \<and> port \<le> 65535)
       then Inl (PolicyConfigError ''ExternalTakeoverProbeTCPPorts contains an invalid port'')
       else if port \<in> set ports
       then Inl (PolicyConfigError ''ExternalTakeoverProbeTCPPorts contains a duplicate port'')
       else Inr (ports @ [port])))"

definition validate_takeover_probe_config :: "(string, string) dict \<Rightarrow> unit result" where
  "validate_takeover_probe_config config =
     (let raw_ports = strip (cfg_text config ''externaltakeoverprobetcpports'');
          parts = split_on CHR '','' raw_ports in
      ebind
        (if raw_ports = [] then Inr ()
         else if list_ex (\<lambda>p. strip p = []) parts
         then Inl (PolicyConfigError ''ExternalTakeoverProbeTCPPorts contains an empty item'')
         else ebind (efold parse_probe_port parts []) (\<lambda>ports.
           if length ports > 64
           then Inl (PolicyConfigError ''ExternalTakeoverProbeTCPPorts permits at most 64 ports'')
           else Inr ()))
        (\<lambda>_. let raw_timeout = strip (case dget config ''externaltakeoverprobetimeoutms'' of
                 None \<Rightarrow> ''500'' | Some v \<Rightarrow> v) in
          if \<not> re_digits raw_timeout
          then Inl (PolicyConfigError ''ExternalTakeoverProbeTimeoutMs must be an integer'')
          else ebind (py_int_exn raw_timeout) (\<lambda>timeout.
            if \<not> (100 \<le> timeout \<and> timeout \<le> 5000)
            then Inl (PolicyConfigError
              ''ExternalTakeoverProbeTimeoutMs must be between 100 and 5000'')
            else Inr ())))"

definition local_ipv4_snapshot :: "string list \<Rightarrow> string list" where
  "local_ipv4_snapshot values = foldl (\<lambda>result value.
       case ip_address value of
         Some (IPv4 w) \<Rightarrow>
           if \<not> is_unspecified w \<and> \<not> is_multicast w \<and> show_ipv4 w \<noteq> ''255.255.255.255''
           then List.insert (show_ipv4 w) result else result
       | _ \<Rightarrow> result) [''127.0.0.1''] values"

section \<open>Reviewed IPv4 rules\<close>

record ReviewedIPv4Rule =
  rule_id :: string
  rule_protocol :: string
  rule_ipv4 :: string
  port_scope :: string
  rule_port :: "int option"
  normalized :: string

record ReviewedRouteBinding =
  b_target_ipv4 :: string
  b_source_ipv4 :: string
  b_interface_index :: int

record ReviewedPacketTuple =
  p_protocol :: string
  p_source_ipv4 :: string
  p_source_port :: int
  p_target_ipv4 :: string
  p_target_port :: int
  p_interface_index :: int
  p_subinterface_index :: int
  p_outbound :: bool

text \<open>What one address is allowed: every port, or the listed ones.\<close>

datatype scope_entry = AllPorts ReviewedIPv4Rule | Ports "(int, ReviewedIPv4Rule) dict"

type_synonym match_index = "(string \<times> string, scope_entry) dict"

record rule_acc =
  acc_parsed :: "ReviewedIPv4Rule list"
  acc_seen :: "string list"
  acc_scopes :: "(string \<times> string, int option list) dict"
  acc_ips :: "string list"

definition parse_rule_port :: "string \<Rightarrow> int option result" where
  "parse_rule_port raw_port =
     (if raw_port = ''*'' then Inr None
      else if \<not> re_digits raw_port
      then Inl (PolicyConfigError ''reviewed IPv4 rule port must be * or decimal'')
      else ebind (py_int_exn raw_port) (\<lambda>port.
        if \<not> (1 \<le> port \<and> port \<le> 65535)
        then Inl (PolicyConfigError ''reviewed IPv4 rule port must be between 1 and 65535'')
        else Inr (Some port)))"

definition rule_text :: "string \<Rightarrow> string \<Rightarrow> int option \<Rightarrow> string" where
  "rule_text protocol ipv4 port =
     protocol @ ''/'' @ ipv4 @ ''/'' @ (case port of None \<Rightarrow> ''*'' | Some p \<Rightarrow> show_int p)"

text \<open>The checks of one rule up to its address and port.\<close>

definition parse_rule_fields :: "string \<Rightarrow> (string \<times> string \<times> int option) result" where
  "parse_rule_fields part = (case split_on CHR ''/'' (strip part) of
       [protocol, raw_ipv4, raw_port] \<Rightarrow>
         if protocol \<noteq> ''TCP'' \<and> protocol \<noteq> ''UDP''
         then Inl (PolicyConfigError ''reviewed IPv4 rule protocol must be TCP or UDP'')
         else if raw_ipv4 \<noteq> strip raw_ipv4 \<or> raw_ipv4 = []
         then Inl (PolicyConfigError ''reviewed IPv4 address is invalid'')
         else (case ip_address raw_ipv4 of
             None \<Rightarrow> Inl (PolicyConfigError
               ''reviewed IPv4 rule requires one canonical IPv4 address'')
           | Some (IPv6 _) \<Rightarrow> Inl (PolicyConfigError
               ''reviewed IPv4 rule requires a global unicast IPv4 address'')
           | Some (IPv4 w) \<Rightarrow>
               if show_ipv4 w \<noteq> raw_ipv4 \<or> \<not> is_global_ipv4 (show_ipv4 w)
               then Inl (PolicyConfigError
                 ''reviewed IPv4 rule requires a global unicast IPv4 address'')
               else ebind (parse_rule_port raw_port) (\<lambda>port.
                 Inr (protocol, show_ipv4 w, port)))
     | _ \<Rightarrow> Inl (PolicyConfigError ''reviewed IPv4 rules must use PROTOCOL/IPv4/PORT''))"

definition parse_rule_part ::
  "(string \<Rightarrow> string) \<Rightarrow> string \<Rightarrow> rule_acc \<Rightarrow> rule_acc result" where
  "parse_rule_part sha256 part acc =
     ebind (parse_rule_fields part) (\<lambda>(protocol, ipv4, port).
       let text = rule_text protocol ipv4 port; key = (protocol, ipv4);
           previous = (case dget (acc_scopes acc) key of None \<Rightarrow> [] | Some ps \<Rightarrow> ps) in
       if text \<in> set (acc_seen acc)
       then Inl (PolicyConfigError ''ExternalAllowedIPv4Rules contains a duplicate rule'')
       else if (port = None \<and> previous \<noteq> []) \<or> (port \<noteq> None \<and> None \<in> set previous)
       then Inl (PolicyConfigError ''reviewed IPv4 wildcard and exact ports conflict'')
       else Inr \<lparr>acc_parsed = acc_parsed acc @
              [\<lparr>rule_id = take 16 (sha256 text), rule_protocol = protocol, rule_ipv4 = ipv4,
                port_scope = (if port = None then ''all'' else ''exact''), rule_port = port,
                normalized = text\<rparr>],
            acc_seen = List.insert text (acc_seen acc),
            acc_scopes = dset key (List.insert port previous) (acc_scopes acc),
            acc_ips = List.insert ipv4 (acc_ips acc)\<rparr>)"

definition index_rule :: "match_index \<Rightarrow> ReviewedIPv4Rule \<Rightarrow> match_index" where
  "index_rule index rule = (let key = (rule_protocol rule, rule_ipv4 rule) in
     case rule_port rule of
       None \<Rightarrow> dset key (AllPorts rule) index
     | Some port \<Rightarrow>
         (case dget index key of
            Some (Ports ports) \<Rightarrow> dset key (Ports (dset port rule ports)) index
          | Some (AllPorts _) \<Rightarrow> index
          | None \<Rightarrow> dset key (Ports (dset port rule [])) index))"

definition ids_rule :: "(string, string list) dict \<Rightarrow> ReviewedIPv4Rule \<Rightarrow> (string, string list) dict"
  where "ids_rule ids rule =
     dset (rule_ipv4 rule)
       ((case dget ids (rule_ipv4 rule) of None \<Rightarrow> [] | Some l \<Rightarrow> l) @ [rule_id rule]) ids"

record reviewed_rules =
  rr_rules :: "ReviewedIPv4Rule list"
  rr_index :: match_index
  rr_ids :: "(string, string list) dict"
  rr_protocols :: "(string \<times> string) list"
  rr_sha256 :: string

definition no_reviewed_rules :: reviewed_rules where
  "no_reviewed_rules =
     \<lparr>rr_rules = [], rr_index = [], rr_ids = [], rr_protocols = [], rr_sha256 = []\<rparr>"

text \<open>The index and identifiers built from the sorted rules.\<close>

definition freeze_rules :: "(string \<Rightarrow> string) \<Rightarrow> ReviewedIPv4Rule list \<Rightarrow> reviewed_rules" where
  "freeze_rules sha256 parsed = (let rules = sort_key normalized parsed;
       index = foldl index_rule [] rules in
     \<lparr>rr_rules = rules, rr_index = index,
      rr_ids = map (\<lambda>(ip, ids). (ip, sort ids)) (foldl ids_rule [] rules),
      rr_protocols = dkeys index,
      rr_sha256 = sha256 (join_with '','' (map normalized rules))\<rparr>)"

definition parse_reviewed_ipv4_rules ::
  "(string \<Rightarrow> string) \<Rightarrow> (string, string) dict \<Rightarrow> string list \<Rightarrow> reviewed_rules result" where
  "parse_reviewed_ipv4_rules sha256 config config_keys =
     (if ''externalallowedipv4rules'' \<notin> set config_keys then Inr no_reviewed_rules
      else if list_ex (\<lambda>key. starts_with (lower (strip key)) ''tcp/'' \<or>
                             starts_with (lower (strip key)) ''udp/'') config_keys
      then Inl (PolicyConfigError ''reviewed IPv4 rule fragments cannot be separate options'')
      else (let raw = cfg_text config ''externalallowedipv4rules'';
                parts = split_on CHR '','' raw in
        if strip raw = [] \<or> list_ex (\<lambda>p. strip p = []) parts
        then Inl (PolicyConfigError ''ExternalAllowedIPv4Rules contains an empty rule'')
        else if length parts > 32
        then Inl (PolicyConfigError ''ExternalAllowedIPv4Rules permits at most 32 rules'')
        else ebind (efold (parse_rule_part sha256) parts
               \<lparr>acc_parsed = [], acc_seen = [], acc_scopes = [], acc_ips = []\<rparr>) (\<lambda>acc.
          if length (acc_ips acc) > 16
          then Inl (PolicyConfigError ''ExternalAllowedIPv4Rules permits at most 16 IPv4 addresses'')
          else Inr (freeze_rules sha256 (acc_parsed acc)))))"

text \<open>The lookup \<open>match_reviewed_ip\<close> makes in the index.\<close>

definition index_find :: "match_index \<Rightarrow> string \<Rightarrow> string \<Rightarrow> int \<Rightarrow> ReviewedIPv4Rule option" where
  "index_find index protocol ip port = (case dget index (protocol, ip) of
       None \<Rightarrow> None | Some (AllPorts r) \<Rightarrow> Some r | Some (Ports ps) \<Rightarrow> dget ps port)"

text \<open>\<open>_parse_reviewed_ipv4_rules\<close>: the same, checked against this machine's addresses.\<close>

definition parse_reviewed_ipv4_rules_local ::
  "(string \<Rightarrow> string) \<Rightarrow> (string, string) dict \<Rightarrow> string list \<Rightarrow> string list \<Rightarrow> string \<Rightarrow>
   string option \<Rightarrow> reviewed_rules result" where
  "parse_reviewed_ipv4_rules_local sha256 config config_keys local_ipv4 external_dns_server
     takeover_ipv4 =
   ebind (parse_reviewed_ipv4_rules sha256 config config_keys) (\<lambda>parsed.
     if list_ex (\<lambda>rule. rule_ipv4 rule \<in> set local_ipv4 \<or> rule_ipv4 rule = external_dns_server \<or>
           takeover_ipv4 = Some (rule_ipv4 rule)) (rr_rules parsed)
     then Inl (PolicyConfigError ''reviewed IPv4 rule conflicts with a protected address'')
     else Inr parsed)"

section \<open>The immutable half of EgressPolicy\<close>

record policy_config =
  takeover_enabled :: bool
  takeover_ipv4 :: "string option"
  takeover_dns_ttl :: "int option"
  allowed_domains :: "string list"
  allowed_wildcards :: "string list"
  allowed_tcp_ports :: "int list"
  non_allowed_action :: string
  relay_port :: int
  dns_timeout :: int
  hello_timeout :: int
  hello_max_bytes :: int
  max_pending :: int
  max_pending_per_source :: int
  max_active :: int
  max_active_per_source :: int
  relay_idle_timeout :: int
  relay_buffer_bytes :: int
  external_dns_server :: string
  init_local_ipv4 :: "string list"
  local_ipv6 :: "string list"
  reviewed :: reviewed_rules
  process_redirect_rule :: "ProcessRedirectRule option"

text \<open>\<open>int(config.get(key, default))\<close>.\<close>

definition cfg_int :: "(string, string) dict \<Rightarrow> string \<Rightarrow> int \<Rightarrow> int result" where
  "cfg_int config key dflt =
     (case dget config key of None \<Rightarrow> Inr dflt | Some v \<Rightarrow> py_int_exn v)"

text \<open>\<open>str(config.get(key, 'yes')).lower()\<close> is one of the spellings of yes.\<close>

definition cfg_yes :: "(string, string) dict \<Rightarrow> string \<Rightarrow> bool" where
  "cfg_yes config key =
     (lower (case dget config key of None \<Rightarrow> ''yes'' | Some v \<Rightarrow> v)
       \<in> set [''yes'', ''true'', ''on'', ''enabled''])"

definition require :: "bool \<Rightarrow> string \<Rightarrow> unit result" where
  "require ok message = (if ok then Inr () else Inl (PolicyConfigError message))"

text \<open>The takeover fields: \<open>(ipv4, ttl)\<close> when takeover is requested.\<close>

definition init_takeover :: "(string, string) dict \<Rightarrow> (string \<times> int) option result" where
  "init_takeover config = (let config_keys = map lower (dkeys config) in
     if ''externaltakeoveripv4'' \<notin> set config_keys then
       if list_ex (\<lambda>k. k \<in> set TAKEOVER_KEYS \<and> k \<noteq> ''externaltakeoveripv4'') config_keys
       then Inl (PolicyConfigError ''takeover-specific fields require ExternalTakeoverIPv4'')
       else Inr None
     else ebind (parse_takeover_ipv4 (cfg_text config ''externaltakeoveripv4'')) (\<lambda>ipv4.
       if ''externaltakeoverdnsttl'' \<notin> set config_keys
       then Inl (PolicyConfigError ''ExternalTakeoverDnsTTL is required in takeover mode'')
       else (let raw_ttl = strip (cfg_text config ''externaltakeoverdnsttl'') in
         if \<not> re_digits raw_ttl
         then Inl (PolicyConfigError ''ExternalTakeoverDnsTTL must be an integer'')
         else ebind (py_int_exn raw_ttl) (\<lambda>ttl.
           if \<not> (1 \<le> ttl \<and> ttl \<le> 300)
           then Inl (PolicyConfigError ''ExternalTakeoverDnsTTL must be between 1 and 300'')
           else ebind (validate_takeover_probe_config config) (\<lambda>_. Inr (Some (ipv4, ttl)))))))"

text \<open>The domains, ports, switches and action.\<close>

definition init_domains ::
  "idna_codec \<Rightarrow> (string, string) dict \<Rightarrow> bool \<Rightarrow> (string list \<times> string list \<times> string) result" where
  "init_domains idna config takeover =
     ebind (parse_allowed_domains idna (cfg_text config ''externalalloweddomains''))
       (\<lambda>(exact, wildcards).
     ebind (emap py_int_exn (split_csv (cfg_text config ''externalallowedtcpports''))) (\<lambda>ports.
     ebind (require (ports \<noteq> [] \<and> list_all (\<lambda>p. p = 443) ports)
       ''reviewed Windows mode only permits ExternalAllowedTCPPorts=443'') (\<lambda>_.
     ebind (require (cfg_yes config ''externalverifytlssni'') ''ExternalVerifyTLSSNI must be Yes'')
       (\<lambda>_.
     ebind (require (cfg_yes config ''externalblockexternalipv6'')
       ''ExternalBlockExternalIPv6 must be Yes'') (\<lambda>_.
     ebind (require (cfg_yes config ''externalblockquic'') ''ExternalBlockQUIC must be Yes'') (\<lambda>_.
     (let action = lower (case dget config ''externalnonallowedaction'' of
          None \<Rightarrow> ''divert'' | Some v \<Rightarrow> v) in
      ebind (require (action \<in> set [''divert'', ''drop''])
        ''ExternalNonAllowedAction must be Divert or Drop'') (\<lambda>_.
      ebind (require (\<not> takeover \<or> action = ''divert'')
        ''takeover mode requires ExternalNonAllowedAction=Divert'') (\<lambda>_.
      Inr (exact, wildcards, action))))))))))"

text \<open>The numbers, which must be the reviewed ones.\<close>

definition limit_fields :: "(string \<times> int) list" where
  "limit_fields =
     [(''externaltlshellotimeout'', 5), (''externaltlshellomaxbytes'', 65536),
      (''externalmaxpendingflows'', 256), (''externalmaxpendingpersource'', 32),
      (''externalmaxactiverelays'', 128), (''externalmaxactivepersource'', 16),
      (''externalrelayidletimeout'', 300), (''externalrelaybufferbytes'', 1048576)]"

definition init_limits :: "(string, string) dict \<Rightarrow> (int \<times> int \<times> int list) result" where
  "init_limits config =
     ebind (cfg_int config ''externalrelayport'' 38927) (\<lambda>relay.
     ebind (require (1 \<le> relay \<and> relay \<le> 65535) ''ExternalRelayPort is invalid'') (\<lambda>_.
     ebind (cfg_int config ''externaldnstimeout'' 3) (\<lambda>timeout.
     ebind (require (1 \<le> timeout \<and> timeout \<le> 30)
       ''ExternalDnsTimeout must be between 1 and 30 seconds'') (\<lambda>_.
     ebind (emap (\<lambda>(key, dflt). cfg_int config key dflt) limit_fields) (\<lambda>fixed.
     ebind (require (fixed = [5, 65536, 256, 32, 128, 16, 300, 1048576])
       ''Windows resource limits must match the reviewed values'') (\<lambda>_.
     Inr (relay, timeout, fixed)))))))"

definition init_dns_server :: "string \<Rightarrow> string result" where
  "init_dns_server server = (case ip_address server of
       None \<Rightarrow> Inl (PolicyConfigError ''ExternalDnsServer must resolve to IPv4'')
     | Some (IPv6 _) \<Rightarrow> Inl (PolicyConfigError ''ExternalDnsServer must be IPv4'')
     | Some (IPv4 w) \<Rightarrow>
         if is_loopback w \<or> is_link_local w \<or> is_multicast w \<or> is_unspecified w \<or> is_reserved w
         then Inl (PolicyConfigError ''ExternalDnsServer must be a usable unicast IPv4 address'')
         else Inr (show_ipv4 w))"

definition init_local_ipv6 :: "string list \<Rightarrow> string list" where
  "init_local_ipv6 values =
     remdups (map (\<lambda>v. lower (hd (split_on CHR ''%'' v))) values @ [''::1''])"

text \<open>\<open>except ValueError as exc: raise PolicyConfigError(str(exc))\<close>.\<close>

definition as_config_error :: "'a result \<Rightarrow> 'a result" where
  "as_config_error r = (case r of Inl (ValueError m) \<Rightarrow> Inl (PolicyConfigError m) | _ \<Rightarrow> r)"

definition init_policy ::
  "idna_codec \<Rightarrow> (string \<Rightarrow> string) \<Rightarrow> (string, string) dict \<Rightarrow> string list \<Rightarrow> string list \<Rightarrow>
   string \<Rightarrow> reviewer option \<Rightarrow> string \<Rightarrow> policy_config result" where
  "init_policy idna sha256 config local_v4 local_v6 dns_server reviewer platform_name =
     ebind (init_takeover config) (\<lambda>takeover.
     ebind (init_domains idna config (takeover \<noteq> None)) (\<lambda>(exact, wildcards, action).
     ebind (init_limits config) (\<lambda>(relay, timeout, fixed).
     ebind (init_dns_server dns_server) (\<lambda>dns.
     (let local4 = local_ipv4_snapshot local_v4; sink = map_option fst takeover in
      ebind (require (dns \<notin> set local4) ''ExternalDnsServer cannot be a local address'') (\<lambda>_.
      ebind (require (case sink of None \<Rightarrow> True | Some a \<Rightarrow> a \<notin> set local4)
        ''ExternalTakeoverIPv4 cannot be a local address'') (\<lambda>_.
      ebind (require (sink \<noteq> Some dns) ''ExternalTakeoverIPv4 cannot equal ExternalDnsServer'')
        (\<lambda>_.
      ebind (parse_reviewed_ipv4_rules_local sha256 config (map lower (dkeys config)) local4 dns
        sink) (\<lambda>rules.
      ebind (as_config_error (parse_process_redirect_rule config local4 dns sink
        (map rule_ipv4 (rr_rules rules)) reviewer platform_name)) (\<lambda>redirect.
      Inr \<lparr>takeover_enabled = (takeover \<noteq> None), takeover_ipv4 = sink,
        takeover_dns_ttl = map_option snd takeover, allowed_domains = exact,
        allowed_wildcards = wildcards, allowed_tcp_ports = [443], non_allowed_action = action,
        relay_port = relay, dns_timeout = timeout, hello_timeout = fixed ! 0,
        hello_max_bytes = fixed ! 1, max_pending = fixed ! 2, max_pending_per_source = fixed ! 3,
        max_active = fixed ! 4, max_active_per_source = fixed ! 5,
        relay_idle_timeout = fixed ! 6, relay_buffer_bytes = fixed ! 7,
        external_dns_server = dns, init_local_ipv4 = local4,
        local_ipv6 = init_local_ipv6 local_v6, reviewed = rules,
        process_redirect_rule = redirect\<rparr>))))))))))"

section \<open>Matching a name\<close>

definition match_allowed_domain :: "policy_config \<Rightarrow> string \<Rightarrow> string option" where
  "match_allowed_domain c name =
     (if name \<in> set (allowed_domains c) then Some name
      else find (\<lambda>pattern. let suffix = drop 1 pattern in
             ends_with name suffix \<and> length name > length suffix) (allowed_wildcards c))"

declare encode_idna_def [py_eval] is_alnum_def [py_eval] ldh_label_def [py_eval]
  re_label_def [py_eval] bad_hostname_def [py_eval] normalize_hostname_def [py_eval]
  split_csv_def [py_eval] normalize_allowed_domain_def [py_eval]
  parse_allowed_domains_def [py_eval] flow_key_def [py_eval]
  NON_REVIEWED_IPV4_NETWORKS_def [py_eval] is_global_ipv4_def [py_eval]
  is_rfc1918_unicast_ipv4_def [py_eval] TAKEOVER_KEYS_def [py_eval]
  parse_takeover_ipv4_def [py_eval] parse_probe_port_def [py_eval]
  validate_takeover_probe_config_def [py_eval] local_ipv4_snapshot_def [py_eval]
  parse_rule_port_def [py_eval] rule_text_def [py_eval] parse_rule_fields_def [py_eval]
  parse_rule_part_def [py_eval] index_rule_def [py_eval] ids_rule_def [py_eval]
  no_reviewed_rules_def [py_eval] freeze_rules_def [py_eval]
  parse_reviewed_ipv4_rules_def [py_eval] parse_reviewed_ipv4_rules_local_def [py_eval]
  cfg_int_def [py_eval] cfg_yes_def [py_eval] require_def [py_eval] init_takeover_def [py_eval]
  init_domains_def [py_eval] limit_fields_def [py_eval] init_limits_def [py_eval]
  init_dns_server_def [py_eval] init_local_ipv6_def [py_eval] as_config_error_def [py_eval]
  init_policy_def [py_eval] match_allowed_domain_def [py_eval]
  index_find_def [py_eval]

section \<open>Lemmas: hostnames\<close>

text \<open>The canonical form: what normalisation produces.\<close>

definition hostname_wf :: "string \<Rightarrow> bool" where
  "hostname_wf s \<longleftrightarrow> length s \<le> 253 \<and>
     list_all (\<lambda>l. ldh_label l \<and> length l \<le> 63) (split_on CHR ''.'' s)"

lemma hostname_wf_chars:
  assumes "hostname_wf s" and "x \<in> set s"
  shows "is_alnum x \<or> x = CHR ''-'' \<or> x = CHR ''.''"
proof -
  from assms(2) have "x \<in> set (join_with [CHR ''.''] (split_on CHR ''.'' s))"
    by (simp add: join_split)
  then have "x = CHR ''.'' \<or> (\<exists>p \<in> set (split_on CHR ''.'' s). x \<in> set p)"
    by (rule set_join_with)
  with assms(1) show ?thesis
    by (auto simp: hostname_wf_def list_all_iff ldh_label_def)
qed

lemma hostname_wf_last:
  assumes "hostname_wf s"
  shows "s \<noteq> []" and "last s \<noteq> CHR ''.''"
proof -
  let ?ps = "split_on CHR ''.'' s"
  have "last ?ps \<in> set ?ps" by (simp add: last_in_set)
  with assms have l: "ldh_label (last ?ps)" by (auto simp: hostname_wf_def list_all_iff)
  then have ne: "last ?ps \<noteq> []" by (simp add: ldh_label_def)
  from last_join_with [OF split_on_neq_Nil ne, of "CHR ''.''"]
  have "s \<noteq> [] \<and> last s = last (last ?ps)" by (simp add: join_split)
  with l show "s \<noteq> []" "last s \<noteq> CHR ''.''"
    by (auto simp: ldh_label_def is_alnum_def is_lower_def is_digit_def code_def)
qed

lemma alnum_simps:
  assumes "is_alnum x \<or> x = CHR ''-'' \<or> x = CHR ''.''"
  shows "\<not> is_space x" "is_ascii x" "lower_char x = x" "x \<noteq> CHR ''/''" "x \<noteq> CHR ''*''"
    "x \<noteq> CHR '':''"
  using assms
  by (auto simp: is_alnum_def is_lower_def is_digit_def is_space_def is_ascii_def code_def
      lower_char_def is_upper_def)

lemma normalize_wf: "hostname_wf s \<Longrightarrow> normalize_hostname idna s = Inr s"
proof -
  assume wf: "hostname_wf s"
  note ch = hostname_wf_chars [OF wf, THEN alnum_simps(1)]
    hostname_wf_chars [OF wf, THEN alnum_simps(2)] hostname_wf_chars [OF wf, THEN alnum_simps(3)]
    hostname_wf_chars [OF wf, THEN alnum_simps(4)] hostname_wf_chars [OF wf, THEN alnum_simps(5)]
    hostname_wf_chars [OF wf, THEN alnum_simps(6)]
  have st: "strip s = s" by (rule strip_no_space) (simp add: list_all_iff ch)
  have lo: "lower s = s" by (simp add: lower_def map_id_on ch)
  have nb: "\<not> bad_hostname s"
    using hostname_wf_last [OF wf] contains_sub [of s "''://''"] ch(1) ch(4) [of "CHR ''/''"]
      ch(5) [of "CHR ''*''"] ch(6) [of "CHR '':''"]
    by (auto simp: bad_hostname_def list_ex_iff)
  have labels: "ldh_label l" "length l \<le> 63" if "l \<in> set (split_on CHR ''.'' s)" for l
    using wf that by (auto simp: hostname_wf_def list_all_iff)
  have short: "0 < length l \<and> length l < 64" if "l \<in> set (split_on CHR ''.'' s)" for l
    using labels [OF that] by (auto simp: ldh_label_def)
  then have "encode_idna idna s = Some s"
    using ch(2) short [OF last_in_set [OF split_on_neq_Nil]]
    by (simp add: encode_idna_def list_all_iff in_set_butlastD)
  moreover have "\<not> list_ex (\<lambda>l. l = [] \<or> length l > 63 \<or> \<not> re_label l) (split_on CHR ''.'' s)"
    using labels short by (fastforce simp: list_ex_iff re_label_def)
  ultimately show ?thesis
    using st lo nb hostname_wf_last [OF wf] wf
    by (simp add: normalize_hostname_def hostname_wf_def)
qed

lemma normalize_hostname_wf:
  assumes idna: "\<And>s t. idna s = Some t \<Longrightarrow> newline \<notin> set t"
    and n: "normalize_hostname idna v = Inr r"
  shows "hostname_wf r"
proof -
  from n obtain u ace where nb: "\<not> bad_hostname (strip v)"
    and u: "u = strip v \<or> u = butlast (strip v)"
    and ace: "encode_idna idna u = Some ace" and r: "r = lower ace" and len: "length r \<le> 253"
    and labels: "\<And>l. l \<in> set (split_on CHR ''.'' r) \<Longrightarrow> length l \<le> 63 \<and> re_label l"
    by (auto simp: normalize_hostname_def Let_def list_ex_iff linorder_not_less
        split: if_splits option.splits)
  have "newline \<notin> set (strip v)"
    using nb by (auto simp: bad_hostname_def list_ex_iff is_space_def newline_def code_char_of)
  with u have "newline \<notin> set u" by (auto dest: in_set_butlastD)
  with ace idna have "newline \<notin> set ace"
    by (auto simp: encode_idna_def Let_def split: if_splits)
  then have nl: "newline \<notin> set r"
    unfolding r lower_def
    by (auto simp: lower_char_def is_upper_def newline_def split: if_splits)
  have "newline \<notin> set l" if "l \<in> set (split_on CHR ''.'' r)" for l
    using nl set_split_on [OF that] by auto
  then have "ldh_label l" if "l \<in> set (split_on CHR ''.'' r)" for l
    using labels [OF that] that by (metis last_in_set re_label_def)
  with labels len show ?thesis by (simp add: hostname_wf_def list_all_iff)
qed

lemma normalize_hostname_no_star:
  "normalize_hostname idna v = Inr h \<Longrightarrow> \<not> starts_with h ''*.''"
proof
  assume n: "normalize_hostname idna v = Inr h" and "starts_with h ''*.''"
  then obtain t where "h = ''*'' @ CHR ''.'' # t" by (auto simp: starts_with_iff)
  then have "''*'' \<in> set (split_on CHR ''.'' h)"
    using split_on_append [of "CHR ''.''" "''*''" t] by simp
  with n have "re_label ''*''"
    by (auto simp: normalize_hostname_def Let_def list_ex_iff split: if_splits option.splits)
  then show False by (simp add: re_label_def ldh_label_def py_eval)
qed

definition wildcard_entries :: "idna_codec \<Rightarrow> string list \<times> string list \<Rightarrow> bool" where
  "wildcard_entries idna = (\<lambda>(exact, wildcards).
     (\<forall>p \<in> set wildcards. \<exists>v h. p = ''*.'' @ h \<and> normalize_hostname idna v = Inr h) \<and>
     (\<forall>p \<in> set exact. \<exists>v. normalize_hostname idna v = Inr p))"

lemma parse_allowed_domains_Inr:
  assumes "parse_allowed_domains idna raw = Inr ew"
  shows "wildcard_entries idna ew"
  using assms unfolding parse_allowed_domains_def
proof (rule efold_invariant)
  show "wildcard_entries idna ([], [])" by (simp add: wildcard_entries_def)
next
  fix item and s t :: "string list \<times> string list"
  assume step: "(case s of (exact, wildcards) \<Rightarrow>
      ebind (normalize_allowed_domain idna item) (\<lambda>entry.
        if starts_with entry ''*.'' then Inr (exact, List.insert entry wildcards)
        else Inr (List.insert entry exact, wildcards))) = Inr t"
    and ok: "wildcard_entries idna s"
  obtain exact wildcards where s: "s = (exact, wildcards)" by force
  from step obtain entry where e: "normalize_allowed_domain idna item = Inr entry"
    by (auto simp: s ebind_Inr_iff)
  show "wildcard_entries idna t"
  proof (cases "starts_with (strip item) ''*.''")
    case True
    with e obtain v h where "entry = ''*.'' @ h" "normalize_hostname idna v = Inr h"
      by (auto simp: normalize_allowed_domain_def Let_def ebind_Inr_iff)
    moreover from this have "starts_with entry ''*.''" by (simp add: starts_with_def)
    ultimately show ?thesis using step ok e unfolding s wildcard_entries_def by fastforce
  next
    case False
    with e have "normalize_hostname idna (strip item) = Inr entry"
      by (simp add: normalize_allowed_domain_def Let_def)
    with normalize_hostname_no_star [OF this] step ok e show ?thesis
      by (auto simp: s wildcard_entries_def)
  qed
qed

lemma match_allowed_domain_iff:
  assumes "\<forall>p \<in> set (allowed_wildcards c). \<exists>h. p = ''*.'' @ h"
  shows "match_allowed_domain c name \<noteq> None \<longleftrightarrow> name \<in> set (allowed_domains c) \<or>
    (\<exists>h sub. ''*.'' @ h \<in> set (allowed_wildcards c) \<and> sub \<noteq> [] \<and> name = sub @ ''.'' @ h)"
    (is "_ \<longleftrightarrow> ?R")
proof -
  let ?P = "\<lambda>p. ends_with name (drop 1 p) \<and> length (drop 1 p) < length name"
  have m: "match_allowed_domain c name =
      (if name \<in> set (allowed_domains c) then Some name else find ?P (allowed_wildcards c))"
    by (simp add: match_allowed_domain_def Let_def)
  have "match_allowed_domain c name \<noteq> None \<longleftrightarrow> name \<in> set (allowed_domains c) \<or>
      (\<exists>p \<in> set (allowed_wildcards c). ends_with name (drop 1 p) \<and> length (drop 1 p) < length name)"
    using find_None_iff [of ?P "allowed_wildcards c"] unfolding m
    by (cases "name \<in> set (allowed_domains c)") (simp_all only: if_True if_False, blast+)
  also have "\<dots> \<longleftrightarrow> ?R"
    using assms by (fastforce simp: ends_with_iff)
  finally show ?thesis .
qed


section \<open>Lemmas: reviewed rules\<close>

abbreviation rule_key :: "ReviewedIPv4Rule \<Rightarrow> string \<times> string" where
  "rule_key r \<equiv> (rule_protocol r, rule_ipv4 r)"

definition rule_wf :: "ReviewedIPv4Rule \<Rightarrow> bool" where
  "rule_wf r \<longleftrightarrow> rule_protocol r \<in> {''TCP'', ''UDP''} \<and> is_global_ipv4 (rule_ipv4 r) \<and>
     (case rule_port r of None \<Rightarrow> port_scope r = ''all''
      | Some p \<Rightarrow> port_scope r = ''exact'' \<and> 1 \<le> p \<and> p \<le> 65535) \<and>
     normalized r = rule_text (rule_protocol r) (rule_ipv4 r) (rule_port r)"

definition no_conflict :: "ReviewedIPv4Rule list \<Rightarrow> bool" where
  "no_conflict rs \<longleftrightarrow> (\<forall>r \<in> set rs. \<forall>r' \<in> set rs.
     rule_key r = rule_key r' \<longrightarrow> rule_port r = None \<longrightarrow> rule_port r' = None)"

definition rules_ok :: "ReviewedIPv4Rule list \<Rightarrow> bool" where
  "rules_ok rs \<longleftrightarrow> list_all rule_wf rs \<and> distinct (map normalized rs) \<and> no_conflict rs"

lemma no_conflictD: "no_conflict rs \<Longrightarrow> r \<in> set rs \<Longrightarrow> r' \<in> set rs \<Longrightarrow>
    rule_key r = rule_key r' \<Longrightarrow> rule_port r = None \<Longrightarrow> rule_port r' = None"
  unfolding no_conflict_def by blast

lemma no_conflict_mono: "no_conflict rs \<Longrightarrow> set rs' \<subseteq> set rs \<Longrightarrow> no_conflict rs'"
  unfolding no_conflict_def by blast

lemma no_conflict_snoc:
  assumes "no_conflict rs"
    and "\<And>x. x \<in> set rs \<Longrightarrow> rule_key x = rule_key r \<Longrightarrow> rule_port x \<noteq> None \<and> rule_port r \<noteq> None"
  shows "no_conflict (rs @ [r])"
  unfolding no_conflict_def
proof (intro ballI impI)
  fix x y
  assume xy: "x \<in> set (rs @ [r])" "y \<in> set (rs @ [r])" "rule_key x = rule_key y"
    "rule_port x = None"
  consider "x \<in> set rs" "y \<in> set rs" | "x = r" "y = r" | "x = r" "y \<in> set rs"
    | "x \<in> set rs" "y = r" using xy by auto
  then show "rule_port y = None"
  proof cases
    case 1
    then show ?thesis using no_conflictD [OF assms(1)] xy by blast
  next
    case 2
    then show ?thesis using xy by simp
  next
    case 3
    then show ?thesis using assms(2) [of y] xy by simp
  next
    case 4
    then show ?thesis using assms(2) [of x] xy by simp
  qed
qed

definition scopes_ok :: "rule_acc \<Rightarrow> bool" where
  "scopes_ok acc \<longleftrightarrow> (\<forall>k. set (case dget (acc_scopes acc) k of None \<Rightarrow> [] | Some ps \<Rightarrow> ps) =
     rule_port ` {r \<in> set (acc_parsed acc). rule_key r = k})"

definition acc_ok :: "rule_acc \<Rightarrow> bool" where
  "acc_ok acc \<longleftrightarrow> rules_ok (acc_parsed acc) \<and>
     set (acc_seen acc) = normalized ` set (acc_parsed acc) \<and>
     set (acc_ips acc) = rule_ipv4 ` set (acc_parsed acc) \<and> distinct (acc_ips acc) \<and>
     scopes_ok acc"

lemma parse_rule_fields_Inr:
  assumes "parse_rule_fields part = Inr (protocol, ipv4, port)"
  shows "protocol \<in> {''TCP'', ''UDP''}" and "is_global_ipv4 ipv4"
    and "case port of None \<Rightarrow> True | Some p \<Rightarrow> 1 \<le> p \<and> p \<le> 65535"
  using assms
  by (auto simp: parse_rule_fields_def parse_rule_port_def ebind_Inr_iff
      split: list.splits if_splits option.splits ip_address.splits)

lemma parse_rule_part_ok:
  assumes "parse_rule_part sha256 part acc = Inr acc'" and ok: "acc_ok acc"
  shows "acc_ok acc' \<and> length (acc_parsed acc') = Suc (length (acc_parsed acc))"
proof -
  from assms(1) obtain protocol ipv4 port where
    f: "parse_rule_fields part = Inr (protocol, ipv4, port)"
    by (cases "parse_rule_fields part") (auto simp: parse_rule_part_def)
  let ?text = "rule_text protocol ipv4 port"
  let ?prev = "case dget (acc_scopes acc) (protocol, ipv4) of None \<Rightarrow> [] | Some ps \<Rightarrow> ps"
  let ?r = "\<lparr>rule_id = take 16 (sha256 ?text), rule_protocol = protocol, rule_ipv4 = ipv4,
     port_scope = (if port = None then ''all'' else ''exact''), rule_port = port,
     normalized = ?text\<rparr>"
  obtain r where r: "rule_key r = (protocol, ipv4)" "rule_port r = port" "normalized r = ?text"
     "port_scope r = (if port = None then ''all'' else ''exact'')"
    and new: "?text \<notin> set (acc_seen acc)"
    and conf: "\<not> (port = None \<and> ?prev \<noteq> [])" "\<not> (port \<noteq> None \<and> None \<in> set ?prev)"
    and acc': "acc' = \<lparr>acc_parsed = acc_parsed acc @ [r],
       acc_seen = List.insert ?text (acc_seen acc),
       acc_scopes = dset (protocol, ipv4) (List.insert port ?prev) (acc_scopes acc),
       acc_ips = List.insert ipv4 (acc_ips acc)\<rparr>"
    using assms(1) f that [of ?r] by (auto simp: parse_rule_part_def Let_def split: if_splits)
  have sc: "set ?prev = rule_port ` {x \<in> set (acc_parsed acc). rule_key x = (protocol, ipv4)}"
    using ok unfolding acc_ok_def scopes_ok_def by metis
  have wf: "rule_wf r"
    using parse_rule_fields_Inr [OF f] r by (auto simp: rule_wf_def split: option.splits)
  have c1: "rule_port x \<noteq> None \<and> rule_port r \<noteq> None"
    if "x \<in> set (acc_parsed acc)" "rule_key x = rule_key r" for x
  proof -
    have "rule_port x \<in> set ?prev" using that by (auto simp: sc r)
    with conf r show ?thesis by (metis empty_iff empty_set)
  qed
  have "no_conflict (acc_parsed acc @ [r])"
    using ok c1 by (intro no_conflict_snoc) (simp_all add: acc_ok_def rules_ok_def)
  then have rok: "rules_ok (acc_parsed acc')"
    using ok wf new r by (simp add: acc' acc_ok_def rules_ok_def)
  have "set (case dget (acc_scopes acc') k of None \<Rightarrow> [] | Some ps \<Rightarrow> ps) =
       rule_port ` {x \<in> set (acc_parsed acc'). rule_key x = k}" for k
  proof (cases "k = (protocol, ipv4)")
    case True
    have "{x \<in> set (acc_parsed acc'). rule_key x = k} =
        insert r {x \<in> set (acc_parsed acc). rule_key x = k}"
      using True r by (auto simp: acc')
    then show ?thesis using sc True r by (simp add: acc' dict_simps)
  next
    case False
    then have "{x \<in> set (acc_parsed acc'). rule_key x = k} =
        {x \<in> set (acc_parsed acc). rule_key x = k}" using r by (auto simp: acc')
    moreover have "dget (acc_scopes acc') k = dget (acc_scopes acc) k"
      using False by (simp add: acc' dict_simps)
    ultimately show ?thesis using ok unfolding acc_ok_def scopes_ok_def by metis
  qed
  then have "scopes_ok acc'" by (simp add: scopes_ok_def)
  with ok rok r show ?thesis by (auto simp: acc_ok_def acc')
qed

lemma parse_rule_parts_ok:
  assumes "efold (parse_rule_part sha256) parts acc = Inr acc'" and "acc_ok acc"
  shows "acc_ok acc' \<and> length (acc_parsed acc') = length (acc_parsed acc) + length parts"
  using assms
proof (induction parts arbitrary: acc)
  case (Cons p ps)
  from Cons.prems obtain m where m: "parse_rule_part sha256 p acc = Inr m"
    and r: "efold (parse_rule_part sha256) ps m = Inr acc'" by (auto simp: ebind_Inr_iff)
  from parse_rule_part_ok [OF m Cons.prems(2)] Cons.IH [OF r] show ?case by simp
qed simp

definition rule_covers :: "ReviewedIPv4Rule \<Rightarrow> string \<Rightarrow> string \<Rightarrow> int \<Rightarrow> bool" where
  "rule_covers r protocol ip port \<longleftrightarrow> rule_key r = (protocol, ip) \<and>
     (rule_port r = None \<or> rule_port r = Some port)"

lemma rules_ok_snoc: "rules_ok (rs @ [r]) \<Longrightarrow> rules_ok rs"
  by (auto simp: rules_ok_def intro: no_conflict_mono)

lemma rules_ok_same:
  assumes "rules_ok rs" "r \<in> set rs" "r' \<in> set rs" "rule_key r = rule_key r'"
    "rule_port r = rule_port r'"
  shows "r = r'"
proof -
  have "normalized r = normalized r'"
    using assms by (auto simp: rules_ok_def list_all_iff rule_wf_def)
  with assms show ?thesis by (auto simp: rules_ok_def distinct_map inj_on_def)
qed

definition index_ok :: "ReviewedIPv4Rule list \<Rightarrow> match_index \<Rightarrow> bool" where
  "index_ok rs index \<longleftrightarrow> (\<forall>k. case dget index k of
       None \<Rightarrow> (\<forall>r \<in> set rs. rule_key r \<noteq> k)
     | Some (AllPorts r) \<Rightarrow> r \<in> set rs \<and> rule_key r = k \<and> rule_port r = None
     | Some (Ports ps) \<Rightarrow> (\<exists>r \<in> set rs. rule_key r = k) \<and>
         (\<forall>r \<in> set rs. rule_key r = k \<longrightarrow> rule_port r \<noteq> None) \<and>
         (\<forall>p r. dget ps p = Some r \<longleftrightarrow> r \<in> set rs \<and> rule_key r = k \<and> rule_port r = Some p))"

lemma index_rule_ok:
  assumes ok: "rules_ok (rs @ [r])" and ix: "index_ok rs index"
  shows "index_ok (rs @ [r]) (index_rule index r)"
  unfolding index_ok_def
proof
  fix k
  from ok have nc: "no_conflict (rs @ [r])" by (simp add: rules_ok_def)
  have same: "x = r" if "x \<in> set rs" "rule_key x = rule_key r" "rule_port x = rule_port r" for x
    using rules_ok_same [OF ok, of x r] that by simp
  have conf: "rule_port x = None \<longleftrightarrow> rule_port r = None"
    if "x \<in> set rs" "rule_key x = rule_key r" for x
    using no_conflictD [OF nc, of x r] no_conflictD [OF nc, of r x] that by auto
  have fresh: "r \<notin> set rs" using ok by (auto simp: rules_ok_def)
  from ix have k: "case dget index k of
       None \<Rightarrow> (\<forall>r \<in> set rs. rule_key r \<noteq> k)
     | Some (AllPorts r) \<Rightarrow> r \<in> set rs \<and> rule_key r = k \<and> rule_port r = None
     | Some (Ports ps) \<Rightarrow> (\<exists>r \<in> set rs. rule_key r = k) \<and>
         (\<forall>r \<in> set rs. rule_key r = k \<longrightarrow> rule_port r \<noteq> None) \<and>
         (\<forall>p r. dget ps p = Some r \<longleftrightarrow> r \<in> set rs \<and> rule_key r = k \<and> rule_port r = Some p)"
    unfolding index_ok_def by blast
  show "case dget (index_rule index r) k of
       None \<Rightarrow> (\<forall>x \<in> set (rs @ [r]). rule_key x \<noteq> k)
     | Some (AllPorts x) \<Rightarrow> x \<in> set (rs @ [r]) \<and> rule_key x = k \<and> rule_port x = None
     | Some (Ports ps) \<Rightarrow> (\<exists>x \<in> set (rs @ [r]). rule_key x = k) \<and>
         (\<forall>x \<in> set (rs @ [r]). rule_key x = k \<longrightarrow> rule_port x \<noteq> None) \<and>
         (\<forall>p x. dget ps p = Some x \<longleftrightarrow> x \<in> set (rs @ [r]) \<and> rule_key x = k \<and>
            rule_port x = Some p)"
  proof (cases "rule_key r = k")
    case False
    then have "dget (index_rule index r) k = dget index k"
      by (auto simp: index_rule_def Let_def dict_simps split: option.splits scope_entry.splits)
    with k False show ?thesis by (auto split: option.splits scope_entry.splits)
  next
    case True
    show ?thesis
    proof (cases "rule_port r")
      case None
      with True show ?thesis by (auto simp: index_rule_def Let_def dict_simps)
    next
      case (Some p)
      show ?thesis
      proof (cases "dget index k")
        case None
        with k True Some show ?thesis
          by (auto simp: index_rule_def Let_def dict_simps)
      next
        case (Some e)
        with k True \<open>rule_port r = Some p\<close> conf same fresh show ?thesis
          by (cases e) (auto simp: index_rule_def Let_def dict_simps)
      qed
    qed
  qed
qed

lemma index_rules_ok: "rules_ok rs \<Longrightarrow> index_ok rs (foldl index_rule [] rs)"
proof (induction rs rule: rev_induct)
  case Nil
  then show ?case by (simp add: index_ok_def dict_simps)
next
  case (snoc r rs)
  then show ?case using index_rule_ok [OF snoc.prems] rules_ok_snoc [OF snoc.prems] by simp
qed

lemma index_find_iff:
  assumes "rules_ok rs" and "index_ok rs index"
  shows "index_find index protocol ip port = Some r \<longleftrightarrow>
    r \<in> set rs \<and> rule_covers r protocol ip port"
proof -
  let ?k = "(protocol, ip)"
  from assms(2) have k: "case dget index ?k of
       None \<Rightarrow> (\<forall>r \<in> set rs. rule_key r \<noteq> ?k)
     | Some (AllPorts r) \<Rightarrow> r \<in> set rs \<and> rule_key r = ?k \<and> rule_port r = None
     | Some (Ports ps) \<Rightarrow> (\<exists>r \<in> set rs. rule_key r = ?k) \<and>
         (\<forall>r \<in> set rs. rule_key r = ?k \<longrightarrow> rule_port r \<noteq> None) \<and>
         (\<forall>p r. dget ps p = Some r \<longleftrightarrow> r \<in> set rs \<and> rule_key r = ?k \<and> rule_port r = Some p)"
    unfolding index_ok_def by blast
  have one: "x = r" if "x \<in> set rs" "rule_key x = ?k" "rule_port x = None" "r \<in> set rs"
    "rule_key r = ?k" for x
    using that assms(1) rules_ok_same [OF assms(1), of x r] no_conflictD [of rs x r]
    unfolding rules_ok_def by simp
  show ?thesis
    using k one
    by (auto simp: index_find_def rule_covers_def split: option.splits scope_entry.splits)
qed

lemma set_sort_rules: "rules_ok rs \<Longrightarrow> rules_ok (sort_key normalized rs)"
  by (auto simp: rules_ok_def list_all_iff distinct_map intro: no_conflict_mono)

lemma parse_reviewed_rules_Inr:
  assumes "parse_reviewed_ipv4_rules sha256 config keys = Inr rr"
  shows "rules_ok (rr_rules rr)" and "length (rr_rules rr) \<le> 32"
    and "card (rule_ipv4 ` set (rr_rules rr)) \<le> 16" and "index_ok (rr_rules rr) (rr_index rr)"
    and "sorted (map normalized (rr_rules rr))"
proof -
  have "rules_ok (rr_rules rr) \<and> length (rr_rules rr) \<le> 32 \<and>
    card (rule_ipv4 ` set (rr_rules rr)) \<le> 16 \<and> index_ok (rr_rules rr) (rr_index rr) \<and>
    sorted (map normalized (rr_rules rr))"
  proof (cases "''externalallowedipv4rules'' \<in> set keys")
    case False
    with assms have "rr = no_reviewed_rules" by (simp add: parse_reviewed_ipv4_rules_def)
    then show ?thesis
      by (simp add: no_reviewed_rules_def rules_ok_def no_conflict_def index_ok_def dict_simps)
  next
    case True
    let ?s = "\<lparr>acc_parsed = [], acc_seen = [], acc_scopes = [], acc_ips = []\<rparr>"
    let ?parts = "split_on CHR '','' (cfg_text config ''externalallowedipv4rules'')"
    from True assms obtain acc where len: "length ?parts \<le> 32"
      and acc: "efold (parse_rule_part sha256) ?parts ?s = Inr acc"
      and ips: "length (acc_ips acc) \<le> 16" and rr: "rr = freeze_rules sha256 (acc_parsed acc)"
      by (auto simp: parse_reviewed_ipv4_rules_def Let_def ebind_Inr_iff linorder_not_less
          split: if_splits)
    have "acc_ok ?s" by (simp add: acc_ok_def rules_ok_def no_conflict_def scopes_ok_def
          dict_simps)
    with parse_rule_parts_ok [OF acc] have ok: "acc_ok acc"
      and n: "length (acc_parsed acc) = length ?parts" by simp_all
    have "card (rule_ipv4 ` set (acc_parsed acc)) = length (acc_ips acc)"
      using ok distinct_card unfolding acc_ok_def by metis
    moreover have "rules_ok (sort_key normalized (acc_parsed acc))"
      using ok by (simp add: acc_ok_def set_sort_rules)
    ultimately show ?thesis
      using len n ips index_rules_ok by (simp add: rr freeze_rules_def Let_def)
  qed
  then show "rules_ok (rr_rules rr)" "length (rr_rules rr) \<le> 32"
    "card (rule_ipv4 ` set (rr_rules rr)) \<le> 16" "index_ok (rr_rules rr) (rr_index rr)"
    "sorted (map normalized (rr_rules rr))" by simp_all
qed

lemma non_reviewed_covers: "covers NON_REVIEWED_IPV4_NETWORKS special_networks"
  by (simp add: covers_def NON_REVIEWED_IPV4_NETWORKS_def special_networks_def
      private_networks_def in_net_def quad_def)

lemma is_global_ipv4_iff:
  "is_global_ipv4 a \<longleftrightarrow> is_dotted a \<and> \<not> addr_in a NON_REVIEWED_IPV4_NETWORKS"
proof (cases "parse_ipv4 a")
  case None
  then have "ip_address a \<noteq> Some (IPv4 w)" for w by (simp add: ip_address_parse_ipv4)
  with None show ?thesis
    by (auto simp: is_global_ipv4_def is_dotted_def split: option.splits ip_address.splits)
next
  case (Some w)
  then have i: "ip_address a = Some (IPv4 w)" by (simp add: ip_address_parse_ipv4)
  show ?thesis
  proof (cases "list_ex (in_net w) NON_REVIEWED_IPV4_NETWORKS")
    case True
    with Some i show ?thesis by (simp add: is_global_ipv4_def addr_in_def)
  next
    case False
    with coversD [OF non_reviewed_covers] have "\<not> list_ex (in_net w) special_networks" by blast
    with Some i False show ?thesis
      by (simp add: is_global_ipv4_def addr_in_def is_dotted_def special_classes)
  qed
qed

text \<open>The only addresses the two classifications of public addresses treat differently are the
  documentation networks.\<close>

lemma global_vs_reviewed:
  assumes "global_ipv4 v = Some a"
  shows "is_global_ipv4 a \<longleftrightarrow> \<not> addr_in a RFC5737_NETWORKS"
proof -
  have "set NON_REVIEWED_IPV4_NETWORKS = set NON_GLOBAL_NETWORKS \<union> set RFC5737_NETWORKS"
    by (simp add: NON_REVIEWED_IPV4_NETWORKS_def NON_GLOBAL_NETWORKS_def RFC5737_NETWORKS_def)
      blast
  with assms show ?thesis
    by (auto simp: is_global_ipv4_iff global_ipv4_iff addr_in_def is_dotted_def list_ex_iff)
qed

lemma parse_takeover_ipv4_Inr: "parse_takeover_ipv4 v = Inr a \<Longrightarrow> addr_in a RFC1918_NETWORKS"
  by (auto simp: parse_takeover_ipv4_def Let_def addr_in_def
      split: if_splits option.splits ip_address.splits)

definition policy_config_ok :: "policy_config \<Rightarrow> bool" where
  "policy_config_ok c \<longleftrightarrow>
     max_pending c = 256 \<and> max_pending_per_source c = 32 \<and> max_active c = 128 \<and>
     max_active_per_source c = 16 \<and> hello_max_bytes c = 65536 \<and>
     non_allowed_action c \<in> {''divert'', ''drop''} \<and>
     1 \<le> relay_port c \<and> relay_port c \<le> 65535 \<and> 1 \<le> dns_timeout c \<and> dns_timeout c \<le> 30 \<and>
     is_dotted (external_dns_server c) \<and> external_dns_server c \<notin> set (init_local_ipv4 c) \<and>
     (takeover_enabled c \<longleftrightarrow> takeover_ipv4 c \<noteq> None) \<and>
     (takeover_ipv4 c \<noteq> None \<longrightarrow> non_allowed_action c = ''divert'' \<and>
        takeover_ipv4 c \<noteq> Some (external_dns_server c) \<and>
        addr_in (the (takeover_ipv4 c)) RFC1918_NETWORKS \<and>
        the (takeover_ipv4 c) \<notin> set (init_local_ipv4 c)) \<and>
     rules_ok (rr_rules (reviewed c)) \<and> length (rr_rules (reviewed c)) \<le> 32 \<and>
     index_ok (rr_rules (reviewed c)) (rr_index (reviewed c)) \<and>
     list_all (\<lambda>r. rule_ipv4 r \<notin> set (external_dns_server c # init_local_ipv4 c) \<and>
       takeover_ipv4 c \<noteq> Some (rule_ipv4 r)) (rr_rules (reviewed c))"


lemma require_Inr [simp]: "require b m = Inr u \<longleftrightarrow> b"
  by (auto simp: require_def)

lemma init_takeover_Inr:
  "init_takeover config = Inr (Some (a, ttl)) \<Longrightarrow>
     addr_in a RFC1918_NETWORKS \<and> 1 \<le> ttl \<and> ttl \<le> 300"
  by (auto simp: init_takeover_def Let_def ebind_Inr_iff dest!: parse_takeover_ipv4_Inr
      split: if_splits)

lemma init_domains_Inr:
  "init_domains idna config t = Inr (exact, wildcards, action) \<Longrightarrow>
     parse_allowed_domains idna (cfg_text config ''externalalloweddomains'') = Inr (exact, wildcards) \<and>
     action \<in> {''divert'', ''drop''} \<and> (t \<longrightarrow> action = ''divert'')"
  by (auto simp: init_domains_def Let_def ebind_Inr_iff)

lemma init_limits_Inr:
  "init_limits config = Inr (relay, timeout, fixed) \<Longrightarrow>
     1 \<le> relay \<and> relay \<le> 65535 \<and> 1 \<le> timeout \<and> timeout \<le> 30 \<and>
     fixed = [5, 65536, 256, 32, 128, 16, 300, 1048576]"
  by (auto simp: init_limits_def ebind_Inr_iff)

lemma init_dns_server_Inr: "init_dns_server s = Inr dns \<Longrightarrow> is_dotted dns"
  by (auto simp: init_dns_server_def is_dotted_def split: option.splits ip_address.splits if_splits)

lemma as_config_error_Inr [simp]: "as_config_error r = Inr x \<longleftrightarrow> r = Inr x"
  by (auto simp: as_config_error_def split: sum.splits exn.splits)

lemma init_policy_ok:
  assumes "init_policy idna sha256 config local_v4 local_v6 dns_server reviewer platform = Inr c"
  shows "policy_config_ok c"
proof -
  from assms obtain takeover exact wildcards action relay timeout fixed dns rules redirect where
    t: "init_takeover config = Inr takeover"
    and d: "init_domains idna config (takeover \<noteq> None) = Inr (exact, wildcards, action)"
    and l: "init_limits config = Inr (relay, timeout, fixed)"
    and s: "init_dns_server dns_server = Inr dns"
    and dl: "dns \<notin> set (local_ipv4_snapshot local_v4)"
    and tl: "case map_option fst takeover of None \<Rightarrow> True
      | Some a \<Rightarrow> a \<notin> set (local_ipv4_snapshot local_v4)"
    and td: "map_option fst takeover \<noteq> Some dns"
    and r: "parse_reviewed_ipv4_rules_local sha256 config (map lower (dkeys config))
        (local_ipv4_snapshot local_v4) dns (map_option fst takeover) = Inr rules"
    and c: "c = \<lparr>takeover_enabled = (takeover \<noteq> None), takeover_ipv4 = map_option fst takeover,
        takeover_dns_ttl = map_option snd takeover, allowed_domains = exact,
        allowed_wildcards = wildcards, allowed_tcp_ports = [443], non_allowed_action = action,
        relay_port = relay, dns_timeout = timeout, hello_timeout = fixed ! 0,
        hello_max_bytes = fixed ! 1, max_pending = fixed ! 2, max_pending_per_source = fixed ! 3,
        max_active = fixed ! 4, max_active_per_source = fixed ! 5,
        relay_idle_timeout = fixed ! 6, relay_buffer_bytes = fixed ! 7,
        external_dns_server = dns, init_local_ipv4 = local_ipv4_snapshot local_v4,
        local_ipv6 = init_local_ipv6 local_v6, reviewed = rules,
        process_redirect_rule = redirect\<rparr>"
    unfolding init_policy_def ebind_Inr_iff Let_def by (simp add: ebind_Inr_iff) blast
  from r have rp: "parse_reviewed_ipv4_rules sha256 config (map lower (dkeys config)) = Inr rules"
    and rl: "\<forall>x \<in> set (rr_rules rules). rule_ipv4 x \<notin> set (dns # local_ipv4_snapshot local_v4) \<and>
        map_option fst takeover \<noteq> Some (rule_ipv4 x)"
    by (auto simp: parse_reviewed_ipv4_rules_local_def ebind_Inr_iff list_ex_iff split: if_splits)
  from parse_reviewed_rules_Inr [OF rp] init_limits_Inr [OF l] init_domains_Inr [OF d]
    init_dns_server_Inr [OF s] dl td rl
  show ?thesis
    using t tl by (cases takeover) (auto simp: c policy_config_ok_def list_all_iff init_takeover_Inr)
qed

section \<open>A concrete configuration\<close>

definition demo_config :: "(string, string) dict" where
  "demo_config =
     [(''externalalloweddomains'', ''Example.com, *.cdn.example.org''),
      (''externalallowedtcpports'', ''443''),
      (''externaltakeoveripv4'', ''10.20.30.40''), (''externaltakeoverdnsttl'', ''30''),
      (''externalallowedipv4rules'', ''UDP/8.8.4.4/*, TCP/8.8.4.4/443'')]"

definition demo_sha256 :: "string \<Rightarrow> string" where
  "demo_sha256 s = replicate 64 CHR ''0''"

definition demo_rule :: "string \<Rightarrow> int option \<Rightarrow> ReviewedIPv4Rule" where
  "demo_rule protocol port = \<lparr>rule_id = replicate 16 CHR ''0'', rule_protocol = protocol,
     rule_ipv4 = ''8.8.4.4'', port_scope = (if port = None then ''all'' else ''exact''),
     rule_port = port, normalized = rule_text protocol ''8.8.4.4'' port\<rparr>"

definition demo_rules :: reviewed_rules where
  "demo_rules = \<lparr>rr_rules = [demo_rule ''TCP'' (Some 443), demo_rule ''UDP'' None],
     rr_index = [((''TCP'', ''8.8.4.4''), Ports [(443, demo_rule ''TCP'' (Some 443))]),
       ((''UDP'', ''8.8.4.4''), AllPorts (demo_rule ''UDP'' None))],
     rr_ids = [(''8.8.4.4'', [replicate 16 CHR ''0'', replicate 16 CHR ''0''])],
     rr_protocols = [(''TCP'', ''8.8.4.4''), (''UDP'', ''8.8.4.4'')],
     rr_sha256 = replicate 64 CHR ''0''\<rparr>"

definition demo_policy_config :: policy_config where
  "demo_policy_config = \<lparr>takeover_enabled = True, takeover_ipv4 = Some ''10.20.30.40'',
     takeover_dns_ttl = Some 30, allowed_domains = [''example.com''],
     allowed_wildcards = [''*.cdn.example.org''], allowed_tcp_ports = [443],
     non_allowed_action = ''divert'', relay_port = 38927, dns_timeout = 3, hello_timeout = 5,
     hello_max_bytes = 65536, max_pending = 256, max_pending_per_source = 32, max_active = 128,
     max_active_per_source = 16, relay_idle_timeout = 300, relay_buffer_bytes = 1048576,
     external_dns_server = ''8.8.8.8'', init_local_ipv4 = [''192.168.56.10'', ''127.0.0.1''],
     local_ipv6 = [''::1''], reviewed = demo_rules, process_redirect_rule = None\<rparr>"

lemma demo_takeover: "init_takeover demo_config = Inr (Some (''10.20.30.40'', 30))"
  by (simp add: py_eval demo_config_def)

lemma demo_domains:
  "parse_allowed_domains (\<lambda>_. None) (cfg_text demo_config ''externalalloweddomains'') =
     Inr ([''example.com''], [''*.cdn.example.org''])"
  by (simp add: py_eval demo_config_def)

lemma demo_parse_rules:
  "parse_reviewed_ipv4_rules demo_sha256 demo_config (map lower (dkeys demo_config)) =
     Inr demo_rules"
  by (simp add: py_eval demo_config_def demo_rules_def demo_rule_def demo_sha256_def)

lemma demo_init_policy:
  "init_policy (\<lambda>_. None) demo_sha256 demo_config [''192.168.56.10''] [] ''8.8.8.8'' None ''Windows''
     = Inr demo_policy_config"
proof -
  have d: "init_domains (\<lambda>_. None) demo_config True =
      Inr ([''example.com''], [''*.cdn.example.org''], ''divert'')"
    using demo_domains unfolding init_domains_def by (simp add: py_eval demo_config_def)
  have l: "init_limits demo_config =
      Inr (38927, 3, [5, 65536, 256, 32, 128, 16, 300, 1048576])"
    by (simp add: py_eval demo_config_def)
  have s: "local_ipv4_snapshot [''192.168.56.10''] = [''192.168.56.10'', ''127.0.0.1'']"
    by (simp add: py_eval)
  have n: "init_dns_server ''8.8.8.8'' = Inr ''8.8.8.8''" by (simp add: py_eval)
  have r: "parse_process_redirect_rule demo_config ls d t rs rv ''Windows'' = Inr None"
    for ls d t rs rv
    by (simp add: py_eval demo_config_def)
  have v6: "init_local_ipv6 [] = [''::1'']" by (simp add: py_eval)
  show ?thesis
    unfolding init_policy_def demo_takeover d l n s parse_reviewed_ipv4_rules_local_def
      demo_parse_rules
    by (simp add: d l n s r v6 demo_parse_rules require_def as_config_error_def
        demo_policy_config_def demo_rules_def demo_rule_def)
qed

section \<open>Properties\<close>

text \<open>Hostname normalisation yields the canonical form and is idempotent: the result has at
  most 253 characters, every label has 1 to 63 letters, digits and inner hyphens, and
  normalising it again changes nothing. The codec is assumed to produce no line feed.\<close>

theorem hostname_normal_form:
  assumes "\<And>s t. idna s = Some t \<Longrightarrow> newline \<notin> set t"
    and "normalize_hostname idna v = Inr r"
  shows "hostname_wf r \<and> normalize_hostname idna r = Inr r"
  using normalize_hostname_wf [of idna v r] normalize_wf [of r idna] assms by blast

theorem hostname_normal_form_witness:
  "hostname_wf ''www.example.com'' \<and>
   normalize_hostname (\<lambda>_. None) '' Www.Example.COM. '' = Inr ''www.example.com''"
proof -
  have n: "normalize_hostname (\<lambda>_. None) '' Www.Example.COM. '' = Inr ''www.example.com''"
    by (simp add: py_eval)
  show ?thesis using hostname_normal_form [OF _ n] n by simp
qed

text \<open>A name is allowed exactly when it is one of the configured domains or a strict
  subdomain of a configured wildcard: \<open>*.h\<close> covers \<open>sub.h\<close> with a non-empty \<open>sub\<close>, and not the
  apex \<open>h\<close>.\<close>

theorem allowed_domain_match:
  assumes "parse_allowed_domains idna raw = Inr (allowed_domains c, allowed_wildcards c)"
  shows "match_allowed_domain c name \<noteq> None \<longleftrightarrow> name \<in> set (allowed_domains c) \<or>
    (\<exists>h sub. ''*.'' @ h \<in> set (allowed_wildcards c) \<and> sub \<noteq> [] \<and> name = sub @ ''.'' @ h)"
  using parse_allowed_domains_Inr [OF assms]
  by (intro match_allowed_domain_iff) (auto simp: wildcard_entries_def)

theorem allowed_domain_match_witness:
  "match_allowed_domain demo_policy_config ''a.cdn.example.org'' \<noteq> None \<and>
   match_allowed_domain demo_policy_config ''cdn.example.org'' = None"
proof -
  have p: "parse_allowed_domains (\<lambda>_. None) (cfg_text demo_config ''externalalloweddomains'') =
     Inr (allowed_domains demo_policy_config, allowed_wildcards demo_policy_config)"
    by (simp add: demo_domains demo_policy_config_def)
  have "match_allowed_domain demo_policy_config ''a.cdn.example.org'' \<noteq> None"
    unfolding allowed_domain_match [OF p]
    by (simp add: demo_policy_config_def)
  moreover have "match_allowed_domain demo_policy_config ''cdn.example.org'' = None"
    by (simp add: demo_policy_config_def match_allowed_domain_def ends_with_def starts_with_def)
  ultimately show ?thesis by simp
qed

text \<open>\<open>is_global_ipv4\<close>, written as a list of class tests and a list of networks, accepts exactly
  the dotted IPv4 addresses outside the fifteen listed networks: the class tests add nothing.\<close>

theorem is_global_ipv4_spec:
  "is_global_ipv4 a \<longleftrightarrow> is_dotted a \<and> \<not> addr_in a NON_REVIEWED_IPV4_NETWORKS"
  by (rule is_global_ipv4_iff)

text \<open>The index that the reviewed rule parser builds answers as a scan of the rules does:
  a lookup gives a rule exactly when that rule is in the list and covers the protocol, the address
  and the port. The parser accepts at most 32 rules for at most 16 addresses, all of them
  well-formed, pairwise different and with no address that has both a wildcard and a port.\<close>

theorem reviewed_rules_index:
  assumes "parse_reviewed_ipv4_rules sha256 config keys = Inr rr"
  shows "(index_find (rr_index rr) protocol ip port = Some r \<longleftrightarrow>
       r \<in> set (rr_rules rr) \<and> rule_covers r protocol ip port) \<and>
     rules_ok (rr_rules rr) \<and> length (rr_rules rr) \<le> 32 \<and>
     card (rule_ipv4 ` set (rr_rules rr)) \<le> 16"
  using parse_reviewed_rules_Inr [OF assms] index_find_iff [of "rr_rules rr" "rr_index rr"]
  by simp

theorem reviewed_rules_index_witness:
  "index_find (rr_index demo_rules) ''UDP'' ''8.8.4.4'' 53 = Some (demo_rule ''UDP'' None) \<and>
   index_find (rr_index demo_rules) ''TCP'' ''8.8.4.4'' 80 = None"
proof -
  have "index_find (rr_index demo_rules) ''UDP'' ''8.8.4.4'' 53 = Some (demo_rule ''UDP'' None)"
    using reviewed_rules_index [OF demo_parse_rules, of "''UDP''" "''8.8.4.4''" 53
        "demo_rule ''UDP'' None"]
    by (simp add: demo_rules_def rule_covers_def) (simp add: demo_rule_def)
  moreover have "index_find (rr_index demo_rules) ''TCP'' ''8.8.4.4'' 80 = None"
    by (simp add: demo_rules_def index_find_def dget_def)
  ultimately show ?thesis by simp
qed

text \<open>A configuration that \<open>EgressPolicy.__init__\<close> accepts is consistent: the resource limits
  are the reviewed ones, the action is divert or drop (divert in takeover mode), the DNS server is
  an IPv4 address that is not local, the takeover sink is private, not local and not the DNS
  server, and no reviewed rule names the DNS server, the sink or a local address.\<close>

theorem init_policy_consistent:
  assumes "init_policy idna sha256 config local_v4 local_v6 dns_server reviewer platform = Inr c"
  shows "policy_config_ok c"
  using assms by (rule init_policy_ok)

theorem init_policy_consistent_witness: "policy_config_ok demo_policy_config"
  using init_policy_consistent [OF demo_init_policy] .

end
