(* ===== verification/RelayNat.thy ===== *)
theory RelayNat
  imports EgressConfig
begin

text \<open>
  The relay NAT tables of \<open>EgressPolicy\<close> (\<open>fakenet/diverters/egresspolicy.py\<close>): mappings between a
  sample's flow and the TLS relay. A mapping object is shared by four tables and mutated in
  place, so the tables hold its generation number and \<open>nat_objs\<close> holds the object; two
  references are the same object exactly when the numbers are equal. \<open>nat_generation\<close> lists the
  keys of \<open>_nat_generation\<close>, each of which is bound to the object of that number.
\<close>

section \<open>State\<close>

record RelayNatMapping =
  generation :: int
  m_domain :: string
  sample_ip :: string
  sample_port :: int
  server_ip :: string
  server_port :: int
  m_relay_ip :: string
  m_relay_port :: int
  created_at :: time
  expires_at :: time
  consumed :: bool
  active :: bool

definition forward_key :: "RelayNatMapping \<Rightarrow> flow_key" where
  "forward_key m = flow_key ''TCP'' (sample_ip m) (sample_port m) (server_ip m) (server_port m)"

definition reverse_key :: "RelayNatMapping \<Rightarrow> flow_key" where
  "reverse_key m = flow_key ''TCP'' (m_relay_ip m) (m_relay_port m) (sample_ip m) (sample_port m)"

definition client_key :: "RelayNatMapping \<Rightarrow> string \<times> int" where
  "client_key m = (sample_ip m, sample_port m)"

record nat_tables =
  gen_counter :: int
  nat_objs :: "(int, RelayNatMapping) dict"
  nat_forward :: "(flow_key, int) dict"
  nat_reverse :: "(flow_key, int) dict"
  nat_client :: "(string \<times> int, int) dict"
  nat_generation :: "int list"
  nat_pending :: int
  nat_pending_by_source :: "(string, int) dict"
  nat_active :: int
  nat_active_by_source :: "(string, int) dict"
  tombstones :: "(flow_key, time) dict"
  client_tombstones :: "(string \<times> int, time) dict"

record nat_limits =
  lim_pending :: int
  lim_pending_per_source :: int
  lim_active :: int
  lim_active_per_source :: int

definition RELAY_TOMBSTONE_SECONDS :: time where
  "RELAY_TOMBSTONE_SECONDS = 120"

definition RELAY_TEARDOWN_GRACE_SECONDS :: time where
  "RELAY_TEARDOWN_GRACE_SECONDS = 5"

definition nat_empty :: nat_tables where
  "nat_empty = \<lparr>gen_counter = 0, nat_objs = [], nat_forward = [], nat_reverse = [],
     nat_client = [], nat_generation = [], nat_pending = 0, nat_pending_by_source = [],
     nat_active = 0, nat_active_by_source = [], tombstones = [], client_tombstones = []\<rparr>"

section \<open>Operations\<close>

definition release_pending :: "string \<Rightarrow> nat_tables \<Rightarrow> nat_tables" where
  "release_pending ip n =
     (if cget (nat_pending_by_source n) ip \<noteq> 0
      then n\<lparr>nat_pending := nat_pending n - 1,
             nat_pending_by_source := cdec ip (nat_pending_by_source n)\<rparr>
      else n)"

definition release_active :: "string \<Rightarrow> nat_tables \<Rightarrow> nat_tables" where
  "release_active ip n =
     (if cget (nat_active_by_source n) ip \<noteq> 0
      then n\<lparr>nat_active := nat_active n - 1,
             nat_active_by_source := cdec ip (nat_active_by_source n)\<rparr>
      else n)"

definition release_slot :: "RelayNatMapping \<Rightarrow> nat_tables \<Rightarrow> nat_tables" where
  "release_slot m n =
     (if active m then release_active (sample_ip m) n else release_pending (sample_ip m) n)"

definition set_tombstones :: "RelayNatMapping \<Rightarrow> time \<Rightarrow> nat_tables \<Rightarrow> nat_tables" where
  "set_tombstones m now n =
     n\<lparr>tombstones := dset (forward_key m) (now + RELAY_TOMBSTONE_SECONDS) (tombstones n),
       client_tombstones :=
         dset (client_key m) (now + RELAY_TOMBSTONE_SECONDS) (client_tombstones n)\<rparr>"

text \<open>\<open>if table.get(key) is mapping: table.pop(key)\<close>.\<close>

definition del_if :: "'k \<Rightarrow> int \<Rightarrow> ('k, int) dict \<Rightarrow> ('k, int) dict" where
  "del_if k g d = (if dget d k = Some g then ddel k d else d)"

definition remove_mapping :: "time \<Rightarrow> int \<Rightarrow> nat_tables \<Rightarrow> nat_tables" where
  "remove_mapping now g n = (case dget (nat_objs n) g of
       None \<Rightarrow> n
     | Some m \<Rightarrow>
         (let n1 = release_slot m n in
          set_tombstones m now
            (n1\<lparr>nat_forward := del_if (forward_key m) g (nat_forward n1),
                nat_reverse := del_if (reverse_key m) g (nat_reverse n1),
                nat_client := del_if (client_key m) g (nat_client n1),
                nat_generation := removeAll g (nat_generation n1)\<rparr>)))"

definition retain_mapping_for_teardown :: "time \<Rightarrow> time \<Rightarrow> int \<Rightarrow> nat_tables \<Rightarrow> nat_tables" where
  "retain_mapping_for_teardown now grace g n = (case dget (nat_objs n) g of
       None \<Rightarrow> n
     | Some m \<Rightarrow>
         (let n1 = release_slot m n in
          set_tombstones m now
            (n1\<lparr>nat_objs := dset g (m\<lparr>active := False, expires_at := now + grace\<rparr>) (nat_objs n1),
                nat_generation := removeAll g (nat_generation n1),
                nat_client := ddel (client_key m) (nat_client n1)\<rparr>)))"

definition obj_expires :: "nat_tables \<Rightarrow> int \<Rightarrow> time option" where
  "obj_expires n g = map_option expires_at (dget (nat_objs n) g)"

text \<open>An object that a table refers to always exists; a missing one would not be expired.\<close>

definition obj_expired :: "nat_tables \<Rightarrow> time \<Rightarrow> int \<Rightarrow> bool" where
  "obj_expired n now g = (case obj_expires n g of None \<Rightarrow> False | Some e \<Rightarrow> e \<le> now)"

text \<open>The NAT part of \<open>_cleanup_locked\<close>: the loop runs over a snapshot of the generations, then
  the retained entries and the tombstones are filtered.\<close>

definition expire_generations :: "time \<Rightarrow> nat_tables \<Rightarrow> nat_tables" where
  "expire_generations now n =
     fold (\<lambda>g n. if obj_expired n now g then remove_mapping now g n else n) (nat_generation n) n"

definition nat_cleanup :: "time \<Rightarrow> nat_tables \<Rightarrow> nat_tables" where
  "nat_cleanup now n = (let n1 = expire_generations now n in
     n1\<lparr>nat_forward := filter (\<lambda>(k, g). \<not> obj_expired n1 now g) (nat_forward n1),
        nat_reverse := filter (\<lambda>(k, g). \<not> obj_expired n1 now g) (nat_reverse n1),
        tombstones := filter (\<lambda>(k, e). e > now) (tombstones n1),
        client_tombstones := filter (\<lambda>(k, e). e > now) (client_tombstones n1)\<rparr>)"

text \<open>What \<open>_suspend_locked\<close> and \<open>close\<close> do to the tables; only the latter drops the
  tombstones.\<close>

definition nat_clear :: "nat_tables \<Rightarrow> nat_tables" where
  "nat_clear n = n\<lparr>nat_forward := [], nat_reverse := [], nat_client := [], nat_generation := [],
     nat_pending := 0, nat_pending_by_source := [], nat_active := 0, nat_active_by_source := []\<rparr>"

definition nat_close :: "nat_tables \<Rightarrow> nat_tables" where
  "nat_close n = (nat_clear n)\<lparr>tombstones := [], client_tombstones := []\<rparr>"

definition tombstoned :: "('k, time) dict \<Rightarrow> 'k \<Rightarrow> time \<Rightarrow> bool" where
  "tombstoned d k now = (case dget d k of None \<Rightarrow> 0 > now | Some e \<Rightarrow> e > now)"

text \<open>The second half of \<open>create_relay_mapping\<close>, from the duplicate check on. The generation
  is taken before the reverse collision is tested.\<close>

definition nat_create ::
  "nat_limits \<Rightarrow> time \<Rightarrow> RelayNatMapping \<Rightarrow> nat_tables \<Rightarrow> RelayNatMapping result \<times> nat_tables" where
  "nat_create q now proto n =
     (if dget (nat_forward n) (forward_key proto) \<noteq> None \<or>
         dget (nat_client n) (client_key proto) \<noteq> None
      then (Inl (ValueError ''relay mapping already exists''), n)
      else if tombstoned (tombstones n) (forward_key proto) now \<or>
              tombstoned (client_tombstones n) (client_key proto) now
      then (Inl (ValueError ''relay mapping is tombstoned''), n)
      else if nat_pending n \<ge> lim_pending q
      then (Inl (RelayMappingQuotaExceeded ''global''), n)
      else if cget (nat_pending_by_source n) (sample_ip proto) \<ge> lim_pending_per_source q
      then (Inl (RelayMappingQuotaExceeded ''per_source''), n)
      else (let g = gen_counter n + 1; m = proto\<lparr>generation := g\<rparr>; n1 = n\<lparr>gen_counter := g\<rparr> in
        if dget (nat_reverse n1) (reverse_key m) \<noteq> None
        then (Inl (ValueError ''relay reverse mapping collision''), n1)
        else (Inr m, n1\<lparr>nat_objs := dset g m (nat_objs n1),
               nat_forward := dset (forward_key m) g (nat_forward n1),
               nat_reverse := dset (reverse_key m) g (nat_reverse n1),
               nat_client := dset (client_key m) g (nat_client n1),
               nat_generation := nat_generation n1 @ [g],
               nat_pending := nat_pending n1 + 1,
               nat_pending_by_source := cadd (sample_ip m) 1 (nat_pending_by_source n1)\<rparr>)))"

text \<open>\<open>_match_nat\<close> once the tables are cleaned up: only an active mapping is refreshed.\<close>

definition nat_match ::
  "time \<Rightarrow> time \<Rightarrow> (flow_key, int) dict \<Rightarrow> flow_key \<Rightarrow> nat_tables \<Rightarrow>
   RelayNatMapping option \<times> nat_tables" where
  "nat_match now idle tbl key n = (case dget tbl key of
       None \<Rightarrow> (None, n)
     | Some g \<Rightarrow>
         (case dget (nat_objs n) g of
            None \<Rightarrow> (None, n)
          | Some m \<Rightarrow>
              if expires_at m > now then
                (let m' = (if active m then m\<lparr>expires_at := now + idle + 30\<rparr> else m) in
                 (Some m', n\<lparr>nat_objs := dset g m' (nat_objs n)\<rparr>))
              else (None, n)))"

text \<open>\<open>consume_relay_target\<close> once the tables are cleaned up.\<close>

definition nat_consume ::
  "time \<Rightarrow> time \<Rightarrow> string \<times> int \<Rightarrow> nat_tables \<Rightarrow> RelayNatMapping option \<times> nat_tables" where
  "nat_consume now hello key n = (case dget (nat_client n) key of
       None \<Rightarrow> (None, n)
     | Some g \<Rightarrow>
         (case dget (nat_objs n) g of
            None \<Rightarrow> (None, n)
          | Some m \<Rightarrow>
              if consumed m \<or> expires_at m \<le> now then (None, n)
              else (let m' = m\<lparr>consumed := True, expires_at := now + hello + 5\<rparr> in
                (Some m', n\<lparr>nat_objs := dset g m' (nat_objs n)\<rparr>))))"

text \<open>\<open>activate_relay_mapping\<close>; the clock is read after the quotas are checked.\<close>

definition nat_activate ::
  "nat_limits \<Rightarrow> time \<Rightarrow> time \<Rightarrow> int \<Rightarrow> nat_tables \<Rightarrow> bool \<times> nat_tables" where
  "nat_activate q now idle g n =
     (if g \<notin> set (nat_generation n) then (False, n)
      else (case dget (nat_objs n) g of
          None \<Rightarrow> (False, n)
        | Some m \<Rightarrow>
            if \<not> consumed m then (False, n)
            else if active m then (True, n)
            else if nat_active n \<ge> lim_active q \<or>
                    cget (nat_active_by_source n) (sample_ip m) \<ge> lim_active_per_source q
            then (False, n)
            else (let n1 = release_pending (sample_ip m) n in
              (True, n1\<lparr>nat_objs :=
                  dset g (m\<lparr>active := True, expires_at := now + idle + 30\<rparr>) (nat_objs n1),
                nat_active := nat_active n1 + 1,
                nat_active_by_source := cadd (sample_ip m) 1 (nat_active_by_source n1)\<rparr>))))"

definition nat_close_mapping :: "time \<Rightarrow> time option \<Rightarrow> int \<Rightarrow> nat_tables \<Rightarrow> nat_tables" where
  "nat_close_mapping now grace g n =
     (if g \<notin> set (nat_generation n) then n
      else (let seconds = (case grace of None \<Rightarrow> RELAY_TEARDOWN_GRACE_SECONDS | Some s \<Rightarrow> s) in
        if seconds > 0 then retain_mapping_for_teardown now seconds g n
        else remove_mapping now g n))"

text \<open>The NAT part of \<open>update_local_ipv4\<close>.\<close>

definition obj_foreign :: "nat_tables \<Rightarrow> string list \<Rightarrow> int \<Rightarrow> bool" where
  "obj_foreign n snapshot g = (case dget (nat_objs n) g of
       None \<Rightarrow> False
     | Some m \<Rightarrow> sample_ip m \<notin> set snapshot \<or> m_relay_ip m \<notin> set snapshot)"

definition nat_drop_foreign :: "time \<Rightarrow> string list \<Rightarrow> nat_tables \<Rightarrow> nat_tables" where
  "nat_drop_foreign now snapshot n =
     fold (\<lambda>g n. if obj_foreign n snapshot g then remove_mapping now g n else n)
       (nat_generation n) n"

definition nat_client_state :: "time \<Rightarrow> string \<times> int \<Rightarrow> nat_tables \<Rightarrow> string" where
  "nat_client_state now key n = (case dget (nat_client n) key of
       None \<Rightarrow> ''none''
     | Some g \<Rightarrow>
         (case dget (nat_objs n) g of
            None \<Rightarrow> ''none''
          | Some m \<Rightarrow> if expires_at m \<le> now then ''expired''
                      else if active m then ''active'' else ''pending''))"

definition nat_client_active :: "time \<Rightarrow> string \<times> int \<Rightarrow> nat_tables \<Rightarrow> bool" where
  "nat_client_active now key n = (case dget (nat_client n) key of
       None \<Rightarrow> False
     | Some g \<Rightarrow>
         (case dget (nat_objs n) g of
            None \<Rightarrow> False
          | Some m \<Rightarrow> active m \<and> expires_at m > now))"

section \<open>Counting\<close>

definition cnt :: "('a \<Rightarrow> bool) \<Rightarrow> 'a list \<Rightarrow> int" where
  "cnt P xs = int (length (filter P xs))"

lemma cnt_Nil [simp]: "cnt P [] = 0"
  by (simp add: cnt_def)

lemma cnt_nonneg: "0 \<le> cnt P xs"
  by (simp add: cnt_def)

lemma cnt_snoc: "cnt P (xs @ [x]) = cnt P xs + of_bool (P x)"
  by (simp add: cnt_def)

lemma cnt_cong: "(\<And>x. x \<in> set xs \<Longrightarrow> P x = Q x) \<Longrightarrow> cnt P xs = cnt Q xs"
  by (simp add: cnt_def cong: filter_cong)

lemma cnt_pos: "x \<in> set xs \<Longrightarrow> P x \<Longrightarrow> 0 < cnt P xs"
  by (auto simp: cnt_def filter_empty_conv)

lemma cnt_removeAll:
  "distinct xs \<Longrightarrow> x \<in> set xs \<Longrightarrow> cnt P (removeAll x xs) = cnt P xs - of_bool (P x)"
proof (induction xs)
  case (Cons y ys)
  show ?case
  proof (cases "x = y")
    case True
    with Cons.prems show ?thesis by (simp add: cnt_def)
  next
    case False
    with Cons show ?thesis by (simp add: cnt_def split: if_splits)
  qed
qed simp

lemma cnt_change:
  assumes "distinct xs" "x \<in> set xs" "\<And>y. y \<in> set xs \<Longrightarrow> y \<noteq> x \<Longrightarrow> P' y = P y"
  shows "cnt P' xs = cnt P xs - of_bool (P x) + of_bool (P' x)"
proof -
  have "cnt P' (removeAll x xs) = cnt P (removeAll x xs)"
    by (rule cnt_cong) (use assms(3) in auto)
  with assms(1,2) show ?thesis by (simp add: cnt_removeAll)
qed

section \<open>The invariant\<close>

definition obj :: "nat_tables \<Rightarrow> int \<Rightarrow> RelayNatMapping option" where
  "obj n g = dget (nat_objs n) g"

definition slot :: "nat_tables \<Rightarrow> bool \<Rightarrow> string option \<Rightarrow> int \<Rightarrow> bool" where
  "slot n act src g = (case obj n g of
     None \<Rightarrow> False | Some m \<Rightarrow> active m = act \<and> (src = None \<or> src = Some (sample_ip m)))"

definition tables_ok :: "nat_tables \<Rightarrow> bool" where
  "tables_ok n \<longleftrightarrow> dict_ok (nat_objs n) \<and> dict_ok (nat_forward n) \<and> dict_ok (nat_reverse n) \<and>
     dict_ok (nat_client n) \<and> distinct (nat_generation n) \<and>
     (\<forall>g m. obj n g = Some m \<longrightarrow> generation m = g \<and> g \<le> gen_counter n)"

definition refs_ok :: "nat_tables \<Rightarrow> bool" where
  "refs_ok n \<longleftrightarrow>
     (\<forall>k g. dget (nat_forward n) k = Some g \<longrightarrow>
        (\<exists>m. obj n g = Some m \<and> forward_key m = k \<and> dget (nat_reverse n) (reverse_key m) = Some g \<and>
           (g \<in> set (nat_generation n) \<or> \<not> active m))) \<and>
     (\<forall>k g. dget (nat_reverse n) k = Some g \<longrightarrow>
        (\<exists>m. obj n g = Some m \<and> reverse_key m = k \<and> dget (nat_forward n) (forward_key m) = Some g)) \<and>
     (\<forall>k g. dget (nat_client n) k = Some g \<longrightarrow>
        g \<in> set (nat_generation n) \<and> (\<exists>m. obj n g = Some m \<and> client_key m = k)) \<and>
     (\<forall>g \<in> set (nat_generation n). \<exists>m. obj n g = Some m \<and>
        dget (nat_forward n) (forward_key m) = Some g \<and>
        dget (nat_client n) (client_key m) = Some g)"

definition counts_ok :: "nat_tables \<Rightarrow> bool" where
  "counts_ok n \<longleftrightarrow>
     nat_pending n = cnt (slot n False None) (nat_generation n) \<and>
     nat_active n = cnt (slot n True None) (nat_generation n) \<and>
     (\<forall>ip. cget (nat_pending_by_source n) ip = cnt (slot n False (Some ip)) (nat_generation n)) \<and>
     (\<forall>ip. cget (nat_active_by_source n) ip = cnt (slot n True (Some ip)) (nat_generation n))"

definition quotas_ok :: "nat_limits \<Rightarrow> nat_tables \<Rightarrow> bool" where
  "quotas_ok q n \<longleftrightarrow> nat_pending n \<le> lim_pending q \<and> nat_active n \<le> lim_active q \<and>
     (\<forall>ip. cget (nat_pending_by_source n) ip \<le> lim_pending_per_source q) \<and>
     (\<forall>ip. cget (nat_active_by_source n) ip \<le> lim_active_per_source q)"

text \<open>A slot that waits for a ClientHello has a bounded lifetime.\<close>

definition deadline_ok :: "time \<Rightarrow> RelayNatMapping \<Rightarrow> bool" where
  "deadline_ok hello m \<longleftrightarrow> (active m \<longrightarrow> consumed m) \<and>
     (\<not> consumed m \<longrightarrow> expires_at m = created_at m + hello + 5) \<and>
     (consumed m \<and> \<not> active m \<longrightarrow> expires_at m < created_at m + 2 * (hello + 5))"

definition deadlines_ok :: "time \<Rightarrow> nat_tables \<Rightarrow> bool" where
  "deadlines_ok hello n \<longleftrightarrow>
     (\<forall>g \<in> set (nat_generation n). \<forall>m. obj n g = Some m \<longrightarrow> deadline_ok hello m)"

definition limits_nonneg :: "nat_limits \<Rightarrow> bool" where
  "limits_nonneg q \<longleftrightarrow> 0 \<le> lim_pending q \<and> 0 \<le> lim_active q \<and> 0 \<le> lim_pending_per_source q \<and>
     0 \<le> lim_active_per_source q"

definition nat_inv :: "nat_limits \<Rightarrow> time \<Rightarrow> nat_tables \<Rightarrow> bool" where
  "nat_inv q hello n \<longleftrightarrow> tables_ok n \<and> refs_ok n \<and> counts_ok n \<and> quotas_ok q n \<and> deadlines_ok hello n"

lemma nat_inv_empty: "limits_nonneg q \<Longrightarrow> nat_inv q hello nat_empty"
  by (simp add: nat_inv_def tables_ok_def refs_ok_def counts_ok_def quotas_ok_def deadlines_ok_def
      limits_nonneg_def nat_empty_def obj_def dict_simps)

lemma nat_inv_clear: "limits_nonneg q \<Longrightarrow> nat_inv q hello n \<Longrightarrow> nat_inv q hello (nat_clear n)"
  by (simp add: nat_inv_def tables_ok_def refs_ok_def counts_ok_def quotas_ok_def deadlines_ok_def
      limits_nonneg_def nat_clear_def obj_def dict_simps)

text \<open>Only the tombstones change.\<close>

lemma nat_inv_tombstones [simp]:
  "nat_inv q hello (n\<lparr>tombstones := t, client_tombstones := c\<rparr>) = nat_inv q hello n"
  "nat_inv q hello (set_tombstones m now n) = nat_inv q hello n"
  by (simp_all add: nat_inv_def tables_ok_def refs_ok_def counts_ok_def quotas_ok_def
      deadlines_ok_def slot_def [abs_def] obj_def set_tombstones_def)

lemma nat_inv_close: "limits_nonneg q \<Longrightarrow> nat_inv q hello n \<Longrightarrow> nat_inv q hello (nat_close n)"
  by (simp add: nat_close_def nat_inv_clear)

section \<open>Releasing a slot\<close>

lemma release_slot_fields [simp]:
  "nat_objs (release_slot m n) = nat_objs n" "nat_forward (release_slot m n) = nat_forward n"
  "nat_reverse (release_slot m n) = nat_reverse n" "nat_client (release_slot m n) = nat_client n"
  "nat_generation (release_slot m n) = nat_generation n"
  "gen_counter (release_slot m n) = gen_counter n"
  "tombstones (release_slot m n) = tombstones n"
  "client_tombstones (release_slot m n) = client_tombstones n"
  by (simp_all add: release_slot_def release_active_def release_pending_def)

lemma slot_iff: "obj n g = Some m \<Longrightarrow> slot n act src g \<longleftrightarrow>
    active m = act \<and> (src = None \<or> src = Some (sample_ip m))"
  by (simp add: slot_def)

lemma release_slot_counts:
  assumes c: "counts_ok n" and g: "g \<in> set (nat_generation n)" and m: "obj n g = Some m"
  shows "nat_pending (release_slot m n) = nat_pending n - of_bool (\<not> active m)"
    "nat_active (release_slot m n) = nat_active n - of_bool (active m)"
    "cget (nat_pending_by_source (release_slot m n)) ip =
       cget (nat_pending_by_source n) ip - of_bool (\<not> active m \<and> ip = sample_ip m)"
    "cget (nat_active_by_source (release_slot m n)) ip =
       cget (nat_active_by_source n) ip - of_bool (active m \<and> ip = sample_ip m)"
proof -
  have "0 < cnt (slot n (active m) (Some (sample_ip m))) (nat_generation n)"
    using g m by (intro cnt_pos [of g]) (simp_all add: slot_iff)
  with c show "nat_pending (release_slot m n) = nat_pending n - of_bool (\<not> active m)"
    "nat_active (release_slot m n) = nat_active n - of_bool (active m)"
    "cget (nat_pending_by_source (release_slot m n)) ip =
       cget (nat_pending_by_source n) ip - of_bool (\<not> active m \<and> ip = sample_ip m)"
    "cget (nat_active_by_source (release_slot m n)) ip =
       cget (nat_active_by_source n) ip - of_bool (active m \<and> ip = sample_ip m)"
    by (cases "active m";
        simp add: release_slot_def release_active_def release_pending_def counts_ok_def dict_simps)+
qed

text \<open>Taking one generation out of the counted list.\<close>

lemma counts_without:
  assumes c: "counts_ok n" and d: "distinct (nat_generation n)"
    and g: "g \<in> set (nat_generation n)" and m: "obj n g = Some m"
    and n': "nat_generation n' = removeAll g (nat_generation n)"
      "\<And>h. h \<noteq> g \<Longrightarrow> obj n' h = obj n h"
      "nat_pending n' = nat_pending (release_slot m n)" "nat_active n' = nat_active (release_slot m n)"
      "nat_pending_by_source n' = nat_pending_by_source (release_slot m n)"
      "nat_active_by_source n' = nat_active_by_source (release_slot m n)"
  shows "counts_ok n'" and "quotas_ok q n \<Longrightarrow> quotas_ok q n'"
proof -
  have s: "cnt (slot n' a src) (nat_generation n') =
      cnt (slot n a src) (nat_generation n) - of_bool (slot n a src g)" for a src
  proof -
    have "cnt (slot n' a src) (nat_generation n') = cnt (slot n a src) (removeAll g (nat_generation n))"
      unfolding n'(1) by (rule cnt_cong) (use n'(2) in \<open>auto simp: slot_def\<close>)
    with d g show ?thesis by (simp add: cnt_removeAll)
  qed
  show "counts_ok n'"
    using c release_slot_counts [OF c g m] m
    unfolding counts_ok_def s n'(3-6) by (auto simp: slot_iff)
  show "quotas_ok q n'" if "quotas_ok q n"
    using that release_slot_counts [OF c g m] unfolding quotas_ok_def n'(3-6)
    by (auto simp: of_bool_def) (smt (verit))+
qed


section \<open>Removing and retaining\<close>

lemma nat_invD:
  assumes "nat_inv q hello n"
  shows "tables_ok n" "refs_ok n" "counts_ok n" "quotas_ok q n" "deadlines_ok hello n"
  using assms by (simp_all add: nat_inv_def)

lemma refsD:
  assumes "refs_ok n"
  shows "dget (nat_forward n) k = Some g \<Longrightarrow> \<exists>m. obj n g = Some m \<and> forward_key m = k \<and>
      dget (nat_reverse n) (reverse_key m) = Some g \<and> (g \<in> set (nat_generation n) \<or> \<not> active m)"
    and "dget (nat_reverse n) k = Some g \<Longrightarrow> \<exists>m. obj n g = Some m \<and> reverse_key m = k \<and>
      dget (nat_forward n) (forward_key m) = Some g"
    and "dget (nat_client n) c = Some g \<Longrightarrow>
      g \<in> set (nat_generation n) \<and> (\<exists>m. obj n g = Some m \<and> client_key m = c)"
    and "g \<in> set (nat_generation n) \<Longrightarrow> \<exists>m. obj n g = Some m \<and>
      dget (nat_forward n) (forward_key m) = Some g \<and> dget (nat_client n) (client_key m) = Some g"
  using assms unfolding refs_ok_def by blast+

lemma refs_live:
  assumes "refs_ok n" and "g \<in> set (nat_generation n)" and "obj n g = Some m"
  shows "dget (nat_forward n) (forward_key m) = Some g"
    "dget (nat_reverse n) (reverse_key m) = Some g"
    "dget (nat_client n) (client_key m) = Some g"
proof -
  from refsD(4) [OF assms(1,2)] assms(3)
  show f: "dget (nat_forward n) (forward_key m) = Some g"
    and "dget (nat_client n) (client_key m) = Some g" by auto
  from refsD(1) [OF assms(1) f] assms(3) show "dget (nat_reverse n) (reverse_key m) = Some g" by auto
qed

lemma refs_matched:
  assumes "refs_ok n" and "dget (nat_forward n) k = Some g \<or> dget (nat_reverse n) k = Some g"
  obtains m where "obj n g = Some m" and "g \<in> set (nat_generation n) \<or> \<not> active m"
proof -
  from assms(2) have "\<exists>k. dget (nat_forward n) k = Some g"
    using refsD(2) [OF assms(1)] by blast
  with refsD(1) [OF assms(1)] that show thesis by blast
qed

lemma deadlines_okD:
  "deadlines_ok hello n \<Longrightarrow> g \<in> set (nat_generation n) \<Longrightarrow> obj n g = Some m \<Longrightarrow> deadline_ok hello m"
  unfolding deadlines_ok_def by blast

lemma tables_objD: "tables_ok n \<Longrightarrow> obj n g = Some m \<Longrightarrow> generation m = g \<and> g \<le> gen_counter n"
  unfolding tables_ok_def by blast

lemma set_tombstones_fields [simp]:
  "nat_objs (set_tombstones m t n) = nat_objs n" "nat_forward (set_tombstones m t n) = nat_forward n"
  "nat_reverse (set_tombstones m t n) = nat_reverse n"
  "nat_client (set_tombstones m t n) = nat_client n"
  "nat_generation (set_tombstones m t n) = nat_generation n"
  "gen_counter (set_tombstones m t n) = gen_counter n"
  "nat_pending (set_tombstones m t n) = nat_pending n"
  "nat_active (set_tombstones m t n) = nat_active n"
  "nat_pending_by_source (set_tombstones m t n) = nat_pending_by_source n"
  "nat_active_by_source (set_tombstones m t n) = nat_active_by_source n"
  by (simp_all add: set_tombstones_def)

lemma remove_mapping_fields:
  fixes now
  assumes i: "refs_ok n" and g: "g \<in> set (nat_generation n)" and m: "obj n g = Some m"
  defines "n' \<equiv> remove_mapping now g n"
  shows "nat_objs n' = nat_objs n" "nat_forward n' = ddel (forward_key m) (nat_forward n)"
    "nat_reverse n' = ddel (reverse_key m) (nat_reverse n)"
    "nat_client n' = ddel (client_key m) (nat_client n)"
    "nat_generation n' = removeAll g (nat_generation n)" "gen_counter n' = gen_counter n"
    "nat_pending n' = nat_pending (release_slot m n)" "nat_active n' = nat_active (release_slot m n)"
    "nat_pending_by_source n' = nat_pending_by_source (release_slot m n)"
    "nat_active_by_source n' = nat_active_by_source (release_slot m n)"
  using refs_live [OF i g m] m
  by (simp_all add: n'_def remove_mapping_def obj_def Let_def del_if_def)

lemma remove_refs:
  assumes r: "refs_ok n" and g: "g \<in> set (nat_generation n)" and m: "obj n g = Some m"
  shows "refs_ok (remove_mapping now g n)"
proof -
  let ?n = "remove_mapping now g n"
  note f = remove_mapping_fields [OF r g m, of now]
  have o: "obj ?n = obj n" by (simp add: obj_def fun_eq_iff f)
  have fk: "forward_key x \<noteq> forward_key m" "reverse_key x \<noteq> reverse_key m"
    if "obj n h = Some x" "dget (nat_forward n) (forward_key x) = Some h \<or>
      dget (nat_reverse n) (reverse_key x) = Some h" "h \<noteq> g" for h x
    using refs_live [OF r g m] refsD(1) [OF r, of "forward_key x" h]
      refsD(2) [OF r, of "reverse_key x" h] that by auto
  show ?thesis
    unfolding refs_ok_def
  proof (intro conjI allI impI ballI)
    fix k h
    assume a: "dget (nat_forward ?n) k = Some h"
    then have k: "k \<noteq> forward_key m" "dget (nat_forward n) k = Some h"
      by (auto simp: f dict_simps split: if_splits)
    then have "h \<noteq> g" using refsD(1) [OF r k(2)] m by auto
    with refsD(1) [OF r k(2)] fk k show "\<exists>x. obj ?n h = Some x \<and> forward_key x = k \<and>
        dget (nat_reverse ?n) (reverse_key x) = Some h \<and>
        (h \<in> set (nat_generation ?n) \<or> \<not> active x)"
      unfolding o by (fastforce simp: f dict_simps)
  next
    fix k h
    assume a: "dget (nat_reverse ?n) k = Some h"
    then have k: "k \<noteq> reverse_key m" "dget (nat_reverse n) k = Some h"
      by (auto simp: f dict_simps split: if_splits)
    then have "h \<noteq> g" using refsD(2) [OF r k(2)] m by auto
    with refsD(2) [OF r k(2)] fk k show "\<exists>x. obj ?n h = Some x \<and> reverse_key x = k \<and>
        dget (nat_forward ?n) (forward_key x) = Some h"
      unfolding o by (fastforce simp: f dict_simps)
  next
    fix k h
    assume a: "dget (nat_client ?n) k = Some h"
    then have k: "k \<noteq> client_key m" "dget (nat_client n) k = Some h"
      by (auto simp: f dict_simps split: if_splits)
    with refsD(3) [OF r k(2)] m show "h \<in> set (nat_generation ?n)"
      "\<exists>x. obj ?n h = Some x \<and> client_key x = k" unfolding o by (auto simp: f)
  next
    fix h
    assume "h \<in> set (nat_generation ?n)"
    then have h: "h \<in> set (nat_generation n)" "h \<noteq> g" by (auto simp: f)
    from refsD(4) [OF r h(1)] obtain x where x: "obj n h = Some x"
      "dget (nat_forward n) (forward_key x) = Some h" "dget (nat_client n) (client_key x) = Some h"
      by blast
    with fk [OF x(1) _ h(2)] refs_live [OF r g m] h(2)
    show "\<exists>x. obj ?n h = Some x \<and> dget (nat_forward ?n) (forward_key x) = Some h \<and>
        dget (nat_client ?n) (client_key x) = Some h"
      unfolding o by (auto simp: f dict_simps)
  qed
qed

lemma remove_mapping_inv:
  assumes i: "nat_inv q hello n" and g: "g \<in> set (nat_generation n)"
  shows "nat_inv q hello (remove_mapping now g n)"
proof -
  note d = nat_invD [OF i]
  from refsD(4) [OF d(2) g] obtain m where m: "obj n g = Some m" by blast
  note f = remove_mapping_fields [OF d(2) g m, of now]
  have o: "obj (remove_mapping now g n) = obj n" by (simp add: obj_def fun_eq_iff f)
  have "tables_ok (remove_mapping now g n)"
    using d(1) unfolding tables_ok_def o by (simp add: f distinct_removeAll)
  moreover have "counts_ok (remove_mapping now g n)" "quotas_ok q (remove_mapping now g n)"
    using counts_without [OF d(3) _ g m f(5) _ f(7-10)] d(1,4) o by (simp_all add: tables_ok_def)
  moreover have "deadlines_ok hello (remove_mapping now g n)"
    using d(5) unfolding deadlines_ok_def o by (auto simp: f)
  ultimately show ?thesis using remove_refs [OF d(2) g m] by (simp add: nat_inv_def)
qed


section \<open>Changing one object\<close>

definition set_obj :: "int \<Rightarrow> RelayNatMapping \<Rightarrow> nat_tables \<Rightarrow> nat_tables" where
  "set_obj g m n = n\<lparr>nat_objs := dset g m (nat_objs n)\<rparr>"

lemma set_obj_fields [simp]:
  "nat_forward (set_obj g m n) = nat_forward n" "nat_reverse (set_obj g m n) = nat_reverse n"
  "nat_client (set_obj g m n) = nat_client n" "nat_generation (set_obj g m n) = nat_generation n"
  "gen_counter (set_obj g m n) = gen_counter n" "nat_pending (set_obj g m n) = nat_pending n"
  "nat_active (set_obj g m n) = nat_active n"
  "nat_pending_by_source (set_obj g m n) = nat_pending_by_source n"
  "nat_active_by_source (set_obj g m n) = nat_active_by_source n"
  "tombstones (set_obj g m n) = tombstones n"
  "client_tombstones (set_obj g m n) = client_tombstones n"
  "obj (set_obj g m n) h = (if h = g then Some m else obj n h)"
  by (simp_all add: set_obj_def obj_def dict_simps)

text \<open>The same flow: only the deadline and the two flags may differ.\<close>

definition same_flow :: "RelayNatMapping \<Rightarrow> RelayNatMapping \<Rightarrow> bool" where
  "same_flow m m' \<longleftrightarrow> generation m' = generation m \<and> sample_ip m' = sample_ip m \<and>
     forward_key m' = forward_key m \<and> reverse_key m' = reverse_key m \<and> client_key m' = client_key m"

lemma same_flow_update [simp]:
  "same_flow m (m\<lparr>expires_at := e\<rparr>)" "same_flow m (m\<lparr>consumed := c, expires_at := e\<rparr>)"
  "same_flow m (m\<lparr>active := a, expires_at := e\<rparr>)" "same_flow m m"
  by (simp_all add: same_flow_def forward_key_def reverse_key_def client_key_def)

lemma tables_set_obj:
  assumes "tables_ok n" "obj n g = Some m" "same_flow m m'"
  shows "tables_ok (set_obj g m' n)"
  using assms by (auto simp: tables_ok_def same_flow_def set_obj_def obj_def dict_simps)

lemma refs_set_obj:
  assumes r: "refs_ok n" and m: "obj n g = Some m" and s: "same_flow m m'"
    and a: "g \<in> set (nat_generation n) \<or> \<not> active m'"
  shows "refs_ok (set_obj g m' n)"
  unfolding refs_ok_def set_obj_fields
proof (intro conjI allI impI ballI)
  fix k h
  assume "dget (nat_forward n) k = Some h"
  from refsD(1) [OF r this] s m a
  show "\<exists>x. (if h = g then Some m' else obj n h) = Some x \<and> forward_key x = k \<and>
      dget (nat_reverse n) (reverse_key x) = Some h \<and> (h \<in> set (nat_generation n) \<or> \<not> active x)"
    by (auto simp: same_flow_def)
next
  fix k h
  assume "dget (nat_reverse n) k = Some h"
  from refsD(2) [OF r this] s m
  show "\<exists>x. (if h = g then Some m' else obj n h) = Some x \<and> reverse_key x = k \<and>
      dget (nat_forward n) (forward_key x) = Some h" by (auto simp: same_flow_def)
next
  fix k h
  assume "dget (nat_client n) k = Some h"
  from refsD(3) [OF r this] s m
  show "h \<in> set (nat_generation n)"
    "\<exists>x. (if h = g then Some m' else obj n h) = Some x \<and> client_key x = k"
    by (auto simp: same_flow_def)
next
  fix h
  assume "h \<in> set (nat_generation n)"
  from refsD(4) [OF r this] s m
  show "\<exists>x. (if h = g then Some m' else obj n h) = Some x \<and>
      dget (nat_forward n) (forward_key x) = Some h \<and> dget (nat_client n) (client_key x) = Some h"
    by (auto simp: same_flow_def)
qed

lemma set_obj_inv:
  assumes i: "nat_inv q hello n" and m: "obj n g = Some m" and s: "same_flow m m'"
    and a: "active m' = active m" and d: "g \<in> set (nat_generation n) \<Longrightarrow> deadline_ok hello m'"
    and live: "g \<in> set (nat_generation n) \<or> \<not> active m"
  shows "nat_inv q hello (set_obj g m' n)"
proof -
  note j = nat_invD [OF i]
  have sl: "slot (set_obj g m' n) = slot n"
    using m s a by (auto simp: slot_def fun_eq_iff same_flow_def split: option.splits)
  have "counts_ok (set_obj g m' n)" "quotas_ok q (set_obj g m' n)"
    using j(3,4) unfolding counts_ok_def quotas_ok_def sl set_obj_fields by blast+
  moreover have "deadlines_ok hello (set_obj g m' n)"
    using j(5) d by (auto simp: deadlines_ok_def split: if_splits)
  ultimately show ?thesis
    using tables_set_obj [OF j(1) m s] refs_set_obj [OF j(2) m s] live a by (simp add: nat_inv_def)
qed

lemma refs_detach:
  assumes r: "refs_ok n" and m: "obj n g = Some m" and a: "\<not> active m"
    and g: "g \<in> set (nat_generation n)"
    and n': "nat_forward n' = nat_forward n" "nat_reverse n' = nat_reverse n"
      "nat_client n' = ddel (client_key m) (nat_client n)" "obj n' = obj n"
      "nat_generation n' = removeAll g (nat_generation n)"
  shows "refs_ok n'"
  unfolding refs_ok_def n'(1,2,4)
proof (intro conjI allI impI ballI)
  fix k h
  assume "dget (nat_forward n) k = Some h"
  from refsD(1) [OF r this] m a
  show "\<exists>x. obj n h = Some x \<and> forward_key x = k \<and>
      dget (nat_reverse n) (reverse_key x) = Some h \<and> (h \<in> set (nat_generation n') \<or> \<not> active x)"
    by (auto simp: n'(5))
next
  fix k h
  assume "dget (nat_reverse n) k = Some h"
  from refsD(2) [OF r this]
  show "\<exists>x. obj n h = Some x \<and> reverse_key x = k \<and> dget (nat_forward n) (forward_key x) = Some h" .
next
  fix k h
  assume "dget (nat_client n') k = Some h"
  then have k: "dget (nat_client n) k = Some h" "k \<noteq> client_key m"
    by (auto simp: n'(3) dict_simps split: if_splits)
  with refsD(3) [OF r k(1)] m show "h \<in> set (nat_generation n')"
    "\<exists>x. obj n h = Some x \<and> client_key x = k" by (auto simp: n'(5))
next
  fix h
  assume "h \<in> set (nat_generation n')"
  then have h: "h \<in> set (nat_generation n)" "h \<noteq> g" by (auto simp: n'(5))
  from refsD(4) [OF r h(1)] obtain x where x: "obj n h = Some x"
    "dget (nat_forward n) (forward_key x) = Some h" "dget (nat_client n) (client_key x) = Some h"
    by blast
  with refs_live(3) [OF r g m] h(2) have "client_key x \<noteq> client_key m" by auto
  with x show "\<exists>x. obj n h = Some x \<and> dget (nat_forward n) (forward_key x) = Some h \<and>
      dget (nat_client n') (client_key x) = Some h"
    by (auto simp: n'(3) dict_simps)
qed

lemma retain_inv:
  assumes i: "nat_inv q hello n" and g: "g \<in> set (nat_generation n)"
  shows "nat_inv q hello (retain_mapping_for_teardown now grace g n)"
proof -
  note j = nat_invD [OF i]
  from refsD(4) [OF j(2) g] obtain m where m: "obj n g = Some m" by blast
  define m' where "m' = m\<lparr>active := False, expires_at := now + grace\<rparr>"
  let ?n = "(release_slot m n)\<lparr>nat_objs := dset g m' (nat_objs n),
     nat_generation := removeAll g (nat_generation n),
     nat_client := ddel (client_key m) (nat_client n)\<rparr>"
  have n: "retain_mapping_for_teardown now grace g n = set_tombstones m now ?n"
    using m by (simp add: retain_mapping_for_teardown_def obj_def m'_def Let_def)
  have s: "same_flow m m'" and a: "\<not> active m'" by (simp_all add: m'_def)
  have o: "obj ?n = obj (set_obj g m' n)"
    by (simp add: obj_def fun_eq_iff dict_simps set_obj_def)
  have "refs_ok (set_obj g m' n)" using refs_set_obj [OF j(2) m s] a by simp
  then have "refs_ok ?n"
    by (rule refs_detach [where g = g and m = m']) (use a g o s in \<open>simp_all add: same_flow_def\<close>)
  moreover have "tables_ok ?n"
    using tables_set_obj [OF j(1) m s] o unfolding tables_ok_def
    by (simp add: distinct_removeAll obj_def set_obj_def dict_simps)
  moreover have "counts_ok ?n" "quotas_ok q ?n"
    by (rule counts_without [OF j(3) _ g m];
        use j(1,4) o in \<open>simp add: tables_ok_def\<close>)+
  moreover have "deadlines_ok hello ?n"
    using j(5) o by (auto simp: deadlines_ok_def)
  ultimately have "nat_inv q hello ?n" by (simp add: nat_inv_def)
  then show ?thesis by (simp add: n)
qed

section \<open>Loops over the generations\<close>

lemma remove_mapping_generation: "set (nat_generation n) - {g} \<subseteq> set (nat_generation (remove_mapping now g n))"
  by (auto simp: remove_mapping_def Let_def split: option.splits)

lemma fold_remove_inv:
  assumes "nat_inv q hello n" "distinct gs" "set gs \<subseteq> set (nat_generation n)"
  shows "nat_inv q hello (fold (\<lambda>g n. if P g n then remove_mapping now g n else n) gs n)"
  using assms
proof (induction gs arbitrary: n)
  case (Cons g gs)
  then have "set gs \<subseteq> set (nat_generation (remove_mapping now g n))"
    using remove_mapping_generation [of n g now] by auto
  with Cons show ?case by (simp add: remove_mapping_inv)
qed simp

lemma remove_mapping_objs: "nat_objs (remove_mapping now g n) = nat_objs n"
  by (simp add: remove_mapping_def Let_def split: option.splits)

lemma obj_expired_remove [simp]: "obj_expired (remove_mapping now g n) t h = obj_expired n t h"
  by (simp add: obj_expired_def obj_expires_def remove_mapping_objs)

lemma expire_fold_objs:
  "nat_objs (fold (\<lambda>g n. if P g n then remove_mapping now g n else n) gs n) = nat_objs n"
  by (induction gs arbitrary: n) (simp_all add: remove_mapping_objs)

lemma expire_fold:
  "nat_generation (fold (\<lambda>g n. if obj_expired n now g then remove_mapping now g n else n) gs n) =
     filter (\<lambda>g. \<not> (g \<in> set gs \<and> obj_expired n now g)) (nat_generation n)"
proof (induction gs arbitrary: n)
  case (Cons g gs)
  have "nat_generation (remove_mapping now g n) = filter (\<lambda>h. h \<noteq> g) (nat_generation n)"
    if "obj_expired n now g"
    using that by (auto simp: obj_expired_def obj_expires_def remove_mapping_def Let_def
        removeAll_filter_not_eq eq_commute split: option.splits)
  with Cons show ?case by (auto intro: filter_cong)
qed simp

lemma expire_generations_inv: "nat_inv q hello n \<Longrightarrow> nat_inv q hello (expire_generations now n)"
  unfolding expire_generations_def
  by (rule fold_remove_inv) (auto dest: nat_invD(1) simp: tables_ok_def)

lemma expire_generations_live:
  "g \<in> set (nat_generation (expire_generations now n)) \<Longrightarrow>
     \<not> obj_expired (expire_generations now n) now g"
proof -
  have "obj_expired (expire_generations now n) now g = obj_expired n now g"
    unfolding expire_generations_def obj_expired_def obj_expires_def by (simp add: expire_fold_objs)
  then show "g \<in> set (nat_generation (expire_generations now n)) \<Longrightarrow>
     \<not> obj_expired (expire_generations now n) now g"
    by (auto simp: expire_generations_def expire_fold)
qed

lemma nat_drop_foreign_inv: "nat_inv q hello n \<Longrightarrow> nat_inv q hello (nat_drop_foreign now ls n)"
  unfolding nat_drop_foreign_def
  by (rule fold_remove_inv) (auto dest: nat_invD(1) simp: tables_ok_def)

lemma filter_refs_inv:
  assumes i: "nat_inv q hello n" and P: "\<And>g. g \<in> set (nat_generation n) \<Longrightarrow> P g"
  shows "nat_inv q hello (n\<lparr>nat_forward := filter (\<lambda>(k, g). P g) (nat_forward n),
    nat_reverse := filter (\<lambda>(k, g). P g) (nat_reverse n)\<rparr>)" (is "nat_inv q hello ?n")
proof -
  note j = nat_invD [OF i]
  have f: "dget (filter (\<lambda>(k, g). P g) (nat_forward n)) k = Some g \<longleftrightarrow>
      dget (nat_forward n) k = Some g \<and> P g" for k g
    using j(1) by (auto simp: dget_filter tables_ok_def split: option.splits)
  have v: "dget (filter (\<lambda>(k, g). P g) (nat_reverse n)) k = Some g \<longleftrightarrow>
      dget (nat_reverse n) k = Some g \<and> P g" for k g
    using j(1) by (auto simp: dget_filter tables_ok_def split: option.splits)
  have o: "obj ?n = obj n" by (simp add: obj_def fun_eq_iff)
  have "tables_ok ?n" using j(1) unfolding tables_ok_def o by simp
  moreover have "refs_ok ?n"
    unfolding refs_ok_def o
  proof (intro conjI allI impI ballI)
    fix k h
    assume "dget (nat_forward ?n) k = Some h"
    then have k: "dget (nat_forward n) k = Some h" "P h" by (simp_all add: f)
    from refsD(1) [OF j(2) k(1)] k(2) show "\<exists>x. obj n h = Some x \<and> forward_key x = k \<and>
        dget (nat_reverse ?n) (reverse_key x) = Some h \<and> (h \<in> set (nat_generation ?n) \<or> \<not> active x)"
      by (auto simp: v)
  next
    fix k h
    assume "dget (nat_reverse ?n) k = Some h"
    then have k: "dget (nat_reverse n) k = Some h" "P h" by (simp_all add: v)
    from refsD(2) [OF j(2) k(1)] k(2) show "\<exists>x. obj n h = Some x \<and> reverse_key x = k \<and>
        dget (nat_forward ?n) (forward_key x) = Some h" by (auto simp: f)
  next
    fix k h
    assume "dget (nat_client ?n) k = Some h"
    then have k: "dget (nat_client n) k = Some h" by simp
    from refsD(3) [OF j(2) k] show "h \<in> set (nat_generation ?n)"
      "\<exists>x. obj n h = Some x \<and> client_key x = k" by simp_all
  next
    fix h
    assume "h \<in> set (nat_generation ?n)"
    then have h: "h \<in> set (nat_generation n)" by simp
    from refsD(4) [OF j(2) h] P [OF h] show "\<exists>x. obj n h = Some x \<and>
        dget (nat_forward ?n) (forward_key x) = Some h \<and> dget (nat_client ?n) (client_key x) = Some h"
      by (auto simp: f)
  qed
  moreover have "counts_ok ?n" "quotas_ok q ?n" "deadlines_ok hello ?n"
    using j(3-5) by (simp_all add: counts_ok_def quotas_ok_def deadlines_ok_def o slot_def [abs_def])
  ultimately show ?thesis by (simp add: nat_inv_def)
qed

lemma nat_cleanup_inv: "nat_inv q hello n \<Longrightarrow> nat_inv q hello (nat_cleanup now n)"
proof -
  assume "nat_inv q hello n"
  then have "nat_inv q hello (expire_generations now n)" by (rule expire_generations_inv)
  from filter_refs_inv [OF this, of "\<lambda>g. \<not> obj_expired (expire_generations now n) now g"]
    expire_generations_live
  show ?thesis by (simp add: nat_cleanup_def Let_def)
qed

section \<open>The operations keep the invariant\<close>

lemma nat_match_inv:
  assumes i: "nat_inv q hello n" and t: "tbl = nat_forward n \<or> tbl = nat_reverse n"
  shows "nat_inv q hello (snd (nat_match now idle tbl key n))"
proof (cases "dget tbl key")
  case None
  with i show ?thesis by (simp add: nat_match_def)
next
  case (Some g)
  note j = nat_invD [OF i]
  obtain m where m: "obj n g = Some m"
    and live: "g \<in> set (nat_generation n) \<or> \<not> active m"
  proof (rule refs_matched [OF j(2), of key g])
    show "dget (nat_forward n) key = Some g \<or> dget (nat_reverse n) key = Some g"
      using Some t by auto
  qed
  define m' where "m' = (if active m then m\<lparr>expires_at := now + idle + 30\<rparr> else m)"
  have "deadline_ok hello m'" if "g \<in> set (nat_generation n)"
    using deadlines_okD [OF j(5) that m] by (auto simp: deadline_ok_def m'_def)
  then have "nat_inv q hello (set_obj g m' n)"
    using live by (intro set_obj_inv [OF i m]) (auto simp: m'_def)
  with i m Some show ?thesis
    by (auto simp: nat_match_def obj_def Let_def m'_def set_obj_def)
qed

lemma nat_consume_inv:
  assumes c: "nat_inv q hello n"
  shows "nat_inv q hello (snd (nat_consume now hello key n))"
proof (cases "dget (nat_client n) key")
  case None
  with c show ?thesis by (simp add: nat_consume_def)
next
  case (Some g)
  note j = nat_invD [OF c]
  from refsD(3) [OF j(2) Some] obtain m where m: "obj n g = Some m"
    and g: "g \<in> set (nat_generation n)" by blast
  let ?m = "m\<lparr>consumed := True, expires_at := now + hello + 5\<rparr>"
  have dl: "deadline_ok hello m" using j(5) g m by (rule deadlines_okD)
  show ?thesis
  proof (cases "consumed m \<or> expires_at m \<le> now")
    case True
    with c m Some show ?thesis by (auto simp: nat_consume_def obj_def)
  next
    case False
    with dl have "deadline_ok hello ?m" by (auto simp: deadline_ok_def)
    then have "nat_inv q hello (set_obj g ?m n)"
      using g by (intro set_obj_inv [OF c m]) auto
    with m Some False show ?thesis
      by (auto simp: nat_consume_def obj_def Let_def set_obj_def)
  qed
qed

lemma release_pending_slot: "\<not> active m \<Longrightarrow> release_pending (sample_ip m) n = release_slot m n"
  by (simp add: release_slot_def)

lemma nat_activate_cases:
  "snd (nat_activate q now idle g n) = n \<or>
   (\<exists>m. g \<in> set (nat_generation n) \<and> obj n g = Some m \<and> consumed m \<and> \<not> active m \<and>
      nat_active n < lim_active q \<and>
      cget (nat_active_by_source n) (sample_ip m) < lim_active_per_source q)"
  by (cases "g \<in> set (nat_generation n)"; cases "dget (nat_objs n) g")
    (auto simp: nat_activate_def obj_def linorder_not_le)

lemma nat_activate_inv:
  assumes i: "nat_inv q hello n"
  shows "nat_inv q hello (snd (nat_activate q now idle g n))"
proof -
  note j = nat_invD [OF i]
  consider "snd (nat_activate q now idle g n) = n"
    | m where "g \<in> set (nat_generation n)" "obj n g = Some m" "consumed m" "\<not> active m"
      "nat_active n < lim_active q"
      "cget (nat_active_by_source n) (sample_ip m) < lim_active_per_source q"
    using nat_activate_cases by blast
  then show ?thesis
  proof cases
    case 1
    with i show ?thesis by simp
  next
    case (2 m)
    define m' where "m' = m\<lparr>active := True, expires_at := now + idle + 30\<rparr>"
    define n' where "n' = (release_slot m n)\<lparr>nat_objs := dset g m' (nat_objs n),
       nat_active := nat_active (release_slot m n) + 1,
       nat_active_by_source := cadd (sample_ip m) 1 (nat_active_by_source (release_slot m n))\<rparr>"
    have n: "snd (nat_activate q now idle g n) = n'"
      using 2 by (simp add: nat_activate_def obj_def n'_def m'_def Let_def release_pending_slot)
    have f: "nat_forward n' = nat_forward n" "nat_reverse n' = nat_reverse n"
      "nat_client n' = nat_client n" "nat_generation n' = nat_generation n"
      "gen_counter n' = gen_counter n" "nat_objs n' = dset g m' (nat_objs n)"
      by (simp_all add: n'_def)
    have c: "nat_pending n' = nat_pending n - 1" "nat_active n' = nat_active n + 1"
      "cget (nat_pending_by_source n') ip =
         cget (nat_pending_by_source n) ip - of_bool (ip = sample_ip m)"
      "cget (nat_active_by_source n') ip =
         cget (nat_active_by_source n) ip + of_bool (ip = sample_ip m)" for ip
      using release_slot_counts [OF j(3) 2(1,2)] 2(4) by (simp_all add: n'_def dict_simps)
    have s: "same_flow m m'" by (simp add: m'_def)
    have o: "obj n' = obj (set_obj g m' n)"
      by (simp add: obj_def set_obj_def fun_eq_iff f)
    have sl: "slot n' a src h = (if h = g then a \<and> (src = None \<or> src = Some (sample_ip m))
        else slot n a src h)" for a src h
      unfolding slot_def o by (auto simp: m'_def)
    have cnt: "cnt (slot n' a src) (nat_generation n) = cnt (slot n a src) (nat_generation n) -
        of_bool (slot n a src g) + of_bool (slot n' a src g)" for a src
      by (rule cnt_change) (use j(1) 2(1) in \<open>auto simp: tables_ok_def sl\<close>)
    have "counts_ok n'"
      using j(3) 2(4) unfolding counts_ok_def f(4) cnt c
      by (auto simp: sl slot_iff [OF 2(2)])
    moreover have "quotas_ok q n'"
      using j(4) 2(5,6) unfolding quotas_ok_def c by (auto simp: of_bool_def) (smt (verit))+
    moreover have "tables_ok n'"
      using tables_set_obj [OF j(1) 2(2) s] unfolding tables_ok_def o f
      by (simp only: set_obj_fields) (simp add: set_obj_def)
    moreover have "refs_ok n'"
      using refs_set_obj [OF j(2) 2(2) s] 2(1) unfolding refs_ok_def o f by simp
    moreover have "deadline_ok hello m'" using 2(3) by (simp add: deadline_ok_def m'_def)
    then have "deadlines_ok hello n'" using j(5) unfolding deadlines_ok_def o f by simp
    ultimately show ?thesis by (simp add: n nat_inv_def)
  qed
qed

lemma nat_close_mapping_inv: "nat_inv q hello n \<Longrightarrow> nat_inv q hello (nat_close_mapping now grace g n)"
  by (simp add: nat_close_mapping_def Let_def retain_inv remove_mapping_inv)

definition fresh_mapping :: "time \<Rightarrow> RelayNatMapping \<Rightarrow> bool" where
  "fresh_mapping hello m \<longleftrightarrow>
     \<not> consumed m \<and> \<not> active m \<and> expires_at m = created_at m + hello + 5"

lemma key_generation [simp]:
  "forward_key (m\<lparr>generation := g\<rparr>) = forward_key m" "reverse_key (m\<lparr>generation := g\<rparr>) = reverse_key m"
  "client_key (m\<lparr>generation := g\<rparr>) = client_key m"
  by (simp_all add: forward_key_def reverse_key_def client_key_def)

lemma nat_inv_counter: "nat_inv q hello n \<Longrightarrow> nat_inv q hello (n\<lparr>gen_counter := gen_counter n + 1\<rparr>)"
  by (fastforce simp: nat_inv_def tables_ok_def refs_ok_def counts_ok_def quotas_ok_def
      deadlines_ok_def slot_def [abs_def] obj_def)

lemma nat_create_Inr:
  assumes "nat_create q now p n = (Inr m, n')"
  shows "m = p\<lparr>generation := gen_counter n + 1\<rparr>"
    "dget (nat_forward n) (forward_key m) = None" "dget (nat_client n) (client_key m) = None"
    "dget (nat_reverse n) (reverse_key m) = None"
    "\<not> tombstoned (tombstones n) (forward_key m) now"
    "\<not> tombstoned (client_tombstones n) (client_key m) now"
    "nat_pending n < lim_pending q"
    "cget (nat_pending_by_source n) (sample_ip m) < lim_pending_per_source q"
    "n' = n\<lparr>gen_counter := generation m, nat_objs := dset (generation m) m (nat_objs n),
       nat_forward := dset (forward_key m) (generation m) (nat_forward n),
       nat_reverse := dset (reverse_key m) (generation m) (nat_reverse n),
       nat_client := dset (client_key m) (generation m) (nat_client n),
       nat_generation := nat_generation n @ [generation m], nat_pending := nat_pending n + 1,
       nat_pending_by_source := cadd (sample_ip m) 1 (nat_pending_by_source n)\<rparr>"
  using assms by (auto simp: nat_create_def Let_def split: if_splits)

lemma refs_insert:
  assumes r: "refs_ok n" and fr: "obj n g = None" and m: "\<not> active m"
    and k: "dget (nat_forward n) (forward_key m) = None" "dget (nat_client n) (client_key m) = None"
      "dget (nat_reverse n) (reverse_key m) = None"
    and f: "nat_forward n' = dset (forward_key m) g (nat_forward n)"
      "nat_reverse n' = dset (reverse_key m) g (nat_reverse n)"
      "nat_client n' = dset (client_key m) g (nat_client n)"
    and gens: "nat_generation n' = nat_generation n @ [g]"
    and o: "\<And>h. obj n' h = (if h = g then Some m else obj n h)"
  shows "refs_ok n'"
  unfolding refs_ok_def
proof (intro conjI allI impI ballI)
  fix x h
  assume x: "dget (nat_forward n') x = Some h"
  show "\<exists>y. obj n' h = Some y \<and> forward_key y = x \<and>
      dget (nat_reverse n') (reverse_key y) = Some h \<and> (h \<in> set (nat_generation n') \<or> \<not> active y)"
  proof (cases "x = forward_key m")
    case True
    with x m show ?thesis by (auto simp: f gens o dict_simps)
  next
    case False
    with x have x: "dget (nat_forward n) x = Some h" by (simp add: f dict_simps)
    from refsD(1) [OF r x] obtain y where y: "obj n h = Some y" "forward_key y = x"
      "dget (nat_reverse n) (reverse_key y) = Some h" "h \<in> set (nat_generation n) \<or> \<not> active y"
      by blast
    moreover have "reverse_key y \<noteq> reverse_key m" using y(3) k(3) by auto
    moreover have "h \<noteq> g" using fr y(1) by auto
    ultimately show ?thesis by (auto simp: f gens o dict_simps)
  qed
next
  fix x h
  assume x: "dget (nat_reverse n') x = Some h"
  show "\<exists>y. obj n' h = Some y \<and> reverse_key y = x \<and>
      dget (nat_forward n') (forward_key y) = Some h"
  proof (cases "x = reverse_key m")
    case True
    with x show ?thesis by (auto simp: f o dict_simps)
  next
    case False
    with x have x: "dget (nat_reverse n) x = Some h" by (simp add: f dict_simps)
    from refsD(2) [OF r x] obtain y where y: "obj n h = Some y" "reverse_key y = x"
      "dget (nat_forward n) (forward_key y) = Some h" by blast
    moreover have "forward_key y \<noteq> forward_key m" using y(3) k(1) by auto
    moreover have "h \<noteq> g" using fr y(1) by auto
    ultimately show ?thesis by (auto simp: f o dict_simps)
  qed
next
  fix x h
  assume x: "dget (nat_client n') x = Some h"
  have "h \<in> set (nat_generation n') \<and> (\<exists>y. obj n' h = Some y \<and> client_key y = x)"
  proof (cases "x = client_key m")
    case True
    with x show ?thesis by (auto simp: f gens o dict_simps)
  next
    case False
    with x have "dget (nat_client n) x = Some h" by (simp add: f dict_simps)
    from refsD(3) [OF r this] fr show ?thesis by (auto simp: gens o)
  qed
  then show "h \<in> set (nat_generation n')" "\<exists>y. obj n' h = Some y \<and> client_key y = x" by blast+
next
  fix h
  assume h: "h \<in> set (nat_generation n')"
  show "\<exists>y. obj n' h = Some y \<and> dget (nat_forward n') (forward_key y) = Some h \<and>
      dget (nat_client n') (client_key y) = Some h"
  proof (cases "h = g")
    case True
    then show ?thesis by (auto simp: f o dict_simps)
  next
    case False
    with h have "h \<in> set (nat_generation n)" by (simp add: gens)
    from refsD(4) [OF r this] obtain y where y: "obj n h = Some y"
      "dget (nat_forward n) (forward_key y) = Some h" "dget (nat_client n) (client_key y) = Some h"
      by blast
    moreover have "forward_key y \<noteq> forward_key m" "client_key y \<noteq> client_key m"
      using y(2,3) k(1,2) by auto
    ultimately show ?thesis using False by (auto simp: f o dict_simps)
  qed
qed

lemma nat_create_inv:
  assumes i: "nat_inv q hello n" and p: "fresh_mapping hello p"
  shows "nat_inv q hello (snd (nat_create q now p n))"
proof (cases "fst (nat_create q now p n)")
  case (Inl e)
  then have "snd (nat_create q now p n) = n \<or>
      snd (nat_create q now p n) = n\<lparr>gen_counter := gen_counter n + 1\<rparr>"
    by (auto simp: nat_create_def Let_def split: if_splits)
  with i nat_inv_counter show ?thesis by auto
next
  case (Inr m)
  then obtain n' where cr: "nat_create q now p n = (Inr m, n')" by (cases "nat_create q now p n") auto
  note j = nat_invD [OF i] and k = nat_create_Inr [OF cr]
  define g where "g = generation m"
  have g: "g = gen_counter n + 1" and m: "\<not> active m" "deadline_ok hello m"
    using p by (simp_all add: g_def k(1) fresh_mapping_def deadline_ok_def)
  have fr: "obj n g = None" using tables_objD [OF j(1), of g] g by (cases "obj n g") auto
  have ng: "g \<notin> set (nat_generation n)"
    using refsD(4) [OF j(2)] fr by (metis option.distinct(1))
  have o: "obj n' h = (if h = g then Some m else obj n h)" for h
    by (simp add: k(9) obj_def dict_simps g_def)
  have f: "nat_forward n' = dset (forward_key m) g (nat_forward n)"
    "nat_reverse n' = dset (reverse_key m) g (nat_reverse n)"
    "nat_client n' = dset (client_key m) g (nat_client n)"
    "nat_objs n' = dset g m (nat_objs n)" "gen_counter n' = g"
    and c: "nat_pending n' = nat_pending n + 1" "nat_active n' = nat_active n"
    "nat_pending_by_source n' = cadd (sample_ip m) 1 (nat_pending_by_source n)"
    "nat_active_by_source n' = nat_active_by_source n"
    by (simp_all add: k(9) g_def)
  have gens: "nat_generation n' = nat_generation n @ [g]" by (simp add: k(9) g_def)
  have cnt: "cnt (slot n' a src) (nat_generation n') = cnt (slot n a src) (nat_generation n) +
      of_bool (\<not> a \<and> (src = None \<or> src = Some (sample_ip m)))" for a src
  proof -
    have "cnt (slot n' a src) (nat_generation n) = cnt (slot n a src) (nat_generation n)"
      by (rule cnt_cong) (use ng in \<open>auto simp: slot_def o\<close>)
    then show ?thesis unfolding gens cnt_snoc using m(1) by (auto simp: slot_def o)
  qed
  have "generation x = h \<and> h \<le> gen_counter n'" if "obj n' h = Some x" for h x
    using that tables_objD [OF j(1), of h x] g g_def by (auto simp: o f split: if_splits)
  then have "tables_ok n'"
    using j(1) ng by (simp add: tables_ok_def f gens)
  moreover have "refs_ok n'"
    using refs_insert [OF j(2) fr m(1) k(2-4) f(1-3) gens o] .
  moreover have "counts_ok n'"
    using j(3) unfolding counts_ok_def cnt c by (auto simp: dict_simps)
  moreover have "quotas_ok q n'"
    using j(4) k(7,8) by (auto simp: quotas_ok_def c dict_simps)
  moreover have "deadlines_ok hello n'"
    using j(5) m(2) by (auto simp: deadlines_ok_def gens o)
  ultimately show ?thesis by (simp add: cr nat_inv_def)
qed

section \<open>What every object satisfies\<close>

text \<open>A property of the flow itself, untouched by deadlines and flags.\<close>

definition flow_pred :: "(RelayNatMapping \<Rightarrow> bool) \<Rightarrow> bool" where
  "flow_pred P \<longleftrightarrow> (\<forall>m g e c a. P m \<longrightarrow>
     P (m\<lparr>generation := g, expires_at := e, consumed := c, active := a\<rparr>))"

definition all_objs :: "(RelayNatMapping \<Rightarrow> bool) \<Rightarrow> nat_tables \<Rightarrow> bool" where
  "all_objs P n \<longleftrightarrow> (\<forall>g m. obj n g = Some m \<longrightarrow> P m)"

lemma flow_predD:
  assumes "flow_pred P" "P m"
  shows "P (m\<lparr>expires_at := e\<rparr>)" "P (m\<lparr>consumed := c, expires_at := e\<rparr>)"
    "P (m\<lparr>active := a, expires_at := e\<rparr>)" "P (m\<lparr>generation := g\<rparr>)"
proof -
  have *: "P (m\<lparr>generation := g, expires_at := e, consumed := c, active := a\<rparr>)" for g e c a
    using assms unfolding flow_pred_def by blast
  from * [where g = "generation m" and e = e and c = "consumed m" and a = "active m"]
  show "P (m\<lparr>expires_at := e\<rparr>)" by (cases m) simp
  from * [where g = "generation m" and e = e and c = c and a = "active m"]
  show "P (m\<lparr>consumed := c, expires_at := e\<rparr>)" by (cases m) simp
  from * [where g = "generation m" and e = e and c = "consumed m" and a = a]
  show "P (m\<lparr>active := a, expires_at := e\<rparr>)" by (cases m) simp
  from * [where g = g and e = "expires_at m" and c = "consumed m" and a = "active m"]
  show "P (m\<lparr>generation := g\<rparr>)" by (cases m) simp
qed

lemma all_objs_eq: "nat_objs n' = nat_objs n \<Longrightarrow> all_objs P n' = all_objs P n"
  by (simp add: all_objs_def obj_def)

lemma all_objs_dset:
  "all_objs P n \<Longrightarrow> P m \<Longrightarrow> nat_objs n' = dset g m (nat_objs n) \<Longrightarrow> all_objs P n'"
  by (simp add: all_objs_def obj_def dict_simps)

lemma all_objs_create:
  assumes "flow_pred P" "P p" "all_objs P n"
  shows "all_objs P (snd (nat_create q now p n))"
  using assms(3) flow_predD(4) [OF assms(1,2)]
  by (simp add: nat_create_def Let_def all_objs_def obj_def dict_simps)

lemma all_objs_match:
  "flow_pred P \<Longrightarrow> all_objs P n \<Longrightarrow> all_objs P (snd (nat_match now idle tbl key n))"
  by (auto simp: nat_match_def Let_def all_objs_def obj_def dict_simps flow_predD
      split: option.splits)

lemma all_objs_consume:
  "flow_pred P \<Longrightarrow> all_objs P n \<Longrightarrow> all_objs P (snd (nat_consume now hello key n))"
  by (auto simp: nat_consume_def Let_def all_objs_def obj_def dict_simps flow_predD
      split: option.splits)

lemma release_pending_objs [simp]: "nat_objs (release_pending ip n) = nat_objs n"
  by (simp add: release_pending_def)

lemma all_objs_activate:
  "flow_pred P \<Longrightarrow> all_objs P n \<Longrightarrow> all_objs P (snd (nat_activate q now idle g n))"
  by (auto simp: nat_activate_def Let_def all_objs_def obj_def dict_simps flow_predD
      split: option.splits)

lemma all_objs_close:
  "flow_pred P \<Longrightarrow> all_objs P n \<Longrightarrow> all_objs P (nat_close_mapping now grace g n)"
  by (auto simp: nat_close_mapping_def Let_def all_objs_def obj_def dict_simps flow_predD
      retain_mapping_for_teardown_def remove_mapping_objs split: option.splits)

lemma all_objs_unchanged:
  "all_objs P n \<Longrightarrow> all_objs P (nat_cleanup now n)"
  "all_objs P n \<Longrightarrow> all_objs P (nat_drop_foreign now ls n)"
  "all_objs P n \<Longrightarrow> all_objs P (nat_clear n)" "all_objs P n \<Longrightarrow> all_objs P (nat_close n)"
  "all_objs P nat_empty"
  by (simp_all add: all_objs_def obj_def nat_cleanup_def Let_def expire_generations_def
      expire_fold_objs nat_drop_foreign_def nat_clear_def nat_close_def nat_empty_def dict_simps)

section \<open>Tombstones and the teardown grace\<close>

lemma dget_filter_keep:
  "dget d k = Some v \<Longrightarrow> P k v \<Longrightarrow> dget (filter (\<lambda>(k, v). P k v) d) k = Some v"
  by (induction d) (auto simp: dget_def split: if_splits)

lemma tombstoned_remove:
  "tombstoned (client_tombstones n) k t \<Longrightarrow> tombstoned (client_tombstones (remove_mapping t g n)) k t"
  by (auto simp: remove_mapping_def Let_def set_tombstones_def tombstoned_def dict_simps
      RELAY_TOMBSTONE_SECONDS_def split: option.splits)

lemma tombstoned_cleanup:
  assumes "tombstoned (client_tombstones n) k t" and "0 \<le> t"
  shows "tombstoned (client_tombstones (nat_cleanup t n)) k t"
proof -
  have "tombstoned (client_tombstones
      (fold (\<lambda>g n. if obj_expired n t g then remove_mapping t g n else n) gs n)) k t" for gs
    using assms(1) by (induction gs arbitrary: n) (simp_all add: tombstoned_remove)
  then have "tombstoned (client_tombstones (expire_generations t n)) k t"
    by (simp add: expire_generations_def)
  then show ?thesis
    using assms(2) dget_filter_keep [of "client_tombstones (expire_generations t n)" k _ "\<lambda>_ e. e > t"]
    by (auto simp: nat_cleanup_def Let_def tombstoned_def split: option.splits)
qed

lemma nat_create_tombstoned:
  "tombstoned (client_tombstones n) (client_key p) t \<Longrightarrow> \<exists>e. nat_create q t p n = (Inl e, n)"
  by (auto simp: nat_create_def)

lemma nat_close_default:
  fixes now
  assumes "nat_inv q hello n" and "g \<in> set (nat_generation n)" and "obj n g = Some m"
  defines "n' \<equiv> nat_close_mapping now None g n"
  shows "obj n' g = Some (m\<lparr>active := False, expires_at := now + 5\<rparr>)"
    "nat_forward n' = nat_forward n" "nat_reverse n' = nat_reverse n"
    "nat_generation n' = removeAll g (nat_generation n)"
    "nat_client n' = ddel (client_key m) (nat_client n)"
    "nat_pending n' + nat_active n' = nat_pending n + nat_active n - 1"
    "dget (client_tombstones n') (client_key m) = Some (now + 120)"
  using assms(2,3) release_slot_counts [OF nat_invD(3) [OF assms(1)] assms(2,3)]
  by (simp_all add: n'_def nat_close_mapping_def retain_mapping_for_teardown_def obj_def Let_def
      RELAY_TEARDOWN_GRACE_SECONDS_def RELAY_TOMBSTONE_SECONDS_def dict_simps set_tombstones_def)

section \<open>A concrete mapping\<close>

definition demo_limits :: nat_limits where
  "demo_limits = \<lparr>lim_pending = 256, lim_pending_per_source = 32, lim_active = 128,
     lim_active_per_source = 16\<rparr>"

definition demo_mapping :: RelayNatMapping where
  "demo_mapping = \<lparr>generation = 1, m_domain = ''example.com'', sample_ip = ''192.168.56.10'',
     sample_port = 49200, server_ip = ''93.184.216.34'', server_port = 443,
     m_relay_ip = ''192.168.56.10'', m_relay_port = 38927, created_at = 100, expires_at = 110,
     consumed = False, active = False\<rparr>"

definition demo_nat :: nat_tables where
  "demo_nat = snd (nat_create demo_limits 100 demo_mapping nat_empty)"

lemma demo_nat_inv: "nat_inv demo_limits 5 demo_nat"
  unfolding demo_nat_def
  by (rule nat_create_inv [OF nat_inv_empty])
    (simp_all add: limits_nonneg_def demo_limits_def fresh_mapping_def demo_mapping_def)

lemma demo_nat_fields: "1 \<in> set (nat_generation demo_nat)" "obj demo_nat 1 = Some demo_mapping"
  by (simp_all add: demo_nat_def nat_create_def nat_empty_def demo_limits_def demo_mapping_def
      dget_def cget_def tombstoned_def obj_def dset_def Let_def)

section \<open>Properties\<close>

text \<open>Closing a relay mapping with the default grace releases its quota slot and its
  identity at once (its generation and its client key no longer resolve), keeps both directions of
  the packet rewrite matchable, inactive and unrefreshed, for five seconds, and refuses a new
  mapping for the same client for 120 seconds.\<close>

theorem teardown_grace:
  fixes now t idle :: time
  assumes "nat_inv q hello n" and "g \<in> set (nat_generation n)" and "obj n g = Some m"
    and "n' = nat_close_mapping now None g n" and "m' = m\<lparr>active := False, expires_at := now + 5\<rparr>"
  shows "g \<notin> set (nat_generation n') \<and> dget (nat_client n') (client_key m) = None \<and>
    nat_pending n' + nat_active n' = nat_pending n + nat_active n - 1 \<and>
    (t < now + 5 \<longrightarrow>
       fst (nat_match t idle (nat_forward n') (forward_key m) n') = Some m' \<and>
       fst (nat_match t idle (nat_reverse n') (reverse_key m) n') = Some m') \<and>
    (0 \<le> t \<and> t < now + 120 \<and> client_key p = client_key m \<longrightarrow>
       (\<exists>e. fst (nat_create q t p (nat_cleanup t n')) = Inl e))"
proof -
  note c = nat_close_default [OF assms(1-3), of now, folded assms(4)]
  note live = refs_live [OF nat_invD(2) [OF assms(1)] assms(2,3)]
  have "fst (nat_match t idle (nat_forward n') (forward_key m) n') = Some m'"
    "fst (nat_match t idle (nat_reverse n') (reverse_key m) n') = Some m'" if "t < now + 5"
    using that live c(1-3) by (simp_all add: nat_match_def obj_def assms(5) Let_def)
  moreover have "\<exists>e. fst (nat_create q t p (nat_cleanup t n')) = Inl e"
    if "0 \<le> t" "t < now + 120" "client_key p = client_key m"
  proof -
    have "tombstoned (client_tombstones n') (client_key p) t"
      using that c(7) by (simp add: tombstoned_def)
    from nat_create_tombstoned [OF tombstoned_cleanup [OF this that(1)]] obtain e where
      "nat_create q t p (nat_cleanup t n') = (Inl e, nat_cleanup t n')" by blast
    then show ?thesis by simp
  qed
  ultimately show ?thesis using c(4-6) by (simp add: dict_simps)
qed

theorem teardown_grace_witness:
  "fst (nat_match 204 300 (nat_forward (nat_close_mapping 200 None 1 demo_nat))
      (forward_key demo_mapping) (nat_close_mapping 200 None 1 demo_nat)) =
     Some (demo_mapping\<lparr>expires_at := 205\<rparr>) \<and>
   (\<exists>e. fst (nat_create demo_limits 319 demo_mapping
      (nat_cleanup 319 (nat_close_mapping 200 None 1 demo_nat))) = Inl e)"
  using teardown_grace [OF demo_nat_inv demo_nat_fields refl refl, where now = 200 and t = 204
      and idle = 300]
    teardown_grace [OF demo_nat_inv demo_nat_fields refl refl, where now = 200 and t = 319
      and p = demo_mapping]
  by (simp add: demo_mapping_def)

end
