(* ===== verification/EgressPolicy.thy ===== *)
theory EgressPolicy
  imports RelayNat
begin

text \<open>
  \<open>EgressPolicy\<close> of \<open>fakenet/diverters/egresspolicy.py\<close>: the state the Windows diverter, the DNS
  listener and the TLS relay share. The immutable attributes are \<open>cfg\<close>, the relay NAT tables are
  \<open>relay_nat\<close> (theory RelayNat), the rest are the fields of \<open>policy\<close>. Every method takes the clock
  readings it makes as arguments, in the order it makes them. A permit object is shared by two
  tables and refreshed in place, so the tables hold its number and \<open>permit_objs\<close> the object.
\<close>

section \<open>State\<close>

record Lease =
  l_domain :: string
  l_ip :: string
  l_expires :: time

record ControlPermit =
  permit_token :: string
  permit_kind :: string
  permit_key :: flow_key
  permit_domain :: string
  permit_expires :: time

record policy =
  cfg :: policy_config
  is_closed :: bool
  egress_suspended :: bool
  takeover_suspended :: bool
  takeover_suspend_reason :: "string option"
  local_ipv4 :: "string list"
  routes_activated :: bool
  route_bindings :: "(string, ReviewedRouteBinding) dict"
  leases :: "(string, (string, Lease) dict) dict"
  aliases :: "(string, string \<times> time) dict"
  permit_counter :: int
  permit_objs :: "(int, ControlPermit) dict"
  permits_by_key :: "(flow_key, int) dict"
  permits_by_token :: "(string, int) dict"
  relay_nat :: nat_tables
  expired_lease_events :: "(string \<times> string) list"

definition empty_leases :: "policy_config \<Rightarrow> (string, (string, Lease) dict) dict" where
  "empty_leases c = map (\<lambda>d. (d, [])) (allowed_domains c)"

definition new_policy :: "policy_config \<Rightarrow> policy" where
  "new_policy c = \<lparr>cfg = c, is_closed = False, egress_suspended = False, takeover_suspended = False,
     takeover_suspend_reason = None, local_ipv4 = init_local_ipv4 c, routes_activated = False,
     route_bindings = [], leases = empty_leases c, aliases = [], permit_counter = 0,
     permit_objs = [], permits_by_key = [], permits_by_token = [], relay_nat = nat_empty,
     expired_lease_events = []\<rparr>"

definition nat_limits_of :: "policy_config \<Rightarrow> nat_limits" where
  "nat_limits_of c = \<lparr>lim_pending = max_pending c, lim_pending_per_source = max_pending_per_source c,
     lim_active = max_active c, lim_active_per_source = max_active_per_source c\<rparr>"

section \<open>Expiry\<close>

text \<open>\<open>deque(maxlen=1024).append\<close>.\<close>

definition push_event :: "'a \<Rightarrow> 'a list \<Rightarrow> 'a list" where
  "push_event e xs = (let ys = xs @ [e] in drop (length ys - 1024) ys)"

definition cleanup_leases :: "time \<Rightarrow> policy \<Rightarrow> policy" where
  "cleanup_leases now p =
     p\<lparr>leases := map (\<lambda>(d, ls). (d, filter (\<lambda>(ip, l). l_expires l > now) ls)) (leases p),
       expired_lease_events :=
         fold push_event
           (concat (map (\<lambda>(d, ls). map (\<lambda>(ip, l). (d, ip))
              (filter (\<lambda>(ip, l). \<not> l_expires l > now) ls)) (leases p)))
           (expired_lease_events p)\<rparr>"

text \<open>Drop a permit from the token table, and from the flow table when it is still the one
  bound there.\<close>

definition drop_permit :: "string \<Rightarrow> int \<Rightarrow> policy \<Rightarrow> policy" where
  "drop_permit token i p = (case dget (permit_objs p) i of
       None \<Rightarrow> p
     | Some m \<Rightarrow>
         p\<lparr>permits_by_token := ddel token (permits_by_token p),
           permits_by_key := (if dget (permits_by_key p) (permit_key m) = Some i
             then ddel (permit_key m) (permits_by_key p) else permits_by_key p)\<rparr>)"

definition permit_expired :: "policy \<Rightarrow> time \<Rightarrow> int \<Rightarrow> bool" where
  "permit_expired p now i =
     (case dget (permit_objs p) i of None \<Rightarrow> False | Some m \<Rightarrow> permit_expires m \<le> now)"

definition cleanup_permits :: "time \<Rightarrow> policy \<Rightarrow> policy" where
  "cleanup_permits now p =
     fold (\<lambda>(token, i) p. if permit_expired p now i then drop_permit token i p else p)
       (permits_by_token p) p"

definition cleanup_locked :: "time \<Rightarrow> policy \<Rightarrow> policy" where
  "cleanup_locked now p = (let p1 = cleanup_leases now p;
       p2 = p1\<lparr>aliases := filter (\<lambda>(name, entry). snd entry > now) (aliases p1)\<rparr>;
       p3 = cleanup_permits now p2 in
     p3\<lparr>relay_nat := nat_cleanup now (relay_nat p3)\<rparr>)"

definition drain_expired_leases :: "time \<Rightarrow> policy \<Rightarrow> (string \<times> string) list \<times> policy" where
  "drain_expired_leases now p = (let p1 = cleanup_locked now p in
     (expired_lease_events p1, p1\<lparr>expired_lease_events := []\<rparr>))"

section \<open>Opening, suspending, closing\<close>

definition ensure_open :: "policy \<Rightarrow> unit result" where
  "ensure_open p =
     (if is_closed p then Inl (RuntimeError ''egress policy is closed'')
      else if egress_suspended p
      then Inl (RuntimeError ''egress policy is suspended after address change'')
      else Inr ())"

definition suspend_locked :: "policy \<Rightarrow> policy" where
  "suspend_locked p = p\<lparr>egress_suspended := True, leases := empty_leases (cfg p), aliases := [],
     permits_by_key := [], permits_by_token := [], relay_nat := nat_clear (relay_nat p)\<rparr>"

definition close :: "policy \<Rightarrow> policy" where
  "close p = p\<lparr>is_closed := True, takeover_suspended := True, leases := empty_leases (cfg p),
     aliases := [], permits_by_key := [], permits_by_token := [],
     relay_nat := nat_close (relay_nat p), expired_lease_events := []\<rparr>"

definition suspend_takeover_locked :: "string \<Rightarrow> policy \<Rightarrow> policy" where
  "suspend_takeover_locked reason p = p\<lparr>takeover_suspended := True,
     takeover_suspend_reason := (case takeover_suspend_reason p of
       None \<Rightarrow> Some reason | Some r \<Rightarrow> Some r)\<rparr>"

definition takeover_available :: "policy \<Rightarrow> bool" where
  "takeover_available p \<longleftrightarrow> takeover_enabled (cfg p) \<and> \<not> is_closed p \<and> \<not> egress_suspended p \<and>
     \<not> takeover_suspended p"

definition suspend_takeover :: "string \<Rightarrow> policy \<Rightarrow> bool \<times> policy" where
  "suspend_takeover reason p =
     (if \<not> takeover_enabled (cfg p) then (False, p)
      else (takeover_available p, suspend_takeover_locked reason p))"

text \<open>\<open>update_local_ipv4\<close>; the clock is read only when the policy stays up.\<close>

definition drop_foreign_permits :: "string list \<Rightarrow> policy \<Rightarrow> policy" where
  "drop_foreign_permits snapshot p =
     fold (\<lambda>(token, i) p. case dget (permit_objs p) i of
         None \<Rightarrow> p
       | Some m \<Rightarrow> if fst (snd (permit_key m)) \<notin> set snapshot then drop_permit token i p else p)
       (permits_by_token p) p"

definition update_local_ipv4 :: "time \<Rightarrow> string list \<Rightarrow> policy \<Rightarrow> bool \<times> policy" where
  "update_local_ipv4 now addresses p0 =
     (let snapshot = local_ipv4_snapshot addresses; p = p0\<lparr>local_ipv4 := snapshot\<rparr> in
      if external_dns_server (cfg p) \<in> set snapshot then (False, suspend_locked p)
      else if list_ex (\<lambda>r. rule_ipv4 r \<in> set snapshot) (rr_rules (reviewed (cfg p)))
      then (False, suspend_locked p)
      else (let p1 = (if takeover_enabled (cfg p) \<and>
                 (case takeover_ipv4 (cfg p) of None \<Rightarrow> False | Some a \<Rightarrow> a \<in> set snapshot)
               then suspend_takeover_locked ''sink_became_local'' p else p);
             p2 = drop_foreign_permits snapshot p1;
             p3 = p2\<lparr>relay_nat := nat_drop_foreign now snapshot (relay_nat p2)\<rparr> in
        (\<not> egress_suspended p3, p3)))"

section \<open>Reviewed addresses and the takeover sink\<close>

text \<open>A binding is given as an object or as a dictionary of texts.\<close>

datatype route_item = Bound ReviewedRouteBinding | Raw "(string, string) dict"

fun item_binding :: "route_item \<Rightarrow> ReviewedRouteBinding result" where
  "item_binding (Bound b) = Inr b"
| "item_binding (Raw d) =
     (case (dget d ''target_ipv4'', dget d ''source_ipv4'',
            Option.bind (dget d ''interface_index'') py_int) of
        (Some t, Some s, Some i) \<Rightarrow>
          Inr \<lparr>b_target_ipv4 = t, b_source_ipv4 = s, b_interface_index = i\<rparr>
      | _ \<Rightarrow> Inl (PolicyConfigError ''reviewed route binding is invalid''))"

definition prepare_binding :: "string list \<Rightarrow> route_item \<Rightarrow> (string, ReviewedRouteBinding) dict \<Rightarrow>
   (string, ReviewedRouteBinding) dict result" where
  "prepare_binding locals item prepared =
     ebind (item_binding item) (\<lambda>b.
       case (ip_address (b_target_ipv4 b), ip_address (b_source_ipv4 b)) of
         (Some target, Some source) \<Rightarrow>
           (case (target, source) of
              (IPv4 t, IPv4 s) \<Rightarrow>
                if show_ipv4 t \<noteq> b_target_ipv4 b \<or> show_ipv4 s \<noteq> b_source_ipv4 b \<or>
                   b_interface_index b \<le> 0
                then Inl (PolicyConfigError ''reviewed route binding is not canonical'')
                else if dget prepared (b_target_ipv4 b) \<noteq> None \<or> b_source_ipv4 b \<notin> set locals \<or>
                        b_target_ipv4 b \<in> set locals
                then Inl (PolicyConfigError ''reviewed route binding failed address validation'')
                else Inr (dset (b_target_ipv4 b) b prepared)
            | _ \<Rightarrow> Inl (PolicyConfigError ''reviewed route binding is not canonical''))
       | _ \<Rightarrow> Inl (PolicyConfigError ''reviewed route binding contains an invalid IPv4''))"

definition activate_reviewed_ip_routes ::
  "route_item list \<Rightarrow> policy \<Rightarrow> ReviewedRouteBinding list result \<times> policy" where
  "activate_reviewed_ip_routes bindings p =
     (case efold (prepare_binding (local_ipv4 p)) bindings [] of
        Inl e \<Rightarrow> (Inl e, p)
      | Inr prepared \<Rightarrow>
          if set (dkeys prepared) \<noteq> set (map rule_ipv4 (rr_rules (reviewed (cfg p))))
          then (Inl (PolicyConfigError
            ''reviewed route bindings do not match configured IPv4 rules''), p)
          else (case ensure_open p of
              Inl e \<Rightarrow> (Inl e, p)
            | Inr _ \<Rightarrow>
                if routes_activated p
                then (Inl (RuntimeError ''reviewed route bindings are already active''), p)
                else (Inr (map (\<lambda>ip. the (dget prepared ip)) (sort (dkeys prepared))),
                  p\<lparr>route_bindings := prepared, routes_activated := True\<rparr>)))"

definition match_reviewed_ip :: "policy \<Rightarrow> ReviewedPacketTuple \<Rightarrow> ReviewedIPv4Rule option" where
  "match_reviewed_ip p packet = (let protocol = upper (p_protocol packet) in
     if is_closed p \<or> egress_suspended p \<or> \<not> routes_activated p \<or> \<not> p_outbound packet \<or>
        protocol \<notin> set [''TCP'', ''UDP''] \<or>
        \<not> (1 \<le> p_source_port packet \<and> p_source_port packet \<le> 65535) \<or>
        \<not> (1 \<le> p_target_port packet \<and> p_target_port packet \<le> 65535)
     then None
     else (case dget (route_bindings p) (p_target_ipv4 packet) of
         None \<Rightarrow> None
       | Some b \<Rightarrow>
           if p_source_ipv4 packet \<noteq> b_source_ipv4 b \<or>
              p_interface_index packet \<noteq> b_interface_index b
           then None
           else index_find (rr_index (reviewed (cfg p))) protocol (b_target_ipv4 b)
                  (p_target_port packet)))"

definition matches_takeover_sink ::
  "policy \<Rightarrow> string \<Rightarrow> string \<Rightarrow> int \<Rightarrow> string \<Rightarrow> int \<Rightarrow> bool" where
  "matches_takeover_sink p proto src_ip sport dst_ip dport \<longleftrightarrow>
     takeover_available p \<and> upper proto \<in> set [''TCP'', ''UDP''] \<and> src_ip \<in> set (local_ipv4 p) \<and>
     takeover_ipv4 (cfg p) = Some dst_ip \<and> 1 \<le> sport \<and> sport \<le> 65535 \<and> 1 \<le> dport \<and>
     dport \<le> 65535"

definition is_local_address :: "policy \<Rightarrow> string \<Rightarrow> bool" where
  "is_local_address p raw = (let value = lower (hd (split_on CHR ''%'' raw)) in
     value \<in> set (local_ipv4 p) \<or> value \<in> set (local_ipv6 (cfg p)) \<or>
     (case ip_address value of None \<Rightarrow> False | Some a \<Rightarrow> addr_is_loopback a))"

definition is_exact_local_ipv4 :: "policy \<Rightarrow> string \<Rightarrow> bool" where
  "is_exact_local_ipv4 p value \<longleftrightarrow> value \<in> set (local_ipv4 p) \<or>
     (case ip_address value of Some (IPv4 w) \<Rightarrow> is_loopback w | _ \<Rightarrow> False)"

section \<open>Leases and aliases\<close>

definition resolve_dns_rule ::
  "idna_codec \<Rightarrow> time \<Rightarrow> string \<Rightarrow> policy \<Rightarrow> string option result \<times> policy" where
  "resolve_dns_rule idna now raw p = (case normalize_hostname idna raw of
       Inl e \<Rightarrow> (Inl e, p)
     | Inr qname \<Rightarrow>
         (let p1 = cleanup_locked now p in
          if match_allowed_domain (cfg p1) qname \<noteq> None then (Inr (Some qname), p1)
          else (case dget (aliases p1) qname of
              None \<Rightarrow> (Inr None, p1)
            | Some (d, e) \<Rightarrow> (Inr (if e > now then Some d else None), p1))))"

definition register_alias ::
  "idna_codec \<Rightarrow> time \<Rightarrow> string \<Rightarrow> string \<Rightarrow> int \<Rightarrow> policy \<Rightarrow> bool result \<times> policy" where
  "register_alias idna now raw_domain raw_alias ttl p =
     (case normalize_hostname idna raw_domain of
        Inl e \<Rightarrow> (Inl e, p)
      | Inr domain \<Rightarrow>
          (case normalize_hostname idna raw_alias of
             Inl e \<Rightarrow> (Inl e, p)
           | Inr alias \<Rightarrow>
               if match_allowed_domain (cfg p) domain = None \<or> ttl \<le> 0 then (Inr False, p)
               else (case ensure_open p of
                   Inl e \<Rightarrow> (Inl e, p)
                 | Inr _ \<Rightarrow>
                     (Inr True, p\<lparr>aliases := dset alias (domain, now + of_int ttl) (aliases p)\<rparr>))))"

definition add_lease :: "time \<Rightarrow> string \<Rightarrow> string \<times> int \<Rightarrow> (string, Lease) dict \<Rightarrow> (string, Lease) dict"
  where "add_lease now domain = (\<lambda>(ip, ttl) replacement.
     if ttl > 0 \<and> is_global_ipv4 ip then
       (let e = now + of_int ttl;
            e' = (case dget replacement ip of None \<Rightarrow> e | Some l \<Rightarrow> min e (l_expires l)) in
        dset ip \<lparr>l_domain = domain, l_ip = ip, l_expires = e'\<rparr> replacement)
     else replacement)"

definition replace_leases ::
  "idna_codec \<Rightarrow> time \<Rightarrow> string \<Rightarrow> (string \<times> int) list \<Rightarrow> policy \<Rightarrow> string list result \<times> policy" where
  "replace_leases idna now raw_domain records p = (case normalize_hostname idna raw_domain of
       Inl e \<Rightarrow> (Inl e, p)
     | Inr domain \<Rightarrow>
         if match_allowed_domain (cfg p) domain = None
         then (Inl (ValueError ''lease domain is not allowed''), p)
         else (let replacement = fold (add_lease now domain) records [] in
           case ensure_open p of
             Inl e \<Rightarrow> (Inl e, p)
           | Inr _ \<Rightarrow>
               (Inr (sort (dkeys replacement)),
                p\<lparr>leases := dset domain replacement (leases p),
                  aliases := filter (\<lambda>(name, entry). fst entry \<noteq> domain) (aliases p)\<rparr>)))"

text \<open>The first live lease in the order of the domains.\<close>

fun find_lease :: "time \<Rightarrow> string \<Rightarrow> (string, (string, Lease) dict) dict \<Rightarrow> Lease option" where
  "find_lease now ip [] = None"
| "find_lease now ip ((d, ls) # rest) =
     (case dget ls ip of
        None \<Rightarrow> find_lease now ip rest
      | Some l \<Rightarrow> if l_expires l > now then Some l else find_lease now ip rest)"

definition lease_for :: "time \<Rightarrow> string \<Rightarrow> int \<Rightarrow> policy \<Rightarrow> Lease option \<times> policy" where
  "lease_for now ip port p =
     (if port \<notin> set (allowed_tcp_ports (cfg p)) then (None, p)
      else if is_closed p \<or> egress_suspended p then (None, p)
      else (let p1 = cleanup_locked now p in (find_lease now ip (leases p1), p1)))"

section \<open>Control flows\<close>

text \<open>\<open>normalize_hostname(domain) if domain else ""\<close>.\<close>

definition permit_name :: "idna_codec \<Rightarrow> string option \<Rightarrow> string result" where
  "permit_name idna domain = (case domain of None \<Rightarrow> Inr [] | Some d \<Rightarrow>
     if d = [] then Inr [] else normalize_hostname idna d)"

text \<open>The test of the first critical section: the generation names a live, consumed mapping to
  this server and domain.\<close>

definition relay_flow_valid ::
  "nat_tables \<Rightarrow> int \<Rightarrow> string \<Rightarrow> string \<Rightarrow> string \<Rightarrow> int \<Rightarrow> bool" where
  "relay_flow_valid n g proto name dst_ip dport \<longleftrightarrow> proto = ''TCP'' \<and> g \<in> set (nat_generation n) \<and>
     (case dget (nat_objs n) g of
        None \<Rightarrow> False
      | Some m \<Rightarrow> consumed m \<and> m_domain m = name \<and> server_ip m = dst_ip \<and> server_port m = dport)"

text \<open>The checks of \<open>register_control_flow\<close>, up to the end of its first critical section. The
  result is the kind, the domain of the permit and the mapping object it was checked against.\<close>

definition check_control_flow ::
  "idna_codec \<Rightarrow> time \<Rightarrow> string \<Rightarrow> string \<Rightarrow> string \<Rightarrow> string \<Rightarrow> int \<Rightarrow> string option \<Rightarrow> int option \<Rightarrow>
   policy \<Rightarrow> (string \<times> string \<times> int option) result \<times> policy" where
  "check_control_flow idna now raw_kind raw_proto src_ip dst_ip dport domain gen p =
     (case ensure_open p of
        Inl e \<Rightarrow> (Inl e, p)
      | Inr _ \<Rightarrow>
        (let kind = lower raw_kind; proto = upper raw_proto in
         if \<not> is_exact_local_ipv4 p src_ip
         then (Inl (ValueError ''control flow source must be a local IPv4 address''), p)
         else if kind = ''dns'' then
           if dst_ip \<noteq> external_dns_server (cfg p) \<or> dport \<noteq> 53 \<or> proto \<notin> set [''UDP'', ''TCP'']
           then (Inl (ValueError ''invalid DNS control flow''), p)
           else (Inr (kind, [], None), p)
         else if kind = ''tls_relay'' then
           (case permit_name idna domain of
              Inl e \<Rightarrow> (Inl e, p)
            | Inr name \<Rightarrow>
                (let p1 = cleanup_locked now p; g = (case gen of None \<Rightarrow> 0 | Some g \<Rightarrow> g) in
                 if \<not> relay_flow_valid (relay_nat p1) g proto name dst_ip dport
                 then (Inl (ValueError ''invalid TLS relay control flow''), p1)
                 else (Inr (kind, name, Some g), p1)))
         else (Inl (ValueError ''unknown control flow kind''), p)))"

text \<open>The second critical section, with the key, the token and the deadline computed between
  the two.\<close>

definition commit_control_flow ::
  "string \<Rightarrow> string \<Rightarrow> string \<Rightarrow> int option \<Rightarrow> flow_key \<Rightarrow> time \<Rightarrow> policy \<Rightarrow> string result \<times> policy" where
  "commit_control_flow token kind name mapping key expires p =
     (case ensure_open p of
        Inl e \<Rightarrow> (Inl e, p)
      | Inr _ \<Rightarrow>
          if kind = ''tls_relay'' \<and>
             (case mapping of None \<Rightarrow> False | Some g \<Rightarrow> g \<notin> set (nat_generation (relay_nat p)))
          then (Inl (ValueError ''relay mapping expired during registration''), p)
          else (let previous = dget (permits_by_key p) key in
            if previous = None \<and>
               int (length (permits_by_key p)) \<ge> max_pending (cfg p) + max_active (cfg p)
            then (Inl (RuntimeError ''control flow permit table is full''), p)
            else (let by_token = (case Option.bind previous (dget (permit_objs p)) of
                       None \<Rightarrow> permits_by_token p
                     | Some old \<Rightarrow> ddel (permit_token old) (permits_by_token p));
                   i = permit_counter p + 1;
                   permit = \<lparr>permit_token = token, permit_kind = kind, permit_key = key,
                     permit_domain = name, permit_expires = expires\<rparr> in
              (Inr token, p\<lparr>permit_counter := i, permit_objs := dset i permit (permit_objs p),
                 permits_by_key := dset key i (permits_by_key p),
                 permits_by_token := dset token i by_token\<rparr>))))"

definition register_control_flow ::
  "idna_codec \<Rightarrow> time \<Rightarrow> time \<Rightarrow> string \<Rightarrow> string \<Rightarrow> string \<Rightarrow> string \<Rightarrow> int \<Rightarrow> string \<Rightarrow> int \<Rightarrow>
   string option \<Rightarrow> int \<Rightarrow> int option \<Rightarrow> policy \<Rightarrow> string result \<times> policy" where
  "register_control_flow idna now1 now2 token kind proto src_ip sport dst_ip dport domain ttl gen p =
     (case check_control_flow idna now1 kind proto src_ip dst_ip dport domain gen p of
        (Inl e, p1) \<Rightarrow> (Inl e, p1)
      | (Inr (k, name, mapping), p1) \<Rightarrow>
          commit_control_flow token k name mapping (flow_key proto src_ip sport dst_ip dport)
            (now2 + of_int (max 1 ttl)) p1)"

definition match_control_flow ::
  "time \<Rightarrow> string \<Rightarrow> string \<Rightarrow> int \<Rightarrow> string \<Rightarrow> int \<Rightarrow> policy \<Rightarrow> ControlPermit option \<times> policy" where
  "match_control_flow now proto src_ip sport dst_ip dport p0 =
     (let key = flow_key proto src_ip sport dst_ip dport in
      if is_closed p0 \<or> egress_suspended p0 then (None, p0)
      else (let p = cleanup_locked now p0 in
        case dget (permits_by_key p) key of
          None \<Rightarrow> (None, p)
        | Some i \<Rightarrow>
            (case dget (permit_objs p) i of
               None \<Rightarrow> (None, p)
             | Some m \<Rightarrow>
                 if permit_expires m > now then
                   (let m' = (if permit_kind m = ''tls_relay''
                      then m\<lparr>permit_expires := now + of_int (relay_idle_timeout (cfg p)) + 30\<rparr>
                      else m) in
                    (Some m', p\<lparr>permit_objs := dset i m' (permit_objs p)\<rparr>))
                 else (None, p))))"

definition revoke_control_flow :: "string \<Rightarrow> policy \<Rightarrow> policy" where
  "revoke_control_flow token p = (case dget (permits_by_token p) token of
       None \<Rightarrow> p | Some i \<Rightarrow> drop_permit token i p)"

section \<open>The relay\<close>

definition create_relay_mapping ::
  "time \<Rightarrow> time \<Rightarrow> string \<Rightarrow> int \<Rightarrow> string \<Rightarrow> int \<Rightarrow> string \<Rightarrow> int \<Rightarrow> policy \<Rightarrow>
   RelayNatMapping result \<times> policy" where
  "create_relay_mapping now1 now2 s_ip s_port v_ip v_port r_ip r_port p0 =
     (case lease_for now1 v_ip v_port p0 of
        (None, p) \<Rightarrow> (Inl (ValueError ''no current DNS lease for relay target''), p)
      | (Some lease, p) \<Rightarrow>
          if \<not> is_exact_local_ipv4 p s_ip \<or> \<not> is_exact_local_ipv4 p r_ip
          then (Inl (ValueError ''relay mapping endpoints must be local IPv4 addresses''), p)
          else if r_port \<noteq> relay_port (cfg p)
          then (Inl (ValueError ''unexpected relay port''), p)
          else (case ensure_open p of
              Inl e \<Rightarrow> (Inl e, p)
            | Inr _ \<Rightarrow>
                (let p1 = cleanup_locked now2 p;
                     current = Option.bind (dget (leases p1) (l_domain lease)) (\<lambda>ls. dget ls v_ip) in
                 if (case current of None \<Rightarrow> True | Some l \<Rightarrow> l_expires l \<le> now2)
                 then (Inl (ValueError ''DNS lease expired while creating relay mapping''), p1)
                 else (let (r, n) = nat_create (nat_limits_of (cfg p1)) now2
                       \<lparr>generation = 0, m_domain = l_domain lease, sample_ip = s_ip,
                        sample_port = s_port, server_ip = v_ip, server_port = v_port,
                        m_relay_ip = r_ip, m_relay_port = r_port, created_at = now2,
                        expires_at = now2 + of_int (hello_timeout (cfg p1)) + 5,
                        consumed = False, active = False\<rparr> (relay_nat p1) in
                   (r, p1\<lparr>relay_nat := n\<rparr>)))))"

definition match_nat ::
  "(nat_tables \<Rightarrow> (flow_key, int) dict) \<Rightarrow> time \<Rightarrow> flow_key \<Rightarrow> policy \<Rightarrow>
   RelayNatMapping option \<times> policy" where
  "match_nat select now key p0 =
     (if is_closed p0 \<or> egress_suspended p0 then (None, p0)
      else (let p = cleanup_locked now p0;
                (r, n) = nat_match now (of_int (relay_idle_timeout (cfg p)))
                   (select (relay_nat p)) key (relay_nat p) in
        (r, p\<lparr>relay_nat := n\<rparr>)))"

definition match_relay_forward ::
  "time \<Rightarrow> string \<Rightarrow> string \<Rightarrow> int \<Rightarrow> string \<Rightarrow> int \<Rightarrow> policy \<Rightarrow> RelayNatMapping option \<times> policy" where
  "match_relay_forward now proto src_ip sport dst_ip dport =
     match_nat nat_forward now (flow_key proto src_ip sport dst_ip dport)"

definition match_relay_reverse ::
  "time \<Rightarrow> string \<Rightarrow> string \<Rightarrow> int \<Rightarrow> string \<Rightarrow> int \<Rightarrow> policy \<Rightarrow> RelayNatMapping option \<times> policy" where
  "match_relay_reverse now proto src_ip sport dst_ip dport =
     match_nat nat_reverse now (flow_key proto src_ip sport dst_ip dport)"

definition consume_relay_target ::
  "time \<Rightarrow> string \<Rightarrow> int \<Rightarrow> policy \<Rightarrow> RelayNatMapping option \<times> policy" where
  "consume_relay_target now s_ip s_port p0 = (let p = cleanup_locked now p0;
       (r, n) = nat_consume now (of_int (hello_timeout (cfg p))) (s_ip, s_port) (relay_nat p) in
     (r, p\<lparr>relay_nat := n\<rparr>))"

definition activate_relay_mapping :: "time \<Rightarrow> int \<Rightarrow> policy \<Rightarrow> bool \<times> policy" where
  "activate_relay_mapping now g p =
     (let (r, n) = nat_activate (nat_limits_of (cfg p)) now (of_int (relay_idle_timeout (cfg p))) g
        (relay_nat p) in
      (r, p\<lparr>relay_nat := n\<rparr>))"

definition relay_client_mapping_state :: "time \<Rightarrow> string \<Rightarrow> int \<Rightarrow> policy \<Rightarrow> string" where
  "relay_client_mapping_state now s_ip s_port p = nat_client_state now (s_ip, s_port) (relay_nat p)"

definition relay_client_mapping_active :: "time \<Rightarrow> string \<Rightarrow> int \<Rightarrow> policy \<Rightarrow> bool" where
  "relay_client_mapping_active now s_ip s_port p =
     nat_client_active now (s_ip, s_port) (relay_nat p)"

definition close_relay_mapping :: "time \<Rightarrow> int \<Rightarrow> time option \<Rightarrow> policy \<Rightarrow> policy" where
  "close_relay_mapping now g grace p =
     p\<lparr>relay_nat := nat_close_mapping now grace g (relay_nat p)\<rparr>"

end
