(* ===== verification/EgressRuns.thy ===== *)
theory EgressRuns
  imports EgressPolicy
begin

text \<open>
  What \<open>EgressPolicy\<close> guarantees: an invariant of its state, that every method keeps it, runs as
  interleavings of the methods, and the properties of the states they reach.
\<close>

section \<open>The invariant\<close>

definition mapping_ok :: "policy_config \<Rightarrow> RelayNatMapping \<Rightarrow> bool" where
  "mapping_ok c m \<longleftrightarrow> is_global_ipv4 (server_ip m) \<and> server_port m \<in> set (allowed_tcp_ports c) \<and>
     match_allowed_domain c (m_domain m) \<noteq> None \<and> m_relay_port m = relay_port c"

definition lease_ok :: "policy_config \<Rightarrow> string \<Rightarrow> string \<Rightarrow> Lease \<Rightarrow> bool" where
  "lease_ok c d ip l \<longleftrightarrow> l_domain l = d \<and> l_ip l = ip \<and> is_global_ipv4 ip \<and>
     match_allowed_domain c d \<noteq> None"

definition leases_ok :: "policy \<Rightarrow> bool" where
  "leases_ok p \<longleftrightarrow> (\<forall>(d, ls) \<in> set (leases p). \<forall>(ip, l) \<in> set ls. lease_ok (cfg p) d ip l)"

text \<open>What a control flow may be: a query to the configured DNS server, or the relay's TLS
  connection to a global address of an allowed domain.\<close>

definition flow_ok :: "policy_config \<Rightarrow> string \<Rightarrow> string \<Rightarrow> flow_key \<Rightarrow> bool" where
  "flow_ok c kind name = (\<lambda>(proto, src, sport, dst, dport).
     (kind = ''dns'' \<and> dst = external_dns_server c \<and> dport = 53 \<and> proto \<in> {''UDP'', ''TCP''}) \<or>
     (kind = ''tls_relay'' \<and> proto = ''TCP'' \<and> is_global_ipv4 dst \<and>
        dport \<in> set (allowed_tcp_ports c) \<and> match_allowed_domain c name \<noteq> None))"

definition permit_ok :: "policy_config \<Rightarrow> ControlPermit \<Rightarrow> bool" where
  "permit_ok c m \<longleftrightarrow> flow_ok c (permit_kind m) (permit_domain m) (permit_key m)"

definition permits_ok :: "policy \<Rightarrow> bool" where
  "permits_ok p \<longleftrightarrow> dict_ok (permits_by_key p) \<and>
     (\<forall>i m. dget (permit_objs p) i = Some m \<longrightarrow> permit_ok (cfg p) m \<and> i \<le> permit_counter p) \<and>
     (\<forall>k i. dget (permits_by_key p) k = Some i \<longrightarrow>
        (\<exists>m. dget (permit_objs p) i = Some m \<and> permit_key m = k)) \<and>
     int (length (permits_by_key p)) \<le> max_pending (cfg p) + max_active (cfg p)"

definition nat_idle :: "nat_tables \<Rightarrow> bool" where
  "nat_idle n \<longleftrightarrow> nat_forward n = [] \<and> nat_reverse n = [] \<and> nat_client n = [] \<and>
     nat_generation n = []"

definition quiescent :: "policy \<Rightarrow> bool" where
  "quiescent p \<longleftrightarrow> nat_idle (relay_nat p) \<and> permits_by_key p = [] \<and> permits_by_token p = [] \<and>
     aliases p = [] \<and> (\<forall>(d, ls) \<in> set (leases p). ls = [])"

definition routes_ok :: "policy \<Rightarrow> bool" where
  "routes_ok p \<longleftrightarrow> (\<forall>ip b. dget (route_bindings p) ip = Some b \<longrightarrow> b_target_ipv4 b = ip)"

definition policy_inv :: "policy \<Rightarrow> bool" where
  "policy_inv p \<longleftrightarrow> policy_config_ok (cfg p) \<and>
     nat_inv (nat_limits_of (cfg p)) (of_int (hello_timeout (cfg p))) (relay_nat p) \<and>
     all_objs (mapping_ok (cfg p)) (relay_nat p) \<and> leases_ok p \<and> permits_ok p \<and> routes_ok p \<and>
     (is_closed p \<or> egress_suspended p \<longrightarrow> quiescent p)"

lemma policy_invD:
  assumes "policy_inv p"
  shows "policy_config_ok (cfg p)"
    "nat_inv (nat_limits_of (cfg p)) (of_int (hello_timeout (cfg p))) (relay_nat p)"
    "all_objs (mapping_ok (cfg p)) (relay_nat p)" "leases_ok p" "permits_ok p" "routes_ok p"
    "is_closed p \<or> egress_suspended p \<Longrightarrow> quiescent p"
  using assms by (simp_all add: policy_inv_def)

lemma flow_pred_mapping_ok: "flow_pred (mapping_ok c)"
  by (simp add: flow_pred_def mapping_ok_def)

lemma limits_ok: "policy_config_ok c \<Longrightarrow> limits_nonneg (nat_limits_of c)"
  by (simp add: policy_config_ok_def limits_nonneg_def nat_limits_of_def)

text \<open>Only the NAT tables change.\<close>

lemma policy_inv_nat:
  assumes "policy_inv p"
    and "nat_inv (nat_limits_of (cfg p)) (of_int (hello_timeout (cfg p))) n"
    and "all_objs (mapping_ok (cfg p)) n"
    and "is_closed p \<or> egress_suspended p \<Longrightarrow> nat_idle n"
  shows "policy_inv (p\<lparr>relay_nat := n\<rparr>)"
  using assms
  by (auto simp: policy_inv_def leases_ok_def permits_ok_def routes_ok_def quiescent_def)

lemma new_policy_inv: "policy_config_ok c \<Longrightarrow> policy_inv (new_policy c)"
  using limits_ok [of c]
  by (auto simp: policy_inv_def new_policy_def nat_inv_empty all_objs_unchanged leases_ok_def
      empty_leases_def permits_ok_def routes_ok_def dict_simps)
    (simp add: policy_config_ok_def)

section \<open>Expiry keeps the invariant\<close>

lemma cleanup_leases_inv: "policy_inv p \<Longrightarrow> policy_inv (cleanup_leases now p)"
  by (fastforce simp: policy_inv_def cleanup_leases_def leases_ok_def permits_ok_def routes_ok_def
      quiescent_def)

lemma drop_permit_fields [simp]:
  "cfg (drop_permit t i p) = cfg p" "is_closed (drop_permit t i p) = is_closed p"
  "egress_suspended (drop_permit t i p) = egress_suspended p"
  "relay_nat (drop_permit t i p) = relay_nat p" "leases (drop_permit t i p) = leases p"
  "aliases (drop_permit t i p) = aliases p" "permit_objs (drop_permit t i p) = permit_objs p"
  "permit_counter (drop_permit t i p) = permit_counter p"
  "route_bindings (drop_permit t i p) = route_bindings p"
  "local_ipv4 (drop_permit t i p) = local_ipv4 p"
  by (simp_all add: drop_permit_def split: option.split)

lemma length_ddel: "length (ddel k d) \<le> length d"
  by (simp add: ddel_def)

lemma permits_ok_shrink:
  assumes ok: "permits_ok p" and "dict_ok d" and "length d \<le> length (permits_by_key p)"
    and sub: "\<And>k i. dget d k = Some i \<Longrightarrow> dget (permits_by_key p) k = Some i"
  shows "permits_ok (p\<lparr>permits_by_token := t, permits_by_key := d\<rparr>)"
proof -
  have "\<exists>m. dget (permit_objs p) i = Some m \<and> permit_key m = k" if "dget d k = Some i" for k i
    using sub [OF that] ok unfolding permits_ok_def by blast
  with assms(1-3) show ?thesis by (auto simp: permits_ok_def)
qed

lemma drop_permit_inv: "policy_inv p \<Longrightarrow> policy_inv (drop_permit t i p)"
proof (cases "dget (permit_objs p) i")
  case None
  then show "policy_inv p \<Longrightarrow> policy_inv (drop_permit t i p)" by (simp add: drop_permit_def)
next
  case (Some m)
  assume p: "policy_inv p"
  note j = policy_invD [OF p]
  let ?d = "if dget (permits_by_key p) (permit_key m) = Some i
    then ddel (permit_key m) (permits_by_key p) else permits_by_key p"
  have dp: "drop_permit t i p = p\<lparr>permits_by_token := ddel t (permits_by_token p), permits_by_key := ?d\<rparr>"
    using Some by (simp add: drop_permit_def)
  have "permits_ok (drop_permit t i p)"
    unfolding dp using j(5) length_ddel
    by (intro permits_ok_shrink) (auto simp: permits_ok_def dict_simps split: if_splits)
  moreover have "is_closed p \<or> egress_suspended p \<Longrightarrow> quiescent (drop_permit t i p)"
    using j(7) unfolding dp by (simp add: quiescent_def ddel_def)
  ultimately show "policy_inv (drop_permit t i p)"
    using j by (simp add: policy_inv_def leases_ok_def routes_ok_def)
qed

lemma fold_inv:
  assumes "P s" and "\<And>x s. x \<in> set xs \<Longrightarrow> P s \<Longrightarrow> P (f x s)"
  shows "P (fold f xs s)"
  using assms by (induction xs arbitrary: s) auto

lemma fold_field: "(\<And>x s. F (f x s) = F s) \<Longrightarrow> F (fold f xs s) = F s"
  by (induction xs arbitrary: s) simp_all

lemma cleanup_permits_inv: "policy_inv p \<Longrightarrow> policy_inv (cleanup_permits now p)"
  unfolding cleanup_permits_def by (rule fold_inv) (auto simp: drop_permit_inv)

lemma drop_foreign_permits_inv: "policy_inv p \<Longrightarrow> policy_inv (drop_foreign_permits ls p)"
  unfolding drop_foreign_permits_def
  by (rule fold_inv) (auto simp: drop_permit_inv split: option.splits)

lemma cleanup_fold_fields [simp]:
  "cfg (cleanup_permits now p) = cfg p" "is_closed (cleanup_permits now p) = is_closed p"
  "egress_suspended (cleanup_permits now p) = egress_suspended p"
  "leases (cleanup_permits now p) = leases p" "local_ipv4 (cleanup_permits now p) = local_ipv4 p"
  "relay_nat (cleanup_permits now p) = relay_nat p" "aliases (cleanup_permits now p) = aliases p"
  "route_bindings (cleanup_permits now p) = route_bindings p"
  unfolding cleanup_permits_def
  by (rule fold_field; simp split: prod.split)+

lemma nat_idle_cleanup: "nat_idle n \<Longrightarrow> nat_idle (nat_cleanup now n)"
  by (simp add: nat_idle_def nat_cleanup_def Let_def expire_generations_def)

lemma cleanup_locked_fields [simp]:
  "cfg (cleanup_locked now p) = cfg p" "is_closed (cleanup_locked now p) = is_closed p"
  "egress_suspended (cleanup_locked now p) = egress_suspended p"
  "local_ipv4 (cleanup_locked now p) = local_ipv4 p"
  "route_bindings (cleanup_locked now p) = route_bindings p"
  by (simp_all add: cleanup_locked_def cleanup_leases_def Let_def)

lemma cleanup_locked_inv: "policy_inv p \<Longrightarrow> policy_inv (cleanup_locked now p)"
proof -
  assume i: "policy_inv p"
  define p1 where "p1 = cleanup_leases now p"
  define p2 where "p2 = p1\<lparr>aliases := filter (\<lambda>(name, entry). snd entry > now) (aliases p1)\<rparr>"
  define p3 where "p3 = cleanup_permits now p2"
  have "policy_inv p1" using i by (simp add: p1_def cleanup_leases_inv)
  then have "policy_inv p2"
    by (auto simp: p2_def policy_inv_def leases_ok_def permits_ok_def routes_ok_def quiescent_def)
  then have p3: "policy_inv p3" by (simp add: p3_def cleanup_permits_inv)
  note j = policy_invD [OF p3]
  have "policy_inv (p3\<lparr>relay_nat := nat_cleanup now (relay_nat p3)\<rparr>)"
    using j nat_cleanup_inv all_objs_unchanged(1)
    by (intro policy_inv_nat p3) (auto simp: quiescent_def nat_idle_cleanup)
  then show ?thesis by (simp add: cleanup_locked_def Let_def p1_def p2_def p3_def)
qed


section \<open>The operations keep the invariant\<close>

lemma permits_sum_nonneg: "policy_config_ok c \<Longrightarrow> 0 \<le> max_pending c + max_active c"
  by (simp add: policy_config_ok_def)

lemma cleared_inv:
  assumes p: "policy_inv p"
    and n: "nat_inv (nat_limits_of (cfg p)) (of_int (hello_timeout (cfg p))) (relay_nat p')"
      "all_objs (mapping_ok (cfg p)) (relay_nat p')" "nat_idle (relay_nat p')"
    and f: "cfg p' = cfg p" "leases p' = empty_leases (cfg p)" "aliases p' = []"
      "permits_by_key p' = []" "permits_by_token p' = []" "permit_objs p' = permit_objs p"
      "permit_counter p' = permit_counter p" "route_bindings p' = route_bindings p"
  shows "policy_inv p'"
proof -
  note j = policy_invD [OF p]
  have "permits_ok p'"
    using j(5) permits_sum_nonneg [OF j(1)] by (simp add: permits_ok_def f dict_simps)
  moreover have "leases_ok p'" "quiescent p'" "routes_ok p'"
    using j(6) n(3) by (auto simp: leases_ok_def quiescent_def routes_ok_def f empty_leases_def)
  ultimately show ?thesis using j(1) n(1,2) by (simp add: policy_inv_def f)
qed

lemma nat_idle_clear: "nat_idle (nat_clear n)" "nat_idle (nat_close n)"
  by (simp_all add: nat_idle_def nat_clear_def nat_close_def)

lemma suspend_locked_inv:
  assumes p: "policy_inv p"
  shows "policy_inv (suspend_locked p)"
  using policy_invD(2,3) [OF p] limits_ok [OF policy_invD(1) [OF p]]
  by (intro cleared_inv [OF p])
    (simp_all add: suspend_locked_def nat_inv_clear all_objs_unchanged nat_idle_clear)

lemma close_inv:
  assumes p: "policy_inv p"
  shows "policy_inv (close p)"
  using policy_invD(2,3) [OF p] limits_ok [OF policy_invD(1) [OF p]]
  by (intro cleared_inv [OF p])
    (simp_all add: close_def nat_inv_close all_objs_unchanged nat_idle_clear)

text \<open>Updates of fields the invariant does not read.\<close>

lemma policy_inv_other [simp]:
  "policy_inv (p\<lparr>local_ipv4 := l\<rparr>) = policy_inv p"
  "policy_inv (p\<lparr>expired_lease_events := ev\<rparr>) = policy_inv p"
  "policy_inv (suspend_takeover_locked r p) = policy_inv p"
  by (simp_all add: policy_inv_def leases_ok_def permits_ok_def routes_ok_def quiescent_def
      suspend_takeover_locked_def)

lemma nat_idle_drop_foreign: "nat_idle n \<Longrightarrow> nat_idle (nat_drop_foreign now ls n)"
  by (simp add: nat_idle_def nat_drop_foreign_def)

lemma update_local_ipv4_inv:
  assumes "policy_inv p"
  shows "policy_inv (snd (update_local_ipv4 now addresses p))"
proof -
  define s where "s = local_ipv4_snapshot addresses"
  have q: "policy_inv (p\<lparr>local_ipv4 := s\<rparr>)" using assms by simp
  have "policy_inv (q\<lparr>relay_nat := nat_drop_foreign now s (relay_nat q)\<rparr>)" if "policy_inv q" for q
    using policy_invD [OF that] nat_drop_foreign_inv all_objs_unchanged(2)
    by (intro policy_inv_nat that) (auto simp: quiescent_def nat_idle_drop_foreign)
  with q show ?thesis
    unfolding update_local_ipv4_def Let_def s_def [symmetric]
    by (auto simp: suspend_locked_inv drop_foreign_permits_inv)
qed

lemma efold_prepare_binding:
  assumes "efold (prepare_binding locals) items [] = Inr d"
  shows "\<forall>ip b. dget d ip = Some b \<longrightarrow> b_target_ipv4 b = ip"
  using assms
proof (rule efold_invariant)
  show "\<forall>ip b. dget [] ip = Some b \<longrightarrow> b_target_ipv4 b = ip" by (simp add: dict_simps)
next
  fix item s t
  assume "prepare_binding locals item s = Inr t"
    and s: "\<forall>ip b. dget s ip = Some b \<longrightarrow> b_target_ipv4 b = ip"
  then obtain b where "t = dset (b_target_ipv4 b) b s"
    unfolding prepare_binding_def ebind_Inr_iff
    by (elim exE conjE) (auto split: option.splits ip_address.splits if_splits)
  with s show "\<forall>ip b. dget t ip = Some b \<longrightarrow> b_target_ipv4 b = ip" by (simp add: dict_simps)
qed

lemma activate_routes_inv:
  "policy_inv p \<Longrightarrow> policy_inv (snd (activate_reviewed_ip_routes items p))"
  using efold_prepare_binding [of "local_ipv4 p" items]
  by (auto simp: activate_reviewed_ip_routes_def policy_inv_def leases_ok_def permits_ok_def
      routes_ok_def quiescent_def split: sum.splits)

lemma dset_in: "x \<in> set (dset k v d) \<Longrightarrow> x = (k, v) \<or> x \<in> set d"
  by (induction d) (auto simp: dset_def split: if_splits)

lemma register_alias_inv: "policy_inv p \<Longrightarrow> policy_inv (snd (register_alias idna now d a ttl p))"
  by (auto simp: register_alias_def ensure_open_def policy_inv_def leases_ok_def permits_ok_def
      routes_ok_def quiescent_def split: sum.splits)

lemma add_leases_ok:
  assumes "match_allowed_domain c domain \<noteq> None"
  shows "\<forall>(ip, l) \<in> set (fold (add_lease now domain) records []). lease_ok c domain ip l"
  by (rule fold_inv)
    (use assms in \<open>auto simp: add_lease_def lease_ok_def Let_def dest!: dset_in split: if_splits\<close>)

lemma replace_leases_inv:
  assumes p: "policy_inv p"
  shows "policy_inv (snd (replace_leases idna now raw records p))"
proof (cases "\<exists>domain. normalize_hostname idna raw = Inr domain \<and>
    match_allowed_domain (cfg p) domain \<noteq> None \<and> ensure_open p = Inr ()")
  case False
  with p show ?thesis
    by (auto simp: replace_leases_def Let_def split: sum.splits unit.splits)
next
  case True
  then obtain domain where d: "normalize_hostname idna raw = Inr domain"
    "match_allowed_domain (cfg p) domain \<noteq> None" and o: "ensure_open p = Inr ()" by blast
  from o have open': "\<not> is_closed p" "\<not> egress_suspended p"
    by (auto simp: ensure_open_def split: if_splits)
  define r where "r = fold (add_lease now domain) records []"
  have r: "\<forall>(ip, l) \<in> set r. lease_ok (cfg p) domain ip l"
    unfolding r_def using d(2) by (rule add_leases_ok)
  have "snd (replace_leases idna now raw records p) = p\<lparr>leases := dset domain r (leases p),
      aliases := filter (\<lambda>(name, entry). fst entry \<noteq> domain) (aliases p)\<rparr>"
    using d o by (auto simp: replace_leases_def Let_def r_def)
  moreover have "leases_ok (p\<lparr>leases := dset domain r (leases p), aliases := a\<rparr>)" for a
    using policy_invD(4) [OF p] r by (fastforce simp: leases_ok_def dest!: dset_in)
  ultimately show ?thesis
    using policy_invD [OF p] open'
    by (simp add: policy_inv_def permits_ok_def routes_ok_def)
qed

lemma lease_for_inv: "policy_inv p \<Longrightarrow> policy_inv (snd (lease_for now ip port p))"
  by (simp add: lease_for_def Let_def cleanup_locked_inv)

lemma resolve_dns_rule_inv: "policy_inv p \<Longrightarrow> policy_inv (snd (resolve_dns_rule idna now q p))"
  by (auto simp: resolve_dns_rule_def Let_def cleanup_locked_inv split: sum.splits option.splits)

lemma drain_inv: "policy_inv p \<Longrightarrow> policy_inv (snd (drain_expired_leases now p))"
  by (simp add: drain_expired_leases_def Let_def cleanup_locked_inv)


lemma find_lease_ok:
  assumes "find_lease now ip ds = Some l" and "\<forall>(d, ls) \<in> set ds. \<forall>(ip, l) \<in> set ls. lease_ok c d ip l"
  shows "lease_ok c (l_domain l) ip l \<and> l_expires l > now"
  using assms
proof (induction ds rule: find_lease.induct [where ?a0.0 = now and ?a1.0 = ip])
  case (2 now ip d ls rest)
  show ?case
  proof (cases "dget ls ip")
    case None
    with 2 show ?thesis by simp
  next
    case (Some l')
    from dget_in [OF this] 2(4) have "lease_ok c d ip l'" by auto
    with 2 Some show ?thesis by (auto simp: lease_ok_def split: if_splits)
  qed
qed simp

lemma lease_for_Some:
  assumes "policy_inv p" and "lease_for now ip port p = (Some l, p')"
  shows "lease_ok (cfg p) (l_domain l) ip l" "l_expires l > now" "\<not> is_closed p"
    "\<not> egress_suspended p" "port \<in> set (allowed_tcp_ports (cfg p))" "p' = cleanup_locked now p"
proof -
  from assms(2) have l: "find_lease now ip (leases (cleanup_locked now p)) = Some l"
    and o: "\<not> is_closed p" "\<not> egress_suspended p" "port \<in> set (allowed_tcp_ports (cfg p))"
    and p': "p' = cleanup_locked now p"
    by (auto simp: lease_for_def Let_def split: if_splits)
  have "leases_ok (cleanup_locked now p)"
    using policy_invD(4) [OF cleanup_locked_inv [OF assms(1)]] .
  with find_lease_ok [OF l, of "cfg p"] show "lease_ok (cfg p) (l_domain l) ip l" "l_expires l > now"
    by (simp_all add: leases_ok_def)
  from o p' show "\<not> is_closed p" "\<not> egress_suspended p" "port \<in> set (allowed_tcp_ports (cfg p))"
    "p' = cleanup_locked now p" by simp_all
qed

lemma create_relay_mapping_inv:
  assumes p: "policy_inv p0"
  shows "policy_inv (snd (create_relay_mapping now1 now2 s_ip s_port v_ip v_port r_ip r_port p0))"
proof (cases "lease_for now1 v_ip v_port p0")
  case (Pair lo p)
  have pi: "policy_inv p" using lease_for_inv [OF p, of now1 v_ip v_port] Pair by simp
  show ?thesis
  proof (cases lo)
    case None
    with Pair pi show ?thesis by (simp add: create_relay_mapping_def)
  next
    case (Some lease)
    note l = lease_for_Some [OF p Pair [unfolded Some]]
    define p1 where "p1 = cleanup_locked now2 p"
    have p1: "policy_inv p1" "cfg p1 = cfg p" "cfg p = cfg p0" "\<not> is_closed p1" "\<not> egress_suspended p1"
      using l pi by (simp_all add: p1_def cleanup_locked_inv)
    define m where "m = \<lparr>generation = 0, m_domain = l_domain lease, sample_ip = s_ip,
        sample_port = s_port, server_ip = v_ip, server_port = v_port,
        m_relay_ip = r_ip, m_relay_port = r_port, created_at = now2,
        expires_at = now2 + of_int (hello_timeout (cfg p1)) + 5,
        consumed = False, active = False\<rparr>"
    define n where "n = snd (nat_create (nat_limits_of (cfg p1)) now2 m (relay_nat p1))"
    have "mapping_ok (cfg p1) m" if "r_port = relay_port (cfg p)"
      using l p1 that by (simp add: mapping_ok_def lease_ok_def m_def)
    then have "policy_inv (p1\<lparr>relay_nat := n\<rparr>)" if "r_port = relay_port (cfg p)"
      using that p1(4,5) policy_invD [OF p1(1)] unfolding n_def
      by (intro policy_inv_nat p1(1) nat_create_inv all_objs_create [OF flow_pred_mapping_ok])
        (auto simp: fresh_mapping_def m_def)
    then show ?thesis
      using Pair Some pi p1(1)
      unfolding create_relay_mapping_def p1_def [symmetric] m_def n_def
      by (auto simp: Let_def p1_def [symmetric] split: sum.splits option.splits prod.splits)
  qed
qed

lemma match_nat_inv:
  assumes p: "policy_inv p" and s: "select = nat_forward \<or> select = nat_reverse"
  shows "policy_inv (snd (match_nat select now key p))"
proof (cases "is_closed p \<or> egress_suspended p")
  case True
  with p show ?thesis by (simp add: match_nat_def)
next
  case False
  let ?p = "cleanup_locked now p"
  have i: "policy_inv ?p" using p by (rule cleanup_locked_inv)
  have "policy_inv (?p\<lparr>relay_nat := snd (nat_match now idle (select (relay_nat ?p)) key (relay_nat ?p))\<rparr>)"
    for idle
    using policy_invD [OF i] s False
    by (intro policy_inv_nat i nat_match_inv all_objs_match [OF flow_pred_mapping_ok]) auto
  with False show ?thesis by (simp add: match_nat_def Let_def split_beta)
qed

lemma nat_idle_consume: "nat_idle n \<Longrightarrow> nat_idle (snd (nat_consume now hello key n))"
  by (simp add: nat_idle_def nat_consume_def dict_simps)

lemma consume_inv:
  assumes p: "policy_inv p"
  shows "policy_inv (snd (consume_relay_target now s_ip s_port p))"
proof -
  let ?p = "cleanup_locked now p"
  have i: "policy_inv ?p" using p by (rule cleanup_locked_inv)
  have "policy_inv (?p\<lparr>relay_nat := snd (nat_consume now (of_int (hello_timeout (cfg ?p))) key (relay_nat ?p))\<rparr>)"
    for key
    using policy_invD [OF i]
    by (intro policy_inv_nat i nat_consume_inv all_objs_consume [OF flow_pred_mapping_ok])
      (auto simp: quiescent_def nat_idle_consume)
  then show ?thesis by (simp add: consume_relay_target_def Let_def split_beta)
qed

lemma activate_inv:
  assumes p: "policy_inv p"
  shows "policy_inv (snd (activate_relay_mapping now g p))"
proof -
  have "nat_idle n \<Longrightarrow> nat_idle (snd (nat_activate q now idle g n))" for n q idle
    by (simp add: nat_idle_def nat_activate_def)
  then have "policy_inv (p\<lparr>relay_nat := snd (nat_activate (nat_limits_of (cfg p)) now idle g (relay_nat p))\<rparr>)"
    for idle
    using policy_invD [OF p]
    by (intro policy_inv_nat p nat_activate_inv all_objs_activate [OF flow_pred_mapping_ok])
      (auto simp: quiescent_def)
  then show ?thesis by (simp add: activate_relay_mapping_def Let_def split_beta)
qed

lemma close_relay_mapping_inv:
  assumes p: "policy_inv p"
  shows "policy_inv (close_relay_mapping now g grace p)"
proof -
  have "nat_idle n \<Longrightarrow> nat_idle (nat_close_mapping now grace g n)" for n
    by (simp add: nat_idle_def nat_close_mapping_def)
  then show ?thesis
    unfolding close_relay_mapping_def using policy_invD [OF p]
    by (intro policy_inv_nat p nat_close_mapping_inv all_objs_close [OF flow_pred_mapping_ok])
      (auto simp: quiescent_def)
qed

section \<open>Control flows\<close>

lemma revoke_inv: "policy_inv p \<Longrightarrow> policy_inv (revoke_control_flow t p)"
  by (simp add: revoke_control_flow_def drop_permit_inv split: option.split)

lemma check_control_flow_state:
  "snd (check_control_flow idna now kind proto src dst dport d g p) \<in> {p, cleanup_locked now p}"
  by (simp add: check_control_flow_def Let_def split: sum.split option.split)

lemma check_control_flow_inv:
  assumes "policy_inv p"
  shows "policy_inv (snd (check_control_flow idna now kind proto src dst dport d g p))"
  using check_control_flow_state [of idna now kind proto src dst dport d g p] assms
  by (auto simp: cleanup_locked_inv)

lemma check_control_flow_cfg:
  "cfg (snd (check_control_flow idna now kind proto src dst dport d g p)) = cfg p"
  using check_control_flow_state [of idna now kind proto src dst dport d g p] by auto

lemma check_control_flow_ok:
  assumes p: "policy_inv p"
    and c: "fst (check_control_flow idna now kind proto src dst dport d g p) = Inr (k, name, mapping)"
  shows "flow_ok (cfg p) k name (flow_key proto src sport dst dport)"
proof -
  let ?n = "relay_nat (cleanup_locked now p)"
  have all: "all_objs (mapping_ok (cfg p)) ?n"
    using policy_invD(3) [OF cleanup_locked_inv [OF p]] by simp
  obtain u where o: "ensure_open p = Inr u" and src: "is_exact_local_ipv4 p src"
    using c by (cases "ensure_open p"; cases "is_exact_local_ipv4 p src")
      (auto simp: check_control_flow_def Let_def)
  show ?thesis
  proof (cases "lower kind = ''dns''")
    case True
    with c o src have "k = ''dns''" "dst = external_dns_server (cfg p)" "dport = 53"
      "upper proto = ''UDP'' \<or> upper proto = ''TCP''"
      by (auto simp: check_control_flow_def Let_def split: if_splits)
    then show ?thesis by (auto simp: flow_ok_def flow_key_def)
  next
    case False
    with c o src have kind: "lower kind = ''tls_relay''"
      by (cases "lower kind = ''tls_relay''") (auto simp: check_control_flow_def Let_def)
    from c o src kind obtain h where k: "k = ''tls_relay''"
      and "relay_flow_valid ?n h (upper proto) name dst dport"
      by (auto simp: check_control_flow_def Let_def split: sum.splits if_splits)
    then obtain m where "dget (nat_objs ?n) h = Some m" "upper proto = ''TCP''"
      "m_domain m = name" "server_ip m = dst" "server_port m = dport"
      by (auto simp: relay_flow_valid_def split: option.splits)
    moreover from this all have "mapping_ok (cfg p) m" by (auto simp: all_objs_def obj_def)
    moreover note k
    ultimately show ?thesis by (auto simp: flow_ok_def flow_key_def mapping_ok_def)
  qed
qed


lemma ensure_open_Inr: "ensure_open p = Inr u \<longleftrightarrow> \<not> is_closed p \<and> \<not> egress_suspended p"
  by (simp add: ensure_open_def)

lemma dset_length: "length (dset k v d) = (if dget d k = None then Suc (length d) else length d)"
  by (induction d) (auto simp: dset_def dget_def)

lemma commit_permit_inv:
  assumes p: "policy_inv p" and o: "\<not> is_closed p" "\<not> egress_suspended p"
    and m: "permit_ok (cfg p) m" "permit_key m = key"
    and len: "dget (permits_by_key p) key \<noteq> None \<or>
      int (length (permits_by_key p)) < max_pending (cfg p) + max_active (cfg p)"
  shows "policy_inv (p\<lparr>permit_counter := permit_counter p + 1,
    permit_objs := dset (permit_counter p + 1) m (permit_objs p),
    permits_by_key := dset key (permit_counter p + 1) (permits_by_key p),
    permits_by_token := t\<rparr>)" (is "policy_inv ?p")
proof -
  note j = policy_invD [OF p]
  have objs: "permit_ok (cfg p) x \<and> i \<le> permit_counter p + 1"
    if "dget (permit_objs ?p) i = Some x" for i x
    using j(5) m that by (fastforce simp: permits_ok_def dict_simps split: if_splits)
  have old: "dget (permit_objs p) (permit_counter p + 1) = None"
    using j(5) unfolding permits_ok_def
    by (metis add.commute not_Some_eq not_less zless_iff_Suc_zadd zle_add1_eq_le less_irrefl)
  have keys: "\<exists>x. dget (permit_objs ?p) i = Some x \<and> permit_key x = k"
    if k: "dget (permits_by_key ?p) k = Some i" for k i
  proof (cases "k = key")
    case True
    with k m show ?thesis by (auto simp: dict_simps)
  next
    case False
    with k have "dget (permits_by_key p) k = Some i" by (simp add: dict_simps)
    with j(5) obtain x where "dget (permit_objs p) i = Some x" "permit_key x = k"
      unfolding permits_ok_def by blast
    moreover from this old have "i \<noteq> permit_counter p + 1" by auto
    ultimately show ?thesis by (simp add: dict_simps)
  qed
  have "int (length (permits_by_key ?p)) \<le> max_pending (cfg p) + max_active (cfg p)"
    using len j(5) by (auto simp: dset_length permits_ok_def)
  with objs keys j(5) have "permits_ok ?p" by (simp add: permits_ok_def)
  with j o show ?thesis by (simp add: policy_inv_def leases_ok_def routes_ok_def)
qed

lemma commit_control_flow_inv:
  assumes p: "policy_inv p" and f: "flow_ok (cfg p) kind name key"
  shows "policy_inv (snd (commit_control_flow token kind name mapping key e p))"
proof (cases "is_closed p \<or> egress_suspended p")
  case True
  with p show ?thesis by (auto simp: commit_control_flow_def ensure_open_def)
next
  case False
  then have o: "ensure_open p = Inr ()" by (simp add: ensure_open_def)
  have "permit_ok (cfg p) \<lparr>permit_token = token, permit_kind = kind, permit_key = key,
      permit_domain = name, permit_expires = e\<rparr>" (is "permit_ok _ ?m")
    using f by (simp add: permit_ok_def)
  from commit_permit_inv [OF p _ _ this] False
  have "policy_inv (p\<lparr>permit_counter := permit_counter p + 1,
      permit_objs := dset (permit_counter p + 1) ?m (permit_objs p),
      permits_by_key := dset key (permit_counter p + 1) (permits_by_key p), permits_by_token := t\<rparr>)"
    if "dget (permits_by_key p) key \<noteq> None \<or>
      int (length (permits_by_key p)) < max_pending (cfg p) + max_active (cfg p)" for t
    using that by simp
  with p o show ?thesis
    by (auto simp: commit_control_flow_def Let_def linorder_not_le)
qed

lemma match_control_flow_inv:
  assumes p: "policy_inv p0"
  shows "policy_inv (snd (match_control_flow now proto src sport dst dport p0))"
proof -
  let ?p = "cleanup_locked now p0"
  have i: "policy_inv ?p" using p by (rule cleanup_locked_inv)
  note j = policy_invD [OF i]
  have "policy_inv (?p\<lparr>permit_objs := dset h (m\<lparr>permit_expires := e\<rparr>) (permit_objs ?p)\<rparr>)"
    if m: "dget (permit_objs ?p) h = Some m" and o: "\<not> is_closed p0" "\<not> egress_suspended p0" for h m e
  proof -
    have "permit_ok (cfg ?p) (m\<lparr>permit_expires := e\<rparr>)" "h \<le> permit_counter ?p"
      using j(5) m by (auto simp: permits_ok_def permit_ok_def)
    with j(5) m have "permits_ok (?p\<lparr>permit_objs := dset h (m\<lparr>permit_expires := e\<rparr>) (permit_objs ?p)\<rparr>)"
      by (fastforce simp: permits_ok_def dict_simps)
    with j o show ?thesis by (simp add: policy_inv_def leases_ok_def routes_ok_def)
  qed
  moreover have "policy_inv (?p\<lparr>permit_objs := dset h m (permit_objs ?p)\<rparr>)"
    if "dget (permit_objs ?p) h = Some m" "\<not> is_closed p0" "\<not> egress_suspended p0" for h m
    using calculation [OF that, of "permit_expires m"] by simp
  ultimately show ?thesis
    using p i by (auto simp: match_control_flow_def Let_def split: option.splits)
qed

lemma match_control_flow_Some:
  assumes p: "policy_inv p0"
    and m: "fst (match_control_flow now proto src sport dst dport p0) = Some m"
  shows "flow_ok (cfg p0) (permit_kind m) (permit_domain m) (flow_key proto src sport dst dport)"
    and "\<not> is_closed p0" and "\<not> egress_suspended p0"
proof -
  let ?p = "cleanup_locked now p0" and ?k = "flow_key proto src sport dst dport"
  note j = policy_invD [OF cleanup_locked_inv [OF p, of now]]
  from m show "\<not> is_closed p0" "\<not> egress_suspended p0"
    by (auto simp: match_control_flow_def Let_def split: if_splits)
  then obtain i x where x: "dget (permits_by_key ?p) ?k = Some i" "dget (permit_objs ?p) i = Some x"
    "permit_kind m = permit_kind x" "permit_domain m = permit_domain x"
    using m by (auto simp: match_control_flow_def Let_def split: option.splits if_splits)
  from j(5) x(1,2) have "permit_key x = ?k" "permit_ok (cfg ?p) x"
    unfolding permits_ok_def by fastforce+
  with x show "flow_ok (cfg p0) (permit_kind m) (permit_domain m) ?k" by (simp add: permit_ok_def)
qed

section \<open>Runs\<close>

text \<open>
  The methods are called from several threads, each under the lock. \<open>register_control_flow\<close>
  releases the lock between its check and its commit, so a run holds the registrations that are
  between the two; any other step may come in between.
\<close>

type_synonym inflight = "(string \<times> string \<times> int option \<times> flow_key) list"

inductive policy_step :: "policy \<times> inflight \<Rightarrow> policy \<times> inflight \<Rightarrow> bool" where
  step_update: "policy_step (p, f) (snd (update_local_ipv4 now addresses p), f)"
| step_routes: "policy_step (p, f) (snd (activate_reviewed_ip_routes items p), f)"
| step_takeover: "policy_step (p, f) (snd (suspend_takeover reason p), f)"
| step_suspend: "policy_step (p, f) (suspend_locked p, f)"
| step_close: "policy_step (p, f) (close p, f)"
| step_resolve: "policy_step (p, f) (snd (resolve_dns_rule idna now q p), f)"
| step_alias: "policy_step (p, f) (snd (register_alias idna now d a ttl p), f)"
| step_leases: "policy_step (p, f) (snd (replace_leases idna now d records p), f)"
| step_lease_for: "policy_step (p, f) (snd (lease_for now ip port p), f)"
| step_drain: "policy_step (p, f) (snd (drain_expired_leases now p), f)"
| step_check:
    "check_control_flow idna now kind proto src dst dport d g p = (Inr (k, name, mapping), p') \<Longrightarrow>
     policy_step (p, f) (p', (k, name, mapping, flow_key proto src sport dst dport) # f)"
| step_check_fails:
    "check_control_flow idna now kind proto src dst dport d g p = (Inl e, p') \<Longrightarrow>
     policy_step (p, f) (p', f)"
| step_commit: "(k, name, mapping, key) \<in> set f \<Longrightarrow>
     policy_step (p, f)
       (snd (commit_control_flow token k name mapping key expires p),
        remove1 (k, name, mapping, key) f)"
| step_match: "policy_step (p, f) (snd (match_control_flow now proto src sport dst dport p), f)"
| step_revoke: "policy_step (p, f) (revoke_control_flow token p, f)"
| step_create:
    "policy_step (p, f) (snd (create_relay_mapping now1 now2 si sp vi vp ri rp p), f)"
| step_forward: "policy_step (p, f) (snd (match_relay_forward now proto si sp di dp p), f)"
| step_reverse: "policy_step (p, f) (snd (match_relay_reverse now proto si sp di dp p), f)"
| step_consume: "policy_step (p, f) (snd (consume_relay_target now si sp p), f)"
| step_activate: "policy_step (p, f) (snd (activate_relay_mapping now g p), f)"
| step_close_mapping: "policy_step (p, f) (close_relay_mapping now g grace p, f)"

definition run_inv :: "policy \<times> inflight \<Rightarrow> bool" where
  "run_inv = (\<lambda>(p, f). policy_inv p \<and> (\<forall>(k, name, mapping, key) \<in> set f. flow_ok (cfg p) k name key))"

text \<open>No method changes the configuration.\<close>

lemma cfg_nat_ops [simp]:
  "cfg (suspend_locked p) = cfg p" "cfg (close p) = cfg p"
  "cfg (suspend_takeover_locked r p) = cfg p" "cfg (close_relay_mapping now g grace p) = cfg p"
  "cfg (snd (activate_relay_mapping now g p)) = cfg p"
  "cfg (snd (consume_relay_target now si sp p)) = cfg p"
  "cfg (snd (match_nat select now key p)) = cfg p"
  "cfg (snd (lease_for now ip port p)) = cfg p" "cfg (revoke_control_flow token p) = cfg p"
  by (simp_all add: suspend_locked_def close_def suspend_takeover_locked_def
      close_relay_mapping_def activate_relay_mapping_def consume_relay_target_def Let_def split_beta
      match_nat_def lease_for_def revoke_control_flow_def split: option.split)

lemma cfg_drop_foreign [simp]: "cfg (drop_foreign_permits ls p) = cfg p"
  unfolding drop_foreign_permits_def by (rule fold_field) (simp split: prod.split option.split)

lemma cfg_ops [simp]:
  "cfg (snd (update_local_ipv4 now addresses p)) = cfg p"
  "cfg (snd (activate_reviewed_ip_routes items p)) = cfg p"
  "cfg (snd (suspend_takeover reason p)) = cfg p"
  "cfg (snd (resolve_dns_rule idna now q p)) = cfg p"
  "cfg (snd (register_alias idna now d a ttl p)) = cfg p"
  "cfg (snd (replace_leases idna now d records p)) = cfg p"
  "cfg (snd (drain_expired_leases now p)) = cfg p"
  "cfg (snd (commit_control_flow token k name mapping key expires p)) = cfg p"
  "cfg (snd (match_control_flow now proto src sport dst dport p)) = cfg p"
  by (simp_all add: update_local_ipv4_def activate_reviewed_ip_routes_def suspend_takeover_def
      resolve_dns_rule_def register_alias_def replace_leases_def drain_expired_leases_def
      commit_control_flow_def match_control_flow_def Let_def split: sum.split option.split)

lemma cfg_create [simp]: "cfg (snd (create_relay_mapping now1 now2 si sp vi vp ri rp p)) = cfg p"
proof (cases "lease_for now1 vi vp p")
  case (Pair lo q)
  have "cfg q = cfg p" using Pair cfg_nat_ops(8) [of now1 vi vp p] by simp
  with Pair show ?thesis
    by (auto simp: create_relay_mapping_def Let_def split_beta split: sum.split option.split)
qed

lemma suspend_takeover_inv: "policy_inv p \<Longrightarrow> policy_inv (snd (suspend_takeover reason p))"
  by (simp add: suspend_takeover_def)

lemmas op_invs = update_local_ipv4_inv activate_routes_inv suspend_takeover_inv suspend_locked_inv
  close_inv resolve_dns_rule_inv register_alias_inv replace_leases_inv lease_for_inv drain_inv
  match_control_flow_inv revoke_inv create_relay_mapping_inv consume_inv activate_inv
  close_relay_mapping_inv match_nat_inv

lemma run_inv_step: "policy_step s t \<Longrightarrow> run_inv s \<Longrightarrow> run_inv t"
proof (induction rule: policy_step.induct)
  case (step_check idna now kind proto src dst dport d g p k name mapping p' f sport)
  then have p: "policy_inv p" by (simp add: run_inv_def)
  have "policy_inv p'" "cfg p' = cfg p"
    using check_control_flow_inv [OF p, of idna now kind proto src dst dport d g]
      check_control_flow_cfg [of idna now kind proto src dst dport d g p] step_check(1) by simp_all
  moreover have "flow_ok (cfg p) k name (flow_key proto src sport dst dport)"
    using check_control_flow_ok [OF p, of idna now kind proto src dst dport d g k name mapping]
      step_check(1) by simp
  ultimately show ?case using step_check(2) by (auto simp: run_inv_def)
next
  case (step_check_fails idna now kind proto src dst dport d g p e p' f)
  then have p: "policy_inv p" by (simp add: run_inv_def)
  have "policy_inv p'" "cfg p' = cfg p"
    using check_control_flow_inv [OF p, of idna now kind proto src dst dport d g]
      check_control_flow_cfg [of idna now kind proto src dst dport d g p] step_check_fails(1)
    by simp_all
  with step_check_fails(2) show ?case by (simp add: run_inv_def)
next
  case (step_commit k name mapping key f p token expires)
  then have "flow_ok (cfg p) k name key" by (auto simp: run_inv_def)
  with step_commit set_remove1_subset [of "(k, name, mapping, key)" f] show ?case
    unfolding run_inv_def by (auto simp: commit_control_flow_inv)
qed (simp_all add: run_inv_def op_invs match_relay_forward_def match_relay_reverse_def)

definition run_init :: "policy \<times> inflight \<Rightarrow> bool" where
  "run_init = (\<lambda>(p, f). f = [] \<and> (\<exists>c. policy_config_ok c \<and> p = new_policy c))"

interpretation policy_run: invariant_machine run_init policy_step run_inv
proof
  show "run_init s \<Longrightarrow> run_inv s" for s
    by (auto simp: run_init_def run_inv_def new_policy_inv)
qed (rule run_inv_step)

lemma reachable_policy_inv: "run_init s \<Longrightarrow> policy_step\<^sup>*\<^sup>* s (p, f) \<Longrightarrow> policy_inv p"
  using policy_run.reachable_inv [of s "(p, f)"] by (simp add: run_inv_def)

lemma match_reviewed_ip_Some:
  assumes "policy_inv p" and "match_reviewed_ip p packet = Some r"
  shows "r \<in> set (rr_rules (reviewed (cfg p))) \<and>
    rule_covers r (upper (p_protocol packet)) (p_target_ipv4 packet) (p_target_port packet) \<and>
    (\<exists>b. dget (route_bindings p) (p_target_ipv4 packet) = Some b \<and>
       p_source_ipv4 packet = b_source_ipv4 b \<and> p_interface_index packet = b_interface_index b) \<and>
    p_outbound packet \<and> \<not> is_closed p \<and> \<not> egress_suspended p"
proof -
  note j = policy_invD [OF assms(1)]
  from assms(2) obtain b where b: "dget (route_bindings p) (p_target_ipv4 packet) = Some b"
    "p_source_ipv4 packet = b_source_ipv4 b" "p_interface_index packet = b_interface_index b"
    and o: "p_outbound packet" "\<not> is_closed p" "\<not> egress_suspended p"
    and i: "index_find (rr_index (reviewed (cfg p))) (upper (p_protocol packet)) (b_target_ipv4 b)
        (p_target_port packet) = Some r"
    by (auto simp: match_reviewed_ip_def Let_def split: if_splits option.splits)
  have "b_target_ipv4 b = p_target_ipv4 packet" using j(6) b(1) unfolding routes_ok_def by blast
  with i j(1) index_find_iff [of "rr_rules (reviewed (cfg p))" "rr_index (reviewed (cfg p))"]
  have "r \<in> set (rr_rules (reviewed (cfg p))) \<and>
    rule_covers r (upper (p_protocol packet)) (p_target_ipv4 packet) (p_target_port packet)"
    by (simp add: policy_config_ok_def)
  with b o show ?thesis by simp
qed

section \<open>A policy that is closed or suspended stays so\<close>

lemma down_fields [simp]:
  "is_closed (snd (match_nat select now key p)) = is_closed p"
  "egress_suspended (snd (match_nat select now key p)) = egress_suspended p"
  "is_closed (snd (lease_for now ip port p)) = is_closed p"
  "egress_suspended (snd (lease_for now ip port p)) = egress_suspended p"
  by (simp_all add: match_nat_def lease_for_def Let_def split_beta)

lemma down_drop_foreign [simp]:
  "is_closed (drop_foreign_permits ls p) = is_closed p"
  "egress_suspended (drop_foreign_permits ls p) = egress_suspended p"
  unfolding drop_foreign_permits_def
  by (rule fold_field; simp split: prod.split option.split)+

lemma down_create [simp]:
  "is_closed (snd (create_relay_mapping now1 now2 si sp vi vp ri rp p)) = is_closed p"
  "egress_suspended (snd (create_relay_mapping now1 now2 si sp vi vp ri rp p)) = egress_suspended p"
proof -
  obtain lo q where q: "lease_for now1 vi vp p = (lo, q)" by force
  have "is_closed q = is_closed p" "egress_suspended q = egress_suspended p"
    using q down_fields(3,4) [of now1 vi vp p] by simp_all
  with q show "is_closed (snd (create_relay_mapping now1 now2 si sp vi vp ri rp p)) = is_closed p"
    "egress_suspended (snd (create_relay_mapping now1 now2 si sp vi vp ri rp p)) = egress_suspended p"
    by (auto simp: create_relay_mapping_def Let_def split_beta split: sum.split option.split)
qed

definition down :: "policy \<Rightarrow> bool" where
  "down p \<longleftrightarrow> is_closed p \<or> egress_suspended p"

lemma check_control_flow_down:
  "down (snd (check_control_flow idna now kind proto src dst dport d g p)) = down p"
  using check_control_flow_state [of idna now kind proto src dst dport d g p]
  by (auto simp: down_def)

lemma down_ops:
  "down p \<Longrightarrow> down (snd (update_local_ipv4 now addresses p))"
  "down p \<Longrightarrow> down (snd (activate_reviewed_ip_routes items p))"
  "down p \<Longrightarrow> down (snd (suspend_takeover reason p))"
  "down p \<Longrightarrow> down (snd (resolve_dns_rule idna now q p))"
  "down p \<Longrightarrow> down (snd (register_alias idna now d a ttl p))"
  "down p \<Longrightarrow> down (snd (replace_leases idna now d records p))"
  "down p \<Longrightarrow> down (snd (drain_expired_leases now p))"
  "down p \<Longrightarrow> down (snd (commit_control_flow token k name mapping key expires p))"
  "down p \<Longrightarrow> down (snd (match_control_flow now proto src sport dst dport p))"
  "down p \<Longrightarrow> down (revoke_control_flow token p)"
  by (auto simp: down_def update_local_ipv4_def activate_reviewed_ip_routes_def
      suspend_takeover_def suspend_locked_def suspend_takeover_locked_def
      resolve_dns_rule_def register_alias_def replace_leases_def drain_expired_leases_def
      commit_control_flow_def match_control_flow_def revoke_control_flow_def Let_def
      split: sum.split option.split)

lemma down_step: "policy_step s t \<Longrightarrow> down (fst s) \<Longrightarrow> down (fst t)"
proof (induction rule: policy_step.induct)
  case (step_check idna now kind proto src dst dport d g p k name mapping p' f sport)
  then show ?case
    using check_control_flow_down [of idna now kind proto src dst dport d g p] by simp
next
  case (step_check_fails idna now kind proto src dst dport d g p e p' f)
  then show ?case
    using check_control_flow_down [of idna now kind proto src dst dport d g p] by simp
qed (simp_all add: down_ops,
     simp_all add: down_def suspend_locked_def close_def match_relay_forward_def match_relay_reverse_def
       close_relay_mapping_def activate_relay_mapping_def consume_relay_target_def Let_def split_beta)

lemma down_steps: "policy_step\<^sup>*\<^sup>* s t \<Longrightarrow> down (fst s) \<Longrightarrow> down (fst t)"
  by (induction rule: rtranclp_induct) (auto intro: down_step)

text \<open>Everything that could let a packet out is refused.\<close>

lemma down_refuses:
  assumes "down p"
  shows "fst (match_control_flow now proto si sp di dp p) = None"
    "fst (match_relay_forward now proto si sp di dp p) = None"
    "fst (match_relay_reverse now proto si sp di dp p) = None"
    "fst (lease_for now di dp p) = None"
    "match_reviewed_ip p packet = None"
    "\<not> matches_takeover_sink p proto si sp di dp"
    "\<exists>e. fst (register_control_flow idna now now2 token kind proto si sp di dp domain ttl gen p) = Inl e"
    "\<exists>e. fst (create_relay_mapping now now2 si sp di dp ri rp p) = Inl e"
    "\<exists>e. fst (replace_leases idna now d records p) = Inl e"
proof -
  have o: "\<exists>e. ensure_open p = Inl e" using assms by (auto simp: down_def ensure_open_def)
  show "fst (lease_for now di dp p) = None" using assms by (simp add: lease_for_def down_def)
  then show "\<exists>e. fst (create_relay_mapping now now2 si sp di dp ri rp p) = Inl e"
    by (cases "lease_for now di dp p") (simp add: create_relay_mapping_def)
  show "\<exists>e. fst (register_control_flow idna now now2 token kind proto si sp di dp domain ttl gen p) = Inl e"
    using o by (auto simp: register_control_flow_def check_control_flow_def)
  show "\<exists>e. fst (replace_leases idna now d records p) = Inl e"
    using o by (auto simp: replace_leases_def Let_def split: sum.split)
qed (use assms in \<open>auto simp: down_def match_control_flow_def match_relay_forward_def
     match_relay_reverse_def match_nat_def match_reviewed_ip_def matches_takeover_sink_def
     takeover_available_def Let_def\<close>)

section \<open>The relay in both directions\<close>

lemma nat_match_Some:
  assumes "fst (nat_match now idle tbl key n) = Some m"
  obtains g x where "dget tbl key = Some g" "obj n g = Some x" "expires_at x > now"
    "m = (if active x then x\<lparr>expires_at := now + idle + 30\<rparr> else x)"
    "snd (nat_match now idle tbl key n) = set_obj g m n"
  using assms
  by (auto simp: nat_match_def obj_def set_obj_def Let_def split: option.splits if_splits)

lemma forward_then_reverse:
  assumes i: "nat_inv q hello n" and m: "fst (nat_match now idle (nat_forward n) key n) = Some m"
    and now: "0 \<le> idle"
  defines "n' \<equiv> snd (nat_match now idle (nat_forward n) key n)"
  shows "forward_key m = key" "fst (nat_match now idle (nat_reverse n') (reverse_key m) n') = Some m"
proof -
  from m obtain g x where g: "dget (nat_forward n) key = Some g" "obj n g = Some x" "expires_at x > now"
    and m': "m = (if active x then x\<lparr>expires_at := now + idle + 30\<rparr> else x)"
    and n': "n' = set_obj g m n"
    unfolding n'_def by (rule nat_match_Some)
  from refsD(1) [OF nat_invD(2) [OF i] g(1)] g(2)
  have r: "forward_key x = key" "dget (nat_reverse n) (reverse_key x) = Some g" by auto
  have k: "forward_key m = forward_key x" "reverse_key m = reverse_key x" "active m = active x"
    by (auto simp: m' forward_key_def reverse_key_def)
  with r show "forward_key m = key" by simp
  have "expires_at m > now" using g(3) now by (auto simp: m')
  moreover have "dget (nat_objs n') g = Some m" by (simp add: n' set_obj_def dict_simps)
  moreover have "dget (nat_reverse n') (reverse_key m) = Some g" using r(2) by (simp add: n' k)
  ultimately show "fst (nat_match now idle (nat_reverse n') (reverse_key m) n') = Some m"
    by (auto simp: nat_match_def Let_def m')
qed

lemma match_nat_Some:
  assumes "fst (match_nat select now key p) = Some m"
  shows "\<not> down p"
    "fst (nat_match now (of_int (relay_idle_timeout (cfg p))) (select (relay_nat (cleanup_locked now p)))
       key (relay_nat (cleanup_locked now p))) = Some m"
  using assms by (auto simp: match_nat_def down_def Let_def split_beta split: if_splits)

lemma match_forward_mapping_ok:
  assumes p: "policy_inv p" and m: "fst (match_nat nat_forward now key p) = Some m"
  shows "mapping_ok (cfg p) m \<and> forward_key m = key \<and> \<not> down p"
proof -
  let ?p = "cleanup_locked now p"
  note j = policy_invD [OF cleanup_locked_inv [OF p, of now]]
  from nat_match_Some [OF match_nat_Some(2) [OF m]] obtain g x where
    g: "dget (nat_forward (relay_nat ?p)) key = Some g" "obj (relay_nat ?p) g = Some x"
    and mx: "m = (if active x then x\<lparr>expires_at := now + of_int (relay_idle_timeout (cfg p)) + 30\<rparr> else x)"
    by metis
  have "mapping_ok (cfg p) x" using j(3) g(2) by (auto simp: all_objs_def)
  moreover have "forward_key x = key" using refsD(1) [OF nat_invD(2) [OF j(2)] g(1)] g(2) by auto
  ultimately show ?thesis
    using match_nat_Some(1) [OF m] by (auto simp: mx mapping_ok_def forward_key_def)
qed

section \<open>A concrete run\<close>

text \<open>A lease for \<open>example.com\<close>, a relay mapping for a sample's connection, its consumption and
  activation; and a DNS control flow.\<close>

definition demo_p0 :: policy where
  "demo_p0 = new_policy demo_policy_config"

definition demo_p1 :: policy where
  "demo_p1 = snd (replace_leases (\<lambda>_. None) 100 ''example.com'' [(''93.184.216.34'', 300)] demo_p0)"

definition demo_p2 :: policy where
  "demo_p2 = snd (create_relay_mapping 101 102 ''192.168.56.10'' 49200 ''93.184.216.34'' 443
     ''192.168.56.10'' 38927 demo_p1)"

definition demo_p3 :: policy where
  "demo_p3 = snd (commit_control_flow ''t0'' ''dns'' [] None
     (flow_key ''udp'' ''192.168.56.10'' 50000 ''8.8.8.8'' 53) 110 demo_p0)"

lemma demo_reach:
  "run_init (demo_p0, [])" "policy_step\<^sup>*\<^sup>* (demo_p0, []) (demo_p1, [])"
  "policy_step\<^sup>*\<^sup>* (demo_p0, []) (demo_p2, [])"
proof -
  show "run_init (demo_p0, [])"
    using init_policy_ok [OF demo_init_policy] by (auto simp: run_init_def demo_p0_def)
  have a: "policy_step (demo_p0, []) (demo_p1, [])" "policy_step (demo_p1, []) (demo_p2, [])"
    by (simp_all add: demo_p1_def demo_p2_def policy_step.intros)
  then show "policy_step\<^sup>*\<^sup>* (demo_p0, []) (demo_p1, [])" "policy_step\<^sup>*\<^sup>* (demo_p0, []) (demo_p2, [])"
    by auto
qed

lemmas policy_eval = py_eval new_policy_def replace_leases_def ensure_open_def
  demo_policy_config_def add_lease_def empty_leases_def create_relay_mapping_def lease_for_def
  cleanup_locked_def cleanup_leases_def cleanup_permits_def nat_cleanup_def
  expire_generations_def nat_empty_def is_exact_local_ipv4_def nat_create_def tombstoned_def
  nat_limits_of_def forward_key_def client_key_def reverse_key_def push_event_def
  check_control_flow_def commit_control_flow_def match_control_flow_def permit_expired_def
  match_relay_forward_def match_relay_reverse_def match_nat_def nat_match_def obj_expired_def
  obj_expires_def

lemma demo_p1_leases: "leases demo_p1 = [(''example.com'', [(''93.184.216.34'',
    \<lparr>l_domain = ''example.com'', l_ip = ''93.184.216.34'', l_expires = 400\<rparr>)])]"
  by (simp add: demo_p1_def demo_p0_def policy_eval)

lemma demo_p1_lease_for:
  "fst (lease_for 399 ''93.184.216.34'' 443 demo_p1) =
     Some \<lparr>l_domain = ''example.com'', l_ip = ''93.184.216.34'', l_expires = 400\<rparr>"
  by (simp add: demo_p1_def demo_p0_def policy_eval)

lemma demo_p2_forward:
  "fst (match_relay_forward 103 ''TCP'' ''192.168.56.10'' 49200 ''93.184.216.34'' 443 demo_p2) =
     Some (demo_mapping\<lparr>created_at := 102, expires_at := 112\<rparr>)"
  by (simp add: demo_p2_def demo_p1_def demo_p0_def policy_eval demo_mapping_def)

lemma demo_p3_reach: "policy_step\<^sup>*\<^sup>* (demo_p0, []) (demo_p3, [])"
proof -
  let ?k = "flow_key ''udp'' ''192.168.56.10'' 50000 ''8.8.8.8'' 53"
  have "check_control_flow (\<lambda>_. None) 100 ''DNS'' ''udp'' ''192.168.56.10'' ''8.8.8.8'' 53 None None
      demo_p0 = (Inr (''dns'', [], None), demo_p0)"
    by (simp add: demo_p0_def policy_eval)
  from step_check [OF this, of "[]" 50000]
  have "policy_step (demo_p0, []) (demo_p0, [(''dns'', [], None, ?k)])" .
  moreover have "policy_step (demo_p0, [(''dns'', [], None, ?k)]) (demo_p3, [])"
    using step_commit [of "''dns''" "[]" None ?k "[(''dns'', [], None, ?k)]" demo_p0 "''t0''" 110]
    by (simp add: demo_p3_def)
  ultimately show ?thesis by auto
qed

lemma demo_p3_match:
  "\<exists>m. fst (match_control_flow 105 ''UDP'' ''192.168.56.10'' 50000 ''8.8.8.8'' 53 demo_p3) = Some m"
  by (simp add: demo_p3_def demo_p0_def policy_eval)

section \<open>Properties\<close>

text \<open>C2. In every state any interleaving of the policy's methods reaches, a control flow that the
  packet path lets out is a DNS query to the configured server on port 53, or a TCP connection of
  the relay to a global address on an allowed port for an allowed domain; and the policy is open.
  This holds although the registration of a flow releases the lock between check and commit.\<close>

theorem control_flow_safety:
  assumes "run_init s" and "policy_step\<^sup>*\<^sup>* s (p, f)"
    and "fst (match_control_flow now proto src sport dst dport p) = Some m"
  shows "flow_ok (cfg p) (permit_kind m) (permit_domain m) (flow_key proto src sport dst dport) \<and>
    \<not> is_closed p \<and> \<not> egress_suspended p"
proof -
  have "policy_inv p" using assms(1,2) by (rule reachable_policy_inv)
  from match_control_flow_Some [OF this assms(3)] show ?thesis by simp
qed

theorem control_flow_safety_witness:
  "\<exists>m. fst (match_control_flow 105 ''UDP'' ''192.168.56.10'' 50000 ''8.8.8.8'' 53 demo_p3) = Some m \<and>
     flow_ok (cfg demo_p3) (permit_kind m) (permit_domain m)
       (flow_key ''UDP'' ''192.168.56.10'' 50000 ''8.8.8.8'' 53)"
proof -
  obtain m where m:
    "fst (match_control_flow 105 ''UDP'' ''192.168.56.10'' 50000 ''8.8.8.8'' 53 demo_p3) = Some m"
    using demo_p3_match by blast
  from control_flow_safety [OF demo_reach(1) demo_p3_reach m] m show ?thesis by blast
qed

text \<open>C4. In every reachable state the four quota counters equal the number of pending and active
  mappings that the tables hold, in total and per source address, and stay within the
  configured limits.\<close>

theorem relay_quota:
  assumes "run_init s" and "policy_step\<^sup>*\<^sup>* s (p, f)" and "n = relay_nat p"
  shows "nat_pending n = cnt (slot n False None) (nat_generation n) \<and>
    nat_active n = cnt (slot n True None) (nat_generation n) \<and>
    cget (nat_pending_by_source n) ip = cnt (slot n False (Some ip)) (nat_generation n) \<and>
    cget (nat_active_by_source n) ip = cnt (slot n True (Some ip)) (nat_generation n) \<and>
    nat_pending n \<le> 256 \<and> nat_active n \<le> 128 \<and>
    cget (nat_pending_by_source n) ip \<le> 32 \<and> cget (nat_active_by_source n) ip \<le> 16"
proof -
  have "policy_inv p" using assms(1,2) by (rule reachable_policy_inv)
  note j = policy_invD [OF this]
  show ?thesis
    using nat_invD(3,4) [OF j(2)] j(1)
    by (auto simp: assms(3) counts_ok_def quotas_ok_def nat_limits_of_def policy_config_ok_def)
qed

theorem relay_quota_witness: "nat_pending (relay_nat demo_p2) \<le> 256 \<and> nat_pending (relay_nat demo_p2) = 1"
proof -
  have "nat_pending (relay_nat demo_p2) = 1"
    by (simp add: demo_p2_def demo_p1_def demo_p0_def policy_eval)
  with relay_quota [OF demo_reach(1,3) refl] show ?thesis by blast
qed

text \<open>C3. Fail closed: once a reachable state is closed or suspended, every state that follows it
  is, and there no packet matches a control flow, a relay mapping in either direction, a reviewed
  address or the takeover sink; no lease answers, and registering a flow, creating a mapping or
  replacing leases raises.\<close>

theorem fail_closed:
  assumes "run_init s" and "policy_step\<^sup>*\<^sup>* s (p, f)" and "is_closed p \<or> egress_suspended p"
    and "policy_step\<^sup>*\<^sup>* (p, f) (q, f')"
  shows "fst (match_control_flow now proto si sp di dp q) = None \<and>
    fst (match_relay_forward now proto si sp di dp q) = None \<and>
    fst (match_relay_reverse now proto si sp di dp q) = None \<and>
    fst (lease_for now di dp q) = None \<and> match_reviewed_ip q packet = None \<and>
    \<not> matches_takeover_sink q proto si sp di dp \<and>
    (\<exists>e. fst (register_control_flow idna now now2 token kind proto si sp di dp domain ttl gen q) = Inl e) \<and>
    (\<exists>e. fst (create_relay_mapping now now2 si sp di dp ri rp q) = Inl e) \<and>
    (\<exists>e. fst (replace_leases idna now d records q) = Inl e) \<and> quiescent q"
proof -
  have d: "down q" using down_steps [OF assms(4)] assms(3) by (simp add: down_def)
  have "policy_step\<^sup>*\<^sup>* s (q, f')" using assms(2,4) by (rule rtranclp_trans)
  with assms(1) have "policy_inv q" by (rule reachable_policy_inv)
  then have "quiescent q" using policy_invD(7) d by (simp add: down_def)
  with down_refuses [OF d] show ?thesis by simp
qed

theorem fail_closed_witness:
  "fst (match_relay_forward 103 ''TCP'' ''192.168.56.10'' 49200 ''93.184.216.34'' 443
     (suspend_locked demo_p2)) = None \<and> quiescent (suspend_locked demo_p2)"
proof -
  have "policy_step (demo_p2, []) (suspend_locked demo_p2, [])" by (rule step_suspend)
  with demo_reach(3) have "policy_step\<^sup>*\<^sup>* (demo_p0, []) (suspend_locked demo_p2, [])" by simp
  from fail_closed [OF demo_reach(1) this _ rtranclp.rtrancl_refl] show ?thesis
    by (simp add: suspend_locked_def)
qed

text \<open>C38. In a reachable state, when a sample's packet matches a relay mapping, the mapping is for
  exactly that flow, its server is a global address on an allowed port with an allowed domain, it
  goes to the configured relay port, and the relay's answer, looked up by the mapping's reverse
  key, finds the same mapping.\<close>

theorem relay_round_trip:
  assumes "run_init s" and "policy_step\<^sup>*\<^sup>* s (p, f)" and "0 \<le> relay_idle_timeout (cfg p)"
    and "key = flow_key proto si sp di dp"
    and "fst (match_relay_forward now proto si sp di dp p) = Some m"
    and "n = relay_nat (snd (match_relay_forward now proto si sp di dp p))"
  shows "forward_key m = key \<and> mapping_ok (cfg p) m \<and>
    fst (nat_match now (of_int (relay_idle_timeout (cfg p))) (nat_reverse n) (reverse_key m) n) = Some m"
proof -
  have p: "policy_inv p" using assms(1,2) by (rule reachable_policy_inv)
  let ?c = "relay_nat (cleanup_locked now p)"
  from assms(5) have m: "fst (match_nat nat_forward now key p) = Some m"
    by (simp add: match_relay_forward_def assms(4))
  note mm = match_nat_Some [OF m]
  have n: "n = snd (nat_match now (of_int (relay_idle_timeout (cfg p))) (nat_forward ?c) key ?c)"
    using mm(1) by (simp add: assms(4,6) match_relay_forward_def match_nat_def down_def Let_def split_beta)
  have "nat_inv (nat_limits_of (cfg p)) (of_int (hello_timeout (cfg p))) ?c"
    using policy_invD(2) [OF cleanup_locked_inv [OF p, of now]] by simp
  from forward_then_reverse(2) [OF this mm(2)] assms(3)
  have "fst (nat_match now (of_int (relay_idle_timeout (cfg p))) (nat_reverse n) (reverse_key m) n) = Some m"
    by (simp add: n)
  with match_forward_mapping_ok [OF p m] show ?thesis by simp
qed

theorem relay_round_trip_witness:
  "mapping_ok (cfg demo_p2) (demo_mapping\<lparr>created_at := 102, expires_at := 112\<rparr>)"
proof -
  have "0 \<le> relay_idle_timeout (cfg demo_p2)"
    by (simp add: demo_p2_def demo_p1_def demo_p0_def new_policy_def demo_policy_config_def)
  from relay_round_trip [OF demo_reach(1,3) this refl demo_p2_forward refl] show ?thesis by simp
qed

text \<open>A relay slot that is not yet authenticated cannot be held: in every reachable state a
  pending mapping expires less than twenty seconds after it was created, whatever packets match it
  meanwhile, and after that deadline cleanup has removed it.\<close>

theorem pending_deadline:
  assumes "run_init s" and "policy_step\<^sup>*\<^sup>* s (p, f)" and "hello_timeout (cfg p) = 5"
    and "g \<in> set (nat_generation (relay_nat p))" and "obj (relay_nat p) g = Some m" and "\<not> active m"
  shows "expires_at m < created_at m + 20 \<and>
    (expires_at m \<le> now \<longrightarrow> g \<notin> set (nat_generation (relay_nat (cleanup_locked now p))))"
proof -
  have p: "policy_inv p" using assms(1,2) by (rule reachable_policy_inv)
  have "deadline_ok 5 m"
    using deadlines_okD [OF nat_invD(5) [OF policy_invD(2) [OF p]] assms(4,5)] assms(3) by simp
  then have "expires_at m < created_at m + 20"
    using assms(6) by (cases "consumed m") (auto simp: deadline_ok_def)
  moreover have "g \<notin> set (nat_generation (relay_nat (cleanup_locked now p)))" if "expires_at m \<le> now"
  proof -
    have "obj_expired (relay_nat p) now g"
      using assms(5) that by (simp add: obj_expired_def obj_expires_def obj_def)
    then show ?thesis
      by (simp add: cleanup_locked_def Let_def nat_cleanup_def expire_generations_def expire_fold
          cleanup_leases_def)
  qed
  ultimately show ?thesis by blast
qed

theorem pending_deadline_witness:
  "1 \<notin> set (nat_generation (relay_nat (cleanup_locked 112 demo_p2)))"
proof -
  have f: "1 \<in> set (nat_generation (relay_nat demo_p2))"
    "obj (relay_nat demo_p2) 1 = Some (demo_mapping\<lparr>created_at := 102, expires_at := 112\<rparr>)"
    "hello_timeout (cfg demo_p2) = 5"
    by (simp_all add: demo_p2_def demo_p1_def demo_p0_def policy_eval obj_def demo_mapping_def)
  have "\<not> active (demo_mapping\<lparr>created_at := 102, expires_at := 112\<rparr>)" by (simp add: demo_mapping_def)
  from pending_deadline [OF demo_reach(1,3) f(3) f(1,2) this] show ?thesis by simp
qed

text \<open>A lease answers only while it is valid: in a reachable state \<open>lease_for\<close> returns a lease for
  the asked address only on an allowed port, only of an allowed domain, only for a global address
  and only before its deadline.\<close>

theorem lease_sound:
  assumes "run_init s" and "policy_step\<^sup>*\<^sup>* s (p, f)" and "fst (lease_for now ip port p) = Some l"
  shows "l_ip l = ip \<and> is_global_ipv4 ip \<and> match_allowed_domain (cfg p) (l_domain l) \<noteq> None \<and>
    l_expires l > now \<and> port \<in> set (allowed_tcp_ports (cfg p)) \<and> \<not> is_closed p \<and> \<not> egress_suspended p"
proof -
  have p: "policy_inv p" using assms(1,2) by (rule reachable_policy_inv)
  obtain p' where "lease_for now ip port p = (Some l, p')"
    using assms(3) by (cases "lease_for now ip port p") auto
  from lease_for_Some [OF p this] show ?thesis by (simp add: lease_ok_def)
qed

theorem lease_sound_witness: "is_global_ipv4 ''93.184.216.34''"
  using lease_sound [OF demo_reach(1,2) demo_p1_lease_for] by blast

text \<open>In a reachable state a packet is let through as reviewed only when a configured rule covers
  its protocol, target address and port, and its source address and interface are those of the
  activated route to that target.\<close>

theorem reviewed_match_sound:
  assumes "run_init s" and "policy_step\<^sup>*\<^sup>* s (p, f)" and "match_reviewed_ip p packet = Some r"
  shows "r \<in> set (rr_rules (reviewed (cfg p))) \<and>
    rule_covers r (upper (p_protocol packet)) (p_target_ipv4 packet) (p_target_port packet) \<and>
    (\<exists>b. dget (route_bindings p) (p_target_ipv4 packet) = Some b \<and>
       p_source_ipv4 packet = b_source_ipv4 b \<and> p_interface_index packet = b_interface_index b) \<and>
    p_outbound packet \<and> \<not> is_closed p \<and> \<not> egress_suspended p"
  using match_reviewed_ip_Some [OF reachable_policy_inv [OF assms(1,2)] assms(3)] .

definition demo_binding :: ReviewedRouteBinding where
  "demo_binding = \<lparr>b_target_ipv4 = ''8.8.4.4'', b_source_ipv4 = ''192.168.56.10'', b_interface_index = 7\<rparr>"

definition demo_p4 :: policy where
  "demo_p4 = snd (activate_reviewed_ip_routes [Bound demo_binding] demo_p0)"

definition demo_packet :: ReviewedPacketTuple where
  "demo_packet = \<lparr>p_protocol = ''udp'', p_source_ipv4 = ''192.168.56.10'', p_source_port = 5000,
     p_target_ipv4 = ''8.8.4.4'', p_target_port = 53, p_interface_index = 7,
     p_subinterface_index = 0, p_outbound = True\<rparr>"

theorem reviewed_match_sound_witness:
  "match_reviewed_ip demo_p4 demo_packet = Some (demo_rule ''UDP'' None) \<and>
   demo_rule ''UDP'' None \<in> set (rr_rules (reviewed (cfg demo_p4)))"
proof -
  have "policy_step (demo_p0, []) (demo_p4, [])" by (simp add: demo_p4_def step_routes)
  then have r: "policy_step\<^sup>*\<^sup>* (demo_p0, []) (demo_p4, [])" by auto
  have m: "match_reviewed_ip demo_p4 demo_packet = Some (demo_rule ''UDP'' None)"
    by (simp add: demo_p4_def demo_p0_def policy_eval activate_reviewed_ip_routes_def
        prepare_binding_def demo_binding_def demo_packet_def match_reviewed_ip_def demo_rules_def
        demo_rule_def)
  from reviewed_match_sound [OF demo_reach(1) r m] m show ?thesis by blast
qed

end
