(* ===== verification/ProcessEngine.thy ===== *)
theory ProcessEngine
  imports ProcessRule
begin

text \<open>
  \<open>ProcessRedirectEngine\<close> of \<open>fakenet/diverters/processredirect.py\<close>: the NAT that redirects one
  process's TCP flows. A mapping object is shared by three tables and by transactions and is
  updated in place, so they hold its generation number and \<open>m_objs\<close> holds the object. The owner
  resolver and the route guard are not part of the repository's portable code: what they return is
  an argument, \<open>Inl\<close> when the call raises. A critical section takes its first clock reading as
  \<open>now\<close> and every later reading in the same section as \<open>t\<close>.
\<close>

section \<open>Data\<close>

datatype OwnerResolutionStatus = RESOLVED | NOT_FOUND | AMBIGUOUS | ERROR

record ProcessOwnerIdentity =
  o_pid :: int
  o_creation_time :: int
  o_final_path :: string
  o_volume_serial :: int
  o_file_id :: int

text \<open>The identity of a result may be any object; \<open>None\<close> is one that is no
  \<open>ProcessOwnerIdentity\<close>.\<close>

record OwnerResolution =
  res_status :: OwnerResolutionStatus
  res_identity :: "ProcessOwnerIdentity option"

record PacketTuple =
  pk_direction :: string
  pk_version :: int
  pk_fragmented :: bool
  pk_protocol :: string
  pk_flags :: int
  pk_src :: string
  pk_sport :: int
  pk_dst :: string
  pk_dport :: int
  pk_if :: int
  pk_subif :: int
  pk_size :: int

datatype ProcessRedirectAction = NOT_APPLICABLE | PASS_UNCHANGED | REWRITE_OUTBOUND
  | REWRITE_INBOUND | DROP

record ProcessRedirectDecision =
  action :: ProcessRedirectAction
  d_reason :: string
  d_generation :: "int option"
  d_target :: "(string \<times> int) option"
  d_source :: "(string \<times> int) option"
  d_pid :: "int option"
  d_creation_time :: "int option"
  d_file_id :: "int option"

type_synonym prepared = "ProcessRedirectDecision \<times> int option"

type_synonym tuple_key = "string \<times> string \<times> int \<times> string \<times> int \<times> int \<times> int"

record process_mapping =
  pm_generation :: int
  pm_local_ipv4 :: string
  pm_local_port :: int
  pm_original_port :: int
  pm_if :: int
  pm_subif :: int
  pm_pid :: int
  pm_creation_time :: int
  pm_created_at :: time
  pm_last_seen_at :: time
  client_fin_seen :: bool
  server_fin_seen :: bool
  half_closed_at :: "time option"

definition pm_forward_key :: "string \<Rightarrow> process_mapping \<Rightarrow> tuple_key" where
  "pm_forward_key original m = (''TCP'', pm_local_ipv4 m, pm_local_port m, original,
     pm_original_port m, pm_if m, pm_subif m)"

definition pm_reverse_key :: "string \<Rightarrow> process_mapping \<Rightarrow> tuple_key" where
  "pm_reverse_key target m = (''TCP'', target, pm_original_port m, pm_local_ipv4 m,
     pm_local_port m, pm_if m, pm_subif m)"

definition pm_client_key :: "process_mapping \<Rightarrow> string \<times> string \<times> int \<times> int \<times> int" where
  "pm_client_key m = (''TCP'', pm_local_ipv4 m, pm_local_port m, pm_if m, pm_subif m)"

record transaction =
  tr_mapping :: int
  tr_packet :: PacketTuple
  tr_new :: bool
  tr_created_at :: time

record engine =
  rule :: ProcessRedirectRule
  e_closed :: bool
  e_suspended :: bool
  suspend_reason :: "string option"
  e_generation :: int
  e_token :: int
  m_objs :: "(int, process_mapping) dict"
  e_forward :: "(tuple_key, int) dict"
  e_reverse :: "(tuple_key, int) dict"
  e_client :: "(string \<times> string \<times> int \<times> int \<times> int, int) dict"
  transactions :: "(int, transaction) dict"
  reservations :: "tuple_key list"
  e_tombstones :: "(tuple_key, time \<times> string) dict"
  query_tokens :: rat
  query_refill_at :: time
  syn_query_cache :: "(tuple_key, time \<times> OwnerResolution option) dict"
  a_pass :: "(tuple_key, time) dict"
  audit :: "(string, int) dict"
  last_audit_drain :: time

definition new_engine :: "time \<Rightarrow> ProcessRedirectRule \<Rightarrow> engine" where
  "new_engine now r = \<lparr>rule = r, e_closed = False, e_suspended = False, suspend_reason = None,
     e_generation = 0, e_token = 0, m_objs = [], e_forward = [], e_reverse = [], e_client = [],
     transactions = [], reservations = [], e_tombstones = [], query_tokens = 16,
     query_refill_at = now, syn_query_cache = [], a_pass = [], audit = [], last_audit_drain = now\<rparr>"

section \<open>Decisions\<close>

definition plain :: "ProcessRedirectAction \<Rightarrow> string \<Rightarrow> prepared" where
  "plain a r = (\<lparr>action = a, d_reason = r, d_generation = None, d_target = None, d_source = None,
     d_pid = None, d_creation_time = None, d_file_id = None\<rparr>, None)"

definition drop_packet :: "string \<Rightarrow> prepared" where
  "drop_packet r = plain DROP r"

definition not_applicable :: prepared where
  "not_applicable = plain NOT_APPLICABLE ''not_applicable''"

definition pass_packet :: "string \<Rightarrow> prepared" where
  "pass_packet r = plain PASS_UNCHANGED r"

definition packet_key :: "PacketTuple \<Rightarrow> tuple_key" where
  "packet_key p = (pk_protocol p, pk_src p, pk_sport p, pk_dst p, pk_dport p, pk_if p, pk_subif p)"

definition TH_FIN :: nat where "TH_FIN = 0"
definition TH_SYN :: nat where "TH_SYN = 1"
definition TH_RST :: nat where "TH_RST = 2"
definition TH_ACK :: nat where "TH_ACK = 4"

text \<open>\<open>packet.tcp_flags & flag\<close>.\<close>

definition has_flag :: "PacketTuple \<Rightarrow> nat \<Rightarrow> bool" where
  "has_flag p n = bit (pk_flags p) n"

section \<open>Locked helpers\<close>

definition count_audit :: "string \<Rightarrow> engine \<Rightarrow> engine" where
  "count_audit k e = e\<lparr>audit := cadd k 1 (audit e)\<rparr>"

definition new_transaction :: "time \<Rightarrow> int \<Rightarrow> PacketTuple \<Rightarrow> bool \<Rightarrow> engine \<Rightarrow> int \<times> engine" where
  "new_transaction t g p new e = (let k = e_token e + 1 in
     (k, e\<lparr>e_token := k, transactions := dset k
        \<lparr>tr_mapping = g, tr_packet = p, tr_new = new, tr_created_at = t\<rparr> (transactions e)\<rparr>))"

definition purge_tombstones :: "time \<Rightarrow> engine \<Rightarrow> engine" where
  "purge_tombstones now e =
     e\<lparr>e_tombstones := filter (\<lambda>(k, item). \<not> fst item \<le> now) (e_tombstones e)\<rparr>"

definition add_tombstone :: "time \<Rightarrow> process_mapping \<Rightarrow> time \<Rightarrow> string \<Rightarrow> engine \<Rightarrow> engine" where
  "add_tombstone t m seconds reason e =
     e\<lparr>e_tombstones := dset (pm_reverse_key (target_ipv4 (rule e)) m) (t + seconds, reason)
        (dset (pm_forward_key (original_ipv4 (rule e)) m) (t + seconds, reason) (e_tombstones e))\<rparr>"

definition remove_process_mapping :: "process_mapping \<Rightarrow> engine \<Rightarrow> engine" where
  "remove_process_mapping m e =
     e\<lparr>e_forward := ddel (pm_forward_key (original_ipv4 (rule e)) m) (e_forward e),
       e_reverse := ddel (pm_reverse_key (target_ipv4 (rule e)) m) (e_reverse e),
       e_client := (if dget (e_client e) (pm_client_key m) = Some (pm_generation m)
         then ddel (pm_client_key m) (e_client e) else e_client e)\<rparr>"

definition observe_tcp :: "time \<Rightarrow> int \<Rightarrow> PacketTuple \<Rightarrow> engine \<Rightarrow> engine" where
  "observe_tcp t g p e = (case dget (m_objs e) g of
       None \<Rightarrow> e
     | Some m \<Rightarrow>
         if has_flag p TH_RST then
           count_audit ''closed_normal_rst''
             (add_tombstone t m 240 ''normal_close'' (remove_process_mapping m e))
         else if has_flag p TH_FIN then
           (let m1 = (if pk_direction p = ''outbound'' then m\<lparr>client_fin_seen := True\<rparr>
                      else m\<lparr>server_fin_seen := True\<rparr>);
                m2 = (if half_closed_at m1 = None then m1\<lparr>half_closed_at := Some t\<rparr> else m1);
                e1 = e\<lparr>m_objs := dset g m2 (m_objs e)\<rparr> in
            if client_fin_seen m2 \<and> server_fin_seen m2 then
              count_audit ''closed_normal_fin''
                (add_tombstone t m2 240 ''normal_close'' (remove_process_mapping m2 e1))
            else e1)
         else e)"

text \<open>The loops of \<open>_cleanup_locked\<close>, each over a snapshot.\<close>

definition expire_transaction :: "time \<Rightarrow> time \<Rightarrow> int \<times> transaction \<Rightarrow> engine \<Rightarrow> engine" where
  "expire_transaction now t = (\<lambda>(k, tr) e.
     if now - tr_created_at tr \<ge> 2 then
       (let e1 = e\<lparr>transactions := ddel k (transactions e)\<rparr> in
        if tr_new tr then
          (case dget (m_objs e1) (tr_mapping tr) of
             None \<Rightarrow> e1
           | Some m \<Rightarrow> add_tombstone t m 3 ''pending_timeout'' e1)
        else e1)
     else e)"

definition timeout_reason :: "time \<Rightarrow> process_mapping \<Rightarrow> string option" where
  "timeout_reason now m =
     (if (case half_closed_at m of None \<Rightarrow> False | Some h \<Rightarrow> now - h \<ge> 120)
      then Some ''half_close_timeout''
      else if now - pm_last_seen_at m \<ge> 1800 then Some ''idle_timeout'' else None)"

definition expire_mapping :: "time \<Rightarrow> time \<Rightarrow> int \<Rightarrow> engine \<Rightarrow> engine" where
  "expire_mapping now t g e = (case dget (m_objs e) g of
       None \<Rightarrow> e
     | Some m \<Rightarrow>
         (case timeout_reason now m of
            None \<Rightarrow> e
          | Some reason \<Rightarrow>
              count_audit (''closed_'' @ reason)
                (add_tombstone t m 240 reason (remove_process_mapping m e))))"

definition cleanup_engine :: "time \<Rightarrow> time \<Rightarrow> engine \<Rightarrow> engine" where
  "cleanup_engine now t e =
     (let e1 = purge_tombstones now
            (e\<lparr>a_pass := filter (\<lambda>(k, expires). expires > now) (a_pass e)\<rparr>);
          e2 = e1\<lparr>syn_query_cache := filter (\<lambda>(k, item). \<not> fst item \<le> now) (syn_query_cache e1)\<rparr>;
          e3 = fold (expire_transaction now t) (transactions e2) e2 in
      fold (expire_mapping now t) (remdups (dvals (e_forward e3))) e3)"

text \<open>The token bucket: 16 queries at once, 32 a second.\<close>

definition consume_query_budget :: "time \<Rightarrow> engine \<Rightarrow> bool \<times> engine" where
  "consume_query_budget now e =
     (let elapsed = max 0 (now - query_refill_at e);
          tokens = min 16 (query_tokens e + elapsed * 32) in
      if tokens < 1 then (False, e\<lparr>query_tokens := tokens, query_refill_at := now\<rparr>)
      else (True, e\<lparr>query_tokens := tokens - 1, query_refill_at := now\<rparr>))"

definition owner_matches_rule :: "ProcessRedirectRule \<Rightarrow> ProcessOwnerIdentity option \<Rightarrow> bool" where
  "owner_matches_rule r owner = (case owner of
       None \<Rightarrow> False
     | Some o' \<Rightarrow>
         normcase (normpath (o_final_path o')) =
           normcase (normpath (f_final_path (file_identity r))) \<and>
         o_volume_serial o' = f_volume_serial (file_identity r) \<and>
         o_file_id o' = f_file_id (file_identity r))"

section \<open>prepare\<close>

text \<open>What the first critical section of an outbound packet ends with.\<close>

datatype reserved = Finished prepared | Reserved "OwnerResolution option"

definition existing_mapping :: "time \<Rightarrow> PacketTuple \<Rightarrow> int \<Rightarrow> engine \<Rightarrow> reserved \<times> engine" where
  "existing_mapping t p g e =
     (if length (transactions e) \<ge> 128 then (Finished (drop_packet ''pending_transaction_capacity''), e)
      else (let (k, e1) = new_transaction t g p False e in
        (Finished (\<lparr>action = REWRITE_OUTBOUND, d_reason = ''existing_mapping'', d_generation = Some g,
           d_target = Some (target_ipv4 (rule e), pk_dport p), d_source = None, d_pid = None,
           d_creation_time = None, d_file_id = None\<rparr>, Some k), e1)))"

definition pending_for :: "engine \<Rightarrow> tuple_key \<Rightarrow> bool" where
  "pending_for e key = list_ex (\<lambda>tr. tr_new tr \<and>
     (case dget (m_objs e) (tr_mapping tr) of
        None \<Rightarrow> False
      | Some m \<Rightarrow> pm_forward_key (original_ipv4 (rule e)) m = key)) (dvals (transactions e))"

definition reserve_outbound :: "time \<Rightarrow> time \<Rightarrow> PacketTuple \<Rightarrow> engine \<Rightarrow> reserved \<times> engine" where
  "reserve_outbound now t p e0 = (let key = packet_key p; e = cleanup_engine now t e0 in
     if e_closed e \<or> e_suspended e
     then (Finished (drop_packet ''process_redirect_unavailable''), e)
     else (case dget (e_tombstones e) key of
         Some (_, reason) \<Rightarrow> (Finished (drop_packet (reason @ ''_tombstone'')), e)
       | None \<Rightarrow>
         (case dget (e_forward e) key of
            Some g \<Rightarrow> existing_mapping t p g e
          | None \<Rightarrow>
            if \<not> (has_flag p TH_SYN \<and> \<not> has_flag p TH_ACK) then
              (case dget (a_pass e) key of
                 Some expiry \<Rightarrow>
                   if expiry > now then
                     (Finished (pass_packet ''non_target_flow''),
                      e\<lparr>a_pass := dset key (now + 300) (a_pass e)\<rparr>)
                   else (Finished (drop_packet ''unmapped_a_flow''), e)
               | None \<Rightarrow> (Finished (drop_packet ''unmapped_a_flow''), e))
            else if key \<in> set (reservations e)
            then (Finished (drop_packet ''owner_query_pending''), e)
            else if length (reservations e) + length (transactions e) \<ge> 128
            then (Finished (drop_packet ''pending_transaction_capacity''), e)
            else if pending_for e key then (Finished (drop_packet ''mapping_pending''), e)
            else (case dget (syn_query_cache e) key of
                Some (_, resolution) \<Rightarrow>
                  (Reserved resolution, e\<lparr>reservations := List.insert key (reservations e)\<rparr>)
              | None \<Rightarrow>
                  if length (syn_query_cache e) \<ge> 4096
                  then (Finished (drop_packet ''owner_query_cache_full''),
                        count_audit ''owner_query_cache_full'' e)
                  else (let (ok, e1) = consume_query_budget t e in
                    if ok then
                      (Reserved None, e1\<lparr>reservations := List.insert key (reservations e1)\<rparr>)
                    else (Finished (drop_packet ''owner_query_budget_exhausted''),
                          count_audit ''owner_query_budget_exhausted'' e1))))))"

definition status_text :: "OwnerResolutionStatus \<Rightarrow> string" where
  "status_text s = (case s of RESOLVED \<Rightarrow> ''resolved'' | NOT_FOUND \<Rightarrow> ''not_found''
     | AMBIGUOUS \<Rightarrow> ''ambiguous'' | ERROR \<Rightarrow> ''error'')"

text \<open>After the query: the cache is filled, and an owner that is not the rule's is answered.
  \<open>None\<close> as result means the owner is the rule's process.\<close>

definition store_resolution ::
  "time \<Rightarrow> tuple_key \<Rightarrow> OwnerResolution option \<Rightarrow> engine \<Rightarrow> engine" where
  "store_resolution t key r e = e\<lparr>syn_query_cache := dset key (t + 3, r) (syn_query_cache e)\<rparr>"

definition judge_owner ::
  "time \<Rightarrow> tuple_key \<Rightarrow> OwnerResolution option \<Rightarrow> engine \<Rightarrow> prepared option \<times> engine" where
  "judge_owner t key r e = (case r of
       None \<Rightarrow> (Some (drop_packet ''owner_result_invalid''), e)
     | Some res \<Rightarrow>
         if res_status res \<noteq> RESOLVED then
           (Some (drop_packet (''owner_'' @ status_text (res_status res))),
            count_audit (''owner_'' @ status_text (res_status res)) e)
         else if \<not> owner_matches_rule (rule e) (res_identity res) then
           (Some (pass_packet ''resolved_non_target_process''),
            (count_audit ''non_target_compatibility_pass'' e)
              \<lparr>a_pass := dset key (t + 300) (a_pass e)\<rparr>)
         else (None, count_audit ''owner_resolved_target'' e))"

definition suspend_engine :: "time \<Rightarrow> string \<Rightarrow> engine \<Rightarrow> bool \<times> engine" where
  "suspend_engine t reason e =
     (if e_closed e then (False, e)
      else (let changed = \<not> e_suspended e;
                e1 = e\<lparr>e_suspended := True, suspend_reason := (case suspend_reason e of
                   None \<Rightarrow> Some reason | Some r \<Rightarrow> Some r)\<rparr>;
                e2 = fold (\<lambda>g e. case dget (m_objs e) g of
                     None \<Rightarrow> e
                   | Some m \<Rightarrow> add_tombstone t m 240 ''suspended'' (remove_process_mapping m e))
                   (dvals (e_forward e1)) e1;
                e3 = e2\<lparr>transactions := [], reservations := []\<rparr> in
        (changed, if changed then count_audit ''engine_suspended'' e3 else e3)))"

definition pending_new :: "engine \<Rightarrow> int list" where
  "pending_new e = map tr_mapping (filter tr_new (dvals (transactions e)))"

definition has_pid :: "engine \<Rightarrow> int \<Rightarrow> int \<Rightarrow> bool" where
  "has_pid e pid g = (case dget (m_objs e) g of None \<Rightarrow> False | Some m \<Rightarrow> pm_pid m = pid)"

definition pid_count :: "engine \<Rightarrow> int \<Rightarrow> nat" where
  "pid_count e pid = length (filter (has_pid e pid) (dvals (e_forward e))) +
     length (filter (has_pid e pid) (pending_new e))"

text \<open>The last critical section: the capacities, the new mapping and its transaction.\<close>

definition create_mapping ::
  "time \<Rightarrow> PacketTuple \<Rightarrow> ProcessOwnerIdentity \<Rightarrow> engine \<Rightarrow> prepared \<times> engine" where
  "create_mapping t p owner e =
     (if e_closed e \<or> e_suspended e then (drop_packet ''process_redirect_unavailable'', e)
      else if dget (e_forward e) (packet_key p) \<noteq> None then (drop_packet ''mapping_race'', e)
      else if length (e_forward e) + length (pending_new e) \<ge> 1024
      then (drop_packet ''global_mapping_capacity'', e)
      else if pid_count e (o_pid owner) \<ge> 256 then (drop_packet ''per_pid_mapping_capacity'', e)
      else (let g = e_generation e + 1;
                m = \<lparr>pm_generation = g, pm_local_ipv4 = pk_src p, pm_local_port = pk_sport p,
                  pm_original_port = pk_dport p, pm_if = pk_if p, pm_subif = pk_subif p,
                  pm_pid = o_pid owner, pm_creation_time = o_creation_time owner,
                  pm_created_at = t, pm_last_seen_at = t, client_fin_seen = False,
                  server_fin_seen = False, half_closed_at = None\<rparr>;
                e1 = e\<lparr>e_generation := g\<rparr> in
        if dget (e_client e1) (pm_client_key m) \<noteq> None \<or>
           list_ex (\<lambda>h. map_option pm_client_key (dget (m_objs e1) h) = Some (pm_client_key m))
             (pending_new e1)
        then (drop_packet ''client_endpoint_conflict'', e1)
        else (let e2 = e1\<lparr>m_objs := dset g m (m_objs e1)\<rparr>;
                  (k, e3) = new_transaction t g p True e2 in
          ((\<lparr>action = REWRITE_OUTBOUND, d_reason = ''new_mapping'', d_generation = Some g,
             d_target = Some (target_ipv4 (rule e), pk_dport p), d_source = None,
             d_pid = Some (pm_pid m), d_creation_time = Some (pm_creation_time m),
             d_file_id = Some (o_file_id owner)\<rparr>, Some k), e3))))"

definition discard_reservation :: "tuple_key \<Rightarrow> engine \<Rightarrow> engine" where
  "discard_reservation key e = e\<lparr>reservations := removeAll key (reservations e)\<rparr>"

text \<open>The answers of the environment to one preparation: the owner query, the route check with the
  guard's failure reason, and the second look at the process.\<close>

record answers =
  ans_owner :: "OwnerResolution option result"
  ans_route :: "bool result"
  ans_route_reason :: "string option"
  ans_identity :: "bool result"

definition after_owner ::
  "time \<Rightarrow> PacketTuple \<Rightarrow> answers \<Rightarrow> OwnerResolution option \<Rightarrow> engine \<Rightarrow> prepared \<times> engine" where
  "after_owner t p ans r e = (case judge_owner t (packet_key p) r e of
       (Some d, e1) \<Rightarrow> (d, e1)
     | (None, e1) \<Rightarrow>
         (case ans_route ans of
            Inl _ \<Rightarrow> (drop_packet ''route_query_failed'',
                      snd (suspend_engine t ''route_query_failed'' e1))
          | Inr current \<Rightarrow>
              if \<not> current then
                (let reason = (case ans_route_reason ans of
                     None \<Rightarrow> ''route_snapshot_changed''
                   | Some s \<Rightarrow> if s = [] then ''route_snapshot_changed'' else s) in
                 (drop_packet reason, snd (suspend_engine t reason e1)))
              else (case ans_identity ans of
                  Inl _ \<Rightarrow> (drop_packet ''owner_query_error'', e1)
                | Inr same \<Rightarrow>
                    if \<not> same then (drop_packet ''process_identity_changed'', e1)
                    else (case Option.bind r res_identity of
                        None \<Rightarrow> (drop_packet ''owner_query_error'', e1)
                      | Some owner \<Rightarrow> create_mapping t p owner e1))))"

definition prepare_outbound ::
  "time \<Rightarrow> time \<Rightarrow> PacketTuple \<Rightarrow> answers \<Rightarrow> engine \<Rightarrow> prepared \<times> engine" where
  "prepare_outbound now t p ans e = (let key = packet_key p in
     case reserve_outbound now t p e of
       (Finished d, e1) \<Rightarrow> (d, e1)
     | (Reserved cached, e1) \<Rightarrow>
         (let (d, e2) = (case cached of
              Some res \<Rightarrow> after_owner t p ans (Some res) e1
            | None \<Rightarrow>
                (case ans_owner ans of
                   Inl _ \<Rightarrow> (drop_packet ''owner_query_error'', e1)
                 | Inr r \<Rightarrow> after_owner t p ans r (store_resolution t key r e1))) in
          (d, discard_reservation key e2)))"

definition prepare_inbound :: "time \<Rightarrow> time \<Rightarrow> PacketTuple \<Rightarrow> engine \<Rightarrow> prepared \<times> engine" where
  "prepare_inbound now t p e0 =
     (if pk_src p \<noteq> target_ipv4 (rule e0) \<or> pk_dst p = target_ipv4 (rule e0)
      then (not_applicable, e0)
      else if pk_fragmented p then (drop_packet ''process_redirect_fragment'', e0)
      else (let e = cleanup_engine now t e0; key = packet_key p in
        if e_closed e \<or> e_suspended e then (drop_packet ''process_redirect_unavailable'', e)
        else (case dget (e_tombstones e) key of
            Some (_, reason) \<Rightarrow> (drop_packet (reason @ ''_tombstone''), e)
          | None \<Rightarrow>
            (case dget (e_reverse e) key of
               None \<Rightarrow> (pass_packet ''unmapped_target_ingress'',
                        count_audit ''unmapped_target_compatibility_pass'' e)
             | Some g \<Rightarrow>
                 if length (transactions e) \<ge> 128
                 then (drop_packet ''pending_transaction_capacity'', e)
                 else (let (k, e1) = new_transaction t g p False e in
                   ((\<lparr>action = REWRITE_INBOUND, d_reason = ''reverse_mapping'', d_generation = Some g,
                      d_target = None, d_source = Some (original_ipv4 (rule e), pk_sport p),
                      d_pid = None, d_creation_time = None, d_file_id = None\<rparr>, Some k), e1))))))"

definition prepare ::
  "time \<Rightarrow> time \<Rightarrow> PacketTuple \<Rightarrow> answers \<Rightarrow> engine \<Rightarrow> prepared \<times> engine" where
  "prepare now t p ans e =
     (if pk_version p \<noteq> 4 \<or> pk_protocol p \<noteq> ''TCP'' then (not_applicable, e)
      else if pk_direction p = ''inbound'' then prepare_inbound now t p e
      else if pk_direction p \<noteq> ''outbound'' then (drop_packet ''invalid_direction'', e)
      else if pk_dst p \<noteq> original_ipv4 (rule e) then (not_applicable, e)
      else if pk_fragmented p then (drop_packet ''process_redirect_fragment'', e)
      else prepare_outbound now t p ans e)"

section \<open>commit, abort, close, resume\<close>

definition fail_transaction :: "time \<Rightarrow> string \<Rightarrow> transaction \<Rightarrow> engine \<Rightarrow> engine" where
  "fail_transaction t counter tr e = (case dget (m_objs e) (tr_mapping tr) of
       None \<Rightarrow> count_audit counter e
     | Some m \<Rightarrow> count_audit counter
         (add_tombstone t m 3 ''injection_failure'' (remove_process_mapping m e)))"

definition commit :: "time \<Rightarrow> int \<Rightarrow> bool \<Rightarrow> engine \<Rightarrow> bool result \<times> engine" where
  "commit t k outcome e = (case dget (transactions e) k of
       None \<Rightarrow> (Inl (RuntimeError ''unknown or already completed token''), e)
     | Some tr \<Rightarrow>
         (let e1 = e\<lparr>transactions := ddel k (transactions e)\<rparr>; g = tr_mapping tr in
          if \<not> outcome then (Inr False, fail_transaction t ''injection_failures'' tr e1)
          else (case dget (m_objs e1) g of
              None \<Rightarrow> (Inr True, e1)
            | Some m \<Rightarrow>
                (let e2 = (if tr_new tr then count_audit ''mappings_created''
                      (e1\<lparr>e_forward := dset (pm_forward_key (original_ipv4 (rule e1)) m) g (e_forward e1),
                          e_reverse := dset (pm_reverse_key (target_ipv4 (rule e1)) m) g (e_reverse e1),
                          e_client := dset (pm_client_key m) g (e_client e1)\<rparr>) else e1);
                     e3 = e2\<lparr>m_objs := dset g (m\<lparr>pm_last_seen_at := t\<rparr>) (m_objs e2)\<rparr>;
                     direction = (if pk_direction (tr_packet tr) = ''outbound''
                       then ''forward'' else ''reverse'');
                     e4 = count_audit (direction @ ''_packets'') e3;
                     e5 = e4\<lparr>audit := cadd (direction @ ''_bytes'')
                       (max 0 (pk_size (tr_packet tr))) (audit e4)\<rparr> in
                 (Inr True, observe_tcp t g (tr_packet tr) e5)))))"

definition abort :: "time \<Rightarrow> int \<Rightarrow> engine \<Rightarrow> bool result \<times> engine" where
  "abort t k e = (case dget (transactions e) k of
       None \<Rightarrow> (Inl (RuntimeError ''unknown or already completed token''), e)
     | Some tr \<Rightarrow> (Inr False, fail_transaction t ''aborted_transactions'' tr
         (e\<lparr>transactions := ddel k (transactions e)\<rparr>)))"

definition close_engine :: "engine \<Rightarrow> engine" where
  "close_engine e = count_audit ''engine_closed''
     (e\<lparr>e_closed := True, transactions := [], reservations := [], e_forward := [], e_reverse := [],
        e_client := [], e_tombstones := [], syn_query_cache := [], a_pass := []\<rparr>)"

text \<open>\<open>resume\<close>; the two checks of the environment come first, \<open>Inl\<close> when they raise.\<close>

definition resume_engine :: "bool result \<Rightarrow> bool result \<Rightarrow> engine \<Rightarrow> bool \<times> engine" where
  "resume_engine route file e = (case route of
       Inr True \<Rightarrow> (case file of
           Inr True \<Rightarrow>
             if e_closed e then (False, e)
             else (True, count_audit ''engine_resumed'' (e\<lparr>e_suspended := False,
                    suspend_reason := None, e_generation := e_generation e + 1\<rparr>))
         | _ \<Rightarrow> (False, e))
     | _ \<Rightarrow> (False, e))"

record audit_summary =
  sum_audit :: "(string, int) dict"
  window_seconds :: time
  active_mappings :: nat
  pending_transactions :: nat
  available :: bool

definition drain_audit_summary :: "time \<Rightarrow> bool \<Rightarrow> engine \<Rightarrow> audit_summary option \<times> engine" where
  "drain_audit_summary now force e =
     (if \<not> force \<and> now - last_audit_drain e < 60 then (None, e)
      else if audit e = [] \<and> \<not> force then (None, e\<lparr>last_audit_drain := now\<rparr>)
      else (Some \<lparr>sum_audit = audit e, window_seconds = max 0 (now - last_audit_drain e),
              active_mappings = length (e_forward e), pending_transactions = length (transactions e),
              available = (\<not> e_closed e \<and> \<not> e_suspended e)\<rparr>,
            e\<lparr>audit := [], last_audit_drain := now\<rparr>))"

end
