(* ===== verification/ProcessTables.thy ===== *)
theory ProcessTables
  imports ProcessEngine
begin

text \<open>
  The tables of \<open>ProcessRedirectEngine\<close>: what counts towards its capacities, the invariant that
  links the forward and reverse tables, the transactions and the mapping objects, and that every
  critical section keeps it. \<open>shrinks\<close> collects the operations that only let go of mappings,
  \<open>keeps\<close> what no operation changes of a mapping's owner.
\<close>

section \<open>What the helpers leave alone\<close>

lemma count_audit_fields [simp]:
  "rule (count_audit k e) = rule e" "e_closed (count_audit k e) = e_closed e"
  "e_suspended (count_audit k e) = e_suspended e" "m_objs (count_audit k e) = m_objs e"
  "e_forward (count_audit k e) = e_forward e" "e_reverse (count_audit k e) = e_reverse e"
  "e_client (count_audit k e) = e_client e" "transactions (count_audit k e) = transactions e"
  "e_generation (count_audit k e) = e_generation e" "e_token (count_audit k e) = e_token e"
  "reservations (count_audit k e) = reservations e"
  "syn_query_cache (count_audit k e) = syn_query_cache e"
  "e_tombstones (count_audit k e) = e_tombstones e" "a_pass (count_audit k e) = a_pass e"
  by (simp_all add: count_audit_def)

lemma add_tombstone_fields [simp]:
  "rule (add_tombstone t m s r e) = rule e" "e_closed (add_tombstone t m s r e) = e_closed e"
  "e_suspended (add_tombstone t m s r e) = e_suspended e" "m_objs (add_tombstone t m s r e) = m_objs e"
  "e_forward (add_tombstone t m s r e) = e_forward e" "e_reverse (add_tombstone t m s r e) = e_reverse e"
  "e_client (add_tombstone t m s r e) = e_client e"
  "transactions (add_tombstone t m s r e) = transactions e"
  "e_generation (add_tombstone t m s r e) = e_generation e" "e_token (add_tombstone t m s r e) = e_token e"
  "reservations (add_tombstone t m s r e) = reservations e"
  "syn_query_cache (add_tombstone t m s r e) = syn_query_cache e"
  "a_pass (add_tombstone t m s r e) = a_pass e"
  by (simp_all add: add_tombstone_def)

lemma remove_process_mapping_fields [simp]:
  "rule (remove_process_mapping m e) = rule e" "e_closed (remove_process_mapping m e) = e_closed e"
  "e_suspended (remove_process_mapping m e) = e_suspended e"
  "m_objs (remove_process_mapping m e) = m_objs e"
  "transactions (remove_process_mapping m e) = transactions e"
  "e_generation (remove_process_mapping m e) = e_generation e"
  "e_token (remove_process_mapping m e) = e_token e"
  "reservations (remove_process_mapping m e) = reservations e"
  "syn_query_cache (remove_process_mapping m e) = syn_query_cache e"
  "e_tombstones (remove_process_mapping m e) = e_tombstones e"
  "a_pass (remove_process_mapping m e) = a_pass e"
  "e_forward (remove_process_mapping m e) = ddel (pm_forward_key (original_ipv4 (rule e)) m) (e_forward e)"
  "e_reverse (remove_process_mapping m e) = ddel (pm_reverse_key (target_ipv4 (rule e)) m) (e_reverse e)"
  by (simp_all add: remove_process_mapping_def)

section \<open>Capacities\<close>

text \<open>The mappings that count: those of the forward table and those a transaction is about to
  add.\<close>

definition held :: "engine \<Rightarrow> int list" where
  "held e = dvals (e_forward e) @ pending_new e"

definition pid_held :: "engine \<Rightarrow> int \<Rightarrow> nat" where
  "pid_held e pid = length (filter (has_pid e pid) (held e))"

lemma pid_count_held: "pid_count e pid = pid_held e pid"
  by (simp add: pid_count_def pid_held_def held_def)

definition engine_inv :: "engine \<Rightarrow> bool" where
  "engine_inv e \<longleftrightarrow> length (held e) \<le> 1024 \<and> (\<forall>pid. pid_held e pid \<le> 256) \<and>
     (\<forall>g m. dget (m_objs e) g = Some m \<longrightarrow> pm_generation m = g \<and> g \<le> e_generation e) \<and>
     (\<forall>k g. dget (e_forward e) k = Some g \<longrightarrow>
        (\<exists>m. dget (m_objs e) g = Some m \<and> pm_forward_key (original_ipv4 (rule e)) m = k)) \<and>
     (\<forall>k g. dget (e_reverse e) k = Some g \<longrightarrow>
        (\<exists>m. dget (m_objs e) g = Some m \<and> pm_reverse_key (target_ipv4 (rule e)) m = k)) \<and>
     (\<forall>k tr. dget (transactions e) k = Some tr \<longrightarrow>
        k \<le> e_token e \<and> dget (m_objs e) (tr_mapping tr) \<noteq> None) \<and>
     dict_ok (transactions e) \<and> dict_ok (e_forward e)"

text \<open>What no operation changes of a mapping object.\<close>

definition pm_id :: "process_mapping \<Rightarrow> int \<times> int \<times> int \<times> tuple_key" where
  "pm_id m = (pm_generation m, pm_pid m, pm_creation_time m, pm_forward_key [] m)"

definition keeps :: "engine \<Rightarrow> engine \<Rightarrow> bool" where
  "keeps e e' \<longleftrightarrow> rule e' = rule e \<and> set (syn_query_cache e') \<subseteq> set (syn_query_cache e) \<and>
     (\<forall>g. map_option pm_id (dget (m_objs e') g) = map_option pm_id (dget (m_objs e) g))"

text \<open>\<open>e'\<close> holds no more than \<open>e\<close>, mapping by mapping.\<close>

definition shrinks :: "engine \<Rightarrow> engine \<Rightarrow> bool" where
  "shrinks e e' \<longleftrightarrow> keeps e e' \<and> e_generation e \<le> e_generation e' \<and> e_token e \<le> e_token e' \<and>
     (\<forall>P. length (filter P (held e')) \<le> length (filter P (held e))) \<and>
     (\<forall>k g. dget (e_forward e') k = Some g \<longrightarrow> dget (e_forward e) k = Some g) \<and>
     (\<forall>k g. dget (e_reverse e') k = Some g \<longrightarrow> dget (e_reverse e) k = Some g) \<and>
     (\<forall>k tr. dget (transactions e') k = Some tr \<longrightarrow> dget (transactions e) k = Some tr) \<and>
     (dict_ok (transactions e) \<longrightarrow> dict_ok (transactions e')) \<and>
     (dict_ok (e_forward e) \<longrightarrow> dict_ok (e_forward e'))"

lemma keeps_refl [intro]: "keeps e e"
  by (simp add: keeps_def)

lemma keeps_trans [trans]: "keeps a b \<Longrightarrow> keeps b c \<Longrightarrow> keeps a c"
  by (auto simp: keeps_def)

lemma shrinks_refl [intro]: "shrinks e e"
  by (simp add: shrinks_def keeps_refl)

lemma shrinks_trans [trans]: "shrinks a b \<Longrightarrow> shrinks b c \<Longrightarrow> shrinks a c"
  unfolding shrinks_def by (elim conjE, intro conjI; (blast intro: keeps_trans order_trans)?)

lemma shrinks_keeps: "shrinks e e' \<Longrightarrow> keeps e e'"
  by (simp add: shrinks_def)

lemma shrinks_id: "shrinks e e' \<Longrightarrow> map_option pm_id (dget (m_objs e') g) = map_option pm_id (dget (m_objs e) g)"
  unfolding shrinks_def keeps_def by blast

lemma shrinks_obj:
  assumes "shrinks e e'" "dget (m_objs e) g = Some m"
  obtains m' where "dget (m_objs e') g = Some m'" "pm_id m' = pm_id m"
  using shrinks_id [OF assms(1), of g] assms(2) by auto

lemma pm_idD: "pm_id m' = pm_id m \<Longrightarrow> pm_generation m' = pm_generation m \<and> pm_pid m' = pm_pid m \<and>
    pm_creation_time m' = pm_creation_time m \<and> pm_forward_key a m' = pm_forward_key a m \<and> pm_reverse_key b m' = pm_reverse_key b m"
  by (auto simp: pm_id_def pm_forward_key_def pm_reverse_key_def)

lemma shrinks_has_pid: "shrinks e e' \<Longrightarrow> has_pid e' = has_pid e"
proof (intro ext)
  fix pid g
  assume "shrinks e e'"
  from shrinks_id [OF this, of g] show "has_pid e' pid g = has_pid e pid g"
    by (cases "dget (m_objs e') g"; cases "dget (m_objs e) g")
      (auto simp: has_pid_def dest: pm_idD)
qed

lemma shrinks_inv:
  assumes s: "shrinks e e'" and i: "engine_inv e"
  shows "engine_inv e'"
proof -
  have len: "length (filter P (held e')) \<le> length (filter P (held e))" for P
    using s unfolding shrinks_def by blast
  have r: "rule e' = rule e" "e_generation e \<le> e_generation e'" using s by (simp_all add: shrinks_def keeps_def)
  have "length (held e') \<le> 1024" using len [of "\<lambda>_. True"] i by (simp add: engine_inv_def)
  moreover have "pid_held e' pid \<le> 256" for pid
    using le_trans [OF len [of "has_pid e pid"], of 256] i
    by (simp add: engine_inv_def pid_held_def shrinks_has_pid [OF s])
  moreover have "pm_generation m = g \<and> g \<le> e_generation e'" if "dget (m_objs e') g = Some m" for g m
  proof -
    from shrinks_id [OF s, of g] that obtain m0 where "dget (m_objs e) g = Some m0" "pm_id m = pm_id m0"
      by (cases "dget (m_objs e) g") auto
    with i r(2) show ?thesis unfolding engine_inv_def by (auto dest!: pm_idD) fastforce
  qed
  moreover have "\<exists>m. dget (m_objs e') g = Some m \<and> pm_forward_key (original_ipv4 (rule e')) m = k"
    if "dget (e_forward e') k = Some g" for k g
  proof -
    have "dget (e_forward e) k = Some g" using s that unfolding shrinks_def by blast
    with i obtain m where "dget (m_objs e) g = Some m" "pm_forward_key (original_ipv4 (rule e)) m = k"
      unfolding engine_inv_def by blast
    then show ?thesis using shrinks_obj [OF s] r(1) pm_idD by metis
  qed
  moreover have "\<exists>m. dget (m_objs e') g = Some m \<and> pm_reverse_key (target_ipv4 (rule e')) m = k"
    if "dget (e_reverse e') k = Some g" for k g
  proof -
    have "dget (e_reverse e) k = Some g" using s that unfolding shrinks_def by blast
    with i obtain m where "dget (m_objs e) g = Some m" "pm_reverse_key (target_ipv4 (rule e)) m = k"
      unfolding engine_inv_def by blast
    then show ?thesis using shrinks_obj [OF s] r(1) pm_idD by metis
  qed
  moreover have "k \<le> e_token e' \<and> dget (m_objs e') (tr_mapping tr) \<noteq> None"
    if "dget (transactions e') k = Some tr" for k tr
  proof -
    have "dget (transactions e) k = Some tr" using s that unfolding shrinks_def by blast
    with i obtain m where "dget (m_objs e) (tr_mapping tr) = Some m" "k \<le> e_token e"
      unfolding engine_inv_def by blast
    moreover have "e_token e \<le> e_token e'" using s by (simp add: shrinks_def)
    ultimately show ?thesis using shrinks_obj [OF s] by (metis option.distinct(1) order_trans)
  qed
  moreover have "dict_ok (transactions e')" "dict_ok (e_forward e')"
    using s i unfolding shrinks_def engine_inv_def by blast+
  ultimately show ?thesis by (simp add: engine_inv_def)
qed

section \<open>Operations that hold no more\<close>

lemma filter_ddel: "length (filter P (dvals (ddel k d))) \<le> length (filter P (dvals d))"
  by (induction d) (auto simp: dvals_def ddel_def)

text \<open>No table read by the invariant changes.\<close>

definition same_tables :: "engine \<Rightarrow> engine \<Rightarrow> bool" where
  "same_tables e e' \<longleftrightarrow> rule e' = rule e \<and> e_generation e' = e_generation e \<and> e_token e' = e_token e \<and>
     m_objs e' = m_objs e \<and> set (syn_query_cache e') \<subseteq> set (syn_query_cache e) \<and>
     e_forward e' = e_forward e \<and> e_reverse e' = e_reverse e \<and> transactions e' = transactions e"

lemma shrinks_same: "same_tables e e' \<Longrightarrow> shrinks e e'"
  by (simp add: same_tables_def shrinks_def keeps_def held_def pending_new_def)

lemma shrinks_remove: "shrinks e (remove_process_mapping m e)"
  by (simp add: shrinks_def keeps_def held_def pending_new_def filter_ddel dict_simps)

lemma shrinks_ddel_transaction: "shrinks e (e\<lparr>transactions := ddel k (transactions e)\<rparr>)"
  by (simp add: shrinks_def keeps_def held_def pending_new_def filter_map o_def filter_ddel dict_simps)

lemma same_tables_count: "same_tables e (count_audit k e)" "same_tables e (add_tombstone t m s r e)"
  by (simp_all add: same_tables_def)

lemma shrinks_close: "shrinks e (count_audit c (add_tombstone t m s r (remove_process_mapping m e)))"
  using shrinks_remove shrinks_same [OF same_tables_count(1)] shrinks_same [OF same_tables_count(2)]
  by (blast intro: shrinks_trans)

lemma shrinks_fold: "(\<And>x e. shrinks e (f x e)) \<Longrightarrow> shrinks e (fold f xs e)"
  by (induction xs arbitrary: e) (auto intro: shrinks_trans)

lemma shrinks_expire_transaction: "shrinks e (expire_transaction now t x e)"
  by (cases x)
    (auto simp: expire_transaction_def Let_def split: option.split
      intro: shrinks_ddel_transaction
        shrinks_trans [OF shrinks_ddel_transaction shrinks_same [OF same_tables_count(2)]])

lemma shrinks_expire_mapping: "shrinks e (expire_mapping now t g e)"
  by (auto simp: expire_mapping_def shrinks_close split: option.split)

lemma shrinks_cleanup: "shrinks e (cleanup_engine now t e)"
proof -
  define e2 where "e2 = (purge_tombstones now (e\<lparr>a_pass := filter (\<lambda>(k, expires). expires > now) (a_pass e)\<rparr>))
    \<lparr>syn_query_cache := filter (\<lambda>(k, item). \<not> fst item \<le> now) (syn_query_cache e)\<rparr>"
  have "shrinks e e2" by (rule shrinks_same) (simp add: same_tables_def e2_def purge_tombstones_def)
  also have "shrinks e2 (fold (expire_transaction now t) (transactions e2) e2)"
    by (rule shrinks_fold) (rule shrinks_expire_transaction)
  also have "shrinks \<dots> (cleanup_engine now t e)"
    unfolding cleanup_engine_def Let_def purge_tombstones_def e2_def
    by (simp, rule shrinks_fold, rule shrinks_expire_mapping)
  finally show ?thesis .
qed

section \<open>Every critical section keeps the invariant\<close>

lemma dvals_dset_new: "dget d k = None \<Longrightarrow> dvals (dset k v d) = dvals d @ [v]"
  by (induction d) (auto simp: dset_def dget_def dvals_def)

lemma new_transaction_inv:
  assumes i: "engine_inv e" and g: "dget (m_objs e) g \<noteq> None"
    and n: "new \<Longrightarrow> length (held e) < 1024 \<and> (\<forall>pid. has_pid e pid g \<longrightarrow> pid_held e pid < 256)"
  shows "engine_inv (snd (new_transaction t g p new e))"
proof -
  let ?tr = "\<lparr>tr_mapping = g, tr_packet = p, tr_new = new, tr_created_at = t\<rparr>"
  define e' where "e' = snd (new_transaction t g p new e)"
  have f: "rule e' = rule e" "m_objs e' = m_objs e" "e_forward e' = e_forward e"
    "e_reverse e' = e_reverse e" "e_generation e' = e_generation e" "e_token e' = e_token e + 1"
    "transactions e' = dset (e_token e + 1) ?tr (transactions e)"
    by (simp_all add: e'_def new_transaction_def Let_def)
  have old: "k \<le> e_token e \<and> dget (m_objs e) (tr_mapping x) \<noteq> None"
    if "dget (transactions e) k = Some x" for k x using i that unfolding engine_inv_def by blast
  have "dget (transactions e) (e_token e + 1) = None" using old [of "e_token e + 1"] by fastforce
  then have h: "held e' = held e @ (if new then [g] else [])"
    by (simp add: held_def pending_new_def f dvals_dset_new)
  have hp: "has_pid e' = has_pid e" by (simp add: has_pid_def fun_eq_iff f)
  have "length (held e') \<le> 1024" using i n by (auto simp: h engine_inv_def)
  moreover have "pid_held e' pid \<le> 256" for pid
  proof -
    have "pid_held e pid \<le> 256" using i by (simp add: engine_inv_def)
    moreover have "new \<Longrightarrow> has_pid e pid g \<Longrightarrow> pid_held e pid < 256" using n by blast
    ultimately show ?thesis by (auto simp: pid_held_def h hp Suc_le_eq)
  qed
  moreover have "k \<le> e_token e' \<and> dget (m_objs e') (tr_mapping x) \<noteq> None"
    if "dget (transactions e') k = Some x" for k x
    using that g old [of k x] by (auto simp: f dict_simps split: if_splits)
  moreover have "dict_ok (transactions e')" using i by (simp add: engine_inv_def f)
  ultimately have "engine_inv e'" using i unfolding engine_inv_def by (simp add: f)
  then show ?thesis by (simp add: e'_def)
qed

lemma cleanup_inv: "engine_inv e \<Longrightarrow> engine_inv (cleanup_engine now t e)"
  by (rule shrinks_inv [OF shrinks_cleanup])

lemma same_tables_inv: "same_tables e e' \<Longrightarrow> engine_inv e \<Longrightarrow> engine_inv e'"
  by (rule shrinks_inv [OF shrinks_same])

lemma engine_inv_forwardD: "engine_inv e \<Longrightarrow> dget (e_forward e) k = Some g \<Longrightarrow> dget (m_objs e) g \<noteq> None"
  unfolding engine_inv_def by (metis option.distinct(1))

lemma engine_inv_reverseD: "engine_inv e \<Longrightarrow> dget (e_reverse e) k = Some g \<Longrightarrow> dget (m_objs e) g \<noteq> None"
  unfolding engine_inv_def by (metis option.distinct(1))

lemma existing_mapping_inv:
  assumes "engine_inv e" "dget (e_forward e) k = Some g"
  shows "engine_inv (snd (existing_mapping t p g e))"
  using new_transaction_inv [OF assms(1) engine_inv_forwardD [OF assms], of False t p] assms(1)
  by (simp add: existing_mapping_def split_beta)

lemma same_tables_budget: "same_tables e (snd (consume_query_budget t e))"
  by (simp add: consume_query_budget_def same_tables_def Let_def)

text \<open>The first section of an outbound packet opens a transaction on an existing mapping or
  leaves the tables alone.\<close>

lemma reserve_outbound_cases:
  obtains (existing) g where "dget (e_forward (cleanup_engine now t e)) (packet_key p) = Some g"
      "snd (reserve_outbound now t p e) = snd (existing_mapping t p g (cleanup_engine now t e))"
    | (same) "same_tables (cleanup_engine now t e) (snd (reserve_outbound now t p e))"
proof -
  let ?c = "cleanup_engine now t e"
  have b: "same_tables ?c (snd (consume_query_budget t ?c))" by (rule same_tables_budget)
  have s: "same_tables ?c (e'\<lparr>reservations := r\<rparr>)" "same_tables ?c (count_audit k e')"
    if "same_tables ?c e'" for e' r k
    using that by (auto simp: same_tables_def)
  have a: "same_tables ?c ?c" "same_tables ?c (?c\<lparr>a_pass := x\<rparr>)" for x by (auto simp: same_tables_def)
  have "(\<exists>g. dget (e_forward ?c) (packet_key p) = Some g \<and>
      snd (reserve_outbound now t p e) = snd (existing_mapping t p g ?c)) \<or>
    same_tables ?c (snd (reserve_outbound now t p e))"
    by (auto simp: reserve_outbound_def Let_def split_beta b s a split: option.split)
  then show thesis using that by blast
qed

lemma reserve_outbound_inv: "engine_inv e \<Longrightarrow> engine_inv (snd (reserve_outbound now t p e))"
proof -
  assume "engine_inv e"
  then have c: "engine_inv (cleanup_engine now t e)" by (rule cleanup_inv)
  show ?thesis
    by (cases rule: reserve_outbound_cases [of now t e p])
      (auto simp: existing_mapping_inv [OF c] intro: same_tables_inv [OF _ c])
qed

lemma judge_owner_inv: "engine_inv e \<Longrightarrow> engine_inv (snd (judge_owner t key r e))"
  by (auto simp: judge_owner_def split: option.split intro: same_tables_inv [of e])
    (auto simp: same_tables_def intro!: same_tables_inv [of e])

lemma suspend_engine_inv: "engine_inv e \<Longrightarrow> engine_inv (snd (suspend_engine t reason e))"
proof (cases "e_closed e")
  case True
  then show "engine_inv e \<Longrightarrow> ?thesis" by (simp add: suspend_engine_def)
next
  case False
  assume i: "engine_inv e"
  define e1 where "e1 = e\<lparr>e_suspended := True, suspend_reason := (case suspend_reason e of
     None \<Rightarrow> Some reason | Some r \<Rightarrow> Some r)\<rparr>"
  define e2 where "e2 = fold (\<lambda>g e. case dget (m_objs e) g of None \<Rightarrow> e
     | Some m \<Rightarrow> add_tombstone t m 240 ''suspended'' (remove_process_mapping m e)) (dvals (e_forward e1)) e1"
  have "shrinks e e1" by (rule shrinks_same) (simp add: same_tables_def e1_def)
  also have "shrinks e1 e2"
    unfolding e2_def
    by (rule shrinks_fold)
      (auto split: option.split intro: shrinks_trans [OF shrinks_remove shrinks_same [OF same_tables_count(2)]])
  also have "shrinks e2 (e2\<lparr>transactions := [], reservations := []\<rparr>)"
    by (simp add: shrinks_def keeps_def held_def pending_new_def dict_simps dvals_def)
  finally have "engine_inv (e2\<lparr>transactions := [], reservations := []\<rparr>)" using i by (rule shrinks_inv)
  with False show ?thesis
    by (auto simp: suspend_engine_def Let_def e1_def [symmetric] e2_def [symmetric]
        intro: same_tables_inv [OF same_tables_count(1)])
qed

lemma held_objs: "engine_inv e \<Longrightarrow> h \<in> set (held e) \<Longrightarrow> dget (m_objs e) h \<noteq> None"
proof -
  assume i: "engine_inv e" and h: "h \<in> set (held e)"
  have tr: "dget (m_objs e) (tr_mapping x) \<noteq> None" if "(k, x) \<in> set (transactions e)" for k x
  proof -
    have "dget (transactions e) k = Some x" using i that by (auto simp: engine_inv_def intro: in_dget)
    with i show ?thesis unfolding engine_inv_def by blast
  qed
  have fw: "dget (m_objs e) x \<noteq> None" if "(k, x) \<in> set (e_forward e)" for k x
  proof -
    have "dget (e_forward e) k = Some x" using i that by (auto simp: engine_inv_def intro: in_dget)
    with i show ?thesis by (rule engine_inv_forwardD)
  qed
  from h tr fw show ?thesis by (auto simp: held_def pending_new_def dvals_def)
qed

lemma add_obj_inv:
  assumes i: "engine_inv e" and m: "pm_generation m = e_generation e + 1"
  defines "e' \<equiv> e\<lparr>e_generation := e_generation e + 1, m_objs := dset (e_generation e + 1) m (m_objs e)\<rparr>"
  shows "engine_inv e'" "held e' = held e" "pid_held e' pid = pid_held e pid"
proof -
  let ?g = "e_generation e + 1"
  have gen: "pm_generation x = h \<and> h \<le> e_generation e" if "dget (m_objs e) h = Some x" for h x
    using i that unfolding engine_inv_def by blast
  have ng: "dget (m_objs e) ?g = None" using gen [of ?g] by (cases "dget (m_objs e) ?g") auto
  have o: "dget (m_objs e') h = (if h = ?g then Some m else dget (m_objs e) h)" for h
    by (simp add: e'_def dict_simps)
  show h: "held e' = held e" by (simp add: held_def pending_new_def e'_def)
  have hp: "has_pid e' q h = has_pid e q h" if "h \<in> set (held e)" for q h
    using held_objs [OF i that] ng by (auto simp: has_pid_def o)
  show ph: "pid_held e' pid = pid_held e pid" for pid
    unfolding pid_held_def h by (rule arg_cong [where f = length], rule filter_cong) (simp_all add: hp)
  have f: "rule e' = rule e" "e_forward e' = e_forward e" "e_reverse e' = e_reverse e"
    "transactions e' = transactions e" "e_token e' = e_token e" "e_generation e' = ?g"
    by (simp_all add: e'_def)
  have "pm_generation x = y \<and> y \<le> e_generation e'" if "dget (m_objs e') y = Some x" for y x
    using that gen [of y x] m by (auto simp: o f split: if_splits)
  moreover have mono: "dget (m_objs e') y = Some x" if "dget (m_objs e) y = Some x" for y x
    using that ng by (auto simp: o)
  have "\<exists>x. dget (m_objs e') y = Some x \<and> pm_forward_key (original_ipv4 (rule e)) x = k"
    if "dget (e_forward e) k = Some y" for k y
    using i that mono unfolding engine_inv_def by blast
  moreover have "\<exists>x. dget (m_objs e') y = Some x \<and> pm_reverse_key (target_ipv4 (rule e)) x = k"
    if "dget (e_reverse e) k = Some y" for k y
    using i that mono unfolding engine_inv_def by blast
  moreover have "k \<le> e_token e \<and> dget (m_objs e') (tr_mapping tr) \<noteq> None"
    if "dget (transactions e) k = Some tr" for k tr
    using i that mono unfolding engine_inv_def by blast
  ultimately show "engine_inv e'"
    using i by (simp add: engine_inv_def h f ph)
qed

lemma create_mapping_inv:
  assumes i: "engine_inv e"
  shows "engine_inv (snd (create_mapping t p owner e))"
proof -
  define g where "g = e_generation e + 1"
  define m where "m = \<lparr>pm_generation = g, pm_local_ipv4 = pk_src p, pm_local_port = pk_sport p,
     pm_original_port = pk_dport p, pm_if = pk_if p, pm_subif = pk_subif p,
     pm_pid = o_pid owner, pm_creation_time = o_creation_time owner,
     pm_created_at = t, pm_last_seen_at = t, client_fin_seen = False,
     server_fin_seen = False, half_closed_at = None\<rparr>"
  define e2 where "e2 = e\<lparr>e_generation := g, m_objs := dset g m (m_objs e)\<rparr>"
  have e2: "engine_inv e2" "held e2 = held e" "pid_held e2 pid = pid_held e pid" for pid
    using add_obj_inv [OF i, of m] by (simp_all add: e2_def g_def m_def)
  have "engine_inv (e\<lparr>e_generation := g\<rparr>)"
    by (rule shrinks_inv [OF _ i]) (simp add: shrinks_def keeps_def held_def pending_new_def g_def)
  moreover have "engine_inv (snd (new_transaction t g p True e2))"
    if "length (held e) < 1024" "pid_held e (o_pid owner) < 256"
    using that e2 by (intro new_transaction_inv) (auto simp: e2_def has_pid_def dict_simps m_def)
  ultimately show ?thesis
    using i unfolding create_mapping_def pid_count_held Let_def split_beta
    by (auto simp: g_def [symmetric] m_def [symmetric] e2_def [symmetric] held_def dvals_def not_le)
qed


lemma shrinks_inv_obj:
  assumes i: "engine_inv e" and g: "dget (m_objs e) g = Some m" and m: "pm_id m' = pm_id m"
  shows "engine_inv (e\<lparr>m_objs := dset g m' (m_objs e)\<rparr>)"
  by (rule shrinks_inv [OF _ i]) (auto simp: shrinks_def keeps_def held_def pending_new_def dict_simps g m)

lemma observe_tcp_inv:
  assumes i: "engine_inv e"
  shows "engine_inv (observe_tcp t g p e)"
proof (cases "dget (m_objs e) g")
  case None
  then show ?thesis using i by (simp add: observe_tcp_def)
next
  case (Some m)
  let ?m1 = "if pk_direction p = ''outbound'' then m\<lparr>client_fin_seen := True\<rparr> else m\<lparr>server_fin_seen := True\<rparr>"
  let ?m2 = "if half_closed_at ?m1 = None then ?m1\<lparr>half_closed_at := Some t\<rparr> else ?m1"
  have "pm_id ?m2 = pm_id m" by (simp add: pm_id_def pm_forward_key_def)
  then have e1: "engine_inv (e\<lparr>m_objs := dset g ?m2 (m_objs e)\<rparr>)" by (rule shrinks_inv_obj [OF i Some])
  show ?thesis
    unfolding observe_tcp_def Some option.case Let_def
    using i e1 shrinks_inv [OF shrinks_close i] shrinks_inv [OF shrinks_close e1] by presburger
qed

text \<open>Committing a new mapping moves it from the pending ones to the table.\<close>

lemma filter_pending_ddel:
  assumes "dict_ok d" "dget d k = Some tr" "tr_new tr"
  shows "length (filter P (map tr_mapping (filter tr_new (dvals d)))) =
    length (filter P (map tr_mapping (filter tr_new (dvals (ddel k d))))) + (if P (tr_mapping tr) then 1 else 0)"
  using assms
proof (induction d)
  case Nil
  then show ?case by (simp add: dict_simps)
next
  case (Cons a d)
  obtain j v where a: "a = (j, v)" by force
  show ?case
  proof (cases "j = k")
    case True
    then have "\<forall>x \<in> set d. fst x \<noteq> k" using Cons.prems(1) by (auto simp: a dict_ok_def)
    then have "ddel k d = d" by (simp add: ddel_def split_beta)
    then have "ddel k ((j, v) # d) = d" using True by (simp add: ddel_def)
    moreover have "v = tr" using Cons.prems(2) True by (simp add: a dget_def)
    ultimately show ?thesis using Cons.prems(3) by (simp add: a dvals_def)
  next
    case False
    then have "ddel k (a # d) = a # ddel k d" by (simp add: a ddel_def)
    with False Cons show ?thesis by (auto simp: a dvals_def dict_ok_def dget_def)
  qed
qed

lemma filter_dset_le: "length (filter P (dvals (dset k v d))) \<le> length (filter P (dvals d)) + (if P v then 1 else 0)"
  by (induction d) (auto simp: dset_def dvals_def)

lemma engine_inv_transactionD:
  "engine_inv e \<Longrightarrow> dget (transactions e) k = Some tr \<Longrightarrow> \<exists>m. dget (m_objs e) (tr_mapping tr) = Some m"
  unfolding engine_inv_def by blast

lemma commit_new_inv:
  assumes i: "engine_inv e" and tr: "dget (transactions e) k = Some tr" "tr_new tr"
    and m: "dget (m_objs e) (tr_mapping tr) = Some m"
  shows "engine_inv (e\<lparr>transactions := ddel k (transactions e),
      e_forward := dset (pm_forward_key (original_ipv4 (rule e)) m) (tr_mapping tr) (e_forward e),
      e_reverse := dset (pm_reverse_key (target_ipv4 (rule e)) m) (tr_mapping tr) (e_reverse e),
      e_client := c\<rparr>)" (is "engine_inv ?e")
proof -
  have ok: "dict_ok (transactions e)" using i by (simp add: engine_inv_def)
  have le: "length (filter P (held ?e)) \<le> length (filter P (held e))" for P
    using filter_pending_ddel [OF ok tr, of P] filter_dset_le
      [of P "pm_forward_key (original_ipv4 (rule e)) m" "tr_mapping tr" "e_forward e"]
    by (simp add: held_def pending_new_def)
  have "length (held ?e) \<le> 1024" using le [of "\<lambda>_. True"] i by (simp add: engine_inv_def)
  moreover have "pid_held ?e pid \<le> 256" for pid
    using le_trans [OF le [of "has_pid e pid"], of 256] i
    by (simp add: engine_inv_def pid_held_def has_pid_def [abs_def])
  ultimately show ?thesis
    using i m unfolding engine_inv_def by (auto simp: dict_simps)
qed

lemma fail_transaction_inv: "engine_inv e \<Longrightarrow> engine_inv (fail_transaction t c tr e)"
  by (auto simp: fail_transaction_def split: option.split
      intro: same_tables_inv [OF same_tables_count(1)] shrinks_inv [OF shrinks_close])

lemma commit_tail_inv:
  assumes i: "engine_inv e" and m: "dget (m_objs e) g = Some m"
  shows "engine_inv (observe_tcp t g p (e\<lparr>m_objs := dset g (m\<lparr>pm_last_seen_at := t\<rparr>) (m_objs e), audit := a\<rparr>))"
proof -
  have "engine_inv (e\<lparr>m_objs := dset g (m\<lparr>pm_last_seen_at := t\<rparr>) (m_objs e)\<rparr>)"
    by (rule shrinks_inv_obj [OF i m]) (simp add: pm_id_def pm_forward_key_def)
  then have "engine_inv (e\<lparr>m_objs := dset g (m\<lparr>pm_last_seen_at := t\<rparr>) (m_objs e), audit := a\<rparr>)"
    by (rule same_tables_inv [rotated]) (simp add: same_tables_def)
  then show ?thesis by (rule observe_tcp_inv)
qed

lemma commit_inv:
  assumes i: "engine_inv e"
  shows "engine_inv (snd (commit t k outcome e))"
proof (cases "dget (transactions e) k")
  case None
  then show ?thesis using i by (simp add: commit_def)
next
  case (Some tr)
  let ?e1 = "e\<lparr>transactions := ddel k (transactions e)\<rparr>"
  have e1: "engine_inv ?e1" by (rule shrinks_inv [OF shrinks_ddel_transaction i])
  obtain m where m: "dget (m_objs e) (tr_mapping tr) = Some m"
    using engine_inv_transactionD [OF i Some] by blast
  have f: "engine_inv (fail_transaction t ''injection_failures'' tr ?e1)" by (rule fail_transaction_inv [OF e1])
  show ?thesis
  proof (cases "outcome \<and> tr_new tr")
    case True
    from commit_new_inv [OF i Some _ m] True
    have "engine_inv (?e1\<lparr>e_forward := dset (pm_forward_key (original_ipv4 (rule e)) m) (tr_mapping tr) (e_forward e),
      e_reverse := dset (pm_reverse_key (target_ipv4 (rule e)) m) (tr_mapping tr) (e_reverse e),
      e_client := dset (pm_client_key m) (tr_mapping tr) (e_client e)\<rparr>)" by simp
    from commit_tail_inv [OF this] m True show ?thesis
      by (simp add: commit_def Some Let_def count_audit_def)
  next
    case False
    with commit_tail_inv [OF e1] m f show ?thesis
      by (auto simp: commit_def Some Let_def count_audit_def)
  qed
qed

lemma abort_inv: "engine_inv e \<Longrightarrow> engine_inv (snd (abort t k e))"
  by (auto simp: abort_def split: option.split
      intro: fail_transaction_inv shrinks_inv [OF shrinks_ddel_transaction])

lemma close_engine_inv: "engine_inv e \<Longrightarrow> engine_inv (close_engine e)"
  by (rule shrinks_inv [of e])
    (auto simp: close_engine_def shrinks_def keeps_def held_def pending_new_def dict_simps dvals_def)

lemma resume_engine_inv: "engine_inv e \<Longrightarrow> engine_inv (snd (resume_engine r f e))"
  by (rule shrinks_inv [of e])
    (auto simp: resume_engine_def shrinks_def keeps_def held_def pending_new_def split: sum.split bool.split)

lemma drain_audit_summary_inv: "engine_inv e \<Longrightarrow> engine_inv (snd (drain_audit_summary now f e))"
  by (rule same_tables_inv [of e]) (auto simp: drain_audit_summary_def same_tables_def)

lemma prepare_inbound_inv: "engine_inv e \<Longrightarrow> engine_inv (snd (prepare_inbound now t p e))"
proof -
  assume "engine_inv e"
  then have c: "engine_inv (cleanup_engine now t e)" by (rule cleanup_inv)
  have "engine_inv (snd (new_transaction t g p False (cleanup_engine now t e)))"
    if "dget (e_reverse (cleanup_engine now t e)) (packet_key p) = Some g" for g
    using new_transaction_inv [OF c engine_inv_reverseD [OF c that], of False] by simp
  with \<open>engine_inv e\<close> c show ?thesis
    by (auto simp: prepare_inbound_def Let_def split_beta split: option.split
        intro: same_tables_inv [OF same_tables_count(1)])
qed

lemma store_resolution_inv: "engine_inv e \<Longrightarrow> engine_inv (store_resolution t k r e)"
proof -
  assume i: "engine_inv e"
  have "has_pid (store_resolution t k r e) = has_pid e"
    by (simp add: has_pid_def fun_eq_iff store_resolution_def)
  with i show ?thesis
    by (simp add: engine_inv_def store_resolution_def held_def pending_new_def pid_held_def)
qed

lemma discard_reservation_inv: "engine_inv e \<Longrightarrow> engine_inv (discard_reservation k e)"
  by (rule same_tables_inv [of e]) (simp_all add: same_tables_def discard_reservation_def)


section \<open>What every operation keeps of the owners\<close>

lemma keeps_new_transaction: "keeps e (snd (new_transaction t g p new e))"
  by (simp add: keeps_def new_transaction_def Let_def)

lemma keeps_same: "same_tables e e' \<Longrightarrow> keeps e e'"
  by (rule shrinks_keeps [OF shrinks_same])

lemma keeps_cleanup: "keeps e (cleanup_engine now t e)"
  by (rule shrinks_keeps [OF shrinks_cleanup])

lemma keeps_existing: "keeps e (snd (existing_mapping t p g e))"
  using keeps_new_transaction [of e t g p False] by (auto simp: existing_mapping_def split_beta)

lemma keeps_reserve: "keeps e (snd (reserve_outbound now t p e))"
  by (cases rule: reserve_outbound_cases [of now t e p])
    (auto intro: keeps_trans [OF keeps_cleanup] keeps_existing keeps_same)

lemma keeps_judge: "keeps e (snd (judge_owner t key r e))"
  by (auto simp: judge_owner_def same_tables_def keeps_refl intro!: keeps_same split: option.split)

lemma keeps_suspend: "keeps e (snd (suspend_engine t reason e))"
proof -
  have "keeps e0 (fold (\<lambda>g e. case dget (m_objs e) g of None \<Rightarrow> e
     | Some m \<Rightarrow> add_tombstone t m 240 ''suspended'' (remove_process_mapping m e)) gs e0)" for gs e0
    by (rule shrinks_keeps, rule shrinks_fold)
      (auto split: option.split intro: shrinks_trans [OF shrinks_remove shrinks_same [OF same_tables_count(2)]])
  from this [of "e\<lparr>e_suspended := True, suspend_reason := (case suspend_reason e of
     None \<Rightarrow> Some reason | Some r \<Rightarrow> Some r)\<rparr>" "dvals (e_forward e)"]
  show ?thesis by (simp add: suspend_engine_def Let_def keeps_def)
qed

lemma keeps_inbound: "keeps e (snd (prepare_inbound now t p e))"
proof -
  let ?e = "cleanup_engine now t e"
  have "keeps ?e (snd (prepare_inbound now t p e)) \<or> snd (prepare_inbound now t p e) = e"
    using keeps_new_transaction [of ?e t _ p False]
    by (auto simp: prepare_inbound_def Let_def split_beta keeps_refl same_tables_count
        intro: keeps_same split: option.split)
  then show ?thesis using keeps_cleanup keeps_trans by fastforce
qed

lemma keeps_obj: "dget (m_objs e) g = Some m \<Longrightarrow> pm_id m' = pm_id m \<Longrightarrow>
    keeps e (e\<lparr>m_objs := dset g m' (m_objs e)\<rparr>)"
  by (simp add: keeps_def dict_simps)

lemma keeps_observe: "keeps e (observe_tcp t g p e)"
  by (auto simp: observe_tcp_def Let_def keeps_def dict_simps pm_id_def pm_forward_key_def split: option.split)

lemma keeps_commit_tail:
  assumes "dget (m_objs e) g = Some m" "rule e' = rule e" "syn_query_cache e' = syn_query_cache e"
    and "m_objs e' = dset g (m\<lparr>pm_last_seen_at := t\<rparr>) (m_objs e)"
  shows "keeps e (observe_tcp t g p e')"
proof -
  have "keeps e e'" using assms by (simp add: keeps_def dict_simps pm_id_def pm_forward_key_def)
  then show ?thesis using keeps_observe by (rule keeps_trans)
qed

lemma keeps_simp: "keeps (e\<lparr>transactions := x\<rparr>) e' = keeps e e'" "keeps e (e\<lparr>transactions := x\<rparr>)"
  by (simp_all add: keeps_def)

lemma keeps_fail: "keeps e (fail_transaction t c tr e)"
  by (simp add: fail_transaction_def keeps_def split: option.split)

lemma keeps_commit: "keeps e (snd (commit t k outcome e))"
proof (cases "dget (transactions e) k")
  case None
  then show ?thesis by (simp add: commit_def keeps_refl)
next
  case (Some tr)
  show ?thesis
    using keeps_fail [of "e\<lparr>transactions := ddel k (transactions e)\<rparr>" t "''injection_failures''" tr]
    by (auto simp: commit_def Some Let_def keeps_simp count_audit_def dict_simps split: option.split
        intro!: keeps_commit_tail)
qed

lemma keeps_abort: "keeps e (snd (abort t k e))"
  using keeps_fail [of "e\<lparr>transactions := ddel k (transactions e)\<rparr>" t "''aborted_transactions''"]
  by (auto simp: abort_def keeps_def split: option.split)

lemma keeps_others:
  "keeps e (close_engine e)" "keeps e (snd (resume_engine r f e))"
  "keeps e (snd (drain_audit_summary now b e))" "keeps e (discard_reservation key e)"
  by (auto simp: keeps_def close_engine_def resume_engine_def drain_audit_summary_def
      discard_reservation_def split: sum.split bool.split)

end
