(* ===== verification/ProcessRuns.thy ===== *)
theory ProcessRuns
  imports ProcessTables
begin

text \<open>
  Runs of \<open>ProcessRedirectEngine\<close>. The lock is released while the owner resolver and the route
  guard are asked, so packets of several threads interleave between the critical sections of
  \<open>prepare\<close>; each section is a step here, and the packets between two sections are part of the
  state. \<open>answered\<close> records what the resolver said of which tuple.
\<close>

section \<open>Steps\<close>

record engine_run =
  eng :: engine
  asking :: "PacketTuple list"
  judging :: "(PacketTuple \<times> OwnerResolution option) list"
  approved :: "(PacketTuple \<times> OwnerResolution) list"
  answered :: "(tuple_key \<times> OwnerResolution option) list"

text \<open>The guards at the head of \<open>prepare\<close>.\<close>

definition outbound_candidate :: "engine \<Rightarrow> PacketTuple \<Rightarrow> bool" where
  "outbound_candidate e p \<longleftrightarrow> pk_version p = 4 \<and> pk_protocol p = ''TCP'' \<and>
     pk_direction p = ''outbound'' \<and> pk_dst p = original_ipv4 (rule e) \<and> \<not> pk_fragmented p"

inductive engine_step :: "engine_run \<Rightarrow> engine_run \<Rightarrow> bool" where
  step_finished: "outbound_candidate (eng s) p \<Longrightarrow> reserve_outbound now t p (eng s) = (Finished d, e') \<Longrightarrow>
    engine_step s (s\<lparr>eng := e'\<rparr>)"
| step_ask: "outbound_candidate (eng s) p \<Longrightarrow> reserve_outbound now t p (eng s) = (Reserved None, e') \<Longrightarrow>
    engine_step s (s\<lparr>eng := e', asking := p # asking s\<rparr>)"
| step_cached: "outbound_candidate (eng s) p \<Longrightarrow> reserve_outbound now t p (eng s) = (Reserved (Some r), e') \<Longrightarrow>
    engine_step s (s\<lparr>eng := e', judging := (p, Some r) # judging s\<rparr>)"
| step_answer: "p \<in> set (asking s) \<Longrightarrow>
    engine_step s (s\<lparr>eng := store_resolution t (packet_key p) r (eng s),
      judging := (p, r) # judging s, answered := (packet_key p, r) # answered s\<rparr>)"
| step_refuse: "(p, r) \<in> set (judging s) \<Longrightarrow> judge_owner t (packet_key p) r (eng s) = (Some d, e') \<Longrightarrow>
    engine_step s (s\<lparr>eng := e'\<rparr>)"
| step_approve: "(p, Some r) \<in> set (judging s) \<Longrightarrow>
    judge_owner t (packet_key p) (Some r) (eng s) = (None, e') \<Longrightarrow>
    engine_step s (s\<lparr>eng := e', approved := (p, r) # approved s\<rparr>)"
| step_create: "(p, r) \<in> set (approved s) \<Longrightarrow> res_identity r = Some owner \<Longrightarrow>
    create_mapping t p owner (eng s) = (d, e') \<Longrightarrow> engine_step s (s\<lparr>eng := e'\<rparr>)"
| step_discard: "engine_step s (s\<lparr>eng := discard_reservation key (eng s)\<rparr>)"
| step_inbound: "prepare_inbound now t p (eng s) = (d, e') \<Longrightarrow> engine_step s (s\<lparr>eng := e'\<rparr>)"
| step_commit: "commit t k outcome (eng s) = (b, e') \<Longrightarrow> engine_step s (s\<lparr>eng := e'\<rparr>)"
| step_abort: "abort t k (eng s) = (b, e') \<Longrightarrow> engine_step s (s\<lparr>eng := e'\<rparr>)"
| step_suspend: "engine_step s (s\<lparr>eng := snd (suspend_engine t reason (eng s))\<rparr>)"
| step_resume: "resume_engine route same_file (eng s) = (b, e') \<Longrightarrow> engine_step s (s\<lparr>eng := e'\<rparr>)"
| step_close: "engine_step s (s\<lparr>eng := close_engine (eng s)\<rparr>)"
| step_drain: "drain_audit_summary now force (eng s) = (x, e') \<Longrightarrow> engine_step s (s\<lparr>eng := e'\<rparr>)"

inductive engine_init :: "engine_run \<Rightarrow> bool" where
  "engine_init \<lparr>eng = new_engine now r, asking = [], judging = [], approved = [], answered = []\<rparr>"

section \<open>The invariant of a run\<close>

text \<open>The resolver named the rule's process as owner of tuple \<open>k\<close>.\<close>

definition named_target :: "engine_run \<Rightarrow> tuple_key \<Rightarrow> ProcessOwnerIdentity \<Rightarrow> bool" where
  "named_target s k owner \<longleftrightarrow> (\<exists>r. (k, Some r) \<in> set (answered s) \<and> res_status r = RESOLVED \<and>
     res_identity r = Some owner) \<and> owner_matches_rule (rule (eng s)) (Some owner)"

definition mapping_owned :: "engine_run \<Rightarrow> process_mapping \<Rightarrow> bool" where
  "mapping_owned s m \<longleftrightarrow> (\<exists>owner. named_target s (pm_forward_key (original_ipv4 (rule (eng s))) m) owner \<and>
     pm_pid m = o_pid owner \<and> pm_creation_time m = o_creation_time owner)"

definition packets_ok :: "engine_run \<Rightarrow> bool" where
  "packets_ok s \<longleftrightarrow> (\<forall>p \<in> set (asking s). outbound_candidate (eng s) p) \<and>
     (\<forall>(p, r) \<in> set (judging s). outbound_candidate (eng s) p \<and> (packet_key p, r) \<in> set (answered s)) \<and>
     (\<forall>(p, r) \<in> set (approved s). outbound_candidate (eng s) p \<and>
        (packet_key p, Some r) \<in> set (answered s) \<and> res_status r = RESOLVED \<and>
        owner_matches_rule (rule (eng s)) (res_identity r)) \<and>
     (\<forall>(k, x, r) \<in> set (syn_query_cache (eng s)). (k, r) \<in> set (answered s))"

definition objs_owned :: "engine_run \<Rightarrow> bool" where
  "objs_owned s \<longleftrightarrow> (\<forall>g m. dget (m_objs (eng s)) g = Some m \<longrightarrow> mapping_owned s m)"

definition engine_run_inv :: "engine_run \<Rightarrow> bool" where
  "engine_run_inv s \<longleftrightarrow> engine_inv (eng s) \<and> packets_ok s \<and> objs_owned s"

lemma engine_run_inv_init: "engine_init s \<Longrightarrow> engine_run_inv s"
  by (auto elim!: engine_init.cases simp: engine_run_inv_def packets_ok_def objs_owned_def engine_inv_def
      new_engine_def held_def pending_new_def pid_held_def dict_simps dvals_def)

lemma engine_run_inv_engine: "engine_run_inv s \<Longrightarrow> engine_inv (eng s)"
  by (simp add: engine_run_inv_def)

lemma keeps_run_inv:
  assumes s: "engine_run_inv s" and k: "keeps (eng s) e'" and i: "engine_inv e'"
  shows "engine_run_inv (s\<lparr>eng := e'\<rparr>)"
proof -
  from k have r: "rule e' = rule (eng s)" "set (syn_query_cache e') \<subseteq> set (syn_query_cache (eng s))"
    by (simp_all add: keeps_def)
  have "packets_ok (s\<lparr>eng := e'\<rparr>)"
    using s r(2) by (auto simp: engine_run_inv_def packets_ok_def outbound_candidate_def r(1))
  moreover have "objs_owned (s\<lparr>eng := e'\<rparr>)"
    unfolding objs_owned_def
  proof (intro allI impI)
    fix g m
    assume "dget (m_objs (eng (s\<lparr>eng := e'\<rparr>))) g = Some m"
    then obtain m0 where m0: "dget (m_objs (eng s)) g = Some m0" "pm_id m = pm_id m0"
      using k by (cases "dget (m_objs (eng s)) g") (auto simp: keeps_def dest: spec [of _ g])
    with s have "mapping_owned s m0" by (simp add: engine_run_inv_def objs_owned_def)
    with pm_idD [OF m0(2)] r(1) show "mapping_owned (s\<lparr>eng := e'\<rparr>) m"
      by (simp add: mapping_owned_def named_target_def)
  qed
  ultimately show ?thesis using i by (simp add: engine_run_inv_def)
qed

lemma more_packets_inv:
  assumes "engine_run_inv s" and "\<forall>p \<in> set ps. outbound_candidate (eng s) p"
    and "\<forall>(p, r) \<in> set js. outbound_candidate (eng s) p \<and> (packet_key p, r) \<in> set (answered s)"
    and "\<forall>(p, r) \<in> set as. outbound_candidate (eng s) p \<and> (packet_key p, Some r) \<in> set (answered s) \<and>
      res_status r = RESOLVED \<and> owner_matches_rule (rule (eng s)) (res_identity r)"
  shows "engine_run_inv (s\<lparr>asking := ps, judging := js, approved := as\<rparr>)"
  using assms by (simp add: engine_run_inv_def packets_ok_def objs_owned_def mapping_owned_def named_target_def)

lemma set_dset: "set (dset k v d) \<subseteq> insert (k, v) (set d)"
  by (induction d) (auto simp: dset_def)

lemma answer_inv:
  assumes s: "engine_run_inv s" and p: "p \<in> set (asking s)"
  shows "engine_run_inv (s\<lparr>eng := store_resolution t (packet_key p) r (eng s),
      judging := (p, r) # judging s, answered := (packet_key p, r) # answered s\<rparr>)" (is "engine_run_inv ?s")
proof -
  have "engine_inv (eng ?s)" using s by (simp add: engine_run_inv_def store_resolution_inv)
  moreover have "objs_owned ?s"
    using s by (simp add: engine_run_inv_def objs_owned_def mapping_owned_def named_target_def store_resolution_def)
      meson
  moreover have "packets_ok ?s"
    using s p set_dset [of "packet_key p" "(t + 3, r)" "syn_query_cache (eng s)"]
    by (fastforce simp: engine_run_inv_def packets_ok_def outbound_candidate_def store_resolution_def)
  ultimately show ?thesis by (simp add: engine_run_inv_def)
qed

lemma candidate_key:
  "outbound_candidate e p \<Longrightarrow> packet_key p = (''TCP'', pk_src p, pk_sport p, original_ipv4 (rule e), pk_dport p, pk_if p, pk_subif p)"
  by (simp add: packet_key_def outbound_candidate_def)

text \<open>A section that creates a mapping creates it for the packet's tuple and owner.\<close>

lemma create_mapping_objs:
  assumes "create_mapping t p owner e = (d, e')" and "outbound_candidate e p"
    and "dget (m_objs e') g = Some m"
  shows "rule e' = rule e \<and> syn_query_cache e' = syn_query_cache e \<and>
    (dget (m_objs e) g = Some m \<or> pm_forward_key (original_ipv4 (rule e)) m = packet_key p \<and>
      pm_pid m = o_pid owner \<and> pm_creation_time m = o_creation_time owner)"
  using assms
  by (auto simp: create_mapping_def Let_def new_transaction_def dict_simps candidate_key
      pm_forward_key_def split: if_splits)

lemma create_mapping_rule:
  "create_mapping t p owner e = (d, e') \<Longrightarrow> rule e' = rule e \<and> syn_query_cache e' = syn_query_cache e"
  by (auto simp: create_mapping_def Let_def new_transaction_def split: if_splits)

lemma create_inv:
  assumes s: "engine_run_inv s" and a: "(p, r) \<in> set (approved s)" "res_identity r = Some owner"
    and c: "create_mapping t p owner (eng s) = (d, e')"
  shows "engine_run_inv (s\<lparr>eng := e'\<rparr>)"
proof -
  note f = create_mapping_rule [OF c]
  from s a have r: "outbound_candidate (eng s) p" "(packet_key p, Some r) \<in> set (answered s)"
    "res_status r = RESOLVED" "owner_matches_rule (rule (eng s)) (Some owner)"
    by (auto simp: engine_run_inv_def packets_ok_def)
  have "engine_inv e'" using create_mapping_inv [of "eng s" t p owner] s c by (simp add: engine_run_inv_def)
  moreover have "packets_ok (s\<lparr>eng := e'\<rparr>)"
    using s f by (auto simp: engine_run_inv_def packets_ok_def outbound_candidate_def)
  moreover have "mapping_owned (s\<lparr>eng := e'\<rparr>) m" if "dget (m_objs e') g = Some m" for g m
  proof (cases "dget (m_objs (eng s)) g = Some m")
    case True
    with s f show ?thesis by (auto simp: engine_run_inv_def objs_owned_def mapping_owned_def named_target_def)
  next
    case False
    with create_mapping_objs [OF c r(1) that] r(2-4) a(2) f show ?thesis
      by (auto simp: mapping_owned_def named_target_def)
  qed
  ultimately show ?thesis by (simp add: engine_run_inv_def objs_owned_def)
qed

lemma reserve_cached:
  assumes "reserve_outbound now t p e = (Reserved (Some r), e')"
  shows "\<exists>x. (packet_key p, x, Some r) \<in> set (syn_query_cache e)"
proof -
  have "dget (syn_query_cache (cleanup_engine now t e)) (packet_key p) \<noteq> None \<and>
    map_option snd (dget (syn_query_cache (cleanup_engine now t e)) (packet_key p)) = Some (Some r)"
    using assms by (auto simp: reserve_outbound_def existing_mapping_def Let_def split_beta
        split: if_splits option.splits)
  then obtain x where "(packet_key p, x, Some r) \<in> set (syn_query_cache (cleanup_engine now t e))"
    by (auto dest!: dget_in)
  then show ?thesis using keeps_cleanup [of e now t] by (auto simp: keeps_def)
qed

lemma engine_run_inv_step: "engine_step s s' \<Longrightarrow> engine_run_inv s \<Longrightarrow> engine_run_inv s'"
proof (induction rule: engine_step.induct)
  case (step_ask s p now t e')
  have "keeps (eng s) e'" "engine_inv e'"
    using keeps_reserve [of "eng s" now t p] reserve_outbound_inv [of "eng s" now t p] step_ask
    by (simp_all add: engine_run_inv_def)
  with step_ask.prems have "engine_run_inv (s\<lparr>eng := e'\<rparr>)" by (rule keeps_run_inv)
  from more_packets_inv [OF this, of "p # asking s" "judging s" "approved s"] this step_ask.hyps \<open>keeps (eng s) e'\<close>
  show ?case by (simp add: engine_run_inv_def packets_ok_def outbound_candidate_def keeps_def)
next
  case (step_cached s p now t r e')
  have k: "keeps (eng s) e'" "engine_inv e'"
    using keeps_reserve [of "eng s" now t p] reserve_outbound_inv [of "eng s" now t p] step_cached
    by (simp_all add: engine_run_inv_def)
  with step_cached.prems have "engine_run_inv (s\<lparr>eng := e'\<rparr>)" by (intro keeps_run_inv)
  moreover have "(packet_key p, Some r) \<in> set (answered s)"
    using reserve_cached [OF step_cached.hyps(2)] step_cached.prems by (auto simp: engine_run_inv_def packets_ok_def)
  ultimately show ?case
    using more_packets_inv [of "s\<lparr>eng := e'\<rparr>" "asking s" "(p, Some r) # judging s" "approved s"]
      step_cached.hyps k(1)
    by (simp add: engine_run_inv_def packets_ok_def outbound_candidate_def keeps_def)
next
  case (step_answer p s t r)
  then show ?case by (intro answer_inv)
next
  case (step_approve p r s t e')
  have k: "keeps (eng s) e'" "engine_inv e'"
    using keeps_judge [of "eng s" t "packet_key p" "Some r"]
      judge_owner_inv [of "eng s" t "packet_key p" "Some r"] step_approve by (simp_all add: engine_run_inv_def)
  have j: "res_status r = RESOLVED \<and> owner_matches_rule (rule (eng s)) (res_identity r)"
    using step_approve.hyps(2) by (auto simp: judge_owner_def split: if_splits)
  from k step_approve.prems have "engine_run_inv (s\<lparr>eng := e'\<rparr>)" by (intro keeps_run_inv)
  then show ?case
    using more_packets_inv [of "s\<lparr>eng := e'\<rparr>" "asking s" "judging s" "(p, r) # approved s"]
      step_approve.hyps j k(1) step_approve.prems
    by (auto simp: engine_run_inv_def packets_ok_def outbound_candidate_def keeps_def)
next
  case (step_create p r s owner t d e')
  then show ?case by (intro create_inv)
next
  case (step_finished s p now t d e')
  then show ?case
    using keeps_reserve [of "eng s" now t p] reserve_outbound_inv [of "eng s" now t p]
    by (intro keeps_run_inv) (simp_all add: engine_run_inv_def)
next
  case (step_refuse p r s t d e')
  then show ?case
    using keeps_judge [of "eng s" t "packet_key p" r] judge_owner_inv [of "eng s" t "packet_key p" r]
    by (intro keeps_run_inv) (simp_all add: engine_run_inv_def)
next
  case (step_inbound now t p s d e')
  then show ?case
    using keeps_inbound [of "eng s" now t p] prepare_inbound_inv [of "eng s" now t p]
    by (intro keeps_run_inv) (simp_all add: engine_run_inv_def)
next
  case (step_commit t k outcome s b e')
  then show ?case
    using keeps_commit [of "eng s" t k outcome] commit_inv [of "eng s" t k outcome]
    by (intro keeps_run_inv) (simp_all add: engine_run_inv_def)
next
  case (step_abort t k s b e')
  then show ?case
    using keeps_abort [of "eng s" t k] abort_inv [of "eng s" t k]
    by (intro keeps_run_inv) (simp_all add: engine_run_inv_def)
next
  case (step_resume route same_file s b e')
  then show ?case
    using keeps_others(2) [of "eng s" route same_file] resume_engine_inv [of "eng s" route same_file]
    by (intro keeps_run_inv) (simp_all add: engine_run_inv_def)
next
  case (step_drain now force s x e')
  then show ?case
    using keeps_others(3) [of "eng s" now force] drain_audit_summary_inv [of "eng s" now force]
    by (intro keeps_run_inv) (simp_all add: engine_run_inv_def)
qed (blast intro: keeps_run_inv keeps_suspend keeps_others suspend_engine_inv close_engine_inv
    discard_reservation_inv engine_run_inv_engine)+

interpretation engine_machine: invariant_machine engine_init engine_step engine_run_inv
  by unfold_locales (auto intro: engine_run_inv_init engine_run_inv_step)

section \<open>\<open>prepare\<close> is a run of its sections\<close>

lemma step_suspend': "engine_step\<^sup>*\<^sup>* s s' \<Longrightarrow>
    engine_step\<^sup>*\<^sup>* s (s'\<lparr>eng := snd (suspend_engine t reason (eng s'))\<rparr>)"
  using step_suspend by (rule rtranclp.rtrancl_into_rtrancl [rotated])

lemma one_step: "engine_step s s' \<Longrightarrow> eng s' = e \<Longrightarrow> \<exists>s'. engine_step\<^sup>*\<^sup>* s s' \<and> eng s' = e"
  by blast

lemma after_owner_steps:
  assumes j: "(p, r) \<in> set (judging s)"
  shows "\<exists>s'. engine_step\<^sup>*\<^sup>* s s' \<and> eng s' = snd (after_owner t p ans r (eng s)) \<and> answered s' = answered s"
proof -
  obtain x e1 where je: "judge_owner t (packet_key p) r (eng s) = (x, e1)" by force
  show ?thesis
  proof (cases x)
    case (Some d)
    with step_refuse [OF j, of t d e1] je show ?thesis by (auto simp: after_owner_def)
  next
    case None
    then obtain res where r: "r = Some res" using je by (auto simp: judge_owner_def split: option.splits)
    let ?s = "s\<lparr>eng := e1, approved := (p, res) # approved s\<rparr>"
    have 1: "engine_step\<^sup>*\<^sup>* s ?s" using step_approve [of p res s t e1] j je r None by auto
    have 2: "engine_step\<^sup>*\<^sup>* s (?s\<lparr>eng := snd (suspend_engine t reason e1)\<rparr>)" for reason
      using step_suspend' [OF 1] by simp
    have 3: "engine_step\<^sup>*\<^sup>* s (?s\<lparr>eng := snd (create_mapping t p owner e1)\<rparr>)"
      if "res_identity res = Some owner" for owner
      using rtranclp.rtrancl_into_rtrancl [OF 1 step_create [of p res ?s owner t]] that
      by (cases "create_mapping t p owner e1") simp
    have "\<exists>s'. engine_step\<^sup>*\<^sup>* s s' \<and> eng s' = e' \<and> answered s' = answered s"
      if "e' = e1 \<or> (\<exists>reason. e' = snd (suspend_engine t reason e1)) \<or>
        (\<exists>owner. res_identity res = Some owner \<and> e' = snd (create_mapping t p owner e1))" for e'
      using that
    proof (elim disjE exE conjE)
      assume "e' = e1"
      with 1 show ?thesis by (intro exI [of _ ?s]) simp
    next
      fix reason assume "e' = snd (suspend_engine t reason e1)"
      with 2 show ?thesis by (intro exI [of _ "?s\<lparr>eng := e'\<rparr>"]) simp
    next
      fix owner assume "res_identity res = Some owner" "e' = snd (create_mapping t p owner e1)"
      with 3 show ?thesis by (intro exI [of _ "?s\<lparr>eng := e'\<rparr>"]) simp
    qed
    moreover have "snd (after_owner t p ans r (eng s)) = e1 \<or>
        (\<exists>reason. snd (after_owner t p ans r (eng s)) = snd (suspend_engine t reason e1)) \<or>
        (\<exists>owner. res_identity res = Some owner \<and>
           snd (after_owner t p ans r (eng s)) = snd (create_mapping t p owner e1))"
      unfolding after_owner_def r je [unfolded None r] prod.case option.case
      by (cases "ans_route ans"; cases "ans_identity ans"; cases "res_identity res") (auto simp: Let_def)
    ultimately show ?thesis by blast
  qed
qed

lemma prepare_outbound_steps:
  assumes c: "outbound_candidate (eng s) p"
  shows "\<exists>s'. engine_step\<^sup>*\<^sup>* s s' \<and> eng s' = snd (prepare_outbound now t p ans (eng s))"
proof -
  obtain x e1 where re: "reserve_outbound now t p (eng s) = (x, e1)" by force
  have disc: "\<exists>s2. engine_step\<^sup>*\<^sup>* s s2 \<and> eng s2 = discard_reservation (packet_key p) (eng s')"
    if "engine_step\<^sup>*\<^sup>* s s'" for s'
    using rtranclp.rtrancl_into_rtrancl [OF that step_discard [of s' "packet_key p"]] by fastforce
  show ?thesis
  proof (cases x)
    case (Finished d)
    with re have "engine_step s (s\<lparr>eng := e1\<rparr>)" by (simp add: step_finished [OF c])
    then show ?thesis by (rule one_step) (simp add: re Finished prepare_outbound_def)
  next
    case (Reserved cached)
    show ?thesis
    proof (cases cached)
      case (Some res)
      let ?s = "s\<lparr>eng := e1, judging := (p, Some res) # judging s\<rparr>"
      have "engine_step s ?s" using step_cached [OF c] re Reserved Some by simp
      moreover obtain s' where "engine_step\<^sup>*\<^sup>* ?s s'" "eng s' = snd (after_owner t p ans (Some res) e1)"
        using after_owner_steps [of p "Some res" ?s t ans] by auto
      ultimately show ?thesis
        using disc [of s'] re Reserved Some
        by (simp add: prepare_outbound_def split_beta converse_rtranclp_into_rtranclp)
    next
      case None
      let ?s = "s\<lparr>eng := e1, asking := p # asking s\<rparr>"
      have a: "engine_step s ?s" using step_ask [OF c] re Reserved None by simp
      show ?thesis
      proof (cases "ans_owner ans")
        case (Inl y)
        then show ?thesis
          using disc [of ?s] a re Reserved None by (simp add: prepare_outbound_def r_into_rtranclp)
      next
        case (Inr r)
        let ?s2 = "?s\<lparr>eng := store_resolution t (packet_key p) r e1, judging := (p, r) # judging s,
          answered := (packet_key p, r) # answered s\<rparr>"
        have "engine_step ?s ?s2" using step_answer [of p ?s r t] by simp
        moreover obtain s' where "engine_step\<^sup>*\<^sup>* ?s2 s'"
          "eng s' = snd (after_owner t p ans r (store_resolution t (packet_key p) r e1))"
          using after_owner_steps [of p r ?s2 t ans] by auto
        ultimately show ?thesis
          using disc [of s'] a re Reserved None Inr
          by (simp add: prepare_outbound_def Let_def split_beta converse_rtranclp_into_rtranclp)
      qed
    qed
  qed
qed

lemma prepare_steps: "\<exists>s'. engine_step\<^sup>*\<^sup>* s s' \<and> eng s' = snd (prepare now t p ans (eng s))"
proof -
  have "\<exists>s'. engine_step\<^sup>*\<^sup>* s s' \<and> eng s' = snd (prepare_inbound now t p (eng s))"
    by (rule one_step [OF step_inbound [of now t p s]]) (auto intro: prod.collapse [symmetric])
  then show ?thesis
    using prepare_outbound_steps [of s p now t ans]
    by (auto simp: prepare_def outbound_candidate_def)
qed

section \<open>Decisions\<close>

lemma after_owner_rewrite:
  assumes "after_owner t p ans r e = ((d, k), e')" "action d = REWRITE_OUTBOUND"
  obtains owner e1 where "create_mapping t p owner e1 = ((d, k), e')" "keeps e e1"
proof -
  obtain x e1 where je: "judge_owner t (packet_key p) r e = (x, e1)" by force
  have k: "keeps e e1" using keeps_judge [of e t "packet_key p" r] je by simp
  have "x = None \<or> action (fst (the x)) \<noteq> REWRITE_OUTBOUND"
    using je by (auto simp: judge_owner_def drop_packet_def pass_packet_def plain_def
        split: option.splits if_splits)
  with assms je have "\<exists>owner. create_mapping t p owner e1 = ((d, k), e')"
    by (auto simp: after_owner_def Let_def drop_packet_def plain_def split: option.splits sum.splits if_splits)
  with k that show thesis by blast
qed

lemma prepare_rewrite_outbound:
  assumes "prepare now t p ans e = ((d, k), e')" "action d = REWRITE_OUTBOUND"
  obtains g m where "outbound_candidate e p" "d_generation d = Some g" "k \<noteq> None"
    "d_target d = Some (target_ipv4 (rule e), pk_dport p)"
    "dget (e_forward e') (packet_key p) = Some g \<or>
      dget (m_objs e') g = Some m \<and> pm_forward_key (original_ipv4 (rule e')) m = packet_key p"
proof -
  have c: "outbound_candidate e p" and po: "prepare_outbound now t p ans e = ((d, k), e')"
    using assms by (auto simp: prepare_def prepare_inbound_def outbound_candidate_def Let_def split_beta
        not_applicable_def drop_packet_def pass_packet_def plain_def split: if_splits option.splits)
  obtain x e1 where re: "reserve_outbound now t p e = (x, e1)" by force
  show thesis
  proof (cases x)
    case (Finished y)
    let ?c = "cleanup_engine now t e"
    have rc: "rule ?c = rule e" using keeps_cleanup [of e now t] by (simp add: keeps_def)
    from Finished po re have "y = (d, k)" "e1 = e'" by (simp_all add: prepare_outbound_def)
    with re Finished assms(2) obtain g where g: "dget (e_forward ?c) (packet_key p) = Some g"
      "existing_mapping t p g ?c = (Finished (d, k), e')"
      by (auto simp: reserve_outbound_def Let_def split_beta drop_packet_def pass_packet_def plain_def
          split: if_splits option.splits)
    show thesis
      using g rc assms(2) by (intro that [OF c, of g])
        (auto simp: existing_mapping_def new_transaction_def Let_def drop_packet_def plain_def split: if_splits)
  next
    case (Reserved cached)
    have r1: "rule e1 = rule e" using keeps_reserve [of e now t p] re by (simp add: keeps_def)
    obtain r e2 where e2: "rule e2 = rule e" and
      po': "prepare_outbound now t p ans e = (let (x, e3) = after_owner t p ans r e2 in
        (x, discard_reservation (packet_key p) e3))"
    proof (cases cached)
      case (Some res)
      with re Reserved r1 that [of e1 "Some res"] show thesis by (simp add: prepare_outbound_def Let_def)
    next
      case None
      then obtain r where "ans_owner ans = Inr r"
        using po re Reserved assms(2)
        by (cases "ans_owner ans") (auto simp: prepare_outbound_def Let_def drop_packet_def plain_def)
      with None re Reserved r1 that [of "store_resolution t (packet_key p) r e1" r] show thesis
        by (simp add: prepare_outbound_def Let_def store_resolution_def)
    qed
    obtain e3 where a: "after_owner t p ans r e2 = ((d, k), e3)" and e': "e' = discard_reservation (packet_key p) e3"
      using po po' by (cases "after_owner t p ans r e2") simp
    obtain owner e4 where cm: "create_mapping t p owner e4 = ((d, k), e3)" and k4: "keeps e2 e4"
      by (rule after_owner_rewrite [OF a assms(2)])
    have r4: "rule e4 = rule e" using k4 e2 by (simp add: keeps_def)
    have c4: "outbound_candidate e4 p" using c r4 by (simp add: outbound_candidate_def)
    have f: "pm_forward_key (original_ipv4 (rule e)) m = packet_key p"
      if "pm_local_ipv4 m = pk_src p" "pm_local_port m = pk_sport p" "pm_original_port m = pk_dport p"
        "pm_if m = pk_if p" "pm_subif m = pk_subif p" for m
      using that candidate_key [OF c] by (simp add: pm_forward_key_def)
    have "\<exists>g m. d_generation d = Some g \<and> k \<noteq> None \<and>
        d_target d = Some (target_ipv4 (rule e), pk_dport p) \<and> dget (m_objs e') g = Some m \<and>
        rule e' = rule e \<and> pm_forward_key (original_ipv4 (rule e)) m = packet_key p"
      using cm assms(2) r4
      by (auto simp: e' create_mapping_def Let_def new_transaction_def discard_reservation_def
          dict_simps drop_packet_def plain_def intro!: f split: if_splits)
    then show thesis using that [OF c] by metis
  qed
qed

lemma keeps_rule: "keeps e e' \<Longrightarrow> rule e' = rule e"
  by (simp add: keeps_def)

lemma prepare_rule:
  assumes "prepare now t p ans e = (x, e')"
  shows "rule e' = rule e"
proof -
  have ao: "rule (snd (after_owner t p ans r e)) = rule e" for r e
  proof -
    obtain y e1 where je: "judge_owner t (packet_key p) r e = (y, e1)" by force
    have "rule e1 = rule e" using keeps_judge [of e t "packet_key p" r] je by (simp add: keeps_def)
    moreover have "rule (snd (create_mapping t p ow e1)) = rule e1" for ow
      using create_mapping_rule [of t p ow e1] by (cases "create_mapping t p ow e1") simp
    moreover have "rule (snd (suspend_engine t reason e1)) = rule e1" for reason
      by (rule keeps_rule [OF keeps_suspend])
    ultimately show ?thesis
      by (simp add: after_owner_def je Let_def split: option.split sum.split)
  qed
  have "rule (snd (reserve_outbound now t p e)) = rule e" by (rule keeps_rule [OF keeps_reserve])
  then have "rule (snd (prepare_outbound now t p ans e)) = rule e"
    by (cases "reserve_outbound now t p e")
      (auto simp: prepare_outbound_def Let_def split_beta ao store_resolution_def discard_reservation_def
        split: reserved.split option.split sum.split)
  moreover have "rule (snd (prepare_inbound now t p e)) = rule e" by (rule keeps_rule [OF keeps_inbound])
  ultimately show ?thesis using assms by (auto simp: prepare_def split: if_splits)
qed

text \<open>Cleaning up never reopens or closes the engine.\<close>

lemma cleanup_flags [simp]:
  "e_closed (cleanup_engine now t e) = e_closed e" "e_suspended (cleanup_engine now t e) = e_suspended e"
proof -
  have 1: "e_closed (expire_transaction now t x e) = e_closed e"
    "e_suspended (expire_transaction now t x e) = e_suspended e" for x e
    by (auto simp: expire_transaction_def Let_def split: prod.split option.split)
  have 2: "e_closed (expire_mapping now t x e) = e_closed e"
    "e_suspended (expire_mapping now t x e) = e_suspended e" for x e
    by (auto simp: expire_mapping_def split: option.split)
  have 3: "e_closed (fold f xs e) = e_closed e \<and> e_suspended (fold f xs e) = e_suspended e"
    if "\<And>x e. e_closed (f x e) = e_closed e \<and> e_suspended (f x e) = e_suspended e"
    for f :: "'x \<Rightarrow> engine \<Rightarrow> engine" and xs e
    using that by (induction xs arbitrary: e) simp_all
  show "e_closed (cleanup_engine now t e) = e_closed e" "e_suspended (cleanup_engine now t e) = e_suspended e"
    using 3 [of "expire_transaction now t"] 3 [of "expire_mapping now t"] 1 2
    by (simp_all add: cleanup_engine_def Let_def purge_tombstones_def)
qed

section \<open>Properties\<close>

text \<open>C6. In every state that any interleaving of preparations, commits, aborts, suspensions and
  resumptions reaches, at most 1024 mappings are active or about to be committed, and at most 256
  of them belong to one process.\<close>

theorem redirect_capacity:
  assumes "engine_init s0" and "engine_step\<^sup>*\<^sup>* s0 s"
  shows "length (e_forward (eng s)) + length (pending_new (eng s)) \<le> 1024 \<and> pid_count (eng s) pid \<le> 256"
proof -
  have "engine_inv (eng s)"
    using engine_machine.reachable_inv [OF assms] by (simp add: engine_run_inv_def)
  then show ?thesis by (simp add: engine_inv_def held_def dvals_def pid_count_held)
qed


text \<open>While the engine is closed or suspended no packet of the redirected address pair gets
  through: an outbound TCP packet to the original address and an inbound one from the target are
  dropped, whatever the environment answers.\<close>

theorem closed_engine_drops:
  assumes "e_closed e \<or> e_suspended e" and "pk_version p = 4" and "pk_protocol p = ''TCP''"
    and "pk_direction p = ''outbound'' \<and> pk_dst p = original_ipv4 (rule e) \<or>
      pk_direction p = ''inbound'' \<and> pk_src p = target_ipv4 (rule e) \<and> pk_dst p \<noteq> target_ipv4 (rule e)"
  shows "action (fst (fst (prepare now t p ans e))) = DROP \<and> snd (fst (prepare now t p ans e)) = None"
  using assms
  by (auto simp: prepare_def prepare_inbound_def prepare_outbound_def reserve_outbound_def Let_def
      drop_packet_def plain_def)

text \<open>A token is completed once: after a commit or an abort that found it, every later commit or
  abort of the same token raises and changes nothing.\<close>

theorem token_completed_once:
  assumes "commit t k outcome e = (Inr b, e') \<or> abort t k e = (Inr b, e')"
  shows "commit t' k o' e' = (Inl (RuntimeError ''unknown or already completed token''), e') \<and>
    abort t' k e' = (Inl (RuntimeError ''unknown or already completed token''), e')"
proof -
  have "dget (transactions e') k = None"
    using assms
    by (auto simp: commit_def abort_def Let_def fail_transaction_def observe_tcp_def dict_simps
        split: option.splits if_splits)
  then show ?thesis by (simp add: commit_def abort_def)
qed

text \<open>The grants of the token bucket at a series of clock readings.\<close>

fun query_grants :: "time list \<Rightarrow> engine \<Rightarrow> nat" where
  "query_grants [] e = 0"
| "query_grants (t # ts) e = (case consume_query_budget t e of
     (ok, e') \<Rightarrow> (if ok then 1 else 0) + query_grants ts e')"

lemma query_grants_bound:
  "sorted (query_refill_at e # ts) \<Longrightarrow> 0 \<le> query_tokens e \<Longrightarrow>
    of_nat (query_grants ts e) \<le> query_tokens e + 32 * (last (query_refill_at e # ts) - query_refill_at e)"
proof (induction ts arbitrary: e)
  case (Cons t ts)
  obtain ok e' where c: "consume_query_budget t e = (ok, e')" by force
  let ?n = "query_tokens e + (t - query_refill_at e) * 32"
  have le: "query_refill_at e \<le> t" using Cons.prems(1) by simp
  have e': "query_refill_at e' = t" "0 \<le> query_tokens e'"
    "(if ok then 1 else 0) + query_tokens e' \<le> ?n"
    using c le Cons.prems(2) by (auto simp: consume_query_budget_def Let_def max_def min_def split: if_splits)
  have "of_nat (query_grants ts e') \<le> query_tokens e' + 32 * (last (t # ts) - t)"
    using Cons.IH [of e'] Cons.prems(1) e'(1,2) by simp
  moreover have "of_nat (query_grants (t # ts) e) = (if ok then 1 else 0) + (of_nat (query_grants ts e') :: rat)"
    by (simp add: c)
  ultimately show ?case using e'(3) by (simp add: algebra_simps split: if_splits)
qed simp


text \<open>The tuple of a packet after the rewriting a decision asks for.\<close>

definition rewritten :: "ProcessRedirectDecision \<Rightarrow> PacketTuple \<Rightarrow> PacketTuple" where
  "rewritten d p = (case d_target d of
       Some (ip, port) \<Rightarrow> p\<lparr>pk_dst := ip, pk_dport := port\<rparr>
     | None \<Rightarrow> (case d_source d of
           Some (ip, port) \<Rightarrow> p\<lparr>pk_src := ip, pk_sport := port\<rparr>
         | None \<Rightarrow> p))"

definition mirrored :: "tuple_key \<Rightarrow> tuple_key" where
  "mirrored k = (case k of (proto, src, sport, dst, dport, i, j) \<Rightarrow> (proto, dst, dport, src, sport, i, j))"

lemma engine_inv_reverse_key:
  "engine_inv e \<Longrightarrow> dget (e_reverse e) k = Some g \<Longrightarrow>
    \<exists>m. dget (m_objs e) g = Some m \<and> pm_reverse_key (target_ipv4 (rule e)) m = k"
  unfolding engine_inv_def by blast

text \<open>C36. The reverse rewriting undoes the forward one: in a reachable state a reply that is rewritten
  comes out as the mirror image of the tuple the client sent, that tuple is one the resolver named
  the configured program's process for, and rewriting the client's tuple forward gives the mirror
  image of the reply as it came in.\<close>

theorem redirect_inverse:
  assumes "engine_init s0" and "engine_step\<^sup>*\<^sup>* s0 s"
    and q: "prepare_inbound now t q (eng s) = ((d, k), e')" and r: "action d = REWRITE_INBOUND"
  shows "\<exists>owner. named_target s (mirrored (packet_key (rewritten d q))) owner \<and>
    mirrored (packet_key q) =
      (case mirrored (packet_key (rewritten d q)) of (proto, src, sport, dst, dport, i, j) \<Rightarrow>
        (proto, src, sport, target_ipv4 (rule (eng s)), dport, i, j))"
proof -
  let ?e = "cleanup_engine now t (eng s)"
  have i: "engine_run_inv s" by (rule engine_machine.reachable_inv [OF assms(1,2)])
  have c: "engine_run_inv (s\<lparr>eng := ?e\<rparr>)"
    by (rule keeps_run_inv [OF i keeps_cleanup cleanup_inv [OF engine_run_inv_engine [OF i]]])
  have rule: "rule ?e = rule (eng s)" by (rule keeps_rule [OF keeps_cleanup])
  from q r rule obtain g where g: "dget (e_reverse ?e) (packet_key q) = Some g"
    and d: "d_target d = None" "d_source d = Some (original_ipv4 (rule (eng s)), pk_sport q)"
    by (auto simp: prepare_inbound_def Let_def new_transaction_def not_applicable_def drop_packet_def
        pass_packet_def plain_def split: if_splits option.splits)
  from g engine_run_inv_engine [OF c] obtain m where m: "dget (m_objs ?e) g = Some m"
    "pm_reverse_key (target_ipv4 (rule ?e)) m = packet_key q"
    using engine_inv_reverse_key [of ?e "packet_key q" g] by auto
  have fk: "mirrored (packet_key (rewritten d q)) = pm_forward_key (original_ipv4 (rule (eng s))) m"
    using m(2) rule
    by (auto simp: d rewritten_def mirrored_def packet_key_def pm_reverse_key_def pm_forward_key_def)
  have "mapping_owned (s\<lparr>eng := ?e\<rparr>) m" using c m(1) by (auto simp: engine_run_inv_def objs_owned_def)
  then obtain owner where "named_target s (pm_forward_key (original_ipv4 (rule (eng s))) m) owner"
    by (auto simp: mapping_owned_def named_target_def rule)
  then show ?thesis
    unfolding fk m(2) [symmetric] rule by (auto simp: mirrored_def pm_reverse_key_def pm_forward_key_def)
qed

section \<open>Witnesses\<close>

definition demo_redirect_rule :: ProcessRedirectRule where
  "demo_redirect_rule = \<lparr>r_protocol = ''TCP'', r_image_path = f_final_path demo_identity,
     r_image_sha256 = replicate 64 CHR ''a'', original_ipv4 = ''203.0.113.9'',
     target_ipv4 = ''192.168.56.20'', file_identity = demo_identity\<rparr>"

definition demo_owner :: ProcessOwnerIdentity where
  "demo_owner = \<lparr>o_pid = 4242, o_creation_time = 77, o_final_path = ''C:'' @ [bsl] @ ''Tools'' @ [bsl] @ ''agent.exe'',
     o_volume_serial = 7, o_file_id = 99\<rparr>"

definition demo_answers :: answers where
  "demo_answers = \<lparr>ans_owner = Inr (Some \<lparr>res_status = RESOLVED, res_identity = Some demo_owner\<rparr>),
     ans_route = Inr True, ans_route_reason = None, ans_identity = Inr True\<rparr>"

definition demo_syn :: PacketTuple where
  "demo_syn = \<lparr>pk_direction = ''outbound'', pk_version = 4, pk_fragmented = False,
     pk_protocol = ''TCP'', pk_flags = 2, pk_src = ''192.168.56.10'', pk_sport = 50000,
     pk_dst = ''203.0.113.9'', pk_dport = 443, pk_if = 3, pk_subif = 0, pk_size = 52\<rparr>"

definition demo_reply :: PacketTuple where
  "demo_reply = \<lparr>pk_direction = ''inbound'', pk_version = 4, pk_fragmented = False,
     pk_protocol = ''TCP'', pk_flags = 18, pk_src = ''192.168.56.20'', pk_sport = 443,
     pk_dst = ''192.168.56.10'', pk_dport = 50000, pk_if = 3, pk_subif = 0, pk_size = 52\<rparr>"

definition demo_engine_run :: engine_run where
  "demo_engine_run = \<lparr>eng = new_engine 0 demo_redirect_rule, asking = [], judging = [], approved = [],
     answered = []\<rparr>"

lemma demo_engine_init: "engine_init demo_engine_run"
  unfolding demo_engine_run_def by (rule engine_init.intros)

lemmas engine_eval = new_engine_def prepare_def prepare_outbound_def reserve_outbound_def
  cleanup_engine_def purge_tombstones_def expire_transaction_def expire_mapping_def timeout_reason_def
  has_flag_def TH_SYN_def TH_ACK_def TH_FIN_def TH_RST_def pending_for_def consume_query_budget_def
  store_resolution_def after_owner_def judge_owner_def owner_matches_rule_def create_mapping_def
  pid_count_def pending_new_def has_pid_def new_transaction_def discard_reservation_def
  count_audit_def packet_key_def pm_client_key_def pm_forward_key_def pm_reverse_key_def
  commit_def observe_tcp_def prepare_inbound_def existing_mapping_def
  drop_packet_def pass_packet_def not_applicable_def plain_def add_tombstone_def
  remove_process_mapping_def demo_redirect_rule_def demo_identity_def demo_owner_def
  demo_answers_def demo_syn_def demo_reply_def demo_engine_run_def

definition demo_e1 :: engine where
  "demo_e1 = snd (prepare 1 1 demo_syn demo_answers (eng demo_engine_run))"

lemma demo_prepare:
  "prepare 1 1 demo_syn demo_answers (eng demo_engine_run) =
    ((\<lparr>action = REWRITE_OUTBOUND, d_reason = ''new_mapping'', d_generation = Some 1,
       d_target = Some (''192.168.56.20'', 443), d_source = None, d_pid = Some 4242,
       d_creation_time = Some 77, d_file_id = Some 99\<rparr>, Some 1), demo_e1)"
  by (simp add: demo_e1_def engine_eval py_eval bit_simps)


theorem redirect_capacity_witness:
  "length (e_forward (eng demo_engine_run)) + length (pending_new (eng demo_engine_run)) \<le> 1024 \<and>
   pid_count (eng demo_engine_run) 4242 \<le> 256"
  by (rule redirect_capacity [OF demo_engine_init rtranclp.rtrancl_refl])

theorem closed_engine_drops_witness:
  "action (fst (fst (prepare 1 1 demo_syn demo_answers (close_engine (eng demo_engine_run))))) = DROP"
  using closed_engine_drops [of "close_engine (eng demo_engine_run)" demo_syn 1 1 demo_answers]
  by (simp add: close_engine_def engine_eval)

definition demo_e2 :: engine where
  "demo_e2 = snd (commit 1 1 True demo_e1)"

lemma demo_commit: "commit 1 1 True demo_e1 = (Inr True, demo_e2)"
  by (simp add: demo_e2_def demo_e1_def engine_eval py_eval bit_simps)

theorem token_completed_once_witness:
  "commit 2 1 False demo_e2 = (Inl (RuntimeError ''unknown or already completed token''), demo_e2)"
  using token_completed_once [OF disjI1 [OF demo_commit]] by blast


lemma demo_inbound: "prepare_inbound 2 2 demo_reply demo_e2 =
    ((\<lparr>action = REWRITE_INBOUND, d_reason = ''reverse_mapping'', d_generation = Some 1, d_target = None,
       d_source = Some (''203.0.113.9'', 443), d_pid = None, d_creation_time = None, d_file_id = None\<rparr>, Some 2),
     snd (prepare_inbound 2 2 demo_reply demo_e2))"
  by (simp add: demo_e2_def demo_e1_def engine_eval py_eval bit_simps)

theorem redirect_inverse_witness:
  "\<exists>s owner. eng s = demo_e2 \<and>
    named_target s (''TCP'', ''192.168.56.10'', 50000, ''203.0.113.9'', 443, 3, 0) owner"
proof -
  obtain s1 where s1: "engine_step\<^sup>*\<^sup>* demo_engine_run s1" "eng s1 = demo_e1"
    using prepare_steps [of demo_engine_run 1 1 demo_syn demo_answers] by (auto simp: demo_e1_def)
  have "engine_step s1 (s1\<lparr>eng := demo_e2\<rparr>)" using step_commit [of 1 1 True s1] s1(2) demo_commit by simp
  with s1(1) have r: "engine_step\<^sup>*\<^sup>* demo_engine_run (s1\<lparr>eng := demo_e2\<rparr>)" by (rule rtranclp.rtrancl_into_rtrancl)
  have "prepare_inbound 2 2 demo_reply (eng (s1\<lparr>eng := demo_e2\<rparr>)) = prepare_inbound 2 2 demo_reply demo_e2"
    by simp
  from redirect_inverse [OF demo_engine_init r trans [OF this demo_inbound]]
  have "\<exists>owner. named_target (s1\<lparr>eng := demo_e2\<rparr>)
      (''TCP'', ''192.168.56.10'', 50000, ''203.0.113.9'', 443, 3, 0) owner"
    by (auto simp: mirrored_def rewritten_def packet_key_def demo_reply_def)
  then show ?thesis by (intro exI [of _ "s1\<lparr>eng := demo_e2\<rparr>"]) simp
qed

end
