(* ===== verification/FnConfig.thy ===== *)
theory FnConfig
  imports PyText
begin

text \<open>
  \<open>fakenet/diverters/fnconfig.py\<close>: the configuration dictionary with lower-case keys, the expansion
  of port lists and ranges, string lists and identifier lists, and the yes/no tests.
\<close>

section \<open>Values\<close>

text \<open>A value is the text of the configuration file until \<open>configure\<close> replaces it by a list.\<close>

datatype config_value = Text string | Ints "int list" | Texts "string list"

type_synonym config = "(string, config_value) dict"

fun truthy :: "config_value \<Rightarrow> bool" where
  "truthy (Text s) = (s \<noteq> [])"
| "truthy (Ints xs) = (xs \<noteq> [])"
| "truthy (Texts xs) = (xs \<noteq> [])"

section \<open>Access\<close>

definition is_configured :: "config \<Rightarrow> string \<Rightarrow> bool" where
  "is_configured c opt \<longleftrightarrow> lower opt \<in> set (dkeys c)"

definition is_unconfigured :: "config \<Rightarrow> string \<Rightarrow> bool" where
  "is_unconfigured c opt \<longleftrightarrow> \<not> is_configured c opt"

definition getconfigval :: "config \<Rightarrow> string \<Rightarrow> config_value option" where
  "getconfigval c opt = (if is_configured c opt then dget c (lower opt) else None)"

definition setconfigval :: "string \<Rightarrow> config_value \<Rightarrow> config \<Rightarrow> config" where
  "setconfigval opt v c = dset (lower opt) v c"

text \<open>The tests call \<open>value.lower()\<close>, which a list does not have.\<close>

fun value_lower :: "config_value \<Rightarrow> string result" where
  "value_lower (Text s) = Inr (lower s)"
| "value_lower _ = Inl (AttributeError ''lower'')"

definition fuzzy_true :: "config_value \<Rightarrow> bool result" where
  "fuzzy_true v = ebind (value_lower v) (\<lambda>s.
     Inr (s \<in> set [''yes'', ''on'', ''true'', ''enable'', ''enabled'']))"

definition fuzzy_false :: "config_value \<Rightarrow> bool result" where
  "fuzzy_false v = ebind (value_lower v) (\<lambda>s.
     Inr (s \<in> set [''no'', ''off'', ''false'', ''disable'', ''disabled'']))"

definition is_set :: "config \<Rightarrow> string \<Rightarrow> bool result" where
  "is_set c opt = (if is_configured c opt then
     (case dget c (lower opt) of None \<Rightarrow> Inl (KeyError (lower opt)) | Some v \<Rightarrow> fuzzy_true v)
     else Inr False)"

definition is_clear :: "config \<Rightarrow> string \<Rightarrow> bool result" where
  "is_clear c opt = (if is_configured c opt then
     (case dget c (lower opt) of None \<Rightarrow> Inl (KeyError (lower opt)) | Some v \<Rightarrow> fuzzy_false v)
     else Inr False)"

section \<open>Parsing\<close>

definition expand_port_item :: "string \<Rightarrow> int list result" where
  "expand_port_item i =
     (if CHR ''-'' \<notin> set i then ebind (py_int_exn i) (\<lambda>n. Inr [n])
      else ebind (emap py_int_exn (split_on (CHR ''-'') i)) (\<lambda>ns.
        case ns of [l, h] \<Rightarrow> Inr [l..h]
          | _ \<Rightarrow> Inl (ValueError ''too many values to unpack (expected 2)'')))"

definition expand_ports :: "string \<Rightarrow> int list result" where
  "expand_ports ports_list = ebind (emap expand_port_item (split_on (CHR '','') ports_list))
     (\<lambda>xss. Inr (concat xss))"

text \<open>One entry of a list of options: absent and empty values stay, a text is parsed, and a value that
  is a list already has no \<open>split\<close>.\<close>

definition parse_entry ::
  "(string \<Rightarrow> config_value result) \<Rightarrow> string \<Rightarrow> config \<Rightarrow> config result" where
  "parse_entry f entry c = (case getconfigval c entry of
       None \<Rightarrow> Inr c
     | Some v \<Rightarrow>
         if \<not> truthy v then Inr c
         else (case v of
             Text s \<Rightarrow> ebind (f s) (\<lambda>x. Inr (setconfigval entry x c))
           | _ \<Rightarrow> Inl (AttributeError ''split'')))"

definition port_value :: "string \<Rightarrow> config_value result" where
  "port_value s = ebind (expand_ports s) (\<lambda>ps. Inr (Ints ps))"

definition string_value :: "string \<Rightarrow> config_value result" where
  "string_value s = Inr (Texts (map strip (split_on (CHR '','') s)))"

definition id_value :: "string \<Rightarrow> config_value result" where
  "id_value s = ebind (emap py_int_exn (split_on (CHR '','') s)) (\<lambda>ids. Inr (Ints ids))"

definition lower_keys :: "(string \<times> config_value) list \<Rightarrow> config" where
  "lower_keys items = fold (\<lambda>(k, v). dset (lower k) v) items []"

definition configure :: "(string \<times> config_value) list \<Rightarrow> string list \<Rightarrow> string list \<Rightarrow>
    string list \<Rightarrow> config result" where
  "configure items portlists stringlists idlists =
     ebind (efold (parse_entry port_value) portlists (lower_keys items)) (\<lambda>c1.
     ebind (efold (parse_entry string_value) stringlists c1) (\<lambda>c2.
     efold (parse_entry id_value) idlists c2))"

definition reconfigure :: "string list \<Rightarrow> string list \<Rightarrow> config \<Rightarrow> config result" where
  "reconfigure portlists stringlists c = configure c portlists stringlists []"

declare truthy.simps [py_eval] is_configured_def [py_eval] getconfigval_def [py_eval]
  setconfigval_def [py_eval] expand_port_item_def [py_eval] expand_ports_def [py_eval]
  parse_entry_def [py_eval] port_value_def [py_eval] string_value_def [py_eval]
  id_value_def [py_eval] lower_keys_def [py_eval] configure_def [py_eval]
  fuzzy_true_def [py_eval] fuzzy_false_def [py_eval] is_set_def [py_eval] is_clear_def [py_eval]

section \<open>Lemmas\<close>

lemma getconfigval_dget [simp]: "getconfigval c opt = dget c (lower opt)"
  by (simp add: getconfigval_def is_configured_def dkeys_iff)

lemma getconfigval_set:
  "dget (setconfigval opt v c) (lower o') = (if lower o' = lower opt then Some v else dget c (lower o'))"
  by (simp add: setconfigval_def dict_simps)

text \<open>The ports an item of a list stands for.\<close>

definition item_covers :: "string \<Rightarrow> int \<Rightarrow> bool" where
  "item_covers i p \<longleftrightarrow> (if CHR ''-'' \<notin> set i then py_int i = Some p
     else (\<exists>l h. map py_int (split_on (CHR ''-'') i) = [Some l, Some h] \<and> l \<le> p \<and> p \<le> h))"

lemma py_int_exn_Inr: "py_int_exn s = Inr n \<longleftrightarrow> py_int s = Some n"
  by (simp add: py_int_exn_def split: option.split)

lemma emap_py_int: "emap py_int_exn xs = Inr ns \<longleftrightarrow> map py_int xs = map Some ns"
proof (induction xs arbitrary: ns)
  case Nil
  then show ?case by auto
next
  case (Cons x xs)
  then show ?case by (cases ns) (auto simp: ebind_Inr_iff py_int_exn_Inr)
qed

lemma expand_port_item_Inr:
  assumes "expand_port_item i = Inr ps"
  shows "p \<in> set ps \<longleftrightarrow> item_covers i p"
proof (cases "CHR ''-'' \<in> set i")
  case False
  with assms show ?thesis
    by (auto simp: expand_port_item_def item_covers_def ebind_Inr_iff py_int_exn_Inr)
next
  case True
  with assms obtain ns where ns: "map py_int (split_on (CHR ''-'') i) = map Some ns"
    and b: "(case ns of [l, h] \<Rightarrow> Inr [l..h]
      | _ \<Rightarrow> Inl (ValueError ''too many values to unpack (expected 2)'')) = Inr ps"
    by (auto simp: expand_port_item_def ebind_Inr_iff emap_py_int)
  from b obtain l h where "ns = [l, h]" "ps = [l..h]"
    by (auto split: list.splits)
  with True ns show ?thesis by (simp add: item_covers_def)
qed

lemma emap_expand_items:
  "emap expand_port_item is = Inr xss \<Longrightarrow>
    (\<exists>xs \<in> set xss. p \<in> set xs) \<longleftrightarrow> (\<exists>i \<in> set is. item_covers i p)"
  by (induction "is" arbitrary: xss) (auto simp: ebind_Inr_iff expand_port_item_Inr)

lemma expand_ports_Inr:
  assumes "expand_ports s = Inr ps"
  shows "p \<in> set ps \<longleftrightarrow> (\<exists>i \<in> set (split_on (CHR '','') s). item_covers i p)"
  using assms emap_expand_items by (auto simp: expand_ports_def ebind_Inr_iff)

lemma parse_entry_other:
  "parse_entry f e c = Inr c' \<Longrightarrow> lower e \<noteq> k \<Longrightarrow> dget c' k = dget c k"
  by (auto simp: parse_entry_def setconfigval_def dict_simps ebind_Inr_iff
      split: option.splits if_splits config_value.splits)

lemma parse_entry_text:
  "parse_entry f e c = Inr c' \<Longrightarrow> dget c (lower e) = Some (Text s) \<Longrightarrow> s \<noteq> [] \<Longrightarrow>
    \<exists>v. f s = Inr v \<and> dget c' (lower e) = Some v"
  by (auto simp: parse_entry_def setconfigval_def dict_simps ebind_Inr_iff split: if_splits)

lemma efold_parse_other:
  "efold (parse_entry f) es c = Inr c' \<Longrightarrow> \<forall>e \<in> set es. lower e \<noteq> k \<Longrightarrow> dget c' k = dget c k"
  by (induction es arbitrary: c) (auto simp: ebind_Inr_iff parse_entry_other)

text \<open>The lists \<open>DiverterBase.__init__\<close> asks for.\<close>

definition diverter_portlists :: "string list" where
  "diverter_portlists = [''BlackListPortsTCP'', ''BlackListPortsUDP'']"

definition configure_diverter :: "(string \<times> config_value) list \<Rightarrow> config result" where
  "configure_diverter items = configure items diverter_portlists [''HostBlackList''] [''BlackListIDsICMP'']"

lemma diverter_names:
  "lower ''BlackListPortsTCP'' = ''blacklistportstcp''" "lower ''BlackListPortsUDP'' = ''blacklistportsudp''"
  "lower ''HostBlackList'' = ''hostblacklist''" "lower ''BlackListIDsICMP'' = ''blacklistidsicmp''"
  by (simp_all add: py_eval)

text \<open>A black list of ports means what it says: after the diverter's configuration is read, the list
  under \<open>BlackListPortsTCP\<close> holds exactly the single ports and the inclusive ranges of the text, and
  no option outside the four parsed lists has changed.\<close>

theorem port_blacklist_parsed:
  assumes c: "configure_diverter items = Inr c"
    and t: "dget (lower_keys items) ''blacklistportstcp'' = Some (Text s)" and s: "s \<noteq> []"
  shows "(\<exists>ps. getconfigval c ''BlackListPortsTCP'' = Some (Ints ps) \<and>
      (\<forall>p. p \<in> set ps \<longleftrightarrow> (\<exists>i \<in> set (split_on (CHR '','') s). item_covers i p))) \<and>
    (\<forall>k. k \<notin> {''blacklistportstcp'', ''blacklistportsudp'', ''hostblacklist'', ''blacklistidsicmp''} \<longrightarrow>
      dget c k = dget (lower_keys items) k)"
proof -
  let ?c0 = "lower_keys items"
  from c obtain c1 c2 c3 where p1: "parse_entry port_value ''BlackListPortsTCP'' ?c0 = Inr c1"
    and p2: "parse_entry port_value ''BlackListPortsUDP'' c1 = Inr c2"
    and p3: "efold (parse_entry string_value) [''HostBlackList''] c2 = Inr c3"
    and p4: "efold (parse_entry id_value) [''BlackListIDsICMP''] c3 = Inr c"
    by (auto simp: configure_diverter_def configure_def diverter_portlists_def ebind_Inr_iff)
  note o = parse_entry_other [OF p2] efold_parse_other [OF p3] efold_parse_other [OF p4]
    parse_entry_other [OF p1]
  from parse_entry_text [OF p1 _ s] t obtain v where v: "port_value s = Inr v"
    "dget c1 ''blacklistportstcp'' = Some v" by (auto simp: diverter_names)
  from v(1) obtain ps where ps: "expand_ports s = Inr ps" "v = Ints ps"
    by (auto simp: port_value_def ebind_Inr_iff)
  have "dget c ''blacklistportstcp'' = dget c1 ''blacklistportstcp''"
    using o(1-3) by (simp add: diverter_names)
  with v ps expand_ports_Inr [OF ps(1)]
  have "\<exists>ps. getconfigval c ''BlackListPortsTCP'' = Some (Ints ps) \<and>
      (\<forall>p. p \<in> set ps \<longleftrightarrow> (\<exists>i \<in> set (split_on (CHR '','') s). item_covers i p))"
    by (auto simp: diverter_names)
  moreover have "dget c k = dget ?c0 k"
    if "k \<notin> {''blacklistportstcp'', ''blacklistportsudp'', ''hostblacklist'', ''blacklistidsicmp''}" for k
    using o [of k] that by (auto simp: diverter_names)
  ultimately show ?thesis by blast
qed

definition demo_items :: "(string \<times> config_value) list" where
  "demo_items = [(''RedirectAllTraffic'', Text ''Yes''), (''BlackListPortsTCP'', Text ''139, 8000-8003'')]"

theorem port_blacklist_parsed_witness:
  "\<exists>c ps. configure_diverter demo_items = Inr c \<and> getconfigval c ''BlackListPortsTCP'' = Some (Ints ps) \<and>
    8003 \<in> set ps \<and> 8004 \<notin> set ps"
proof -
  have c: "configure_diverter demo_items = Inr [(''redirectalltraffic'', Text ''Yes''),
      (''blacklistportstcp'', Ints [139, 8000, 8001, 8002, 8003])]"
    by (simp add: py_eval configure_diverter_def diverter_portlists_def demo_items_def upto.simps)
  have t: "dget (lower_keys demo_items) ''blacklistportstcp'' = Some (Text ''139, 8000-8003'')"
    by (simp add: py_eval demo_items_def)
  have "item_covers '' 8000-8003'' p \<longleftrightarrow> 8000 \<le> p \<and> p \<le> 8003" "item_covers ''139'' p \<longleftrightarrow> p = 139" for p
    by (auto simp: item_covers_def py_eval)
  with port_blacklist_parsed [OF c t] c show ?thesis by (auto simp: py_eval)
qed

end
