(* ===== verification/Listeners.thy ===== *)
theory Listeners
  imports FnConfig
begin

text \<open>
  \<open>ListenerMeta\<close>, \<open>ListenerPorts\<close> and \<open>parse_listeners_config\<close> of
  \<open>fakenet/diverters/diverterbase.py\<close>: which port a listener is bound to, and its process and host
  filters. A \<open>ListenerMeta\<close> is updated through its setters before it is added to the table; the one
  setter called afterwards is a store into the table here. The replacement-field language of
  \<open>str.format\<close> is the argument \<open>fmt\<close>, which returns the exception it raises as \<open>Inl\<close>.
\<close>

section \<open>ListenerMeta\<close>

record ListenerMeta =
  l_proto :: string
  l_port :: int
  l_hidden :: bool
  proc_bl :: "string list option"
  proc_wl :: "string list option"
  host_bl :: "string list option"
  host_wl :: "string list option"
  cmd_template :: "string option"

definition new_listener :: "string \<Rightarrow> int \<Rightarrow> bool \<Rightarrow> ListenerMeta" where
  "new_listener proto port hidden = \<lparr>l_proto = proto, l_port = port, l_hidden = hidden, proc_bl = None,
     proc_wl = None, host_bl = None, host_wl = None, cmd_template = None\<rparr>"

definition splitBlackWhiteList :: "string \<Rightarrow> string list" where
  "splitBlackWhiteList configtext = map strip (split_on (CHR '','') configtext)"

text \<open>A list that is absent or empty counts as not given.\<close>

definition given :: "string list option \<Rightarrow> bool" where
  "given l \<longleftrightarrow> l \<noteq> None \<and> l \<noteq> Some []"

text \<open>The object is left with both lists removed when the exception is raised.\<close>

definition validateBlackWhite :: "ListenerMeta \<Rightarrow> exn option \<times> ListenerMeta" where
  "validateBlackWhite m =
     (if given (proc_wl m) \<and> given (proc_bl m)
      then (Some ListenerBlackWhiteList, m\<lparr>proc_wl := None, proc_bl := None\<rparr>)
      else if given (host_wl m) \<and> given (host_bl m)
      then (Some ListenerBlackWhiteList, m\<lparr>host_wl := None, host_bl := None\<rparr>)
      else (None, m))"

definition setProcessWhitelist :: "string \<Rightarrow> ListenerMeta \<Rightarrow> exn option \<times> ListenerMeta" where
  "setProcessWhitelist s m = validateBlackWhite (m\<lparr>proc_wl := Some (splitBlackWhiteList s)\<rparr>)"

definition setProcessBlacklist :: "string \<Rightarrow> ListenerMeta \<Rightarrow> exn option \<times> ListenerMeta" where
  "setProcessBlacklist s m = validateBlackWhite (m\<lparr>proc_bl := Some (splitBlackWhiteList s)\<rparr>)"

definition setHostWhitelist :: "string \<Rightarrow> ListenerMeta \<Rightarrow> exn option \<times> ListenerMeta" where
  "setHostWhitelist s m = validateBlackWhite (m\<lparr>host_wl := Some (splitBlackWhiteList s)\<rparr>)"

definition setHostBlacklist :: "string \<Rightarrow> ListenerMeta \<Rightarrow> exn option \<times> ListenerMeta" where
  "setHostBlacklist s m = validateBlackWhite (m\<lparr>host_bl := Some (splitBlackWhiteList s)\<rparr>)"

definition setExecuteCmd :: "string \<Rightarrow> ListenerMeta \<Rightarrow> ListenerMeta" where
  "setExecuteCmd s m = m\<lparr>cmd_template := Some s\<rparr>"

section \<open>ListenerPorts\<close>

type_synonym listener_ports = "(string, (int, ListenerMeta) dict) dict"

definition getListenerMeta :: "listener_ports \<Rightarrow> string \<Rightarrow> int \<Rightarrow> ListenerMeta option" where
  "getListenerMeta ps proto port = (case dget ps proto of None \<Rightarrow> None | Some d \<Rightarrow> dget d port)"

definition addListener :: "ListenerMeta \<Rightarrow> listener_ports \<Rightarrow> listener_ports result" where
  "addListener l ps =
     (let ps1 = (if dget ps (l_proto l) = None then dset (l_proto l) [] ps else ps) in
      case dget ps1 (l_proto l) of
        None \<Rightarrow> Inl (KeyError (l_proto l))
      | Some d \<Rightarrow>
          if dget d (l_port l) \<noteq> None then Inl ListenerAlreadyBoundThere
          else Inr (dset (l_proto l) (dset (l_port l) l d) ps1))"

definition isListener :: "listener_ports \<Rightarrow> string \<Rightarrow> int \<Rightarrow> bool" where
  "isListener ps proto port \<longleftrightarrow> getListenerMeta ps proto port \<noteq> None"

definition isHidden :: "listener_ports \<Rightarrow> string \<Rightarrow> int \<Rightarrow> bool" where
  "isHidden ps proto port = (case getListenerMeta ps proto port of None \<Rightarrow> False | Some l \<Rightarrow> l_hidden l)"

definition getPortList :: "listener_ports \<Rightarrow> string \<Rightarrow> int list" where
  "getPortList ps proto = (case dget ps proto of None \<Rightarrow> [] | Some d \<Rightarrow> dkeys d)"

definition intersectsWithPorts :: "listener_ports \<Rightarrow> string \<Rightarrow> int list \<Rightarrow> int set" where
  "intersectsWithPorts ps proto ports = set ports \<inter> set (getPortList ps proto)"

definition getExecuteCmd :: "listener_ports \<Rightarrow> string \<Rightarrow> int \<Rightarrow> string option" where
  "getExecuteCmd ps proto port = (case getListenerMeta ps proto port of None \<Rightarrow> None
     | Some l \<Rightarrow> cmd_template l)"

definition isWhiteListMiss :: "string \<Rightarrow> string list option \<Rightarrow> bool" where
  "isWhiteListMiss thing whitelist = (if \<not> given whitelist then False else thing \<notin> set (the whitelist))"

definition isBlackListHit :: "string \<Rightarrow> string list option \<Rightarrow> bool" where
  "isBlackListHit thing blacklist = (if \<not> given blacklist then False else thing \<in> set (the blacklist))"

definition isProcessWhiteListMiss :: "listener_ports \<Rightarrow> string \<Rightarrow> int \<Rightarrow> string \<Rightarrow> bool" where
  "isProcessWhiteListMiss ps proto port proc = (case getListenerMeta ps proto port of None \<Rightarrow> False
     | Some l \<Rightarrow> isWhiteListMiss proc (proc_wl l))"

definition isProcessBlackListHit :: "listener_ports \<Rightarrow> string \<Rightarrow> int \<Rightarrow> string \<Rightarrow> bool" where
  "isProcessBlackListHit ps proto port proc = (case getListenerMeta ps proto port of None \<Rightarrow> False
     | Some l \<Rightarrow> isBlackListHit proc (proc_bl l))"

definition isHostWhiteListMiss :: "listener_ports \<Rightarrow> string \<Rightarrow> int \<Rightarrow> string \<Rightarrow> bool" where
  "isHostWhiteListMiss ps proto port host = (case getListenerMeta ps proto port of None \<Rightarrow> False
     | Some l \<Rightarrow> isWhiteListMiss host (host_wl l))"

definition isHostBlackListHit :: "listener_ports \<Rightarrow> string \<Rightarrow> int \<Rightarrow> string \<Rightarrow> bool" where
  "isHostBlackListHit ps proto port host = (case getListenerMeta ps proto port of None \<Rightarrow> False
     | Some l \<Rightarrow> isBlackListHit host (host_bl l))"

section \<open>ExecuteCmd templates\<close>

type_synonym formatter = "string \<Rightarrow> (string, string) dict \<Rightarrow> string result"

definition show_pid :: "int option \<Rightarrow> string" where
  "show_pid p = (case p of None \<Rightarrow> ''None'' | Some n \<Rightarrow> show_int n)"

definition show_text :: "string option \<Rightarrow> string" where
  "show_text s = (case s of None \<Rightarrow> ''None'' | Some t \<Rightarrow> t)"

text \<open>Only a \<open>KeyError\<close> is caught.\<close>

definition build_cmd_from :: "formatter \<Rightarrow> string \<Rightarrow> int option \<Rightarrow> string option \<Rightarrow> string \<Rightarrow> int \<Rightarrow>
    string \<Rightarrow> int \<Rightarrow> string option result" where
  "build_cmd_from fmt tmpl pid comm src_ip sport dst_ip dport =
     (case fmt tmpl [(''pid'', show_pid pid), (''procname'', show_text comm), (''src_addr'', src_ip),
         (''src_port'', show_int sport), (''dst_addr'', dst_ip), (''dst_port'', show_int dport)] of
        Inl (KeyError _) \<Rightarrow> Inr None
      | Inl e \<Rightarrow> Inl e
      | Inr cmd \<Rightarrow> Inr (Some cmd))"

section \<open>Parsing the listener sections\<close>

type_synonym listener_config = "(string, string) dict"

text \<open>A setter of \<open>ListenerMeta\<close> as a step that raises.\<close>

definition raising :: "(ListenerMeta \<Rightarrow> exn option \<times> ListenerMeta) \<Rightarrow> ListenerMeta \<Rightarrow> ListenerMeta result" where
  "raising f m = (case f m of (Some e, _) \<Rightarrow> Inl e | (None, m') \<Rightarrow> Inr m')"

definition apply_filter :: "listener_config \<Rightarrow> string \<Rightarrow> string \<Rightarrow>
    (string \<Rightarrow> ListenerMeta \<Rightarrow> exn option \<times> ListenerMeta) \<Rightarrow>
    (string \<Rightarrow> ListenerMeta \<Rightarrow> exn option \<times> ListenerMeta) \<Rightarrow> ListenerMeta \<Rightarrow> ListenerMeta result" where
  "apply_filter lc white black set_white set_black l =
     (case (dget lc white, dget lc black) of
        (Some _, Some _) \<Rightarrow> Inl (SystemExit 1)
      | (Some w, None) \<Rightarrow> raising (set_white w) l
      | (None, Some b) \<Rightarrow> raising (set_black b) l
      | (None, None) \<Rightarrow> Inr l)"

definition listener_of :: "listener_config \<Rightarrow> int \<Rightarrow> ListenerMeta result" where
  "listener_of lc port =
     (let hidden = (case dget lc ''hidden'' of None \<Rightarrow> False | Some h \<Rightarrow> lower h = ''true'') in
      case dget lc ''protocol'' of
        None \<Rightarrow> Inl (SystemExit 1)
      | Some p \<Rightarrow> (let protocol = upper p in
          if protocol \<notin> set [''TCP'', ''UDP''] then Inl (SystemExit 1)
          else ebind (apply_filter lc ''processwhitelist'' ''processblacklist'' setProcessWhitelist
                  setProcessBlacklist (new_listener protocol port hidden))
            (apply_filter lc ''hostwhitelist'' ''hostblacklist'' setHostWhitelist setHostBlacklist)))"

definition add_execute_cmd :: "formatter \<Rightarrow> listener_config \<Rightarrow> ListenerMeta \<Rightarrow> listener_ports \<Rightarrow>
    listener_ports result" where
  "add_execute_cmd fmt lc l ps = (case dget lc ''executecmd'' of
       None \<Rightarrow> Inr ps
     | Some x \<Rightarrow> (let template = strip x in
         ebind (build_cmd_from fmt template (Some 0) (Some ''test'') ''1.2.3.4'' 12345 ''4.3.2.1'' (l_port l))
           (\<lambda>test.
             if test = None \<or> test = Some [] then Inl (SystemExit 1)
             else Inr (case dget ps (l_proto l) of
                 None \<Rightarrow> ps
               | Some d \<Rightarrow> dset (l_proto l) (dset (l_port l) (setExecuteCmd template l) d) ps))))"

definition parse_listener :: "formatter \<Rightarrow> string \<times> listener_config \<Rightarrow> listener_ports \<Rightarrow>
    listener_ports result" where
  "parse_listener fmt = (\<lambda>(name, lc) ps. case dget lc ''port'' of
       None \<Rightarrow> Inr ps
     | Some text \<Rightarrow>
         ebind (py_int_exn text) (\<lambda>port.
         ebind (listener_of lc port) (\<lambda>l.
         ebind (addListener l ps) (add_execute_cmd fmt lc l))))"

definition parse_listeners_config :: "formatter \<Rightarrow> (string, listener_config) dict \<Rightarrow> listener_ports result" where
  "parse_listeners_config fmt cfg = efold (parse_listener fmt) cfg []"

section \<open>PidCommDest\<close>

record PidCommDest =
  pc_pid :: "int option"
  pc_comm :: string
  pc_proto :: string
  pc_ip :: string
  pc_port :: string

text \<open>\<open>x or default\<close> for text.\<close>

definition or_text :: "string option \<Rightarrow> string \<Rightarrow> string" where
  "or_text x d = (case x of None \<Rightarrow> d | Some s \<Rightarrow> if s = [] then d else s)"

definition new_pid_comm_dest :: "int option \<Rightarrow> string option \<Rightarrow> string option \<Rightarrow> string option \<Rightarrow> int option \<Rightarrow>
    PidCommDest" where
  "new_pid_comm_dest pid comm proto ip port = \<lparr>pc_pid = pid, pc_comm = or_text comm ''program name unknown'',
     pc_proto = or_text proto ''unknown protocol'', pc_ip = or_text ip ''unknown IP'',
     pc_port = or_text (Some (show_pid port)) ''port unknown/not applicable''\<rparr>"

definition isDistinct :: "PidCommDest \<Rightarrow> PidCommDest option \<Rightarrow> string list \<Rightarrow> bool" where
  "isDistinct pc prev bound_ips = (case prev of
       None \<Rightarrow> True
     | Some q \<Rightarrow> pc_pid pc \<noteq> pc_pid q \<or> pc_comm pc \<noteq> pc_comm q \<or> pc_proto pc \<noteq> pc_proto q \<or>
         pc_port pc \<noteq> pc_port q \<or> (pc_ip pc \<noteq> pc_ip q \<and> pc_ip pc \<notin> set bound_ips))"

section \<open>Lemmas\<close>

definition exclusive :: "ListenerMeta \<Rightarrow> bool" where
  "exclusive l \<longleftrightarrow> \<not> (given (proc_wl l) \<and> given (proc_bl l)) \<and> \<not> (given (host_wl l) \<and> given (host_bl l))"

lemmas setter_defs = setProcessWhitelist_def setProcessBlacklist_def setHostWhitelist_def
  setHostBlacklist_def

lemma raising_Inr:
  assumes "raising f m = Inr m'" "f = setProcessWhitelist s \<or> f = setProcessBlacklist s \<or>
    f = setHostWhitelist s \<or> f = setHostBlacklist s"
  shows "exclusive m' \<and> l_proto m' = l_proto m \<and> l_port m' = l_port m \<and> l_hidden m' = l_hidden m"
  using assms by (auto simp: raising_def setter_defs validateBlackWhite_def exclusive_def split: if_splits)

lemma listener_of_Inr:
  assumes "listener_of lc port = Inr l"
  shows "exclusive l \<and> l_proto l \<in> {''TCP'', ''UDP''} \<and> l_port l = port \<and>
    Some (l_proto l) = map_option upper (dget lc ''protocol'')"
proof -
  have "exclusive (new_listener p q h)" for p q h by (simp add: new_listener_def exclusive_def given_def)
  with assms show ?thesis
    by (auto simp: listener_of_def apply_filter_def Let_def ebind_Inr_iff new_listener_def
        dest!: raising_Inr split: option.splits if_splits)
qed

text \<open>Every entry is filed under its own protocol and port, with exclusive filters.\<close>

definition ports_ok :: "listener_ports \<Rightarrow> bool" where
  "ports_ok ps \<longleftrightarrow> (\<forall>proto port l. getListenerMeta ps proto port = Some l \<longrightarrow>
     l_proto l = proto \<and> l_port l = port \<and> proto \<in> {''TCP'', ''UDP''} \<and> exclusive l)"

lemma addListener_Inr:
  assumes "addListener l ps = Inr ps'"
  shows "getListenerMeta ps (l_proto l) (l_port l) = None \<and>
    getListenerMeta ps' proto port =
      (if proto = l_proto l \<and> port = l_port l then Some l else getListenerMeta ps proto port)"
  using assms
  by (auto simp: addListener_def Let_def getListenerMeta_def dict_simps split: option.splits if_splits)

lemma add_execute_cmd_Inr:
  assumes x: "add_execute_cmd fmt lc l ps = Inr ps'" and g: "getListenerMeta ps (l_proto l) (l_port l) = Some l"
  shows "\<exists>l'. (l' = l \<or> (\<exists>t. l' = setExecuteCmd t l)) \<and> (\<forall>proto port. getListenerMeta ps' proto port =
      (if proto = l_proto l \<and> port = l_port l then Some l' else getListenerMeta ps proto port))"
proof (cases "dget lc ''executecmd''")
  case None
  with x g show ?thesis by (intro exI [of _ l]) (auto simp: add_execute_cmd_def)
next
  case (Some t)
  from g obtain d where d: "dget ps (l_proto l) = Some d" "dget d (l_port l) = Some l"
    by (auto simp: getListenerMeta_def split: option.splits)
  with x Some have ps': "ps' = dset (l_proto l) (dset (l_port l) (setExecuteCmd (strip t) l) d) ps"
    by (auto simp: add_execute_cmd_def Let_def ebind_Inr_iff split: if_splits)
  show ?thesis
    by (intro exI [of _ "setExecuteCmd (strip t) l"]) (auto simp: ps' getListenerMeta_def dict_simps d)
qed

lemma parse_listener_Inr:
  assumes p: "parse_listener fmt (name, lc) ps = Inr ps'" and t: "dget lc ''port'' = Some t"
  shows "\<exists>l port l'. py_int t = Some port \<and> listener_of lc port = Inr l \<and>
    (l' = l \<or> (\<exists>t. l' = setExecuteCmd t l)) \<and> getListenerMeta ps (l_proto l) (l_port l) = None \<and>
    (\<forall>q r. getListenerMeta ps' q r =
      (if q = l_proto l \<and> r = l_port l then Some l' else getListenerMeta ps q r))"
proof -
  from p t obtain port l ps1 where port: "py_int t = Some port" and l: "listener_of lc port = Inr l"
    and a: "addListener l ps = Inr ps1" and x: "add_execute_cmd fmt lc l ps1 = Inr ps'"
    by (auto simp: parse_listener_def ebind_Inr_iff py_int_exn_Inr)
  note a' = addListener_Inr [OF a]
  have 1: "getListenerMeta ps1 (l_proto l) (l_port l) = Some l" using a' [of "l_proto l" "l_port l"] by simp
  obtain l' where l': "l' = l \<or> (\<exists>t. l' = setExecuteCmd t l)" and
    g: "\<forall>proto port. getListenerMeta ps' proto port =
      (if proto = l_proto l \<and> port = l_port l then Some l' else getListenerMeta ps1 proto port)"
    using add_execute_cmd_Inr [OF x 1] by blast
  have "\<forall>q r. getListenerMeta ps' q r =
      (if q = l_proto l \<and> r = l_port l then Some l' else getListenerMeta ps q r)"
    using a' g by auto
  with port l l' a' show ?thesis by blast
qed

lemma exclusive_setExecuteCmd: "exclusive (setExecuteCmd t l) = exclusive l"
  by (simp add: exclusive_def setExecuteCmd_def)

lemma parse_listener_ok:
  assumes "parse_listener fmt x ps = Inr ps'" "ports_ok ps"
  shows "ports_ok ps'"
proof -
  obtain name lc where x: "x = (name, lc)" by force
  show ?thesis
  proof (cases "dget lc ''port''")
    case None
    with assms x show ?thesis by (simp add: parse_listener_def)
  next
    case (Some t)
    from parse_listener_Inr [OF assms(1) [unfolded x] Some] obtain port l l' where
      l: "listener_of lc port = Inr l" "l' = l \<or> (\<exists>t. l' = setExecuteCmd t l)" and
      g: "\<forall>q r. getListenerMeta ps' q r =
        (if q = l_proto l \<and> r = l_port l then Some l' else getListenerMeta ps q r)"
      by blast
    from listener_of_Inr [OF l(1)] l(2) have "exclusive l'" "l_proto l' = l_proto l" "l_port l' = l_port l"
      "l_proto l \<in> {''TCP'', ''UDP''}"
      by (auto simp: exclusive_setExecuteCmd) (auto simp: setExecuteCmd_def)
    with assms(2) g show ?thesis by (auto simp: ports_ok_def)
  qed
qed

lemma parse_listener_mono:
  assumes "parse_listener fmt x ps = Inr ps'" "getListenerMeta ps q r = Some l"
  shows "getListenerMeta ps' q r = Some l"
proof -
  obtain name lc where x: "x = (name, lc)" by force
  show ?thesis
  proof (cases "dget lc ''port''")
    case None
    with assms x show ?thesis by (simp add: parse_listener_def)
  next
    case (Some t)
    from parse_listener_Inr [OF assms(1) [unfolded x] Some] obtain k l' :: ListenerMeta where
      "getListenerMeta ps (l_proto k) (l_port k) = None" and
      "\<forall>q r. getListenerMeta ps' q r =
        (if q = l_proto k \<and> r = l_port k then Some l' else getListenerMeta ps q r)"
      by blast
    with assms(2) show ?thesis by auto
  qed
qed

lemma efold_parse_mono:
  "efold (parse_listener fmt) cfg ps = Inr ps' \<Longrightarrow> getListenerMeta ps q r = Some l \<Longrightarrow>
    getListenerMeta ps' q r = Some l"
  by (induction cfg arbitrary: ps) (auto simp: ebind_Inr_iff dest: parse_listener_mono)

lemma efold_parse_entry:
  assumes "efold (parse_listener fmt) cfg ps = Inr ps'" "(name, lc) \<in> set cfg" "dget lc ''port'' = Some t"
  shows "\<exists>port proto l. py_int t = Some port \<and> map_option upper (dget lc ''protocol'') = Some proto \<and>
    getListenerMeta ps' proto port = Some l"
  using assms
proof (induction cfg arbitrary: ps)
  case (Cons x cfg)
  from Cons.prems(1) obtain ps1 where p: "parse_listener fmt x ps = Inr ps1"
    and r: "efold (parse_listener fmt) cfg ps1 = Inr ps'" by (auto simp: ebind_Inr_iff)
  show ?case
  proof (cases "x = (name, lc)")
    case True
    from parse_listener_Inr [OF p [unfolded True] Cons.prems(3)] obtain port l l' where
      *: "py_int t = Some port" "listener_of lc port = Inr l" and
      g: "\<forall>q r. getListenerMeta ps1 q r =
        (if q = l_proto l \<and> r = l_port l then Some l' else getListenerMeta ps q r)"
      by blast
    from g have "getListenerMeta ps1 (l_proto l) (l_port l) = Some l'" by simp
    from efold_parse_mono [OF r this] * listener_of_Inr [OF *(2)] show ?thesis
      by (intro exI [of _ port] exI [of _ "l_proto l"] exI [of _ l']) simp
  next
    case False
    with Cons r show ?thesis by auto
  qed
qed simp

text \<open>The table built from the configuration is consistent: every listener is filed under its own
  protocol and port, the protocol is TCP or UDP, no listener has both a black and a white list of a
  kind, and every section with a port has a listener bound to that port. (Two sections on one
  port, or a wrong protocol, end in the exception or exit of the code instead.)\<close>

theorem listener_table_consistent:
  assumes "parse_listeners_config fmt cfg = Inr ps"
  shows "ports_ok ps \<and> (\<forall>(name, lc) \<in> set cfg. dget lc ''port'' \<noteq> None \<longrightarrow>
    (\<exists>port proto. py_int (the (dget lc ''port'')) = Some port \<and>
      map_option upper (dget lc ''protocol'') = Some proto \<and> isListener ps proto port))"
proof -
  have "ports_ok []" by (simp add: ports_ok_def getListenerMeta_def dict_simps)
  with assms have "ports_ok ps"
    unfolding parse_listeners_config_def by (rule efold_invariant) (auto intro: parse_listener_ok)
  with assms show ?thesis
    using efold_parse_entry [of fmt cfg "[]" ps]
    by (fastforce simp: parse_listeners_config_def isListener_def)
qed

definition demo_listeners :: "(string, listener_config) dict" where
  "demo_listeners = [(''rawtcp'', [(''port'', ''1337''), (''protocol'', ''tcp'')]),
     (''http'', [(''port'', ''80''), (''protocol'', ''TCP''), (''hidden'', ''True''),
        (''processblacklist'', ''java.exe, svc.exe'')])]"

definition demo_ports :: listener_ports where
  "demo_ports = [(''TCP'', [(1337, new_listener ''TCP'' 1337 False),
     (80, (new_listener ''TCP'' 80 True)\<lparr>proc_bl := Some [''java.exe'', ''svc.exe'']\<rparr>)])]"

lemma demo_listeners_parse: "parse_listeners_config fmt demo_listeners = Inr demo_ports"
  by (simp add: parse_listeners_config_def demo_listeners_def parse_listener_def listener_of_def
      apply_filter_def raising_def setter_defs validateBlackWhite_def given_def splitBlackWhiteList_def
      addListener_def add_execute_cmd_def new_listener_def demo_ports_def py_eval py_int_exn_def)

theorem listener_table_consistent_witness: "isListener demo_ports ''TCP'' 1337"
  using listener_table_consistent [OF demo_listeners_parse [of "\<lambda>_ _. Inr []"]]
  by (auto simp: demo_listeners_def py_eval)

end
