(* ===== verification/FnPacket.thy ===== *)
theory FnPacket
  imports IpAddress
begin

text \<open>
  \<open>PacketCtx\<close> of \<open>fakenet/diverters/fnpacket.py\<close>: what the diverters know of a packet, its endpoint
  keys and the setters that mangle it. The header parser \<open>dpkt\<close> is third-party: the two functions of a
  \<open>dpkt\<close> record stand for \<open>dpkt.ip.IP\<close> and \<open>dpkt.ip6.IP6\<close>, and a view is what the code reads of the
  object they return. Serialising the mangled header again is left to it too.
\<close>

section \<open>Views of parsed headers\<close>

type_synonym byte = "8 word"

text \<open>The transport header; \<open>None\<close> when \<open>dpkt\<close> left the payload as bytes, which have no such
  attributes.\<close>

record transport =
  t_sum :: int
  t_sport :: int
  t_dport :: int
  t_flags :: int

record ip_view =
  v_hl :: int
  v_proto :: int
  v_sum :: int
  v_src :: "byte list"
  v_dst :: "byte list"
  v_data :: "transport option"
  v_icmp_id :: "int option"

record dpkt =
  dpkt_ip :: "byte list \<Rightarrow> ip_view result"
  dpkt_ip6 :: "byte list \<Rightarrow> ip_view result"

section \<open>PacketCtx\<close>

text \<open>The attributes start as \<open>None\<close>; the address fields are set with \<open>is_ip\<close> and the port and key
  fields with \<open>proto\<close>, and only code guarded by these reads them. Unset fields have arbitrary
  values here.\<close>

record PacketCtx =
  label :: string
  mangled :: bool
  ipver :: int
  is_ip :: bool
  is_icmp :: bool
  proto_num :: "int option"
  proto :: "string option"
  src_ip0 :: string
  src_ip :: string
  dst_ip0 :: string
  dst_ip :: string
  sport0 :: int
  sport :: int
  dport0 :: int
  dport :: int
  skey :: string
  dkey :: string

definition gen_endpoint_key :: "string \<Rightarrow> string \<Rightarrow> int \<Rightarrow> string" where
  "gen_endpoint_key p ip port = ip @ '':'' @ p @ ''/'' @ show_int port"

definition set_src_ip :: "string \<Rightarrow> PacketCtx \<Rightarrow> PacketCtx" where
  "set_src_ip ip p = (if is_ip p then p\<lparr>src_ip := ip, mangled := True\<rparr> else p)"

definition set_dst_ip :: "string \<Rightarrow> PacketCtx \<Rightarrow> PacketCtx" where
  "set_dst_ip ip p = (if is_ip p then p\<lparr>dst_ip := ip, mangled := True\<rparr> else p)"

definition set_sport :: "int \<Rightarrow> PacketCtx \<Rightarrow> PacketCtx" where
  "set_sport n p = (if is_ip p then p\<lparr>sport := n, mangled := True\<rparr> else p)"

definition set_dport :: "int \<Rightarrow> PacketCtx \<Rightarrow> PacketCtx" where
  "set_dport n p = (if is_ip p then p\<lparr>dport := n, mangled := True\<rparr> else p)"

section \<open>Parsing\<close>

definition handled_protocols :: "(int, string) dict" where
  "handled_protocols = [(6, ''TCP''), (17, ''UDP'')]"

text \<open>\<open>socket.inet_ntoa\<close> accepts four bytes only.\<close>

definition inet_ntoa :: "byte list \<Rightarrow> string result" where
  "inet_ntoa bs = (case bs of
       [a, b, c, d] \<Rightarrow> Inr (show_ipv4 (quad (unat a) (unat b) (unat c) (unat d)))
     | _ \<Rightarrow> Inl (OSError ''packed IP wrong length for inet_ntoa''))"

definition new_packet :: "string \<Rightarrow> int \<Rightarrow> PacketCtx" where
  "new_packet l ver = \<lparr>label = l, mangled = False, ipver = ver, is_ip = False, is_icmp = False,
     proto_num = None, proto = None, src_ip0 = [], src_ip = [], dst_ip0 = [], dst_ip = [], sport0 = 0,
     sport = 0, dport0 = 0, dport = 0, skey = [], dkey = []\<rparr>"

definition parseIpv4 :: "dpkt \<Rightarrow> byte list \<Rightarrow> PacketCtx \<Rightarrow> (PacketCtx \<times> ip_view option) result" where
  "parseIpv4 dp raw p = ebind (dpkt_ip dp raw) (\<lambda>hdr.
     Inr (if v_hl hdr \<ge> 5 then (p\<lparr>is_ip := True, proto_num := Some (v_proto hdr)\<rparr>, Some hdr)
          else (p, None)))"

definition parseIpv6 :: "dpkt \<Rightarrow> byte list \<Rightarrow> PacketCtx \<Rightarrow> (PacketCtx \<times> ip_view option) result" where
  "parseIpv6 dp raw p = ebind (dpkt_ip6 dp raw) (\<lambda>hdr.
     Inr (p\<lparr>is_ip := True, proto_num := Some (v_proto hdr)\<rparr>, Some hdr))"

definition parseIp :: "PacketCtx \<times> ip_view option \<Rightarrow> PacketCtx result" where
  "parseIp = (\<lambda>(p, view). case view of
       None \<Rightarrow> Inr p
     | Some hdr \<Rightarrow>
         ebind (inet_ntoa (v_src hdr)) (\<lambda>s.
         ebind (inet_ntoa (v_dst hdr)) (\<lambda>d.
         (let p1 = p\<lparr>src_ip0 := s, src_ip := s, dst_ip0 := d, dst_ip := d,
                proto := Option.bind (proto_num p) (dget handled_protocols)\<rparr> in
          case proto p1 of
            None \<Rightarrow> Inr p1
          | Some pr \<Rightarrow>
              (case v_data hdr of
                 None \<Rightarrow> Inl (AttributeError ''sum'')
               | Some t \<Rightarrow> Inr (p1\<lparr>sport0 := t_sport t, sport := t_sport t, dport0 := t_dport t,
                   dport := t_dport t, skey := gen_endpoint_key pr s (t_sport t),
                   dkey := gen_endpoint_key pr d (t_dport t)\<rparr>))))))"

definition parseIcmp :: "PacketCtx \<Rightarrow> PacketCtx" where
  "parseIcmp p = p\<lparr>is_icmp := (proto_num p = Some 1)\<rparr>"

text \<open>\<open>((raw[0] & 0xf0) >> 4)\<close>.\<close>

definition ip_version :: "byte list \<Rightarrow> int result" where
  "ip_version raw = (case raw of [] \<Rightarrow> Inl IndexError
     | b # _ \<Rightarrow> Inr (uint (drop_bit 4 b)))"

definition parse_packet :: "dpkt \<Rightarrow> string \<Rightarrow> byte list \<Rightarrow> PacketCtx result" where
  "parse_packet dp l raw = ebind (ip_version raw) (\<lambda>ver. (let p = new_packet l ver in
     ebind (if ver = 4 then parseIpv4 dp raw p
            else if ver = 6 then parseIpv6 dp raw p else Inr (p, None)) (\<lambda>pv.
     ebind (parseIp pv) (\<lambda>p'. Inr (parseIcmp p')))))"

section \<open>Well-formed packets\<close>

definition fresh_packet :: "PacketCtx \<Rightarrow> bool" where
  "fresh_packet p \<longleftrightarrow> \<not> mangled p \<and> src_ip p = src_ip0 p \<and> dst_ip p = dst_ip0 p \<and>
     sport p = sport0 p \<and> dport p = dport0 p \<and>
     (\<forall>pr. proto p = Some pr \<longrightarrow> is_ip p \<and> pr \<in> {''TCP'', ''UDP''} \<and>
        skey p = gen_endpoint_key pr (src_ip p) (sport p) \<and>
        dkey p = gen_endpoint_key pr (dst_ip p) (dport p))"

lemma dget_handled: "dget handled_protocols n = Some pr \<Longrightarrow> pr \<in> {''TCP'', ''UDP''}"
  by (auto simp: handled_protocols_def dget_def split: if_splits)

lemma parseIp_fresh:
  assumes "parseIp (p, v) = Inr p'" "fresh_packet p" "proto p = None" "v \<noteq> None \<longrightarrow> is_ip p"
  shows "fresh_packet p'"
proof (cases v)
  case None
  with assms show ?thesis by (simp add: parseIp_def)
next
  case (Some hdr)
  with assms(1) obtain s d where sd: "inet_ntoa (v_src hdr) = Inr s" "inet_ntoa (v_dst hdr) = Inr d"
    by (auto simp: parseIp_def ebind_Inr_iff)
  show ?thesis
  proof (cases "Option.bind (proto_num p) (dget handled_protocols)")
    case None
    with assms Some sd show ?thesis by (auto simp: parseIp_def Let_def fresh_packet_def)
  next
    case (Some pr)
    then have "pr \<in> {''TCP'', ''UDP''}" by (auto simp: bind_eq_Some_conv dest: dget_handled)
    with assms \<open>v = Some hdr\<close> sd Some show ?thesis
      by (auto simp: parseIp_def Let_def fresh_packet_def split: option.splits)
  qed
qed

lemma parse_packet_fresh:
  assumes "parse_packet dp l raw = Inr p"
  shows "fresh_packet p"
proof -
  from assms obtain ver p0 v p1 where
    v: "(if ver = 4 then parseIpv4 dp raw (new_packet l ver)
      else if ver = 6 then parseIpv6 dp raw (new_packet l ver) else Inr (new_packet l ver, None)) = Inr (p0, v)"
    and p1: "parseIp (p0, v) = Inr p1" and p: "p = parseIcmp p1"
    by (auto simp: parse_packet_def Let_def ebind_Inr_iff)
  from v have "fresh_packet p0 \<and> proto p0 = None \<and> (v \<noteq> None \<longrightarrow> is_ip p0)"
    by (auto simp: parseIpv4_def parseIpv6_def ebind_Inr_iff fresh_packet_def new_packet_def split: if_splits)
  with parseIp_fresh [OF p1] p show ?thesis by (simp add: fresh_packet_def parseIcmp_def)
qed

text \<open>An IPv6 packet never becomes a \<open>PacketCtx\<close>: its addresses have sixteen bytes and
  \<open>socket.inet_ntoa\<close>, which takes four, raises, so every hook fails on it before any decision.\<close>

theorem ipv6_packets_raise:
  assumes "ip_version raw = Inr 6" and "dpkt_ip6 dp raw = Inr hdr" and "length (v_src hdr) = 16"
  shows "parse_packet dp l raw = Inl (OSError ''packed IP wrong length for inet_ntoa'')"
proof -
  have "inet_ntoa (v_src hdr) = Inl (OSError ''packed IP wrong length for inet_ntoa'')"
    using assms(3) by (auto simp: inet_ntoa_def split: list.split)
  with assms(1,2) show ?thesis by (simp add: parse_packet_def parseIpv6_def parseIp_def Let_def)
qed

definition demo_dpkt :: dpkt where
  "demo_dpkt = \<lparr>dpkt_ip = (\<lambda>_. Inl (ValueError [])), dpkt_ip6 = (\<lambda>raw. Inr \<lparr>v_hl = 0, v_proto = 6,
     v_sum = 0, v_src = take 16 (drop 8 raw), v_dst = take 16 (drop 24 raw), v_data = None, v_icmp_id = None\<rparr>)\<rparr>"

theorem ipv6_packets_raise_witness:
  "parse_packet demo_dpkt [] (0x60 # replicate 39 0) = Inl (OSError ''packed IP wrong length for inet_ntoa'')"
  by (rule ipv6_packets_raise [where hdr = "\<lparr>v_hl = 0, v_proto = 6, v_sum = 0, v_src = replicate 16 0,
     v_dst = replicate 16 0, v_data = None, v_icmp_id = None\<rparr>"])
    (simp_all add: ip_version_def demo_dpkt_def)

section \<open>Endpoint keys\<close>

lemma append_sep_inj:
  assumes "xs @ c # ys = xs' @ c # ys'" "c \<notin> set xs" "c \<notin> set xs'"
  shows "xs = xs' \<and> ys = ys'"
  using assms by (induction xs arbitrary: xs') (auto simp: Cons_eq_append_conv append_eq_Cons_conv)

lemma show_nat_chars: "c \<in> set (show_nat n) \<Longrightarrow> is_digit c"
  using digits1_show_nat [of n] by (auto simp: digits1_def list_all_iff)

lemma show_int_inj: "show_int a = show_int b \<Longrightarrow> a = b"
proof -
  have d: "CHR ''-'' \<notin> set (show_nat n)" for n
    using show_nat_chars [of "CHR ''-''" n] by (auto simp: is_digit_def code_def)
  assume e: "show_int a = show_int b"
  have "a < 0 \<longleftrightarrow> b < 0"
    using e d by (auto simp: show_int_def split: if_splits) (metis d list.set_intros(1))+
  with e show "a = b"
    by (auto simp: show_int_def dest!: show_nat_inj split: if_splits)
qed

lemma gen_endpoint_key_inj:
  assumes "gen_endpoint_key p ip n = gen_endpoint_key p' ip' n'"
    and "CHR '':'' \<notin> set ip" "CHR '':'' \<notin> set ip'" "CHR ''/'' \<notin> set p" "CHR ''/'' \<notin> set p'"
  shows "p = p' \<and> ip = ip' \<and> n = n'"
proof -
  from assms(1) have "ip @ CHR '':'' # p @ CHR ''/'' # show_int n = ip' @ CHR '':'' # p' @ CHR ''/'' # show_int n'"
    by (simp add: gen_endpoint_key_def)
  from append_sep_inj [OF this assms(2,3)] have "ip = ip'"
    "p @ CHR ''/'' # show_int n = p' @ CHR ''/'' # show_int n'" by auto
  with append_sep_inj [OF this(2) assms(4,5)] show_int_inj show ?thesis by blast
qed

end
