(* ===== verification/Diverter.thy ===== *)
theory Diverter
  imports Listeners FnPacket
begin

text \<open>
  The packet path of \<open>DiverterBase\<close> (\<open>fakenet/diverters/diverterbase.py\<close>): the decision whether a
  packet is left alone, the redirection of foreign addresses and unbound ports with its forwarding
  tables, the fix-ups of the replies, sessions, \<open>handle_pkt\<close> and \<open>parse_diverter_config\<close>. Log output is
  not part of the state. What the operating system answers (the process behind a packet, the new
  destination address) is an argument.
\<close>

section \<open>State\<close>

record session =
  s_dst_ip :: string
  s_dport :: int
  s_pid :: "int option"
  s_comm :: "string option"
  s_dport0 :: int
  s_proto :: "string option"

text \<open>\<open>ip_addrs\<close> is a dictionary with the keys 4 and 6; \<open>executed\<close> collects the commands started by
  \<open>execute_detached\<close> and \<open>pcap\<close> the packets given to \<open>write_pcap\<close>.\<close>

record diverter =
  d_config :: config
  d_listeners_config :: "(string, listener_config) dict"
  own_pid :: int
  running_on_windows :: bool
  ip_addrs :: "(int, string list) dict"
  loopback_ip :: string
  external_access_policy :: string
  network_mode :: string
  single_host_mode :: bool
  listener_ports :: listener_ports
  default_listener :: "(string, int option) dict"
  blacklist_ports :: "(string, int list) dict"
  blacklist_ids :: "(string, int list) dict"
  blacklist_processes :: "string list"
  whitelist_processes :: "string list"
  blacklist_hosts :: "string list"
  sessions :: "(int, session) dict"
  port_fwd_table :: "(string, int) dict"
  ignore_table :: "(string, int) dict"
  ip_fwd_table :: "(string, string) dict"
  proxy_sport_to_orig_sport_map :: "(string \<times> int, int) dict"
  is_proxied_pkt_ssl_encrypted :: "(string \<times> int, bool) dict"
  nonlocal_ips_already_seen :: "string list"
  last_conn :: "PidCommDest option"
  dump_packets :: bool
  pcap_prefix :: string
  executed :: "string list"
  pcap :: "PacketCtx list"

definition local_ips :: "diverter \<Rightarrow> int \<Rightarrow> string list" where
  "local_ips d ver = (case dget (ip_addrs d) ver of None \<Rightarrow> [] | Some ips \<Rightarrow> ips)"

text \<open>The options read here are never among the expanded lists, so their values are text and the test
  does not raise.\<close>

definition option_set :: "diverter \<Rightarrow> string \<Rightarrow> bool" where
  "option_set d opt \<longleftrightarrow> is_set (d_config d) opt = Inr True"

section \<open>DivertParms\<close>

record DivertParms =
  c_pid :: "int option"
  c_comm :: "string option"

definition is_loopback0 :: "diverter \<Rightarrow> PacketCtx \<Rightarrow> bool" where
  "is_loopback0 d pkt \<longleftrightarrow> src_ip0 pkt = dst_ip0 pkt \<and> dst_ip0 pkt = loopback_ip d"

definition pkt_is_loopback :: "diverter \<Rightarrow> PacketCtx \<Rightarrow> bool" where
  "pkt_is_loopback d pkt \<longleftrightarrow> src_ip pkt = dst_ip pkt \<and> dst_ip pkt = loopback_ip d"

text \<open>The protocol name, for operations that run only on packets that have one.\<close>

definition proto_of :: "PacketCtx \<Rightarrow> string" where
  "proto_of pkt = (case proto pkt of None \<Rightarrow> [] | Some p \<Rightarrow> p)"

definition dport_hidden_listener :: "diverter \<Rightarrow> PacketCtx \<Rightarrow> bool" where
  "dport_hidden_listener d pkt = isHidden (listener_ports d) (proto_of pkt) (dport pkt)"

text \<open>The attribute is misspelled in the source, so reading the property raises.\<close>

definition src_local :: "diverter \<Rightarrow> PacketCtx \<Rightarrow> bool result" where
  "src_local d pkt = Inl (AttributeError ''diverters'')"

definition sport_bound :: "diverter \<Rightarrow> PacketCtx \<Rightarrow> bool" where
  "sport_bound d pkt = isListener (listener_ports d) (proto_of pkt) (sport pkt)"

definition dport_bound :: "diverter \<Rightarrow> PacketCtx \<Rightarrow> bool" where
  "dport_bound d pkt = isListener (listener_ports d) (proto_of pkt) (dport pkt)"

definition first_packet_new_session :: "diverter \<Rightarrow> DivertParms \<Rightarrow> PacketCtx \<Rightarrow> bool" where
  "first_packet_new_session d crit pkt =
     (case (if proto pkt = None then None else dget (sessions d) (sport pkt)) of
       None \<Rightarrow> True
     | Some s \<Rightarrow>
         if c_pid crit \<noteq> None \<and> (s_pid s \<noteq> c_pid crit \<or>
              c_comm crit \<noteq> None \<and> s_comm s \<noteq> c_comm crit) then True
         else (s_dst_ip s, s_dport s) \<noteq> (dst_ip pkt, dport pkt))"

section \<open>Commands and sessions\<close>

definition build_cmd :: "formatter \<Rightarrow> diverter \<Rightarrow> PacketCtx \<Rightarrow> int option \<Rightarrow> string option \<Rightarrow>
    string option result" where
  "build_cmd fmt d pkt pid comm =
     (case getExecuteCmd (listener_ports d) (proto_of pkt) (dport pkt) of
        None \<Rightarrow> Inr None
      | Some template \<Rightarrow> if template = [] then Inr None
          else build_cmd_from fmt template pid comm (src_ip pkt) (sport pkt) (dst_ip pkt) (dport pkt))"

definition maybeExecuteCmd :: "formatter \<Rightarrow> PacketCtx \<Rightarrow> int option \<Rightarrow> string option \<Rightarrow> diverter \<Rightarrow>
    diverter result" where
  "maybeExecuteCmd fmt pkt pid comm d =
     (if pid = None \<or> pid = Some 0 then Inr d
      else ebind (build_cmd fmt d pkt pid comm) (\<lambda>cmd.
        Inr (case cmd of
            None \<Rightarrow> d
          | Some c \<Rightarrow> if c = [] then d else d\<lparr>executed := executed d @ [c]\<rparr>)))"

definition addSession :: "PacketCtx \<Rightarrow> int option \<Rightarrow> string option \<Rightarrow> diverter \<Rightarrow> diverter" where
  "addSession pkt pid comm d = d\<lparr>sessions := dset (sport pkt)
     \<lparr>s_dst_ip = dst_ip pkt, s_dport = dport pkt, s_pid = pid, s_comm = comm, s_dport0 = dport0 pkt,
       s_proto = proto pkt\<rparr> (sessions d)\<rparr>"

definition mapProxySportToOrigSport :: "string \<Rightarrow> int \<Rightarrow> int \<Rightarrow> bool \<Rightarrow> diverter \<Rightarrow> diverter" where
  "mapProxySportToOrigSport p orig_sport proxy_sport ssl d =
     d\<lparr>proxy_sport_to_orig_sport_map := dset (p, proxy_sport) orig_sport (proxy_sport_to_orig_sport_map d),
       is_proxied_pkt_ssl_encrypted := dset (p, proxy_sport) ssl (is_proxied_pkt_ssl_encrypted d)\<rparr>"

text \<open>\<open>isProcessBlackListed\<close>: the answer, the process name and the process id.\<close>

definition process_hit :: "diverter \<Rightarrow> string \<Rightarrow> int \<Rightarrow> string option \<Rightarrow> bool" where
  "process_hit d p port name \<longleftrightarrow> name \<noteq> None \<and> the name \<in> set (blacklist_processes d) \<or>
     name \<noteq> None \<and> isProcessBlackListHit (listener_ports d) p port (the name)"

definition isProcessBlackListed :: "diverter \<Rightarrow> string option \<Rightarrow> int option \<Rightarrow> string option \<Rightarrow>
    int option \<Rightarrow> bool \<times> string option \<times> int option" where
  "isProcessBlackListed d prot sp name dp = (case prot of
       None \<Rightarrow> (False, name, None)
     | Some p \<Rightarrow>
         if \<not> single_host_mode d then (False, name, None)
         else (case (name, dp) of
             (Some _, Some port) \<Rightarrow> (process_hit d p port name, name, None)
           | _ \<Rightarrow> (case sp of
               None \<Rightarrow> (False, name, None)
             | Some sport' \<Rightarrow>
                 (let orig = (case dget (proxy_sport_to_orig_sport_map d) (p, sport') of
                      None \<Rightarrow> sport' | Some o' \<Rightarrow> o') in
                  case dget (sessions d) orig of
                    None \<Rightarrow> (False, name, None)
                  | Some s \<Rightarrow> (process_hit d p (s_dport0 s) (s_comm s), s_comm s, s_pid s)))))"

section \<open>check_should_ignore\<close>

definition blacklisted_ports :: "diverter \<Rightarrow> string \<Rightarrow> int list" where
  "blacklisted_ports d p = (case dget (blacklist_ports d) p of None \<Rightarrow> [] | Some ps \<Rightarrow> ps)"

definition host_blacklisted :: "diverter \<Rightarrow> string \<Rightarrow> bool" where
  "host_blacklisted d ip = (case getconfigval (d_config d) ''hostblacklist'' of
       None \<Rightarrow> False
     | Some (Texts hs) \<Rightarrow> ip \<in> set hs
     | Some (Text s) \<Rightarrow> s \<noteq> [] \<and> contains s ip
     | Some (Ints _) \<Rightarrow> False)"

text \<open>The process filters of SingleHost mode.\<close>

definition ignore_process :: "diverter \<Rightarrow> PacketCtx \<Rightarrow> string option \<Rightarrow> bool" where
  "ignore_process d pkt comm = (case comm of
       None \<Rightarrow> False
     | Some name \<Rightarrow>
         if name = [] then False
         else name \<in> set (blacklist_processes d) \<or>
           (whitelist_processes d \<noteq> [] \<and> name \<notin> set (whitelist_processes d)) \<or>
           isProcessBlackListHit (listener_ports d) (proto_of pkt) (dport0 pkt) name \<or>
           isProcessWhiteListMiss (listener_ports d) (proto_of pkt) (dport0 pkt) name)"

text \<open>A listener opens a connection of its own, as an FTP server in active mode does. The source tests
  the destination twice for loopback.\<close>

definition listener_initiated :: "diverter \<Rightarrow> PacketCtx \<Rightarrow> int option \<Rightarrow> bool" where
  "listener_initiated d pkt pid \<longleftrightarrow> pid = Some (own_pid d) \<and>
     (dst_ip0 pkt \<in> set (local_ips d (ipver pkt)) \<and> \<not> starts_with (dst_ip0 pkt) ''127.'') \<and>
     (src_ip0 pkt \<in> set (local_ips d (ipver pkt)) \<and> \<not> starts_with (dst_ip0 pkt) ''127.'') \<and>
     intersectsWithPorts (listener_ports d) (proto_of pkt) [sport0 pkt, dport0 pkt] = {}"

definition check_should_ignore :: "PacketCtx \<Rightarrow> int option \<Rightarrow> string option \<Rightarrow> diverter \<Rightarrow>
    bool \<times> diverter" where
  "check_should_ignore pkt pid comm d =
     (if \<not> option_set d ''redirectalltraffic'' then (True, d)
      else if single_host_mode d \<and> ignore_process d pkt comm then (True, d)
      else if proto pkt \<noteq> None \<and>
        (sport0 pkt \<in> set (blacklisted_ports d (proto_of pkt)) \<or>
         dport0 pkt \<in> set (blacklisted_ports d (proto_of pkt))) then (True, d)
      else if host_blacklisted d (dst_ip0 pkt) then (True, d)
      else if isHostWhiteListMiss (listener_ports d) (proto_of pkt) (dport0 pkt) (dst_ip0 pkt) then (True, d)
      else if isHostBlackListHit (listener_ports d) (proto_of pkt) (dport0 pkt) (dst_ip0 pkt) then (True, d)
      else if listener_initiated d pkt pid then
        (True, d\<lparr>blacklist_ports := dset (proto_of pkt)
           (blacklisted_ports d (proto_of pkt) @ [sport0 pkt]) (blacklist_ports d)\<rparr>)
      else (False, d))"

section \<open>Address and port forwarding\<close>

definition getOriginalDestPort :: "diverter \<Rightarrow> string \<Rightarrow> int \<Rightarrow> string \<Rightarrow> int option" where
  "getOriginalDestPort d ip port p = dget (port_fwd_table d) (gen_endpoint_key p ip port)"

definition maybe_redir_ip :: "(string \<Rightarrow> string) \<Rightarrow> PacketCtx \<Rightarrow> int option \<Rightarrow> string option \<Rightarrow> diverter \<Rightarrow>
    PacketCtx \<times> diverter" where
  "maybe_redir_ip newdst pkt pid comm d = (case check_should_ignore pkt pid comm d of
       (True, d1) \<Rightarrow> (pkt, d1)
     | (False, d1) \<Rightarrow>
         if single_host_mode d1 \<and> dst_ip pkt \<notin> set (local_ips d1 (ipver pkt))
         then (set_dst_ip (newdst (src_ip pkt)) pkt,
               d1\<lparr>ip_fwd_table := dset (skey pkt) (dst_ip pkt) (ip_fwd_table d1)\<rparr>)
         else (pkt, d1\<lparr>ip_fwd_table := ddel (skey pkt) (ip_fwd_table d1)\<rparr>))"

definition maybe_fixup_srcip :: "PacketCtx \<Rightarrow> diverter \<Rightarrow> PacketCtx" where
  "maybe_fixup_srcip pkt d =
     (if single_host_mode d then (case dget (ip_fwd_table d) (dkey pkt) of
          None \<Rightarrow> pkt | Some ip \<Rightarrow> set_src_ip ip pkt)
      else pkt)"

definition decide_redir_port :: "diverter \<Rightarrow> PacketCtx \<Rightarrow> int list \<Rightarrow> bool" where
  "decide_redir_port d pkt bound_ports =
     (let a = src_ip pkt \<in> set (local_ips d (ipver pkt));
          c = sport pkt \<in> set bound_ports;
          e = dport pkt \<in> set bound_ports in
      (\<not> a \<and> \<not> e) \<or> (\<not> c \<and> \<not> e))"

definition delete_stale_port_fwd_key :: "string \<Rightarrow> diverter \<Rightarrow> diverter" where
  "delete_stale_port_fwd_key key d = d\<lparr>port_fwd_table := ddel key (port_fwd_table d)\<rparr>"

text \<open>The tail of \<open>maybe_redir_port\<close>, reached when it did not return early.\<close>

definition note_session :: "formatter \<Rightarrow> DivertParms \<Rightarrow> PacketCtx \<Rightarrow> diverter \<Rightarrow> (PacketCtx \<times> diverter) result" where
  "note_session fmt crit pkt d =
     (if first_packet_new_session d crit pkt then
        ebind (maybeExecuteCmd fmt pkt (c_pid crit) (c_comm crit)
          (addSession pkt (c_pid crit) (c_comm crit) d)) (\<lambda>d1. Inr (pkt, d1))
      else Inr (pkt, d))"

definition maybe_redir_port :: "formatter \<Rightarrow> DivertParms \<Rightarrow> PacketCtx \<Rightarrow> diverter \<Rightarrow>
    (PacketCtx \<times> diverter) result" where
  "maybe_redir_port fmt crit pkt d = (case dget (default_listener d) (proto_of pkt) of
       None \<Rightarrow> Inr (pkt, d)
     | Some None \<Rightarrow> Inr (pkt, d)
     | Some (Some port) \<Rightarrow>
         if port = 0 then Inr (pkt, d)
         else if dget (port_fwd_table d) (dkey pkt) \<noteq> None then Inr (pkt, d)
         else if dport_hidden_listener d pkt \<or>
           decide_redir_port d pkt (getPortList (listener_ports d) (proto_of pkt)) then
           (if dget (ignore_table d) (dkey pkt) = Some (sport pkt) then Inr (pkt, d)
            else (case check_should_ignore pkt (c_pid crit) (c_comm crit) d of
                (True, d1) \<Rightarrow> Inr (pkt, d1\<lparr>ignore_table := dset (skey pkt) (dport pkt) (ignore_table d1)\<rparr>)
              | (False, d1) \<Rightarrow> note_session fmt crit (set_dport port pkt)
                  (d1\<lparr>port_fwd_table := dset (skey pkt) (dport pkt) (port_fwd_table d1)\<rparr>)))
         else note_session fmt crit pkt (delete_stale_port_fwd_key (skey pkt) d))"

text \<open>A forwarded port of 0 counts as absent.\<close>

definition maybe_fixup_sport :: "PacketCtx \<Rightarrow> diverter \<Rightarrow> PacketCtx" where
  "maybe_fixup_sport pkt d = (case dget (port_fwd_table d) (dkey pkt) of
       None \<Rightarrow> pkt | Some p \<Rightarrow> if p = 0 then pkt else set_sport p pkt)"

section \<open>handle_pkt\<close>

type_synonym callback3 = "PacketCtx \<Rightarrow> diverter \<Rightarrow> (PacketCtx \<times> diverter) result"
type_synonym callback4 = "DivertParms \<Rightarrow> PacketCtx \<Rightarrow> diverter \<Rightarrow> (PacketCtx \<times> diverter) result"

text \<open>\<open>check_log_icmp\<close> only writes to the log.\<close>

definition check_log_icmp :: callback3 where
  "check_log_icmp pkt d = Inr (pkt, d)"

definition cb_fixup_srcip :: callback4 where
  "cb_fixup_srcip crit pkt d = Inr (maybe_fixup_srcip pkt d, d)"

definition cb_fixup_sport :: callback4 where
  "cb_fixup_sport crit pkt d = Inr (maybe_fixup_sport pkt d, d)"

definition write_pcap :: "PacketCtx \<Rightarrow> diverter \<Rightarrow> diverter" where
  "write_pcap pkt d = d\<lparr>pcap := pcap d @ [pkt]\<rparr>"

text \<open>The line that announces a new connection, with verbose packet output off.\<close>

definition announce :: "DivertParms \<Rightarrow> PacketCtx \<Rightarrow> diverter \<Rightarrow> diverter" where
  "announce crit pkt d =
     (if c_pid crit \<noteq> None \<and> c_pid crit \<noteq> Some 0 \<and> c_pid crit \<noteq> Some (own_pid d) \<and>
         first_packet_new_session d crit pkt then
        (let pc = new_pid_comm_dest (c_pid crit) (c_comm crit) (proto pkt) (Some (dst_ip0 pkt))
                 (if proto pkt = None then None else Some (dport0 pkt)) in
         if isDistinct pc (last_conn d) (local_ips d (ipver pkt)) then d\<lparr>last_conn := Some pc\<rparr> else d)
      else d)"

text \<open>\<open>ipver\<close> is always set once a packet was parsed, so the branch for an unparsed one is dead.\<close>

definition handle_pkt :: "DivertParms \<Rightarrow> callback3 list \<Rightarrow> callback4 list \<Rightarrow> bool \<Rightarrow> PacketCtx \<Rightarrow> diverter \<Rightarrow>
    (PacketCtx \<times> diverter) result" where
  "handle_pkt crit callbacks3 callbacks4 raw_already_captured pkt d =
     (let d0 = (if raw_already_captured then d else write_pcap pkt d); d1 = announce crit pkt d0 in
      ebind (efold (\<lambda>cb (p, x). cb p x) callbacks3 (pkt, d1)) (\<lambda>(p2, d2).
      ebind (if proto p2 \<noteq> None \<and> \<not> (callbacks4 \<noteq> [] \<and> pkt_is_loopback d2 p2)
             then efold (\<lambda>cb (p, x). cb crit p x) callbacks4 (p2, d2) else Inr (p2, d2)) (\<lambda>(p3, d3).
      Inr (p3, if mangled p3 then write_pcap p3 d3 else d3))))"

section \<open>The contract of callbacks\<close>

text \<open>What \<open>handle_pkt\<close> relies on: a callback does not write captures, and a packet it changes is marked
  as mangled.\<close>

locale packet_callbacks =
  fixes cbs3 :: "callback3 list" and cbs4 :: "callback4 list" and crit :: DivertParms
  assumes cb3: "cb \<in> set cbs3 \<Longrightarrow> cb p d = Inr (p', d') \<Longrightarrow> pcap d' = pcap d \<and> (p' = p \<or> mangled p')"
    and cb4: "cb' \<in> set cbs4 \<Longrightarrow> cb' crit p d = Inr (p', d') \<Longrightarrow> pcap d' = pcap d \<and> (p' = p \<or> mangled p')"
begin

lemma efold_callbacks:
  fixes g :: "'c \<Rightarrow> PacketCtx \<Rightarrow> diverter \<Rightarrow> (PacketCtx \<times> diverter) result"
  assumes "efold (\<lambda>cb (p, x). g cb p x) cbs (p, d) = Inr (p', d')"
    and "\<And>cb p d p' d'. cb \<in> set cbs \<Longrightarrow> g cb p d = Inr (p', d') \<Longrightarrow> pcap d' = pcap d \<and> (p' = p \<or> mangled p')"
  shows "pcap d' = pcap d \<and> (p' = p \<or> mangled p')"
proof -
  have "(\<lambda>(q, x). pcap x = pcap d \<and> (q = p \<or> mangled q)) (p', d')"
  proof (rule efold_invariant [OF assms(1)])
    fix cb and s t :: "PacketCtx \<times> diverter"
    assume "cb \<in> set cbs" "(case s of (p, x) \<Rightarrow> g cb p x) = Inr t"
      "case s of (q, x) \<Rightarrow> pcap x = pcap d \<and> (q = p \<or> mangled q)"
    then show "case t of (q, x) \<Rightarrow> pcap x = pcap d \<and> (q = p \<or> mangled q)"
      using assms(2) [of cb "fst s" "snd s" "fst t" "snd t"] by (cases s; cases t) auto
  qed simp
  then show ?thesis by simp
qed

lemma handle_parts:
  assumes h: "handle_pkt crit cbs3 cbs4 captured pkt d = Inr (pkt', d')"
  shows "pcap d' = pcap d @ (if captured then [] else [pkt]) @ (if mangled pkt' then [pkt'] else [])"
    "pkt' = pkt \<or> mangled pkt'"
proof -
  let ?d1 = "announce crit pkt (if captured then d else write_pcap pkt d)"
  have a: "pcap ?d1 = pcap d @ (if captured then [] else [pkt])" by (simp add: announce_def write_pcap_def Let_def)
  from h obtain p2 d2 p3 d3 where e3: "efold (\<lambda>cb (p, x). cb p x) cbs3 (pkt, ?d1) = Inr (p2, d2)"
    and e4: "(if proto p2 \<noteq> None \<and> \<not> (cbs4 \<noteq> [] \<and> pkt_is_loopback d2 p2)
      then efold (\<lambda>cb (p, x). cb crit p x) cbs4 (p2, d2) else Inr (p2, d2)) = Inr (p3, d3)"
    and r: "pkt' = p3" "d' = (if mangled p3 then write_pcap p3 d3 else d3)"
    by (auto simp: handle_pkt_def Let_def ebind_Inr_iff)
  have 1: "pcap d2 = pcap ?d1 \<and> (p2 = pkt \<or> mangled p2)" by (rule efold_callbacks [OF e3 cb3])
  have 2: "pcap d3 = pcap d2 \<and> (p3 = p2 \<or> mangled p3)"
    using e4 efold_callbacks [of "\<lambda>cb. cb crit" cbs4 p2 d2 p3 d3] cb4 by (auto split: if_splits)
  show "pcap d' = pcap d @ (if captured then [] else [pkt]) @ (if mangled pkt' then [pkt'] else [])"
    using 1 2 a r by (simp add: write_pcap_def)
  show "pkt' = pkt \<or> mangled pkt'" using 1 2 r by auto
qed

lemmas pcap_handle = handle_parts(1)
lemmas unmangled_same = handle_parts(2)

end

lemma ignore_pcap: "check_should_ignore pkt pid comm d = (b, d') \<Longrightarrow> pcap d' = pcap d"
  unfolding check_should_ignore_def by (auto split: if_splits)

lemma set_contract: "set_src_ip ip p = p \<or> mangled (set_src_ip ip p)" "set_dst_ip ip p = p \<or> mangled (set_dst_ip ip p)"
  "set_sport n p = p \<or> mangled (set_sport n p)" "set_dport n p = p \<or> mangled (set_dport n p)"
  by (simp_all add: set_src_ip_def set_dst_ip_def set_sport_def set_dport_def)

lemma note_session_contract: "note_session fmt crit pkt d = Inr (pkt', d') \<Longrightarrow> pcap d' = pcap d \<and> pkt' = pkt"
  by (auto simp: note_session_def maybeExecuteCmd_def addSession_def ebind_Inr_iff
      split: if_splits option.splits)

lemma redir_port_contract:
  "maybe_redir_port fmt crit pkt d = Inr (pkt', d') \<Longrightarrow> pcap d' = pcap d \<and> (pkt' = pkt \<or> mangled pkt')"
  using set_contract(4) [of _ pkt]
  by (auto simp: maybe_redir_port_def delete_stale_port_fwd_key_def
      dest!: note_session_contract ignore_pcap split: option.splits if_splits prod.splits bool.splits)

lemma redir_ip_contract:
  "maybe_redir_ip f pkt pid comm d = (pkt', d') \<Longrightarrow> pcap d' = pcap d \<and> (pkt' = pkt \<or> mangled pkt')"
  using set_contract(2) [of _ pkt]
  by (auto simp: maybe_redir_ip_def dest!: ignore_pcap split: if_splits prod.splits bool.splits)

lemma fixup_contract:
  "cb_fixup_srcip crit pkt d = Inr (pkt', d') \<Longrightarrow> pcap d' = pcap d \<and> (pkt' = pkt \<or> mangled pkt')"
  "cb_fixup_sport crit pkt d = Inr (pkt', d') \<Longrightarrow> pcap d' = pcap d \<and> (pkt' = pkt \<or> mangled pkt')"
  using set_contract(1,3) [of _ pkt]
  by (auto simp: cb_fixup_srcip_def cb_fixup_sport_def maybe_fixup_srcip_def maybe_fixup_sport_def
      split: option.splits if_splits)

section \<open>parse_diverter_config\<close>

definition option_text :: "diverter \<Rightarrow> string \<Rightarrow> string option" where
  "option_text d opt = (case getconfigval (d_config d) opt of Some (Text s) \<Rightarrow> Some s | _ \<Rightarrow> None)"

definition parse_network_mode :: "diverter \<Rightarrow> diverter result" where
  "parse_network_mode d = (case option_text d ''networkmode'' of
       None \<Rightarrow> Inr (d\<lparr>network_mode := ''SingleHost'', single_host_mode := True\<rparr>)
     | Some m \<Rightarrow>
         if lower m \<notin> set [''singlehost'', ''multihost''] then Inl (SystemExit 1)
         else Inr (d\<lparr>network_mode := m, single_host_mode := (lower m \<noteq> ''multihost'')\<rparr>))"

definition process_list :: "diverter \<Rightarrow> string \<Rightarrow> string list \<Rightarrow> string list" where
  "process_list d opt old = (case option_text d opt of
       None \<Rightarrow> old | Some s \<Rightarrow> map strip (split_on (CHR '','') s))"

definition default_port :: "diverter \<Rightarrow> string \<Rightarrow> int result" where
  "default_port d opt = (case option_text d opt of
       None \<Rightarrow> Inl (SystemExit 1)
     | Some name \<Rightarrow> (case dget (d_listeners_config d) (lower name) of
           None \<Rightarrow> Inl (SystemExit 1)
         | Some lc \<Rightarrow> (case dget lc ''port'' of
             None \<Rightarrow> Inl (KeyError ''port'') | Some t \<Rightarrow> py_int_exn t)))"

definition config_ints :: "diverter \<Rightarrow> string \<Rightarrow> int list option" where
  "config_ints d opt = (case getconfigval (d_config d) opt of
       Some (Ints ps) \<Rightarrow> Some ps | Some (Text []) \<Rightarrow> Some [] | _ \<Rightarrow> None)"

definition set_port_list :: "string \<Rightarrow> string \<Rightarrow> diverter \<Rightarrow> diverter" where
  "set_port_list opt p d = (case config_ints d opt of
       None \<Rightarrow> d | Some ps \<Rightarrow> d\<lparr>blacklist_ports := dset p ps (blacklist_ports d)\<rparr>)"

definition default_missing :: "diverter \<Rightarrow> string \<Rightarrow> bool" where
  "default_missing d opt = (case option_text d opt of None \<Rightarrow> True
     | Some name \<Rightarrow> dget (d_listeners_config d) (lower name) = None)"

definition redirect_all_settings :: "diverter \<Rightarrow> diverter result" where
  "redirect_all_settings d =
     (if default_missing d ''defaulttcplistener'' \<or> default_missing d ''defaultudplistener''
      then Inl (SystemExit 1)
      else ebind (default_port d ''defaulttcplistener'') (\<lambda>tcp.
        ebind (default_port d ''defaultudplistener'') (\<lambda>udp.
          (let d1 = set_port_list ''blacklistportsudp'' ''UDP'' (set_port_list ''blacklistportstcp'' ''TCP''
                (d\<lparr>default_listener := [(''TCP'', Some tcp), (''UDP'', Some udp)]\<rparr>)) in
           Inr (case config_ints d1 ''blacklistidsicmp'' of
               None \<Rightarrow> d1 | Some ids \<Rightarrow> d1\<lparr>blacklist_ids := dset ''ICMP'' ids (blacklist_ids d1)\<rparr>)))))"

definition parse_diverter_config :: "diverter \<Rightarrow> diverter result" where
  "parse_diverter_config d0 = ebind (parse_network_mode d0) (\<lambda>d.
     if (\<exists>v. getconfigval (d_config d) ''processwhitelist'' = Some v \<and> truthy v) \<and>
        (\<exists>v. getconfigval (d_config d) ''processblacklist'' = Some v \<and> truthy v) then Inl (SystemExit 1)
     else (let d1 = d\<lparr>dump_packets := option_set d ''dumppackets'',
               pcap_prefix := (if option_set d ''dumppackets'' then
                   (case option_text d ''dumppacketsfileprefix'' of None \<Rightarrow> ''packets'' | Some s \<Rightarrow> s)
                 else pcap_prefix d),
               blacklist_processes := process_list d ''processblacklist'' (blacklist_processes d),
               whitelist_processes := process_list d ''processwhitelist'' (whitelist_processes d),
               blacklist_hosts := (case getconfigval (d_config d) ''hostblacklist'' of
                   Some (Texts hs) \<Rightarrow> hs | _ \<Rightarrow> blacklist_hosts d),
               default_listener := [(''TCP'', None), (''UDP'', None)]\<rparr> in
       if option_set d1 ''redirectalltraffic'' then redirect_all_settings d1 else Inr d1))"

section \<open>Initialisation\<close>

definition new_diverter :: "config \<Rightarrow> (string, listener_config) dict \<Rightarrow> (int, string list) dict \<Rightarrow> int \<Rightarrow> string \<Rightarrow>
    string \<Rightarrow> listener_ports \<Rightarrow> diverter" where
  "new_diverter c lc ips pid lo policy ps = \<lparr>d_config = c, d_listeners_config = lc, own_pid = pid,
     running_on_windows = False, ip_addrs = ips, loopback_ip = lo, external_access_policy = policy,
     network_mode = [], single_host_mode = True, listener_ports = ps, default_listener = [],
     blacklist_ports = [(''TCP'', []), (''UDP'', [])], blacklist_ids = [(''ICMP'', [])],
     blacklist_processes = [], whitelist_processes = [], blacklist_hosts = [], sessions = [],
     port_fwd_table = [], ignore_table = [], ip_fwd_table = [], proxy_sport_to_orig_sport_map = [],
     is_proxied_pkt_ssl_encrypted = [], nonlocal_ips_already_seen = [], last_conn = None,
     dump_packets = False, pcap_prefix = [], executed = [], pcap = []\<rparr>"

definition access_policy :: "config \<Rightarrow> string result" where
  "access_policy c = (let p = (case getconfigval c ''ExternalAccessPolicy'' of
       None \<Rightarrow> ''disabled'' | Some (Text s) \<Rightarrow> lower s | Some _ \<Rightarrow> ''[]'') in
     if p \<in> set [''disabled'', ''egresscontrol'', ''domainallowlist''] then Inr p
     else Inl (ValueError ''ExternalAccessPolicy''))"

text \<open>The constructor up to the operating-system checks.\<close>

definition init_diverter :: "formatter \<Rightarrow> (string \<times> config_value) list \<Rightarrow> (string, listener_config) dict \<Rightarrow>
    (int, string list) dict \<Rightarrow> int \<Rightarrow> string \<Rightarrow> diverter result" where
  "init_diverter fmt items lcfg ips pid lo =
     ebind (configure_diverter items) (\<lambda>c.
     ebind (access_policy c) (\<lambda>policy.
     ebind (parse_listeners_config fmt lcfg) (\<lambda>ps.
     parse_diverter_config (new_diverter c (fold (\<lambda>(k, v). dset (lower k) v) lcfg []) ips pid lo policy ps))))"

text \<open>What the operating system answers to the start-up checks and to the two repairs.\<close>

record net_checks =
  adapters_ok :: bool
  ipaddresses_ok :: bool
  gateways_ok :: bool
  gateway_fixed :: bool
  dns_servers_ok :: bool
  dns_fixed :: bool

definition egress_policy_on :: "diverter \<Rightarrow> bool" where
  "egress_policy_on d \<longleftrightarrow> external_access_policy d \<in> set [''egresscontrol'', ''domainallowlist'']"

definition check_network :: "net_checks \<Rightarrow> diverter \<Rightarrow> diverter result" where
  "check_network n d =
     (let gw_ok = gateways_ok n \<or> (\<not> egress_policy_on d \<and> option_set d ''fixgateway'' \<and> gateway_fixed n);
          dns_ok = dns_servers_ok n \<or> (\<not> egress_policy_on d \<and> option_set d ''fixdns'' \<and> dns_fixed n) in
      if \<not> adapters_ok n \<or> \<not> ipaddresses_ok n then Inl (SystemExit 1)
      else if \<not> gw_ok \<and> egress_policy_on d
      then Inl (RuntimeError ''EgressControl requires a gateway before startup'')
      else if \<not> dns_ok \<and> egress_policy_on d
      then Inl (RuntimeError ''EgressControl requires an upstream DNS before startup'')
      else Inr d)"

end
