(* ===== verification/LinuxDiverter.thy ===== *)
theory LinuxDiverter
  imports Diverter
begin

text \<open>
  The Linux diverter (\<open>fakenet/diverters/linux.py\<close>): which callbacks its hooks run, and the
  properties of the forwarding the base class and the hooks implement together. A hook parses the
  queued packet, runs \<open>handle_pkt\<close> and accepts the packet; an exception leaves it without a verdict.
\<close>

section \<open>Callbacks\<close>

definition getNewDestinationIp :: "string \<Rightarrow> string" where
  "getNewDestinationIp ip = ''127.0.0.1''"

definition check_log_nonlocal :: callback3 where
  "check_log_nonlocal pkt d =
     Inr (pkt, if dst_ip pkt \<notin> set (local_ips d (ipver pkt)) \<and> dst_ip pkt \<notin> set (nonlocal_ips_already_seen d)
       then d\<lparr>nonlocal_ips_already_seen := nonlocal_ips_already_seen d @ [dst_ip pkt]\<rparr> else d)"

definition cb_redir_ip :: callback4 where
  "cb_redir_ip crit pkt d = Inr (maybe_redir_ip getNewDestinationIp pkt (c_pid crit) (c_comm crit) d)"

definition nonlocal_net_cbs :: "callback3 list" where
  "nonlocal_net_cbs = [check_log_nonlocal, check_log_icmp]"

definition incoming_net_cbs :: "callback3 list" where
  "incoming_net_cbs = []"

definition incoming_trans_cbs :: "formatter \<Rightarrow> diverter \<Rightarrow> callback4 list" where
  "incoming_trans_cbs fmt d = [maybe_redir_port fmt] @ (if single_host_mode d then [cb_fixup_srcip] else [])"

definition outgoing_net_cbs :: "diverter \<Rightarrow> callback3 list" where
  "outgoing_net_cbs d = (if single_host_mode d then [check_log_nonlocal, check_log_icmp] else [])"

definition outgoing_trans_cbs :: "diverter \<Rightarrow> callback4 list" where
  "outgoing_trans_cbs d = [cb_fixup_sport] @ (if single_host_mode d then [cb_redir_ip] else [])"

section \<open>Hooks\<close>

definition handle_nonlocal :: "dpkt \<Rightarrow> DivertParms \<Rightarrow> byte list \<Rightarrow> diverter \<Rightarrow> (PacketCtx \<times> diverter) result" where
  "handle_nonlocal dp crit raw d = ebind (parse_packet dp ''handle_nonlocal'' raw)
     (\<lambda>pkt. handle_pkt crit nonlocal_net_cbs [] False pkt d)"

definition handle_incoming :: "formatter \<Rightarrow> dpkt \<Rightarrow> DivertParms \<Rightarrow> byte list \<Rightarrow> diverter \<Rightarrow>
    (PacketCtx \<times> diverter) result" where
  "handle_incoming fmt dp crit raw d = ebind (parse_packet dp ''handle_incoming'' raw)
     (\<lambda>pkt. handle_pkt crit incoming_net_cbs (incoming_trans_cbs fmt d) False pkt d)"

definition handle_outgoing :: "dpkt \<Rightarrow> DivertParms \<Rightarrow> byte list \<Rightarrow> diverter \<Rightarrow> (PacketCtx \<times> diverter) result" where
  "handle_outgoing dp crit raw d = ebind (parse_packet dp ''handle_outgoing'' raw)
     (\<lambda>pkt. handle_pkt crit (outgoing_net_cbs d) (outgoing_trans_cbs d) False pkt d)"

section \<open>Configuration of the Linux diverter\<close>

text \<open>\<open>str.rpartition(':')\<close>: what stands before and after the last colon.\<close>

definition rpartition_colon :: "string \<Rightarrow> string \<times> string" where
  "rpartition_colon s = (if CHR '':'' \<in> set s
     then (rev (tl (dropWhile (\<lambda>c. c \<noteq> CHR '':'') (rev s))), rev (takeWhile (\<lambda>c. c \<noteq> CHR '':'') (rev s)))
     else ([], s))"

definition parse_control_endpoints :: "string \<Rightarrow> (string \<times> int) list result" where
  "parse_control_endpoints items =
     emap (\<lambda>item. case rpartition_colon item of (ip, port) \<Rightarrow>
         (case py_int port of None \<Rightarrow> Inl (ValueError ''LinuxControlEndpoints'') | Some n \<Rightarrow> Inr (ip, n)))
       (filter (\<lambda>x. x \<noteq> []) (map strip (split_on (CHR '','') items)))"

definition linux_init :: "diverter \<Rightarrow> (string \<times> int) list result" where
  "linux_init d =
     (if is_configured (d_config d) ''ExternalAllowedIPv4Rules''
      then Inl (ValueError ''ExternalAllowedIPv4Rules is supported only by the Windows Diverter'')
      else if option_set d ''ExternalProcessRedirectEnabled''
      then Inl (ValueError ''ExternalProcessRedirectEnabled is supported only by the Windows Diverter'')
      else parse_control_endpoints (case getconfigval (d_config d) ''LinuxControlEndpoints'' of
          Some (Text s) \<Rightarrow> s
        | Some (Texts xs) \<Rightarrow> concat xs
        | Some (Ints xs) \<Rightarrow> concat (map show_int xs)
        | None \<Rightarrow> []))"

section \<open>What each operation leaves alone\<close>

lemma ignore_fields:
  assumes "check_should_ignore pkt pid comm d = (b, d')"
  shows "single_host_mode d' = single_host_mode d" "ip_addrs d' = ip_addrs d"
    "ip_fwd_table d' = ip_fwd_table d" "port_fwd_table d' = port_fwd_table d"
    "listener_ports d' = listener_ports d" "default_listener d' = default_listener d"
    "ignore_table d' = ignore_table d" "sessions d' = sessions d" "local_ips d' = local_ips d"
  using assms unfolding check_should_ignore_def by (auto simp: local_ips_def [abs_def] split: if_splits)

lemma note_session_Inr:
  assumes "note_session fmt crit pkt d = Inr (pkt', d')"
  shows "pkt' = pkt \<and> port_fwd_table d' = port_fwd_table d \<and> ip_fwd_table d' = ip_fwd_table d \<and>
    single_host_mode d' = single_host_mode d \<and> ip_addrs d' = ip_addrs d \<and>
    default_listener d' = default_listener d"
  using assms
  by (auto simp: note_session_def maybeExecuteCmd_def addSession_def ebind_Inr_iff
      split: if_splits option.splits)

section \<open>The forwarding tables\<close>

lemma maybe_redir_ip_cases:
  assumes "maybe_redir_ip f pkt pid comm d = (pkt', d')"
  obtains (ignored) "pkt' = pkt" "ip_fwd_table d' = ip_fwd_table d"
    | (redirected) "single_host_mode d" "dst_ip pkt \<notin> set (local_ips d (ipver pkt))"
        "pkt' = set_dst_ip (f (src_ip pkt)) pkt" "ip_fwd_table d' = dset (skey pkt) (dst_ip pkt) (ip_fwd_table d)"
    | (kept) "single_host_mode d \<longrightarrow> dst_ip pkt \<in> set (local_ips d (ipver pkt))" "pkt' = pkt"
        "ip_fwd_table d' = ddel (skey pkt) (ip_fwd_table d)"
proof -
  obtain b d1 where c: "check_should_ignore pkt pid comm d = (b, d1)" by force
  note f = ignore_fields [OF c]
  show thesis
  proof (cases b)
    case True
    with assms c f show thesis by (intro ignored) (simp_all add: maybe_redir_ip_def)
  next
    case False
    show thesis
    proof (cases "single_host_mode d \<and> dst_ip pkt \<notin> set (local_ips d (ipver pkt))")
      case True
      with assms c f False show thesis by (intro redirected) (auto simp: maybe_redir_ip_def)
    next
      case no: False
      with assms c f False show thesis by (intro kept) (auto simp: maybe_redir_ip_def)
    qed
  qed
qed

lemma maybe_redir_ip_fields:
  assumes "maybe_redir_ip f pkt pid comm d = (pkt', d')"
  shows "port_fwd_table d' = port_fwd_table d \<and> single_host_mode d' = single_host_mode d \<and>
    ip_addrs d' = ip_addrs d \<and> default_listener d' = default_listener d"
proof -
  obtain b d1 where c: "check_should_ignore pkt pid comm d = (b, d1)" by force
  with assms ignore_fields [OF c] show ?thesis
    by (cases b) (auto simp: maybe_redir_ip_def split: if_splits)
qed

lemma maybe_redir_port_cases:
  assumes "maybe_redir_port fmt crit pkt d = Inr (pkt', d')"
  obtains (unchanged) "pkt' = pkt" "port_fwd_table d' = port_fwd_table d"
    | (redirected) port where "dget (default_listener d) (proto_of pkt) = Some (Some port)" "port \<noteq> 0"
        "dget (port_fwd_table d) (dkey pkt) = None"
        "pkt' = set_dport port pkt" "port_fwd_table d' = dset (skey pkt) (dport pkt) (port_fwd_table d)"
    | (bound) "pkt' = pkt" "port_fwd_table d' = ddel (skey pkt) (port_fwd_table d)"
        "dget (port_fwd_table d) (dkey pkt) = None"
proof -
  obtain b d1 where c: "check_should_ignore pkt (c_pid crit) (c_comm crit) d = (b, d1)" by force
  note f = ignore_fields [OF c]
  show thesis
    using assms c f
    by (auto simp: maybe_redir_port_def delete_stale_port_fwd_key_def dest!: note_session_Inr
        split: option.splits if_splits bool.splits intro: unchanged redirected bound)
qed

lemma maybe_redir_port_fields:
  assumes "maybe_redir_port fmt crit pkt d = Inr (pkt', d')"
  shows "ip_fwd_table d' = ip_fwd_table d \<and> single_host_mode d' = single_host_mode d \<and>
    ip_addrs d' = ip_addrs d \<and> default_listener d' = default_listener d"
proof -
  obtain b d1 where c: "check_should_ignore pkt (c_pid crit) (c_comm crit) d = (b, d1)" by force
  note f = ignore_fields [OF c]
  show ?thesis
    using assms c f
    by (auto simp: maybe_redir_port_def delete_stale_port_fwd_key_def dest!: note_session_Inr
        split: option.splits if_splits bool.splits)
qed

section \<open>Properties\<close>

text \<open>The truth table of docs/internals.md for the redirection decision: source local, destination local,
  source port bound, destination port bound.\<close>

fun redirect_table :: "bool \<Rightarrow> bool \<Rightarrow> bool \<Rightarrow> bool \<Rightarrow> bool" where
  "redirect_table False False False False = True"
| "redirect_table False False False True = False"
| "redirect_table False False True False = True"
| "redirect_table False False True True = False"
| "redirect_table False True False False = True"
| "redirect_table False True False True = False"
| "redirect_table False True True False = True"
| "redirect_table False True True True = False"
| "redirect_table True False False False = True"
| "redirect_table True False False True = False"
| "redirect_table True False True False = False"
| "redirect_table True False True True = False"
| "redirect_table True True False False = True"
| "redirect_table True True False True = False"
| "redirect_table True True True False = False"
| "redirect_table True True True True = False"

text \<open>The optimised decision whether to redirect a port is the truth table of docs/internals.md, for
  every packet and every set of bound ports.\<close>

theorem decide_redir_port_table:
  "decide_redir_port d pkt bound =
    redirect_table (src_ip pkt \<in> set (local_ips d (ipver pkt))) (dst_ip pkt \<in> set (local_ips d (ipver pkt)))
      (sport pkt \<in> set bound) (dport pkt \<in> set bound)"
  unfolding decide_redir_port_def Let_def
  by (cases "src_ip pkt \<in> set (local_ips d (ipver pkt))"; cases "dst_ip pkt \<in> set (local_ips d (ipver pkt))";
      cases "sport pkt \<in> set bound"; cases "dport pkt \<in> set bound") simp_all

text \<open>A packet that is to be ignored goes through the hooks untouched: neither the address nor the port
  redirection modifies it, and no forwarding entry is written for it.\<close>

theorem ignored_packet_untouched:
  assumes "fst (check_should_ignore pkt (c_pid crit) (c_comm crit) d)"
    and "maybe_redir_port fmt crit pkt d = Inr (pkt1, d1)"
    and "maybe_redir_ip f pkt (c_pid crit) (c_comm crit) d = (pkt2, d2)"
  shows "pkt1 = pkt \<and> pkt2 = pkt \<and> ip_fwd_table d2 = ip_fwd_table d \<and>
    (\<forall>k. dget (port_fwd_table d1) k = Some n \<longrightarrow> dget (port_fwd_table d) k = Some n)"
proof -
  obtain b d' where c: "check_should_ignore pkt (c_pid crit) (c_comm crit) d = (b, d')" by force
  with assms(1) have b: "b" by simp
  note f = ignore_fields [OF c]
  have "pkt1 = pkt \<and> (\<forall>k. dget (port_fwd_table d1) k = Some n \<longrightarrow> dget (port_fwd_table d) k = Some n)"
    using assms(2) c f b
    by (auto simp: maybe_redir_port_def delete_stale_port_fwd_key_def dict_simps dest!: note_session_Inr
        split: option.splits if_splits)
  moreover have "pkt2 = pkt \<and> ip_fwd_table d2 = ip_fwd_table d"
    using assms(3) c f b by (auto simp: maybe_redir_ip_def)
  ultimately show ?thesis by blast
qed

text \<open>A packet with the addresses and ports of another one, parsed anew at the next hook.\<close>

definition carries :: "PacketCtx \<Rightarrow> PacketCtx \<Rightarrow> bool" where
  "carries q p \<longleftrightarrow> fresh_packet q \<and> proto q = proto p \<and> ipver q = ipver p \<and> src_ip q = src_ip p \<and>
     dst_ip q = dst_ip p \<and> sport q = sport p \<and> dport q = dport p"

text \<open>The answer of the listener that received \<open>p\<close>.\<close>

definition answers_to :: "PacketCtx \<Rightarrow> PacketCtx \<Rightarrow> bool" where
  "answers_to q p \<longleftrightarrow> fresh_packet q \<and> proto q = proto p \<and> ipver q = ipver p \<and> src_ip q = dst_ip p \<and>
     dst_ip q = src_ip p \<and> sport q = dport p \<and> dport q = sport p"

definition run_trans :: "callback4 list \<Rightarrow> DivertParms \<Rightarrow> PacketCtx \<Rightarrow> diverter \<Rightarrow> (PacketCtx \<times> diverter) result" where
  "run_trans cbs crit p d = efold (\<lambda>cb (p, x). cb crit p x) cbs (p, d)"

lemma run_outgoing:
  "single_host_mode d \<Longrightarrow> run_trans (outgoing_trans_cbs d) crit p d =
    Inr (maybe_redir_ip getNewDestinationIp (maybe_fixup_sport p d) (c_pid crit) (c_comm crit) d)"
  by (simp add: run_trans_def outgoing_trans_cbs_def cb_fixup_sport_def cb_redir_ip_def)

lemma run_incoming:
  "single_host_mode d \<Longrightarrow> run_trans (incoming_trans_cbs fmt d) crit p d =
    ebind (maybe_redir_port fmt crit p d) (\<lambda>(p1, d1). Inr (maybe_fixup_srcip p1 d1, d1))"
  by (cases "maybe_redir_port fmt crit p d")
    (auto simp: run_trans_def incoming_trans_cbs_def cb_fixup_srcip_def split_beta)


lemma key_differs:
  assumes "src_ip p \<noteq> ip" "CHR '':'' \<notin> set (src_ip p)" "CHR '':'' \<notin> set ip"
    and "pr \<in> {''TCP'', ''UDP''}" "pr' \<in> {''TCP'', ''UDP''}"
  shows "gen_endpoint_key pr (src_ip p) a \<noteq> gen_endpoint_key pr' ip b"
  using gen_endpoint_key_inj [of pr "src_ip p" a pr' ip b] assms by auto

text \<open>The way out: both tables remember the client's endpoint, and the listener sees the packet of the
  client with loopback and the default port as its destination.\<close>

lemma forwarded_out:
  assumes m: "single_host_mode d" and p: "fresh_packet p" "proto p = Some pr"
    and src: "src_ip p \<noteq> ''127.0.0.1''" "CHR '':'' \<notin> set (src_ip p)"
    and nd: "dget (port_fwd_table d) (dkey p) = None"
    and ni: "dget (ip_fwd_table d) (gen_endpoint_key pr ''127.0.0.1'' (dport p)) = None"
    and out1: "run_trans (outgoing_trans_cbs d) c1 p d = Inr (p1, d1)" "dst_ip p1 \<noteq> dst_ip p"
    and in1: "carries p' p1" "run_trans (incoming_trans_cbs fmt d1) c2 p' d1 = Inr (p2, d2)" "dport p2 \<noteq> dport p'"
  shows "src_ip p2 = src_ip p \<and> dst_ip p2 = ''127.0.0.1'' \<and> sport p2 = sport p \<and> proto p2 = Some pr \<and>
    ipver p2 = ipver p \<and> dget (port_fwd_table d2) (skey p) = Some (dport p) \<and>
    dget (ip_fwd_table d2) (skey p) = Some (dst_ip p) \<and> single_host_mode d2 \<and> ip_addrs d2 = ip_addrs d"
proof -
  let ?lo = "''127.0.0.1''"
  have pr: "pr \<in> {''TCP'', ''UDP''}" "is_ip p" "skey p = gen_endpoint_key pr (src_ip p) (sport p)"
    using p by (auto simp: fresh_packet_def)
  have "maybe_fixup_sport p d = p" using nd by (simp add: maybe_fixup_sport_def)
  with out1(1) have r1: "maybe_redir_ip getNewDestinationIp p (c_pid c1) (c_comm c1) d = (p1, d1)"
    by (simp add: run_outgoing [OF m])
  from r1 out1(2) have p1: "p1 = set_dst_ip ?lo p" "ip_fwd_table d1 = dset (skey p) (dst_ip p) (ip_fwd_table d)"
    by (cases rule: maybe_redir_ip_cases [OF r1]; simp add: getNewDestinationIp_def)+
  note f1 = maybe_redir_ip_fields [OF r1]
  have p': "proto p' = Some pr" "is_ip p'" "src_ip p' = src_ip p" "dst_ip p' = ?lo"
    "sport p' = sport p" "dport p' = dport p" "ipver p' = ipver p" "skey p' = skey p"
    "dkey p' = gen_endpoint_key pr ?lo (dport p)"
    using in1(1) p1(1) pr(2,3) p(2) by (auto simp: carries_def fresh_packet_def set_dst_ip_def)
  obtain y where rp: "maybe_redir_port fmt c2 p' d1 = Inr (y, d2)" and p2: "p2 = maybe_fixup_srcip y d2"
    using in1(2) f1 m by (auto simp: run_incoming ebind_Inr_iff)
  note f2 = maybe_redir_port_fields [OF rp]
  have "dport p2 = dport y" by (simp add: p2 maybe_fixup_srcip_def set_src_ip_def split: option.split)
  with in1(3) obtain port where y: "y = set_dport port p'" "port_fwd_table d2 = dset (skey p) (dport p) (port_fwd_table d1)"
    by (cases rule: maybe_redir_port_cases [OF rp]) (auto simp: p')
  have nk: "gen_endpoint_key pr ?lo n \<noteq> skey p" for n
    unfolding pr(3) by (rule key_differs [symmetric]) (use src pr in auto)
  have "dget (ip_fwd_table d2) (dkey y) = None"
    using f2 p1(2) ni nk y(1) p' by (simp add: set_dport_def dict_simps)
  then have "p2 = y" by (simp add: p2 maybe_fixup_srcip_def)
  with p' y f1 f2 p1(2) m show ?thesis by (simp add: set_dport_def dict_simps)
qed

text \<open>The way back: with both entries in place, the answer gets the foreign address and port.\<close>

lemma answered_back:
  assumes m: "single_host_mode d2" and t: "dget (port_fwd_table d2) (gen_endpoint_key pr cip cport) = Some n" "n \<noteq> 0"
      "dget (ip_fwd_table d2) (gen_endpoint_key pr cip cport) = Some ip"
    and q: "fresh_packet q" "proto q = Some pr" "dst_ip q = cip" "dport q = cport"
    and src: "cip \<in> set (local_ips d2 (ipver q))" "cip \<noteq> src_ip q" "CHR '':'' \<notin> set cip" "CHR '':'' \<notin> set (src_ip q)"
    and out2: "run_trans (outgoing_trans_cbs d2) c3 q d2 = Inr (q1, d3)"
    and in2: "carries r q1" "run_trans (incoming_trans_cbs fmt d3) c4 r d3 = Inr (r1, d4)"
  shows "src_ip r1 = ip \<and> sport r1 = n \<and> dst_ip r1 = cip \<and> dport r1 = cport"
proof -
  let ?k = "gen_endpoint_key pr cip cport" and ?q = "set_sport n q"
  have k: "dkey q = ?k" "is_ip q" "skey q = gen_endpoint_key pr (src_ip q) (sport q)" "pr \<in> {''TCP'', ''UDP''}"
    using q by (auto simp: fresh_packet_def)
  have nk: "skey q \<noteq> ?k" using k(4) src by (auto simp: k(3) dest!: gen_endpoint_key_inj)
  have "maybe_fixup_sport q d2 = ?q" using t k by (simp add: maybe_fixup_sport_def)
  with out2 have r2: "maybe_redir_ip getNewDestinationIp ?q (c_pid c3) (c_comm c3) d2 = (q1, d3)"
    by (simp add: run_outgoing [OF m])
  note f3 = maybe_redir_ip_fields [OF r2]
  have q1: "q1 = ?q" "dget (ip_fwd_table d3) ?k = Some ip"
    using src(1) nk t(3) q(3) k
    by (cases rule: maybe_redir_ip_cases [OF r2]; auto simp: dict_simps set_sport_def)+
  have r: "is_ip r" "dst_ip r = cip" "sport r = n" "dport r = cport" "dkey r = ?k"
    using in2(1) q k(2) q1(1) by (auto simp: carries_def fresh_packet_def set_sport_def)
  have pf3: "dget (port_fwd_table d3) (dkey r) \<noteq> None" using f3 t(1) r(5) by simp
  obtain z where rp3: "maybe_redir_port fmt c4 r d3 = Inr (z, d4)" and r1: "r1 = maybe_fixup_srcip z d4"
    using in2(2) f3 m by (auto simp: run_incoming ebind_Inr_iff)
  have z: "z = r" using pf3 by (cases rule: maybe_redir_port_cases [OF rp3]) auto
  have "ip_fwd_table d4 = ip_fwd_table d3" "single_host_mode d4"
    using maybe_redir_port_fields [OF rp3] f3 m by simp_all
  with r1 z r q1(2) show ?thesis by (simp add: maybe_fixup_srcip_def set_src_ip_def)
qed

text \<open>A redirected conversation looks untouched to the client. In SingleHost mode, let a local client
  send a packet to a foreign address and port: the outgoing hook rewrites the address to loopback,
  the incoming hook rewrites the unbound port to the default listener, the listener answers, and
  after the two hooks the answer carries exactly the address and port the client had asked for.\<close>

theorem forwarding_round_trip:
  assumes m: "single_host_mode d" and p: "fresh_packet p" "proto p = Some pr" "dport p \<noteq> 0"
    and src: "src_ip p \<in> set (local_ips d (ipver p))" "src_ip p \<noteq> ''127.0.0.1''" "CHR '':'' \<notin> set (src_ip p)"
    and nd: "dget (port_fwd_table d) (dkey p) = None"
    and ni: "dget (ip_fwd_table d) (gen_endpoint_key pr ''127.0.0.1'' (dport p)) = None"
    and out1: "run_trans (outgoing_trans_cbs d) c1 p d = Inr (p1, d1)" "dst_ip p1 \<noteq> dst_ip p"
    and in1: "carries p' p1" "run_trans (incoming_trans_cbs fmt d1) c2 p' d1 = Inr (p2, d2)" "dport p2 \<noteq> dport p'"
    and out2: "answers_to q p2" "run_trans (outgoing_trans_cbs d2) c3 q d2 = Inr (q1, d3)"
    and in2: "carries r q1" "run_trans (incoming_trans_cbs fmt d3) c4 r d3 = Inr (r1, d4)"
  shows "src_ip r1 = dst_ip p \<and> sport r1 = dport p \<and> dst_ip r1 = src_ip p \<and> dport r1 = sport p"
proof -
  note o = forwarded_out [OF m p(1,2) src(2,3) nd ni out1 in1]
  have "skey p = gen_endpoint_key pr (src_ip p) (sport p)" using p by (auto simp: fresh_packet_def)
  with o have "dget (port_fwd_table d2) (gen_endpoint_key pr (src_ip p) (sport p)) = Some (dport p)"
    "dget (ip_fwd_table d2) (gen_endpoint_key pr (src_ip p) (sport p)) = Some (dst_ip p)" by simp_all
  then show ?thesis
    using o out2(1) src p(3)
    by (intro answered_back [OF _ _ _ _ _ _ _ _ _ _ _ _ out2(2) in2]) (auto simp: answers_to_def local_ips_def)
qed

section \<open>Capture\<close>

interpretation outgoing: packet_callbacks "outgoing_net_cbs x" "outgoing_trans_cbs x" crit for x crit
  by unfold_locales (auto simp: outgoing_net_cbs_def outgoing_trans_cbs_def check_log_nonlocal_def check_log_icmp_def
      cb_redir_ip_def dest: fixup_contract redir_ip_contract split: if_splits)

interpretation incoming: packet_callbacks incoming_net_cbs "incoming_trans_cbs fmt x" crit for fmt x crit
  by unfold_locales (auto simp: incoming_net_cbs_def incoming_trans_cbs_def
      dest: fixup_contract redir_port_contract split: if_splits)

text \<open>The capture is complete: for every packet that passes the Linux hooks, the packet as it arrived is
  written first, and once more as it leaves exactly when it was changed.\<close>

theorem capture_complete:
  assumes "handle_outgoing dp crit raw d = Inr (pkt', d') \<or> handle_incoming fmt dp crit raw d = Inr (pkt', d')"
  shows "\<exists>pkt l. parse_packet dp l raw = Inr pkt \<and>
    pcap d' = pcap d @ [pkt] @ (if mangled pkt' then [pkt'] else [])"
  using assms
proof
  assume "handle_outgoing dp crit raw d = Inr (pkt', d')"
  with outgoing.pcap_handle [of crit d False _ d pkt' d'] show ?thesis
    by (auto simp: handle_outgoing_def ebind_Inr_iff)
next
  assume "handle_incoming fmt dp crit raw d = Inr (pkt', d')"
  with incoming.pcap_handle [of crit fmt d False _ d pkt' d'] show ?thesis
    by (auto simp: handle_incoming_def ebind_Inr_iff)
qed

section \<open>Witnesses\<close>

definition packet_of :: "string \<Rightarrow> string \<Rightarrow> int \<Rightarrow> string \<Rightarrow> int \<Rightarrow> PacketCtx" where
  "packet_of pr s sp dst dp = \<lparr>label = [], mangled = False, ipver = 4, is_ip = True, is_icmp = False,
     proto_num = Some 6, proto = Some pr, src_ip0 = s, src_ip = s, dst_ip0 = dst, dst_ip = dst, sport0 = sp,
     sport = sp, dport0 = dp, dport = dp, skey = gen_endpoint_key pr s sp, dkey = gen_endpoint_key pr dst dp\<rparr>"

lemma packet_of_fresh: "pr \<in> {''TCP'', ''UDP''} \<Longrightarrow> fresh_packet (packet_of pr s sp dst dp)"
  by (simp add: packet_of_def fresh_packet_def)

definition demo_diverter :: diverter where
  "demo_diverter = (new_diverter [(''redirectalltraffic'', Text ''Yes'')] [] [(4, [''192.168.1.5'', ''127.0.0.1''])]
     4000 ''127.0.0.1'' ''disabled'' demo_ports)\<lparr>default_listener := [(''TCP'', Some 1337)]\<rparr>"

definition demo_crit :: DivertParms where
  "demo_crit = \<lparr>c_pid = Some 77, c_comm = Some ''sample.exe''\<rparr>"

definition demo_fmt :: formatter where
  "demo_fmt t args = Inr t"

lemmas divert_eval = demo_diverter_def demo_crit_def demo_ports_def new_diverter_def new_listener_def
  packet_of_def run_outgoing run_incoming maybe_fixup_sport_def maybe_redir_ip_def maybe_redir_port_def
  maybe_fixup_srcip_def check_should_ignore_def option_set_def ignore_process_def proto_of_def
  isProcessBlackListHit_def isProcessWhiteListMiss_def isHostWhiteListMiss_def isHostBlackListHit_def
  isWhiteListMiss_def isBlackListHit_def getListenerMeta_def given_def blacklisted_ports_def
  host_blacklisted_def listener_initiated_def local_ips_def set_dst_ip_def set_src_ip_def set_sport_def
  set_dport_def dport_hidden_listener_def isHidden_def decide_redir_port_def getPortList_def
  note_session_def first_packet_new_session_def addSession_def maybeExecuteCmd_def build_cmd_def
  getExecuteCmd_def delete_stale_port_fwd_key_def getNewDestinationIp_def gen_endpoint_key_def

definition demo_out :: "PacketCtx \<times> diverter" where
  "demo_out = maybe_redir_ip getNewDestinationIp (packet_of ''TCP'' ''192.168.1.5'' 50000 ''93.184.216.34'' 5000)
     (Some 77) (Some ''sample.exe'') demo_diverter"

lemma demo_out_run:
  "run_trans (outgoing_trans_cbs demo_diverter) demo_crit (packet_of ''TCP'' ''192.168.1.5'' 50000 ''93.184.216.34'' 5000)
     demo_diverter = Inr demo_out"
  "src_ip (fst demo_out) = ''192.168.1.5''" "dst_ip (fst demo_out) = ''127.0.0.1''" "sport (fst demo_out) = 50000"
  "dport (fst demo_out) = 5000" "proto (fst demo_out) = Some ''TCP''" "ipver (fst demo_out) = 4"
  by (simp_all add: demo_out_def divert_eval py_eval)

definition demo_in :: "PacketCtx \<times> diverter" where
  "demo_in = (case maybe_redir_port demo_fmt demo_crit (packet_of ''TCP'' ''192.168.1.5'' 50000 ''127.0.0.1'' 5000)
     (snd demo_out) of Inr x \<Rightarrow> x | Inl _ \<Rightarrow> demo_out)"

lemma demo_in_run:
  "run_trans (incoming_trans_cbs demo_fmt (snd demo_out)) demo_crit
     (packet_of ''TCP'' ''192.168.1.5'' 50000 ''127.0.0.1'' 5000) (snd demo_out) = Inr demo_in"
  "src_ip (fst demo_in) = ''192.168.1.5''" "dst_ip (fst demo_in) = ''127.0.0.1''" "sport (fst demo_in) = 50000"
  "dport (fst demo_in) = 1337" "proto (fst demo_in) = Some ''TCP''" "ipver (fst demo_in) = 4"
  by (simp_all add: demo_in_def demo_out_def divert_eval py_eval)

definition demo_back :: "PacketCtx \<times> diverter" where
  "demo_back = maybe_redir_ip getNewDestinationIp
     (maybe_fixup_sport (packet_of ''TCP'' ''127.0.0.1'' 1337 ''192.168.1.5'' 50000) (snd demo_in))
     (Some 4000) None (snd demo_in)"

definition demo_own :: DivertParms where
  "demo_own = \<lparr>c_pid = Some 4000, c_comm = None\<rparr>"

lemma demo_back_run:
  "run_trans (outgoing_trans_cbs (snd demo_in)) demo_own (packet_of ''TCP'' ''127.0.0.1'' 1337 ''192.168.1.5'' 50000)
     (snd demo_in) = Inr demo_back"
  "src_ip (fst demo_back) = ''127.0.0.1''" "dst_ip (fst demo_back) = ''192.168.1.5''" "sport (fst demo_back) = 5000"
  "dport (fst demo_back) = 50000" "proto (fst demo_back) = Some ''TCP''" "ipver (fst demo_back) = 4"
  by (simp_all add: demo_back_def demo_in_def demo_out_def demo_own_def divert_eval py_eval)

definition demo_last :: "PacketCtx \<times> diverter" where
  "demo_last = (maybe_fixup_srcip (packet_of ''TCP'' ''127.0.0.1'' 5000 ''192.168.1.5'' 50000) (snd demo_back), snd demo_back)"

lemma demo_last_run:
  "run_trans (incoming_trans_cbs demo_fmt (snd demo_back)) demo_own
     (packet_of ''TCP'' ''127.0.0.1'' 5000 ''192.168.1.5'' 50000) (snd demo_back) = Inr demo_last"
  by (simp add: demo_last_def demo_back_def demo_in_def demo_out_def demo_own_def divert_eval py_eval)

theorem forwarding_round_trip_witness:
  "src_ip (fst demo_last) = ''93.184.216.34'' \<and> sport (fst demo_last) = 5000"
proof -
  let ?p = "packet_of ''TCP'' ''192.168.1.5'' 50000 ''93.184.216.34'' 5000"
  have "src_ip (fst demo_last) = dst_ip ?p \<and> sport (fst demo_last) = dport ?p \<and>
    dst_ip (fst demo_last) = src_ip ?p \<and> dport (fst demo_last) = sport ?p"
    by (rule forwarding_round_trip [where d = demo_diverter and pr = "''TCP''" and ?p1.0 = "fst demo_out" and
        ?d1.0 = "snd demo_out" and ?d2.0 = "snd demo_in" and ?p2.0 = "fst demo_in" and ?q1.0 = "fst demo_back" and
        ?d3.0 = "snd demo_back" and ?d4.0 = "snd demo_last" and ?c1.0 = demo_crit and ?c2.0 = demo_crit and
        ?c3.0 = demo_own and ?c4.0 = demo_own and fmt = demo_fmt and
        p' = "packet_of ''TCP'' ''192.168.1.5'' 50000 ''127.0.0.1'' 5000" and
        q = "packet_of ''TCP'' ''127.0.0.1'' 1337 ''192.168.1.5'' 50000" and
        r = "packet_of ''TCP'' ''127.0.0.1'' 5000 ''192.168.1.5'' 50000"])
      (simp_all only: prod.collapse demo_out_run demo_in_run demo_back_run demo_last_run carries_def answers_to_def,
       simp_all add: packet_of_fresh, simp_all add: packet_of_def demo_diverter_def new_diverter_def local_ips_def py_eval)
  then show ?thesis by (simp add: packet_of_def)
qed

theorem ignored_packet_untouched_witness:
  "\<exists>d1. maybe_redir_port demo_fmt demo_crit (packet_of ''TCP'' ''192.168.1.5'' 50000 ''10.9.8.7'' 5000)
     (demo_diverter\<lparr>blacklist_processes := [''sample.exe'']\<rparr>) =
       Inr (packet_of ''TCP'' ''192.168.1.5'' 50000 ''10.9.8.7'' 5000, d1)"
proof -
  let ?p = "packet_of ''TCP'' ''192.168.1.5'' 50000 ''10.9.8.7'' 5000"
  let ?d = "demo_diverter\<lparr>blacklist_processes := [''sample.exe'']\<rparr>"
  obtain p1 d1 where r: "maybe_redir_port demo_fmt demo_crit ?p ?d = Inr (p1, d1)"
    by (simp add: divert_eval py_eval)
  obtain p2 d2 where i: "maybe_redir_ip id ?p (c_pid demo_crit) (c_comm demo_crit) ?d = (p2, d2)" by force
  have "fst (check_should_ignore ?p (c_pid demo_crit) (c_comm demo_crit) ?d)"
    by (simp add: divert_eval py_eval)
  from ignored_packet_untouched [OF this r i, of 0] r show ?thesis by blast
qed

definition demo_dpkt4 :: dpkt where
  "demo_dpkt4 = \<lparr>dpkt_ip = (\<lambda>raw. Inr \<lparr>v_hl = 5, v_proto = 1, v_sum = 0, v_src = [10, 0, 0, 1],
     v_dst = [8, 8, 8, 8], v_data = None, v_icmp_id = None\<rparr>), dpkt_ip6 = (\<lambda>_. Inl (ValueError []))\<rparr>"

theorem capture_complete_witness:
  "\<exists>pkt' d'. handle_outgoing demo_dpkt4 demo_crit ([0x45, 0, 0, 20]) (demo_diverter\<lparr>single_host_mode := False\<rparr>) =
     Inr (pkt', d') \<and> length (pcap d') = 1"
proof -
  let ?d = "demo_diverter\<lparr>single_host_mode := False\<rparr>"
  obtain pkt' d' where h: "handle_outgoing demo_dpkt4 demo_crit ([0x45, 0, 0, 20]) ?d = Inr (pkt', d')"
    and m: "\<not> mangled pkt'"
    by (simp add: handle_outgoing_def parse_packet_def ip_version_def parseIpv4_def parseIp_def demo_dpkt4_def
        inet_ntoa_def handled_protocols_def dget_def new_packet_def parseIcmp_def handle_pkt_def Let_def
        outgoing_net_cbs_def announce_def)
  have "pcap ?d = []" by (simp add: demo_diverter_def new_diverter_def)
  with capture_complete [OF disjI1 [OF h]] m h show ?thesis by auto
qed

end
