(* ===== verification/LinuxNetPolicy.thy ===== *)
theory LinuxNetPolicy
  imports IpAddress
begin

text \<open>
  \<open>fakenet/diverters/linuxnetpolicy.py\<close>: the iptables rules that block IPv6 and exempt the control
  links, and the bookkeeping of the rules the policy owns. The commands are run by the operating
  system: \<open>run argv w\<close> is the return code and the new state of the packet filter \<open>w\<close>. What the policy
  relies on (\<open>-C\<close> only looks, \<open>-I\<close> that succeeds adds, \<open>-D\<close> only takes away) is stated as
  hypotheses of the properties.
\<close>

section \<open>Rules\<close>

type_synonym argv = "string list"
type_synonym 'w runner = "argv \<Rightarrow> 'w \<Rightarrow> int \<times> 'w"

definition POLICY_COMMENT :: string where
  "POLICY_COMMENT = ''fakenet-ng-linux''"

definition IP6_DEFAULT_CHAIN :: string where
  "IP6_DEFAULT_CHAIN = ''OUTPUT''"

text \<open>The command with the first \<open>-I\<close> replaced; \<open>None\<close> when there is none.\<close>

fun replace_op :: "string \<Rightarrow> argv \<Rightarrow> argv option" where
  "replace_op new [] = None"
| "replace_op new (a # as) = (if a = ''-I'' then Some (new # as) else map_option ((#) a) (replace_op new as))"

definition rule_remove :: "'w runner \<Rightarrow> argv \<Rightarrow> 'w \<Rightarrow> bool \<times> 'w" where
  "rule_remove run argv w = (case replace_op ''-D'' argv of
       None \<Rightarrow> (False, w)
     | Some c \<Rightarrow> (case run c w of (rc, w') \<Rightarrow> (rc = 0, w')))"

definition rule_exists :: "'w runner \<Rightarrow> argv \<Rightarrow> 'w \<Rightarrow> bool result \<times> 'w" where
  "rule_exists run argv w = (case replace_op ''-C'' argv of
       None \<Rightarrow> (Inl (ValueError ''-I''), w)
     | Some c \<Rightarrow> (case run c w of (rc, w') \<Rightarrow>
         (if rc = 0 \<or> rc = 1 then Inr (rc = 0) else Inl (RuntimeError ''policy rule probe failed''), w')))"

definition tagged :: "string \<Rightarrow> string \<Rightarrow> string \<Rightarrow> string list \<Rightarrow> string \<Rightarrow> argv" where
  "tagged binary tbl chain spec target = [binary, ''-t'', tbl, ''-I'', chain] @ spec @
     [''-m'', ''comment'', ''--comment'', POLICY_COMMENT, ''-j'', target]"

section \<open>State\<close>

record NetPolicy =
  control_endpoints :: "(string \<times> int) list"
  owned :: "argv list"
  mode :: "string option"

definition is_v4 :: "string \<Rightarrow> bool" where
  "is_v4 ip = (case ip_address ip of Some (IPv4 _) \<Rightarrow> True | _ \<Rightarrow> False)"

definition is_v6 :: "string \<Rightarrow> bool" where
  "is_v6 ip = (case ip_address ip of None \<Rightarrow> False | Some (IPv4 _) \<Rightarrow> False | Some _ \<Rightarrow> True)"

definition check_endpoint :: "string \<times> int \<Rightarrow> (string \<times> int) result" where
  "check_endpoint = (\<lambda>(ip, port).
     if ip_address ip = None then Inl (ValueError ip)
     else if \<not> (0 < port \<and> port < 65536) then Inl (ValueError ''bad control port'')
     else Inr (ip, port))"

definition new_net_policy :: "(string \<times> int) list \<Rightarrow> NetPolicy result" where
  "new_net_policy eps = ebind (emap check_endpoint eps) (\<lambda>es.
     Inr \<lparr>control_endpoints = es, owned = [], mode = None\<rparr>)"

definition v4_rules :: "(string \<times> int) list \<Rightarrow> argv list" where
  "v4_rules eps =
     [tagged ''iptables'' ''mangle'' ''INPUT'' [''-i'', ''lo'', ''-s'', ''127.0.0.0/8'', ''-d'', ''127.0.0.0/8''] ''ACCEPT'',
      tagged ''iptables'' ''raw'' ''OUTPUT'' [''-o'', ''lo''] ''ACCEPT''] @
     concat (map (\<lambda>(ip, port). if is_v4 ip then
       [tagged ''iptables'' ''raw'' ''OUTPUT'' [''-p'', ''tcp'', ''-d'', ip, ''--sport'', show_int port] ''ACCEPT'',
        tagged ''iptables'' ''mangle'' ''INPUT'' [''-p'', ''tcp'', ''-s'', ip, ''--dport'', show_int port] ''ACCEPT'']
       else []) eps)"

definition v6_rules :: "(string \<times> int) list \<Rightarrow> argv list" where
  "v6_rules eps =
     [tagged ''ip6tables'' ''filter'' IP6_DEFAULT_CHAIN [] ''DROP'',
      tagged ''ip6tables'' ''filter'' IP6_DEFAULT_CHAIN [''-d'', ''::1''] ''ACCEPT''] @
     concat (map (\<lambda>(ip, port). if is_v6 ip then
       [tagged ''ip6tables'' ''filter'' IP6_DEFAULT_CHAIN
          [''-p'', ''tcp'', ''-d'', lower ip, ''--sport'', show_int port] ''ACCEPT'']
       else []) eps)"

section \<open>Operations\<close>

definition legacy_rules :: "nat \<Rightarrow> (string \<times> int) list \<Rightarrow> argv list" where
  "legacy_rules family eps =
     (if family = 4 then
        [''iptables'', ''-t'', ''raw'', ''-I'', ''OUTPUT'', ''-p'', ''tcp'', ''-j'', ''ACCEPT''] #
        map (\<lambda>(ip, _). [''iptables'', ''-t'', ''mangle'', ''-I'', ''INPUT'', ''-s'', ip, ''-j'', ''ACCEPT''])
          (filter (\<lambda>(ip, _). is_v4 ip) eps)
      else
        [''ip6tables'', ''-I'', IP6_DEFAULT_CHAIN, ''-j'', ''DROP''] #
        map (\<lambda>(ip, _). [''ip6tables'', ''-I'', IP6_DEFAULT_CHAIN, ''-d'', lower ip, ''-j'', ''ACCEPT''])
          (filter (\<lambda>(ip, _). is_v6 ip) eps))"

text \<open>\<open>any(...)\<close> over the candidates: stops at the first one that exists.\<close>

fun any_exists :: "'w runner \<Rightarrow> argv list \<Rightarrow> 'w \<Rightarrow> bool result \<times> 'w" where
  "any_exists run [] w = (Inr False, w)"
| "any_exists run (r # rs) w = (case rule_exists run r w of
     (Inl e, w') \<Rightarrow> (Inl e, w')
   | (Inr True, w') \<Rightarrow> (Inr True, w')
   | (Inr False, w') \<Rightarrow> any_exists run rs w')"

definition refuse_legacy :: "'w runner \<Rightarrow> nat \<Rightarrow> NetPolicy \<Rightarrow> 'w \<Rightarrow> unit result \<times> 'w" where
  "refuse_legacy run family p w = (case any_exists run (legacy_rules family (control_endpoints p)) w of
       (Inl e, w') \<Rightarrow> (Inl e, w')
     | (Inr True, w') \<Rightarrow> (Inl (RuntimeError ''unowned legacy policy rule; explicit recovery required''), w')
     | (Inr False, w') \<Rightarrow> (Inr (), w'))"

fun install :: "'w runner \<Rightarrow> argv list \<Rightarrow> NetPolicy \<Rightarrow> 'w \<Rightarrow> unit result \<times> NetPolicy \<times> 'w" where
  "install run [] p w = (Inr (), p, w)"
| "install run (r # rs) p w = (case rule_exists run r w of
     (Inl e, w1) \<Rightarrow> (Inl e, p, w1)
   | (Inr there, w1) \<Rightarrow> (case (if there then (0, w1) else run r w1) of (rc, w2) \<Rightarrow>
       if rc \<noteq> 0 then (Inl (RuntimeError ''policy rule insertion failed''), p, w2)
       else install run rs (if r \<in> set (owned p) then p else p\<lparr>owned := owned p @ [r]\<rparr>) w2))"

definition install_family :: "'w runner \<Rightarrow> nat \<Rightarrow> argv list \<Rightarrow> NetPolicy \<Rightarrow> 'w \<Rightarrow> unit result \<times> NetPolicy \<times> 'w" where
  "install_family run family rules p w = (case refuse_legacy run family p w of
       (Inl e, w1) \<Rightarrow> (Inl e, p, w1)
     | (Inr _, w1) \<Rightarrow> install run rules p w1)"

definition install_control_exclusions_v4 :: "'w runner \<Rightarrow> NetPolicy \<Rightarrow> 'w \<Rightarrow> unit result \<times> NetPolicy \<times> 'w" where
  "install_control_exclusions_v4 run p w = install_family run 4 (v4_rules (control_endpoints p)) p w"

definition block_ipv6 :: "'w runner \<Rightarrow> NetPolicy \<Rightarrow> 'w \<Rightarrow> unit result \<times> NetPolicy \<times> 'w" where
  "block_ipv6 run p w = install_family run 6 (v6_rules (control_endpoints p)) p w"

text \<open>One round of the loop in \<open>_remove_all_owned\<close>: a rule stays owned when it is still there or a probe
  raised.\<close>

definition try_remove :: "'w runner \<Rightarrow> argv \<Rightarrow> 'w \<Rightarrow> bool \<times> 'w" where
  "try_remove run r w = (case rule_exists run r w of
       (Inl _, w1) \<Rightarrow> (True, w1)
     | (Inr there, w1) \<Rightarrow>
         (case rule_exists run r (if there then snd (rule_remove run r w1) else w1) of
            (Inl _, w2) \<Rightarrow> (True, w2)
          | (Inr still, w2) \<Rightarrow> (still, w2)))"

fun remove_rules :: "'w runner \<Rightarrow> argv list \<Rightarrow> 'w \<Rightarrow> argv list \<times> 'w" where
  "remove_rules run [] w = ([], w)"
| "remove_rules run (r # rs) w = (case try_remove run r w of (stays, w1) \<Rightarrow>
     (case remove_rules run rs w1 of (remaining, w2) \<Rightarrow> ((if stays then [r] else []) @ remaining, w2)))"

definition remove_all_owned :: "'w runner \<Rightarrow> NetPolicy \<Rightarrow> 'w \<Rightarrow> unit result \<times> NetPolicy \<times> 'w" where
  "remove_all_owned run p w = (case remove_rules run (owned p) w of (remaining, w1) \<Rightarrow>
     (if remaining = [] then Inr () else Inl (RuntimeError ''owned policy rules remain after cleanup''),
      p\<lparr>owned := remaining\<rparr>, w1))"

text \<open>\<open>set_mode\<close>; the two callables of the diverter are arguments on the filter state.\<close>

definition set_mode :: "'w runner \<Rightarrow> ('w \<Rightarrow> 'w) \<Rightarrow> ('w \<Rightarrow> 'w) \<Rightarrow> string \<Rightarrow> NetPolicy \<Rightarrow> 'w \<Rightarrow>
    unit result \<times> NetPolicy \<times> 'w" where
  "set_mode run pause resume m p w = (let m = lower m in
     if m \<notin> set [''isolated'', ''real''] then (Inl (ValueError ''mode must be isolated|real''), p, w)
     else if Some m = mode p then (Inr (), p, w)
     else if m = ''real'' then
       (case remove_all_owned run p w of
          (Inl e, p1, w1) \<Rightarrow> (Inl e, p1, w1)
        | (Inr _, p1, w1) \<Rightarrow> (Inr (), p1\<lparr>mode := Some m\<rparr>, pause w1))
     else
       (case install_control_exclusions_v4 run p (resume w) of
          (Inl e, p1, w1) \<Rightarrow> (Inl e, p1, w1)
        | (Inr _, p1, w1) \<Rightarrow>
            (case block_ipv6 run p1 w1 of
               (Inl e, p2, w2) \<Rightarrow> (Inl e, p2, w2)
             | (Inr _, p2, w2) \<Rightarrow> (Inr (), p2\<lparr>mode := Some m\<rparr>, w2))))"

text \<open>\<open>stop\<close>: the answer says whether the IPv6 block is gone.\<close>

definition stop :: "'w runner \<Rightarrow> NetPolicy \<Rightarrow> 'w \<Rightarrow> bool result \<times> NetPolicy \<times> 'w" where
  "stop run p w = (case remove_all_owned run p w of
       (Inl e, p1, w1) \<Rightarrow> (Inl e, p1, w1)
     | (Inr _, p1, w1) \<Rightarrow>
         (case rule_exists run (hd (v6_rules (control_endpoints p1))) w1 of
            (Inl e, w2) \<Rightarrow> (Inl e, p1, w2)
          | (Inr leftover, w2) \<Rightarrow> (Inr (\<not> leftover), p1, w2)))"

fun adopt :: "'w runner \<Rightarrow> argv list \<Rightarrow> 'w \<Rightarrow> argv list result \<times> 'w" where
  "adopt run [] w = (Inr [], w)"
| "adopt run (r # rs) w = (case rule_exists run r w of
     (Inl e, w1) \<Rightarrow> (Inl e, w1)
   | (Inr False, w1) \<Rightarrow> adopt run rs w1
   | (Inr True, w1) \<Rightarrow>
       (case rule_remove run r w1 of
          (False, w2) \<Rightarrow> (Inl (RuntimeError ''owned policy adoption failed''), w2)
        | (True, w2) \<Rightarrow>
            (case rule_exists run r w2 of
               (Inl e, w3) \<Rightarrow> (Inl e, w3)
             | (Inr True, w3) \<Rightarrow> (Inl (RuntimeError ''owned policy adoption failed''), w3)
             | (Inr False, w3) \<Rightarrow> (case adopt run rs w3 of
                   (Inl e, w4) \<Rightarrow> (Inl e, w4) | (Inr xs, w4) \<Rightarrow> (Inr (r # xs), w4)))))"

definition adopt_leftovers :: "'w runner \<Rightarrow> NetPolicy \<Rightarrow> 'w \<Rightarrow> argv list result \<times> 'w" where
  "adopt_leftovers run p w = adopt run (v4_rules (control_endpoints p) @ v6_rules (control_endpoints p) @
     [tagged ''iptables'' ''mangle'' ''INPUT'' [''-i'', ''lo''] ''ACCEPT'']) w"

section \<open>What the policy relies on\<close>

text \<open>\<open>present w r\<close>: the filter holds a rule matching the insertion command \<open>r\<close>. Probing changes nothing and
  succeeds exactly when it does; a successful insertion adds the rule and loses none; a deletion
  adds none.\<close>

definition is_op :: "string \<Rightarrow> bool" where
  "is_op a \<longleftrightarrow> a \<in> {''-I'', ''-C'', ''-D''}"

text \<open>An insertion command: its first operation is \<open>-I\<close>.\<close>

definition insertion :: "argv \<Rightarrow> bool" where
  "insertion r \<longleftrightarrow> (\<exists>post. dropWhile (\<lambda>a. \<not> is_op a) r = ''-I'' # post)"

definition filter_laws :: "'w runner \<Rightarrow> ('w \<Rightarrow> argv \<Rightarrow> bool) \<Rightarrow> bool" where
  "filter_laws run present \<longleftrightarrow>
     (\<forall>r c w. insertion r \<longrightarrow> replace_op ''-C'' r = Some c \<longrightarrow>
        snd (run c w) = w \<and> (fst (run c w) = 0 \<longleftrightarrow> present w r)) \<and>
     (\<forall>r w. insertion r \<longrightarrow> fst (run r w) = 0 \<longrightarrow>
        present (snd (run r w)) r \<and> (\<forall>s. present w s \<longrightarrow> present (snd (run r w)) s)) \<and>
     (\<forall>r c w s. insertion r \<longrightarrow> replace_op ''-D'' r = Some c \<longrightarrow>
        present (snd (run c w)) s \<longrightarrow> present w s)"

lemma rule_exists_law:
  assumes l: "filter_laws run present" and i: "insertion r" and x: "rule_exists run r w = (y, w')"
  shows "w' = w" "y = Inr b \<Longrightarrow> present w r = b"
proof -
  have "w' = w \<and> (y = Inr b \<longrightarrow> present w r = b)"
  proof (cases "replace_op ''-C'' r")
    case None
    with x show ?thesis by (auto simp: rule_exists_def)
  next
    case (Some c)
    with l i have "snd (run c w) = w" "fst (run c w) = 0 \<longleftrightarrow> present w r" unfolding filter_laws_def by blast+
    with x Some show ?thesis by (auto simp: rule_exists_def split_beta split: if_splits)
  qed
  then show "w' = w" "y = Inr b \<Longrightarrow> present w r = b" by auto
qed

lemma rule_remove_law:
  assumes "filter_laws run present" "present (snd (rule_remove run r w)) s" "insertion r"
  shows "present w s"
proof (cases "replace_op ''-D'' r")
  case None
  with assms(2) show ?thesis by (simp add: rule_remove_def)
next
  case (Some c)
  with assms(2) have "present (snd (run c w)) s" by (simp add: rule_remove_def split_beta)
  with assms(1,3) Some show ?thesis unfolding filter_laws_def by blast
qed

lemma tagged_insertion:
  assumes "binary \<in> {''iptables'', ''ip6tables''}" "tbl \<in> {''mangle'', ''raw'', ''filter''}"
  shows "insertion (tagged binary tbl chain spec target)"
  using assms by (auto simp: insertion_def tagged_def is_op_def)

lemma rules_insertion:
  "r \<in> set (v4_rules eps) \<Longrightarrow> insertion r" "r \<in> set (v6_rules eps) \<Longrightarrow> insertion r"
  "r \<in> set (legacy_rules f eps) \<Longrightarrow> insertion r"
  by (auto simp: v4_rules_def v6_rules_def intro: tagged_insertion split: if_splits)
    (auto simp: legacy_rules_def insertion_def is_op_def split: if_splits)

section \<open>Installing\<close>

lemma install_ok:
  assumes "filter_laws run present" "install run rs p w = (Inr (), p', w')" "\<forall>r \<in> set rs. insertion r"
  shows "(\<forall>r \<in> set rs. present w' r \<and> r \<in> set (owned p')) \<and> (\<forall>s. present w s \<longrightarrow> present w' s) \<and>
    set (owned p) \<subseteq> set (owned p') \<and> control_endpoints p' = control_endpoints p"
  using assms(2,3)
proof (induction rs arbitrary: p w)
  case (Cons r rs)
  obtain y w1 where x: "rule_exists run r w = (y, w1)" by force
  with Cons.prems obtain b where b: "y = Inr b" by (cases y) auto
  have i: "insertion r" using Cons.prems(2) by simp
  note e = rule_exists_law [OF assms(1) i x]
  obtain rc w2 where r: "(if b then (0, w1) else run r w1) = (rc, w2)" by force
  let ?p = "if r \<in> set (owned p) then p else p\<lparr>owned := owned p @ [r]\<rparr>"
  from Cons.prems x b r have rc: "rc = 0" and rest: "install run rs ?p w2 = (Inr (), p', w')"
    by (auto split: if_splits)
  have "present w2 r \<and> (\<forall>s. present w s \<longrightarrow> present w2 s)"
  proof (cases b)
    case True
    with e b r show ?thesis by auto
  next
    case False
    with r e(1) have "run r w = (rc, w2)" by simp
    with assms(1) i rc show ?thesis unfolding filter_laws_def by (metis fst_conv snd_conv)
  qed
  with Cons.IH [OF rest] Cons.prems(2) show ?case by (auto split: if_splits)
qed simp

lemma install_family_ok:
  assumes "filter_laws run present" "install_family run f rs p w = (Inr (), p', w')" "\<forall>r \<in> set rs. insertion r"
  shows "(\<forall>r \<in> set rs. present w' r \<and> r \<in> set (owned p')) \<and> (\<forall>s. present w s \<longrightarrow> present w' s) \<and>
    set (owned p) \<subseteq> set (owned p') \<and> control_endpoints p' = control_endpoints p"
proof -
  have ae: "\<forall>r \<in> set rs. insertion r \<Longrightarrow> snd (any_exists run rs w) = w" for rs
    by (induction rs) (auto split: prod.split sum.split bool.split dest: rule_exists_law(1) [OF assms(1)])
  have "snd (refuse_legacy run f p w) = w"
    using ae [of "legacy_rules f (control_endpoints p)"] rules_insertion(3)
    by (auto simp: refuse_legacy_def split: prod.splits sum.splits bool.splits)
  with assms(2) have "install run rs p w = (Inr (), p', w')"
    by (auto simp: install_family_def split: prod.splits sum.splits)
  with assms(1) show ?thesis using assms(3) by (rule install_ok)
qed

section \<open>Removing\<close>

lemma try_remove_law:
  assumes l: "filter_laws run present" and i: "insertion r" and t: "try_remove run r w = (stays, w')"
  shows "(present w' s \<longrightarrow> present w s) \<and> (\<not> stays \<longrightarrow> \<not> present w' r)"
proof -
  obtain y w1 where x: "rule_exists run r w = (y, w1)" by force
  note w1 = rule_exists_law(1) [OF l i x]
  show ?thesis
  proof (cases y)
    case (Inl e)
    with t x w1 show ?thesis by (simp add: try_remove_def)
  next
    case (Inr b)
    let ?w = "if b then snd (rule_remove run r w1) else w1"
    obtain z w2 where x2: "rule_exists run r ?w = (z, w2)" by force
    note w2 = rule_exists_law [OF l i x2]
    have "present ?w s \<longrightarrow> present w s" using rule_remove_law [OF l _ i] w1 by auto
    with t x Inr x2 w2 show ?thesis by (auto simp: try_remove_def split: sum.splits)
  qed
qed

lemma remove_rules_law:
  assumes l: "filter_laws run present" and t: "remove_rules run rs w = (remaining, w')"
    and i: "\<forall>r \<in> set rs. insertion r"
  shows "(present w' s \<longrightarrow> present w s) \<and> set remaining \<subseteq> set rs \<and>
    (\<forall>r \<in> set rs - set remaining. \<not> present w' r)"
  using t i
proof (induction rs arbitrary: w remaining s)
  case (Cons r rs)
  obtain st w1 where x: "try_remove run r w = (st, w1)" by force
  obtain rem where y: "remove_rules run rs w1 = (rem, w')" "remaining = (if st then [r] else []) @ rem"
    using Cons.prems x by (auto split: prod.splits)
  from Cons.IH [OF y(1)] Cons.prems(2) have ih: "\<And>s. present w' s \<longrightarrow> present w1 s" "set rem \<subseteq> set rs"
    "\<forall>r \<in> set rs - set rem. \<not> present w' r" by auto
  with try_remove_law [OF l _ x] Cons.prems(2) y(2) show ?case by (auto split: if_splits)
qed auto

section \<open>Properties\<close>

text \<open>C39. Isolation is not claimed before it is in force: when the switch to isolated mode succeeds, the
  IPv6 block, its exemptions and every control-link exemption are in the packet filter, and the policy
  owns each of them, so that it can take them away again.\<close>

theorem isolation_in_force:
  assumes "filter_laws run present" and "set_mode run pause resume ''isolated'' p w = (Inr (), p', w')"
    and "mode p \<noteq> Some ''isolated''"
  shows "\<forall>r \<in> set (v4_rules (control_endpoints p) @ v6_rules (control_endpoints p)).
    present w' r \<and> r \<in> set (owned p')"
proof -
  have lo: "lower ''isolated'' = ''isolated''" by (simp add: py_eval)
  from assms(2,3) obtain p1 w1 p2 where
    a: "install_control_exclusions_v4 run p (resume w) = (Inr (), p1, w1)"
    and b: "block_ipv6 run p1 w1 = (Inr (), p2, w')" and p': "p' = p2\<lparr>mode := Some ''isolated''\<rparr>"
    by (auto simp: set_mode_def lo split: prod.splits sum.splits)
  note i4 = install_family_ok [OF assms(1) a [unfolded install_control_exclusions_v4_def]]
  note i6 = install_family_ok [OF assms(1) b [unfolded block_ipv6_def]]
  from i4 i6 p' rules_insertion show ?thesis by auto
qed

text \<open>C40. A stop that reports success leaves nothing behind: no rule the policy owned is in the packet
  filter any more and the policy owns none. When it fails, the rules it could not remove stay on its
  list, so that a later stop tries them again.\<close>

theorem stop_leaves_nothing:
  assumes "filter_laws run present" and "stop run p w = (res, p', w')" and "\<forall>r \<in> set (owned p). insertion r"
  shows "(\<forall>b. res = Inr b \<longrightarrow> owned p' = [] \<and> (\<forall>r \<in> set (owned p). \<not> present w' r)) \<and>
    (\<forall>r \<in> set (owned p). present w' r \<longrightarrow> r \<in> set (owned p'))"
proof -
  obtain remaining w1 where r: "remove_rules run (owned p) w = (remaining, w1)" by force
  have hd: "insertion (hd (v6_rules eps))" for eps
    by (rule rules_insertion(2) [of _ eps]) (simp add: v6_rules_def)
  have s: "w' = w1 \<and> owned p' = remaining \<and> (\<forall>b. res = Inr b \<longrightarrow> remaining = [])"
    using assms(2) r rule_exists_law(1) [OF assms(1) hd]
    by (auto simp: stop_def remove_all_owned_def split: prod.splits sum.splits if_splits)
  have "\<forall>r \<in> set (owned p) - set remaining. \<not> present w1 r"
    using remove_rules_law [OF assms(1) r assms(3)] by blast
  with s show ?thesis by auto
qed

section \<open>Witnesses\<close>

text \<open>A packet filter that holds rules, the newest at the head: a rule is what stands before and after the
  operation.\<close>

definition rule_of :: "argv \<Rightarrow> argv \<times> argv" where
  "rule_of c = (takeWhile (\<lambda>a. \<not> is_op a) c, tl (dropWhile (\<lambda>a. \<not> is_op a) c))"

definition list_filter :: "(argv \<times> argv) list runner" where
  "list_filter c w = (case dropWhile (\<lambda>a. \<not> is_op a) c of
       [] \<Rightarrow> (2, w)
     | opr # _ \<Rightarrow>
         if opr = ''-C'' then (if rule_of c \<in> set w then 0 else 1, w)
         else if opr = ''-D'' then (if rule_of c \<in> set w then (0, remove1 (rule_of c) w) else (1, w))
         else (0, rule_of c # w))"

lemma replace_first_op:
  assumes "insertion r" "replace_op x r = Some c" "is_op x"
  shows "dropWhile (\<lambda>a. \<not> is_op a) c = x # tl (dropWhile (\<lambda>a. \<not> is_op a) r) \<and>
    takeWhile (\<lambda>a. \<not> is_op a) c = takeWhile (\<lambda>a. \<not> is_op a) r"
  using assms
proof (induction r arbitrary: c)
  case (Cons a r)
  then show ?case by (cases "is_op a") (auto simp: insertion_def is_op_def split: if_splits)
qed simp

lemma list_filter_laws: "filter_laws list_filter (\<lambda>w r. rule_of r \<in> set w)"
  unfolding filter_laws_def
proof (intro conjI allI impI)
  fix r c and w :: "(argv \<times> argv) list"
  assume r: "insertion r" "replace_op ''-C'' r = Some c"
  have "dropWhile (\<lambda>a. \<not> is_op a) c = ''-C'' # tl (dropWhile (\<lambda>a. \<not> is_op a) r)" "rule_of c = rule_of r"
    using replace_first_op [OF r] by (simp_all add: is_op_def rule_of_def)
  then show "snd (list_filter c w) = w" "fst (list_filter c w) = 0 \<longleftrightarrow> rule_of r \<in> set w"
    by (simp_all add: list_filter_def)
next
  fix r s and w :: "(argv \<times> argv) list"
  assume "insertion r"
  then show "rule_of r \<in> set (snd (list_filter r w))"
    "rule_of s \<in> set w \<Longrightarrow> rule_of s \<in> set (snd (list_filter r w))"
    by (auto simp: insertion_def list_filter_def)
next
  fix r c s and w :: "(argv \<times> argv) list"
  assume r: "insertion r" "replace_op ''-D'' r = Some c" and s: "rule_of s \<in> set (snd (list_filter c w))"
  have "dropWhile (\<lambda>a. \<not> is_op a) c = ''-D'' # tl (dropWhile (\<lambda>a. \<not> is_op a) r)"
    using replace_first_op [OF r] by (simp add: is_op_def)
  with s show "rule_of s \<in> set w" by (auto simp: list_filter_def dest: set_remove1_subset [THEN subsetD] split: if_splits)
qed

definition demo_policy_net :: NetPolicy where
  "demo_policy_net = \<lparr>control_endpoints = [], owned = [], mode = None\<rparr>"

definition demo_isolated :: "unit result \<times> NetPolicy \<times> (argv \<times> argv) list" where
  "demo_isolated = set_mode list_filter id id ''isolated'' demo_policy_net []"

lemma demo_isolated_ok:
  "demo_isolated = (Inr (), \<lparr>control_endpoints = [], owned = v4_rules [] @ v6_rules [], mode = Some ''isolated''\<rparr>,
     rev (map rule_of (v4_rules [] @ v6_rules [])))"
  by (simp add: demo_isolated_def demo_policy_net_def set_mode_def install_control_exclusions_v4_def block_ipv6_def
      install_family_def refuse_legacy_def legacy_rules_def rule_exists_def v4_rules_def v6_rules_def
      tagged_def list_filter_def rule_of_def is_op_def IP6_DEFAULT_CHAIN_def POLICY_COMMENT_def py_eval)

theorem isolation_in_force_witness: "rule_of (hd (v6_rules [])) \<in> set (snd (snd demo_isolated))"
proof -
  have r: "set_mode list_filter id id ''isolated'' demo_policy_net [] =
      (Inr (), fst (snd demo_isolated), snd (snd demo_isolated))"
    unfolding demo_isolated_def [symmetric] by (simp add: prod_eq_iff demo_isolated_ok)
  from isolation_in_force [OF list_filter_laws r] show ?thesis
    by (simp add: demo_policy_net_def v6_rules_def)
qed

definition demo_stop :: "bool result \<times> NetPolicy \<times> (argv \<times> argv) list" where
  "demo_stop = stop list_filter (fst (snd demo_isolated)) (snd (snd demo_isolated))"

theorem stop_leaves_nothing_witness: "fst demo_stop = Inr True \<and> owned (fst (snd demo_stop)) = []"
proof -
  have f: "fst demo_stop = Inr True"
    by (simp add: demo_stop_def demo_isolated_ok stop_def remove_all_owned_def try_remove_def rule_remove_def
        rule_exists_def v4_rules_def v6_rules_def tagged_def list_filter_def rule_of_def is_op_def
        IP6_DEFAULT_CHAIN_def POLICY_COMMENT_def)
  have i: "\<forall>r \<in> set (owned (fst (snd demo_isolated))). insertion r"
    using rules_insertion by (auto simp: demo_isolated_ok)
  have "stop list_filter (fst (snd demo_isolated)) (snd (snd demo_isolated)) =
      (fst demo_stop, fst (snd demo_stop), snd (snd demo_stop))" by (simp add: demo_stop_def)
  from stop_leaves_nothing [OF list_filter_laws this i] f show ?thesis by blast
qed

end
