(* ===== verification/StateExn.thy ===== *)
theory StateExn
  imports Prelude
begin

text \<open>
  Code that changes a state and may raise: what was changed before an exception stays changed. The
  program logic at the end carries invariants through such code; a triple \<open>triple P m Q R\<close> says
  what holds when \<open>m\<close> returns (\<open>Q\<close>, with its value) and when it raises (\<open>R\<close>, with the exception).
\<close>

type_synonym ('e, 's, 'a) action = "'s \<Rightarrow> ('e + 'a) \<times> 's"

type_synonym ('s, 'a) act = "(exn, 's, 'a) action"

definition sret :: "'a \<Rightarrow> ('e, 's, 'a) action" where
  "sret x s = (Inr x, s)"

definition sraise :: "'e \<Rightarrow> ('e, 's, 'a) action" where
  "sraise e s = (Inl e, s)"

definition sget :: "('s \<Rightarrow> 'a) \<Rightarrow> ('e, 's, 'a) action" where
  "sget f s = (Inr (f s), s)"

definition smod :: "('s \<Rightarrow> 's) \<Rightarrow> ('e, 's, unit) action" where
  "smod f s = (Inr (), f s)"

definition sbind :: "('e, 's, 'a) action \<Rightarrow> ('a \<Rightarrow> ('e, 's, 'b) action) \<Rightarrow> ('e, 's, 'b) action" where
  "sbind m f s = (case m s of (Inl e, s') \<Rightarrow> (Inl e, s') | (Inr x, s') \<Rightarrow> f x s')"

text \<open>\<open>try: m except: h\<close>.\<close>

definition scatch :: "('e, 's, 'a) action \<Rightarrow> ('e \<Rightarrow> ('e, 's, 'a) action) \<Rightarrow> ('e, 's, 'a) action" where
  "scatch m h s = (case m s of (Inl e, s') \<Rightarrow> h e s' | (Inr x, s') \<Rightarrow> (Inr x, s'))"

text \<open>\<open>try: m finally: f\<close>, a call that answers or raises, and \<open>for x in xs: f(x)\<close>.\<close>

definition sfinally :: "('e, 's, 'a) action \<Rightarrow> ('s \<Rightarrow> 's) \<Rightarrow> ('e, 's, 'a) action" where
  "sfinally m f s = (case m s of (r, s') \<Rightarrow> (r, f s'))"

definition of_result :: "'e + 'a \<Rightarrow> ('e, 's, 'a) action" where
  "of_result r = (case r of Inl e \<Rightarrow> sraise e | Inr x \<Rightarrow> sret x)"

fun sfor :: "'a list \<Rightarrow> ('a \<Rightarrow> ('e, 's, unit) action) \<Rightarrow> ('e, 's, unit) action" where
  "sfor [] f = sret ()"
| "sfor (x # xs) f = sbind (f x) (\<lambda>_. sfor xs f)"

text \<open>A stage that answers whether the work is finished; the next one runs only when it is not.\<close>

definition or_else :: "('e, 's, bool) action \<Rightarrow> ('e, 's, bool) action \<Rightarrow> ('e, 's, bool) action" where
  "or_else m n = sbind m (\<lambda>finished. if finished then sret True else n)"

lemmas act_defs = sret_def sraise_def sget_def smod_def

section \<open>Program logic\<close>

definition triple :: "('s \<Rightarrow> bool) \<Rightarrow> ('e, 's, 'a) action \<Rightarrow> ('a \<Rightarrow> 's \<Rightarrow> bool) \<Rightarrow> ('e \<Rightarrow> 's \<Rightarrow> bool) \<Rightarrow> bool" where
  "triple P m Q R \<longleftrightarrow> (\<forall>s. P s \<longrightarrow> (case m s of (Inl e, s') \<Rightarrow> R e s' | (Inr x, s') \<Rightarrow> Q x s'))"

named_theorems act_rules

lemma tripleI: "(\<And>s r s'. P s \<Longrightarrow> m s = (r, s') \<Longrightarrow> case r of Inl e \<Rightarrow> R e s' | Inr x \<Rightarrow> Q x s') \<Longrightarrow> triple P m Q R"
  unfolding triple_def by (force split: prod.split sum.split)

lemma tripleD: "triple P m Q R \<Longrightarrow> P s \<Longrightarrow> m s = (r, s') \<Longrightarrow> (case r of Inl e \<Rightarrow> R e s' | Inr x \<Rightarrow> Q x s')"
  unfolding triple_def by (auto split: prod.splits sum.splits)

lemma triple_sret [act_rules]: "(\<And>s. P s \<Longrightarrow> Q x s) \<Longrightarrow> triple P (sret x) Q R"
  by (simp add: triple_def sret_def)

lemma triple_sraise [act_rules]: "(\<And>s. P s \<Longrightarrow> R e s) \<Longrightarrow> triple P (sraise e) Q R"
  by (simp add: triple_def sraise_def)

lemma triple_sget [act_rules]: "(\<And>s. P s \<Longrightarrow> Q (f s) s) \<Longrightarrow> triple P (sget f) Q R"
  by (simp add: triple_def sget_def)

lemma triple_smod [act_rules]: "(\<And>s. P s \<Longrightarrow> Q () (f s)) \<Longrightarrow> triple P (smod f) Q R"
  by (simp add: triple_def smod_def)

lemma triple_sbind:
  assumes "triple P m A R" and "\<And>x. triple (A x) (f x) Q R"
  shows "triple P (sbind m f) Q R"
  using assms unfolding triple_def sbind_def by (fastforce split: prod.splits sum.splits)

lemma triple_scatch:
  assumes "triple P m Q A" and "\<And>e. triple (A e) (h e) Q R"
  shows "triple P (scatch m h) Q R"
  using assms unfolding triple_def scatch_def by (fastforce split: prod.splits sum.splits)

lemma triple_or_else:
  assumes "triple P m (\<lambda>finished s. if finished then Q True s else A s) R" and "triple A n Q R"
  shows "triple P (or_else m n) Q R"
  unfolding or_else_def using assms
  by (intro triple_sbind [OF assms(1)]) (auto simp: triple_def sret_def)

lemma triple_if: "(b \<Longrightarrow> triple P m Q R) \<Longrightarrow> (\<not> b \<Longrightarrow> triple P n Q R) \<Longrightarrow> triple P (if b then m else n) Q R"
  by simp

lemma triple_option:
  "(x = None \<Longrightarrow> triple P m Q R) \<Longrightarrow> (\<And>y. x = Some y \<Longrightarrow> triple P (f y) Q R) \<Longrightarrow>
    triple P (case x of None \<Rightarrow> m | Some y \<Rightarrow> f y) Q R"
  by (cases x) auto

lemma triple_pre: "triple P m Q R \<Longrightarrow> (\<And>s. P' s \<Longrightarrow> P s) \<Longrightarrow> triple P' m Q R"
  by (auto simp: triple_def)

lemma triple_post:
  "triple P m Q R \<Longrightarrow> (\<And>x s. Q x s \<Longrightarrow> Q' x s) \<Longrightarrow> (\<And>e s. R e s \<Longrightarrow> R' e s) \<Longrightarrow> triple P m Q' R'"
  unfolding triple_def by (fastforce split: prod.splits sum.splits)

text \<open>Code that keeps an invariant whether it returns or raises.\<close>

definition keeps_inv :: "('s \<Rightarrow> bool) \<Rightarrow> ('e, 's, 'a) action \<Rightarrow> bool" where
  "keeps_inv I m \<longleftrightarrow> triple I m (\<lambda>_. I) (\<lambda>_. I)"

lemma keeps_inv_iff: "keeps_inv I m \<longleftrightarrow> (\<forall>s. I s \<longrightarrow> I (snd (m s)))"
  unfolding keeps_inv_def triple_def by (auto split: prod.splits sum.splits) (metis snd_conv sum.exhaust prod.collapse)

lemma keeps_invD: "keeps_inv I m \<Longrightarrow> I s \<Longrightarrow> m s = (r, s') \<Longrightarrow> I s'"
  unfolding keeps_inv_iff by force

lemma keeps_sret [act_rules, simp]: "keeps_inv I (sret x)"
  by (simp add: keeps_inv_iff sret_def)

lemma keeps_sraise [act_rules, simp]: "keeps_inv I (sraise e)"
  by (simp add: keeps_inv_iff sraise_def)

lemma keeps_sget [act_rules, simp]: "keeps_inv I (sget f)"
  by (simp add: keeps_inv_iff sget_def)

lemma keeps_smod [act_rules]: "(\<And>s. I s \<Longrightarrow> I (f s)) \<Longrightarrow> keeps_inv I (smod f)"
  by (simp add: keeps_inv_iff smod_def)

lemma keeps_sbind [act_rules]: "keeps_inv I m \<Longrightarrow> (\<And>x. keeps_inv I (f x)) \<Longrightarrow> keeps_inv I (sbind m f)"
  unfolding keeps_inv_def by (rule triple_sbind)

lemma keeps_sget_bind [act_rules]: "(\<And>s. keeps_inv I (g (f s))) \<Longrightarrow> keeps_inv I (sbind (sget f) g)"
  by (auto simp: keeps_inv_iff sbind_def sget_def)

lemma keeps_scatch [act_rules]: "keeps_inv I m \<Longrightarrow> (\<And>e. keeps_inv I (h e)) \<Longrightarrow> keeps_inv I (scatch m h)"
  unfolding keeps_inv_def by (rule triple_scatch)

lemma keeps_of_result [act_rules]: "keeps_inv I (of_result r)"
  by (simp add: of_result_def split: sum.split)

lemma keeps_sfor: "(\<And>x. x \<in> set xs \<Longrightarrow> keeps_inv I (f x)) \<Longrightarrow> keeps_inv I (sfor xs f)"
  by (induction xs) (auto intro: keeps_sbind)

lemma of_result_Inr: "of_result r s = (Inr x, s') \<longleftrightarrow> r = Inr x \<and> s' = s"
  by (auto simp: of_result_def act_defs split: sum.splits)

lemma sbind_Inr: "sbind m f s = (Inr y, s') \<longleftrightarrow> (\<exists>x s1. m s = (Inr x, s1) \<and> f x s1 = (Inr y, s'))"
  by (auto simp: sbind_def split: prod.splits sum.splits)

lemma keeps_or_else [act_rules]: "keeps_inv I m \<Longrightarrow> keeps_inv I n \<Longrightarrow> keeps_inv I (or_else m n)"
  unfolding or_else_def by (auto intro: keeps_sbind)

lemma keeps_if [act_rules]: "(b \<Longrightarrow> keeps_inv I m) \<Longrightarrow> (\<not> b \<Longrightarrow> keeps_inv I n) \<Longrightarrow> keeps_inv I (if b then m else n)"
  by simp

end
