(* ===== verification/WindowsPacket.thy ===== *)
theory WindowsPacket
  imports Diverter EgressPolicy "HOL-Library.Product_Lexorder"
begin

text \<open>
  What the Windows diverter (\<open>fakenet/diverters/windows.py\<close>) does with a captured packet before it
  is judged: the WinDivert filter, the tests on the raw bytes, \<open>WindowsPacketCtx\<close>, and the two
  helpers with a state of their own, \<open>ProcessRedirectRouteGuard\<close> and \<open>ReviewedIpFlowAudit\<close>.
  \<open>pydivert\<close> is third-party: \<open>wdpkt\<close> is what the code reads of its packet object.
\<close>

unbundle bit_operations_syntax

section \<open>The capture filter\<close>

definition build_egress_control_filter :: "string option \<Rightarrow> string option \<Rightarrow> string result" where
  "build_egress_control_filter target loc = (let base_text = ''outbound and (ip or ipv6)'' in
     if target = None \<and> loc = None then Inr base_text
     else (let t = (case target of None \<Rightarrow> ''None'' | Some s \<Rightarrow> s); l = (case loc of None \<Rightarrow> ''None'' | Some s \<Rightarrow> s) in
       case (ip_address t, ip_address l) of
         (Some (IPv4 a), Some (IPv4 b)) \<Rightarrow>
           if show_ipv4 a \<noteq> t \<or> show_ipv4 b \<noteq> l
           then Inl (PolicyConfigError ''process redirect filter requires canonical IPv4 addresses'')
           else Inr (''('' @ base_text @ '') or (inbound and ip and ip.SrcAddr == '' @ show_ipv4 a @
             '' and ip.DstAddr == '' @ show_ipv4 b @ '' and ip.Protocol == 6)'')
       | (Some _, Some _) \<Rightarrow>
           Inl (PolicyConfigError ''process redirect filter requires canonical IPv4 addresses'')
       | _ \<Rightarrow> Inl (PolicyConfigError ''process redirect filter contains an invalid IPv4'')))"

section \<open>Tests on the raw bytes\<close>

text \<open>\<open>(raw[0] & 0x0f) * 4\<close> and \<open>struct.unpack('!H', raw[6:8])[0]\<close>.\<close>

definition header_length :: "byte list \<Rightarrow> nat" where
  "header_length raw = unat (raw ! 0 AND 0x0f) * 4"

definition fragment_bits :: "byte list \<Rightarrow> 16 word" where
  "fragment_bits raw = word_cat (raw ! 6) (raw ! 7)"

definition ipv4_header :: "byte list \<Rightarrow> bool" where
  "ipv4_header raw \<longleftrightarrow> length raw \<ge> 20 \<and> drop_bit 4 (raw ! 0 AND 0xf0) = 4 \<and>
     header_length raw \<ge> 20 \<and> length raw \<ge> header_length raw"

definition raw_address :: "byte list \<Rightarrow> nat \<Rightarrow> string" where
  "raw_address raw i = (case inet_ntoa (take 4 (drop i raw)) of Inl _ \<Rightarrow> [] | Inr s \<Rightarrow> s)"

definition classify_process_redirect_ipv4_fragment :: "byte list \<Rightarrow> bool \<Rightarrow> string \<Rightarrow> string \<Rightarrow> string \<Rightarrow> bool" where
  "classify_process_redirect_ipv4_fragment raw outbound original target frozen_local \<longleftrightarrow>
     ipv4_header raw \<and> raw ! 9 = 6 \<and> fragment_bits raw AND 0x3fff \<noteq> 0 \<and>
     (if outbound then raw_address raw 16 = original
      else raw_address raw 12 = target \<and> raw_address raw 16 = frozen_local)"

definition classify_ipv6_preparse :: "byte list \<Rightarrow> bool \<Rightarrow> Verdict option" where
  "classify_ipv6_preparse raw loopback =
     (if raw \<noteq> [] \<and> drop_bit 4 (raw ! 0 AND 0xf0) = 6
      then Some (if loopback then REINJECT_LOCAL else DROP_EXTERNAL) else None)"

definition classify_reviewed_ipv4_fragment :: "byte list \<Rightarrow> (string \<times> string) list \<Rightarrow> (string \<times> string) option" where
  "classify_reviewed_ipv4_fragment raw targets =
     (if \<not> ipv4_header raw then None
      else (case dget [(6, ''TCP''), (17, ''UDP'')] (raw ! 9) of
          None \<Rightarrow> None
        | Some protocol \<Rightarrow>
            if fragment_bits raw AND 0x3fff \<noteq> 0 \<and> (protocol, raw_address raw 16) \<in> set targets
            then Some (protocol, raw_address raw 16) else None))"

section \<open>WindowsPacketCtx\<close>

record wdpkt =
  wd_raw :: "byte list"
  wd_interface :: "(int \<times> int) option"
  wd_outbound :: bool
  wd_loopback :: bool

text \<open>\<open>ctx\<close> are the fields of the base class, \<open>tcp_flags\<close> and \<open>icmp_id\<close> what is read of the parsed
  header.\<close>

record win_packet =
  ctx :: PacketCtx
  if_index :: int
  subif_index :: int
  is_outbound :: bool
  tcp_flags :: int
  icmp_id :: "int option"

text \<open>The total-length field of an offloaded segment is lowered to the size of the buffer.\<close>

definition tso_length_fix :: "byte list \<Rightarrow> byte list" where
  "tso_length_fix raw =
     (if length raw \<ge> 20 \<and> drop_bit 4 (raw ! 0) = 4 \<and> unat (word_cat (raw ! 2) (raw ! 3) :: 16 word) > length raw
      then raw[2 := word_of_nat (length raw div 256), 3 := word_of_nat (length raw)] else raw)"

definition view_flags :: "dpkt \<Rightarrow> byte list \<Rightarrow> int" where
  "view_flags dp raw = (case dpkt_ip dp raw of
       Inl _ \<Rightarrow> 0
     | Inr hdr \<Rightarrow> (case v_data hdr of None \<Rightarrow> 0 | Some t \<Rightarrow> t_flags t))"

definition view_icmp_id :: "dpkt \<Rightarrow> byte list \<Rightarrow> int option" where
  "view_icmp_id dp raw = (case dpkt_ip dp raw of Inl _ \<Rightarrow> None | Inr hdr \<Rightarrow> v_icmp_id hdr)"

definition windows_packet :: "dpkt \<Rightarrow> string \<Rightarrow> wdpkt \<Rightarrow> win_packet result" where
  "windows_packet dp l wd = (let raw = tso_length_fix (wd_raw wd);
       interface = (case wd_interface wd of None \<Rightarrow> (-1, -1) | Some i \<Rightarrow> i) in
     ebind (parse_packet dp l raw) (\<lambda>p.
       Inr \<lparr>ctx = p, if_index = fst interface, subif_index = snd interface, is_outbound = wd_outbound wd,
         tcp_flags = view_flags dp raw, icmp_id = view_icmp_id dp raw\<rparr>))"

abbreviation on_ctx :: "(PacketCtx \<Rightarrow> PacketCtx) \<Rightarrow> win_packet \<Rightarrow> win_packet" where
  "on_ctx f pkt \<equiv> pkt\<lparr>ctx := f (ctx pkt)\<rparr>"

section \<open>ProcessRedirectRouteGuard\<close>

text \<open>A snapshot is a dictionary; frozen, it is the sorted list of its items, and a frozen list of
  snapshots is sorted too.\<close>

type_synonym snapshot = "(string, string) dict"

definition freeze :: "snapshot list \<Rightarrow> snapshot list" where
  "freeze snapshots = sort (map sort snapshots)"

record route_guard =
  g_expected :: "snapshot list"
  frozen_local_ipv4 :: string
  frozen_interface_index :: int
  g_available :: bool
  first_validated :: bool
  failure_reason :: "string option"

text \<open>The two snapshots must agree on source and interface.\<close>

definition item :: "string \<Rightarrow> snapshot \<Rightarrow> string result" where
  "item k d = (case dget d k of None \<Rightarrow> Inl (KeyError k) | Some v \<Rightarrow> Inr v)"

definition new_guard :: "snapshot list \<Rightarrow> route_guard result" where
  "new_guard snapshots = (let expected = freeze snapshots in
     if length expected \<noteq> 2
     then Inl (PolicyConfigError ''process redirect requires exactly two route snapshots'')
     else ebind (emap (item ''source_ipv4'') expected) (\<lambda>sources.
       ebind (emap (\<lambda>d. ebind (item ''interface_index'' d) py_int_exn) expected) (\<lambda>interfaces.
       if length (remdups sources) \<noteq> 1 \<or> length (remdups interfaces) \<noteq> 1
       then Inl (PolicyConfigError ''process redirect A/B routes must share source and interface'')
       else Inr \<lparr>g_expected = expected, frozen_local_ipv4 = hd sources, frozen_interface_index = hd interfaces,
              g_available = True, first_validated = False, failure_reason = None\<rparr>)))"

text \<open>What the route reader answers: the snapshots, or whether the failure was a timeout.\<close>

datatype route_answer = Routes "snapshot list" | RouteFailure bool

definition guard_refresh :: "route_answer \<Rightarrow> route_guard \<Rightarrow> bool \<times> route_guard" where
  "guard_refresh ans g = (case ans of
       RouteFailure timeout \<Rightarrow> (False, g\<lparr>g_available := False, failure_reason :=
         Some (if timeout then ''route_query_timeout'' else ''route_query_failed'')\<rparr>)
     | Routes snapshots \<Rightarrow>
         (let ok = (freeze snapshots = g_expected g) in
          (ok, g\<lparr>g_available := ok, first_validated := True,
             failure_reason := (if ok then None else Some ''route_snapshot_changed'')\<rparr>)))"

text \<open>\<open>is_current\<close>; the answer is used only when no refresh has been completed yet.\<close>

definition guard_is_current :: "route_answer \<Rightarrow> string \<Rightarrow> int \<Rightarrow> route_guard \<Rightarrow> bool \<times> route_guard" where
  "guard_is_current ans source interface g =
     (let (ok, g1) = (if first_validated g then (True, g) else guard_refresh ans g) in
      (ok \<and> g_available g1 \<and> source = frozen_local_ipv4 g1 \<and> interface = frozen_interface_index g1, g1))"

section \<open>ReviewedIpFlowAudit\<close>

type_synonym audit_key = "string \<times> string \<times> string \<times> int \<times> string \<times> int"

record ip_audit =
  ia_rule_ids :: "string list"
  ia_flows :: "(audit_key, time) dict"
  ia_packets :: "(string, int) dict"
  ia_new_flows :: "(string, int) dict"
  ia_evictions :: "(string, int) dict"
  ia_last_summary :: time
  ia_last_pressure :: time

definition new_ip_audit :: "time \<Rightarrow> string list \<Rightarrow> ip_audit" where
  "new_ip_audit now ids = \<lparr>ia_rule_ids = ids, ia_flows = [], ia_packets = [], ia_new_flows = [],
     ia_evictions = [], ia_last_summary = now, ia_last_pressure = -60\<rparr>"

definition MAX_ENTRIES :: nat where "MAX_ENTRIES = 4096"

text \<open>The eviction loop: \<open>n\<close> entries are dropped from the old end.\<close>

fun evict :: "nat \<Rightarrow> time \<Rightarrow> ip_audit \<Rightarrow> bool \<times> ip_audit" where
  "evict 0 now a = (False, a)"
| "evict (Suc n) now a = (case ia_flows a of
       [] \<Rightarrow> (False, a)
     | (k, _) # rest \<Rightarrow>
         (let hit = now - ia_last_pressure a \<ge> 60;
              (later, a') = evict n now (a\<lparr>ia_flows := rest, ia_evictions := cadd (fst k) 1 (ia_evictions a),
                ia_last_pressure := (if hit then now else ia_last_pressure a)\<rparr>) in
          (hit \<or> later, a')))"

definition observe_flow :: "time \<Rightarrow> string \<Rightarrow> ReviewedPacketTuple \<Rightarrow> ip_audit \<Rightarrow> (bool \<times> bool \<times> nat) \<times> ip_audit" where
  "observe_flow now rid packet a =
     (let key = (rid, p_protocol packet, p_source_ipv4 packet, p_source_port packet,
            p_target_ipv4 packet, p_target_port packet);
          a1 = a\<lparr>ia_packets := cadd rid 1 (ia_packets a),
            ia_flows := dropWhile (\<lambda>(k, seen). \<not> now - seen < 60) (ia_flows a)\<rparr>;
          first = (case dget (ia_flows a1) key of None \<Rightarrow> True | Some seen \<Rightarrow> now - seen \<ge> 60) in
      if first then
        (let a2 = a1\<lparr>ia_flows := ddel key (ia_flows a1)\<rparr>;
             (pressure, a3) = evict (length (ia_flows a2) + 1 - MAX_ENTRIES) now a2;
             a4 = a3\<lparr>ia_flows := dset key now (ia_flows a3),
               ia_new_flows := cadd rid 1 (ia_new_flows a3)\<rparr> in
         ((True, pressure, length (ia_flows a4)), a4))
      else ((False, False, length (ia_flows a1)), a1))"

definition summaries :: "time \<Rightarrow> bool \<Rightarrow> ip_audit \<Rightarrow> (string \<times> int \<times> int \<times> int) list \<times> ip_audit" where
  "summaries now force a =
     (if \<not> force \<and> now - ia_last_summary a < 60 then ([], a)
      else (let ids = sort (remdups (ia_rule_ids a @ dkeys (ia_packets a) @ dkeys (ia_new_flows a) @ dkeys (ia_evictions a))) in
        (map (\<lambda>i. (i, cget (ia_packets a) i, cget (ia_new_flows a) i, cget (ia_evictions a) i)) ids,
         a\<lparr>ia_packets := [], ia_new_flows := [], ia_evictions := [], ia_last_summary := now\<rparr>)))"

section \<open>Properties\<close>

text \<open>The guard after a sequence of answers of the route reader.\<close>

definition guard_run :: "route_answer list \<Rightarrow> route_guard \<Rightarrow> route_guard" where
  "guard_run answers g = fold (\<lambda>a g. snd (guard_refresh a g)) answers g"

definition confirms :: "route_guard \<Rightarrow> route_answer \<Rightarrow> bool" where
  "confirms g a = (case a of Routes r \<Rightarrow> freeze r = g_expected g | RouteFailure _ \<Rightarrow> False)"

lemma guard_refresh_fields:
  "g_expected (snd (guard_refresh a g)) = g_expected g"
  "frozen_local_ipv4 (snd (guard_refresh a g)) = frozen_local_ipv4 g"
  "frozen_interface_index (snd (guard_refresh a g)) = frozen_interface_index g"
  "g_available (snd (guard_refresh a g)) = confirms g a" "fst (guard_refresh a g) = confirms g a"
  by (simp_all add: guard_refresh_def Let_def confirms_def split: route_answer.split)

lemma guard_run_fields:
  "g_expected (guard_run as g) = g_expected g" "frozen_local_ipv4 (guard_run as g) = frozen_local_ipv4 g"
  "frozen_interface_index (guard_run as g) = frozen_interface_index g"
  by (induction as rule: rev_induct) (simp_all add: guard_run_def guard_refresh_fields)

text \<open>A stale route never passes: the guard confirms a packet only when the most recent answer of the
  route reader was exactly the frozen pair of routes, and the packet is on their source address and
  interface. A failed query or a changed route counts against every packet until a refresh confirms again.\<close>

theorem route_guard_sound:
  assumes "new_guard snapshots = Inr g0" and "guard_is_current a source interface (guard_run as g0) = (True, g1)"
  shows "(if first_validated (guard_run as g0) then as \<noteq> [] \<and> confirms g0 (last as) else confirms g0 a) \<and>
    source = frozen_local_ipv4 g0 \<and> interface = frozen_interface_index g0"
proof (intro conjI)
  let ?g = "guard_run as g0"
  show "source = frozen_local_ipv4 g0" "interface = frozen_interface_index g0"
    using assms(2) by (auto simp: guard_is_current_def guard_run_fields split: if_splits prod.splits)
      (metis guard_refresh_fields(2,3) guard_run_fields(2,3) snd_conv)+
  show "if first_validated ?g then as \<noteq> [] \<and> confirms g0 (last as) else confirms g0 a"
  proof (cases "first_validated ?g")
    case True
    then have av: "g_available ?g" using assms(2) by (auto simp: guard_is_current_def)
    have "\<not> first_validated g0" using assms(1) by (auto simp: new_guard_def Let_def ebind_Inr_iff split: if_splits)
    with True have "as \<noteq> []" by (auto simp: guard_run_def)
    then obtain bs b where bs: "as = bs @ [b]" by (cases as rule: rev_cases) auto
    have "confirms (guard_run bs g0) b" using av by (simp add: bs guard_run_def guard_refresh_fields)
    with True show ?thesis by (simp add: bs confirms_def guard_run_fields split: route_answer.splits)
  next
    case False
    with assms(2) have "confirms ?g a" by (auto simp: guard_is_current_def guard_refresh_fields split: prod.splits) (metis fst_conv guard_refresh_fields(5))
    with False show ?thesis by (simp add: confirms_def guard_run_fields split: route_answer.splits)
  qed
qed

definition demo_route :: "string \<Rightarrow> snapshot" where
  "demo_route target = [(''interface_index'', ''7''), (''source_ipv4'', ''192.168.56.10''), (''target_ipv4'', target)]"

definition demo_guard :: route_guard where
  "demo_guard = \<lparr>g_expected = freeze [demo_route ''10.0.0.9'', demo_route ''93.184.216.34''],
     frozen_local_ipv4 = ''192.168.56.10'', frozen_interface_index = 7, g_available = True, first_validated = False,
     failure_reason = None\<rparr>"

lemma demo_guard_new: "new_guard [demo_route ''10.0.0.9'', demo_route ''93.184.216.34''] = Inr demo_guard"
proof -
  have f: "freeze [demo_route ''10.0.0.9'', demo_route ''93.184.216.34''] = [demo_route ''10.0.0.9'', demo_route ''93.184.216.34'']"
    by code_simp
  show ?thesis
    unfolding new_guard_def f demo_guard_def by (simp add: item_def demo_route_def py_eval)
qed

text \<open>A failed query, then a query that answers the frozen routes.\<close>

theorem route_guard_sound_witness:
  "let answers = [RouteFailure True, Routes [demo_route ''10.0.0.9'', demo_route ''93.184.216.34'']] in
   fst (guard_is_current (RouteFailure False) ''192.168.56.10'' 7 (guard_run answers demo_guard)) \<and>
   confirms demo_guard (last answers)"
proof -
  let ?as = "[RouteFailure True, Routes [demo_route ''10.0.0.9'', demo_route ''93.184.216.34'']]"
  have v: "first_validated (guard_run ?as demo_guard)" by (simp add: guard_run_def guard_refresh_def Let_def)
  have c: "guard_is_current (RouteFailure False) ''192.168.56.10'' 7 (guard_run ?as demo_guard) = (True, guard_run ?as demo_guard)"
    by (simp add: guard_is_current_def guard_run_def guard_refresh_def Let_def demo_guard_def)
  from route_guard_sound [OF demo_guard_new c] v c show ?thesis by (simp add: Let_def)
qed

text \<open>Operations on the audit of reviewed flows.\<close>

datatype audit_op = Observe time string ReviewedPacketTuple | Summarise time bool

fun audit_step :: "audit_op \<Rightarrow> ip_audit \<Rightarrow> ip_audit" where
  "audit_step (Observe now rid packet) a = snd (observe_flow now rid packet a)"
| "audit_step (Summarise now force) a = snd (summaries now force a)"

lemma evict_length: "n \<le> length (ia_flows a) \<Longrightarrow> length (ia_flows (snd (evict n now a))) = length (ia_flows a) - n"
proof (induction n arbitrary: a)
  case (Suc n)
  then obtain k t rest where f: "ia_flows a = (k, t) # rest" by (cases "ia_flows a") auto
  let ?b = "a\<lparr>ia_flows := rest, ia_evictions := cadd (fst k) 1 (ia_evictions a),
      ia_last_pressure := (if now - ia_last_pressure a \<ge> 60 then now else ia_last_pressure a)\<rparr>"
  have "length (ia_flows (snd (evict n now ?b))) = length rest - n" using Suc.IH [of ?b] Suc.prems f by simp
  with f show ?case by (simp add: Let_def split_beta)
qed simp

lemma length_dset: "length (dset k v d) \<le> Suc (length d)"
  unfolding dset_def by (induction d) auto

lemma observe_bounded:
  assumes "length (ia_flows a) \<le> MAX_ENTRIES"
  shows "length (ia_flows (snd (observe_flow now rid packet a))) \<le> MAX_ENTRIES"
proof -
  define key where "key = (rid, p_protocol packet, p_source_ipv4 packet, p_source_port packet, p_target_ipv4 packet, p_target_port packet)"
  define a1 where "a1 = a\<lparr>ia_packets := cadd rid 1 (ia_packets a), ia_flows := dropWhile (\<lambda>(k, seen). \<not> now - seen < 60) (ia_flows a)\<rparr>"
  define a2 where "a2 = a1\<lparr>ia_flows := ddel key (ia_flows a1)\<rparr>"
  have l1: "length (ia_flows a1) \<le> MAX_ENTRIES"
    using assms length_dropWhile_le [of "\<lambda>(k, seen). \<not> now - seen < 60" "ia_flows a"] by (simp add: a1_def)
  then have l2: "length (ia_flows a2) \<le> MAX_ENTRIES" by (simp add: a2_def ddel_def) (meson length_filter_le le_trans)
  let ?n = "length (ia_flows a2) + 1 - MAX_ENTRIES"
  have "?n \<le> length (ia_flows a2)" by (simp add: MAX_ENTRIES_def)
  from evict_length [OF this, of now] l2
  have "length (ia_flows (snd (evict ?n now a2))) < MAX_ENTRIES" by (simp add: MAX_ENTRIES_def)
  with length_dset [of key now "ia_flows (snd (evict ?n now a2))"]
  have "length (dset key now (ia_flows (snd (evict ?n now a2)))) \<le> MAX_ENTRIES" by simp
  with l1 show ?thesis
    unfolding observe_flow_def Let_def key_def [symmetric] a1_def [symmetric] a2_def [symmetric] by (simp add: split_beta)
qed

text \<open>The audit of reviewed flows holds at most 4096 flows, however many flows a sample opens and
  however the summaries interleave with them.\<close>

theorem flow_audit_bounded: "length (ia_flows (fold audit_step ops (new_ip_audit now ids))) \<le> MAX_ENTRIES"
proof -
  have "length (ia_flows a) \<le> MAX_ENTRIES \<Longrightarrow> length (ia_flows (fold audit_step ops a)) \<le> MAX_ENTRIES" for a
  proof (induction ops arbitrary: a)
    case (Cons x xs)
    have "length (ia_flows (audit_step x a)) \<le> MAX_ENTRIES"
      using Cons.prems observe_bounded by (cases x) (auto simp: summaries_def Let_def)
    then show ?case using Cons.IH by simp
  qed simp
  then show ?thesis by (simp add: new_ip_audit_def)
qed

end
