(* ===== verification/WindowsEgress.thy ===== *)
theory WindowsEgress
  imports StateExn WindowsPacket ProcessEngine
begin

text \<open>
  The packet path of the Windows diverter under an egress policy (\<open>fakenet/diverters/windows.py\<close>):
  \<open>_handle_policy_packet\<close> with everything it calls. A stage of the handler is one block of that
  method, up to a \<open>return\<close>; it answers whether the packet is finished. What the environment answers
  while one packet is handled (clock readings by call site, the driver, the capture file, the
  process behind the packet) is an \<open>env\<close>. Packets given to the driver with success are \<open>w_sent\<close>; log
  lines are not part of the state.
\<close>

section \<open>State\<close>

type_synonym flow4 = "string \<times> int \<times> string \<times> int"

datatype wire = Unparsed "byte list" | Wire win_packet

record win =
  w_base :: diverter
  w_policy :: policy
  w_engine :: "engine option"
  w_guard_ipv4 :: string
  w_external_ip :: string
  takeover_route :: "(string \<times> int) option"
  reviewed_target_protocols :: "(string \<times> string) list"
  syn_observed_flows :: "flow4 set"
  midstream_bypass_flows :: "flow4 set"
  observed_nat_tuples :: "(flow4, flow4 list) dict"
  observed_nat_forward :: "flow4 set"
  observed_nat_owners :: "(flow4, flow4) dict"
  flow_audit :: "(flow_key, time) dict"
  flow_audit_suspended :: bool
  flow_audit_last_cleanup :: time
  reviewed_ip_audit :: ip_audit
  w_sent :: "wire list"

datatype reading = AtPermit | AtReturn | AtForward | AtLease | AtCreate | AtCreated | AtClose
  | AtAudit | AtAuditLease | AtIpAudit | AtIpSummary | AtEngine | AtEngineLater | AtCommit

record env =
  clock :: "reading \<Rightarrow> time"
  send_ok :: "wire \<Rightarrow> bool"
  pcap_ok :: "PacketCtx \<Rightarrow> bool"
  crit :: DivertParms
  env_answers :: answers
  registry_ok :: bool
  env_dpkt :: dpkt
  env_fmt :: formatter
  failed_base :: diverter

type_synonym 'a win_act = "(win, 'a) act"

definition on_policy :: "(policy \<Rightarrow> 'a \<times> policy) \<Rightarrow> 'a win_act" where
  "on_policy f w = (case f (w_policy w) of (r, p) \<Rightarrow> (Inr r, w\<lparr>w_policy := p\<rparr>))"

definition on_policy_raising :: "(policy \<Rightarrow> 'a result \<times> policy) \<Rightarrow> 'a win_act" where
  "on_policy_raising f w = (case f (w_policy w) of (r, p) \<Rightarrow> (r, w\<lparr>w_policy := p\<rparr>))"

definition close_mapping :: "env \<Rightarrow> int \<Rightarrow> unit win_act" where
  "close_mapping ev g = smod (\<lambda>w. w\<lparr>w_policy := close_relay_mapping (clock ev AtClose) g None (w_policy w)\<rparr>)"

definition send_packet :: "env \<Rightarrow> wire \<Rightarrow> bool win_act" where
  "send_packet ev x w = (if send_ok ev x then (Inr True, w\<lparr>w_sent := w_sent w @ [x]\<rparr>) else (Inr False, w))"

definition timed_write_pcap :: "env \<Rightarrow> PacketCtx \<Rightarrow> unit win_act" where
  "timed_write_pcap ev p w =
     (if pcap_ok ev p then (Inr (), w\<lparr>w_base := write_pcap p (w_base w)\<rparr>) else (Inl PcapWriteError, w))"

definition packet_flow :: "PacketCtx \<Rightarrow> flow_key" where
  "packet_flow c = (proto_of c, src_ip0 c, sport0 c, dst_ip0 c, dport0 c)"

definition original_tuple :: "PacketCtx \<Rightarrow> flow4" where
  "original_tuple c = (src_ip0 c, sport0 c, dst_ip0 c, dport0 c)"

section \<open>Verdicts\<close>

definition matches_takeover_sink_route :: "win \<Rightarrow> win_packet \<Rightarrow> bool" where
  "matches_takeover_sink_route w pkt = (case takeover_route w of
       None \<Rightarrow> False
     | Some (source, interface) \<Rightarrow> src_ip0 (ctx pkt) = source \<and> if_index pkt = interface \<and>
         matches_takeover_sink (w_policy w) (proto_of (ctx pkt)) (src_ip0 (ctx pkt)) (sport0 (ctx pkt))
           (dst_ip0 (ctx pkt)) (dport0 (ctx pkt)))"

definition reviewed_packet_tuple :: "win_packet \<Rightarrow> ReviewedPacketTuple" where
  "reviewed_packet_tuple pkt = \<lparr>p_protocol = proto_of (ctx pkt), p_source_ipv4 = src_ip (ctx pkt),
     p_source_port = sport (ctx pkt), p_target_ipv4 = dst_ip (ctx pkt), p_target_port = dport (ctx pkt),
     p_interface_index = if_index pkt, p_subinterface_index = subif_index pkt,
     p_outbound = is_outbound pkt\<rparr>"

text \<open>The keyword arguments of \<open>finalize_egress_verdict\<close>.\<close>

datatype verdict_arg = Plain | Permit ControlPermit | ReturnFixed | Redirected | Reviewed ReviewedIPv4Rule

definition compute_egress_verdict :: "verdict_arg \<Rightarrow> win \<Rightarrow> win_packet \<Rightarrow> Verdict" where
  "compute_egress_verdict arg w pkt = (let c = ctx pkt; p = w_policy w in
     case arg of
       Permit _ \<Rightarrow> ALLOW_INTERNAL_UPSTREAM
     | _ \<Rightarrow>
       if matches_takeover_sink_route w pkt then ALLOW_TAKEOVER_SINK
       else (case arg of
         ReturnFixed \<Rightarrow> if is_exact_local_ipv4 p (dst_ip c) then REINJECT_LOCAL else DROP_EXTERNAL
       | Redirected \<Rightarrow>
           if proto c = Some ''TCP'' \<and> dport c = relay_port (cfg p) \<and> is_exact_local_ipv4 p (dst_ip c) \<and>
              isListener (listener_ports (w_base w)) (proto_of c) (dport c)
           then REDIRECT_TLS_RELAY else DROP_EXTERNAL
       | Reviewed rv \<Rightarrow>
           (case match_reviewed_ip p (reviewed_packet_tuple pkt) of
              Some current \<Rightarrow> if rule_id current = rule_id rv then ALLOW_REVIEWED_IP else DROP_EXTERNAL
            | None \<Rightarrow> DROP_EXTERNAL)
       | _ \<Rightarrow>
           if is_exact_local_ipv4 p (dst_ip c) then
             (if proto c \<noteq> None \<and> isListener (listener_ports (w_base w)) (proto_of c) (dport c)
              then DIVERT_FAKE else REINJECT_LOCAL)
           else DROP_EXTERNAL))"

text \<open>\<open>_audit_flow\<close>: one entry for each outbound flow. \<open>registry_ok\<close> says whether the update of the
  flow registry went through; when it raises, auditing stops for good.\<close>

definition drop_stale_audits :: "time \<Rightarrow> win \<Rightarrow> win" where
  "drop_stale_audits now w =
     (let w1 = (if now - flow_audit_last_cleanup w \<ge> 60
          then w\<lparr>flow_audit_last_cleanup := now, flow_audit := filter (\<lambda>(k, t). \<not> now - t > 120) (flow_audit w)\<rparr>
          else w) in
      if length (flow_audit w1) \<ge> 4096 then w1\<lparr>flow_audit := []\<rparr> else w1)"

definition new_audit_entry :: "env \<Rightarrow> win_packet \<Rightarrow> win \<Rightarrow> win" where
  "new_audit_entry ev pkt w0 =
     (let c = ctx pkt; now = clock ev AtAudit; w = drop_stale_audits now w0;
          w1 = w\<lparr>w_policy := snd (lease_for (clock ev AtAuditLease) (dst_ip0 c) (dport0 c) (w_policy w))\<rparr> in
      if registry_ok ev then w1\<lparr>flow_audit := dset (packet_flow c) now (flow_audit w1)\<rparr>
      else w1\<lparr>flow_audit_suspended := True\<rparr>)"

definition audit_flow :: "env \<Rightarrow> win_packet \<Rightarrow> unit win_act" where
  "audit_flow ev pkt = smod (\<lambda>w. let c = ctx pkt; now = clock ev AtAudit; key = packet_flow c in
     if flow_audit_suspended w \<or> \<not> is_outbound pkt \<or> proto c = None then w
     else if proto c = Some ''TCP'' \<and> tcp_flags pkt AND 5 \<noteq> 0 then w\<lparr>flow_audit := ddel key (flow_audit w)\<rparr>
     else if dget (flow_audit w) key \<noteq> None then w\<lparr>flow_audit := dset key now (flow_audit w)\<rparr>
     else new_audit_entry ev pkt w)"

definition finalize_egress_verdict :: "env \<Rightarrow> verdict_arg \<Rightarrow> win_packet \<Rightarrow> Verdict win_act" where
  "finalize_egress_verdict ev arg pkt = sbind (sget (\<lambda>w. compute_egress_verdict arg w pkt)) (\<lambda>v.
     sbind (audit_flow ev pkt) (\<lambda>_. sret v))"

section \<open>Observed connections\<close>

definition forget_key :: "flow4 \<Rightarrow> flow4 \<Rightarrow> win \<Rightarrow> win" where
  "forget_key original key w =
     (if dget (observed_nat_owners w) key = Some original
      then w\<lparr>observed_nat_owners := ddel key (observed_nat_owners w),
             syn_observed_flows := syn_observed_flows w - {key},
             observed_nat_forward := observed_nat_forward w - {key}\<rparr>
      else w)"

definition forget_observed_nat :: "flow4 \<Rightarrow> win \<Rightarrow> win" where
  "forget_observed_nat original w =
     (let keys = (case dget (observed_nat_tuples w) original of None \<Rightarrow> [] | Some ks \<Rightarrow> ks);
          w1 = w\<lparr>observed_nat_tuples := ddel original (observed_nat_tuples w)\<rparr>;
          w2 = (if keys \<noteq> [] then w1\<lparr>syn_observed_flows := syn_observed_flows w1 - {original}\<rparr> else w1) in
      fold (forget_key original) keys w2)"

definition is_syn_only :: "win_packet \<Rightarrow> bool" where
  "is_syn_only pkt \<longleftrightarrow> proto (ctx pkt) = Some ''TCP'' \<and> bit (tcp_flags pkt) TH_SYN \<and> \<not> bit (tcp_flags pkt) TH_ACK"

definition is_new_tcp_syn :: "win_packet \<Rightarrow> bool win_act" where
  "is_new_tcp_syn pkt w =
     (if is_syn_only pkt then
        (let key = original_tuple (ctx pkt);
             w1 = (case dget (observed_nat_owners w) key of None \<Rightarrow> w | Some owner \<Rightarrow> forget_observed_nat owner w);
             w2 = forget_observed_nat key w1 in
         (Inr True, w2\<lparr>midstream_bypass_flows := midstream_bypass_flows w2 - {key},
            syn_observed_flows := insert key (syn_observed_flows w2)\<rparr>))
      else (Inr False, w))"

text \<open>The two keys form a set in the source; the loops over it do not depend on the order.\<close>

definition remember_observed_nat_syn :: "win_packet \<Rightarrow> unit win_act" where
  "remember_observed_nat_syn pkt = smod (\<lambda>w. let c = ctx pkt; original = original_tuple c;
       translated = (src_ip c, sport c, dst_ip c, dport c);
       reverse = (dst_ip c, dport c, src_ip c, sport c) in
     if \<not> is_syn_only pkt \<or> translated = original then w
     else (let keys = remdups [translated, reverse];
               w1 = fold (\<lambda>key w. case dget (observed_nat_owners w) key of
                   None \<Rightarrow> w
                 | Some owner \<Rightarrow> if owner \<noteq> original then forget_observed_nat owner w else w) keys w in
       w1\<lparr>observed_nat_tuples := dset original keys (observed_nat_tuples w1),
          observed_nat_owners := fold (\<lambda>key. dset key original) keys (observed_nat_owners w1),
          observed_nat_forward := insert translated (observed_nat_forward w1),
          syn_observed_flows := syn_observed_flows w1 \<union> set keys,
          midstream_bypass_flows := midstream_bypass_flows w1 - set keys\<rparr>))"

definition is_midstream_tcp_flow :: "win_packet \<Rightarrow> bool win_act" where
  "is_midstream_tcp_flow pkt w = (let key = original_tuple (ctx pkt) in
     if proto (ctx pkt) \<noteq> Some ''TCP'' \<or> bit (tcp_flags pkt) TH_SYN \<or> key \<in> syn_observed_flows w
     then (Inr False, w)
     else (Inr True, w\<lparr>midstream_bypass_flows := insert key (midstream_bypass_flows w)\<rparr>))"

section \<open>Process redirection\<close>

text \<open>The packet object has no attribute \<open>raw\<close>, so the size is always 0.\<close>

definition process_redirect_packet_tuple :: "win_packet \<Rightarrow> PacketTuple" where
  "process_redirect_packet_tuple pkt = (let c = ctx pkt in
     \<lparr>pk_direction = (if is_outbound pkt then ''outbound'' else ''inbound''), pk_version = ipver c,
       pk_fragmented = False, pk_protocol = proto_of c,
       pk_flags = (if proto c = Some ''TCP'' then tcp_flags pkt else 0),
       pk_src = src_ip0 c, pk_sport = sport0 c, pk_dst = dst_ip0 c, pk_dport = dport0 c,
       pk_if = if_index pkt, pk_subif = subif_index pkt, pk_size = 0\<rparr>)"

definition rewrite_packet :: "ProcessRedirectDecision \<Rightarrow> win_packet \<Rightarrow> win_packet result" where
  "rewrite_packet d pkt = (case action d of
       REWRITE_OUTBOUND \<Rightarrow> (case d_target d of
           Some (ip, port) \<Rightarrow> Inr (on_ctx (set_dport port) (on_ctx (set_dst_ip ip) pkt))
         | None \<Rightarrow> Inl (RuntimeError ''no target''))
     | REWRITE_INBOUND \<Rightarrow> (case d_source d of
           Some (ip, port) \<Rightarrow> Inr (on_ctx (set_sport port) (on_ctx (set_src_ip ip) pkt))
         | None \<Rightarrow> Inl (RuntimeError ''no source''))
     | _ \<Rightarrow> Inl (RuntimeError ''unknown process redirect action''))"

text \<open>The engine's own operations, on the engine of the state.\<close>

definition on_engine :: "(engine \<Rightarrow> 'a result \<times> engine) \<Rightarrow> 'a win_act" where
  "on_engine f w = (case w_engine w of
       None \<Rightarrow> (Inl (AttributeError ''process_redirect_engine''), w)
     | Some e \<Rightarrow> (case f e of (r, e') \<Rightarrow> (r, w\<lparr>w_engine := Some e'\<rparr>)))"

definition engine_prepare :: "env \<Rightarrow> win_packet \<Rightarrow> prepared win_act" where
  "engine_prepare ev pkt = on_engine (\<lambda>e. case prepare (clock ev AtEngine) (clock ev AtEngineLater)
       (process_redirect_packet_tuple pkt) (env_answers ev) e of (d, e') \<Rightarrow> (Inr d, e'))"

definition engine_abort :: "env \<Rightarrow> int \<Rightarrow> bool win_act" where
  "engine_abort ev k = on_engine (abort (clock ev AtCommit) k)"

definition engine_commit :: "env \<Rightarrow> int \<Rightarrow> bool \<Rightarrow> bool win_act" where
  "engine_commit ev k outcome = on_engine (commit (clock ev AtCommit) k outcome)"

definition engine_suspend :: "env \<Rightarrow> string \<Rightarrow> bool win_act" where
  "engine_suspend ev reason =
     on_engine (\<lambda>e. case suspend_engine (clock ev AtCommit) reason e of (b, e') \<Rightarrow> (Inr b, e'))"

definition inject_rewritten :: "env \<Rightarrow> ProcessRedirectDecision \<Rightarrow> win_packet \<Rightarrow> bool win_act" where
  "inject_rewritten ev d pkt = (case rewrite_packet d pkt of
       Inl e \<Rightarrow> sraise e
     | Inr q \<Rightarrow> sbind (timed_write_pcap ev (ctx q)) (\<lambda>_. send_packet ev (Wire q)))"

definition apply_process_redirect :: "env \<Rightarrow> win_packet \<Rightarrow> bool win_act" where
  "apply_process_redirect ev pkt = sbind (engine_prepare ev pkt) (\<lambda>(d, token).
     case action d of
       NOT_APPLICABLE \<Rightarrow> sret False
     | PASS_UNCHANGED \<Rightarrow>
         if is_outbound pkt then sret False else sbind (send_packet ev (Wire pkt)) (\<lambda>_. sret True)
     | DROP \<Rightarrow> sret True
     | _ \<Rightarrow> (let k = (case token of None \<Rightarrow> 0 | Some k \<Rightarrow> k) in
         sbind (scatch (inject_rewritten ev d pkt) (\<lambda>e. sbind (engine_abort ev k) (\<lambda>_. sraise e))) (\<lambda>outcome.
         sbind (scatch (engine_commit ev k outcome) (\<lambda>_. engine_suspend ev ''commit_failed'')) (\<lambda>_.
         sret True))))"

section \<open>Stages of the handler\<close>

definition stage_permit :: "env \<Rightarrow> win_packet \<Rightarrow> bool win_act" where
  "stage_permit ev pkt = (let c = ctx pkt in
     if proto c = None then sret False
     else sbind (on_policy (match_control_flow (clock ev AtPermit) (proto_of c) (src_ip0 c) (sport0 c) (dst_ip0 c) (dport0 c)))
       (\<lambda>permit. case permit of
           None \<Rightarrow> sret False
         | Some m \<Rightarrow> sbind (finalize_egress_verdict ev (Permit m) pkt) (\<lambda>v.
             if v = ALLOW_INTERNAL_UPSTREAM then sbind (send_packet ev (Wire pkt)) (\<lambda>_. sret True)
             else sret True)))"

definition stage_takeover :: "env \<Rightarrow> win_packet \<Rightarrow> bool win_act" where
  "stage_takeover ev pkt = sbind (sget (\<lambda>w. matches_takeover_sink_route w pkt)) (\<lambda>sink.
     if sink then sbind (finalize_egress_verdict ev Plain pkt) (\<lambda>v.
       if v \<noteq> ALLOW_TAKEOVER_SINK then sret True
       else sbind (send_packet ev (Wire pkt)) (\<lambda>_. sret True))
     else sret False)"

definition stage_return :: "env \<Rightarrow> win_packet \<Rightarrow> bool win_act" where
  "stage_return ev pkt = (let c = ctx pkt in
     if proto c = None then sret False
     else sbind (on_policy (match_relay_reverse (clock ev AtReturn) (proto_of c) (src_ip0 c) (sport0 c) (dst_ip0 c) (dport0 c)))
       (\<lambda>mapping. case mapping of
           None \<Rightarrow> sret False
         | Some m \<Rightarrow> (let q = on_ctx (set_sport (server_port m)) (on_ctx (set_src_ip (server_ip m)) pkt) in
             sbind (finalize_egress_verdict ev ReturnFixed q) (\<lambda>v.
               if v \<noteq> REINJECT_LOCAL then sbind (close_mapping ev (generation m)) (\<lambda>_. sret True)
               else sbind (timed_write_pcap ev (ctx q)) (\<lambda>_.
                 sbind (send_packet ev (Wire q)) (\<lambda>ok.
                 if ok then sret True else sbind (close_mapping ev (generation m)) (\<lambda>_. sret True)))))))"

definition stage_process :: "env \<Rightarrow> win_packet \<Rightarrow> bool win_act" where
  "stage_process ev pkt = sbind (sget (\<lambda>w. w_engine w \<noteq> None)) (\<lambda>on.
     if on then apply_process_redirect ev pkt else sret False)"

text \<open>Redirection to the TLS relay: the packet, its mapping, whether it was redirected and the
  generation of a mapping created for it; \<open>None\<close> when the quota denied it.\<close>

definition redirect_domain_tls_syn :: "env \<Rightarrow> win_packet \<Rightarrow> (win_packet \<times> RelayNatMapping) option win_act" where
  "redirect_domain_tls_syn ev pkt = (let c = ctx pkt in
     sbind (on_policy (lease_for (clock ev AtLease) (dst_ip0 c) (dport0 c))) (\<lambda>lease.
       case lease of
         None \<Rightarrow> sret None
       | Some _ \<Rightarrow> sbind (sget (\<lambda>w. relay_port (cfg (w_policy w)))) (\<lambda>rport.
           sbind (on_policy_raising (create_relay_mapping (clock ev AtCreate) (clock ev AtCreated)
               (src_ip0 c) (sport0 c) (dst_ip0 c) (dport0 c) (src_ip0 c) rport)) (\<lambda>m.
           sret (Some (on_ctx (set_dport rport) (on_ctx (set_dst_ip (src_ip0 c)) pkt), m))))))"

type_synonym forwarded = "win_packet \<times> RelayNatMapping option \<times> bool \<times> int option"

definition stage_forward :: "env \<Rightarrow> win_packet \<Rightarrow> forwarded option win_act" where
  "stage_forward ev pkt = (let c = ctx pkt in
     if proto c = None then sret (Some (pkt, None, False, None))
     else sbind (on_policy (match_relay_forward (clock ev AtForward) (proto_of c) (src_ip0 c) (sport0 c) (dst_ip0 c) (dport0 c)))
       (\<lambda>mapping. case mapping of
           Some m \<Rightarrow> sret (Some (on_ctx (set_dport (m_relay_port m)) (on_ctx (set_dst_ip (m_relay_ip m)) pkt),
               Some m, True, None))
         | None \<Rightarrow> sbind (is_new_tcp_syn pkt) (\<lambda>syn.
             if \<not> syn then sret (Some (pkt, None, False, None))
             else scatch
               (sbind (redirect_domain_tls_syn ev pkt) (\<lambda>r. sret (Some (case r of
                    None \<Rightarrow> (pkt, None, False, None)
                  | Some (q, m) \<Rightarrow> (q, Some m, True, Some (generation m))))))
               (\<lambda>e. case e of RelayMappingQuotaExceeded _ \<Rightarrow> sret None | _ \<Rightarrow> sraise e))))"

definition record_reviewed_ip_allow :: "env \<Rightarrow> win_packet \<Rightarrow> ReviewedIPv4Rule \<Rightarrow> unit win_act" where
  "record_reviewed_ip_allow ev pkt rv = smod (\<lambda>w. w\<lparr>reviewed_ip_audit :=
     snd (summaries (clock ev AtIpSummary) False
       (snd (observe_flow (clock ev AtIpAudit) (rule_id rv) (reviewed_packet_tuple pkt) (reviewed_ip_audit w))))\<rparr>)"

definition stage_reviewed :: "env \<Rightarrow> win_packet \<Rightarrow> bool win_act" where
  "stage_reviewed ev pkt =
     (if proto (ctx pkt) = None then sret False
      else sbind (sget (\<lambda>w. match_reviewed_ip (w_policy w) (reviewed_packet_tuple pkt))) (\<lambda>r.
        case r of
          None \<Rightarrow> sret False
        | Some rv \<Rightarrow> sbind (finalize_egress_verdict ev (Reviewed rv) pkt) (\<lambda>v.
            if v \<noteq> ALLOW_REVIEWED_IP then sret True
            else sbind (send_packet ev (Wire pkt)) (\<lambda>ok.
              if ok then sbind (record_reviewed_ip_allow ev pkt rv) (\<lambda>_. sret True) else sret True))))"

definition is_external_dns_query :: "policy \<Rightarrow> PacketCtx \<Rightarrow> bool" where
  "is_external_dns_query p c \<longleftrightarrow> proto c \<in> {Some ''UDP'', Some ''TCP''} \<and> dport c = 53 \<and>
     dst_ip0 c = external_dns_server (cfg p)"

definition is_local_dns_sink_reply :: "policy \<Rightarrow> PacketCtx \<Rightarrow> bool" where
  "is_local_dns_sink_reply p c \<longleftrightarrow> proto c \<in> {Some ''UDP'', Some ''TCP''} \<and> sport0 c = 53 \<and>
     is_exact_local_ipv4 p (dst_ip0 c)"

definition base_handles :: "policy \<Rightarrow> PacketCtx \<Rightarrow> bool" where
  "base_handles p c \<longleftrightarrow> non_allowed_action (cfg p) = ''divert'' \<or> is_external_dns_query p c \<or>
     is_local_dns_sink_reply p c"

section \<open>The base callbacks\<close>

definition win_new_destination :: "win \<Rightarrow> string \<Rightarrow> string" where
  "win_new_destination w src = (if starts_with src ''127.'' then loopback_ip (w_base w) else w_external_ip w)"

definition redirIcmpIpUnconditionally :: "win \<Rightarrow> win_packet \<Rightarrow> callback3" where
  "redirIcmpIpUnconditionally w pkt p d =
     Inr (if is_icmp p \<and> \<not> (case icmp_id pkt of None \<Rightarrow> False | Some i \<Rightarrow>
              i \<in> set (case dget (blacklist_ids d) ''ICMP'' of None \<Rightarrow> [] | Some ids \<Rightarrow> ids)) \<and>
            dst_ip p \<notin> {loopback_ip d, w_external_ip w}
          then set_dst_ip (win_new_destination w (src_ip p)) p else p, d)"

definition win_redir_ip :: "win \<Rightarrow> callback4" where
  "win_redir_ip w cr p d = Inr (maybe_redir_ip (win_new_destination w) p (c_pid cr) (c_comm cr) d)"

definition callbacks3 :: "win \<Rightarrow> win_packet \<Rightarrow> callback3 list" where
  "callbacks3 w pkt = [check_log_icmp, redirIcmpIpUnconditionally w pkt]"

definition callbacks4 :: "env \<Rightarrow> win \<Rightarrow> callback4 list" where
  "callbacks4 ev w = [maybe_redir_port (env_fmt ev), cb_fixup_sport, win_redir_ip w, cb_fixup_srcip]"

text \<open>On the translated leg of an observed connection the two forward callbacks are left out.\<close>

definition policy_callbacks4 :: "env \<Rightarrow> win_packet \<Rightarrow> win \<Rightarrow> callback4 list" where
  "policy_callbacks4 ev pkt w =
     (if proto (ctx pkt) = Some ''TCP'' \<and> original_tuple (ctx pkt) \<in> observed_nat_forward w
      then [cb_fixup_sport, cb_fixup_srcip] else callbacks4 ev w)"

text \<open>What a callback that raises leaves of the base state is \<open>failed_base\<close>. The capture of a mangled
  packet is the last step of \<open>handle_pkt\<close>.\<close>

definition run_handle_pkt :: "env \<Rightarrow> callback4 list \<Rightarrow> bool \<Rightarrow> win_packet \<Rightarrow> win_packet win_act" where
  "run_handle_pkt ev cbs captured pkt w =
     (case handle_pkt (crit ev) (callbacks3 w pkt) cbs captured (ctx pkt) (w_base w) of
        Inl e \<Rightarrow> (Inl e, w\<lparr>w_base := failed_base ev\<rparr>)
      | Inr (c, d) \<Rightarrow>
          if mangled c \<and> \<not> pcap_ok ev c then (Inl PcapWriteError, w\<lparr>w_base := failed_base ev\<rparr>)
          else (Inr (pkt\<lparr>ctx := c\<rparr>), w\<lparr>w_base := d\<rparr>))"

text \<open>The base handler or the bypass of connections older than the capture: \<open>None\<close> when the packet is
  finished, else the packet and whether the base handled it.\<close>

definition stage_base :: "env \<Rightarrow> win_packet \<Rightarrow> (win_packet \<times> bool) option win_act" where
  "stage_base ev pkt = sbind (sget (\<lambda>w. base_handles (w_policy w) (ctx pkt))) (\<lambda>yes.
     if \<not> yes then sret (Some (pkt, False))
     else sbind (is_midstream_tcp_flow pkt) (\<lambda>midstream.
       if midstream then sbind (send_packet ev (Wire pkt)) (\<lambda>_. sret None)
       else sbind (sget (policy_callbacks4 ev pkt)) (\<lambda>cbs.
         sbind (run_handle_pkt ev cbs True pkt) (\<lambda>q. sret (Some (q, True))))))"

definition close_option :: "env \<Rightarrow> RelayNatMapping option \<Rightarrow> unit win_act" where
  "close_option ev mapping = (case mapping of None \<Rightarrow> sret () | Some m \<Rightarrow> close_mapping ev (generation m))"

definition stage_final :: "env \<Rightarrow> bool \<Rightarrow> RelayNatMapping option \<Rightarrow> bool \<Rightarrow> win_packet \<Rightarrow> bool win_act" where
  "stage_final ev redirected mapping handled_by_base pkt =
     sbind (finalize_egress_verdict ev (if redirected then Redirected else Plain) pkt) (\<lambda>v.
       if v = DROP_EXTERNAL then sbind (close_option ev mapping) (\<lambda>_. sret True)
       else sbind (if mangled (ctx pkt) \<and> \<not> handled_by_base then timed_write_pcap ev (ctx pkt) else sret ()) (\<lambda>_.
         sbind (send_packet ev (Wire pkt)) (\<lambda>ok.
         sbind (if ok \<and> handled_by_base then remember_observed_nat_syn pkt else sret ()) (\<lambda>_.
         sbind (if \<not> ok then close_option ev mapping else sret ()) (\<lambda>_. sret True)))))"

text \<open>A mapping created for this packet is closed when the rest raises.\<close>

definition closing_on_error :: "env \<Rightarrow> int option \<Rightarrow> 'a win_act \<Rightarrow> 'a win_act" where
  "closing_on_error ev new m = scatch m (\<lambda>e. case new of
       None \<Rightarrow> sraise e
     | Some g \<Rightarrow> sbind (close_mapping ev g) (\<lambda>_. sraise e))"

definition stage_route :: "env \<Rightarrow> win_packet \<Rightarrow> bool win_act" where
  "stage_route ev pkt = sbind (stage_forward ev pkt) (\<lambda>f. case f of
       None \<Rightarrow> sret True
     | Some (q, mapping, redirected, new) \<Rightarrow> closing_on_error ev new
         (if redirected then stage_final ev True mapping False q
          else or_else (stage_reviewed ev q) (sbind (stage_base ev q) (\<lambda>b. case b of
              None \<Rightarrow> sret True
            | Some (q', handled) \<Rightarrow> stage_final ev False mapping handled q'))))"

definition outbound_stages :: "env \<Rightarrow> win_packet \<Rightarrow> bool win_act" where
  "outbound_stages ev pkt = or_else (stage_permit ev pkt) (or_else (stage_takeover ev pkt)
     (or_else (stage_return ev pkt) (or_else (stage_process ev pkt) (stage_route ev pkt))))"

section \<open>_handle_policy_packet\<close>

definition judge_packet :: "env \<Rightarrow> wdpkt \<Rightarrow> bool win_act" where
  "judge_packet ev wd = (case windows_packet (env_dpkt ev) ''egress_control'' wd of
       Inl e \<Rightarrow> sraise e
     | Inr pkt \<Rightarrow> sbind (timed_write_pcap ev (ctx pkt)) (\<lambda>_.
         if \<not> is_outbound pkt then sbind (stage_process ev pkt) (\<lambda>_. sret True)
         else outbound_stages ev pkt))"

text \<open>Every exception but a failed capture is a drop.\<close>

definition failing_closed :: "bool win_act \<Rightarrow> unit win_act" where
  "failing_closed m = scatch (sbind m (\<lambda>_. sret ()))
     (\<lambda>e. if e = PcapWriteError then sraise e else sret ())"

definition process_fragment :: "win \<Rightarrow> wdpkt \<Rightarrow> bool" where
  "process_fragment w wd = (case w_engine w of
       None \<Rightarrow> False
     | Some e \<Rightarrow> classify_process_redirect_ipv4_fragment (wd_raw wd) (wd_outbound wd)
         (original_ipv4 (rule e)) (target_ipv4 (rule e)) (w_guard_ipv4 w))"

definition handle_policy_packet :: "env \<Rightarrow> wdpkt \<Rightarrow> unit win_act" where
  "handle_policy_packet ev wd w = (let raw = wd_raw wd in
     if raw = [] then (Inr (), w)
     else (case classify_ipv6_preparse raw (wd_loopback wd) of
         Some v \<Rightarrow> if v = REINJECT_LOCAL then (Inr (), snd (send_packet ev (Unparsed raw) w)) else (Inr (), w)
       | None \<Rightarrow>
           if drop_bit 4 (raw ! 0 AND 0xf0) \<noteq> 4 then (Inr (), w)
           else if process_fragment w wd then (Inr (), w)
           else if classify_reviewed_ipv4_fragment raw (reviewed_target_protocols w) \<noteq> None then (Inr (), w)
           else failing_closed (judge_packet ev wd) w))"

section \<open>Without a policy\<close>

definition handle_legacy_packet :: "env \<Rightarrow> wdpkt \<Rightarrow> unit win_act" where
  "handle_legacy_packet ev wd = (case windows_packet (env_dpkt ev) ''divert_thread'' wd of
       Inl e \<Rightarrow> sraise e
     | Inr pkt \<Rightarrow> if \<not> pcap_ok ev (ctx pkt) then sraise PcapWriteError
         else sbind (sget (callbacks4 ev)) (\<lambda>cbs. sbind (run_handle_pkt ev cbs False pkt) (\<lambda>q.
           sbind (send_packet ev (Wire q)) (\<lambda>_. sret ()))))"

text \<open>One turn of \<open>divert_thread\<close> on a received packet.\<close>

definition divert_packet :: "bool \<Rightarrow> env \<Rightarrow> wdpkt \<Rightarrow> unit win_act" where
  "divert_packet egress_control_mode ev wd =
     (if egress_control_mode then handle_policy_packet ev wd else handle_legacy_packet ev wd)"

end
