(* ===== verification/WindowsRuns.thy ===== *)
theory WindowsRuns
  imports WindowsEgress EgressRuns ProcessRuns
begin

text \<open>
  What the packet handler of the Windows diverter guarantees: it drives the policy and the process
  redirection engine only through their own steps, it lets out only authorised packets, and it closes
  the relay mapping of a packet it does not send.
\<close>

section \<open>Acts on the state\<close>

lemma keeps_sbind_fact:
  assumes "keeps_inv I m" and "\<And>s x s'. I s \<Longrightarrow> m s = (Inr x, s') \<Longrightarrow> F x"
    and "\<And>x. F x \<Longrightarrow> keeps_inv I (f x)"
  shows "keeps_inv I (sbind m f)"
  unfolding keeps_inv_iff
proof safe
  fix s assume s: "I s"
  obtain r s' where m: "m s = (r, s')" by force
  with assms(1) s have s': "I s'" by (rule keeps_invD)
  show "I (snd (sbind m f s))"
  proof (cases r)
    case (Inl e)
    with m s' show ?thesis by (simp add: sbind_def)
  next
    case (Inr x)
    with assms(2,3) s m have "keeps_inv I (f x)" by blast
    with m Inr s' show ?thesis by (simp add: sbind_def keeps_inv_iff)
  qed
qed

lemma keeps_case_option [act_rules]:
  "(x = None \<Longrightarrow> keeps_inv I m) \<Longrightarrow> (\<And>y. x = Some y \<Longrightarrow> keeps_inv I (f y)) \<Longrightarrow> keeps_inv I (case x of None \<Rightarrow> m | Some y \<Rightarrow> f y)"
  by (cases x) auto

lemma keeps_on_policy: "(\<And>w. I w \<Longrightarrow> I (w\<lparr>w_policy := snd (f (w_policy w))\<rparr>)) \<Longrightarrow> keeps_inv I (on_policy f)"
  by (simp add: keeps_inv_iff on_policy_def split_beta)

lemma keeps_on_policy_raising:
  "(\<And>w. I w \<Longrightarrow> I (w\<lparr>w_policy := snd (f (w_policy w))\<rparr>)) \<Longrightarrow> keeps_inv I (on_policy_raising f)"
  by (simp add: keeps_inv_iff on_policy_raising_def split_beta)

lemma keeps_on_engine:
  "(\<And>w e. I w \<Longrightarrow> w_engine w = Some e \<Longrightarrow> I (w\<lparr>w_engine := Some (snd (f e))\<rparr>)) \<Longrightarrow> keeps_inv I (on_engine f)"
  by (auto simp: keeps_inv_iff on_engine_def split_beta split: option.split)

section \<open>What the handler leaves alone\<close>

text \<open>The policy's operations on the packet path change neither its configuration nor the local
  addresses, and they neither suspend nor close it.\<close>

definition same_setup :: "policy \<Rightarrow> policy \<Rightarrow> bool" where
  "same_setup p q \<longleftrightarrow> cfg q = cfg p \<and> local_ipv4 q = local_ipv4 p \<and> is_closed q = is_closed p \<and>
     egress_suspended q = egress_suspended p \<and> takeover_suspended q = takeover_suspended p"

lemma cleanup_permits_flags:
  "is_closed (cleanup_permits now p) = is_closed p" "egress_suspended (cleanup_permits now p) = egress_suspended p"
  "takeover_suspended (cleanup_permits now p) = takeover_suspended p"
  unfolding cleanup_permits_def
  by (rule fold_field; simp add: drop_permit_def split: prod.split option.split)+

lemma cleanup_locked_flags:
  "is_closed (cleanup_locked now p) = is_closed p" "egress_suspended (cleanup_locked now p) = egress_suspended p"
  "takeover_suspended (cleanup_locked now p) = takeover_suspended p"
  by (simp_all add: cleanup_locked_def Let_def cleanup_permits_flags cleanup_leases_def)

lemma packet_ops_same_setup:
  "same_setup p (snd (match_control_flow now pr src sp dst dp p))"
  "same_setup p (snd (match_relay_forward now pr src sp dst dp p))"
  "same_setup p (snd (match_relay_reverse now pr src sp dst dp p))"
  "same_setup p (snd (lease_for now ip port p))"
  "same_setup p (close_relay_mapping now g grace p)"
  by (auto simp: same_setup_def cleanup_locked_flags match_control_flow_def match_relay_forward_def match_relay_reverse_def match_nat_def
      lease_for_def close_relay_mapping_def Let_def split_beta split: option.split)

lemma create_same_setup: "same_setup p (snd (create_relay_mapping now1 now2 si sp vi vp ri rp p))"
proof (cases "lease_for now1 vi vp p")
  case (Pair l q)
  have "same_setup p q" using Pair packet_ops_same_setup(4) [of p now1 vi vp] by simp
  with Pair show ?thesis
    by (auto simp: same_setup_def cleanup_locked_flags create_relay_mapping_def Let_def split_beta split: sum.split option.split)
qed

lemmas same_setup_ops = packet_ops_same_setup create_same_setup

section \<open>What may leave\<close>

text \<open>The packets that may be given to the driver, for the captured packet \<open>wd\<close> in the state \<open>w\<close>: IPv6
  on loopback, traffic to a local address, inbound traffic the process redirection passes on, and
  otherwise an unchanged packet of a permitted control flow, to the takeover sink, covered by a reviewed
  rule or of a connection older than the capture, or a packet of the redirected program with the
  redirection target as its new destination.\<close>

inductive authorised :: "win \<Rightarrow> wdpkt \<Rightarrow> wire \<Rightarrow> bool" for w :: win and wd :: wdpkt where
  ipv6_loopback: "wd_loopback wd \<Longrightarrow> authorised w wd (Unparsed (wd_raw wd))"
| inbound: "\<not> wd_outbound wd \<Longrightarrow> w_engine w \<noteq> None \<Longrightarrow> authorised w wd (Wire q)"
| local_target: "is_exact_local_ipv4 (w_policy w) (dst_ip (ctx q)) \<Longrightarrow> authorised w wd (Wire q)"
| control_flow: "fresh_packet (ctx q) \<Longrightarrow>
    flow_ok (cfg (w_policy w)) kind name
      (flow_key (proto_of (ctx q)) (src_ip (ctx q)) (sport (ctx q)) (dst_ip (ctx q)) (dport (ctx q))) \<Longrightarrow>
    authorised w wd (Wire q)"
| takeover_sink: "fresh_packet (ctx q) \<Longrightarrow> takeover_enabled (cfg (w_policy w)) \<Longrightarrow>
    takeover_ipv4 (cfg (w_policy w)) = Some (dst_ip (ctx q)) \<Longrightarrow> authorised w wd (Wire q)"
| reviewed_rule: "fresh_packet (ctx q) \<Longrightarrow> r \<in> set (rr_rules (reviewed (cfg (w_policy w)))) \<Longrightarrow>
    rule_covers r (upper (proto_of (ctx q))) (dst_ip (ctx q)) (dport (ctx q)) \<Longrightarrow> authorised w wd (Wire q)"
| redirected_program: "w_engine w = Some e \<Longrightarrow> dst_ip0 (ctx q) = original_ipv4 (rule e) \<Longrightarrow>
    dst_ip (ctx q) = target_ipv4 (rule e) \<Longrightarrow> dport (ctx q) = dport0 (ctx q) \<Longrightarrow>
    authorised w wd (Wire q)"
| established: "fresh_packet (ctx q) \<Longrightarrow> proto (ctx q) = Some ''TCP'' \<Longrightarrow> \<not> bit (tcp_flags q) TH_SYN \<Longrightarrow>
    original_tuple (ctx q) \<notin> syn_observed_flows w \<Longrightarrow> base_handles (w_policy w) (ctx q) \<Longrightarrow>
    authorised w wd (Wire q)"

definition engine_follows :: "engine_run \<Rightarrow> engine option \<Rightarrow> engine option \<Rightarrow> bool" where
  "engine_follows s0 e0 e' = (case e0 of
       None \<Rightarrow> e' = None
     | Some e \<Rightarrow> \<exists>s. engine_step\<^sup>*\<^sup>* s0 s \<and> e' = Some (eng s) \<and> rule (eng s) = rule e)"

text \<open>What holds while one packet is handled, from the state \<open>w0\<close> on; \<open>new\<close> says whether the packet may
  open a connection.\<close>

definition confined :: "inflight \<Rightarrow> engine_run \<Rightarrow> win \<Rightarrow> wdpkt \<Rightarrow> bool \<Rightarrow> win \<Rightarrow> bool" where
  "confined f s0 w0 wd new w \<longleftrightarrow> run_inv (w_policy w, f) \<and> same_setup (w_policy w0) (w_policy w) \<and>
     policy_step\<^sup>*\<^sup>* (w_policy w0, f) (w_policy w, f) \<and>
     engine_follows s0 (w_engine w0) (w_engine w) \<and>
     takeover_route w = takeover_route w0 \<and>
     (\<not> new \<longrightarrow> syn_observed_flows w = syn_observed_flows w0) \<and>
     (\<exists>xs. w_sent w = w_sent w0 @ xs \<and> (\<forall>x \<in> set xs. authorised w0 wd x))"

lemma confined_refl:
  "run_inv (w_policy w, f) \<Longrightarrow> (\<And>e. w_engine w = Some e \<Longrightarrow> eng s0 = e) \<Longrightarrow> confined f s0 w wd new w"
  by (auto simp: confined_def same_setup_def engine_follows_def split: option.split)

lemma confined_policy:
  assumes "confined f s0 w0 wd new w" "policy_step (w_policy w, f) (q, f)" "same_setup (w_policy w) q"
  shows "confined f s0 w0 wd new (w\<lparr>w_policy := q\<rparr>)"
  using assms run_inv_step [OF assms(2)]
  by (auto simp: confined_def same_setup_def intro: rtranclp.rtrancl_into_rtrancl)

lemma confined_engine:
  assumes "confined f s0 w0 wd new w" "w_engine w = Some e"
    "\<And>s. eng s = e \<Longrightarrow> \<exists>s'. engine_step\<^sup>*\<^sup>* s s' \<and> eng s' = e'" "rule e' = rule e"
  shows "confined f s0 w0 wd new (w\<lparr>w_engine := Some e'\<rparr>)"
proof -
  obtain e0 s where s: "w_engine w0 = Some e0" "engine_step\<^sup>*\<^sup>* s0 s" "eng s = e" "rule e = rule e0"
    using assms(1,2) by (auto simp: confined_def engine_follows_def split: option.splits)
  obtain s' where "engine_step\<^sup>*\<^sup>* s s'" "eng s' = e'" using assms(3) [OF s(3)] by blast
  with s assms(1,4) show ?thesis
    by (auto simp: confined_def engine_follows_def intro!: exI [of _ s'] rtranclp_trans [of engine_step s0 s s'])
qed

lemma confined_other [simp]:
  "confined f s0 w0 wd new (w\<lparr>w_base := b\<rparr>) = confined f s0 w0 wd new w"
  "confined f s0 w0 wd new (w\<lparr>flow_audit := a\<rparr>) = confined f s0 w0 wd new w"
  "confined f s0 w0 wd new (w\<lparr>flow_audit_suspended := x\<rparr>) = confined f s0 w0 wd new w"
  "confined f s0 w0 wd new (w\<lparr>flow_audit_last_cleanup := t\<rparr>) = confined f s0 w0 wd new w"
  "confined f s0 w0 wd new (w\<lparr>reviewed_ip_audit := i\<rparr>) = confined f s0 w0 wd new w"
  "confined f s0 w0 wd new (w\<lparr>midstream_bypass_flows := m\<rparr>) = confined f s0 w0 wd new w"
  by (simp_all add: confined_def)

lemma confined_sent:
  "confined f s0 w0 wd new w \<Longrightarrow> authorised w0 wd x \<Longrightarrow> confined f s0 w0 wd new (w\<lparr>w_sent := w_sent w @ [x]\<rparr>)"
  by (auto simp: confined_def)

lemma confinedD:
  assumes "confined f s0 w0 wd new w"
  shows "policy_inv (w_policy w)" "cfg (w_policy w) = cfg (w_policy w0)" "local_ipv4 (w_policy w) = local_ipv4 (w_policy w0)"
    "\<not> new \<Longrightarrow> syn_observed_flows w = syn_observed_flows w0" "takeover_route w = takeover_route w0"
    "same_setup (w_policy w0) (w_policy w)"
  using assms by (auto simp: confined_def run_inv_def same_setup_def)

section \<open>The handler is confined\<close>

lemma keeps_send: "authorised w0 wd x \<Longrightarrow> keeps_inv (confined f s0 w0 wd new) (send_packet ev x)"
  by (simp add: keeps_inv_iff send_packet_def confined_sent)

lemma keeps_pcap [act_rules]: "keeps_inv (confined f s0 w0 wd new) (timed_write_pcap ev c)"
  by (simp add: keeps_inv_iff timed_write_pcap_def)

lemma keeps_close_mapping [act_rules]: "keeps_inv (confined f s0 w0 wd new) (close_mapping ev g)"
  unfolding close_mapping_def
  by (rule keeps_smod) (auto intro: confined_policy step_close_mapping same_setup_ops)

lemma keeps_policy_ops [act_rules]:
  "keeps_inv (confined f s0 w0 wd new) (on_policy (match_control_flow now pr src sp dst dp))"
  "keeps_inv (confined f s0 w0 wd new) (on_policy (match_relay_forward now pr src sp dst dp))"
  "keeps_inv (confined f s0 w0 wd new) (on_policy (match_relay_reverse now pr src sp dst dp))"
  "keeps_inv (confined f s0 w0 wd new) (on_policy (lease_for now ip port))"
  "keeps_inv (confined f s0 w0 wd new) (on_policy_raising (create_relay_mapping now1 now2 si si' vi vp ri rp))"
  by (auto intro!: keeps_on_policy keeps_on_policy_raising intro: confined_policy policy_step.intros same_setup_ops)

lemma confined_audit:
  assumes "confined f s0 w0 wd new w" shows "confined f s0 w0 wd new (new_audit_entry ev pkt w)"
proof -
  have d: "confined f s0 w0 wd new (drop_stale_audits now w)" "w_policy (drop_stale_audits now w) = w_policy w" for now
    using assms by (simp_all add: drop_stale_audits_def Let_def)
  show ?thesis
    unfolding new_audit_entry_def Let_def
    by (auto intro!: confined_policy d step_lease_for same_setup_ops)
qed

lemma keeps_audit [act_rules]: "keeps_inv (confined f s0 w0 wd new) (audit_flow ev pkt)"
  unfolding audit_flow_def by (rule keeps_smod) (simp add: Let_def confined_audit)

lemma keeps_finalize [act_rules]: "keeps_inv (confined f s0 w0 wd new) (finalize_egress_verdict ev arg pkt)"
  unfolding finalize_egress_verdict_def by (intro act_rules)

lemma finalize_verdict:
  "finalize_egress_verdict ev arg pkt w = (Inr v, w') \<Longrightarrow> v = compute_egress_verdict arg w pkt"
  by (auto simp: finalize_egress_verdict_def sbind_def sget_def audit_flow_def smod_def sret_def)

lemma keeps_stage_permit:
  assumes "fresh_packet (ctx pkt)"
  shows "keeps_inv (confined f s0 w0 wd new) (stage_permit ev pkt)"
proof -
  let ?c = "ctx pkt"
  have F: "flow_ok (cfg (w_policy w0)) (permit_kind m) (permit_domain m)
      (flow_key (proto_of ?c) (src_ip ?c) (sport ?c) (dst_ip ?c) (dport ?c))"
    if "confined f s0 w0 wd new w" "on_policy (match_control_flow now (proto_of ?c) (src_ip0 ?c) (sport0 ?c)
        (dst_ip0 ?c) (dport0 ?c)) w = (Inr (Some m), w')" for w w' m now
    using match_control_flow_Some(1) [OF confinedD(1) [OF that(1)]] confinedD(2) [OF that(1)] that(2) assms
    by (auto simp: on_policy_def fresh_packet_def split: prod.splits) (metis fst_conv)
  show ?thesis
    unfolding stage_permit_def Let_def
    by (intro keeps_if keeps_sret keeps_sbind_fact [where F = "\<lambda>r. \<forall>m. r = Some m \<longrightarrow>
        flow_ok (cfg (w_policy w0)) (permit_kind m) (permit_domain m)
          (flow_key (proto_of ?c) (src_ip ?c) (sport ?c) (dst_ip ?c) (dport ?c))"] act_rules)
      (auto intro!: keeps_sbind keeps_send keeps_sret keeps_finalize control_flow assms dest: F)
qed

lemma takeover_route_target:
  assumes "confined f s0 w0 wd new w" "matches_takeover_sink_route w pkt" "fresh_packet (ctx pkt)"
  shows "authorised w0 wd (Wire pkt)"
  using assms(2,3) confinedD [OF assms(1)]
  by (auto simp: matches_takeover_sink_route_def matches_takeover_sink_def takeover_available_def fresh_packet_def
      intro!: takeover_sink split: option.splits)

lemma keeps_stage_takeover:
  assumes "fresh_packet (ctx pkt)"
  shows "keeps_inv (confined f s0 w0 wd new) (stage_takeover ev pkt)"
  unfolding stage_takeover_def
  by (rule keeps_sbind_fact [where F = "\<lambda>b. b \<longrightarrow> authorised w0 wd (Wire pkt)"])
    (auto simp: sget_def intro!: keeps_sbind keeps_send keeps_sret keeps_finalize act_rules
      intro: takeover_route_target assms)

lemma local_verdict:
  assumes "confined f s0 w0 wd new w" "compute_egress_verdict arg w pkt \<noteq> DROP_EXTERNAL"
    "arg \<in> {Plain, ReturnFixed, Redirected}" "\<not> matches_takeover_sink_route w pkt"
  shows "authorised w0 wd (Wire pkt)"
  using assms(2-) confinedD [OF assms(1)]
  by (auto simp: compute_egress_verdict_def Let_def is_exact_local_ipv4_def intro!: local_target split: if_splits)

lemma verdict_sink:
  "matches_takeover_sink_route w q \<Longrightarrow> arg \<in> {Plain, ReturnFixed, Redirected} \<Longrightarrow>
    compute_egress_verdict arg w q = ALLOW_TAKEOVER_SINK"
  by (auto simp: compute_egress_verdict_def Let_def)

lemma finalize_local:
  assumes "confined f s0 w0 wd new w" "finalize_egress_verdict ev arg q w = (Inr v, w')"
    "arg \<in> {Plain, ReturnFixed, Redirected}" "v \<noteq> DROP_EXTERNAL"
    "v \<noteq> ALLOW_TAKEOVER_SINK \<or> \<not> matches_takeover_sink_route w q"
  shows "authorised w0 wd (Wire q)"
  using finalize_verdict [OF assms(2)] local_verdict [OF assms(1)] verdict_sink [of w q arg] assms(3-)
  by metis

lemma keeps_stage_return: "keeps_inv (confined f s0 w0 wd new) (stage_return ev pkt)"
proof -
  have F: "keeps_inv (confined f s0 w0 wd new) (sbind (finalize_egress_verdict ev ReturnFixed q) g)"
    if "\<And>v. (v = REINJECT_LOCAL \<longrightarrow> authorised w0 wd (Wire q)) \<Longrightarrow> keeps_inv (confined f s0 w0 wd new) (g v)" for q g
    by (rule keeps_sbind_fact [where F = "\<lambda>v. v = REINJECT_LOCAL \<longrightarrow> authorised w0 wd (Wire q)", OF keeps_finalize])
      (auto intro: finalize_local that)
  show ?thesis
    unfolding stage_return_def Let_def
    by (intro keeps_if keeps_sret keeps_sbind [OF keeps_policy_ops(3)] keeps_case_option F)
      (auto intro!: act_rules keeps_send)
qed

lemma not_rewrite_inbound:
  "action (fst (fst (create_mapping t p ow e))) \<noteq> REWRITE_INBOUND"
  "action (fst (fst (after_owner t p ans r e))) \<noteq> REWRITE_INBOUND"
  "fst (reserve_outbound now t p e) = Finished dk \<Longrightarrow> action (fst dk) \<noteq> REWRITE_INBOUND"
proof -
  show c: "action (fst (fst (create_mapping t p ow e))) \<noteq> REWRITE_INBOUND" for ow e
    by (simp add: create_mapping_def Let_def split_beta drop_packet_def plain_def)
  have j: "action (fst d) \<noteq> REWRITE_INBOUND" if "judge_owner t k r e = (Some d, e1)" for k d e1
    using that by (auto simp: judge_owner_def drop_packet_def pass_packet_def plain_def split: option.splits if_splits)
  show "action (fst (fst (after_owner t p ans r e))) \<noteq> REWRITE_INBOUND"
    using c j [of "packet_key p"]
    by (auto simp: after_owner_def drop_packet_def plain_def Let_def split: prod.split option.split sum.split)
  show "fst (reserve_outbound now t p e) = Finished dk \<Longrightarrow> action (fst dk) \<noteq> REWRITE_INBOUND"
    by (auto simp: reserve_outbound_def existing_mapping_def Let_def split_beta drop_packet_def pass_packet_def
        plain_def split: option.splits if_splits)
qed

lemma prepare_inbound_only:
  assumes "prepare now t p ans e = ((d, k), e')" "action d = REWRITE_INBOUND"
  shows "pk_direction p = ''inbound''"
proof (rule ccontr)
  assume n: "pk_direction p \<noteq> ''inbound''"
  with assms have po: "prepare_outbound now t p ans e = ((d, k), e')"
    by (auto simp: prepare_def not_applicable_def drop_packet_def plain_def split: if_splits)
  obtain x e1 where re: "reserve_outbound now t p e = (x, e1)" by force
  show False
  proof (cases x)
    case (Finished dk)
    with re po assms(2) not_rewrite_inbound(3) [of now t p e dk] show ?thesis
      by (simp add: prepare_outbound_def)
  next
    case (Reserved c)
    have a: "action (fst (fst (after_owner t p ans r q))) \<noteq> REWRITE_INBOUND" for r q
      by (rule not_rewrite_inbound)
    from Reserved re po assms(2) a [of c e1] a [of _ "store_resolution t (packet_key p) _ e1"] show ?thesis
      by (auto simp: prepare_outbound_def Let_def split_beta drop_packet_def plain_def split: option.splits sum.splits)
        (metis fst_conv)+
  qed
qed

text \<open>What the engine decides about a packet, as far as the wire is concerned.\<close>

lemma prepared_authorised:
  assumes c: "confined f s0 w0 wd new w" and p: "engine_prepare ev pkt w = (Inr (d, k), w')"
    and k: "fresh_packet (ctx pkt)" "is_outbound pkt = wd_outbound wd" and r: "rewrite_packet d pkt = Inr q"
  shows "authorised w0 wd (Wire q)"
proof -
  obtain e e' where e: "w_engine w = Some e"
    and pr: "prepare (clock ev AtEngine) (clock ev AtEngineLater) (process_redirect_packet_tuple pkt) (env_answers ev) e
      = ((d, k), e')"
    using p by (auto simp: engine_prepare_def on_engine_def split: option.splits prod.splits)
  obtain e0 where e0: "w_engine w0 = Some e0" "rule e = rule e0"
    using c e by (auto simp: confined_def engine_follows_def split: option.splits)
  consider "action d = REWRITE_OUTBOUND" | "action d = REWRITE_INBOUND"
    using r by (cases "action d") (auto simp: rewrite_packet_def)
  then show ?thesis
  proof cases
    case 1
    have o: "outbound_candidate e (process_redirect_packet_tuple pkt)"
      "d_target d = Some (target_ipv4 (rule e), pk_dport (process_redirect_packet_tuple pkt))"
      by (rule prepare_rewrite_outbound [OF pr 1], assumption)+
    then have t: "d_target d = Some (target_ipv4 (rule e), dport0 (ctx pkt))"
      by (simp add: process_redirect_packet_tuple_def Let_def)
    from o have "proto_of (ctx pkt) = ''TCP''" "dst_ip0 (ctx pkt) = original_ipv4 (rule e)"
      by (simp_all add: outbound_candidate_def process_redirect_packet_tuple_def Let_def)
    with k(1) have "is_ip (ctx pkt)" by (auto simp: proto_of_def fresh_packet_def split: option.splits)
    then have q: "dst_ip (ctx q) = target_ipv4 (rule e)" "dport (ctx q) = dport0 (ctx q)"
      "dst_ip0 (ctx q) = dst_ip0 (ctx pkt)"
      using 1 r t k(1) by (auto simp: rewrite_packet_def set_dst_ip_def set_dport_def fresh_packet_def)
    show ?thesis
      by (rule redirected_program [OF e0(1)]) (use q e0(2) \<open>dst_ip0 (ctx pkt) = _\<close> in simp_all)
  next
    case 2
    with prepare_inbound_only [OF pr 2] k(2) e0 show ?thesis
      by (auto simp: process_redirect_packet_tuple_def Let_def intro: inbound split: if_splits)
  qed
qed

lemma keeps_engine_ops [act_rules]:
  "keeps_inv (confined f s0 w0 wd new) (engine_prepare ev pkt)"
  "keeps_inv (confined f s0 w0 wd new) (engine_abort ev k)"
  "keeps_inv (confined f s0 w0 wd new) (engine_commit ev k outcome)"
  "keeps_inv (confined f s0 w0 wd new) (engine_suspend ev reason)"
proof -
  have 1: "\<exists>s'. engine_step\<^sup>*\<^sup>* s s' \<and> eng s' = e'" if "engine_step s (s\<lparr>eng := e'\<rparr>)" for s :: engine_run and e'
    using one_step [OF that] by simp
  show "keeps_inv (confined f s0 w0 wd new) (engine_prepare ev pkt)"
    unfolding engine_prepare_def
  proof (rule keeps_on_engine, rule confined_engine)
    fix w e and s :: engine_run assume "eng s = e"
    with prepare_steps [of s "clock ev AtEngine" "clock ev AtEngineLater" "process_redirect_packet_tuple pkt" "env_answers ev"]
    show "\<exists>s'. engine_step\<^sup>*\<^sup>* s s' \<and> eng s' = snd (case prepare (clock ev AtEngine) (clock ev AtEngineLater)
        (process_redirect_packet_tuple pkt) (env_answers ev) e of (d, e') \<Rightarrow> (Inr d, e'))"
      by (simp add: split_beta)
  qed (auto simp: split_beta intro: prepare_rule prod.collapse [symmetric])
  have 2: "keeps_inv (confined f s0 w0 wd new) (on_engine g)"
    if "\<And>s :: engine_run. engine_step s (s\<lparr>eng := snd (g (eng s))\<rparr>)" "\<And>e. keeps e (snd (g e))"
    for g :: "engine \<Rightarrow> bool result \<times> engine"
  proof (rule keeps_on_engine)
    fix w e assume "confined f s0 w0 wd new w" "w_engine w = Some e"
    then show "confined f s0 w0 wd new (w\<lparr>w_engine := Some (snd (g e))\<rparr>)"
      by (rule confined_engine) (use 1 [OF that(1)] keeps_rule [OF that(2)] in auto)
  qed
  show "keeps_inv (confined f s0 w0 wd new) (engine_abort ev k)"
    unfolding engine_abort_def by (rule 2) (auto intro: step_abort prod.collapse [symmetric] keeps_abort)
  show "keeps_inv (confined f s0 w0 wd new) (engine_commit ev k outcome)"
    unfolding engine_commit_def by (rule 2) (auto intro: step_commit prod.collapse [symmetric] keeps_commit)
  show "keeps_inv (confined f s0 w0 wd new) (engine_suspend ev reason)"
    unfolding engine_suspend_def by (rule 2) (auto simp: split_beta intro: step_suspend keeps_suspend)
qed

lemma keeps_inject:
  assumes "\<And>q. rewrite_packet d pkt = Inr q \<Longrightarrow> authorised w0 wd (Wire q)"
  shows "keeps_inv (confined f s0 w0 wd new) (inject_rewritten ev d pkt)"
  unfolding inject_rewritten_def using assms
  by (auto intro!: act_rules keeps_send split: sum.split)

lemma keeps_apply_process_redirect:
  assumes k: "fresh_packet (ctx pkt)" "is_outbound pkt = wd_outbound wd"
  shows "keeps_inv (confined f s0 w0 wd new) (apply_process_redirect ev pkt)"
proof -
  let ?F = "\<lambda>(d, k). (\<forall>q. rewrite_packet d pkt = Inr q \<longrightarrow> authorised w0 wd (Wire q)) \<and>
    (\<not> is_outbound pkt \<longrightarrow> authorised w0 wd (Wire pkt))"
  have F: "?F x" if c: "confined f s0 w0 wd new w" "engine_prepare ev pkt w = (Inr x, w')" for w w' x
  proof -
    have "w_engine w0 \<noteq> None"
      using c by (auto simp: confined_def engine_follows_def engine_prepare_def on_engine_def split: option.splits)
    then have "\<not> is_outbound pkt \<longrightarrow> authorised w0 wd (Wire pkt)" using k(2) by (auto intro: inbound)
    with prepared_authorised [OF c(1) _ k] c(2) show ?thesis by (cases x) auto
  qed
  show ?thesis
    unfolding apply_process_redirect_def
  proof (rule keeps_sbind_fact [where F = ?F, OF keeps_engine_ops(1) F], goal_cases)
    case (3 x)
    then show ?case
      by (cases x; cases "action (fst x)") (auto simp: Let_def intro!: act_rules keeps_send keeps_inject)
  qed
qed

lemma keeps_stage_process:
  assumes "fresh_packet (ctx pkt)" "is_outbound pkt = wd_outbound wd"
  shows "keeps_inv (confined f s0 w0 wd new) (stage_process ev pkt)"
  unfolding stage_process_def
  by (intro act_rules keeps_apply_process_redirect [OF assms])

section \<open>Routing\<close>

text \<open>The rest of the handler keeps the captured tuple of the packet.\<close>

definition same_origin :: "PacketCtx \<Rightarrow> PacketCtx \<Rightarrow> bool" where
  "same_origin c c' \<longleftrightarrow> proto c' = proto c \<and> src_ip0 c' = src_ip0 c \<and> sport0 c' = sport0 c \<and>
     dst_ip0 c' = dst_ip0 c \<and> dport0 c' = dport0 c"

lemma same_origin_set [simp]:
  "same_origin c (set_dst_ip ip c')= same_origin c c'" "same_origin c (set_src_ip ip c') = same_origin c c'"
  "same_origin c (set_dport n c') = same_origin c c'" "same_origin c (set_sport n c') = same_origin c c'"
  "same_origin c c"
  by (simp_all add: same_origin_def set_dst_ip_def set_src_ip_def set_dport_def set_sport_def)

lemma note_session_packet: "note_session fm cr p d = Inr (p', d') \<Longrightarrow> p' = p"
  by (auto simp: note_session_def maybeExecuteCmd_def ebind_Inr_iff split: if_splits)

lemma callbacks_same_origin:
  assumes "same_origin c p"
  shows "maybe_redir_port fm cr p d = Inr (p', d') \<Longrightarrow> same_origin c p'"
    "cb_fixup_sport cr p d = Inr (p', d') \<Longrightarrow> same_origin c p'"
    "cb_fixup_srcip cr p d = Inr (p', d') \<Longrightarrow> same_origin c p'"
    "win_redir_ip w cr p d = Inr (p', d') \<Longrightarrow> same_origin c p'"
    "check_log_icmp p d = Inr (p', d') \<Longrightarrow> same_origin c p'"
    "redirIcmpIpUnconditionally w pkt p d = Inr (p', d') \<Longrightarrow> same_origin c p'"
proof -
  show "maybe_redir_port fm cr p d = Inr (p', d') \<Longrightarrow> same_origin c p'"
    using assms by (auto simp: maybe_redir_port_def dest!: note_session_packet split: option.splits if_splits prod.splits bool.splits)
  show "cb_fixup_sport cr p d = Inr (p', d') \<Longrightarrow> same_origin c p'"
    using assms by (auto simp: cb_fixup_sport_def maybe_fixup_sport_def split: option.splits if_splits)
  show "cb_fixup_srcip cr p d = Inr (p', d') \<Longrightarrow> same_origin c p'"
    using assms by (auto simp: cb_fixup_srcip_def maybe_fixup_srcip_def split: option.splits if_splits)
  show "win_redir_ip w cr p d = Inr (p', d') \<Longrightarrow> same_origin c p'"
    using assms by (auto simp: win_redir_ip_def maybe_redir_ip_def split: prod.splits bool.splits if_splits)
  show "check_log_icmp p d = Inr (p', d') \<Longrightarrow> same_origin c p'"
    using assms by (auto simp: check_log_icmp_def)
  show "redirIcmpIpUnconditionally w pkt p d = Inr (p', d') \<Longrightarrow> same_origin c p'"
    using assms by (auto simp: redirIcmpIpUnconditionally_def split: if_splits)
qed

lemma run_handle_pkt_origin:
  assumes "run_handle_pkt ev cbs b pkt w = (Inr q, w')" "set cbs \<subseteq> set (callbacks4 ev w2)"
  shows "same_origin (ctx pkt) (ctx q) \<and> if_index q = if_index pkt \<and> tcp_flags q = tcp_flags pkt"
proof -
  obtain c d where h: "handle_pkt (crit ev) (callbacks3 w pkt) cbs b (ctx pkt) (w_base w) = Inr (c, d)"
    and q: "q = pkt\<lparr>ctx := c\<rparr>"
    using assms(1) by (auto simp: run_handle_pkt_def split: sum.splits prod.splits if_splits)
  let ?P = "\<lambda>(p, x). same_origin (ctx pkt) p"
  have 3: "?P t" if "efold (\<lambda>cb (p, x). cb p x) (callbacks3 w pkt) s = Inr t" "?P s" for s t :: "PacketCtx \<times> diverter"
    using that by (rule efold_invariant [where P = ?P])
      (auto simp: callbacks3_def dest: callbacks_same_origin(5,6))
  have 4: "?P t" if "efold (\<lambda>cb (p, x). cb (crit ev) p x) cbs s = Inr t" "?P s" for s t :: "PacketCtx \<times> diverter"
    using that by (rule efold_invariant [where P = ?P])
      (use assms(2) in \<open>auto simp: callbacks4_def dest!: subsetD dest: callbacks_same_origin(1-4)\<close>)
  from h have "same_origin (ctx pkt) c"
    by (auto simp: handle_pkt_def Let_def ebind_Inr_iff split: if_splits dest!: 3 4)
  with q show ?thesis by simp
qed

definition continues :: "win_packet \<Rightarrow> win_packet \<Rightarrow> bool" where
  "continues pkt q \<longleftrightarrow> same_origin (ctx pkt) (ctx q) \<and> if_index q = if_index pkt \<and> tcp_flags q = tcp_flags pkt"

lemma sink_route_same:
  assumes "confined f s0 w0 wd new w" "continues pkt q"
  shows "matches_takeover_sink_route w q = matches_takeover_sink_route w0 pkt"
  using confinedD [OF assms(1)] assms(2)
  by (auto simp: continues_def same_origin_def same_setup_def matches_takeover_sink_route_def
      matches_takeover_sink_def takeover_available_def proto_of_def split: option.splits)

lemma forget_frame:
  "w_policy (forget_observed_nat k w) = w_policy w" "w_engine (forget_observed_nat k w) = w_engine w"
  "takeover_route (forget_observed_nat k w) = takeover_route w" "w_sent (forget_observed_nat k w) = w_sent w"
  unfolding forget_observed_nat_def Let_def
  by (subst fold_field; simp add: forget_key_def)+

lemma confined_forget: "confined f s0 w0 wd True (forget_observed_nat k w) = confined f s0 w0 wd True w"
  by (simp add: confined_def forget_frame)

lemma confined_observed [simp]:
  "confined f s0 w0 wd True (w\<lparr>syn_observed_flows := x\<rparr>) = confined f s0 w0 wd True w"
  "confined f s0 w0 wd True (w\<lparr>observed_nat_tuples := y\<rparr>) = confined f s0 w0 wd True w"
  "confined f s0 w0 wd True (w\<lparr>observed_nat_forward := z\<rparr>) = confined f s0 w0 wd True w"
  "confined f s0 w0 wd True (w\<lparr>observed_nat_owners := o'\<rparr>) = confined f s0 w0 wd True w"
  by (simp_all add: confined_def)

lemma keeps_new_syn:
  "(is_syn_only pkt \<Longrightarrow> new) \<Longrightarrow> keeps_inv (confined f s0 w0 wd new) (is_new_tcp_syn pkt)"
  by (auto simp: keeps_inv_iff is_new_tcp_syn_def Let_def confined_forget split: option.split)

lemma confined_fold_forget:
  "confined f s0 w0 wd True (fold (\<lambda>key w. case dget (observed_nat_owners w) key of
       None \<Rightarrow> w | Some owner \<Rightarrow> if owner \<noteq> k then forget_observed_nat owner w else w) keys w) =
     confined f s0 w0 wd True w"
  by (rule fold_field [where F = "confined f s0 w0 wd True"]) (simp add: confined_forget split: option.split)

lemma keeps_remember:
  "(is_syn_only pkt \<Longrightarrow> new) \<Longrightarrow> keeps_inv (confined f s0 w0 wd new) (remember_observed_nat_syn pkt)"
  unfolding remember_observed_nat_syn_def
  by (rule keeps_smod) (auto simp: Let_def confined_fold_forget simp del: fold_simps)

lemma keeps_redirect_tls [act_rules]: "keeps_inv (confined f s0 w0 wd new) (redirect_domain_tls_syn ev pkt)"
  unfolding redirect_domain_tls_syn_def Let_def by (intro act_rules)

lemma keeps_stage_forward:
  assumes "is_syn_only pkt \<Longrightarrow> new"
  shows "keeps_inv (confined f s0 w0 wd new) (stage_forward ev pkt)"
  unfolding stage_forward_def Let_def
  by (intro act_rules keeps_new_syn assms) (auto split: exn.split)

lemma redirect_tls_result:
  "redirect_domain_tls_syn ev pkt w = (Inr (Some (q, m)), w') \<Longrightarrow> continues pkt q"
  by (auto simp: redirect_domain_tls_syn_def Let_def sbind_def sget_def sret_def continues_def
      split: prod.splits sum.splits option.splits)

lemma stage_forward_result:
  assumes "stage_forward ev pkt w = (Inr (Some (q, m, redirected, g)), w')"
  shows "continues pkt q \<and> (\<not> redirected \<longrightarrow> q = pkt)"
  using assms redirect_tls_result
  by (auto simp: stage_forward_def Let_def sbind_def scatch_def sret_def sraise_def continues_def
      split: prod.splits sum.splits option.splits if_splits exn.splits)

lemma keeps_stage_reviewed:
  assumes "fresh_packet (ctx pkt)"
  shows "keeps_inv (confined f s0 w0 wd new) (stage_reviewed ev pkt)"
proof -
  have F: "authorised w0 wd (Wire pkt)"
    if "confined f s0 w0 wd new w" "match_reviewed_ip (w_policy w) (reviewed_packet_tuple pkt) = Some r" for w r
    using match_reviewed_ip_Some [OF confinedD(1) [OF that(1)] that(2)] confinedD(2) [OF that(1)] assms
    by (auto simp: reviewed_packet_tuple_def intro: reviewed_rule)
  have r: "keeps_inv (confined f s0 w0 wd new) (record_reviewed_ip_allow ev pkt r)" for r
    unfolding record_reviewed_ip_allow_def by (rule keeps_smod) simp
  show ?thesis
    unfolding stage_reviewed_def
    by (intro keeps_if keeps_sret keeps_sbind_fact [where F = "\<lambda>r. r \<noteq> None \<longrightarrow> authorised w0 wd (Wire pkt)"])
      (auto simp: sget_def intro!: act_rules keeps_send r dest: F)
qed

lemma base_handles_same:
  "same_setup p q \<Longrightarrow> base_handles q c = base_handles p c"
  by (auto simp: base_handles_def same_setup_def is_external_dns_query_def is_local_dns_sink_reply_def is_exact_local_ipv4_def)

lemma keeps_run_handle [act_rules]: "keeps_inv (confined f s0 w0 wd new) (run_handle_pkt ev cbs b pkt)"
  by (auto simp: keeps_inv_iff run_handle_pkt_def split: sum.split)

lemma keeps_midstream [act_rules]: "keeps_inv (confined f s0 w0 wd new) (is_midstream_tcp_flow pkt)"
  by (simp add: keeps_inv_iff is_midstream_tcp_flow_def Let_def)

lemma midstream_established:
  assumes "confined f s0 w0 wd (is_syn_only pkt) w" "is_midstream_tcp_flow pkt w = (Inr True, w')"
    and "fresh_packet (ctx pkt)" "base_handles (w_policy w0) (ctx pkt)"
  shows "authorised w0 wd (Wire pkt)"
proof (rule established [OF assms(3)])
  from assms(2) show p: "proto (ctx pkt) = Some ''TCP''" "\<not> bit (tcp_flags pkt) TH_SYN"
    by (auto simp: is_midstream_tcp_flow_def Let_def split: if_splits)
  then have "\<not> is_syn_only pkt" by (simp add: is_syn_only_def)
  then show "original_tuple (ctx pkt) \<notin> syn_observed_flows w0"
    using confinedD(4) [OF assms(1)] assms(2) by (auto simp: is_midstream_tcp_flow_def Let_def split: if_splits)
  show "base_handles (w_policy w0) (ctx pkt)" by fact
qed

lemma keeps_stage_base:
  assumes "fresh_packet (ctx pkt)"
  shows "keeps_inv (confined f s0 w0 wd (is_syn_only pkt)) (stage_base ev pkt)"
proof -
  let ?I = "confined f s0 w0 wd (is_syn_only pkt)"
  have m: "keeps_inv ?I (sbind (is_midstream_tcp_flow pkt) g)"
    if "base_handles (w_policy w0) (ctx pkt)"
      "\<And>b. (b \<longrightarrow> authorised w0 wd (Wire pkt)) \<Longrightarrow> keeps_inv ?I (g b)" for g :: "bool \<Rightarrow> 'b win_act"
    by (rule keeps_sbind_fact [where F = "\<lambda>b. b \<longrightarrow> authorised w0 wd (Wire pkt)", OF keeps_midstream])
      (auto intro: midstream_established that assms)
  show ?thesis
    unfolding stage_base_def
  proof (rule keeps_sbind_fact [where F = "\<lambda>b. b \<longrightarrow> base_handles (w_policy w0) (ctx pkt)", OF keeps_sget], goal_cases)
    case (1 w b w')
    then show ?case using base_handles_same [OF confinedD(6) [OF 1(1)]] by (auto simp: sget_def)
  next
    case (2 b)
    then show ?case
      by (cases b) (simp_all, rule m, simp, intro act_rules keeps_send, simp_all)
  qed
qed

lemma stage_base_result:
  assumes "stage_base ev pkt w = (Inr (Some (q, h)), w')"
  shows "continues pkt q"
proof -
  have "set (policy_callbacks4 ev pkt w) \<subseteq> set (callbacks4 ev w)" for w
    by (simp add: policy_callbacks4_def callbacks4_def)
  then show ?thesis
    using assms run_handle_pkt_origin
    by (auto simp: stage_base_def sbind_def sret_def sget_def continues_def split: prod.splits sum.splits if_splits) blast+
qed

lemma keeps_stage_final:
  assumes "continues pkt q" "\<not> matches_takeover_sink_route w0 pkt" "is_syn_only q \<Longrightarrow> new"
  shows "keeps_inv (confined f s0 w0 wd new) (stage_final ev redirected mapping handled q)"
proof -
  let ?I = "confined f s0 w0 wd new" and ?arg = "if redirected then Redirected else Plain"
  have A: "authorised w0 wd (Wire q)"
    if "?I w" "finalize_egress_verdict ev ?arg q w = (Inr v, w')" "v \<noteq> DROP_EXTERNAL" for w w' v
    using sink_route_same [OF that(1) assms(1)] assms(2) that by (intro finalize_local [OF that(1,2)]) auto
  have F: "keeps_inv ?I (sbind (finalize_egress_verdict ev ?arg q) g)"
    if "\<And>v. (v \<noteq> DROP_EXTERNAL \<longrightarrow> authorised w0 wd (Wire q)) \<Longrightarrow> keeps_inv ?I (g v)" for g :: "Verdict \<Rightarrow> 'b win_act"
    by (rule keeps_sbind_fact [where F = "\<lambda>v. v \<noteq> DROP_EXTERNAL \<longrightarrow> authorised w0 wd (Wire q)", OF keeps_finalize])
      (auto intro: A that)
  have c: "keeps_inv ?I (close_option ev mapping)"
    unfolding close_option_def by (intro act_rules)
  show ?thesis
    unfolding stage_final_def
    by (rule F) (auto intro!: act_rules c keeps_send keeps_remember assms(3))
qed

lemma keeps_stage_route:
  assumes k: "fresh_packet (ctx pkt)" and n: "\<not> matches_takeover_sink_route w0 pkt"
  shows "keeps_inv (confined f s0 w0 wd (is_syn_only pkt)) (stage_route ev pkt)"
proof -
  let ?I = "confined f s0 w0 wd (is_syn_only pkt)"
  have syn: "is_syn_only q \<Longrightarrow> is_syn_only pkt" if "continues pkt q" for q
    using that by (auto simp: is_syn_only_def continues_def same_origin_def)
  have b: "keeps_inv ?I (sbind (stage_base ev pkt) (\<lambda>b. case b of
      None \<Rightarrow> sret True | Some (q', handled) \<Rightarrow> stage_final ev False mapping handled q'))" for mapping
    by (rule keeps_sbind_fact [where F = "\<lambda>r. \<forall>q h. r = Some (q, h) \<longrightarrow> continues pkt q", OF keeps_stage_base [OF k]])
      (auto dest: stage_base_result intro!: keeps_case_option keeps_sret keeps_stage_final [OF _ n] syn)
  have e: "keeps_inv ?I m \<Longrightarrow> keeps_inv ?I (closing_on_error ev g m)" for g and m :: "bool win_act"
    unfolding closing_on_error_def by (intro act_rules)
  show ?thesis
    unfolding stage_route_def
  proof (rule keeps_sbind_fact [where F = "\<lambda>r. \<forall>q m redirected g. r = Some (q, m, redirected, g) \<longrightarrow>
      continues pkt q \<and> (\<not> redirected \<longrightarrow> q = pkt)", OF keeps_stage_forward], goal_cases)
    case (2 w r w')
    then show ?case using stage_forward_result by blast
  next
    case (3 r)
    then show ?case
      by (auto intro!: e b keeps_case_option keeps_sret keeps_or_else keeps_stage_reviewed k keeps_stage_final [OF _ n] syn)
  qed simp
qed

definition opens :: "dpkt \<Rightarrow> wdpkt \<Rightarrow> bool" where
  "opens dp wd = (case windows_packet dp ''egress_control'' wd of Inl _ \<Rightarrow> False | Inr pkt \<Rightarrow> is_syn_only pkt)"

lemma keeps_outbound:
  assumes k: "fresh_packet (ctx pkt)" "is_outbound pkt = wd_outbound wd"
  shows "keeps_inv (confined f s0 w0 wd (is_syn_only pkt)) (outbound_stages ev pkt)"
proof -
  let ?I = "confined f s0 w0 wd (is_syn_only pkt)"
  have t: "keeps_inv ?I (or_else (stage_takeover ev pkt) m)"
    if "\<not> matches_takeover_sink_route w0 pkt \<Longrightarrow> keeps_inv ?I m" for m
    unfolding or_else_def
  proof (rule keeps_sbind_fact [where F = "\<lambda>b. \<not> b \<longrightarrow> \<not> matches_takeover_sink_route w0 pkt",
        OF keeps_stage_takeover [OF k(1)]], goal_cases)
    case (1 w b w')
    then show ?case
      using sink_route_same [OF 1(1), of pkt pkt]
      by (auto simp: stage_takeover_def sbind_def sget_def sret_def continues_def split: prod.splits sum.splits if_splits)
  qed (auto intro: that)
  show ?thesis
    unfolding outbound_stages_def
    by (intro keeps_or_else keeps_stage_permit keeps_stage_return t keeps_stage_process keeps_stage_route k)
qed

lemma windows_packet_fresh:
  "windows_packet dp l wd = Inr pkt \<Longrightarrow> fresh_packet (ctx pkt) \<and> is_outbound pkt = wd_outbound wd"
  by (auto simp: windows_packet_def Let_def ebind_Inr_iff dest: parse_packet_fresh)

lemma keeps_judge_packet:
  "keeps_inv (confined f s0 w0 wd (opens (env_dpkt ev) wd)) (judge_packet ev wd)"
proof (cases "windows_packet (env_dpkt ev) ''egress_control'' wd")
  case (Inl e)
  then show ?thesis by (simp add: judge_packet_def)
next
  case (Inr pkt)
  note k = windows_packet_fresh [OF Inr]
  from Inr k show ?thesis
    by (auto simp: judge_packet_def opens_def
      intro!: keeps_sbind keeps_pcap keeps_sret keeps_stage_process keeps_outbound)
qed

lemma handler_confined:
  assumes "run_inv (w_policy w, f)" "\<And>e. w_engine w = Some e \<Longrightarrow> eng s0 = e"
    and "handle_policy_packet ev wd w = (r, w')"
  shows "confined f s0 w wd (opens (env_dpkt ev) wd) w'"
proof -
  let ?I = "confined f s0 w wd (opens (env_dpkt ev) wd)"
  have 0: "?I w" using assms(1,2) by (rule confined_refl)
  have "keeps_inv ?I (failing_closed (judge_packet ev wd))"
    unfolding failing_closed_def by (intro act_rules keeps_judge_packet)
  then have j: "?I (snd (failing_closed (judge_packet ev wd) w))" using 0 by (simp add: keeps_inv_iff)
  have s: "?I (snd (send_packet ev (Unparsed (wd_raw wd)) w))" if "wd_loopback wd"
    using keeps_send [OF ipv6_loopback [OF that]] 0 by (simp add: keeps_inv_iff)
  from assms(3) show ?thesis
    using 0 j s by (auto simp: handle_policy_packet_def Let_def classify_ipv6_preparse_def split: if_splits)
qed

end
