(* ===== verification/WindowsOutcome.thy ===== *)
theory WindowsOutcome
  imports WindowsRuns
begin

text \<open>
  The outcome of one packet in the Windows handler: what is given to the driver is authorised, it is at
  most one packet, it is in the capture file as it was sent, and a relay mapping that was created for a
  packet that is not sent does not stay.
\<close>

section \<open>Live mappings\<close>

definition live :: "nat_tables \<Rightarrow> int set" where
  "live n = {g \<in> set (nat_generation n). dget (nat_objs n) g \<noteq> None}"

lemma live_remove: "live (remove_mapping now g n) \<subseteq> live n - {g}"
  by (auto simp: live_def remove_mapping_def Let_def set_tombstones_def release_slot_def release_active_def
      release_pending_def split: option.splits if_splits)

lemma live_retain: "live (retain_mapping_for_teardown now s g n) \<subseteq> live n - {g}"
  by (auto simp: live_def retain_mapping_for_teardown_def Let_def set_tombstones_def release_slot_def release_active_def
      release_pending_def dict_simps split: option.splits if_splits)

lemma live_close: "live (nat_close_mapping now grace g n) \<subseteq> live n - {g}"
  using live_remove [of now g n] live_retain [of now _ g n]
  by (auto simp: nat_close_mapping_def Let_def live_def)

lemma live_cleanup: "live (nat_cleanup now n) \<subseteq> live n"
proof -
  have "live (fold (\<lambda>g n. if obj_expired n now g then remove_mapping now g n else n) gs n) \<subseteq> live n" for gs
    by (induction gs arbitrary: n) (use live_remove in \<open>fastforce split: if_splits\<close>)+
  then show ?thesis by (simp add: nat_cleanup_def expire_generations_def Let_def live_def)
qed

lemma live_match: "live (snd (nat_match now idle tbl key n)) \<subseteq> live n"
  by (auto simp: nat_match_def live_def Let_def dict_simps split: option.splits if_splits)

lemma live_create:
  "nat_create q now m n = (Inr m', n') \<Longrightarrow> live n' \<subseteq> insert (generation m') (live n)"
  "nat_create q now m n = (Inl e, n') \<Longrightarrow> live n' \<subseteq> live n"
  by (auto simp: nat_create_def Let_def live_def dict_simps split: if_splits)

abbreviation gens :: "policy \<Rightarrow> int set" where
  "gens p \<equiv> live (relay_nat p)"

lemma gens_cleanup: "gens (cleanup_locked now p) \<subseteq> gens p"
proof -
  have "relay_nat (cleanup_permits now q) = relay_nat q" for q
    unfolding cleanup_permits_def by (rule fold_field) (simp add: drop_permit_def split: prod.split option.split)
  then show ?thesis
    using live_cleanup by (simp add: cleanup_locked_def Let_def cleanup_leases_def)
qed

lemma gens_ops:
  "gens (snd (match_control_flow now pr src sp dst dp p)) \<subseteq> gens p"
  "gens (snd (match_relay_forward now pr src sp dst dp p)) \<subseteq> gens p"
  "gens (snd (match_relay_reverse now pr src sp dst dp p)) \<subseteq> gens p"
  "gens (snd (lease_for now ip port p)) \<subseteq> gens p"
  "gens (close_relay_mapping now g grace p) \<subseteq> gens p - {g}"
proof -
  have n: "gens (snd (match_nat select now key p)) \<subseteq> gens p" for select key
    using gens_cleanup [of now p]
      live_match [of now _ "select (relay_nat (cleanup_locked now p))" key "relay_nat (cleanup_locked now p)"]
    by (simp add: match_nat_def Let_def split_beta) blast
  then show "gens (snd (match_relay_forward now pr src sp dst dp p)) \<subseteq> gens p"
    "gens (snd (match_relay_reverse now pr src sp dst dp p)) \<subseteq> gens p"
    by (simp_all add: match_relay_forward_def match_relay_reverse_def)
  have "relay_nat (snd (match_control_flow now pr src sp dst dp p)) \<in> {relay_nat p, relay_nat (cleanup_locked now p)}"
    by (simp add: match_control_flow_def Let_def split: option.split)
  with gens_cleanup show "gens (snd (match_control_flow now pr src sp dst dp p)) \<subseteq> gens p" by fastforce
  show "gens (snd (lease_for now ip port p)) \<subseteq> gens p"
    using gens_cleanup [of now p] by (simp add: lease_for_def Let_def)
  show "gens (close_relay_mapping now g grace p) \<subseteq> gens p - {g}"
    using live_close [of now grace g "relay_nat p"] by (simp add: close_relay_mapping_def)
qed

lemma gens_create:
  assumes "create_relay_mapping now1 now2 si sp vi vp ri rp p = (r, p')"
  shows "gens p' \<subseteq> (case r of Inl _ \<Rightarrow> gens p | Inr m \<Rightarrow> insert (generation m) (gens p))"
proof -
  obtain l q where l: "lease_for now1 vi vp p = (l, q)" by force
  have q: "gens q \<subseteq> gens p" using gens_ops(4) [of now1 vi vp p] l by simp
  let ?q = "cleanup_locked now2 q"
  have c: "gens ?q \<subseteq> gens p" using gens_cleanup [of now2 q] q by blast
  show ?thesis
    using assms l q c live_create
    by (auto simp: create_relay_mapping_def Let_def split: option.splits if_splits sum.splits prod.splits) blast+
qed

section \<open>Before and after the packet is sent\<close>

definition quiet :: "wire list \<Rightarrow> int set \<Rightarrow> PacketCtx \<Rightarrow> win \<Rightarrow> bool" where
  "quiet S G c w \<longleftrightarrow> w_sent w = S \<and> gens (w_policy w) \<subseteq> G \<and> c \<in> set (pcap (w_base w))"

definition settled :: "wire list \<Rightarrow> int set \<Rightarrow> win \<Rightarrow> bool" where
  "settled S G w \<longleftrightarrow> w_sent w = S \<and> gens (w_policy w) \<subseteq> G \<or>
     (\<exists>q. w_sent w = S @ [Wire q] \<and> ctx q \<in> set (pcap (w_base w)))"

lemma quiet_settled: "quiet S G c w \<Longrightarrow> settled S G w"
  by (auto simp: quiet_def settled_def)

text \<open>Both survive whatever neither sends nor creates a mapping.\<close>

definition calm :: "win \<Rightarrow> win \<Rightarrow> bool" where
  "calm w w' \<longleftrightarrow> w_sent w' = w_sent w \<and> gens (w_policy w') \<subseteq> gens (w_policy w) \<and>
     set (pcap (w_base w)) \<subseteq> set (pcap (w_base w'))"

definition calm_act :: "'a win_act \<Rightarrow> bool" where
  "calm_act m \<longleftrightarrow> (\<forall>w. calm w (snd (m w)))"

lemma calm_refl [simp]: "calm w w"
  by (simp add: calm_def)

lemma calm_keeps:
  assumes "calm_act m"
  shows "keeps_inv (quiet S G c) m" "keeps_inv (settled S G) m"
proof -
  have c: "calm w (snd (m w))" for w using assms by (simp add: calm_act_def)
  show "keeps_inv (quiet S G c) m"
    unfolding keeps_inv_iff quiet_def using c by (fastforce simp: calm_def)
  show "keeps_inv (settled S G) m"
    unfolding keeps_inv_iff settled_def using c by (fastforce simp: calm_def)
qed

named_theorems calm_rules

lemma calm_basic [calm_rules]: "calm_act (sret x)" "calm_act (sraise e)" "calm_act (sget g)"
  by (simp_all add: calm_act_def act_defs)

lemma calm_smod: "(\<And>w. calm w (g w)) \<Longrightarrow> calm_act (smod g)"
  by (simp add: calm_act_def smod_def)

lemma calm_sbind [calm_rules]: "calm_act m \<Longrightarrow> (\<And>x. calm_act (g x)) \<Longrightarrow> calm_act (sbind m g)"
  unfolding calm_act_def sbind_def calm_def
  by (auto split: prod.splits sum.splits) (metis snd_conv subsetD)+

lemma calm_if [calm_rules]: "(b \<Longrightarrow> calm_act m) \<Longrightarrow> (\<not> b \<Longrightarrow> calm_act n) \<Longrightarrow> calm_act (if b then m else n)"
  by simp

lemma calm_ops [calm_rules]:
  "calm_act (on_policy (match_control_flow now pr src sp dst dp))"
  "calm_act (on_policy (match_relay_forward now pr src sp dst dp))"
  "calm_act (on_policy (match_relay_reverse now pr src sp dst dp))"
  "calm_act (on_policy (lease_for now ip port))"
  "calm_act (timed_write_pcap ev p)" "calm_act (engine_prepare ev pkt)" "calm_act (engine_abort ev k)"
  "calm_act (engine_commit ev k b)" "calm_act (engine_suspend ev r)" "calm_act (is_midstream_tcp_flow pkt)"
  using gens_ops
  by (auto simp: calm_act_def on_policy_def split_beta calm_def timed_write_pcap_def write_pcap_def engine_prepare_def
      engine_abort_def engine_commit_def engine_suspend_def on_engine_def is_midstream_tcp_flow_def Let_def
      split: option.split)

lemma calm_close [calm_rules]: "calm_act (close_mapping ev g)"
  unfolding close_mapping_def using gens_ops(5) by (intro calm_smod) (fastforce simp: calm_def)

lemma calm_audit [calm_rules]: "calm_act (audit_flow ev pkt)"
proof -
  have d: "calm w (drop_stale_audits now w)" for now w
    by (simp add: drop_stale_audits_def Let_def calm_def)
  have "calm w (new_audit_entry ev pkt w)" for w
    using d [of w "clock ev AtAudit"] gens_ops(4) [of "clock ev AtAuditLease" "dst_ip0 (ctx pkt)" "dport0 (ctx pkt)"
        "w_policy (drop_stale_audits (clock ev AtAudit) w)"]
    by (auto simp: new_audit_entry_def Let_def calm_def)
  then show ?thesis
    unfolding audit_flow_def by (intro calm_smod) (simp add: Let_def calm_def)
qed

lemma calm_finalize [calm_rules]: "calm_act (finalize_egress_verdict ev arg pkt)"
  unfolding finalize_egress_verdict_def by (intro calm_rules)

lemma calm_observed [calm_rules]: "calm_act (is_new_tcp_syn pkt)" "calm_act (remember_observed_nat_syn pkt)"
proof -
  have f: "w_base (forget_observed_nat k w) = w_base w" for k w
    unfolding forget_observed_nat_def Let_def by (subst fold_field; simp add: forget_key_def)
  have g: "w_policy (fold h ks w) = w_policy w \<and> w_sent (fold h ks w) = w_sent w \<and> w_base (fold h ks w) = w_base w"
    if "\<And>k w. w_policy (h k w) = w_policy w \<and> w_sent (h k w) = w_sent w \<and> w_base (h k w) = w_base w" for h ks w
    using that by (induction ks arbitrary: w) auto
  show "calm_act (is_new_tcp_syn pkt)"
    by (auto simp: calm_act_def is_new_tcp_syn_def Let_def calm_def f forget_frame split: option.split)
  show "calm_act (remember_observed_nat_syn pkt)"
    unfolding remember_observed_nat_syn_def
    by (rule calm_smod) (auto simp: Let_def calm_def g f forget_frame split: option.split simp del: fold_simps)
qed

lemma calm_record [calm_rules]: "calm_act (record_reviewed_ip_allow ev pkt r)"
  unfolding record_reviewed_ip_allow_def by (intro calm_smod) (simp add: calm_def)

lemma calm_close_option [calm_rules]: "calm_act (close_option ev m)"
  unfolding close_option_def by (cases m) (auto intro: calm_rules)

section \<open>Stages\<close>

text \<open>A stage starts before anything is sent; it ends settled when it finishes the packet or raises.\<close>

definition stage :: "wire list \<Rightarrow> int set \<Rightarrow> PacketCtx \<Rightarrow> bool win_act \<Rightarrow> bool" where
  "stage S G c m \<longleftrightarrow> triple (quiet S G c) m (\<lambda>b w. if b then settled S G w else quiet S G c w) (\<lambda>_. settled S G)"

lemma stage_calm: "calm_act m \<Longrightarrow> stage S G c m"
  unfolding stage_def using calm_keeps(1) [of m S G c] unfolding keeps_inv_def
  by (rule triple_post) (auto intro: quiet_settled)

lemma stage_bind: "calm_act m \<Longrightarrow> (\<And>x. stage S G c (g x)) \<Longrightarrow> stage S G c (sbind m g)"
  unfolding stage_def using calm_keeps(1) [of m S G c] unfolding keeps_inv_def
  by (intro triple_sbind [where A = "\<lambda>_. quiet S G c"]) (auto intro: triple_post quiet_settled)

lemma stage_or_else: "stage S G c m \<Longrightarrow> stage S G c n \<Longrightarrow> stage S G c (or_else m n)"
  unfolding stage_def by (rule triple_or_else; simp only: if_True)

text \<open>Sending a captured packet, and then whatever neither sends nor raises.\<close>

lemma send_then:
  assumes "ctx q = c" "\<And>ok. calm_act (g ok)" "\<And>w ok. fst (g ok w) = Inr True"
  shows "triple (quiet S G c) (sbind (send_packet ev (Wire q)) g) (\<lambda>b w. b \<and> settled S G w) (\<lambda>_. settled S G)"
proof (rule triple_sbind [where A = "\<lambda>_. settled S G"])
  show "triple (quiet S G c) (send_packet ev (Wire q)) (\<lambda>_. settled S G) (\<lambda>_. settled S G)"
    using assms(1) by (auto simp: triple_def send_packet_def quiet_def settled_def)
  fix ok
  have k: "keeps_inv (settled S G) (g ok)" by (rule calm_keeps) (rule assms)
  show "triple (settled S G) (g ok) (\<lambda>b w. b \<and> settled S G w) (\<lambda>_. settled S G)"
  proof (rule tripleI)
    fix w r w' assume w: "settled S G w" "g ok w = (r, w')"
    have "r = Inr True" using assms(3) [of ok w] w(2) by simp
    with keeps_invD [OF k w] show "case r of Inl e \<Rightarrow> settled S G w' | Inr b \<Rightarrow> b \<and> settled S G w'" by simp
  qed
qed

lemma stage_send:
  assumes "ctx q = c" "\<And>ok. calm_act (g ok)" "\<And>w ok. fst (g ok w) = Inr True"
  shows "stage S G c (sbind (send_packet ev (Wire q)) g)"
  unfolding stage_def by (rule triple_post [OF send_then [OF assms]]) simp_all

lemma stage_rewritten:
  assumes "\<And>ok. calm_act (g ok)" "\<And>w ok. fst (g ok w) = Inr True"
  shows "stage S G c (sbind (timed_write_pcap ev (ctx q)) (\<lambda>_. sbind (send_packet ev (Wire q)) g))"
  unfolding stage_def
proof (rule triple_sbind [where A = "\<lambda>_. quiet S G (ctx q)"])
  show "triple (quiet S G c) (timed_write_pcap ev (ctx q)) (\<lambda>_. quiet S G (ctx q)) (\<lambda>_. settled S G)"
    by (auto simp: triple_def timed_write_pcap_def write_pcap_def quiet_def settled_def)
qed (rule triple_post [OF send_then [OF refl assms]], simp_all)

lemma stage_if: "(b \<Longrightarrow> stage S G c m) \<Longrightarrow> (\<not> b \<Longrightarrow> stage S G c n) \<Longrightarrow> stage S G c (if b then m else n)"
  by simp

lemma stage_option:
  "stage S G c m \<Longrightarrow> (\<And>y. stage S G c (g y)) \<Longrightarrow> stage S G c (case x of None \<Rightarrow> m | Some y \<Rightarrow> g y)"
  by (cases x) auto

lemmas stage_rules = stage_rewritten stage_send stage_if stage_option stage_bind stage_calm calm_rules

lemma always_True [simp]: "fst (sret x w) = Inr x" "fst (sbind (close_mapping ev g) (\<lambda>_. sret x) w) = Inr x"
  "fst (sbind (record_reviewed_ip_allow ev pkt r) (\<lambda>_. sret x) w) = Inr x"
  by (simp_all add: sret_def sbind_def close_mapping_def smod_def record_reviewed_ip_allow_def)

lemma stage_early:
  "stage S G (ctx pkt) (stage_permit ev pkt)" "stage S G (ctx pkt) (stage_takeover ev pkt)"
  "stage S G (ctx pkt) (stage_return ev pkt)" "stage S G (ctx pkt) (stage_reviewed ev pkt)"
  unfolding stage_permit_def stage_takeover_def stage_return_def stage_reviewed_def Let_def
  by (rule stage_rules | simp split: if_split)+

text \<open>The rewritten packet is sent or the transaction is completed; the commit never fails the packet.\<close>

lemma inject_settled:
  "triple (quiet S G c) (inject_rewritten ev d pkt) (\<lambda>_. settled S G) (\<lambda>_. settled S G)"
proof (cases "rewrite_packet d pkt")
  case (Inl e)
  then show ?thesis by (auto simp: inject_rewritten_def triple_def sraise_def intro: quiet_settled)
next
  case (Inr q)
  then show ?thesis
    by (auto simp: inject_rewritten_def triple_def sbind_def timed_write_pcap_def write_pcap_def send_packet_def
        quiet_def settled_def)
qed

lemma settled_calm: "calm_act m \<Longrightarrow> triple (settled S G) m (\<lambda>_. settled S G) (\<lambda>_. settled S G)"
  using calm_keeps(2) by (simp add: keeps_inv_def)

lemma stage_apply_process: "stage S G (ctx pkt) (apply_process_redirect ev pkt)"
proof -
  have i: "stage S G c (let k = (case t of None \<Rightarrow> 0 | Some k \<Rightarrow> k) in
         sbind (scatch (inject_rewritten ev d pkt) (\<lambda>e. sbind (engine_abort ev k) (\<lambda>_. sraise e))) (\<lambda>outcome.
         sbind (scatch (engine_commit ev k outcome) (\<lambda>_. engine_suspend ev ''commit_failed'')) (\<lambda>_.
         sret True)))" for d t c
    unfolding stage_def Let_def
    by (rule triple_sbind [where A = "\<lambda>_. settled S G"], rule triple_scatch [OF inject_settled],
        rule settled_calm [THEN triple_post], (intro calm_rules | simp)+,
        rule triple_sbind [where A = "\<lambda>_. settled S G"], rule triple_scatch, rule settled_calm, intro calm_rules,
        rule settled_calm, intro calm_rules, rule triple_sret, simp)
  show ?thesis
    unfolding apply_process_redirect_def
  proof (rule stage_bind [OF calm_ops(6)])
    fix x :: prepared
    show "stage S G (ctx pkt) (case x of (d, token) \<Rightarrow> (case action d of
       NOT_APPLICABLE \<Rightarrow> sret False
     | PASS_UNCHANGED \<Rightarrow>
         (if is_outbound pkt then sret False else sbind (send_packet ev (Wire pkt)) (\<lambda>_. sret True))
     | REWRITE_OUTBOUND \<Rightarrow> (let k = (case token of None \<Rightarrow> 0 | Some k \<Rightarrow> k) in
         sbind (scatch (inject_rewritten ev d pkt) (\<lambda>e. sbind (engine_abort ev k) (\<lambda>_. sraise e))) (\<lambda>outcome.
         sbind (scatch (engine_commit ev k outcome) (\<lambda>_. engine_suspend ev ''commit_failed'')) (\<lambda>_. sret True)))
     | REWRITE_INBOUND \<Rightarrow> (let k = (case token of None \<Rightarrow> 0 | Some k \<Rightarrow> k) in
         sbind (scatch (inject_rewritten ev d pkt) (\<lambda>e. sbind (engine_abort ev k) (\<lambda>_. sraise e))) (\<lambda>outcome.
         sbind (scatch (engine_commit ev k outcome) (\<lambda>_. engine_suspend ev ''commit_failed'')) (\<lambda>_. sret True)))
     | DROP \<Rightarrow> sret True))"
      by (cases x; cases "action (fst x)") (simp_all add: i stage_calm calm_basic stage_send)
  qed
qed

lemma stage_process_stage: "stage S G (ctx pkt) (stage_process ev pkt)"
  unfolding stage_process_def by (rule stage_bind [OF calm_basic(3)]) (simp add: stage_apply_process stage_calm calm_basic)

section \<open>The base handler\<close>

interpretation windows: packet_callbacks "callbacks3 w pkt" "callbacks4 ev w" crit for w pkt ev crit
  by unfold_locales (auto simp: callbacks3_def callbacks4_def check_log_icmp_def redirIcmpIpUnconditionally_def
      win_redir_ip_def dest: fixup_contract redir_ip_contract redir_port_contract
      intro: set_contract [THEN disjE] split: if_splits)

interpretation observed: packet_callbacks "callbacks3 w pkt" "policy_callbacks4 ev pkt' w" crit for w pkt ev pkt' crit
  by unfold_locales (use windows.cb3 windows.cb4 in \<open>auto simp: policy_callbacks4_def dest: fixup_contract split: if_splits\<close>)

lemma handled_captured:
  "triple (quiet S G (ctx pkt)) (sbind (sget (policy_callbacks4 ev pkt)) (\<lambda>cbs. run_handle_pkt ev cbs True pkt))
     (\<lambda>q. quiet S G (ctx q)) (\<lambda>_. settled S G)"
proof (rule tripleI)
  fix w r w' assume q: "quiet S G (ctx pkt) w"
    and "sbind (sget (policy_callbacks4 ev pkt)) (\<lambda>cbs. run_handle_pkt ev cbs True pkt) w = (r, w')"
  then have r: "run_handle_pkt ev (policy_callbacks4 ev pkt w) True pkt w = (r, w')" by (simp add: sbind_def sget_def)
  have failed: "settled S G (w\<lparr>w_base := b\<rparr>)" for b using q by (simp add: quiet_def settled_def)
  show "case r of Inl e \<Rightarrow> settled S G w' | Inr p \<Rightarrow> quiet S G (ctx p) w'"
  proof (cases r)
    case (Inl e)
    with r failed show ?thesis by (auto simp: run_handle_pkt_def split: sum.splits if_splits)
  next
    case (Inr p)
    with r obtain c d where h: "handle_pkt (crit ev) (callbacks3 w pkt) (policy_callbacks4 ev pkt w) True (ctx pkt) (w_base w) = Inr (c, d)"
      and p: "p = pkt\<lparr>ctx := c\<rparr>" "w' = w\<lparr>w_base := d\<rparr>"
      by (auto simp: run_handle_pkt_def split: sum.splits if_splits)
    have "set (pcap (w_base w)) \<subseteq> set (pcap d) \<and> (c = ctx pkt \<or> c \<in> set (pcap d))"
      using observed.pcap_handle [OF h] observed.unmangled_same [OF h] by auto
    with p Inr q show ?thesis by (auto simp: quiet_def)
  qed
qed

lemma stage_base_captured:
  "triple (quiet S G (ctx pkt)) (stage_base ev pkt)
     (\<lambda>r w. case r of None \<Rightarrow> settled S G w | Some (q, h) \<Rightarrow> quiet S G (ctx q) w) (\<lambda>_. settled S G)"
proof -
  have m: "triple (quiet S G (ctx pkt)) (sbind (sget (policy_callbacks4 ev pkt)) (\<lambda>cbs.
      sbind (run_handle_pkt ev cbs True pkt) (\<lambda>q. sret (Some (q, True)))))
      (\<lambda>r w. case r of None \<Rightarrow> settled S G w | Some (q, h) \<Rightarrow> quiet S G (ctx q) w) (\<lambda>_. settled S G)"
  proof -
    have assoc: "sbind (sget (policy_callbacks4 ev pkt)) (\<lambda>cbs. sbind (run_handle_pkt ev cbs True pkt) g) =
        sbind (sbind (sget (policy_callbacks4 ev pkt)) (\<lambda>cbs. run_handle_pkt ev cbs True pkt)) g"
      for g :: "win_packet \<Rightarrow> 'b win_act"
      by (rule ext) (simp add: sbind_def sget_def)
    show ?thesis unfolding assoc by (rule triple_sbind [OF handled_captured], rule triple_sret, simp)
  qed
  have s: "triple (quiet S G (ctx pkt)) (sbind (send_packet ev (Wire pkt)) (\<lambda>_. sret None))
      (\<lambda>r w. case r of None \<Rightarrow> settled S G w | Some (q, h) \<Rightarrow> quiet S G (ctx q) w) (\<lambda>_. settled S G)"
    by (auto simp: triple_def sbind_def sret_def send_packet_def quiet_def settled_def)
  have c: "triple (quiet S G (ctx pkt)) m (\<lambda>_. quiet S G (ctx pkt)) (\<lambda>_. settled S G)" if "calm_act m" for m :: "bool win_act"
    using calm_keeps(1) [OF that, of S G "ctx pkt"] unfolding keeps_inv_def by (rule triple_post) (auto intro: quiet_settled)
  show ?thesis
    unfolding stage_base_def
    by (rule triple_sbind [OF c [OF calm_basic(3)]], rule triple_if, rule triple_sret, simp,
        rule triple_sbind [OF c [OF calm_ops(10)]], rule triple_if, rule s, rule m)
qed

section \<open>Routing and the whole handler\<close>

text \<open>What routing to the relay answers: the generations that may be alive now, and the packet.\<close>

definition forwarded_ok :: "win_packet \<Rightarrow> forwarded \<Rightarrow> bool" where
  "forwarded_ok pkt = (\<lambda>(q, m, redirected, new). (redirected \<longrightarrow> mangled (ctx q)) \<and>
     (\<not> redirected \<longrightarrow> q = pkt \<and> new = None) \<and> (\<forall>g. new = Some g \<longrightarrow> (\<exists>m'. m = Some m' \<and> generation m' = g)))"

lemma redirect_tls_outcome:
  assumes "is_ip (ctx pkt)"
  shows "triple (quiet S G c) (redirect_domain_tls_syn ev pkt)
    (\<lambda>r w. case r of None \<Rightarrow> quiet S G c w | Some (q, m) \<Rightarrow> quiet S (insert (generation m) G) c w \<and> mangled (ctx q))
    (\<lambda>_. quiet S G c)"
proof (rule tripleI)
  fix w r w' assume q: "quiet S G c w" and r: "redirect_domain_tls_syn ev pkt w = (r, w')"
  let ?c = "ctx pkt"
  obtain l p where l: "lease_for (clock ev AtLease) (dst_ip0 ?c) (dport0 ?c) (w_policy w) = (l, p)" by force
  have p: "gens p \<subseteq> G" using gens_ops(4) [of "clock ev AtLease" "dst_ip0 ?c" "dport0 ?c" "w_policy w"] l q
    by (auto simp: quiet_def)
  show "case r of Inl e \<Rightarrow> quiet S G c w' | Inr x \<Rightarrow> (case x of None \<Rightarrow> quiet S G c w'
    | Some (q, m) \<Rightarrow> quiet S (insert (generation m) G) c w' \<and> mangled (ctx q))"
  proof (cases l)
    case None
    with r l p q show ?thesis by (auto simp: redirect_domain_tls_syn_def Let_def sbind_def on_policy_def sret_def quiet_def)
  next
    case (Some le)
    obtain x p2 where x: "create_relay_mapping (clock ev AtCreate) (clock ev AtCreated) (src_ip0 ?c) (sport0 ?c)
        (dst_ip0 ?c) (dport0 ?c) (src_ip0 ?c) (relay_port (cfg p)) p = (x, p2)" by force
    from gens_create [OF x] p have "gens p2 \<subseteq> (case x of Inl _ \<Rightarrow> G | Inr m \<Rightarrow> insert (generation m) G)"
      by (cases x) auto
    with r l x Some q assms show ?thesis
      by (cases x) (auto simp: redirect_domain_tls_syn_def Let_def sbind_def on_policy_def on_policy_raising_def sget_def sret_def
          quiet_def set_dst_ip_def set_dport_def)
  qed
qed

lemma stage_forward_outcome:
  assumes "fresh_packet (ctx pkt)"
  shows "triple (quiet S G c) (stage_forward ev pkt)
    (\<lambda>r w. case r of None \<Rightarrow> quiet S G c w
       | Some x \<Rightarrow> quiet S (G \<union> set_option (snd (snd (snd x)))) c w \<and> forwarded_ok pkt x) (\<lambda>_. settled S G)"
proof (cases "proto (ctx pkt)")
  case None
  then show ?thesis by (simp add: stage_forward_def triple_def sret_def forwarded_ok_def)
next
  case (Some pr)
  then have ip: "is_ip (ctx pkt)" using assms by (auto simp: fresh_packet_def)
  let ?Q = "\<lambda>r w. case r of None \<Rightarrow> quiet S G c w
       | Some x \<Rightarrow> quiet S (G \<union> set_option (snd (snd (snd x)))) c w \<and> forwarded_ok pkt x"
  have k: "triple (quiet S G c) m (\<lambda>_. quiet S G c) (\<lambda>_. settled S G)" if "calm_act m" for m :: "'b win_act"
    using calm_keeps(1) [OF that, of S G c] unfolding keeps_inv_def by (rule triple_post) (auto intro: quiet_settled)
  have tls: "triple (quiet S G c) (scatch
               (sbind (redirect_domain_tls_syn ev pkt) (\<lambda>r. sret (Some (case r of
                    None \<Rightarrow> (pkt, None, False, None)
                  | Some (q, m) \<Rightarrow> (q, Some m, True, Some (generation m))))))
               (\<lambda>e. case e of RelayMappingQuotaExceeded _ \<Rightarrow> sret None | _ \<Rightarrow> sraise e)) ?Q (\<lambda>_. settled S G)"
    by (rule triple_scatch [where A = "\<lambda>_. quiet S G c"], rule triple_sbind [OF redirect_tls_outcome [OF ip]],
        rule triple_sret)
      (auto simp: forwarded_ok_def triple_def sret_def sraise_def quiet_settled split: option.splits exn.split)
  have found: "?Q (Some (on_ctx (set_dport b) (on_ctx (set_dst_ip a) pkt), Some m, True, None)) w"
    if "quiet S G c w" for a b m w
    using that ip by (simp add: forwarded_ok_def set_dst_ip_def set_dport_def)
  show ?thesis
    unfolding stage_forward_def Let_def
    by (rule triple_if, simp add: Some, rule triple_sbind [OF k [OF calm_ops(2)]], rule triple_option,
        rule triple_sbind [OF k [OF calm_observed(1)]], rule triple_if, rule triple_sret,
        simp add: forwarded_ok_def, rule tls, rule triple_sret, rule found)
qed

text \<open>The end of the handler, with a mapping \<open>X\<close> made for this packet that must not stay unless the packet
  is sent.\<close>

definition pending :: "wire list \<Rightarrow> int set \<Rightarrow> int set \<Rightarrow> win \<Rightarrow> bool" where
  "pending S G X w \<longleftrightarrow> w_sent w = S \<and> gens (w_policy w) \<subseteq> G \<union> X"

lemma pending_closed:
  "X \<subseteq> {g} \<Longrightarrow> triple (pending S G X) (close_mapping ev g) (\<lambda>_. settled S G) R"
  using gens_ops(5) [of "clock ev AtClose" g None]
  by (fastforce simp: triple_def close_mapping_def smod_def pending_def settled_def)

lemma pending_close_option:
  assumes "\<And>g. g \<in> X \<Longrightarrow> \<exists>m. mapping = Some m \<and> generation m = g"
  shows "triple (pending S G X) (close_option ev mapping) (\<lambda>_. settled S G) R"
proof (cases mapping)
  case None
  with assms have "X = {}" by auto
  with None show ?thesis by (auto simp: close_option_def triple_def sret_def pending_def settled_def)
next
  case (Some m)
  with assms have "X \<subseteq> {generation m}" by fastforce
  with Some show ?thesis by (simp add: close_option_def pending_closed)
qed

lemma stage_final_outcome:
  assumes X: "\<And>g. g \<in> X \<Longrightarrow> \<exists>m. mapping = Some m \<and> generation m = g"
  shows "triple (\<lambda>w. pending S G X w \<and> (mangled (ctx q) \<and> \<not> handled \<or> ctx q \<in> set (pcap (w_base w))))
    (stage_final ev redirected mapping handled q) (\<lambda>_. settled S G) (\<lambda>_. pending S G X)"
proof -
  let ?P = "\<lambda>w. pending S G X w \<and> (mangled (ctx q) \<and> \<not> handled \<or> ctx q \<in> set (pcap (w_base w)))"
  let ?P1 = "\<lambda>w. pending S G X w \<and> ctx q \<in> set (pcap (w_base w))"
  let ?A = "\<lambda>ok w. if ok then settled S G w else pending S G X w"
  have calm: "calm w w' \<Longrightarrow> ?P w \<Longrightarrow> ?P w'" for w w' by (auto simp: calm_def pending_def)
  have f: "triple ?P (finalize_egress_verdict ev arg q) (\<lambda>_. ?P) (\<lambda>_. pending S G X)" for arg
  proof (rule tripleI)
    fix w r w' assume "?P w" "finalize_egress_verdict ev arg q w = (r, w')"
    with calm_finalize [of ev arg q] calm [of w w'] have "?P w'" by (auto simp: calm_act_def) (metis snd_conv)+
    then show "case r of Inl e \<Rightarrow> pending S G X w' | Inr x \<Rightarrow> ?P w'" by (cases r) auto
  qed
  have w: "triple ?P (if mangled (ctx q) \<and> \<not> handled then timed_write_pcap ev (ctx q) else sret ()) (\<lambda>_. ?P1) (\<lambda>_. pending S G X)"
    by (auto simp: triple_def timed_write_pcap_def write_pcap_def sret_def pending_def)
  have s: "triple ?P1 (send_packet ev (Wire q)) ?A (\<lambda>_. pending S G X)"
    by (auto simp: triple_def send_packet_def pending_def settled_def)
  have r: "triple (?A ok) (if ok \<and> handled then remember_observed_nat_syn q else sret ()) (\<lambda>_. ?A ok) (\<lambda>_. pending S G X)" for ok
    using settled_calm [OF calm_observed(2), where S = S and G = G]
    by (auto simp: triple_def remember_observed_nat_syn_def smod_def sret_def)
  have c: "triple (?A ok) (if \<not> ok then close_option ev mapping else sret ()) (\<lambda>_. settled S G) (\<lambda>_. pending S G X)" for ok
    using pending_close_option [OF X, where S = S and G = G and ev = ev] by (auto simp: triple_def sret_def)
  show ?thesis
    unfolding stage_final_def
    by (rule triple_sbind [OF f], rule triple_if,
        rule triple_sbind [OF triple_pre [OF pending_close_option [OF X]]], assumption, blast, rule triple_sret, assumption,
        rule triple_sbind [OF w], rule triple_sbind [OF s], rule triple_sbind [OF r], rule triple_sbind [OF c],
        rule triple_sret, assumption)
qed

lemma stage_outcome: "stage S G c m \<Longrightarrow> triple (quiet S G c) m (\<lambda>_. settled S G) (\<lambda>_. settled S G)"
  unfolding stage_def by (erule triple_post) (auto intro: quiet_settled split: if_splits)

text \<open>The part after the redirection, when the packet was not redirected.\<close>

lemma unredirected_outcome:
  "triple (quiet S G (ctx pkt)) (or_else (stage_reviewed ev pkt) (sbind (stage_base ev pkt) (\<lambda>b. case b of
      None \<Rightarrow> sret True | Some (q, handled) \<Rightarrow> stage_final ev False mapping handled q)))
    (\<lambda>_. settled S G) (\<lambda>_. settled S G)"
proof -
  have f: "triple (quiet S G (ctx q)) (stage_final ev False mapping h q) (\<lambda>_. settled S G) (\<lambda>_. settled S G)" for q h
    by (rule triple_pre [OF triple_post [OF stage_final_outcome [where X = "{}"]]]) (auto simp: quiet_def pending_def settled_def)
  show ?thesis
  proof (rule triple_or_else)
    show "triple (quiet S G (ctx pkt)) (stage_reviewed ev pkt)
        (\<lambda>b w. if b then settled S G w else quiet S G (ctx pkt) w) (\<lambda>_. settled S G)"
      using stage_early(4) by (simp add: stage_def)
    show "triple (quiet S G (ctx pkt)) (sbind (stage_base ev pkt) (\<lambda>b. case b of
        None \<Rightarrow> sret True | Some (q, handled) \<Rightarrow> stage_final ev False mapping handled q))
        (\<lambda>_. settled S G) (\<lambda>_. settled S G)"
    proof (rule triple_sbind [OF stage_base_captured])
      fix b
      show "triple (\<lambda>w. case b of None \<Rightarrow> settled S G w | Some (q, h) \<Rightarrow> quiet S G (ctx q) w) (case b of
          None \<Rightarrow> sret True | Some (q, handled) \<Rightarrow> stage_final ev False mapping handled q)
          (\<lambda>_. settled S G) (\<lambda>_. settled S G)"
        using f by (auto intro: triple_sret split: option.split)
    qed
  qed
qed

lemma stage_route_outcome:
  assumes "fresh_packet (ctx pkt)"
  shows "triple (quiet S G (ctx pkt)) (stage_route ev pkt) (\<lambda>_. settled S G) (\<lambda>_. settled S G)"
  unfolding stage_route_def
proof (rule triple_sbind [OF stage_forward_outcome [OF assms]])
  fix r
  have e: "triple (pending S G (set_option new)) (case new of None \<Rightarrow> sraise e
      | Some g \<Rightarrow> sbind (close_mapping ev g) (\<lambda>_. sraise e)) (\<lambda>_. settled S G) (\<lambda>_. settled S G)"
    for new e
    by (cases new) (auto simp: pending_def settled_def intro!: triple_sraise triple_sbind [OF pending_closed])
  have x: "triple (\<lambda>w. quiet S (G \<union> set_option new) (ctx pkt) w \<and> forwarded_ok pkt (q, m, redirected, new))
      (closing_on_error ev new (if redirected then stage_final ev True m False q
          else or_else (stage_reviewed ev q) (sbind (stage_base ev q) (\<lambda>b. case b of
              None \<Rightarrow> sret True
            | Some (q', handled) \<Rightarrow> stage_final ev False m handled q'))))
      (\<lambda>_. settled S G) (\<lambda>_. settled S G)" for q m redirected new
  proof (cases "forwarded_ok pkt (q, m, redirected, new)")
    case True
    show ?thesis
    proof (cases redirected)
      case r: True
      show ?thesis
        unfolding closing_on_error_def using r True
        by (auto simp: forwarded_ok_def quiet_def pending_def
            intro!: triple_scatch [OF triple_pre [OF stage_final_outcome [where X = "set_option new"]] e])
    next
      case r: False
      with True have "q = pkt" "new = None" by (auto simp: forwarded_ok_def)
      with r show ?thesis
        by (auto simp: closing_on_error_def intro!: triple_scatch triple_pre [OF unredirected_outcome] triple_sraise)
    qed
  qed (simp add: triple_def)
  show "triple (\<lambda>w. case r of None \<Rightarrow> quiet S G (ctx pkt) w
       | Some x \<Rightarrow> quiet S (G \<union> set_option (snd (snd (snd x)))) (ctx pkt) w \<and> forwarded_ok pkt x)
     (case r of None \<Rightarrow> sret True
       | Some (q, mapping, redirected, new) \<Rightarrow> closing_on_error ev new
         (if redirected then stage_final ev True mapping False q
          else or_else (stage_reviewed ev q) (sbind (stage_base ev q) (\<lambda>b. case b of
              None \<Rightarrow> sret True
            | Some (q', handled) \<Rightarrow> stage_final ev False mapping handled q'))))
     (\<lambda>_. settled S G) (\<lambda>_. settled S G)"
  proof (cases r)
    case None
    then show ?thesis by (auto intro: triple_sret quiet_settled)
  next
    case (Some y)
    obtain q m red new where "y = (q, m, red, new)" by (cases y)
    with Some x [of new q m red] show ?thesis by simp
  qed
qed

lemma judge_outcome:
  "triple (\<lambda>w. w_sent w = S \<and> gens (w_policy w) \<subseteq> G) (judge_packet ev wd) (\<lambda>_. settled S G) (\<lambda>_. settled S G)"
proof (cases "windows_packet (env_dpkt ev) ''egress_control'' wd")
  case (Inl e)
  then show ?thesis by (auto simp: judge_packet_def settled_def intro: triple_sraise)
next
  case (Inr pkt)
  have k: "fresh_packet (ctx pkt)" using windows_packet_fresh [OF Inr] by simp
  have w: "triple (\<lambda>w. w_sent w = S \<and> gens (w_policy w) \<subseteq> G) (timed_write_pcap ev (ctx pkt))
      (\<lambda>_. quiet S G (ctx pkt)) (\<lambda>_. settled S G)"
    by (auto simp: triple_def timed_write_pcap_def write_pcap_def quiet_def settled_def)
  have p: "triple (quiet S G (ctx pkt)) (sbind (stage_process ev pkt) (\<lambda>_. sret True)) (\<lambda>_. settled S G) (\<lambda>_. settled S G)"
    by (rule triple_sbind [OF stage_outcome [OF stage_process_stage]], rule triple_sret)
  have o: "triple (quiet S G (ctx pkt)) (outbound_stages ev pkt) (\<lambda>_. settled S G) (\<lambda>_. settled S G)"
    unfolding outbound_stages_def
    by (intro triple_or_else [OF stage_early(1) [unfolded stage_def]] triple_or_else [OF stage_early(2) [unfolded stage_def]]
        triple_or_else [OF stage_early(3) [unfolded stage_def]] triple_or_else [OF stage_process_stage [unfolded stage_def]]
        stage_route_outcome k)
  from Inr show ?thesis
    by (auto simp: judge_packet_def intro!: triple_sbind [OF w] p o)
qed

lemma handler_outcome:
  assumes "handle_policy_packet ev wd w = (r, w')"
  shows "settled (w_sent w) (gens (w_policy w)) w' \<or> w_sent w' = w_sent w @ [Unparsed (wd_raw wd)]"
proof -
  let ?I = "settled (w_sent w) (gens (w_policy w))"
  have t: "triple (\<lambda>x. w_sent x = w_sent w \<and> gens (w_policy x) \<subseteq> gens (w_policy w)) (failing_closed (judge_packet ev wd))
      (\<lambda>_. ?I) (\<lambda>_. ?I)"
    unfolding failing_closed_def
    by (auto intro!: triple_scatch triple_sbind [OF judge_outcome] triple_sret triple_sraise triple_if)
  have j: "?I w'" if "failing_closed (judge_packet ev wd) w = (r, w')"
    using tripleD [OF t _ that] by (cases r) simp_all
  have "w' = w \<or> failing_closed (judge_packet ev wd) w = (r, w') \<or> w' = snd (send_packet ev (Unparsed (wd_raw wd)) w)"
    using assms by (simp add: handle_policy_packet_def Let_def split: if_splits option.splits)
  moreover have "?I w" by (simp add: settled_def)
  ultimately show ?thesis using j by (auto simp: send_packet_def split: if_splits)
qed

section \<open>Properties\<close>




lemma live_all: "run_inv (p, f) \<Longrightarrow> live (relay_nat p) = set (nat_generation (relay_nat p))"
proof -
  assume "run_inv (p, f)"
  then have "policy_inv p" by (simp add: run_inv_def)
  then have r: "refs_ok (relay_nat p)" by (rule nat_invD(2) [OF policy_invD(2)])
  have "dget (nat_objs (relay_nat p)) g \<noteq> None" if "g \<in> set (nat_generation (relay_nat p))" for g
    using refsD(4) [OF r that] by (auto simp: obj_def)
  then show ?thesis by (auto simp: live_def)
qed

text \<open>C7. No reservation leaks: when nothing was sent for a packet, every relay mapping that is registered
  afterwards was registered before, so a connection attempt that is dropped, denied or fails on any path,
  exceptions included, does not hold a slot of the quota.\<close>

theorem no_mapping_leak:
  assumes "run_init s" and "policy_step\<^sup>*\<^sup>* s (w_policy w, f)"
    and h: "handle_policy_packet ev wd w = (r, w')" and "w_sent w' = w_sent w"
  shows "set (nat_generation (relay_nat (w_policy w'))) \<subseteq> set (nat_generation (relay_nat (w_policy w)))"
proof -
  have i: "run_inv (w_policy w, f)" using policy_run.reachable_inv [OF assms(1,2)] .
  from handler_confined [OF i _ h, of "\<lparr>eng = the (w_engine w), asking = [], judging = [], approved = [],
      answered = []\<rparr>"]
  have i': "run_inv (w_policy w', f)" by (simp add: confined_def)
  have "gens (w_policy w') \<subseteq> gens (w_policy w)"
    using handler_outcome [OF h] assms(4) by (auto simp: settled_def)
  then show ?thesis by (simp add: live_all [OF i] live_all [OF i'])
qed

section \<open>Witnesses\<close>

definition demo_dns_dpkt :: dpkt where
  "demo_dns_dpkt = \<lparr>dpkt_ip = (\<lambda>raw. Inr \<lparr>v_hl = 5, v_proto = 17, v_sum = 0, v_src = [192, 168, 56, 10],
     v_dst = [8, 8, 8, 8], v_data = Some \<lparr>t_sum = 0, t_sport = 50000, t_dport = 53, t_flags = 0\<rparr>, v_icmp_id = None\<rparr>),
     dpkt_ip6 = (\<lambda>_. Inl (ValueError []))\<rparr>"

definition demo_wd :: wdpkt where
  "demo_wd = \<lparr>wd_raw = [0x45, 0, 0, 4], wd_interface = Some (7, 0), wd_outbound = True, wd_loopback = False\<rparr>"

definition demo_base :: diverter where
  "demo_base = new_diverter [] [] [] 4000 ''127.0.0.1'' ''egresscontrol'' []"

definition demo_env :: "bool \<Rightarrow> env" where
  "demo_env ok = \<lparr>clock = (\<lambda>_. 105), send_ok = (\<lambda>_. ok), pcap_ok = (\<lambda>_. True), crit = \<lparr>c_pid = None, c_comm = None\<rparr>,
     env_answers = demo_answers, registry_ok = True, env_dpkt = demo_dns_dpkt, env_fmt = (\<lambda>_ _. Inr []),
     failed_base = demo_base\<rparr>"

definition demo_win :: win where
  "demo_win = \<lparr>w_base = demo_base, w_policy = demo_p3, w_engine = Some (eng demo_engine_run), w_guard_ipv4 = ''192.168.56.10'',
     w_external_ip = ''192.168.56.10'', takeover_route = None, reviewed_target_protocols = [],
     syn_observed_flows = {}, midstream_bypass_flows = {}, observed_nat_tuples = [], observed_nat_forward = {},
     observed_nat_owners = [], flow_audit = [], flow_audit_suspended = False, flow_audit_last_cleanup = 0,
     reviewed_ip_audit = new_ip_audit 0 [], w_sent = []\<rparr>"

lemma demo_packet_ok:
  "windows_packet demo_dns_dpkt ''egress_control'' demo_wd = Inr \<lparr>ctx = \<lparr>label = ''egress_control'', mangled = False,
     ipver = 4, is_ip = True, is_icmp = False, proto_num = Some 17, proto = Some ''UDP'', src_ip0 = ''192.168.56.10'',
     src_ip = ''192.168.56.10'', dst_ip0 = ''8.8.8.8'', dst_ip = ''8.8.8.8'', sport0 = 50000, sport = 50000,
     dport0 = 53, dport = 53, skey = ''192.168.56.10:UDP/50000'', dkey = ''8.8.8.8:UDP/53''\<rparr>,
     if_index = 7, subif_index = 0, is_outbound = True, tcp_flags = 0, icmp_id = None\<rparr>"
  by (simp add: windows_packet_def demo_wd_def tso_length_fix_def demo_dns_dpkt_def parse_packet_def ip_version_def
      parseIpv4_def parseIp_def inet_ntoa_def new_packet_def handled_protocols_def parseIcmp_def view_flags_def
      view_icmp_id_def gen_endpoint_key_def py_eval)

lemma demo_preparse: "classify_ipv6_preparse (wd_raw demo_wd) (wd_loopback demo_wd) = None"
  "drop_bit 4 (wd_raw demo_wd ! 0 AND 0xf0) = 4" "\<not> ipv4_header (wd_raw demo_wd)"
  "wd_raw demo_wd \<noteq> []" "drop_bit 4 (wd_raw demo_wd ! 0) AND 15 = 4"
  by (simp_all add: classify_ipv6_preparse_def demo_wd_def ipv4_header_def)

lemma demo_handled_sent:
  "\<exists>q w'. handle_policy_packet (demo_env True) demo_wd demo_win = (Inr (), w') \<and> w_sent w' = [Wire q] \<and> dst_ip (ctx q) = ''8.8.8.8''"
  "\<exists>w'. handle_policy_packet (demo_env False) demo_wd demo_win = (Inr (), w') \<and> w_sent w' = []"
proof -
  obtain m p where m: "match_control_flow 105 ''UDP'' ''192.168.56.10'' 50000 ''8.8.8.8'' 53 demo_p3 = (Some m, p)"
    using demo_p3_match by (metis prod.collapse fst_conv)
  note ev = handle_policy_packet_def demo_preparse process_fragment_def
    classify_process_redirect_ipv4_fragment_def classify_reviewed_ipv4_fragment_def failing_closed_def judge_packet_def
    demo_packet_ok outbound_stages_def or_else_def stage_permit_def timed_write_pcap_def on_policy_def proto_of_def m
    finalize_egress_verdict_def compute_egress_verdict_def audit_flow_def send_packet_def smod_def sbind_def scatch_def sret_def
    sget_def new_audit_entry_def drop_stale_audits_def
  show "\<exists>q w'. handle_policy_packet (demo_env True) demo_wd demo_win = (Inr (), w') \<and> w_sent w' = [Wire q] \<and> dst_ip (ctx q) = ''8.8.8.8''"
    by (simp add: ev demo_env_def demo_win_def Let_def)
  show "\<exists>w'. handle_policy_packet (demo_env False) demo_wd demo_win = (Inr (), w') \<and> w_sent w' = []"
    by (simp add: ev demo_env_def demo_win_def Let_def)
qed




theorem no_mapping_leak_witness:
  "\<exists>w'. handle_policy_packet (demo_env False) demo_wd demo_win = (Inr (), w') \<and>
     set (nat_generation (relay_nat (w_policy w'))) \<subseteq> set (nat_generation (relay_nat demo_p3))"
proof -
  obtain w' where h: "handle_policy_packet (demo_env False) demo_wd demo_win = (Inr (), w')" "w_sent w' = []"
    using demo_handled_sent by blast
  have "policy_step\<^sup>*\<^sup>* (demo_p0, []) (w_policy demo_win, [])" using demo_p3_reach by (simp add: demo_win_def)
  from no_mapping_leak [OF demo_reach(1) this h(1)] h show ?thesis by (auto simp: demo_win_def)
qed

end
