(* ===== verification/ClientHello.thy ===== *)
theory ClientHello
  imports EgressConfig FnPacket
begin

text \<open>
  The TLS parser of \<open>fakenet/listeners/DomainEgressRelay.py\<close>: \<open>_take\<close>, \<open>parse_client_hello\<close> and
  \<open>_parse_client_hello_body\<close> on the bytes received so far, with the offsets of the code, and the
  reader \<open>_read_client_hello\<close>. A grammar of ClientHello messages, written without offsets, is the
  reference; the parser accepts exactly its words.
\<close>

section \<open>Bytes\<close>

text \<open>\<open>int.from_bytes(bs, 'big')\<close>.\<close>

definition from_big :: "byte list \<Rightarrow> nat" where
  "from_big bs = foldl (\<lambda>n b. n * 256 + unat b) 0 bs"

definition hello_take :: "byte list \<Rightarrow> nat \<Rightarrow> nat \<Rightarrow> (byte list \<times> nat) result" where
  "hello_take data offset count =
     (if offset + count > length data then Inl (ClientHelloError ''truncated ClientHello'')
      else Inr (take count (drop offset data), offset + count))"

text \<open>\<open>name_raw.decode('ascii')\<close>.\<close>

definition decode_ascii :: "byte list \<Rightarrow> string option" where
  "decode_ascii bs = (if list_all (\<lambda>b. unat b < 128) bs then Some (map (\<lambda>b. char_of (unat b)) bs) else None)"

section \<open>_parse_client_hello_body\<close>

definition sni_hostname :: "idna_codec \<Rightarrow> byte list \<Rightarrow> string result" where
  "sni_hostname idna raw = (case decode_ascii raw of
       None \<Rightarrow> Inl (ClientHelloError ''invalid SNI hostname'')
     | Some s \<Rightarrow> (case normalize_hostname idna s of
           Inl _ \<Rightarrow> Inl (ClientHelloError ''invalid SNI hostname'')
         | Inr h \<Rightarrow> Inr h))"

lemma hello_take_bound: "hello_take data offset count = Inr (x, e) \<Longrightarrow> e = offset + count \<and> e \<le> length data"
  by (auto simp: hello_take_def split: if_splits)

text \<open>The inner loop: the entries of one server_name extension.\<close>

function parse_names :: "idna_codec \<Rightarrow> byte list \<Rightarrow> nat \<Rightarrow> string list \<Rightarrow> string list result" where
  "parse_names idna ext_data name_offset names =
     (if name_offset < length ext_data then
        (let name_type = ext_data ! name_offset in
         case hello_take ext_data (name_offset + 1) 2 of
           Inl e \<Rightarrow> Inl e
         | Inr (length_raw, o1) \<Rightarrow>
             (case hello_take ext_data o1 (from_big length_raw) of
                Inl e \<Rightarrow> Inl e
              | Inr (name_raw, o2) \<Rightarrow>
                  if name_type = 0 then
                    (case sni_hostname idna name_raw of
                       Inl e \<Rightarrow> Inl e
                     | Inr h \<Rightarrow> parse_names idna ext_data o2 (names @ [h]))
                  else parse_names idna ext_data o2 names))
      else Inr names)"
  by pat_completeness auto

termination
  by (relation "measure (\<lambda>(_, d, off, _). length d - off)") (auto dest!: hello_take_bound)

text \<open>The outer loop: one extension after the other.\<close>

definition parse_server_name :: "idna_codec \<Rightarrow> byte list \<Rightarrow> string list \<Rightarrow> string list result" where
  "parse_server_name idna ext_data names =
     (if length ext_data < 2 \<or> from_big (take 2 ext_data) \<noteq> length ext_data - 2
      then Inl (ClientHelloError ''invalid server_name extension'')
      else parse_names idna ext_data 2 names)"

function parse_extensions :: "idna_codec \<Rightarrow> byte list \<Rightarrow> nat \<Rightarrow> string list \<Rightarrow> string list result" where
  "parse_extensions idna extensions ext_offset names =
     (if ext_offset < length extensions then
        (case hello_take extensions ext_offset 4 of
           Inl e \<Rightarrow> Inl e
         | Inr (header, o1) \<Rightarrow>
             (let ext_type = from_big (take 2 header); ext_len = from_big (drop 2 header) in
              case hello_take extensions o1 ext_len of
                Inl e \<Rightarrow> Inl e
              | Inr (ext_data, o2) \<Rightarrow>
                  if ext_type \<in> {0xfe0d, 0xffce} then Inl (ClientHelloError ''ECH extension is not allowed'')
                  else if ext_type = 0 then
                    (case parse_server_name idna ext_data names of
                       Inl e \<Rightarrow> Inl e
                     | Inr names' \<Rightarrow> parse_extensions idna extensions o2 names')
                  else parse_extensions idna extensions o2 names))
      else Inr names)"
  by pat_completeness auto

termination
  by (relation "measure (\<lambda>(_, d, off, _). length d - off)") (auto dest!: hello_take_bound)

definition one_name :: "string list \<Rightarrow> string result" where
  "one_name names = (if length names \<noteq> 1
     then Inl (ClientHelloError ''exactly one cleartext SNI hostname is required'') else Inr (hd names))"

text \<open>The fixed part of the body, up to the extensions.\<close>

definition hello_extensions :: "byte list \<Rightarrow> byte list result" where
  "hello_extensions body =
     ebind (hello_take body 0 (2 + 32)) (\<lambda>(_, o1).
     if o1 \<ge> length body then Inl (ClientHelloError ''missing session id'')
     else ebind (hello_take body (o1 + 1) (unat (body ! o1))) (\<lambda>(_, o2).
     ebind (hello_take body o2 2) (\<lambda>(cipher_len_raw, o3).
     let cipher_len = from_big cipher_len_raw in
     if cipher_len < 2 \<or> odd cipher_len then Inl (ClientHelloError ''invalid cipher suite vector'')
     else ebind (hello_take body o3 cipher_len) (\<lambda>(_, o4).
     ebind (hello_take body o4 1) (\<lambda>(compression_len_raw, o5).
     ebind (hello_take body o5 (unat (compression_len_raw ! 0))) (\<lambda>(_, o6).
     ebind (hello_take body o6 2) (\<lambda>(extensions_len_raw, o7).
     ebind (hello_take body o7 (from_big extensions_len_raw)) (\<lambda>(extensions, o8).
     if o8 \<noteq> length body then Inl (ClientHelloError ''trailing ClientHello bytes'')
     else Inr extensions))))))))"

definition parse_client_hello_body :: "idna_codec \<Rightarrow> byte list \<Rightarrow> string result" where
  "parse_client_hello_body idna body =
     ebind (hello_extensions body) (\<lambda>extensions.
     ebind (parse_extensions idna extensions 0 []) one_name)"

section \<open>parse_client_hello\<close>

datatype hello_status = NeedMore | HelloOk string

definition hello_complete :: "nat option \<Rightarrow> byte list \<Rightarrow> bool" where
  "hello_complete required handshake \<longleftrightarrow> (case required of None \<Rightarrow> False | Some r \<Rightarrow> length handshake \<ge> r)"

text \<open>Lines 83 to 88: the length of the message, once its header is there.\<close>

definition hello_required :: "nat option \<Rightarrow> byte list \<Rightarrow> nat option result" where
  "hello_required required handshake =
     (if length handshake \<ge> 4 \<and> required = None then
        (if handshake ! 0 \<noteq> 1 then Inl (ClientHelloError ''first handshake message is not ClientHello'')
         else (let r = 4 + from_big (take 3 (drop 1 handshake)) in
           if r > 65536 then Inl (ClientHelloError ''ClientHello exceeds reviewed limit'') else Inr (Some r)))
      else Inr required)"

function parse_records ::
  "idna_codec \<Rightarrow> byte list \<Rightarrow> nat \<Rightarrow> byte list \<Rightarrow> nat option \<Rightarrow> hello_status result" where
  "parse_records idna data offset handshake required =
     (if hello_complete required handshake then
        ebind (parse_client_hello_body idna (drop 4 (take (the required) handshake))) (\<lambda>sni. Inr (HelloOk sni))
      else if length data < offset + 5 then Inr NeedMore
      else (let content_type = data ! offset; major = data ! (offset + 1);
                record_length = from_big (take 2 (drop (offset + 3) data)) in
        if content_type \<noteq> 22 \<or> major \<noteq> 3 then Inl (ClientHelloError ''not a TLS handshake record'')
        else if record_length > 18432 then Inl (ClientHelloError ''TLS record exceeds protocol limit'')
        else if length data < offset + 5 + record_length then Inr NeedMore
        else (let handshake' = handshake @ take record_length (drop (offset + 5) data) in
          case hello_required required handshake' of
            Inl e \<Rightarrow> Inl e
          | Inr required' \<Rightarrow> parse_records idna data (offset + 5 + record_length) handshake' required')))"
  by pat_completeness auto

termination
  by (relation "measure (\<lambda>(_, d, off, _). length d - off)") auto

definition parse_client_hello :: "idna_codec \<Rightarrow> byte list \<Rightarrow> hello_status result" where
  "parse_client_hello idna data = parse_records idna data 0 [] None"

section \<open>_read_client_hello\<close>

text \<open>The socket is a state the parameter \<open>recv\<close> changes; \<open>now\<close> gives the clock reading of each round
  and \<open>max_bytes\<close> is the setting \<open>hello_max_bytes\<close>.\<close>

function read_client_hello :: "idna_codec \<Rightarrow> nat \<Rightarrow> time \<Rightarrow> ('k \<Rightarrow> nat \<Rightarrow> byte list result \<times> 'k) \<Rightarrow>
  (nat \<Rightarrow> time) \<Rightarrow> nat \<Rightarrow> 'k \<Rightarrow> byte list \<Rightarrow> (byte list \<times> string) result \<times> 'k" where
  "read_client_hello idna max_bytes deadline recv now i client data =
     (if length data < max_bytes then
        (if deadline - now i \<le> 0 then (Inl (ClientHelloError ''ClientHello timeout''), client)
         else (case recv client (min 16384 (max_bytes - length data)) of
           (Inl e, client') \<Rightarrow> (Inl e, client')
         | (Inr chunk, client') \<Rightarrow>
             (if chunk = [] then (Inl (ClientHelloError ''EOF before ClientHello''), client')
              else (case parse_client_hello idna (data @ chunk) of
                Inl e \<Rightarrow> (Inl e, client')
              | Inr (HelloOk sni) \<Rightarrow> (Inr (data @ chunk, sni), client')
              | Inr NeedMore \<Rightarrow>
                  read_client_hello idna max_bytes deadline recv now (i + 1) client' (data @ chunk)))))
      else (Inl (ClientHelloError ''ClientHello size limit exceeded''), client))"
  by pat_completeness auto

termination
  by (relation "measure (\<lambda>(_, m, _, _, _, _, _, d). m - length d)") (auto simp flip: length_greater_0_conv)

declare read_client_hello.simps [simp del] parse_names.simps [simp del] parse_extensions.simps [simp del] parse_records.simps [simp del]

section \<open>Big-endian numbers\<close>

fun big_endian :: "nat \<Rightarrow> nat \<Rightarrow> byte list" where
  "big_endian 0 n = []"
| "big_endian (Suc k) n = big_endian k (n div 256) @ [word_of_nat n]"

lemma length_big_endian [simp]: "length (big_endian k n) = k"
  by (induction k arbitrary: n) auto

lemma from_big_snoc [simp]: "from_big (bs @ [b]) = from_big bs * 256 + unat b"
  by (simp add: from_big_def)

lemma from_big_Nil [simp]: "from_big [] = 0"
  by (simp add: from_big_def)

lemma unat_byte_less: "unat (b :: byte) < 256"
  using unsigned_less [of b] by simp

lemma byte_256: "(256 :: byte) = 0"
  by (simp add: word_unat_eq_iff unat_numeral)

lemma from_big_less: "from_big bs < 256 ^ length bs"
proof (induction bs rule: rev_induct)
  case (snoc b bs)
  have "from_big (bs @ [b]) < (from_big bs + 1) * 256" using unat_byte_less [of b] by simp
  also have "\<dots> \<le> 256 ^ length bs * 256" using snoc.IH by (intro mult_right_mono) auto
  finally show ?case by (simp add: mult.commute)
qed simp

lemma from_big_of_big_endian: "from_big (big_endian k n) = n mod 256 ^ k"
proof (induction k arbitrary: n)
  case (Suc k)
  have "unat (word_of_nat n :: byte) = n mod 256" by (simp add: unat_of_nat)
  with Suc show ?case by (simp add: mod_mult2_eq)
qed simp

lemma from_big_endian [simp]: "n < 256 ^ k \<Longrightarrow> from_big (big_endian k n) = n"
  by (simp add: from_big_of_big_endian)

lemma big_endian_from_big: "big_endian (length bs) (from_big bs) = bs"
proof (induction bs rule: rev_induct)
  case (snoc b bs)
  have "(from_big bs * 256 + unat b) div 256 = from_big bs" using unat_byte_less [of b] by simp
  moreover have "word_of_nat (from_big bs * 256 + unat b) = b"
    unfolding of_nat_add of_nat_mult of_nat_numeral byte_256 by simp
  ultimately show ?case using snoc.IH by simp
qed simp

lemma big_endian_iff: "length bs = k \<Longrightarrow> from_big bs = n \<longleftrightarrow> n < 256 ^ k \<and> bs = big_endian k n"
  using from_big_less [of bs] big_endian_from_big [of bs] by (metis from_big_endian)

section \<open>Reading at an offset\<close>

lemma hello_take_iff:
  assumes "off \<le> length d"
  shows "hello_take d off n = Inr (x, e) \<longleftrightarrow> length x = n \<and> e = off + n \<and> e \<le> length d \<and> drop off d = x @ drop e d"
    (is "?l \<longleftrightarrow> ?r")
proof
  assume ?l
  then have "x = take n (drop off d)" "e = off + n" "e \<le> length d"
    by (auto simp: hello_take_def split: if_splits)
  moreover have "drop off d = take n (drop off d) @ drop (off + n) d"
    by (metis add.commute append_take_drop_id drop_drop)
  ultimately show ?r by simp
next
  assume r: ?r
  then have "x = take n (drop off d)" by simp
  with r show ?l by (simp add: hello_take_def)
qed

lemma drop_split: "drop off d = x @ y \<Longrightarrow> off \<le> length d \<Longrightarrow> drop (off + length x) d = y \<and> off + length x \<le> length d"
proof -
  assume d: "drop off d = x @ y" and le: "off \<le> length d"
  from d have "length d - off = length x + length y" by (metis length_append length_drop)
  moreover have "drop (length x) (drop off d) = y" by (simp add: d)
  ultimately show ?thesis using le by (simp add: add.commute)
qed

lemma hello_take_append: "drop off d = x @ y \<Longrightarrow> off \<le> length d \<Longrightarrow> length x = n \<Longrightarrow> hello_take d off n = Inr (x, off + n)"
  using drop_split [of off d x y] by (auto simp: hello_take_iff)

section \<open>The grammar of ClientHello messages\<close>

text \<open>A length-prefixed vector, an entry of a server_name list and an extension.\<close>

definition vector :: "nat \<Rightarrow> byte list \<Rightarrow> byte list" where
  "vector k bs = big_endian k (length bs) @ bs"

definition fits :: "nat \<Rightarrow> byte list \<Rightarrow> bool" where
  "fits k bs \<longleftrightarrow> length bs < 256 ^ k"

definition name_entry :: "byte \<times> byte list \<Rightarrow> byte list" where
  "name_entry e = fst e # vector 2 (snd e)"

definition extension :: "nat \<times> byte list \<Rightarrow> byte list" where
  "extension e = big_endian 2 (fst e) @ vector 2 (snd e)"

lemma length_vector [simp]: "length (vector k bs) = k + length bs"
  by (simp add: vector_def)

text \<open>The host names of a server_name list: the entries of type 0, in order.\<close>

definition entry_names :: "idna_codec \<Rightarrow> (byte \<times> byte list) list \<Rightarrow> string list result" where
  "entry_names idna es = emap (\<lambda>(_, bs). sni_hostname idna bs) (filter (\<lambda>(t, _). t = 0) es)"

lemma entry_names_Nil [simp]: "entry_names idna [] = Inr []"
  by (simp add: entry_names_def)

lemma entry_names_Cons [simp]: "entry_names idna ((t, bs) # es) =
    (if t = 0 then ebind (sni_hostname idna bs) (\<lambda>h. ebind (entry_names idna es) (\<lambda>hs. Inr (h # hs)))
     else entry_names idna es)"
  by (simp add: entry_names_def)

text \<open>What one extension contributes.\<close>

definition extension_names :: "idna_codec \<Rightarrow> nat \<times> byte list \<Rightarrow> string list \<Rightarrow> bool" where
  "extension_names idna e hs \<longleftrightarrow> fst e \<notin> {0xfe0d, 0xffce} \<and>
     (if fst e = 0 then \<exists>es. snd e = vector 2 (concat (map name_entry es)) \<and>
         (\<forall>n \<in> set es. fits 2 (snd n)) \<and> entry_names idna es = Inr hs
      else hs = [])"

inductive extensions_names :: "idna_codec \<Rightarrow> (nat \<times> byte list) list \<Rightarrow> string list \<Rightarrow> bool" for idna where
  no_extension: "extensions_names idna [] []"
| one_extension: "fst e < 65536 \<Longrightarrow> fits 2 (snd e) \<Longrightarrow> extension_names idna e hs \<Longrightarrow>
    extensions_names idna es hs' \<Longrightarrow> extensions_names idna (e # es) (hs @ hs')"

inductive_cases extensions_names_NilE: "extensions_names idna [] hs"
inductive_cases extensions_names_ConsE: "extensions_names idna (e # es) hs"

text \<open>\<open>is_hello_body idna body sni\<close>: a ClientHello with one host name and without ECH.\<close>

definition is_hello_body :: "idna_codec \<Rightarrow> byte list \<Rightarrow> string \<Rightarrow> bool" where
  "is_hello_body idna body sni \<longleftrightarrow> (\<exists>start session ciphers compression exts.
     body = start @ vector 1 session @ vector 2 ciphers @ vector 1 compression @
       vector 2 (concat (map extension exts)) \<and>
     length start = 34 \<and> fits 1 session \<and> fits 2 ciphers \<and> ciphers \<noteq> [] \<and> even (length ciphers) \<and>
     fits 1 compression \<and> fits 2 (concat (map extension exts)) \<and> extensions_names idna exts [sni])"

text \<open>A handshake message cut into TLS records, each with any minor version.\<close>

definition tls_record :: "byte \<times> byte list \<Rightarrow> byte list" where
  "tls_record r = 22 # 3 # fst r # vector 2 (snd r)"

definition hello_message :: "byte list \<Rightarrow> byte list" where
  "hello_message body = 1 # vector 3 body"

definition is_client_hello :: "idna_codec \<Rightarrow> byte list \<Rightarrow> string \<Rightarrow> bool" where
  "is_client_hello idna data sni \<longleftrightarrow> (\<exists>records body extra rest.
     data = concat (map tls_record records) @ rest \<and> (\<forall>r \<in> set records. length (snd r) \<le> 18432) \<and>
     concat (map snd records) = hello_message body @ extra \<and> length body \<le> 65532 \<and>
     is_hello_body idna body sni)"

section \<open>The loops read the grammar\<close>

lemma parse_names_end: "length d \<le> off \<Longrightarrow> parse_names idna d off ns = Inr ns"
  by (subst parse_names.simps) simp

lemma parse_names_entry:
  assumes d: "drop off d = name_entry (t, bs) @ rest" and le: "off \<le> length d" and f: "fits 2 bs"
  shows "parse_names idna d off ns =
    (if t = 0 then ebind (sni_hostname idna bs) (\<lambda>h. parse_names idna d (off + 3 + length bs) (ns @ [h]))
     else parse_names idna d (off + 3 + length bs) ns)"
proof -
  have off: "off < length d" using d le by (cases "off = length d") (auto simp: name_entry_def)
  have t: "d ! off = t" using d off by (simp add: name_entry_def Cons_nth_drop_Suc [symmetric])
  have d1: "drop (off + 1) d = big_endian 2 (length bs) @ bs @ rest"
    using d off by (simp add: name_entry_def vector_def Cons_nth_drop_Suc [symmetric])
  have t1: "hello_take d (off + 1) 2 = Inr (big_endian 2 (length bs), off + 1 + 2)"
    using d1 off by (intro hello_take_append) auto
  have d2: "drop (off + 1 + 2) d = bs @ rest" "off + 1 + 2 \<le> length d"
    using drop_split [OF d1] off by auto
  have t2: "hello_take d (off + 1 + 2) (length bs) = Inr (bs, off + 1 + 2 + length bs)"
    using d2 by (intro hello_take_append) auto
  have "from_big (big_endian 2 (length bs)) = length bs" using f by (simp add: fits_def)
  then show ?thesis
    using off t t1 t2 by (subst parse_names.simps) (auto simp: Let_def numeral_3_eq_3 split: sum.split)
qed

lemma from_big2: "length l = 2 \<Longrightarrow> fits 2 bs \<Longrightarrow> from_big l = length bs \<Longrightarrow> l = big_endian 2 (length bs)"
  using big_endian_from_big [of l] by simp

lemma read_vector:
  assumes l: "hello_take d off k = Inr (l, o1)" and b: "hello_take d o1 (from_big l) = Inr (bs, o2)"
    and le: "off \<le> length d"
  shows "drop off d = vector k bs @ drop o2 d" "fits k bs" "o2 = off + k + length bs" "o2 \<le> length d"
proof -
  from l le have 1: "length l = k" "o1 = off + k" "o1 \<le> length d" "drop off d = l @ drop o1 d"
    by (auto simp: hello_take_iff)
  with b have 2: "length bs = from_big l" "o2 = o1 + from_big l" "o2 \<le> length d" "drop o1 d = bs @ drop o2 d"
    by (auto simp: hello_take_iff)
  have "l = big_endian k (length bs)" using big_endian_from_big [of l] 1(1) 2(1) by simp
  then show "drop off d = vector k bs @ drop o2 d" unfolding vector_def using 1(4) 2(4) by (metis append_assoc)
  show "fits k bs" using from_big_less [of l] 1(1) 2(1) by (simp add: fits_def)
  show "o2 = off + k + length bs" "o2 \<le> length d" using 1 2 by auto
qed

lemma parse_names_read:
  assumes p: "parse_names idna d off ns = Inr ns'" and off: "off < length d"
  obtains t bs where "drop off d = name_entry (t, bs) @ drop (off + 3 + length bs) d" "fits 2 bs"
    "off + 3 + length bs \<le> length d"
proof -
  from p off obtain l o1 bs o2 where l: "hello_take d (off + 1) 2 = Inr (l, o1)"
    and b: "hello_take d o1 (from_big l) = Inr (bs, o2)"
    by (subst (asm) parse_names.simps) (auto simp: Let_def split: sum.splits prod.splits)
  have le: "off + 1 \<le> length d" using off by simp
  note v = read_vector [OF l b le]
  have "drop off d = d ! off # drop (off + 1) d" using off by (simp add: Cons_nth_drop_Suc)
  with v show ?thesis
    by (intro that [of "d ! off" bs]) (auto simp: name_entry_def numeral_3_eq_3)
qed

lemma parse_names_complete:
  "entry_names idna es = Inr hs \<Longrightarrow> \<forall>n \<in> set es. fits 2 (snd n) \<Longrightarrow> drop off d = concat (map name_entry es) \<Longrightarrow>
    off \<le> length d \<Longrightarrow> parse_names idna d off ns = Inr (ns @ hs)"
proof (induction es arbitrary: off ns hs)
  case Nil
  then show ?case by (simp add: parse_names_end)
next
  case (Cons e es)
  obtain t bs where e: "e = (t, bs)" by force
  have d: "drop off d = name_entry (t, bs) @ concat (map name_entry es)" using Cons.prems(3) by (simp add: e)
  have f: "fits 2 bs" using Cons.prems(2) by (simp add: e)
  have next_off: "drop (off + 3 + length bs) d = concat (map name_entry es)" "off + 3 + length bs \<le> length d"
    using drop_split [OF d Cons.prems(4)] by (auto simp: name_entry_def add.assoc numeral_3_eq_3)
  show ?case
    using Cons.prems(1,2) Cons.IH [OF _ _ next_off]
    by (auto simp: parse_names_entry [OF d Cons.prems(4) f] e ebind_Inr_iff)
qed

lemma parse_names_sound:
  "parse_names idna d off ns = Inr ns' \<Longrightarrow> off \<le> length d \<Longrightarrow>
    \<exists>es hs. drop off d = concat (map name_entry es) \<and> (\<forall>n \<in> set es. fits 2 (snd n)) \<and>
      entry_names idna es = Inr hs \<and> ns' = ns @ hs"
proof (induction "length d - off" arbitrary: off ns rule: less_induct)
  case less
  show ?case
  proof (cases "off < length d")
    case False
    with less.prems show ?thesis by (intro exI [of _ "[]"]) (auto simp: parse_names_end)
  next
    case True
    obtain t bs where d: "drop off d = name_entry (t, bs) @ drop (off + 3 + length bs) d" and f: "fits 2 bs"
      and le: "off + 3 + length bs \<le> length d"
      by (rule parse_names_read [OF less.prems(1) True])
    let ?o = "off + 3 + length bs"
    have IH: "\<exists>es hs. drop ?o d = concat (map name_entry es) \<and> (\<forall>n \<in> set es. fits 2 (snd n)) \<and>
        entry_names idna es = Inr hs \<and> ns' = ms @ hs" if "parse_names idna d ?o ms = Inr ns'" for ms
      using less.hyps [OF _ that le] True by auto
    note eq = less.prems(1) [unfolded parse_names_entry [OF d less.prems(2) f]]
    show ?thesis
    proof (cases "t = 0")
      case z: True
      with eq obtain h where h: "sni_hostname idna bs = Inr h" and "parse_names idna d ?o (ns @ [h]) = Inr ns'"
        by (auto simp: ebind_Inr_iff)
      from IH [OF this(2)] obtain es hs where "drop ?o d = concat (map name_entry es)"
        "\<forall>n \<in> set es. fits 2 (snd n)" "entry_names idna es = Inr hs" "ns' = ns @ h # hs" by auto
      with d f h z show ?thesis by (intro exI [of _ "(t, bs) # es"] exI [of _ "h # hs"]) auto
    next
      case nz: False
      with eq have "parse_names idna d ?o ns = Inr ns'" by simp
      from IH [OF this] obtain es hs where "drop ?o d = concat (map name_entry es)"
        "\<forall>n \<in> set es. fits 2 (snd n)" "entry_names idna es = Inr hs" "ns' = ns @ hs" by auto
      with d f nz show ?thesis by (intro exI [of _ "(t, bs) # es"] exI [of _ hs]) auto
    qed
  qed
qed

lemma parse_server_name_iff:
  "fits 2 d \<Longrightarrow> parse_server_name idna d ns = Inr ns' \<longleftrightarrow>
    (\<exists>es hs. d = vector 2 (concat (map name_entry es)) \<and> (\<forall>n \<in> set es. fits 2 (snd n)) \<and>
      entry_names idna es = Inr hs \<and> ns' = ns @ hs)" (is "_ \<Longrightarrow> ?l \<longleftrightarrow> ?r")
proof
  assume ?l
  then have len: "2 \<le> length d" "from_big (take 2 d) = length d - 2" and p: "parse_names idna d 2 ns = Inr ns'"
    by (auto simp: parse_server_name_def split: if_splits)
  from parse_names_sound [OF p len(1)] obtain es hs where e: "drop 2 d = concat (map name_entry es)"
    "\<forall>n \<in> set es. fits 2 (snd n)" "entry_names idna es = Inr hs" "ns' = ns @ hs" by blast
  have "take 2 d = big_endian 2 (length (drop 2 d))"
    using len big_endian_from_big [of "take 2 d"] by simp
  then have "d = vector 2 (drop 2 d)" by (metis append_take_drop_id vector_def)
  with e show ?r by metis
next
  assume f: "fits 2 d" and ?r
  then obtain es hs where e: "d = vector 2 (concat (map name_entry es))" "\<forall>n \<in> set es. fits 2 (snd n)"
    "entry_names idna es = Inr hs" "ns' = ns @ hs" by blast
  let ?c = "concat (map name_entry es)"
  have "drop 2 d = ?c" "take 2 d = big_endian 2 (length ?c)" "length d = 2 + length ?c"
    by (simp_all add: e(1) vector_def)
  moreover have "length ?c < 256 ^ 2" using f e(1) by (simp add: fits_def)
  moreover have "parse_names idna d 2 ns = Inr (ns @ hs)"
    using e \<open>drop 2 d = ?c\<close> \<open>length d = _\<close> by (intro parse_names_complete) auto
  ultimately show ?l using e(4) by (simp add: parse_server_name_def)
qed

lemma length_extension: "off + length (extension (t, bs)) = off + 4 + length bs"
  by (simp add: extension_def)

lemma parse_extensions_end: "length d \<le> off \<Longrightarrow> parse_extensions idna d off ns = Inr ns"
  by (subst parse_extensions.simps) simp

lemma parse_extensions_step:
  assumes d: "drop off d = extension (t, bs) @ rest" and le: "off \<le> length d"
    and f: "fits 2 bs" "t < 65536"
  shows "parse_extensions idna d off ns =
    (if t \<in> {0xfe0d, 0xffce} then Inl (ClientHelloError ''ECH extension is not allowed'')
     else ebind (if t = 0 then parse_server_name idna bs ns else Inr ns)
       (\<lambda>ns. parse_extensions idna d (off + 4 + length bs) ns))"
proof -
  let ?h = "big_endian 2 t @ big_endian 2 (length bs)"
  have d1: "drop off d = ?h @ bs @ rest" using d by (simp add: extension_def vector_def)
  have off: "off < length d"
    using d1 le by (cases "off = length d") (auto simp flip: length_0_conv)
  have t1: "hello_take d off 4 = Inr (?h, off + 4)" using d1 le by (intro hello_take_append) auto
  have d2: "drop (off + 4) d = bs @ rest" "off + 4 \<le> length d"
    using drop_split [OF d1 le] by auto
  have t2: "hello_take d (off + 4) (length bs) = Inr (bs, off + 4 + length bs)"
    using d2 by (intro hello_take_append) auto
  have "from_big (take 2 ?h) = t" "from_big (drop 2 ?h) = length bs" using f by (simp_all add: fits_def)
  then show ?thesis
    using off t1 t2 by (subst parse_extensions.simps) (simp add: Let_def split: sum.split)
qed

lemma parse_extensions_read:
  assumes p: "parse_extensions idna d off ns = Inr ns'" and off: "off < length d"
  obtains t bs where "drop off d = extension (t, bs) @ drop (off + 4 + length bs) d" "fits 2 bs" "t < 65536"
    "off + 4 + length bs \<le> length d"
proof -
  from p off obtain h o1 bs o2 where h: "hello_take d off 4 = Inr (h, o1)"
    and b: "hello_take d o1 (from_big (drop 2 h)) = Inr (bs, o2)"
    by (subst (asm) parse_extensions.simps) (auto simp: Let_def split: sum.splits prod.splits)
  have h4: "length h = 4" "o1 = off + 4" "o1 \<le> length d" "drop off d = h @ drop o1 d"
    using h off by (auto simp: hello_take_iff)
  define t where "t = from_big (take 2 h)"
  have "hello_take d (off + 2) 2 = Inr (drop 2 h, o1)"
  proof -
    have "drop off d = take 2 h @ drop 2 h @ drop o1 d" using h4(4) by simp
    from drop_split [OF this] have "drop (off + 2) d = drop 2 h @ drop o1 d" "off + 2 \<le> length d"
      using off h4(1) by auto
    then show ?thesis using h4 by (subst hello_take_append) auto
  qed
  note v = read_vector [OF this b]
  have t: "take 2 h = big_endian 2 t" "t < 65536"
    using big_endian_from_big [of "take 2 h"] from_big_less [of "take 2 h"] h4(1) by (simp_all add: t_def)
  have le: "off + 2 \<le> length d" using h4 by simp
  have "drop off d = take 2 h @ drop (off + 2) d"
    using h4(1,4) drop_split [of off d "take 2 h" "drop 2 h @ drop o1 d"] off by simp
  then have ext: "drop off d = extension (t, bs) @ drop o2 d" using v(1) [OF le] t(1) by (simp add: extension_def)
  have o2: "off + 4 + length bs = o2" using v(3) [OF le] by simp
  show ?thesis
    by (rule that [of t bs, unfolded o2, OF ext v(2) [OF le] t(2) v(4) [OF le]])
qed

lemma parse_extensions_complete:
  "extensions_names idna es hs \<Longrightarrow> drop off d = concat (map extension es) \<Longrightarrow> off \<le> length d \<Longrightarrow>
    parse_extensions idna d off ns = Inr (ns @ hs)"
proof (induction arbitrary: off ns rule: extensions_names.induct)
  case no_extension
  then show ?case by (simp add: parse_extensions_end)
next
  case (one_extension e hs es hs')
  obtain t bs where e: "e = (t, bs)" by force
  have d: "drop off d = extension (t, bs) @ concat (map extension es)"
    using one_extension.prems(1) by (simp add: e)
  have next_off: "drop (off + 4 + length bs) d = concat (map extension es)" "off + 4 + length bs \<le> length d"
    using drop_split [OF d one_extension.prems(2)] by (simp_all only: length_extension)
  have f: "fits 2 bs" "t < 65536" using one_extension.hyps by (auto simp: e)
  have "t \<notin> {0xfe0d, 0xffce}" using one_extension.hyps(3) by (simp add: extension_names_def e)
  moreover have "(if t = 0 then parse_server_name idna bs ns else Inr ns) = Inr (ns @ hs)"
    using one_extension.hyps(3) by (auto simp: extension_names_def e parse_server_name_iff [OF f(1)])
  ultimately show ?case
    using one_extension.IH [OF next_off, of "ns @ hs"]
    by (simp add: parse_extensions_step [OF d one_extension.prems(2) f])
qed

lemma parse_extensions_sound:
  "parse_extensions idna d off ns = Inr ns' \<Longrightarrow> off \<le> length d \<Longrightarrow>
    \<exists>es hs. drop off d = concat (map extension es) \<and> extensions_names idna es hs \<and> ns' = ns @ hs"
proof (induction "length d - off" arbitrary: off ns rule: less_induct)
  case less
  show ?case
  proof (cases "off < length d")
    case False
    with less.prems show ?thesis
      by (intro exI [of _ "[]"]) (auto simp: parse_extensions_end intro: no_extension)
  next
    case True
    obtain t bs where d: "drop off d = extension (t, bs) @ drop (off + 4 + length bs) d"
      and f: "fits 2 bs" "t < 65536" and le: "off + 4 + length bs \<le> length d"
      by (rule parse_extensions_read [OF less.prems(1) True])
    let ?o = "off + 4 + length bs"
    note eq = less.prems(1) [unfolded parse_extensions_step [OF d less.prems(2) f]]
    from eq have t: "t \<notin> {0xfe0d, 0xffce}" by (auto split: if_splits)
    with eq obtain ms where m: "(if t = 0 then parse_server_name idna bs ns else Inr ns) = Inr ms"
      and p: "parse_extensions idna d ?o ms = Inr ns'" by (auto simp only: ebind_Inr_iff if_False)
    obtain gs where g: "extension_names idna (t, bs) gs" "ms = ns @ gs"
      using m t by (auto simp: extension_names_def parse_server_name_iff [OF f(1)] split: if_splits)
    have "length d - ?o < length d - off" using True by simp
    from less.hyps [OF this p le] obtain es hs where "drop ?o d = concat (map extension es)"
      "extensions_names idna es hs" "ns' = ms @ hs" by auto
    with d f g show ?thesis
      by (intro exI [of _ "(t, bs) # es"] exI [of _ "gs @ hs"]) (auto intro: one_extension)
  qed
qed

section \<open>The body\<close>

lemma from_big_single [simp]: "from_big [b] = unat b"
  by (simp add: from_big_def)

lemma from_big_one: "length l = 1 \<Longrightarrow> unat (l ! 0) = from_big l"
  by (cases l) auto

lemma hello_take_one: "off < length d \<Longrightarrow> hello_take d off 1 = Inr ([d ! off], off + 1)"
  by (simp add: hello_take_def take_Suc_conv_app_nth [of 0, simplified] hd_drop_conv_nth take_Suc)

lemma hello_extensions_sound:
  assumes "hello_extensions body = Inr exts"
  shows "\<exists>start session ciphers compression.
     body = start @ vector 1 session @ vector 2 ciphers @ vector 1 compression @ vector 2 exts \<and>
     length start = 34 \<and> fits 1 session \<and> fits 2 ciphers \<and> ciphers \<noteq> [] \<and> even (length ciphers) \<and>
     fits 1 compression \<and> fits 2 exts"
proof -
  from assms obtain start o1 session o2 cl o3 ciphers o4 ml o5 compression o6 xl o7 where
    1: "hello_take body 0 34 = Inr (start, o1)" "o1 < length body"
    and 2: "hello_take body (o1 + 1) (unat (body ! o1)) = Inr (session, o2)"
    and 3: "hello_take body o2 2 = Inr (cl, o3)" "\<not> (from_big cl < 2 \<or> odd (from_big cl))"
      "hello_take body o3 (from_big cl) = Inr (ciphers, o4)"
    and 4: "hello_take body o4 1 = Inr (ml, o5)" "hello_take body o5 (unat (ml ! 0)) = Inr (compression, o6)"
    and 5: "hello_take body o6 2 = Inr (xl, o7)" "hello_take body o7 (from_big xl) = Inr (exts, length body)"
    unfolding hello_extensions_def
    by (auto simp: ebind_Inr_iff Let_def split: if_splits)
  have s: "length start = 34" "o1 = 34" "body = start @ drop o1 body"
    using 1 by (auto simp: hello_take_iff)
  have v1: "drop o1 body = vector 1 session @ drop o2 body" "fits 1 session" "o2 \<le> length body"
    using read_vector [OF hello_take_one [OF 1(2)], simplified from_big_single, OF 2] 1(2) by auto
  have v2: "drop o2 body = vector 2 ciphers @ drop o4 body" "fits 2 ciphers" "o4 \<le> length body"
    "length ciphers = from_big cl"
    using read_vector [OF 3(1,3) v1(3)] 3(3) hello_take_bound [OF 3(1)] by (auto simp: hello_take_iff)
  have "length ml = 1" using 4(1) v2(3) by (simp add: hello_take_iff)
  then have v3: "drop o4 body = vector 1 compression @ drop o6 body" "fits 1 compression" "o6 \<le> length body"
    using read_vector [OF 4(1) _ v2(3)] 4(2) by (auto simp: from_big_one)
  have v4: "drop o6 body = vector 2 exts" "fits 2 exts"
    using read_vector [OF 5 v3(3)] by auto
  have "body = start @ vector 1 session @ vector 2 ciphers @ vector 1 compression @ vector 2 exts"
    using s(3) v1(1) v2(1) v3(1) v4(1) by metis
  moreover have "ciphers \<noteq> []" "even (length ciphers)" using 3(2) v2(4) by auto
  ultimately show ?thesis using s(1) v1(2) v2(2) v3(2) v4(2) by blast
qed

lemma take_vector:
  assumes d: "drop off d = vector k bs @ y" and le: "off \<le> length d" and f: "fits k bs"
  shows "hello_take d off k = Inr (big_endian k (length bs), off + k)"
    "hello_take d (off + k) (length bs) = Inr (bs, off + k + length bs)"
    "from_big (big_endian k (length bs)) = length bs"
    "drop (off + k + length bs) d = y" "off + k + length bs \<le> length d"
proof -
  have d': "drop off d = big_endian k (length bs) @ bs @ y" using d by (simp add: vector_def)
  then show "hello_take d off k = Inr (big_endian k (length bs), off + k)"
    using le by (intro hello_take_append) auto
  have e: "drop (off + k) d = bs @ y" "off + k \<le> length d" using drop_split [OF d' le] by auto
  then show "hello_take d (off + k) (length bs) = Inr (bs, off + k + length bs)"
    by (intro hello_take_append) auto
  show "from_big (big_endian k (length bs)) = length bs" using f by (simp add: fits_def)
  show "drop (off + k + length bs) d = y" "off + k + length bs \<le> length d" using drop_split [OF e] by auto
qed

lemma hello_extensions_complete:
  assumes body: "body = start @ vector 1 session @ vector 2 ciphers @ vector 1 compression @ vector 2 exts"
    and "length start = 34" "fits 1 session" "fits 2 ciphers" "ciphers \<noteq> []" "even (length ciphers)"
      "fits 1 compression" "fits 2 exts"
  shows "hello_extensions body = Inr exts"
proof -
  have t0: "hello_take body 0 34 = Inr (start, 34)"
    using assms(2) by (subst hello_take_append [of _ _ start "vector 1 session @ vector 2 ciphers @ vector 1 compression @ vector 2 exts"]) (auto simp: body)
  have d0: "drop 34 body = vector 1 session @ vector 2 ciphers @ vector 1 compression @ vector 2 exts" "34 \<le> length body"
    using assms(2) by (simp_all add: body)
  note v1 = take_vector [OF d0 assms(3)] and v2 = take_vector [OF v1(4,5) assms(4)]
  note v3 = take_vector [OF v2(4,5) assms(7)]
  have d4: "drop (34 + 1 + length session + 2 + length ciphers + 1 + length compression) body = vector 2 exts @ []"
    using v3(4) by simp
  note v4 = take_vector [OF d4 v3(5) assms(8)]
  have lt: "34 < length body" using v1(5) by simp
  have s: "unat (body ! 34) = length session"
    using v1(1,3) hello_take_one [OF lt] by (auto simp: hello_take_def split: if_splits)
  have c: "unat (big_endian 1 (length compression) ! 0) = length compression"
    using v3(3) by (simp add: from_big_one)
  have e: "34 + 1 + length session + 2 + length ciphers + 1 + length compression + 2 + length exts = length body"
    using assms(2) by (simp add: body)
  have n: "\<not> length ciphers < 2" using assms(5,6) by (cases ciphers rule: list.exhaust; cases "tl ciphers") auto
  show ?thesis
    unfolding hello_extensions_def
    using t0 lt s v1(2) v2(1-3) v3(1,2) c v4(1-3) e n assms(6) by (simp add: Let_def)
qed

lemma parse_body_iff: "parse_client_hello_body idna body = Inr sni \<longleftrightarrow> is_hello_body idna body sni"
proof
  assume "parse_client_hello_body idna body = Inr sni"
  then obtain exts where x: "hello_extensions body = Inr exts" and p: "parse_extensions idna exts 0 [] = Inr [sni]"
    by (auto simp: parse_client_hello_body_def ebind_Inr_iff one_name_def length_Suc_conv split: if_splits)
  from parse_extensions_sound [OF p] obtain es where "exts = concat (map extension es)" "extensions_names idna es [sni]"
    by auto
  with hello_extensions_sound [OF x] show "is_hello_body idna body sni"
    unfolding is_hello_body_def by blast
next
  assume "is_hello_body idna body sni"
  then obtain start session ciphers compression es where
    "hello_extensions body = Inr (concat (map extension es))" "extensions_names idna es [sni]"
    unfolding is_hello_body_def using hello_extensions_complete by blast
  then show "parse_client_hello_body idna body = Inr sni"
    using parse_extensions_complete [of idna es "[sni]" 0 "concat (map extension es)" "[]"]
    by (simp add: parse_client_hello_body_def one_name_def)
qed

section \<open>Records\<close>

lemma hello_required_append:
  "hello_required None hs = Inr req \<Longrightarrow> hello_required req (hs @ x) = hello_required None (hs @ x)"
proof (cases "4 \<le> length hs")
  case True
  then have "(hs @ x) ! 0 = hs ! 0" "take 3 (drop 1 (hs @ x)) = take 3 (drop 1 hs)"
    by (auto simp: nth_append)
  then show "hello_required None hs = Inr req \<Longrightarrow> ?thesis"
    using True by (auto simp: hello_required_def Let_def split: if_splits)
qed (simp add: hello_required_def)

lemma hello_required_message:
  assumes "hs @ x = hello_message body @ extra" and "length body \<le> 65532"
  shows "hello_required None hs = Inr (if length hs \<ge> 4 then Some (4 + length body) else None)"
proof (cases "4 \<le> length hs")
  case True
  have m: "hello_message body @ extra = 1 # big_endian 3 (length body) @ body @ extra"
    by (simp add: hello_message_def vector_def)
  have "hs ! 0 = (hs @ x) ! 0" using True by (auto simp: nth_append)
  then have "hs ! 0 = 1" by (simp add: assms(1) m)
  moreover have "take 3 (drop 1 hs) = take 3 (drop 1 (hs @ x))" using True by simp
  then have "take 3 (drop 1 hs) = big_endian 3 (length body)" by (simp add: assms(1) m)
  ultimately show ?thesis using True assms(2) by (simp add: hello_required_def)
qed (simp add: hello_required_def)

lemma hello_complete_message:
  assumes r: "hello_required None hs = Inr req" and c: "hello_complete req hs"
  defines "body \<equiv> drop 4 (take (the req) hs)"
  shows "hs = hello_message body @ drop (the req) hs" "length body \<le> 65532"
proof -
  let ?l = "take 3 (drop 1 hs)"
  from c obtain n where n: "req = Some n" "n \<le> length hs" by (auto simp: hello_complete_def split: option.splits)
  with r have h: "4 \<le> length hs" "hs ! 0 = 1" "n = 4 + from_big ?l" "n \<le> 65536"
    by (auto simp: hello_required_def Let_def split: if_splits)
  have len: "length body = from_big ?l" using n h by (simp add: body_def)
  then show "length body \<le> 65532" using h by simp
  have b: "big_endian 3 (length body) = ?l" using big_endian_from_big [of ?l] h(1) len by simp
  have "take n hs = take 1 (take n hs) @ take 3 (drop 1 (take n hs)) @ drop 4 (take n hs)"
    by (metis append_take_drop_id drop_drop numeral_plus_one semiring_norm(2,8) add.commute)
  moreover have "take 1 (take n hs) = [1]" "take 3 (drop 1 (take n hs)) = ?l"
    using h by (cases hs; auto simp: drop_take)+
  ultimately have "take n hs = hello_message body"
    using b n(1) by (simp add: hello_message_def vector_def body_def)
  then show "hs = hello_message body @ drop (the req) hs" using n(1) by (metis append_take_drop_id option.sel)
qed

lemma message_body: "drop 4 (take (4 + length body) (hello_message body @ x)) = body"
proof -
  have "length (hello_message body) = 4 + length body" by (simp add: hello_message_def)
  then have "take (4 + length body) (hello_message body @ x) = hello_message body" by simp
  then have "take (4 + length body) (hello_message body @ x) = (1 # big_endian 3 (length body)) @ body"
    by (simp add: hello_message_def vector_def)
  moreover have "length (1 # big_endian 3 (length body)) = 4" by simp
  ultimately show ?thesis by (metis append_eq_conv_conj)
qed

lemma parse_records_complete:
  "hello_complete req hs \<Longrightarrow> parse_records idna d off hs req =
    ebind (parse_client_hello_body idna (drop 4 (take (the req) hs))) (\<lambda>sni. Inr (HelloOk sni))"
  by (subst parse_records.simps) simp

lemma length_tls_record: "off + length (tls_record (v, f)) = off + 5 + length f"
  by (simp add: tls_record_def)

lemma parse_records_step:
  assumes d: "drop off d = tls_record (v, f) @ rest" and le: "off \<le> length d" and f: "length f \<le> 18432"
    and c: "\<not> hello_complete req hs"
  shows "parse_records idna d off hs req =
    ebind (hello_required req (hs @ f)) (parse_records idna d (off + 5 + length f) (hs @ f))"
proof -
  have d': "drop off d = [22, 3, v] @ big_endian 2 (length f) @ f @ rest"
    using d by (simp add: tls_record_def vector_def)
  have off: "off + 5 + length f \<le> length d"
    using arg_cong [OF d', of length] le by simp
  have "d ! off = (drop off d) ! 0" "d ! (off + 1) = (drop off d) ! 1" using off by simp_all
  then have h: "d ! off = 22" "d ! (off + 1) = 3" by (simp_all add: d')
  have d3: "drop (off + 3) d = big_endian 2 (length f) @ f @ rest" "off + 3 \<le> length d"
    using drop_split [OF d' le] by (simp_all add: numeral_3_eq_3)
  have d5: "drop (off + 5) d = f @ rest" using drop_split [OF d3] by (simp add: add.commute)
  have l: "from_big (take 2 (drop (off + 3) d)) = length f" using f by (simp add: d3)
  show ?thesis
    using off c h f by (subst parse_records.simps) (simp add: Let_def l d5 split: sum.split)
qed

lemma parse_records_read:
  assumes p: "parse_records idna d off hs req = Inr (HelloOk sni)" and c: "\<not> hello_complete req hs"
    and le: "off \<le> length d"
  obtains v f where "drop off d = tls_record (v, f) @ drop (off + 5 + length f) d" "length f \<le> 18432"
    "off + 5 + length f \<le> length d"
proof -
  let ?n = "from_big (take 2 (drop (off + 3) d))"
  from p c have h: "d ! off = 22" "d ! (off + 1) = 3" "?n \<le> 18432" and off: "off + 5 + ?n \<le> length d"
    by (subst (asm) parse_records.simps; auto simp: Let_def split: if_splits)+
  have t3: "hello_take d off 3 = Inr ([22, 3, d ! (off + 2)], off + 3)"
  proof -
    have "drop off d = d ! off # d ! (off + 1) # d ! (off + 2) # drop (off + 3) d"
      using off by (simp add: Cons_nth_drop_Suc numeral_3_eq_3)
    then show ?thesis using h off by (intro hello_take_append [where y = "drop (off + 3) d"]) auto
  qed
  have t2: "hello_take d (off + 3) 2 = Inr (take 2 (drop (off + 3) d), off + 5)"
    and tn: "hello_take d (off + 5) ?n = Inr (take ?n (drop (off + 5) d), off + 5 + ?n)"
    using off by (auto simp: hello_take_def)
  have le3: "off + 3 \<le> length d" using off by simp
  note v = read_vector [OF t2 tn le3]
  have l: "length (take ?n (drop (off + 5) d)) = ?n" using off by simp
  have "drop off d = [22, 3, d ! (off + 2)] @ drop (off + 3) d" using t3 le by (simp add: hello_take_iff)
  then have "drop off d = tls_record (d ! (off + 2), take ?n (drop (off + 5) d)) @ drop (off + 5 + ?n) d"
    using v(1) by (simp add: tls_record_def)
  with l h(3) off show ?thesis by (intro that [of "d ! (off + 2)" "take ?n (drop (off + 5) d)"]) auto
qed

lemma parse_records_sound:
  "parse_records idna d off hs req = Inr (HelloOk sni) \<Longrightarrow> off \<le> length d \<Longrightarrow> hello_required None hs = Inr req \<Longrightarrow>
    \<exists>records body extra rest. drop off d = concat (map tls_record records) @ rest \<and>
      (\<forall>r \<in> set records. length (snd r) \<le> 18432) \<and>
      hs @ concat (map snd records) = hello_message body @ extra \<and> length body \<le> 65532 \<and> is_hello_body idna body sni"
proof (induction "length d - off" arbitrary: off hs req rule: less_induct)
  case less
  show ?case
  proof (cases "hello_complete req hs")
    case True
    from less.prems(1) have "is_hello_body idna (drop 4 (take (the req) hs)) sni"
      by (auto simp: parse_records_complete [OF True] ebind_Inr_iff parse_body_iff)
    with hello_complete_message [OF less.prems(3) True] show ?thesis
      by (intro exI [of _ "[] :: (byte \<times> byte list) list"] exI [of _ "drop 4 (take (the req) hs)"]
          exI [of _ "drop (the req) hs"] exI [of _ "drop off d"]) simp
  next
    case False
    obtain v f where d: "drop off d = tls_record (v, f) @ drop (off + 5 + length f) d" and f: "length f \<le> 18432"
      and le: "off + 5 + length f \<le> length d"
      by (rule parse_records_read [OF less.prems(1) False less.prems(2)])
    note eq = less.prems(1) [unfolded parse_records_step [OF d less.prems(2) f False]]
    from eq obtain req' where r: "hello_required req (hs @ f) = Inr req'"
      and p: "parse_records idna d (off + 5 + length f) (hs @ f) req' = Inr (HelloOk sni)"
      by (auto simp: ebind_Inr_iff)
    have "length d - (off + 5 + length f) < length d - off" using le by simp
    from less.hyps [OF this p le] r hello_required_append [OF less.prems(3)]
    obtain records body extra rest where "drop (off + 5 + length f) d = concat (map tls_record records) @ rest"
      "\<forall>r \<in> set records. length (snd r) \<le> 18432"
      "hs @ f @ concat (map snd records) = hello_message body @ extra" "length body \<le> 65532"
      "is_hello_body idna body sni" by auto
    with d f show ?thesis by (intro exI [of _ "(v, f) # records"]) auto
  qed
qed

lemma parse_records_accepts:
  "drop off d = concat (map tls_record records) @ rest \<Longrightarrow> \<forall>r \<in> set records. length (snd r) \<le> 18432 \<Longrightarrow>
    hs @ concat (map snd records) = hello_message body @ extra \<Longrightarrow> length body \<le> 65532 \<Longrightarrow>
    hello_required None hs = Inr req \<Longrightarrow> off \<le> length d \<Longrightarrow>
    parse_records idna d off hs req = ebind (parse_client_hello_body idna body) (\<lambda>sni. Inr (HelloOk sni))"
proof (induction records arbitrary: off hs req)
  case Nil
  have hs: "req = Some (4 + length body)" "length hs \<ge> 4 + length body" "hs = hello_message body @ extra"
    using Nil.prems(3,5) hello_required_message [OF Nil.prems(3,4)] by (auto simp: hello_message_def)
  have "drop 4 (take (the req) hs) = body" unfolding hs(1,3) option.sel by (rule message_body)
  then show ?case using hs(1,2) by (simp add: parse_records_complete hello_complete_def)
next
  case (Cons r records)
  obtain v f where r: "r = (v, f)" by force
  have d: "drop off d = tls_record (v, f) @ concat (map tls_record records) @ rest"
    and f: "length f \<le> 18432" using Cons.prems(1,2) by (auto simp: r)
  have req: "req = (if length hs \<ge> 4 then Some (4 + length body) else None)"
    using Cons.prems(5) hello_required_message [OF Cons.prems(3,4)] by simp
  show ?case
  proof (cases "hello_complete req hs")
    case True
    then have n: "req = Some (4 + length body)" "4 + length body \<le> length hs"
      using req by (auto simp: hello_complete_def split: if_splits)
    have "take (4 + length body) hs = take (4 + length body) (hs @ concat (map snd (r # records)))" using n by simp
    then have "drop 4 (take (4 + length body) hs) = body" by (simp only: Cons.prems(3) message_body)
    then show ?thesis unfolding parse_records_complete [OF True] by (simp add: n(1))
  next
    case False
    have m: "(hs @ f) @ concat (map snd records) = hello_message body @ extra" using Cons.prems(3) by (simp add: r)
    from drop_split [OF d Cons.prems(6)]
    have n: "drop (off + 5 + length f) d = concat (map tls_record records) @ rest" "off + 5 + length f \<le> length d"
      by (simp_all only: length_tls_record)
    from hello_required_message [OF m Cons.prems(4)] obtain req' where r': "hello_required None (hs @ f) = Inr req'"
      by blast
    show ?thesis
      using Cons.IH [OF n(1) _ m Cons.prems(4) r' n(2)] Cons.prems(2)
      by (simp add: parse_records_step [OF d Cons.prems(6) f False] hello_required_append [OF Cons.prems(5)] r')
  qed
qed

lemma client_hello_iff:
  "parse_client_hello idna data = Inr (HelloOk sni) \<longleftrightarrow> is_client_hello idna data sni"
proof
  assume "parse_client_hello idna data = Inr (HelloOk sni)"
  then show "is_client_hello idna data sni"
    using parse_records_sound [of idna data 0 "[]" None sni]
    by (auto simp: parse_client_hello_def is_client_hello_def hello_required_def)
next
  assume "is_client_hello idna data sni"
  then obtain records body extra rest where "data = concat (map tls_record records) @ rest"
    "\<forall>r \<in> set records. length (snd r) \<le> 18432" "concat (map snd records) = hello_message body @ extra"
    "length body \<le> 65532" "is_hello_body idna body sni" unfolding is_client_hello_def by blast
  then show "parse_client_hello idna data = Inr (HelloOk sni)"
    using parse_records_accepts [of 0 data records rest "[]" body extra None idna]
    by (auto simp: parse_client_hello_def hello_required_def ebind_Inr_iff parse_body_iff)
qed

section \<open>Chunks\<close>

text \<open>What a prefix decides, more bytes do not change.\<close>

lemma parse_records_stable:
  "parse_records idna p off hs req \<noteq> Inr NeedMore \<Longrightarrow>
    parse_records idna (p @ q) off hs req = parse_records idna p off hs req"
proof (induction "length p - off" arbitrary: off hs req rule: less_induct)
  case less
  let ?n = "from_big (take 2 (drop (off + 3) p))"
  show ?case
  proof (cases "hello_complete req hs \<or> length p < off + 5")
    case True
    then show ?thesis
      using less.prems by (subst (1 2) parse_records.simps) (auto simp: parse_records.simps [of idna p off hs req])
  next
    case False
    then have same: "(p @ q) ! off = p ! off" "(p @ q) ! (off + 1) = p ! (off + 1)"
      "take 2 (drop (off + 3) (p @ q)) = take 2 (drop (off + 3) p)" by (auto simp: nth_append)
    show ?thesis
    proof (cases "p ! off = 22 \<and> p ! (off + 1) = 3 \<and> ?n \<le> 18432 \<and> off + 5 + ?n \<le> length p")
      case True
      then have payload: "take ?n (drop (off + 5) (p @ q)) = take ?n (drop (off + 5) p)" by simp
      have lt: "length p - (off + 5 + ?n) < length p - off" using False by arith
      have IH: "parse_records idna (p @ q) (off + 5 + ?n) hs' req' = parse_records idna p (off + 5 + ?n) hs' req'"
        if "parse_records idna p (off + 5 + ?n) hs' req' \<noteq> Inr NeedMore" for hs' req'
        by (rule less.hyps [OF lt that])
      from less.prems show ?thesis
        unfolding parse_records.simps [of idna p off hs req] parse_records.simps [of idna "p @ q" off hs req] same payload
        using False True by (auto simp: Let_def IH payload split: sum.split)
    next
      case bad: False
      from less.prems show ?thesis
        unfolding parse_records.simps [of idna p off hs req] parse_records.simps [of idna "p @ q" off hs req] same
        using False bad by (auto simp: Let_def split: if_splits)
    qed
  qed
qed

lemma parse_stable:
  "parse_client_hello idna p \<noteq> Inr NeedMore \<Longrightarrow> parse_client_hello idna (p @ q) = parse_client_hello idna p"
  unfolding parse_client_hello_def by (rule parse_records_stable)

text \<open>
  \<open>delivers recv client sent\<close>: the peer behind the socket has sent the bytes \<open>sent\<close>, and each call of
  \<open>recv\<close> returns some of them, at least one and no more than asked for, until none are left.
\<close>

inductive delivers :: "('k \<Rightarrow> nat \<Rightarrow> byte list result \<times> 'k) \<Rightarrow> 'k \<Rightarrow> byte list \<Rightarrow> bool" for recv where
  all_read: "delivers recv client []"
| some_left: "sent \<noteq> [] \<Longrightarrow>
    (\<And>n. 0 < n \<Longrightarrow> \<exists>chunk rest client'. recv client n = (Inr chunk, client') \<and> chunk \<noteq> [] \<and> length chunk \<le> n \<and>
       sent = chunk @ rest \<and> delivers recv client' rest) \<Longrightarrow> delivers recv client sent"

lemma delivers_recv:
  assumes "delivers recv client sent" "sent \<noteq> []" "0 < n"
  obtains chunk rest client' where "recv client n = (Inr chunk, client')" "chunk \<noteq> []" "length chunk \<le> n"
    "sent = chunk @ rest" "delivers recv client' rest"
  using assms by (cases rule: delivers.cases) blast+

lemma read_accepts:
  assumes "delivers recv client sent" and "is_client_hello idna hello sni"
    and "data @ sent = hello @ q" and "length hello \<le> m" and "\<And>j. now j < deadline"
    and "length data < length hello"
  shows "\<exists>sofar rest client'. read_client_hello idna m deadline recv now i client data = (Inr (sofar, sni), client') \<and>
    data @ sent = sofar @ rest \<and> length sofar \<le> m \<and> delivers recv client' rest"
  using assms
proof (induction "m - length data" arbitrary: client sent data i rule: less_induct)
  case less
  have sent: "sent \<noteq> []" using less.prems(3,6) by auto
  have lt: "length data < m" using less.prems(4,6) by simp
  obtain chunk rest client' where c: "recv client (min 16384 (m - length data)) = (Inr chunk, client')" "chunk \<noteq> []"
    "length chunk \<le> min 16384 (m - length data)" "sent = chunk @ rest" "delivers recv client' rest"
    by (rule delivers_recv [OF less.prems(1) sent, of "min 16384 (m - length data)"]) (use lt in auto)
  let ?d = "data @ chunk"
  have d: "?d @ rest = hello @ q" using less.prems(3) c(4) by simp
  have ok: "parse_client_hello idna hello = Inr (HelloOk sni)"
    using less.prems(2) by (simp add: client_hello_iff)
  have whole: "parse_client_hello idna (?d @ rest) = Inr (HelloOk sni)"
    unfolding d using parse_stable [of idna hello q] ok by simp
  have fits: "length ?d \<le> m" using c(3) lt by auto
  note step = read_client_hello.simps [of idna m deadline recv now i client data]
  have now: "0 < deadline - now i" using less.prems(5) by simp
  show ?case
  proof (cases "parse_client_hello idna ?d = Inr NeedMore")
    case True
    have short: "length ?d < length hello"
    proof (rule ccontr)
      assume "\<not> length ?d < length hello"
      then obtain r where "?d = hello @ r"
        using d by (metis append_eq_append_conv_if append_take_drop_id linorder_not_less)
      with parse_stable [of idna hello r] ok True show False by simp
    qed
    have "0 < length chunk" using c(2) by simp
    then have "m - length ?d < m - length data" using lt unfolding length_append by arith
    from less.hyps [OF this c(5) less.prems(2) d less.prems(4,5) short, of "i + 1"]
    show ?thesis using lt now c(1,2,4) True by (subst step) simp
  next
    case False
    with parse_stable [OF this, of rest] whole have "parse_client_hello idna ?d = Inr (HelloOk sni)" by simp
    with lt now c(1,2) have "read_client_hello idna m deadline recv now i client data = (Inr (?d, sni), client')"
      by (subst step) simp
    with fits c(4,5) show ?thesis by (intro exI [of _ ?d] exI [of _ rest] exI [of _ client']) simp
  qed
qed

lemma read_sound:
  "read_client_hello idna m deadline recv now i client data = (Inr (got, sni), client') \<Longrightarrow>
    is_client_hello idna got sni \<and> (\<exists>more. got = data @ more)"
proof (induction idna m deadline recv now i client data rule: read_client_hello.induct)
  case (1 idna m deadline recv now i client data)
  show ?case
  proof (cases "recv client (min 16384 (m - length data))")
    case (Pair r k)
    note step = "1.prems" [unfolded read_client_hello.simps [of idna m deadline recv now i client data]]
    from step obtain chunk where r: "r = Inr chunk" and lt: "length data < m" "\<not> deadline - now i \<le> 0" "chunk \<noteq> []"
      by (auto simp: Pair split: if_splits sum.splits)
    show ?thesis
    proof (cases "parse_client_hello idna (data @ chunk) = Inr NeedMore")
      case True
      with step r lt have "read_client_hello idna m deadline recv now (i + 1) k (data @ chunk) = (Inr (got, sni), client')"
        by (simp add: Pair)
      from "1.IH" [OF lt(1,2) Pair [symmetric] r lt(3) True _ this] show ?thesis by auto
    next
      case False
      with step r lt show ?thesis
        by (auto simp: Pair client_hello_iff split: sum.splits hello_status.splits)
    qed
  qed
qed

section \<open>An example\<close>

lemma whole_buffer_delivers: "delivers (\<lambda>k n. (Inr (take n k), drop n k)) sent sent"
proof (induction sent rule: length_induct)
  case (1 sent)
  show ?case
  proof (cases "sent = []")
    case False
    show ?thesis
    proof (rule some_left [OF False])
      fix n :: nat
      assume n: "0 < n"
      then have "length (drop n sent) < length sent" using False by simp
      with 1 have "delivers (\<lambda>k n. (Inr (take n k), drop n k)) (drop n sent) (drop n sent)" by blast
      with n False show "\<exists>chunk rest client'. (Inr (take n sent), drop n sent) = (Inr chunk, client') \<and> chunk \<noteq> [] \<and>
          length chunk \<le> n \<and> sent = chunk @ rest \<and> delivers (\<lambda>k n. (Inr (take n k), drop n k)) client' rest"
        by (intro exI [of _ "take n sent"] exI [of _ "drop n sent"]) simp
    qed
  qed (simp add: all_read)
qed

text \<open>The shortest ClientHello for a host name, given by its bytes.\<close>

definition hello_for :: "byte list \<Rightarrow> byte list" where
  "hello_for host = tls_record (1, hello_message (replicate 34 0 @ vector 1 [] @ vector 2 [0x13, 1] @ vector 1 [0] @
     vector 2 (extension (0, vector 2 (name_entry (0, host))))))"

lemma hello_for_valid:
  assumes d: "decode_ascii host = Some h" and h: "hostname_wf h" and l: "length host \<le> 253"
  shows "is_client_hello idna (hello_for host) h"
proof -
  let ?n = "[(0, host)] :: (byte \<times> byte list) list"
  let ?e = "(0 :: nat, vector 2 (concat (map name_entry ?n)))"
  have "entry_names idna ?n = Inr [h]" using d normalize_wf [OF h] by (simp add: sni_hostname_def)
  then have "extension_names idna ?e [h]"
    using l unfolding extension_names_def by (auto simp: fits_def intro!: exI [of _ ?n])
  from one_extension [OF _ _ this no_extension] have x: "extensions_names idna [?e] [h]"
    using l by (simp add: fits_def name_entry_def)
  let ?b = "replicate 34 0 @ vector 1 [] @ vector 2 [0x13, 1] @ vector 1 [0] @ vector 2 (concat (map extension [?e]))"
  have "is_hello_body idna ?b h"
    unfolding is_hello_body_def using x l
    by (intro exI conjI) (assumption | rule refl | simp add: fits_def extension_def name_entry_def)+
  then show ?thesis
    unfolding is_client_hello_def hello_for_def using l
    by (intro exI [of _ "[(1, hello_message ?b)]"] exI [of _ ?b] exI [of _ "[]"])
      (simp add: hello_message_def extension_def name_entry_def)
qed

lemma length_hello_for: "length (hello_for host) = length host + 61"
  by (simp add: hello_for_def tls_record_def hello_message_def extension_def name_entry_def)

lemma example_hello: "is_client_hello idna (hello_for [97, 46, 98]) ''a.b''"
proof (rule hello_for_valid)
  have "map char_of [97, 46, 98 :: nat] = ''a.b''" by code_simp
  then show "decode_ascii [97, 46, 98] = Some ''a.b''" by (simp add: decode_ascii_def)
qed (simp_all add: hostname_wf_def py_eval)

section \<open>Properties\<close>

text \<open>C15. The ClientHello parser accepts exactly the ClientHello messages: \<open>parse_client_hello\<close> answers
  \<open>ok\<close> with a name precisely when the bytes start with TLS handshake records that carry a complete
  ClientHello, however it is cut into records and whatever follows it, with exactly one host name and
  no encrypted-ClientHello extension, and it answers with that host name in normal form. Once it has
  answered or raised, bytes that arrive later do not change its answer.\<close>

theorem client_hello_grammar:
  "(parse_client_hello idna data = Inr (HelloOk sni) \<longleftrightarrow> is_client_hello idna data sni) \<and>
   (parse_client_hello idna data \<noteq> Inr NeedMore \<longrightarrow>
      parse_client_hello idna (data @ later) = parse_client_hello idna data)"
  using client_hello_iff parse_stable by blast

theorem client_hello_grammar_witness:
  "parse_client_hello Some (hello_for [97, 46, 98] @ [1, 2, 3]) = Inr (HelloOk ''a.b'')"
  using client_hello_grammar [of Some "hello_for [97, 46, 98]" "''a.b''" "[1, 2, 3]"] example_hello [of Some]
  by auto

text \<open>C16. The relay reads every valid ClientHello: when the peer has sent a ClientHello of at most
  \<open>hello_max_bytes\<close> bytes, in whatever pieces the socket delivers it and followed by whatever else, and the
  deadline is not reached, \<open>_read_client_hello\<close> returns the server name together with exactly the
  bytes it took from the socket, so that nothing the client sent is lost or reordered.\<close>

theorem hello_read_live:
  assumes "delivers recv client (hello @ more_bytes)" and "is_client_hello idna hello sni"
    and "length hello \<le> max_bytes" and "\<And>j. now j < start + timeout"
  shows "\<exists>buffered rest client'.
    read_client_hello idna max_bytes (start + timeout) recv now 0 client [] = (Inr (buffered, sni), client') \<and>
    hello @ more_bytes = buffered @ rest \<and> length buffered \<le> max_bytes \<and> delivers recv client' rest"
proof -
  have "length ([] :: byte list) < length hello"
    using assms(2) parse_stable [of idna "[]" hello]
    by (cases hello) (auto simp: client_hello_iff [symmetric] parse_client_hello_def parse_records.simps [of _ "[]"] hello_complete_def)
  then show ?thesis
    using read_accepts [OF assms(1,2) _ assms(3,4), of "[]" more_bytes] by simp
qed

theorem hello_read_live_witness:
  "\<exists>buffered rest client'.
    read_client_hello Some 65536 (0 + 5) (\<lambda>k n. (Inr (take n k), drop n k)) (\<lambda>_. 1) 0 (hello_for [97, 46, 98] @ [7]) [] =
      (Inr (buffered, ''a.b''), client') \<and>
    hello_for [97, 46, 98] @ [7] = buffered @ rest \<and> length buffered \<le> 65536 \<and>
    delivers (\<lambda>k n. (Inr (take n k), drop n k)) client' rest"
  by (rule hello_read_live [OF whole_buffer_delivers example_hello]) (simp_all add: length_hello_for)

end
