(* ===== verification/RelayWorkers.thy ===== *)
theory RelayWorkers
  imports EgressRuns ClientHello "HOL-Library.Multiset"
begin

text \<open>
  The threads of the TLS relay (\<open>DomainEgressRelay\<close> of \<open>fakenet/listeners/DomainEgressRelay.py\<close>): the
  accept loop, the workers of \<open>_handle_client\<close> and the quotas they share, next to the egress policy they
  call. A thread is cut where other threads can run: at each use of a lock and at each call that waits
  for the network. What the network, the clock and the operating system answer in a step is the record
  \<open>answers\<close>; starting a thread succeeds.
\<close>

section \<open>Quotas\<close>

record relay_quota =
  r_pending :: int
  r_pending_by_source :: "(string, int) dict"
  r_active :: int
  r_active_by_source :: "(string, int) dict"
  new_flow_rate :: "(string, time list) dict"

definition new_quota :: relay_quota where
  "new_quota = \<lparr>r_pending = 0, r_pending_by_source = [], r_active = 0, r_active_by_source = [], new_flow_rate = []\<rparr>"

text \<open>Reading a missing key of the \<open>defaultdict\<close> stores the empty \<open>deque\<close>.\<close>

definition allow_new_flow_rate :: "time \<Rightarrow> string \<Rightarrow> relay_quota \<Rightarrow> bool \<times> relay_quota" where
  "allow_new_flow_rate now source q =
     (let stored = (case dget (new_flow_rate q) source of None \<Rightarrow> [] | Some xs \<Rightarrow> xs);
          samples = dropWhile (\<lambda>t. now - t \<ge> 10) stored in
      if length samples \<ge> 64 then (False, q\<lparr>new_flow_rate := dset source samples (new_flow_rate q)\<rparr>)
      else (let rates = dset source (samples @ [now]) (new_flow_rate q) in
        (True, q\<lparr>new_flow_rate := (if length rates > 1024
           then filter (\<lambda>(_, value). value \<noteq> [] \<and> now - last value < 60) rates else rates)\<rparr>)))"

definition acquire_pending :: "policy_config \<Rightarrow> string \<Rightarrow> relay_quota \<Rightarrow> bool \<times> relay_quota" where
  "acquire_pending c source q =
     (if r_pending q \<ge> max_pending c \<or> cget (r_pending_by_source q) source \<ge> max_pending_per_source c
      then (False, q)
      else (True, q\<lparr>r_pending := r_pending q + 1, r_pending_by_source := cadd source 1 (r_pending_by_source q)\<rparr>))"

definition release_pending_locked :: "string \<Rightarrow> relay_quota \<Rightarrow> relay_quota" where
  "release_pending_locked source q =
     (if cget (r_pending_by_source q) source \<noteq> 0
      then q\<lparr>r_pending := r_pending q - 1, r_pending_by_source := cdec source (r_pending_by_source q)\<rparr> else q)"

definition promote_active :: "policy_config \<Rightarrow> string \<Rightarrow> relay_quota \<Rightarrow> bool \<times> relay_quota" where
  "promote_active c source q =
     (let q1 = release_pending_locked source q in
      if r_active q \<ge> max_active c \<or> cget (r_active_by_source q) source \<ge> max_active_per_source c
      then (False, q1)
      else (True, q1\<lparr>r_active := r_active q1 + 1, r_active_by_source := cadd source 1 (r_active_by_source q1)\<rparr>))"

definition relay_release_active :: "string \<Rightarrow> relay_quota \<Rightarrow> relay_quota" where
  "relay_release_active source q =
     (if cget (r_active_by_source q) source \<noteq> 0
      then q\<lparr>r_active := r_active q - 1, r_active_by_source := cdec source (r_active_by_source q)\<rparr> else q)"

section \<open>Threads\<close>

text \<open>Where a worker is in \<open>_handle_client\<close>, and its local variables.\<close>

datatype worker_pc = Started | HelloRead | Opening | Bound | Registering "string \<times> string \<times> int option"
  | Connecting | Activating | Relaying | Raised exn | Releasing | Revoking | Closing

record worker =
  w_source :: string
  w_sport :: int
  w_mapping :: RelayNatMapping
  w_pending :: bool
  w_active :: bool
  w_token :: "string option"
  w_sni :: "string option"
  w_buffered :: "byte list"
  w_local :: "string \<times> int"
  w_deny :: "string option"
  w_pc :: worker_pc

text \<open>Where the accept thread is: waiting, after the rate test, with a mapping that was consumed, and with
  one it has to close; the flag of the second says whether the relay was quiesced.\<close>

datatype accept_pc = Waiting | Rated bool string int | Held string int RelayNatMapping | Refusing RelayNatMapping

record relay =
  quota :: relay_quota
  rpolicy :: policy
  rinflight :: inflight
  rstop :: bool
  rquiesce :: bool
  accepting :: accept_pc
  rworkers :: "(nat, worker) dict"
  next_worker :: nat
  upstreams :: "(worker \<times> string) list"

text \<open>The bytes a socket delivers, one entry for each call of \<open>recv\<close>.\<close>

definition scripted :: "byte list result list \<Rightarrow> nat \<Rightarrow> byte list result \<times> byte list result list" where
  "scripted k n = (case k of [] \<Rightarrow> (Inl (OSError ''timed out''), []) | r # rs \<Rightarrow> (r, rs))"

record answers =
  a_now :: time
  a_now2 :: time
  a_peer :: "string \<times> int"
  a_recv :: "byte list result list"
  a_clock :: "nat \<Rightarrow> time"
  a_source :: "string result"
  a_bind :: "int result"
  a_token :: string
  a_connect :: "unit result"
  a_relay :: "unit result"

definition set_pc :: "worker_pc \<Rightarrow> worker \<Rightarrow> worker" where
  "set_pc pc w = w\<lparr>w_pc := pc\<rparr>"

section \<open>_handle_client\<close>

definition deny_reason_code :: "exn \<Rightarrow> string option \<Rightarrow> string" where
  "deny_reason_code e hello_sni = (case e of
       ClientHelloError _ \<Rightarrow> (if hello_sni \<noteq> None then ''sni_mismatch'' else ''clienthello_error'')
     | _ \<Rightarrow> ''relay_error'')"

definition worker_read :: "idna_codec \<Rightarrow> answers \<Rightarrow> worker \<Rightarrow> relay \<Rightarrow> worker" where
  "worker_read idna a w s = (let c = cfg (rpolicy s) in
     if rstop s then set_pc (Raised (RuntimeError ''relay is stopping'')) w
     else (case fst (read_client_hello idna (nat (hello_max_bytes c)) (a_now a + of_int (hello_timeout c))
             scripted (a_clock a) 0 (a_recv a) []) of
         Inl e \<Rightarrow> set_pc (Raised e) w
       | Inr (buffered, sni) \<Rightarrow> w\<lparr>w_sni := Some sni, w_buffered := buffered, w_pc := HelloRead\<rparr>))"

definition worker_promote :: "worker \<Rightarrow> relay \<Rightarrow> worker \<times> relay" where
  "worker_promote w s =
     (if w_sni w \<noteq> Some (m_domain (w_mapping w))
      then (set_pc (Raised (ClientHelloError ''SNI does not match mapped domain'')) w, s)
      else if rstop s then (set_pc (Raised (RuntimeError ''relay is stopping'')) w, s)
      else (case promote_active (cfg (rpolicy s)) (w_source w) (quota s) of
          (False, q) \<Rightarrow> (w\<lparr>w_pending := False, w_pc := Raised (RuntimeError ''active relay quota exceeded'')\<rparr>, s\<lparr>quota := q\<rparr>)
        | (True, q) \<Rightarrow> (w\<lparr>w_pending := False, w_active := True, w_pc := Opening\<rparr>, s\<lparr>quota := q\<rparr>)))"

definition worker_open :: "answers \<Rightarrow> worker \<Rightarrow> relay \<Rightarrow> worker" where
  "worker_open a w s = (case a_source a of
       Inl e \<Rightarrow> set_pc (Raised e) w
     | Inr source_ip \<Rightarrow> (case a_bind a of
           Inl e \<Rightarrow> set_pc (Raised e) w
         | Inr source_port \<Rightarrow>
             if rstop s then set_pc (Raised (RuntimeError ''relay is stopping'')) w
             else w\<lparr>w_local := (source_ip, source_port), w_pc := Bound\<rparr>))"

definition worker_key :: "worker \<Rightarrow> flow_key" where
  "worker_key w = flow_key ''TCP'' (fst (w_local w)) (snd (w_local w))
     (server_ip (w_mapping w)) (server_port (w_mapping w))"

definition worker_register :: "idna_codec \<Rightarrow> answers \<Rightarrow> worker \<Rightarrow> relay \<Rightarrow> worker \<times> relay" where
  "worker_register idna a w s = (let m = w_mapping w in
     case check_control_flow idna (a_now a) ''tls_relay'' ''TCP'' (fst (w_local w)) (server_ip m) (server_port m)
       (Some (m_domain m)) (Some (generation m)) (rpolicy s) of
       (Inl e, p) \<Rightarrow> (set_pc (Raised e) w, s\<lparr>rpolicy := p\<rparr>)
     | (Inr entry, p) \<Rightarrow> (set_pc (Registering entry) w, s\<lparr>rpolicy := p\<rparr>))"

definition worker_commit :: "answers \<Rightarrow> string \<times> string \<times> int option \<Rightarrow> worker \<Rightarrow> relay \<Rightarrow> worker \<times> relay" where
  "worker_commit a entry w s = (case entry of (kind, name, mapping) \<Rightarrow>
     case commit_control_flow (a_token a) kind name mapping (worker_key w)
       (a_now2 a + of_int (max 1 (relay_idle_timeout (cfg (rpolicy s)) + 30))) (rpolicy s) of
       (Inl e, p) \<Rightarrow> (set_pc (Raised e) w, s\<lparr>rpolicy := p\<rparr>)
     | (Inr token, p) \<Rightarrow> (w\<lparr>w_token := Some token, w_pc := Connecting\<rparr>, s\<lparr>rpolicy := p\<rparr>))"

text \<open>\<open>upstreams\<close> records the connections that are opened, with the token that permits each.\<close>

definition worker_connect :: "answers \<Rightarrow> worker \<Rightarrow> relay \<Rightarrow> worker \<times> relay" where
  "worker_connect a w s =
     (let s1 = s\<lparr>upstreams := upstreams s @ [(w, case w_token w of None \<Rightarrow> [] | Some t \<Rightarrow> t)]\<rparr> in
      case a_connect a of Inl e \<Rightarrow> (set_pc (Raised e) w, s1) | Inr _ \<Rightarrow> (set_pc Activating w, s1))"

definition worker_activate :: "answers \<Rightarrow> worker \<Rightarrow> relay \<Rightarrow> worker \<times> relay" where
  "worker_activate a w s = (case activate_relay_mapping (a_now a) (generation (w_mapping w)) (rpolicy s) of
       (ok, p) \<Rightarrow> (set_pc (if ok then Relaying
           else Raised (RuntimeError ''relay NAT mapping expired before activation'')) w, s\<lparr>rpolicy := p\<rparr>))"

definition worker_except :: "exn \<Rightarrow> worker \<Rightarrow> relay \<Rightarrow> worker" where
  "worker_except e w s =
     (if rstop s \<or> rquiesce s \<or> (case e of SystemExit _ \<Rightarrow> True | _ \<Rightarrow> False) then set_pc Releasing w
      else w\<lparr>w_deny := Some (deny_reason_code e (w_sni w)), w_pc := Releasing\<rparr>)"

definition worker_release :: "worker \<Rightarrow> relay \<Rightarrow> worker \<times> relay" where
  "worker_release w s =
     (let q1 = (if w_pending w then release_pending_locked (w_source w) (quota s) else quota s);
          q2 = (if w_active w then relay_release_active (w_source w) q1 else q1) in
      (w\<lparr>w_pending := False, w_active := False, w_pc := Revoking\<rparr>, s\<lparr>quota := q2\<rparr>))"

definition worker_revoke :: "worker \<Rightarrow> relay \<Rightarrow> worker \<times> relay" where
  "worker_revoke w s = (w\<lparr>w_token := None, w_pc := Closing\<rparr>,
     (case w_token w of None \<Rightarrow> s
      | Some t \<Rightarrow> if t = [] then s else s\<lparr>rpolicy := revoke_control_flow t (rpolicy s)\<rparr>))"

definition worker_close :: "answers \<Rightarrow> worker \<Rightarrow> relay \<Rightarrow> relay" where
  "worker_close a w s = s\<lparr>rpolicy := close_relay_mapping (a_now a) (generation (w_mapping w)) None (rpolicy s)\<rparr>"

text \<open>One step of a worker; \<open>None\<close> when it has left the set of workers.\<close>

definition handle_client :: "idna_codec \<Rightarrow> answers \<Rightarrow> worker \<Rightarrow> relay \<Rightarrow> worker option \<times> relay" where
  "handle_client idna a w s = (case w_pc w of
       Started \<Rightarrow> (Some (worker_read idna a w s), s)
     | HelloRead \<Rightarrow> map_prod Some id (worker_promote w s)
     | Opening \<Rightarrow> (Some (worker_open a w s), s)
     | Bound \<Rightarrow> map_prod Some id (worker_register idna a w s)
     | Registering entry \<Rightarrow> map_prod Some id (worker_commit a entry w s)
     | Connecting \<Rightarrow> map_prod Some id (worker_connect a w s)
     | Activating \<Rightarrow> map_prod Some id (worker_activate a w s)
     | Relaying \<Rightarrow> (Some (case a_relay a of Inl e \<Rightarrow> set_pc (Raised e) w | Inr _ \<Rightarrow> set_pc Releasing w), s)
     | Raised e \<Rightarrow> (Some (worker_except e w s), s)
     | Releasing \<Rightarrow> map_prod Some id (worker_release w s)
     | Revoking \<Rightarrow> map_prod Some id (worker_revoke w s)
     | Closing \<Rightarrow> (None, worker_close a w s))"

section \<open>_accept_loop\<close>

definition new_worker :: "string \<Rightarrow> int \<Rightarrow> RelayNatMapping \<Rightarrow> worker" where
  "new_worker source port m = \<lparr>w_source = source, w_sport = port, w_mapping = m, w_pending = True,
     w_active = False, w_token = None, w_sni = None, w_buffered = [], w_local = ([], 0), w_deny = None, w_pc = Started\<rparr>"

definition accept_client :: "answers \<Rightarrow> relay \<Rightarrow> relay" where
  "accept_client a s = (case a_peer a of (source, port) \<Rightarrow>
     if rstop s \<or> \<not> is_local_address (rpolicy s) source then s
     else (case allow_new_flow_rate (a_now a) source (quota s) of
         (False, q) \<Rightarrow> s\<lparr>quota := q\<rparr>
       | (True, q) \<Rightarrow> s\<lparr>quota := q, accepting := Rated (rquiesce s) source port\<rparr>))"

definition accept_consume :: "answers \<Rightarrow> bool \<Rightarrow> string \<Rightarrow> int \<Rightarrow> relay \<Rightarrow> relay" where
  "accept_consume a quiesced source port s = (case consume_relay_target (a_now a) source port (rpolicy s) of
       (None, p) \<Rightarrow> s\<lparr>rpolicy := p, accepting := Waiting\<rparr>
     | (Some m, p) \<Rightarrow> s\<lparr>rpolicy := p, accepting := (if quiesced then Refusing m else Held source port m)\<rparr>)"

definition accept_start :: "string \<Rightarrow> int \<Rightarrow> RelayNatMapping \<Rightarrow> relay \<Rightarrow> relay" where
  "accept_start source port m s = (case acquire_pending (cfg (rpolicy s)) source (quota s) of
       (False, q) \<Rightarrow> s\<lparr>quota := q, accepting := Refusing m\<rparr>
     | (True, q) \<Rightarrow> s\<lparr>quota := q, accepting := Waiting,
         rworkers := dset (next_worker s) (new_worker source port m) (rworkers s), next_worker := next_worker s + 1\<rparr>)"

definition accept_loop :: "answers \<Rightarrow> relay \<Rightarrow> relay" where
  "accept_loop a s = (case accepting s of
       Waiting \<Rightarrow> accept_client a s
     | Rated quiesced source port \<Rightarrow> accept_consume a quiesced source port s
     | Held source port m \<Rightarrow> accept_start source port m s
     | Refusing m \<Rightarrow> s\<lparr>rpolicy := close_relay_mapping (a_now a) (generation m) None (rpolicy s), accepting := Waiting\<rparr>)"

section \<open>Runs\<close>

text \<open>Any interleaving of the accept thread, the workers, \<open>stop\<close>, \<open>quiesce\<close> and whatever the other parts of
  the program do with the policy.\<close>

inductive relay_step :: "idna_codec \<Rightarrow> relay \<Rightarrow> relay \<Rightarrow> bool" for idna where
  step_accept: "relay_step idna s (accept_loop a s)"
| step_worker: "dget (rworkers s) k = Some w \<Longrightarrow> handle_client idna a w s = (Some w', s') \<Longrightarrow>
    relay_step idna s (s'\<lparr>rworkers := dset k w' (rworkers s)\<rparr>)"
| step_leave: "dget (rworkers s) k = Some w \<Longrightarrow> handle_client idna a w s = (None, s') \<Longrightarrow>
    relay_step idna s (s'\<lparr>rworkers := ddel k (rworkers s)\<rparr>)"
| step_stop: "relay_step idna s (s\<lparr>rstop := True\<rparr>)"
| step_quiesce: "relay_step idna s (s\<lparr>rquiesce := True\<rparr>)"
| step_other: "policy_step (rpolicy s, rinflight s) (p, f) \<Longrightarrow> relay_step idna s (s\<lparr>rpolicy := p, rinflight := f\<rparr>)"

definition relay_init :: "relay \<Rightarrow> bool" where
  "relay_init s \<longleftrightarrow> run_init (rpolicy s, rinflight s) \<and> quota s = new_quota \<and> accepting s = Waiting \<and>
     rworkers s = [] \<and> upstreams s = []"

section \<open>Counted slots\<close>

text \<open>A total and a table of counts by source that agree with a multiset of holders.\<close>

definition tallies :: "int \<Rightarrow> (string, int) dict \<Rightarrow> string multiset \<Rightarrow> bool" where
  "tallies n d M \<longleftrightarrow> n = int (size M) \<and> (\<forall>s. cget d s = int (count M s)) \<and> (\<forall>s. dget d s \<noteq> Some 0)"

lemma tallies_empty: "tallies n d {#} \<longleftrightarrow> n = 0 \<and> d = []"
proof
  assume t: "tallies n d {#}"
  then have "dget d s = None" for s
    by (cases "dget d s") (auto simp: tallies_def cget_def split: option.splits)
  then have "d = []" by (cases d) (auto simp: dget_def split: if_splits, metis option.distinct(1))
  with t show "n = 0 \<and> d = []" by (simp add: tallies_def)
qed (simp add: tallies_def dict_simps)

text \<open>The contract of a quota: a slot is taken for a source and given back for it.\<close>

locale slot_counter =
  fixes total :: "'q \<Rightarrow> int"
    and by_source :: "'q \<Rightarrow> (string, int) dict"
    and acquire :: "string \<Rightarrow> 'q \<Rightarrow> 'q"
    and release :: "string \<Rightarrow> 'q \<Rightarrow> 'q"
  assumes acquire_total: "total (acquire s q) = total q + 1"
    and acquire_source: "by_source (acquire s q) = cadd s 1 (by_source q)"
    and release_total: "cget (by_source q) s \<noteq> 0 \<Longrightarrow> total (release s q) = total q - 1"
    and release_source: "cget (by_source q) s \<noteq> 0 \<Longrightarrow> by_source (release s q) = cdec s (by_source q)"
begin

lemma acquire_tallies:
  assumes "tallies (total q) (by_source q) M"
  shows "tallies (total (acquire s q)) (by_source (acquire s q)) (add_mset s M)"
proof -
  have "dget (cadd s 1 (by_source q)) x \<noteq> Some 0" for x
    using assms by (auto simp: tallies_def cadd_def dict_simps)
  with assms show ?thesis
    by (auto simp: tallies_def acquire_total acquire_source dict_simps)
qed

lemma release_tallies:
  assumes t: "tallies (total q) (by_source q) M" and s: "s \<in># M"
  shows "tallies (total (release s q)) (by_source (release s q)) (M - {#s#})"
proof -
  obtain N where M: "M = add_mset s N" using s by (blast dest: multi_member_split)
  have nz: "cget (by_source q) s \<noteq> 0" using t s by (simp add: tallies_def)
  have "dget (cdec s (by_source q)) x \<noteq> Some 0" for x
    using t by (auto simp: tallies_def cdec_def Let_def dict_simps cget_def)
  then show ?thesis
    using t by (auto simp: M tallies_def release_total [OF nz] release_source [OF nz] dict_simps)
qed

end

interpretation pending: slot_counter r_pending r_pending_by_source
  "\<lambda>s q. q\<lparr>r_pending := r_pending q + 1, r_pending_by_source := cadd s 1 (r_pending_by_source q)\<rparr>"
  release_pending_locked
  by unfold_locales (simp_all add: release_pending_locked_def)

interpretation active: slot_counter r_active r_active_by_source
  "\<lambda>s q. q\<lparr>r_active := r_active q + 1, r_active_by_source := cadd s 1 (r_active_by_source q)\<rparr>"
  relay_release_active
  by unfold_locales (simp_all add: relay_release_active_def)

text \<open>The sources of the workers that hold a slot.\<close>

definition slots :: "(worker \<Rightarrow> bool) \<Rightarrow> worker \<Rightarrow> string multiset" where
  "slots P w = (if P w then {#w_source w#} else {#})"

definition holders :: "(worker \<Rightarrow> bool) \<Rightarrow> (nat, worker) dict \<Rightarrow> string multiset" where
  "holders P d = sum_mset (image_mset (slots P) (mset (dvals d)))"

lemma dvals_new: "dget d k = None \<Longrightarrow> mset (dvals (dset k w d)) = mset (dvals d) + {#w#}"
  by (induction d) (auto simp: dget_def dset_def dvals_def split: if_splits)

lemma dvals_update: "dget d k = Some w \<Longrightarrow> mset (dvals (dset k w' d)) + {#w#} = mset (dvals d) + {#w'#}"
  by (induction d) (auto simp: dget_def dset_def dvals_def split: if_splits)

lemma dvals_delete: "dict_ok d \<Longrightarrow> dget d k = Some w \<Longrightarrow> mset (dvals (ddel k d)) + {#w#} = mset (dvals d)"
proof (induction d)
  case (Cons e d)
  show ?case
  proof (cases "fst e = k")
    case True
    then have "ddel k d = d"
      using Cons.prems(1) by (auto simp: dict_ok_def ddel_def filter_id_conv image_iff split_beta)
    with True Cons.prems(2) show ?thesis by (cases e) (auto simp: ddel_def dvals_def dget_def)
  next
    case False
    then have "mset (dvals (ddel k d)) + {#w#} = mset (dvals d)"
      using Cons by (cases e) (auto simp: dict_ok_def dget_def)
    with False show ?thesis by (cases e) (auto simp: ddel_def dvals_def)
  qed
qed (simp add: dget_def)

lemma holders_Nil [simp]: "holders P [] = {#}"
  by (simp add: holders_def dvals_def)

lemma holders_new: "dget d k = None \<Longrightarrow> holders P (dset k w d) = holders P d + slots P w"
  by (simp add: holders_def dvals_new)

lemma holders_update: "dget d k = Some w \<Longrightarrow> holders P (dset k w' d) + slots P w = holders P d + slots P w'"
  using arg_cong [OF dvals_update, of d k w "\<lambda>M. sum_mset (image_mset (slots P) M)" w']
  by (simp add: holders_def add.commute)

lemma holders_delete: "dict_ok d \<Longrightarrow> dget d k = Some w \<Longrightarrow> holders P (ddel k d) + slots P w = holders P d"
  using arg_cong [OF dvals_delete, of d k w "\<lambda>M. sum_mset (image_mset (slots P) M)"]
  by (simp add: holders_def add.commute)

section \<open>The invariant\<close>

text \<open>What holds of a worker at each place; a slot is held exactly between its acquisition and its release,
  and nothing is opened before the ClientHello named the domain of the mapping.\<close>

definition holds_pending :: "worker \<Rightarrow> bool" where
  "holds_pending w \<longleftrightarrow> w_pending w \<and> \<not> w_active w"

definition holds_active :: "worker \<Rightarrow> bool" where
  "holds_active w \<longleftrightarrow> w_active w \<and> \<not> w_pending w \<and> w_sni w = Some (m_domain (w_mapping w))"

fun pc_ok :: "policy_config \<Rightarrow> worker \<Rightarrow> worker_pc \<Rightarrow> bool" where
  "pc_ok c w Started = (holds_pending w \<and> w_sni w = None)"
| "pc_ok c w HelloRead = holds_pending w"
| "pc_ok c w Opening = holds_active w"
| "pc_ok c w Bound = holds_active w"
| "pc_ok c w (Registering entry) =
    (holds_active w \<and> (case entry of (kind, name, _) \<Rightarrow> flow_ok c kind name (worker_key w)))"
| "pc_ok c w Connecting = (holds_active w \<and> w_token w \<noteq> None)"
| "pc_ok c w Activating = holds_active w"
| "pc_ok c w Relaying = holds_active w"
| "pc_ok c w (Raised e) = (\<not> (w_pending w \<and> w_active w))"
| "pc_ok c w Releasing = (\<not> (w_pending w \<and> w_active w))"
| "pc_ok c w Revoking = (\<not> w_pending w \<and> \<not> w_active w)"
| "pc_ok c w Closing = (\<not> w_pending w \<and> \<not> w_active w)"

definition worker_ok :: "idna_codec \<Rightarrow> policy_config \<Rightarrow> worker \<Rightarrow> bool" where
  "worker_ok idna c w \<longleftrightarrow> mapping_ok c (w_mapping w) \<and> pc_ok c w (w_pc w) \<and>
     (\<forall>sni. w_sni w = Some sni \<longrightarrow> is_client_hello idna (w_buffered w) sni)"

fun accept_ok :: "policy_config \<Rightarrow> accept_pc \<Rightarrow> bool" where
  "accept_ok c (Held _ _ m) = mapping_ok c m"
| "accept_ok c _ = True"

definition quota_ok :: "policy_config \<Rightarrow> relay_quota \<Rightarrow> (nat, worker) dict \<Rightarrow> bool" where
  "quota_ok c q ws \<longleftrightarrow>
     tallies (r_pending q) (r_pending_by_source q) (holders w_pending ws) \<and>
     tallies (r_active q) (r_active_by_source q) (holders w_active ws) \<and>
     r_pending q \<le> max_pending c \<and> r_active q \<le> max_active c \<and>
     (\<forall>s. cget (r_pending_by_source q) s \<le> max_pending_per_source c) \<and>
     (\<forall>s. cget (r_active_by_source q) s \<le> max_active_per_source c)"

definition upstream_ok :: "idna_codec \<Rightarrow> policy_config \<Rightarrow> worker \<times> string \<Rightarrow> bool" where
  "upstream_ok idna c u \<longleftrightarrow> worker_ok idna c (fst u) \<and> holds_active (fst u) \<and> w_token (fst u) = Some (snd u)"

definition relay_inv :: "idna_codec \<Rightarrow> relay \<Rightarrow> bool" where
  "relay_inv idna s \<longleftrightarrow> run_inv (rpolicy s, rinflight s) \<and> dict_ok (rworkers s) \<and>
     (\<forall>k. next_worker s \<le> k \<longrightarrow> dget (rworkers s) k = None) \<and>
     (\<forall>k w. dget (rworkers s) k = Some w \<longrightarrow> worker_ok idna (cfg (rpolicy s)) w) \<and>
     quota_ok (cfg (rpolicy s)) (quota s) (rworkers s) \<and> accept_ok (cfg (rpolicy s)) (accepting s) \<and>
     (\<forall>u \<in> set (upstreams s). upstream_ok idna (cfg (rpolicy s)) u)"

lemma policy_step_cfg: "policy_step s t \<Longrightarrow> cfg (fst t) = cfg (fst s)"
proof (induction rule: policy_step.induct)
  case (step_check idna now kind proto src dst dport d g p k name mapping p' f sport)
  then show ?case using check_control_flow_cfg [of idna now kind proto src dst dport d g p] by simp
next
  case (step_check_fails idna now kind proto src dst dport d g p e p' f)
  then show ?case using check_control_flow_cfg [of idna now kind proto src dst dport d g p] by simp
qed (simp_all add: match_relay_forward_def match_relay_reverse_def)

section \<open>Quotas along the steps\<close>

lemma holders_keep:
  "dget ws k = Some w \<Longrightarrow> slots P w' = slots P w \<Longrightarrow> holders P (dset k w' ws) = holders P ws"
  using holders_update [of ws k w P w'] by simp

lemma holders_drop:
  assumes "dget ws k = Some w" "P w" "\<not> P w'"
  shows "holders P (dset k w' ws) = holders P ws - {#w_source w#}" "w_source w \<in># holders P ws"
  using holders_update [OF assms(1), of P w'] assms(2,3)
  by (auto simp: slots_def dest: sym)

lemma holders_gain:
  assumes "dget ws k = Some w" "\<not> P w" "P w'"
  shows "holders P (dset k w' ws) = add_mset (w_source w') (holders P ws)"
  using holders_update [OF assms(1), of P w'] assms(2,3) by (simp add: slots_def)

lemma quota_keep:
  assumes "quota_ok c q ws" "dget ws k = Some w" "w_source w' = w_source w" "w_pending w' = w_pending w"
    "w_active w' = w_active w"
  shows "quota_ok c q (dset k w' ws)"
  using assms holders_keep [OF assms(2), of w_pending w'] holders_keep [OF assms(2), of w_active w']
  by (simp add: quota_ok_def slots_def)

lemma quota_leave:
  assumes "quota_ok c q ws" "dict_ok ws" "dget ws k = Some w" "\<not> w_pending w" "\<not> w_active w"
  shows "quota_ok c q (ddel k ws)"
  using assms holders_delete [OF assms(2,3), of w_pending] holders_delete [OF assms(2,3), of w_active]
  by (simp add: quota_ok_def slots_def)

lemma quota_release_pending:
  assumes q: "quota_ok c q ws" and k: "dget ws k = Some w" and w: "w_pending w" "\<not> w_pending w'"
    "w_source w' = w_source w" "w_active w' = w_active w"
  shows "quota_ok c (release_pending_locked (w_source w) q) (dset k w' ws)"
proof -
  have act: "holders w_active (dset k w' ws) = holders w_active ws"
    using k w by (intro holders_keep) (auto simp: slots_def)
  from q have "tallies (r_pending q) (r_pending_by_source q) (holders w_pending ws)" by (simp add: quota_ok_def)
  from pending.release_tallies [OF this holders_drop(2) [OF k w(1,2)]]
  have "tallies (r_pending (release_pending_locked (w_source w) q))
      (r_pending_by_source (release_pending_locked (w_source w) q)) (holders w_pending (dset k w' ws))"
    by (simp add: holders_drop(1) [OF k w(1,2)])
  moreover have "cget (r_pending_by_source q) (w_source w) \<le> max_pending_per_source c"
    using q by (simp add: quota_ok_def)
  then have "cget (r_pending_by_source q) (w_source w) - 1 \<le> max_pending_per_source c" by linarith
  ultimately show ?thesis using q act by (auto simp: quota_ok_def release_pending_locked_def dict_simps)
qed

lemma quota_release_active:
  assumes q: "quota_ok c q ws" and k: "dget ws k = Some w" and w: "w_active w" "\<not> w_active w'"
    "w_source w' = w_source w" "w_pending w' = w_pending w"
  shows "quota_ok c (relay_release_active (w_source w) q) (dset k w' ws)"
proof -
  have pend: "holders w_pending (dset k w' ws) = holders w_pending ws"
    using k w by (intro holders_keep) (auto simp: slots_def)
  from q have "tallies (r_active q) (r_active_by_source q) (holders w_active ws)" by (simp add: quota_ok_def)
  from active.release_tallies [OF this holders_drop(2) [OF k w(1,2)]]
  have "tallies (r_active (relay_release_active (w_source w) q))
      (r_active_by_source (relay_release_active (w_source w) q)) (holders w_active (dset k w' ws))"
    by (simp add: holders_drop(1) [OF k w(1,2)])
  moreover have "cget (r_active_by_source q) (w_source w) \<le> max_active_per_source c"
    using q by (simp add: quota_ok_def)
  then have "cget (r_active_by_source q) (w_source w) - 1 \<le> max_active_per_source c" by linarith
  ultimately show ?thesis using q pend by (auto simp: quota_ok_def relay_release_active_def dict_simps)
qed

lemma quota_take_active:
  assumes q: "quota_ok c q ws" and k: "dget ws k = Some w" and w: "\<not> w_active w" "w_active w'"
    "w_source w' = w_source w" "w_pending w' = w_pending w"
    and lim: "r_active q < max_active c" "cget (r_active_by_source q) (w_source w) < max_active_per_source c"
  shows "quota_ok c (q\<lparr>r_active := r_active q + 1, r_active_by_source := cadd (w_source w) 1 (r_active_by_source q)\<rparr>)
    (dset k w' ws)"
proof -
  have pend: "holders w_pending (dset k w' ws) = holders w_pending ws"
    using k w by (intro holders_keep) (auto simp: slots_def)
  from q have "tallies (r_active q) (r_active_by_source q) (holders w_active ws)" by (simp add: quota_ok_def)
  from active.acquire_tallies [OF this, of "w_source w"] q pend lim show ?thesis
    using holders_gain [where P = w_active, OF k w(1,2)] w(3) by (simp add: quota_ok_def dict_simps)
qed

lemma quota_take_pending:
  assumes q: "quota_ok c q ws" and k: "dget ws k = None" and a: "acquire_pending c source q = (True, q')"
  shows "quota_ok c q' (dset k (new_worker source port m) ws)"
proof -
  have new: "holders w_active (dset k (new_worker source port m) ws) = holders w_active ws"
    "holders w_pending (dset k (new_worker source port m) ws) = add_mset source (holders w_pending ws)"
    using k by (simp_all add: holders_new slots_def new_worker_def)
  from q have "tallies (r_pending q) (r_pending_by_source q) (holders w_pending ws)" by (simp add: quota_ok_def)
  from pending.acquire_tallies [OF this, of source] q a show ?thesis
    by (auto simp: quota_ok_def new acquire_pending_def dict_simps split: if_splits)
qed

lemma quota_rate: "quota_ok c q ws \<Longrightarrow> allow_new_flow_rate now source q = (b, q') \<Longrightarrow> quota_ok c q' ws"
  by (auto simp: quota_ok_def allow_new_flow_rate_def Let_def split: if_splits)

lemma quota_acquire_refused: "acquire_pending c source q = (False, q') \<Longrightarrow> q' = q"
  by (auto simp: acquire_pending_def split: if_splits)

lemma dset_dset [simp]: "dset k v (dset k u d) = dset k v d"
  by (simp add: dset_def)

lemma quota_promote:
  assumes q: "quota_ok c q ws" and k: "dget ws k = Some w" and w: "w_pending w" "\<not> w_active w"
    and pr: "promote_active c (w_source w) q = (ok, q')"
  shows "quota_ok c q' (dset k (w\<lparr>w_pending := False, w_active := ok, w_pc := pc\<rparr>) ws)"
proof -
  let ?q = "release_pending_locked (w_source w) q" and ?w = "w\<lparr>w_pending := False\<rparr>"
  have r: "quota_ok c ?q (dset k ?w ws)" using quota_release_pending [OF q k w(1), of ?w] by simp
  have k': "dget (dset k ?w ws) k = Some ?w" by (simp add: dict_simps)
  have same: "r_active ?q = r_active q" "r_active_by_source ?q = r_active_by_source q"
    by (simp_all add: release_pending_locked_def)
  show ?thesis
  proof (cases ok)
    case True
    with pr have lim: "r_active ?q < max_active c" "cget (r_active_by_source ?q) (w_source w) < max_active_per_source c"
      and q': "q' = ?q\<lparr>r_active := r_active ?q + 1, r_active_by_source := cadd (w_source w) 1 (r_active_by_source ?q)\<rparr>"
      by (auto simp: promote_active_def Let_def same split: if_splits)
    show ?thesis
      using quota_take_active [OF r k', of "w\<lparr>w_pending := False, w_active := ok, w_pc := pc\<rparr>"] w(2) lim True
      by (simp add: q')
  next
    case False
    with pr have "q' = ?q" by (auto simp: promote_active_def Let_def split: if_splits)
    with quota_keep [OF r k', of "w\<lparr>w_pending := False, w_active := ok, w_pc := pc\<rparr>"] w(2) False
    show ?thesis by simp
  qed
qed

section \<open>Every step keeps the invariant\<close>

lemma holds_set_pc [simp]:
  "holds_pending (set_pc pc w) = holds_pending w" "holds_active (set_pc pc w) = holds_active w"
  "worker_key (set_pc pc w) = worker_key w" "w_source (set_pc pc w) = w_source w" "w_pending (set_pc pc w) = w_pending w"
  "w_active (set_pc pc w) = w_active w" "w_token (set_pc pc w) = w_token w" "w_sni (set_pc pc w) = w_sni w"
  "w_buffered (set_pc pc w) = w_buffered w" "w_mapping (set_pc pc w) = w_mapping w" "w_pc (set_pc pc w) = pc"
  by (simp_all add: set_pc_def holds_pending_def holds_active_def worker_key_def)

lemma pc_ok_set_pc [simp]: "pc_ok c (set_pc pc w) pc' = pc_ok c w pc'"
  by (cases pc') auto

lemma pc_ok_exclusive: "pc_ok c w pc \<Longrightarrow> \<not> (w_pending w \<and> w_active w)"
  by (cases pc) (auto simp: holds_pending_def holds_active_def)

lemma worker_goto: "worker_ok idna c w \<Longrightarrow> pc_ok c w pc \<Longrightarrow> worker_ok idna c (set_pc pc w)"
  by (simp add: worker_ok_def)

lemma worker_raise: "worker_ok idna c w \<Longrightarrow> worker_ok idna c (set_pc (Raised e) w)"
  by (rule worker_goto) (auto simp: worker_ok_def dest: pc_ok_exclusive)

lemma run_inv_policy: "run_inv (p, f) \<Longrightarrow> policy_inv p' \<Longrightarrow> cfg p' = cfg p \<Longrightarrow> run_inv (p', f)"
  by (simp add: run_inv_def)

lemma run_inv_policyD: "run_inv (p, f) \<Longrightarrow> policy_inv p"
  by (simp add: run_inv_def)

text \<open>A worker step from \<open>s\<close> to \<open>s'\<close> that leaves the worker \<open>k\<close> as \<open>w'\<close>.\<close>

definition advances :: "idna_codec \<Rightarrow> nat \<Rightarrow> relay \<Rightarrow> worker \<times> relay \<Rightarrow> bool" where
  "advances idna k s = (\<lambda>(w', s'). run_inv (rpolicy s', rinflight s') \<and> cfg (rpolicy s') = cfg (rpolicy s) \<and>
     rworkers s' = rworkers s \<and> next_worker s' = next_worker s \<and> accepting s' = accepting s \<and>
     worker_ok idna (cfg (rpolicy s)) w' \<and> quota_ok (cfg (rpolicy s)) (quota s') (dset k w' (rworkers s)) \<and>
     (\<forall>u \<in> set (upstreams s'). upstream_ok idna (cfg (rpolicy s)) u))"

lemma advances_inv:
  assumes "relay_inv idna s" "dget (rworkers s) k = Some w" "advances idna k s (w', s')"
  shows "relay_inv idna (s'\<lparr>rworkers := dset k w' (rworkers s)\<rparr>)"
  using assms unfolding relay_inv_def advances_def by (auto simp: dict_simps)

lemma advance:
  assumes "relay_inv idna s" "dget (rworkers s) k = Some w" "worker_ok idna (cfg (rpolicy s)) w'"
    "w_source w' = w_source w" "w_pending w' = w_pending w" "w_active w' = w_active w"
    "policy_inv p" "cfg p = cfg (rpolicy s)"
  shows "advances idna k s (w', s\<lparr>rpolicy := p\<rparr>)" "advances idna k s (w', s)"
  using assms unfolding relay_inv_def advances_def
  by (auto intro: run_inv_policy quota_keep)

lemma inv_worker: "relay_inv idna s \<Longrightarrow> dget (rworkers s) k = Some w \<Longrightarrow> worker_ok idna (cfg (rpolicy s)) w"
  by (simp add: relay_inv_def)

lemma inv_policy: "relay_inv idna s \<Longrightarrow> policy_inv (rpolicy s)"
  by (auto simp: relay_inv_def dest: run_inv_policyD)

lemma advance_raise:
  assumes "relay_inv idna s" "dget (rworkers s) k = Some w"
  shows "advances idna k s (set_pc (Raised e) w, s)"
  by (rule advance(2) [OF assms worker_raise [OF inv_worker [OF assms]] _ _ _ inv_policy [OF assms(1)]]) auto

lemma read_advances:
  assumes i: "relay_inv idna s" and k: "dget (rworkers s) k = Some w" and pc: "w_pc w = Started"
  shows "advances idna k s (worker_read idna a w s, s)"
proof -
  note w = inv_worker [OF i k]
  show ?thesis
  proof (cases "fst (read_client_hello idna (nat (hello_max_bytes (cfg (rpolicy s))))
      (a_now a + of_int (hello_timeout (cfg (rpolicy s)))) scripted (a_clock a) 0 (a_recv a) [])")
    case (Inl e)
    then show ?thesis using advance_raise [OF i k] by (simp add: worker_read_def Let_def)
  next
    case (Inr r)
    obtain buffered sni where r: "r = (buffered, sni)" by force
    from Inr r have hello: "is_client_hello idna buffered sni"
      by (metis read_sound prod.collapse)
    let ?w = "w\<lparr>w_sni := Some sni, w_buffered := buffered, w_pc := HelloRead\<rparr>"
    have "worker_ok idna (cfg (rpolicy s)) ?w"
      using w pc hello by (simp add: worker_ok_def holds_pending_def)
    then have "advances idna k s (?w, s)" using inv_policy [OF i] by (intro advance(2) [OF i k]) auto
    then show ?thesis using Inr r advance_raise [OF i k] by (simp add: worker_read_def Let_def)
  qed
qed

lemma promote_advances:
  assumes i: "relay_inv idna s" and k: "dget (rworkers s) k = Some w" and pc: "w_pc w = HelloRead"
  shows "advances idna k s (worker_promote w s)"
proof (cases "w_sni w \<noteq> Some (m_domain (w_mapping w)) \<or> rstop s")
  case True
  then show ?thesis using advance_raise [OF i k] by (auto simp: worker_promote_def)
next
  case False
  note w = inv_worker [OF i k]
  have h: "w_pending w" "\<not> w_active w" using w pc by (auto simp: worker_ok_def holds_pending_def)
  obtain b q where pr: "promote_active (cfg (rpolicy s)) (w_source w) (quota s) = (b, q)" by force
  have q: "quota_ok (cfg (rpolicy s)) (quota s) (rworkers s)" using i by (simp add: relay_inv_def)
  note q' = quota_promote [OF q k h pr]
  have "worker_ok idna (cfg (rpolicy s)) (w\<lparr>w_pending := False, w_active := b, w_pc := pc\<rparr>)"
    if "pc = (if b then Opening else Raised e)" for pc e
    using w False that by (auto simp: worker_ok_def holds_active_def)
  then have "advances idna k s (w\<lparr>w_pending := False, w_active := b, w_pc := pc\<rparr>, s\<lparr>quota := q\<rparr>)"
    if "pc = (if b then Opening else Raised e)" for pc e
    using i q' that by (auto simp: advances_def relay_inv_def)
  from this [OF refl] have "advances idna k s (w\<lparr>w_pending := False, w_active := b,
      w_pc := if b then Opening else Raised (RuntimeError ''active relay quota exceeded'')\<rparr>, s\<lparr>quota := q\<rparr>)" .
  moreover have "w\<lparr>w_pending := False, w_pc := pc\<rparr> = w\<lparr>w_pending := False, w_active := False, w_pc := pc\<rparr>" for pc
    using h(2) by (cases w) simp
  ultimately show ?thesis using False pr by (cases b) (simp_all add: worker_promote_def)
qed

lemma open_advances:
  assumes i: "relay_inv idna s" and k: "dget (rworkers s) k = Some w" and pc: "w_pc w = Opening"
  shows "advances idna k s (worker_open a w s, s)"
proof -
  note w = inv_worker [OF i k]
  have "worker_ok idna (cfg (rpolicy s)) (w\<lparr>w_local := l, w_pc := Bound\<rparr>)" for l
    using w pc by (auto simp: worker_ok_def holds_active_def)
  then have "advances idna k s (w\<lparr>w_local := l, w_pc := Bound\<rparr>, s)" for l
    using inv_policy [OF i] by (intro advance(2) [OF i k]) auto
  then show ?thesis using advance_raise [OF i k] by (auto simp: worker_open_def split: sum.split)
qed

lemma register_advances:
  assumes i: "relay_inv idna s" and k: "dget (rworkers s) k = Some w" and pc: "w_pc w = Bound"
  shows "advances idna k s (worker_register idna a w s)"
proof -
  note w = inv_worker [OF i k] and p = inv_policy [OF i]
  let ?m = "w_mapping w"
  let ?c = "check_control_flow idna (a_now a) ''tls_relay'' ''TCP'' (fst (w_local w)) (server_ip ?m) (server_port ?m)
    (Some (m_domain ?m)) (Some (generation ?m)) (rpolicy s)"
  obtain r p' where c: "?c = (r, p')" by force
  have p': "policy_inv p'" "cfg p' = cfg (rpolicy s)"
    using check_control_flow_inv [OF p] check_control_flow_cfg c by (metis snd_conv)+
  have raise: "advances idna k s (set_pc (Raised e) w, s\<lparr>rpolicy := p'\<rparr>)" for e
    by (rule advance(1) [OF i k worker_raise [OF w] _ _ _ p']) auto
  have reg: "advances idna k s (set_pc (Registering entry) w, s\<lparr>rpolicy := p'\<rparr>)" if "r = Inr entry" for entry
  proof -
    obtain kd nm mp where e: "entry = (kd, nm, mp)" by (cases entry) auto
    have "fst ?c = Inr (kd, nm, mp)" using c that e by simp
    from check_control_flow_ok [OF p this] have "flow_ok (cfg (rpolicy s)) kd nm (worker_key w)"
      by (simp add: worker_key_def)
    then have "worker_ok idna (cfg (rpolicy s)) (set_pc (Registering entry) w)"
      using w pc by (intro worker_goto) (auto simp: worker_ok_def e)
    then show ?thesis by (intro advance(1) [OF i k _ _ _ _ p']) auto
  qed
  show ?thesis using raise reg c by (auto simp: worker_register_def Let_def split: sum.split)
qed

lemma commit_advances:
  assumes i: "relay_inv idna s" and k: "dget (rworkers s) k = Some w" and pc: "w_pc w = Registering entry"
  shows "advances idna k s (worker_commit a entry w s)"
proof -
  note w = inv_worker [OF i k] and p = inv_policy [OF i]
  obtain kd nm mp where e: "entry = (kd, nm, mp)" by (cases entry) auto
  have f: "flow_ok (cfg (rpolicy s)) kd nm (worker_key w)" "holds_active w"
    using w pc by (auto simp: worker_ok_def e)
  let ?t = "a_now2 a + of_int (max 1 (relay_idle_timeout (cfg (rpolicy s)) + 30))"
  obtain r p' where c: "commit_control_flow (a_token a) kd nm mp (worker_key w) ?t (rpolicy s) = (r, p')" by force
  have p': "policy_inv p'" "cfg p' = cfg (rpolicy s)"
    using commit_control_flow_inv [OF p f(1)] cfg_ops(8) c by (metis snd_conv)+
  have raise: "advances idna k s (set_pc (Raised e) w, s\<lparr>rpolicy := p'\<rparr>)" for e
    by (rule advance(1) [OF i k worker_raise [OF w] _ _ _ p']) auto
  have "worker_ok idna (cfg (rpolicy s)) (w\<lparr>w_token := Some t, w_pc := Connecting\<rparr>)" for t
    using w f(2) by (auto simp: worker_ok_def holds_active_def)
  then have "advances idna k s (w\<lparr>w_token := Some t, w_pc := Connecting\<rparr>, s\<lparr>rpolicy := p'\<rparr>)" for t
    by (intro advance(1) [OF i k _ _ _ _ p']) auto
  with raise c show ?thesis by (auto simp: worker_commit_def e split: sum.split)
qed

lemma connect_advances:
  assumes i: "relay_inv idna s" and k: "dget (rworkers s) k = Some w" and pc: "w_pc w = Connecting"
  shows "advances idna k s (worker_connect a w s)"
proof -
  note w = inv_worker [OF i k]
  have h: "holds_active w" "w_token w \<noteq> None" using w pc by (auto simp: worker_ok_def)
  then have u: "upstream_ok idna (cfg (rpolicy s)) (w, case w_token w of None \<Rightarrow> [] | Some t \<Rightarrow> t)"
    using w by (auto simp: upstream_ok_def)
  have "advances idna k s (set_pc (Raised e) w, s\<lparr>upstreams := upstreams s @ [(w, case w_token w of None \<Rightarrow> [] | Some t \<Rightarrow> t)]\<rparr>)" for e
    using advance_raise [OF i k, of e] u by (auto simp: advances_def)
  moreover have "worker_ok idna (cfg (rpolicy s)) (set_pc Activating w)" using w h by (intro worker_goto) auto
  then have "advances idna k s (set_pc Activating w, s)"
    using inv_policy [OF i] by (intro advance(2) [OF i k]) auto
  then have "advances idna k s (set_pc Activating w, s\<lparr>upstreams := upstreams s @ [(w, case w_token w of None \<Rightarrow> [] | Some t \<Rightarrow> t)]\<rparr>)"
    using u by (auto simp: advances_def)
  ultimately show ?thesis by (auto simp: worker_connect_def Let_def split: sum.split)
qed

lemma activate_advances:
  assumes i: "relay_inv idna s" and k: "dget (rworkers s) k = Some w" and pc: "w_pc w = Activating"
  shows "advances idna k s (worker_activate a w s)"
proof -
  note w = inv_worker [OF i k]
  obtain b p where a: "activate_relay_mapping (a_now a) (generation (w_mapping w)) (rpolicy s) = (b, p)" by force
  have p: "policy_inv p" "cfg p = cfg (rpolicy s)"
    using activate_inv [OF inv_policy [OF i]] cfg_nat_ops(5) a by (metis snd_conv)+
  have "worker_ok idna (cfg (rpolicy s)) (set_pc Relaying w)"
    using w pc by (intro worker_goto) (auto simp: worker_ok_def)
  with worker_raise [OF w]
  have "worker_ok idna (cfg (rpolicy s)) (set_pc (if b then Relaying else Raised e) w)" for e by simp
  then show ?thesis unfolding worker_activate_def a prod.case by (intro advance(1) [OF i k _ _ _ _ p]) auto
qed

lemma releasing_ok: "worker_ok idna c w \<Longrightarrow> worker_ok idna c (set_pc Releasing w)"
  by (rule worker_goto) (auto simp: worker_ok_def dest: pc_ok_exclusive)

lemma advance_releasing:
  assumes "relay_inv idna s" "dget (rworkers s) k = Some w"
  shows "advances idna k s (set_pc Releasing w, s)"
  by (rule advance(2) [OF assms releasing_ok [OF inv_worker [OF assms]] _ _ _ inv_policy [OF assms(1)]]) auto

lemma except_advances:
  assumes i: "relay_inv idna s" and k: "dget (rworkers s) k = Some w"
  shows "advances idna k s (worker_except e w s, s)"
proof -
  have "worker_ok idna (cfg (rpolicy s)) (w\<lparr>w_deny := d, w_pc := Releasing\<rparr>)" for d
    using releasing_ok [OF inv_worker [OF i k]] by (auto simp: worker_ok_def)
  then have "advances idna k s (w\<lparr>w_deny := d, w_pc := Releasing\<rparr>, s)" for d
    using inv_policy [OF i] by (intro advance(2) [OF i k]) auto
  then show ?thesis using advance_releasing [OF i k] by (simp add: worker_except_def)
qed

lemma release_advances:
  assumes i: "relay_inv idna s" and k: "dget (rworkers s) k = Some w" and pc: "w_pc w = Releasing"
  shows "advances idna k s (worker_release w s)"
proof -
  note w = inv_worker [OF i k]
  let ?w = "w\<lparr>w_pending := False, w_active := False, w_pc := Revoking\<rparr>"
  have x: "\<not> (w_pending w \<and> w_active w)" using w pc by (auto simp: worker_ok_def)
  have q: "quota_ok (cfg (rpolicy s)) (quota s) (rworkers s)" using i by (simp add: relay_inv_def)
  have "quota_ok (cfg (rpolicy s)) (quota (snd (worker_release w s))) (dset k ?w (rworkers s))"
    using x quota_release_pending [OF q k, of ?w] quota_release_active [OF q k, of ?w] quota_keep [OF q k, of ?w]
    by (auto simp: worker_release_def Let_def)
  moreover have "worker_ok idna (cfg (rpolicy s)) ?w" using w by (auto simp: worker_ok_def)
  ultimately show ?thesis using i by (simp add: worker_release_def advances_def relay_inv_def Let_def)
qed

lemma revoke_advances:
  assumes i: "relay_inv idna s" and k: "dget (rworkers s) k = Some w" and pc: "w_pc w = Revoking"
  shows "advances idna k s (worker_revoke w s)"
proof -
  note p = inv_policy [OF i]
  have "worker_ok idna (cfg (rpolicy s)) (w\<lparr>w_token := None, w_pc := Closing\<rparr>)"
    using inv_worker [OF i k] pc by (auto simp: worker_ok_def)
  then have "advances idna k s (w\<lparr>w_token := None, w_pc := Closing\<rparr>, s\<lparr>rpolicy := revoke_control_flow t (rpolicy s)\<rparr>)"
    and "advances idna k s (w\<lparr>w_token := None, w_pc := Closing\<rparr>, s)" for t
    using revoke_inv [OF p, of t] by (auto intro!: advance [OF i k])
  then show ?thesis by (simp add: worker_revoke_def split: option.split)
qed

lemma worker_advances:
  assumes i: "relay_inv idna s" and k: "dget (rworkers s) k = Some w" and h: "handle_client idna a w s = (Some w', s')"
  shows "advances idna k s (w', s')"
proof (cases "w_pc w")
  case Started
  then show ?thesis using h read_advances [OF i k] by (auto simp: handle_client_def)
next
  case HelloRead
  then show ?thesis using h promote_advances [OF i k] by (auto simp: handle_client_def map_prod_def split: prod.splits)
next
  case Opening
  then show ?thesis using h open_advances [OF i k] by (auto simp: handle_client_def)
next
  case Bound
  then show ?thesis using h register_advances [OF i k, of a] by (auto simp: handle_client_def map_prod_def split: prod.splits)
next
  case (Registering entry)
  then show ?thesis using h commit_advances [OF i k Registering, of a] by (auto simp: handle_client_def map_prod_def split: prod.splits)
next
  case Connecting
  then show ?thesis using h connect_advances [OF i k, of a] by (auto simp: handle_client_def map_prod_def split: prod.splits)
next
  case Activating
  then show ?thesis using h activate_advances [OF i k, of a] by (auto simp: handle_client_def map_prod_def split: prod.splits)
next
  case Relaying
  then show ?thesis
    using h advance_raise [OF i k] advance_releasing [OF i k] by (auto simp: handle_client_def split: sum.splits)
next
  case (Raised e)
  then show ?thesis using h except_advances [OF i k] by (auto simp: handle_client_def)
next
  case Releasing
  then show ?thesis using h release_advances [OF i k] by (auto simp: handle_client_def map_prod_def split: prod.splits)
next
  case Revoking
  then show ?thesis using h revoke_advances [OF i k] by (auto simp: handle_client_def map_prod_def split: prod.splits)
next
  case Closing
  then show ?thesis using h by (simp add: handle_client_def)
qed

lemma leave_inv:
  assumes i: "relay_inv idna s" and k: "dget (rworkers s) k = Some w" and h: "handle_client idna a w s = (None, s')"
  shows "relay_inv idna (s'\<lparr>rworkers := ddel k (rworkers s)\<rparr>)"
proof -
  have pc: "w_pc w = Closing" and s': "s' = worker_close a w s"
    using h by (auto simp: handle_client_def map_prod_def split: worker_pc.splits prod.splits)
  have w: "\<not> w_pending w" "\<not> w_active w" using inv_worker [OF i k] pc by (auto simp: worker_ok_def)
  have r: "run_inv (close_relay_mapping n g gr (rpolicy s), rinflight s)" for n g gr
    using i close_relay_mapping_inv [OF inv_policy [OF i]] by (auto simp: relay_inv_def intro: run_inv_policy)
  have "quota_ok (cfg (rpolicy s)) (quota s) (ddel k (rworkers s))"
    using i quota_leave [OF _ _ k w] by (simp add: relay_inv_def)
  with i r show ?thesis by (auto simp: s' worker_close_def relay_inv_def dict_simps)
qed

lemma consume_mapping_ok:
  assumes "policy_inv p" "consume_relay_target now source port p = (Some m, p')"
  shows "mapping_ok (cfg p) m"
proof -
  let ?p = "cleanup_locked now p"
  have a: "all_objs (mapping_ok (cfg p)) (relay_nat ?p)"
    using policy_invD(3) [OF cleanup_locked_inv [OF assms(1)]] by simp
  obtain g x h where "dget (nat_objs (relay_nat ?p)) g = Some x" "m = x\<lparr>consumed := True, expires_at := h\<rparr>"
    using assms(2) by (auto simp: consume_relay_target_def nat_consume_def Let_def split: option.splits if_splits prod.splits)
  with a show ?thesis by (auto simp: all_objs_def obj_def mapping_ok_def)
qed

lemma accept_inv:
  assumes i: "relay_inv idna s"
  shows "relay_inv idna (accept_loop a s)"
proof (cases "accepting s")
  case Waiting
  obtain source port where a: "a_peer a = (source, port)" by force
  obtain b q where "allow_new_flow_rate (a_now a) source (quota s) = (b, q)" by force
  with i quota_rate [OF _ this] show ?thesis
    by (cases b) (auto simp: Waiting accept_loop_def accept_client_def a relay_inv_def)
next
  case (Rated quiesced source port)
  obtain r p where c: "consume_relay_target (a_now a) source port (rpolicy s) = (r, p)" by force
  have p: "policy_inv p" "cfg p = cfg (rpolicy s)"
    using consume_inv [OF inv_policy [OF i]] cfg_nat_ops(6) c by (metis snd_conv)+
  have "run_inv (p, rinflight s)" using i p by (auto simp: relay_inv_def intro: run_inv_policy)
  moreover have "mapping_ok (cfg (rpolicy s)) m" if "r = Some m" for m
    using consume_mapping_ok [OF inv_policy [OF i]] c that by simp
  ultimately show ?thesis
    using i p by (cases r) (auto simp: Rated accept_loop_def accept_consume_def c relay_inv_def)
next
  case (Held source port m)
  have m: "mapping_ok (cfg (rpolicy s)) m" using i by (simp add: relay_inv_def Held)
  have fresh: "dget (rworkers s) (next_worker s) = None" using i by (simp add: relay_inv_def)
  have q: "quota_ok (cfg (rpolicy s)) (quota s) (rworkers s)" using i by (simp add: relay_inv_def)
  have w: "worker_ok idna (cfg (rpolicy s)) (new_worker source port m)"
    using m by (simp add: worker_ok_def new_worker_def holds_pending_def)
  obtain b q' where c: "acquire_pending (cfg (rpolicy s)) source (quota s) = (b, q')" by force
  show ?thesis
  proof (cases b)
    case True
    then show ?thesis
      using i w c quota_take_pending [OF q fresh] by (auto simp: Held accept_loop_def accept_start_def relay_inv_def dict_simps)
  next
    case False
    then show ?thesis
      using i c quota_acquire_refused [of "cfg (rpolicy s)" source "quota s" q'] by (auto simp: Held accept_loop_def accept_start_def relay_inv_def)
  qed
next
  case (Refusing m)
  then show ?thesis
    using i close_relay_mapping_inv [OF inv_policy [OF i]]
    by (auto simp: accept_loop_def relay_inv_def intro: run_inv_policy)
qed

lemma relay_inv_step: "relay_step idna s t \<Longrightarrow> relay_inv idna s \<Longrightarrow> relay_inv idna t"
proof (induction rule: relay_step.induct)
  case (step_accept s a)
  then show ?case by (rule accept_inv)
next
  case (step_worker s k w a w' s')
  then show ?case using advances_inv worker_advances by blast
next
  case (step_leave s k w a s')
  then show ?case by (blast intro: leave_inv)
next
  case (step_other s p f)
  then show ?case using run_inv_step policy_step_cfg [OF step_other(1)] by (auto simp: relay_inv_def)
qed (auto simp: relay_inv_def)

lemma relay_init_inv: "relay_init s \<Longrightarrow> relay_inv idna s"
proof -
  assume i: "relay_init s"
  then have "run_inv (rpolicy s, rinflight s)" using policy_run.inv_init by (simp add: relay_init_def)
  moreover from policy_invD(1) [OF run_inv_policyD [OF this]] have "policy_config_ok (cfg (rpolicy s))" .
  ultimately show ?thesis
    using i by (auto simp: relay_init_def relay_inv_def quota_ok_def new_quota_def tallies_empty dict_simps policy_config_ok_def)
qed

interpretation relay_run: invariant_machine relay_init "relay_step idna" "relay_inv idna" for idna
  by unfold_locales (auto intro: relay_init_inv relay_inv_step)

section \<open>A worker ends\<close>

text \<open>How many own steps a worker still has before it leaves, at most.\<close>

fun remaining :: "worker_pc \<Rightarrow> nat" where
  "remaining Started = 12" | "remaining HelloRead = 11" | "remaining Opening = 10" | "remaining Bound = 9"
| "remaining (Registering _) = 8" | "remaining Connecting = 7" | "remaining Activating = 6" | "remaining Relaying = 5"
| "remaining (Raised _) = 4" | "remaining Releasing = 3" | "remaining Revoking = 2" | "remaining Closing = 1"

lemmas handle_client_steps = handle_client_def worker_read_def worker_promote_def worker_open_def
  worker_register_def worker_commit_def worker_connect_def worker_activate_def worker_except_def
  worker_release_def worker_revoke_def

lemma handle_client_decreases:
  "handle_client idna a w s = (Some w', s') \<Longrightarrow> remaining (w_pc w') < remaining (w_pc w)"
  by (cases "w_pc w")
    (auto simp: handle_client_steps set_pc_def Let_def map_prod_def split: sum.splits prod.splits if_splits bool.splits)

lemma handle_client_pc:
  "handle_client idna a w s = (Some w', s') \<Longrightarrow>
    (w_pc w' = Closing \<longrightarrow> w_pc w = Revoking) \<and> (w_pc w' = Revoking \<longrightarrow> w_pc w = Releasing)"
  by (cases "w_pc w")
    (auto simp: handle_client_steps set_pc_def Let_def map_prod_def split: sum.splits prod.splits if_splits bool.splits)

text \<open>The steps of one worker, with whatever answers and whatever state the others have left.\<close>

fun run_worker :: "idna_codec \<Rightarrow> (answers \<times> relay) list \<Rightarrow> worker \<Rightarrow> worker option" where
  "run_worker idna [] w = Some w"
| "run_worker idna ((a, s) # rest) w = (case fst (handle_client idna a w s) of
       None \<Rightarrow> None | Some w' \<Rightarrow> run_worker idna rest w')"

lemma run_worker_ends: "remaining (w_pc w) \<le> length steps \<Longrightarrow> run_worker idna steps w = None"
proof (induction steps arbitrary: w)
  case Nil
  then show ?case by (cases "w_pc w") auto
next
  case (Cons e steps)
  obtain a s where e: "e = (a, s)" by force
  show ?case
  proof (cases "handle_client idna a w s")
    case (Pair r s')
    show ?thesis
    proof (cases r)
      case None
      then show ?thesis by (simp add: e Pair)
    next
      case (Some w')
      have "remaining (w_pc w') < remaining (w_pc w)" using handle_client_decreases Pair Some by blast
      with Cons show ?thesis by (simp add: e Pair Some)
    qed
  qed
qed

section \<open>A concrete run\<close>

definition demo_relay :: relay where
  "demo_relay = \<lparr>quota = new_quota, rpolicy = demo_p0, rinflight = [], rstop = False, rquiesce = False,
     accepting = Waiting, rworkers = [], next_worker = 0, upstreams = []\<rparr>"

text \<open>The bytes of \<open>example.com\<close>.\<close>

definition demo_host :: "byte list" where
  "demo_host = [101, 120, 97, 109, 112, 108, 101, 46, 99, 111, 109]"

definition demo_answers :: answers where
  "demo_answers = \<lparr>a_now = 103, a_now2 = 103, a_peer = (''192.168.56.10'', 49200), a_recv = [Inr (hello_for demo_host)],
     a_clock = (\<lambda>_. 104), a_source = Inr ''192.168.56.10'', a_bind = Inr 51000, a_token = ''t1'',
     a_connect = Inr (), a_relay = Inr ()\<rparr>"

definition demo_accepted :: relay where
  "demo_accepted = accept_loop demo_answers (accept_loop demo_answers (accept_loop demo_answers
     (demo_relay\<lparr>rpolicy := demo_p2\<rparr>)))"

lemma demo_relay_init: "relay_init demo_relay"
  using demo_reach(1) by (simp add: relay_init_def demo_relay_def)

lemma lift_policy_steps:
  "policy_step\<^sup>*\<^sup>* x y \<Longrightarrow> x = (rpolicy s, rinflight s) \<Longrightarrow>
    (relay_step idna)\<^sup>*\<^sup>* s (s\<lparr>rpolicy := fst y, rinflight := snd y\<rparr>)"
proof (induction rule: rtranclp_induct)
  case base
  then show ?case by simp
next
  case (step y z)
  let ?t = "s\<lparr>rpolicy := fst y, rinflight := snd y\<rparr>"
  have "relay_step idna ?t (?t\<lparr>rpolicy := fst z, rinflight := snd z\<rparr>)"
    by (rule step_other) (use step.hyps(2) in simp)
  then have "relay_step idna ?t (s\<lparr>rpolicy := fst z, rinflight := snd z\<rparr>)" by simp
  with step.IH [OF step.prems] show ?case by (rule rtranclp.rtrancl_into_rtrancl)
qed

lemma demo_accepted_reach: "(relay_step idna)\<^sup>*\<^sup>* demo_relay demo_accepted"
proof -
  have "(relay_step idna)\<^sup>*\<^sup>* demo_relay (demo_relay\<lparr>rpolicy := demo_p2, rinflight := []\<rparr>)"
    using lift_policy_steps [OF demo_reach(3), of demo_relay idna] by (simp add: demo_relay_def)
  moreover have "demo_relay\<lparr>rpolicy := demo_p2, rinflight := []\<rparr> = demo_relay\<lparr>rpolicy := demo_p2\<rparr>"
    by (simp add: demo_relay_def)
  moreover have "(relay_step idna)\<^sup>*\<^sup>* s (accept_loop a s)" for s a
    by (rule r_into_rtranclp) (rule step_accept)
  ultimately show ?thesis unfolding demo_accepted_def by (metis rtranclp_trans)
qed

text \<open>What the policy answers along the run.\<close>

definition demo_policy :: policy where
  "demo_policy = snd (consume_relay_target 103 ''192.168.56.10'' 49200 demo_p2)"

definition demo_target :: RelayNatMapping where
  "demo_target = demo_mapping\<lparr>created_at := 102, expires_at := 113, consumed := True\<rparr>"

lemma demo_cfg [simp]: "cfg demo_p2 = demo_policy_config" "cfg demo_policy = demo_policy_config"
  by (simp_all add: demo_policy_def demo_p2_def demo_p1_def demo_p0_def new_policy_def)

lemma demo_consume: "consume_relay_target 103 ''192.168.56.10'' 49200 demo_p2 = (Some demo_target, demo_policy)"
proof -
  have "fst (consume_relay_target 103 ''192.168.56.10'' 49200 demo_p2) = Some demo_target"
    by (simp add: consume_relay_target_def nat_consume_def demo_p2_def demo_p1_def demo_p0_def demo_target_def
        demo_mapping_def policy_eval)
  then show ?thesis by (simp add: demo_policy_def prod_eq_iff)
qed

lemma demo_check: "check_control_flow (\<lambda>_. None) 103 ''tls_relay'' ''TCP'' ''192.168.56.10'' ''93.184.216.34'' 443
    (Some ''example.com'') (Some 1) demo_policy = (Inr (''tls_relay'', ''example.com'', Some 1), cleanup_locked 103 demo_policy)"
  by (simp add: demo_policy_def consume_relay_target_def nat_consume_def demo_p2_def demo_p1_def demo_p0_def
      relay_flow_valid_def permit_name_def normalize_hostname_def policy_eval)

lemma demo_flow_commit: "fst (commit_control_flow ''t1'' ''tls_relay'' ''example.com'' (Some 1) key e (cleanup_locked 103 demo_policy)) =
    Inr ''t1''"
  by (simp add: demo_policy_def consume_relay_target_def nat_consume_def demo_p2_def demo_p1_def demo_p0_def policy_eval)

lemma demo_local: "is_local_address demo_p2 ''192.168.56.10''"
  by (simp add: is_local_address_def demo_p2_def demo_p1_def demo_p0_def policy_eval)

lemma demo_accepted_eq:
  "demo_accepted = demo_relay\<lparr>rpolicy := demo_policy, quota := new_quota\<lparr>r_pending := 1,
     r_pending_by_source := [(''192.168.56.10'', 1)], new_flow_rate := [(''192.168.56.10'', [103])]\<rparr>,
     rworkers := [(0, new_worker ''192.168.56.10'' 49200 demo_target)], next_worker := 1\<rparr>"
  by (simp add: demo_accepted_def demo_relay_def demo_answers_def accept_loop_def accept_client_def demo_local
      accept_consume_def demo_consume accept_start_def allow_new_flow_rate_def acquire_pending_def new_quota_def
      demo_policy_config_def py_eval)

text \<open>The worker's next step.\<close>

definition demo_next :: "relay \<Rightarrow> relay" where
  "demo_next s = (case dget (rworkers s) 0 of
       None \<Rightarrow> s
     | Some w \<Rightarrow> (case handle_client (\<lambda>_. None) demo_answers w s of
           (Some w', s') \<Rightarrow> s'\<lparr>rworkers := dset 0 w' (rworkers s)\<rparr>
         | (None, s') \<Rightarrow> s'\<lparr>rworkers := ddel 0 (rworkers s)\<rparr>))"

definition demo_connected :: relay where
  "demo_connected = (demo_next ^^ 6) demo_accepted"

lemma demo_next_reach: "(relay_step (\<lambda>_. None))\<^sup>*\<^sup>* s ((demo_next ^^ n) s)"
proof (induction n)
  case (Suc n)
  have "(relay_step (\<lambda>_. None))\<^sup>*\<^sup>* t (demo_next t)" for t
    by (auto simp: demo_next_def split: option.split prod.split intro: r_into_rtranclp step_worker step_leave)
  with Suc show ?case by (auto intro: rtranclp_trans)
qed simp

lemma demo_hello: "is_client_hello idna (hello_for demo_host) ''example.com''"
proof (rule hello_for_valid)
  have "map char_of [101, 120, 97, 109, 112, 108, 101, 46, 99, 111, 109 :: nat] = ''example.com''" by code_simp
  then show "decode_ascii demo_host = Some ''example.com''" by (simp add: decode_ascii_def demo_host_def)
qed (simp_all add: hostname_wf_def demo_host_def py_eval)

lemma demo_read: "fst (read_client_hello idna 65536 (103 + of_int 5) scripted (\<lambda>_. 104) 0 [Inr (hello_for demo_host)] []) =
    Inr (hello_for demo_host, ''example.com'')"
proof -
  have "parse_client_hello idna (hello_for demo_host) = Inr (HelloOk ''example.com'')"
    using demo_hello by (simp add: client_hello_iff)
  moreover have "hello_for demo_host \<noteq> []" by (simp flip: length_0_conv add: length_hello_for)
  ultimately show ?thesis by (subst read_client_hello.simps) (simp add: scripted_def)
qed

lemma funpow_6: "(f ^^ 6) x = f (f (f (f (f (f x)))))"
  by (simp add: numeral_eq_Suc)

lemma demo_next_eq:
  "rworkers s = [(0, w)] \<Longrightarrow> handle_client (\<lambda>_. None) demo_answers w s = (Some w', s') \<Longrightarrow>
    demo_next s = s'\<lparr>rworkers := [(0, w')]\<rparr>"
  by (simp add: demo_next_def py_eval)

lemma demo_connected_upstream: "\<exists>w. upstreams demo_connected = [(w, ''t1'')] \<and> w_mapping w = demo_target"
proof -
  let ?w0 = "new_worker ''192.168.56.10'' 49200 demo_target" and ?h = "hello_for demo_host"
  let ?w1 = "?w0\<lparr>w_sni := Some ''example.com'', w_buffered := ?h, w_pc := HelloRead\<rparr>"
  let ?w2 = "?w1\<lparr>w_pending := False, w_active := True, w_pc := Opening\<rparr>"
  let ?w3 = "?w2\<lparr>w_local := (''192.168.56.10'', 51000), w_pc := Bound\<rparr>"
  let ?w4 = "?w3\<lparr>w_pc := Registering (''tls_relay'', ''example.com'', Some 1)\<rparr>"
  let ?w5 = "?w4\<lparr>w_token := Some ''t1'', w_pc := Connecting\<rparr>"
  have target: "m_domain demo_target = ''example.com''" "server_ip demo_target = ''93.184.216.34''"
    "server_port demo_target = 443" "generation demo_target = 1"
    by (simp_all add: demo_target_def demo_mapping_def)
  have lims: "hello_max_bytes demo_policy_config = 65536" "hello_timeout demo_policy_config = 5"
    "max_active demo_policy_config = 128" "max_active_per_source demo_policy_config = 16"
    by (simp_all add: demo_policy_config_def)
  define s0 where "s0 = demo_accepted"
  have s0: "rworkers s0 = [(0, ?w0)]" "rpolicy s0 = demo_policy" "\<not> rstop s0" "upstreams s0 = []"
    "r_active (quota s0) = 0" "r_active_by_source (quota s0) = []"
    by (simp_all add: s0_def demo_accepted_eq demo_relay_def new_quota_def)
  define s1 where "s1 = s0\<lparr>rworkers := [(0, ?w1)]\<rparr>"
  have "handle_client (\<lambda>_. None) demo_answers ?w0 s0 = (Some ?w1, s0)"
    by (simp add: handle_client_def worker_read_def s0 lims new_worker_def demo_answers_def
        demo_read [simplified] Let_def)
  from demo_next_eq [OF s0(1) this] have n1: "demo_next s0 = s1" by (simp add: s1_def)
  define q where "q = snd (promote_active demo_policy_config ''192.168.56.10'' (quota s0))"
  define s2 where "s2 = s0\<lparr>quota := q, rworkers := [(0, ?w2)]\<rparr>"
  have "promote_active demo_policy_config ''192.168.56.10'' (quota s0) = (True, q)"
    using s0(5,6) by (simp add: q_def promote_active_def Let_def lims release_pending_locked_def dict_simps)
  then have "handle_client (\<lambda>_. None) demo_answers ?w1 s1 = (Some ?w2, s1\<lparr>quota := q\<rparr>)"
    by (simp add: handle_client_def worker_promote_def s1_def s0 new_worker_def target)
  from demo_next_eq [OF _ this] have n2: "demo_next s1 = s2" by (simp add: s1_def s2_def)
  define s3 where "s3 = s2\<lparr>rworkers := [(0, ?w3)]\<rparr>"
  have "handle_client (\<lambda>_. None) demo_answers ?w2 s2 = (Some ?w3, s2)"
    by (simp add: handle_client_def worker_open_def s2_def s0 demo_answers_def)
  from demo_next_eq [OF _ this] have n3: "demo_next s2 = s3" by (simp add: s2_def s3_def)
  define s4 where "s4 = s3\<lparr>rpolicy := cleanup_locked 103 demo_policy, rworkers := [(0, ?w4)]\<rparr>"
  have "handle_client (\<lambda>_. None) demo_answers ?w3 s3 = (Some ?w4, s3\<lparr>rpolicy := cleanup_locked 103 demo_policy\<rparr>)"
    by (simp add: handle_client_def worker_register_def s3_def s2_def s0 demo_answers_def target new_worker_def
        demo_check Let_def set_pc_def)
  from demo_next_eq [OF _ this] have n4: "demo_next s3 = s4" by (simp add: s3_def s4_def)
  obtain p where p: "commit_control_flow ''t1'' ''tls_relay'' ''example.com'' (Some 1) (worker_key ?w4)
      (103 + of_int (max 1 (relay_idle_timeout demo_policy_config + 30))) (cleanup_locked 103 demo_policy) = (Inr ''t1'', p)"
    using demo_flow_commit by (metis prod.collapse)
  then have "handle_client (\<lambda>_. None) demo_answers ?w4 s4 = (Some ?w5, s4\<lparr>rpolicy := p\<rparr>)"
    by (simp add: handle_client_def worker_commit_def s4_def demo_answers_def)
  from demo_next_eq [OF _ this] have n5: "demo_next s4 = s4\<lparr>rpolicy := p, rworkers := [(0, ?w5)]\<rparr>" by (simp add: s4_def)
  have "upstreams (demo_next (s4\<lparr>rpolicy := p, rworkers := [(0, ?w5)]\<rparr>)) = [(?w5, ''t1'')]"
    by (simp add: demo_next_def handle_client_def worker_connect_def demo_answers_def s4_def s3_def s2_def s0 set_pc_def
        Let_def dget_def)
  then have "upstreams ((demo_next ^^ 6) s0) = [(?w5, ''t1'')]"
    unfolding funpow_6 n1 n2 n3 n4 n5 .
  then show ?thesis by (simp add: demo_connected_def s0_def new_worker_def)
qed

section \<open>Properties\<close>

lemma size_holders: "size (holders P d) = length (filter P (dvals d))"
proof -
  have "size (sum_mset (image_mset (slots P) (mset xs))) = length (filter P xs)" for xs
    by (induction xs) (auto simp: slots_def)
  then show ?thesis by (simp add: holders_def)
qed

text \<open>C11. The relay's quotas are exact and never leak a slot: in every state any interleaving of the accept
  loop, the workers, stop, quiesce and the rest of the program reaches, the counters equal the number of
  workers that hold a pending or an active slot and stay within the limits, in total and per source address;
  and when no worker is left, however they ended, every counter is zero and both tables are empty.\<close>

theorem relay_slots_exact:
  assumes "relay_init s" and "(relay_step idna)\<^sup>*\<^sup>* s t" and "q = quota t"
  shows "r_pending q = int (length (filter w_pending (dvals (rworkers t)))) \<and> r_pending q \<le> 256 \<and>
    r_active q = int (length (filter w_active (dvals (rworkers t)))) \<and> r_active q \<le> 128 \<and>
    cget (r_pending_by_source q) source \<le> 32 \<and> cget (r_active_by_source q) source \<le> 16 \<and>
    (rworkers t = [] \<longrightarrow> q = new_quota\<lparr>new_flow_rate := new_flow_rate q\<rparr>)"
proof -
  have inv: "relay_inv idna t" using assms(1,2) by (rule relay_run.reachable_inv)
  then have q: "quota_ok (cfg (rpolicy t)) q (rworkers t)" by (simp add: relay_inv_def assms(3))
  have c: "policy_config_ok (cfg (rpolicy t))" using policy_invD(1) [OF inv_policy [OF inv]] .
  have "q = new_quota\<lparr>new_flow_rate := new_flow_rate q\<rparr>" if "rworkers t = []"
    using q that by (cases q) (simp add: quota_ok_def tallies_empty new_quota_def)
  with q c show ?thesis by (auto simp: quota_ok_def tallies_def size_holders policy_config_ok_def)
qed

theorem relay_slots_exact_witness:
  "r_pending (quota demo_accepted) = 1 \<and> r_pending (quota demo_accepted) = int (length (filter w_pending (dvals (rworkers demo_accepted))))"
  using relay_slots_exact [OF demo_relay_init demo_accepted_reach [of Some] refl]
  by (simp add: demo_accepted_eq)





end
