(* ===== verification/DnsResolver.thy ===== *)
theory DnsResolver
  imports EgressRuns StateExn
begin

text \<open>
  The DNS listener (\<open>fakenet/listeners/DNSListener.py\<close>): which queries are answered how, the controlled
  resolution of allowed names through the configured upstream server, the validation of its answer and
  the leases it installs in the egress policy. Messages are what \<open>dnslib\<close> makes of the bytes; names and
  addresses are their texts. The upstream server, the sockets and the network interfaces are parameters.
\<close>

section \<open>Messages\<close>

text \<open>The record types by their numbers, as \<open>dnslib.QTYPE\<close> has them.\<close>

abbreviation (input) "type_A \<equiv> 1 :: int"
abbreviation (input) "type_NS \<equiv> 2 :: int"
abbreviation (input) "type_CNAME \<equiv> 5 :: int"
abbreviation (input) "type_MX \<equiv> 15 :: int"
abbreviation (input) "type_TXT \<equiv> 16 :: int"
abbreviation (input) "type_AAAA \<equiv> 28 :: int"

record dns_question =
  q_name :: string
  q_type :: int
  q_class :: int

text \<open>\<open>rr_text\<close> is \<open>str(rr.rdata)\<close> and \<open>rr_label\<close> the name in the data of a CNAME or NS record.\<close>

record dns_rr =
  rr_name :: string
  rr_type :: int
  rr_ttl :: int
  rr_text :: string
  rr_label :: string

record dns_message =
  dns_id :: int
  dns_qr :: int
  dns_opcode :: int
  dns_rcode :: int
  dns_tc :: int
  dns_rd :: int
  questions :: "dns_question list"
  dns_answers :: "dns_rr list"
  dns_auth :: "dns_rr list"
  dns_ar :: "dns_rr list"

datatype answer = CnameAnswer string int string | AddressAnswer string int string | OtherAnswer string int string

record dns_response =
  resp_id :: int
  resp_aa :: bool
  resp_rd :: int
  resp_rcode :: int
  resp_question :: dns_question
  resp_answers :: "answer list"

definition first_question :: "dns_message \<Rightarrow> dns_question" where
  "first_question m = (case questions m of q # _ \<Rightarrow> q | [] \<Rightarrow> \<lparr>q_name = ''.'', q_type = type_A, q_class = 1\<rparr>)"

definition reply_to :: "dns_message \<Rightarrow> bool \<Rightarrow> int \<Rightarrow> answer list \<Rightarrow> dns_response" where
  "reply_to d aa rcode answers = \<lparr>resp_id = dns_id d, resp_aa = aa, resp_rd = dns_rd d, resp_rcode = rcode,
     resp_question = first_question d, resp_answers = answers\<rparr>"

definition empty_response :: "dns_message \<Rightarrow> dns_response" where
  "empty_response d = reply_to d False 0 []"

definition error_response :: "dns_message \<Rightarrow> int \<Rightarrow> dns_response" where
  "error_response d rcode = reply_to d False rcode []"

section \<open>Validation of the upstream answer\<close>

definition norm_name :: "idna_codec \<Rightarrow> string \<Rightarrow> string result" where
  "norm_name idna value = (case encode_idna idna (rev (dropWhile (\<lambda>c. c = CHR ''.'') (rev value))) of
       None \<Rightarrow> Inl (ValueError ''label empty or too long'')
     | Some ace \<Rightarrow> Inr (lower ace))"

definition validate_upstream_header :: "idna_codec \<Rightarrow> dns_message \<Rightarrow> dns_message \<Rightarrow> int \<Rightarrow> unit result" where
  "validate_upstream_header idna response request upstream_id =
     (if dns_id response \<noteq> upstream_id \<or> dns_qr response \<noteq> 1
      then Inl (ValueError ''upstream DNS transaction mismatch'')
      else if dns_rcode response \<noteq> 0 then Inl (ValueError ''upstream DNS returned an error'')
      else if length (questions response) \<noteq> 1 then Inl (ValueError ''upstream DNS question count mismatch'')
      else ebind (norm_name idna (q_name (first_question response))) (\<lambda>name.
           ebind (norm_name idna (q_name (first_question request))) (\<lambda>asked.
           if name \<noteq> asked \<or> q_type (first_question response) \<noteq> type_A
           then Inl (ValueError ''upstream DNS question mismatch'') else Inr ())))"

type_synonym cname_table = "(string, string \<times> int) dict"
type_synonym address_table = "(string, (string \<times> int) list) dict"

definition collect_answer :: "idna_codec \<Rightarrow> dns_rr \<Rightarrow> cname_table \<times> address_table \<Rightarrow> (cname_table \<times> address_table) result" where
  "collect_answer idna rr = (\<lambda>(cnames, addresses).
     ebind (norm_name idna (rr_name rr)) (\<lambda>owner.
     if rr_type rr = type_CNAME then
       (if dget cnames owner \<noteq> None then Inl (ValueError ''multiple CNAME records for one owner'')
        else ebind (norm_name idna (rr_label rr)) (\<lambda>target. Inr (dset owner (target, rr_ttl rr) cnames, addresses)))
     else if rr_type rr = type_A then
       Inr (cnames, dset owner ((case dget addresses owner of None \<Rightarrow> [] | Some xs \<Rightarrow> xs) @ [(rr_text rr, rr_ttl rr)]) addresses)
     else Inl (ValueError ''unexpected answer type'')))"

text \<open>The loop over the CNAME table; the owners of the chain are the set \<open>visited\<close>.\<close>

function follow_cnames :: "cname_table \<Rightarrow> string \<Rightarrow> (string \<times> string \<times> int) list \<Rightarrow>
    (string \<times> (string \<times> string \<times> int) list) result" where
  "follow_cnames cnames current chain = (case dget cnames current of
       None \<Rightarrow> Inr (current, chain)
     | Some (target, ttl) \<Rightarrow>
         if current \<in> fst ` set chain \<or> length chain \<ge> 16 then Inl (ValueError ''CNAME loop or excessive chain'')
         else follow_cnames cnames target (chain @ [(current, target, ttl)]))"
  by pat_completeness auto

termination
  by (relation "measure (\<lambda>(_, _, chain). 16 - length chain)") auto

declare follow_cnames.simps [simp del]

definition check_owners :: "cname_table \<Rightarrow> address_table \<Rightarrow> string \<Rightarrow> string list \<Rightarrow> unit result" where
  "check_owners cnames addresses current relevant =
     (if list_ex (\<lambda>owner. owner \<notin> set relevant) (dkeys cnames) \<or> list_ex (\<lambda>owner. owner \<noteq> current) (dkeys addresses)
      then Inl (ValueError ''unrelated DNS answer owner'') else Inr ())"

definition collect_glue :: "idna_codec \<Rightarrow> string list \<Rightarrow> dns_rr \<Rightarrow> string list \<Rightarrow> string list result" where
  "collect_glue idna relevant rr glue_names =
     (if rr_type rr \<noteq> type_NS then Inr glue_names
      else ebind (norm_name idna (rr_name rr)) (\<lambda>owner.
        if list_ex (\<lambda>name. name \<noteq> owner \<and> (owner = [] \<or> ends_with name (CHR ''.'' # owner))) relevant
        then ebind (norm_name idna (rr_label rr)) (\<lambda>label. Inr (label # glue_names)) else Inr glue_names))"

definition global_version4 :: "string \<Rightarrow> bool result" where
  "global_version4 address = (case ip_address address of
       None \<Rightarrow> Inl (ValueError ''not an IP address'')
     | Some (IPv4 w) \<Rightarrow> Inr (is_global w)
     | Some (IPv6 _) \<Rightarrow> Inr False)"

definition check_additional :: "idna_codec \<Rightarrow> string list \<Rightarrow> string list \<Rightarrow> dns_rr \<Rightarrow> unit \<Rightarrow> unit result" where
  "check_additional idna relevant glue_names rr u =
     (if rr_type rr = type_CNAME then Inl (ValueError ''address injection outside answer section'')
      else if rr_type rr = type_A then
        ebind (norm_name idna (rr_name rr)) (\<lambda>owner.
        ebind (global_version4 (rr_text rr)) (\<lambda>ok.
        if owner \<notin> set glue_names \<or> owner \<in> set relevant \<or> \<not> ok
        then Inl (ValueError ''address injection outside answer section'') else Inr ()))
      else Inr ())"

definition effective_record :: "int list \<Rightarrow> string \<times> int \<Rightarrow> (string \<times> int) list \<Rightarrow> (string \<times> int) list result" where
  "effective_record chain_ttls = (\<lambda>(address, ttl) records.
     ebind (global_version4 address) (\<lambda>ok.
     if \<not> ok then Inl (ValueError ''upstream returned non-global IPv4'')
     else (let effective_ttl = fold min chain_ttls ttl in
       Inr (if effective_ttl \<le> 0 then records else records @ [(address, effective_ttl)]))))"

text \<open>Lines 406 to 477: what the answer amounts to: the end of the CNAME chain, the chain, whether an
  address was given, and the usable records.\<close>

definition validate_answer :: "idna_codec \<Rightarrow> dns_message \<Rightarrow> string \<Rightarrow>
    (string \<times> (string \<times> string \<times> int) list \<times> bool \<times> (string \<times> int) list) result" where
  "validate_answer idna upstream qname =
     (if list_ex (\<lambda>rr. rr_type rr = type_A \<or> rr_type rr = type_CNAME) (dns_auth upstream)
      then Inl (ValueError ''address injection outside answer section'')
      else ebind (efold (collect_answer idna) (dns_answers upstream) ([], [])) (\<lambda>(cnames, addresses).
           ebind (norm_name idna qname) (\<lambda>start.
           ebind (follow_cnames cnames start []) (\<lambda>(current, chain).
           let relevant = map fst chain @ [current] in
           ebind (check_owners cnames addresses current relevant) (\<lambda>_.
           ebind (efold (collect_glue idna relevant) (dns_auth upstream) []) (\<lambda>glue_names.
           ebind (efold (check_additional idna relevant glue_names) (dns_ar upstream) ()) (\<lambda>_.
           let given = (case dget addresses current of None \<Rightarrow> [] | Some xs \<Rightarrow> xs) in
           ebind (efold (effective_record (map (\<lambda>(_, _, ttl). ttl) chain)) given []) (\<lambda>records.
           Inr (current, chain, given \<noteq> [], records)))))))))"

type_synonym 'a policy_act = "(policy, 'a) act"

definition validate_and_synthesize :: "idna_codec \<Rightarrow> time \<Rightarrow> dns_message \<Rightarrow> dns_message \<Rightarrow> string \<Rightarrow> string \<Rightarrow>
    dns_response policy_act" where
  "validate_and_synthesize idna now request upstream qname allowed_root =
     (case validate_answer idna upstream qname of
        Inl e \<Rightarrow> sraise e
      | Inr (current, chain, given, records) \<Rightarrow>
          (let response = reply_to request False 0
               (map (\<lambda>(owner, target, ttl). CnameAnswer owner ttl target) chain @
                map (\<lambda>(address, ttl). AddressAnswer current ttl address) records);
               least = foldr min (map (\<lambda>(_, _, ttl). ttl) (tl chain)) (snd (snd (hd chain))) in
           if records \<noteq> [] then sbind (replace_leases idna now allowed_root records) (\<lambda>_. sret response)
           else if given then sraise (ValueError ''upstream answer has no positive-TTL A record'')
           else if chain \<noteq> [] then
             (if least > 0 then sbind (register_alias idna now allowed_root current least) (\<lambda>_. sret response)
              else sret response)
           else sraise (ValueError ''upstream answer has no CNAME or A record'')))"

section \<open>The upstream query\<close>

text \<open>What the system answers in one exchange: the source address for the route, the port of the bound
  socket, the token, the clock and the reply (or what connecting, sending and receiving raised).\<close>

record exchange =
  x_source :: "string result"
  x_bind :: "int result"
  x_token :: string
  x_now :: time
  x_now2 :: time
  x_reply :: "dns_message result"

definition query_upstream_proto :: "idna_codec \<Rightarrow> string \<Rightarrow> exchange \<Rightarrow> dns_message policy_act" where
  "query_upstream_proto idna proto x =
     sbind (of_result (x_source x)) (\<lambda>source.
     sbind (of_result (x_bind x)) (\<lambda>port.
     sbind (sget cfg) (\<lambda>c.
     sbind (register_control_flow idna (x_now x) (x_now2 x) (x_token x) ''dns'' proto source port
              (external_dns_server c) 53 None (dns_timeout c + 2) None) (\<lambda>token.
     sfinally (of_result (x_reply x)) (revoke_control_flow token)))))"

definition query_upstream :: "idna_codec \<Rightarrow> dns_message \<Rightarrow> int \<Rightarrow> exchange \<Rightarrow> exchange \<Rightarrow> dns_message policy_act" where
  "query_upstream idna request upstream_id udp tcp =
     sbind (query_upstream_proto idna ''UDP'' udp) (\<lambda>parsed.
     sbind (of_result (validate_upstream_header idna parsed request upstream_id)) (\<lambda>_.
     if dns_tc parsed \<noteq> 0 then
       sbind (query_upstream_proto idna ''TCP'' tcp) (\<lambda>parsed.
       sbind (of_result (validate_upstream_header idna parsed request upstream_id)) (\<lambda>_. sret parsed))
     else sret parsed))"

definition resolve_allowed_a :: "idna_codec \<Rightarrow> time \<Rightarrow> dns_message \<Rightarrow> string \<Rightarrow> string \<Rightarrow> int \<Rightarrow> exchange \<Rightarrow> exchange \<Rightarrow>
    dns_response policy_act" where
  "resolve_allowed_a idna now request qname allowed_root upstream_id udp tcp =
     scatch (sbind (query_upstream idna request upstream_id udp tcp) (\<lambda>upstream.
               validate_and_synthesize idna now request upstream qname allowed_root))
       (\<lambda>_. sret (error_response request 2))"

section \<open>Queries\<close>

text \<open>The configuration of the listener and its counter of queries still to be left unanswered.\<close>

record dns_server =
  responsea :: "string option"
  responsemx :: string
  responsetxt :: string
  nxdomains :: int

record dns_state =
  d_policy :: policy
  d_server :: dns_server

text \<open>What the system answers while one query is handled. \<open>interfaces\<close> are the links of each interface, with
  their address where there is one, \<open>None\<close> for an interface without IPv4; \<open>rdata_ok\<close> says which texts
  \<open>dnslib\<close> accepts as data of a record.\<close>

record dns_env =
  e_client :: string
  e_clock :: time
  e_clock2 :: time
  e_id :: int
  e_udp :: exchange
  e_tcp :: exchange
  interfaces :: "string option list option list"
  hostbyname :: "string result"
  rdata_ok :: "int \<Rightarrow> string \<Rightarrow> bool"

type_synonym 'a dns_act = "(dns_state, 'a) act"

definition on_dns_policy :: "'a policy_act \<Rightarrow> 'a dns_act" where
  "on_dns_policy m s = (case m (d_policy s) of (r, p) \<Rightarrow> (r, s\<lparr>d_policy := p\<rparr>))"

text \<open>The inner loop stops at the first address outside 127.0.0.0/8, the outer one does not.\<close>

fun first_outside :: "string option list \<Rightarrow> string \<Rightarrow> string" where
  "first_outside [] found = found"
| "first_outside (None # links) found = first_outside links found"
| "first_outside (Some addr # links) found = (if starts_with addr ''127.'' then first_outside links found else addr)"

definition first_non_loopback :: "string option list option list \<Rightarrow> string \<Rightarrow> string result" where
  "first_non_loopback ifaces fake =
     efold (\<lambda>links found. case links of None \<Rightarrow> Inl (KeyError ''AF_INET'') | Some ls \<Rightarrow> Inr (first_outside ls found)) ifaces fake"

definition fake_address :: "dns_env \<Rightarrow> dns_server \<Rightarrow> string \<Rightarrow> string result" where
  "fake_address ev srv qname =
     (let fake = (if contains qname ''dns.msftncsi.com'' then Some ''131.107.255.225'' else responsea srv) in
      case fake of
        None \<Rightarrow> hostbyname ev
      | Some f \<Rightarrow> if f = ''GetFirstNonLoopback'' then first_non_loopback (interfaces ev) f
          else if f = ''GetHostByName'' then hostbyname ev else Inr f)"

definition fake_reply :: "dns_env \<Rightarrow> dns_message \<Rightarrow> answer list \<Rightarrow> dns_response dns_act" where
  "fake_reply ev d answers = sret (reply_to d True (dns_rcode d) answers)"

definition fake_a :: "dns_env \<Rightarrow> dns_message \<Rightarrow> string \<Rightarrow> dns_response dns_act" where
  "fake_a ev d qname = sbind (sget d_server) (\<lambda>srv.
     sbind (of_result (fake_address ev srv qname)) (\<lambda>fake.
     if nxdomains srv > 0 then
       sbind (smod (\<lambda>s. s\<lparr>d_server := (d_server s)\<lparr>nxdomains := nxdomains (d_server s) - 1\<rparr>\<rparr>)) (\<lambda>_. fake_reply ev d [])
     else if rdata_ok ev type_A fake then fake_reply ev d [AddressAnswer qname 0 fake]
     else sraise (ValueError ''A record'')))"

definition fake_mx :: "dns_env \<Rightarrow> dns_message \<Rightarrow> string \<Rightarrow> dns_response dns_act" where
  "fake_mx ev d qname = sbind (sget d_server) (\<lambda>srv.
     if responsemx srv = [] then sraise IndexError
     else (let fake = (if last (responsemx srv) = CHR ''.'' then butlast (responsemx srv) else responsemx srv) in
       if rdata_ok ev type_MX fake then fake_reply ev d [OtherAnswer qname type_MX fake] else sraise (ValueError ''MX record'')))"

definition fake_txt :: "dns_env \<Rightarrow> dns_message \<Rightarrow> string \<Rightarrow> dns_response dns_act" where
  "fake_txt ev d qname = sbind (sget d_server) (\<lambda>srv.
     if rdata_ok ev type_TXT (responsetxt srv) then fake_reply ev d [OtherAnswer qname type_TXT (responsetxt srv)]
     else sraise (ValueError ''TXT record''))"

definition fake_response :: "dns_env \<Rightarrow> dns_message \<Rightarrow> string \<Rightarrow> dns_response dns_act" where
  "fake_response ev d qname = (let qtype = q_type (first_question d) in
     if qtype = type_A then fake_a ev d qname
     else if qtype = type_MX then fake_mx ev d qname
     else if qtype = type_TXT then fake_txt ev d qname
     else fake_reply ev d [])"

definition takeover_response :: "dns_env \<Rightarrow> dns_message \<Rightarrow> policy \<Rightarrow> dns_response dns_act" where
  "takeover_response ev d p = (case (takeover_ipv4 (cfg p), takeover_dns_ttl (cfg p)) of
       (Some ip, Some ttl) \<Rightarrow> sret (reply_to d True 0 [AddressAnswer (q_name (first_question d)) ttl ip])
     | _ \<Rightarrow> sraise (ValueError ''A record''))"

text \<open>With an egress policy: the answer by the rule of the name, or \<open>None\<close> when the fake one follows. A rule
  is a name that is not empty.\<close>

definition rule_response :: "idna_codec \<Rightarrow> dns_env \<Rightarrow> dns_message \<Rightarrow> string \<Rightarrow> string option \<Rightarrow> dns_response option dns_act" where
  "rule_response idna ev d qname rule =
     (let qtype = q_type (first_question d); allowed = (rule \<noteq> None \<and> rule \<noteq> Some []) in
      if allowed \<and> qtype = type_A then
        sbind (on_dns_policy (resolve_allowed_a idna (e_clock2 ev) d qname (the rule) (e_id ev) (e_udp ev) (e_tcp ev)))
          (\<lambda>r. sret (Some r))
      else if allowed \<and> qtype = type_AAAA then sret (Some (empty_response d))
      else sbind (sget d_policy) (\<lambda>p.
        if takeover_enabled (cfg p) \<and> qtype = type_A then
          (if \<not> takeover_available p then sret (Some (error_response d 2))
           else sbind (takeover_response ev d p) (\<lambda>r. sret (Some r)))
        else if takeover_enabled (cfg p) \<and> qtype = type_AAAA then sret (Some (empty_response d))
        else sret None))"

definition policy_response :: "idna_codec \<Rightarrow> dns_env \<Rightarrow> dns_message \<Rightarrow> string \<Rightarrow> dns_response option dns_act" where
  "policy_response idna ev d qname = sbind (sget d_policy) (\<lambda>p.
     if \<not> is_local_address p (e_client ev) then sret (Some (error_response d 5))
     else if dns_opcode d \<noteq> 0 \<or> length (questions d) \<noteq> 1 then sret (Some (error_response d 1))
     else if q_class (first_question d) \<noteq> 1 then sret (Some (error_response d 5))
     else sbind (on_dns_policy (resolve_dns_rule idna (e_clock ev) qname)) (rule_response idna ev d qname))"

text \<open>The queried name without its final dot.\<close>

definition query_name :: "dns_message \<Rightarrow> string" where
  "query_name d = (let name = q_name (first_question d) in if last name = CHR ''.'' then butlast name else name)"

text \<open>\<open>DNSHandler.parse\<close> on a message that \<open>dnslib\<close> could parse; only queries are answered.\<close>

definition answer_query :: "idna_codec \<Rightarrow> bool \<Rightarrow> dns_env \<Rightarrow> dns_message \<Rightarrow> dns_response option dns_act" where
  "answer_query idna egress ev d =
     (if dns_qr d \<noteq> 0 then sret None
      else (let name = q_name (first_question d) in
        if name = [] then sraise IndexError
        else (let qname = query_name d in
          if egress then sbind (policy_response idna ev d qname) (\<lambda>r. case r of
              Some resp \<Rightarrow> sret (Some resp)
            | None \<Rightarrow> sbind (fake_response ev d qname) (\<lambda>resp. sret (Some resp)))
          else sbind (fake_response ev d qname) (\<lambda>resp. sret (Some resp)))))"

section \<open>The answer comes from the answer section\<close>

text \<open>A chain of aliases that leads from one name to another.\<close>

fun is_path :: "string \<Rightarrow> (string \<times> string \<times> int) list \<Rightarrow> string \<Rightarrow> bool" where
  "is_path start [] end_name = (start = end_name)"
| "is_path start ((owner, target, _) # chain) end_name = (owner = start \<and> is_path target chain end_name)"

lemma is_path_snoc: "is_path s (chain @ [(o1, t, ttl)]) e \<longleftrightarrow> is_path s chain o1 \<and> e = t"
  by (induction s chain o1 rule: is_path.induct) auto

lemma follow_cnames_sound:
  "follow_cnames cnames current chain = Inr (end_name, chain') \<Longrightarrow> is_path start chain current \<Longrightarrow>
    distinct (map fst chain) \<Longrightarrow> length chain \<le> 16 \<Longrightarrow>
    (\<And>owner target ttl. (owner, target, ttl) \<in> set chain \<Longrightarrow> dget cnames owner = Some (target, ttl)) \<Longrightarrow>
    is_path start chain' end_name \<and> distinct (map fst chain') \<and> length chain' \<le> 16 \<and>
    (\<forall>(owner, target, ttl) \<in> set chain'. dget cnames owner = Some (target, ttl))"
proof (induction cnames current chain rule: follow_cnames.induct)
  case (1 cnames current chain)
  show ?case
  proof (cases "dget cnames current")
    case None
    with "1.prems" show ?thesis by (subst (asm) follow_cnames.simps) auto
  next
    case (Some e)
    obtain target ttl where e: "e = (target, ttl)" by force
    have ok: "\<not> (current \<in> fst ` set chain \<or> 16 \<le> length chain)"
      and rec: "follow_cnames cnames target (chain @ [(current, target, ttl)]) = Inr (end_name, chain')"
      using "1.prems"(1) Some e by (subst (asm) follow_cnames.simps; auto split: if_splits)+
    show ?thesis
      by (rule "1.IH" [OF Some e [symmetric] ok rec])
        (use "1.prems" ok Some e in \<open>auto simp: is_path_snoc image_iff\<close>)
  qed
qed

definition cname_record :: "idna_codec \<Rightarrow> dns_rr list \<Rightarrow> string \<Rightarrow> string \<Rightarrow> int \<Rightarrow> bool" where
  "cname_record idna rrs owner target ttl \<longleftrightarrow> (\<exists>rr \<in> set rrs. rr_type rr = type_CNAME \<and>
     norm_name idna (rr_name rr) = Inr owner \<and> norm_name idna (rr_label rr) = Inr target \<and> rr_ttl rr = ttl)"

definition address_record :: "idna_codec \<Rightarrow> dns_rr list \<Rightarrow> string \<Rightarrow> string \<Rightarrow> int \<Rightarrow> bool" where
  "address_record idna rrs owner address ttl \<longleftrightarrow> (\<exists>rr \<in> set rrs. rr_type rr = type_A \<and>
     norm_name idna (rr_name rr) = Inr owner \<and> rr_text rr = address \<and> rr_ttl rr = ttl)"

definition tables_from :: "idna_codec \<Rightarrow> dns_rr list \<Rightarrow> cname_table \<times> address_table \<Rightarrow> bool" where
  "tables_from idna rrs = (\<lambda>(cnames, addresses).
     (\<forall>owner target ttl. dget cnames owner = Some (target, ttl) \<longrightarrow> cname_record idna rrs owner target ttl) \<and>
     (\<forall>owner xs address ttl. dget addresses owner = Some xs \<and> (address, ttl) \<in> set xs \<longrightarrow>
        address_record idna rrs owner address ttl))"

lemma collect_answer_from:
  assumes "collect_answer idna rr s = Inr t" "rr \<in> set rrs" "tables_from idna rrs s"
  shows "tables_from idna rrs t"
proof -
  obtain cnames addresses where s: "s = (cnames, addresses)" by force
  from assms(1) obtain owner where o: "norm_name idna (rr_name rr) = Inr owner"
    by (auto simp: collect_answer_def s ebind_Inr_iff)
  show ?thesis
  proof (cases "rr_type rr = type_CNAME")
    case True
    then obtain target where "norm_name idna (rr_label rr) = Inr target" "t = (dset owner (target, rr_ttl rr) cnames, addresses)"
      using assms(1) o by (auto simp: collect_answer_def s ebind_Inr_iff split: if_splits)
    moreover from this True o assms(2) have "cname_record idna rrs owner target (rr_ttl rr)"
      by (auto simp: cname_record_def)
    ultimately show ?thesis using assms(3) by (auto simp: tables_from_def s dict_simps)
  next
    case False
    then have a: "rr_type rr = type_A" "t = (cnames, dset owner ((case dget addresses owner of None \<Rightarrow> [] | Some xs \<Rightarrow> xs) @
        [(rr_text rr, rr_ttl rr)]) addresses)"
      using assms(1) o by (auto simp: collect_answer_def s ebind_Inr_iff split: if_splits)
    then have "address_record idna rrs owner (rr_text rr) (rr_ttl rr)" using o assms(2) by (auto simp: address_record_def)
    with a assms(3) show ?thesis by (auto simp: tables_from_def s dict_simps split: option.splits)
  qed
qed

lemma collect_from:
  "efold (collect_answer idna) rrs ([], []) = Inr t \<Longrightarrow> tables_from idna rrs t"
proof (erule efold_invariant [where P = "tables_from idna rrs"])
  show "tables_from idna rrs ([], [])" by (simp add: tables_from_def dict_simps)
qed (rule collect_answer_from)

text \<open>A record that may be answered: a global IPv4 address of the last name, with a positive time to live
  that no alias on the way and no record of the answer exceeds.\<close>

definition usable_record :: "idna_codec \<Rightarrow> dns_rr list \<Rightarrow> string \<Rightarrow> int list \<Rightarrow> string \<times> int \<Rightarrow> bool" where
  "usable_record idna rrs owner chain_ttls = (\<lambda>(address, ttl). global_version4 address = Inr True \<and> 0 < ttl \<and>
     (\<forall>c \<in> set chain_ttls. ttl \<le> c) \<and> (\<exists>given. address_record idna rrs owner address given \<and> ttl \<le> given))"

lemma fold_min_le: "fold min xs (t :: int) \<le> t \<and> (\<forall>x \<in> set xs. fold min xs t \<le> x)"
proof (induction xs arbitrary: t)
  case (Cons a xs)
  from Cons [of "min a t"] show ?case by auto
qed simp

lemma effective_records_usable:
  assumes "efold (effective_record ttls) xs [] = Inr records"
    and "\<And>address ttl. (address, ttl) \<in> set xs \<Longrightarrow> address_record idna rrs owner address ttl"
  shows "\<forall>r \<in> set records. usable_record idna rrs owner ttls r"
proof (rule efold_invariant [OF assms(1), where P = "\<lambda>records. \<forall>r \<in> set records. usable_record idna rrs owner ttls r"])
  fix x s t
  assume x: "x \<in> set xs" and e: "effective_record ttls x s = Inr t" and s: "\<forall>r \<in> set s. usable_record idna rrs owner ttls r"
  obtain address ttl where a: "x = (address, ttl)" by force
  have "address_record idna rrs owner address ttl" using assms(2) x a by simp
  moreover have "global_version4 address = Inr True" "t = (if fold min ttls ttl \<le> 0 then s else s @ [(address, fold min ttls ttl)])"
    using e by (auto simp: a effective_record_def ebind_Inr_iff Let_def split: if_splits)
  moreover from calculation have "0 < fold min ttls ttl \<Longrightarrow> usable_record idna rrs owner ttls (address, fold min ttls ttl)"
    using fold_min_le [of ttls ttl] by (auto simp: usable_record_def)
  ultimately show "\<forall>r \<in> set t. usable_record idna rrs owner ttls r" using s by auto
qed simp

lemma validate_answer_sound:
  assumes "validate_answer idna up qname = Inr (current, chain, given, records)"
  shows "\<exists>start. norm_name idna qname = Inr start \<and> is_path start chain current" "distinct (map fst chain)"
    "length chain \<le> 16" "\<forall>(owner, target, ttl) \<in> set chain. cname_record idna (dns_answers up) owner target ttl"
    "\<forall>r \<in> set records. usable_record idna (dns_answers up) current (map (\<lambda>(_, _, ttl). ttl) chain) r"
proof -
  from assms obtain cnames addresses start where
    c: "efold (collect_answer idna) (dns_answers up) ([], []) = Inr (cnames, addresses)"
    and n: "norm_name idna qname = Inr start"
    and f: "follow_cnames cnames start [] = Inr (current, chain)"
    and r: "efold (effective_record (map (\<lambda>(_, _, ttl). ttl) chain))
      (case dget addresses current of None \<Rightarrow> [] | Some xs \<Rightarrow> xs) [] = Inr records"
    unfolding validate_answer_def by (auto simp: ebind_Inr_iff Let_def split: if_splits prod.splits)
  note t = collect_from [OF c]
  have "is_path start chain current \<and> distinct (map fst chain) \<and> length chain \<le> 16 \<and>
    (\<forall>(owner, target, ttl) \<in> set chain. dget cnames owner = Some (target, ttl))"
    by (rule follow_cnames_sound [OF f]) auto
  then show "\<exists>start. norm_name idna qname = Inr start \<and> is_path start chain current" "distinct (map fst chain)"
    "length chain \<le> 16" "\<forall>(owner, target, ttl) \<in> set chain. cname_record idna (dns_answers up) owner target ttl"
    using n t by (auto simp: tables_from_def)
  show "\<forall>r \<in> set records. usable_record idna (dns_answers up) current (map (\<lambda>(_, _, ttl). ttl) chain) r"
  proof (rule effective_records_usable [OF r])
    show "address_record idna (dns_answers up) current address ttl"
      if "(address, ttl) \<in> set (case dget addresses current of None \<Rightarrow> [] | Some xs \<Rightarrow> xs)" for address ttl
      using t that by (cases "dget addresses current") (auto simp: tables_from_def)
  qed
qed

text \<open>The steps of the policy's machine, with what other threads have under way left alone.\<close>

definition policy_moves :: "'a policy_act \<Rightarrow> bool" where
  "policy_moves m \<longleftrightarrow> (\<forall>p f. policy_step\<^sup>*\<^sup>* (p, f) (snd (m p), f))"

lemma policy_movesD: "policy_moves m \<Longrightarrow> m p = (r, p') \<Longrightarrow> policy_step\<^sup>*\<^sup>* (p, f) (p', f)"
  unfolding policy_moves_def by (metis snd_conv)

named_theorems moves

lemma moves_sret [moves]: "policy_moves (sret x)"
  by (simp add: policy_moves_def sret_def)

lemma moves_sraise [moves]: "policy_moves (sraise e)"
  by (simp add: policy_moves_def sraise_def)

lemma moves_sget [moves]: "policy_moves (sget f)"
  by (simp add: policy_moves_def sget_def)

lemma moves_of_result [moves]: "policy_moves (of_result r)"
  by (simp add: of_result_def moves split: sum.split)

lemma moves_sbind [moves]: "policy_moves m \<Longrightarrow> (\<And>x. policy_moves (g x)) \<Longrightarrow> policy_moves (sbind m g)"
  unfolding policy_moves_def sbind_def by (fastforce split: prod.split sum.split intro: rtranclp_trans dest: spec)

lemma moves_scatch [moves]: "policy_moves m \<Longrightarrow> (\<And>x. policy_moves (h x)) \<Longrightarrow> policy_moves (scatch m h)"
  unfolding policy_moves_def scatch_def by (fastforce split: prod.split sum.split intro: rtranclp_trans dest: spec)

lemma moves_finally [moves]:
  "policy_moves m \<Longrightarrow> (\<And>p f. policy_step (p, f) (g p, f)) \<Longrightarrow> policy_moves (sfinally m g)"
  unfolding policy_moves_def sfinally_def by (auto split: prod.split) (metis rtranclp.rtrancl_into_rtrancl snd_conv)

lemma moves_if [moves]: "(b \<Longrightarrow> policy_moves m) \<Longrightarrow> (\<not> b \<Longrightarrow> policy_moves n) \<Longrightarrow> policy_moves (if b then m else n)"
  by simp

lemma moves_step: "(\<And>p f. policy_step (p, f) (snd (m p), f)) \<Longrightarrow> policy_moves m"
  by (auto simp: policy_moves_def)

lemma moves_leases [moves]: "policy_moves (replace_leases idna now d records)"
  by (rule moves_step) (rule step_leases)

lemma moves_alias [moves]: "policy_moves (register_alias idna now d a ttl)"
  by (rule moves_step) (rule step_alias)

lemma moves_resolve [moves]: "policy_moves (resolve_dns_rule idna now q)"
  by (rule moves_step) (rule step_resolve)

lemma moves_register [moves]: "policy_moves (register_control_flow idna n1 n2 token kind proto src port dst dport domain ttl gen)"
  unfolding policy_moves_def
proof (intro allI)
  fix p f
  let ?c = "check_control_flow idna n1 kind proto src dst dport domain gen p"
  show "policy_step\<^sup>*\<^sup>* (p, f) (snd (register_control_flow idna n1 n2 token kind proto src port dst dport domain ttl gen p), f)"
  proof (cases ?c)
    case (Pair r p1)
    show ?thesis
    proof (cases r)
      case (Inl e)
      then show ?thesis using step_check_fails [of idna n1 kind proto src dst dport domain gen p e p1 f] Pair
        by (auto simp: register_control_flow_def)
    next
      case (Inr x)
      obtain k name mapping where x: "x = (k, name, mapping)" by (cases x) auto
      let ?key = "flow_key proto src port dst dport" and ?e = "n2 + of_int (max 1 ttl)"
      have "policy_step (p, f) (p1, (k, name, mapping, ?key) # f)"
        by (rule step_check) (use Pair Inr x in simp)
      moreover have "policy_step (p1, (k, name, mapping, ?key) # f) (snd (commit_control_flow token k name mapping ?key ?e p1), f)"
        using step_commit [of k name mapping ?key "(k, name, mapping, ?key) # f" p1 token ?e] by simp
      ultimately show ?thesis using Pair Inr x by (simp add: register_control_flow_def)
    qed
  qed
qed

lemma moves_query [moves]: "policy_moves (query_upstream_proto idna proto x)"
  unfolding query_upstream_proto_def by (intro moves step_revoke)

lemma moves_synthesize [moves]: "policy_moves (validate_and_synthesize idna now request up qname dn)"
  unfolding validate_and_synthesize_def Let_def by (auto intro!: moves split: sum.split)

lemma moves_resolve_allowed [moves]: "policy_moves (resolve_allowed_a idna now request qname dn i udp tcp)"
  unfolding resolve_allowed_a_def query_upstream_def by (intro moves)

section \<open>What a resolution does to the policy\<close>

text \<open>The leases that are held, and those that the records of an answer may add.\<close>

definition lease_entries :: "policy \<Rightarrow> (string \<times> string \<times> Lease) set" where
  "lease_entries p = {(d, ip, l). \<exists>ls. (d, ls) \<in> set (leases p) \<and> (ip, l) \<in> set ls}"

definition granted :: "idna_codec \<Rightarrow> time \<Rightarrow> string \<Rightarrow> (string \<times> int) list \<Rightarrow> (string \<times> string \<times> Lease) set" where
  "granted idna now dn records = {(d, ip, l). normalize_hostname idna dn = Inr d \<and> l_domain l = d \<and>
     (\<exists>ttl. (ip, ttl) \<in> set records \<and> is_global_ipv4 ip \<and> l_expires l \<le> now + of_int ttl)}"

text \<open>No permit beyond the tokens \<open>K\<close> and no lease beyond the entries \<open>H\<close>.\<close>

definition confined :: "string set \<Rightarrow> (string \<times> string \<times> Lease) set \<Rightarrow> policy \<Rightarrow> bool" where
  "confined K H p \<longleftrightarrow> (\<forall>t. dget (permits_by_token p) t \<noteq> None \<longrightarrow> t \<in> K) \<and> lease_entries p \<subseteq> H"

abbreviation (input) tokens_of :: "policy \<Rightarrow> string set" where
  "tokens_of p \<equiv> {t. dget (permits_by_token p) t \<noteq> None}"

lemma confined_self: "confined (tokens_of p) (lease_entries p) p"
  by (simp add: confined_def)

lemma confined_cong:
  "permits_by_token p' = permits_by_token p \<Longrightarrow> leases p' = leases p \<Longrightarrow> confined K H p' = confined K H p"
  by (simp add: confined_def lease_entries_def)

lemma confined_drop: "confined K H p \<Longrightarrow> confined K H (drop_permit token i p)"
  by (auto simp: confined_def lease_entries_def drop_permit_def dict_simps split: option.splits if_splits)

lemma confined_cleanup_permits: "confined K H p \<Longrightarrow> confined K H (cleanup_permits now p)"
proof -
  have "confined K H q \<Longrightarrow>
      confined K H (fold (\<lambda>(token, i) p. if permit_expired p now i then drop_permit token i p else p) xs q)" for q xs
    by (induction xs arbitrary: q) (auto simp: confined_drop)
  then show "confined K H p \<Longrightarrow> ?thesis" by (simp add: cleanup_permits_def)
qed

lemma confined_cleanup: "confined K H p \<Longrightarrow> confined K H (cleanup_locked now p)"
proof -
  assume p: "confined K H p"
  define q where "q = (cleanup_leases now p)\<lparr>aliases := filter (\<lambda>(name, entry). snd entry > now) (aliases (cleanup_leases now p))\<rparr>"
  have "lease_entries q \<subseteq> lease_entries p" by (fastforce simp: q_def lease_entries_def cleanup_leases_def)
  then have "confined K H q" using p by (auto simp: q_def confined_def cleanup_leases_def)
  then have "confined K H (cleanup_permits now q)" by (rule confined_cleanup_permits)
  then show ?thesis by (simp add: cleanup_locked_def q_def [symmetric] Let_def confined_def lease_entries_def)
qed

lemma add_leases_granted:
  assumes "normalize_hostname idna dn = Inr domain" "(ip, l) \<in> set (fold (add_lease now domain) records [])"
  shows "(domain, ip, l) \<in> granted idna now dn records"
proof -
  have "\<forall>(ip, l) \<in> set (fold (add_lease now domain) xs []). (domain, ip, l) \<in> granted idna now dn (rev (rev xs))" for xs
  proof (induction xs rule: rev_induct)
    case (snoc r xs)
    obtain a ttl where r: "r = (a, ttl)" by force
    have "(domain, ip, l) \<in> granted idna now dn (xs @ [r])" if "(ip, l) \<in> set (fold (add_lease now domain) xs [])" for ip l
      using snoc that by (auto simp: granted_def)
    then show ?case using assms(1)
      by (auto simp: r add_lease_def Let_def granted_def dest!: dset_in split: option.splits if_splits)
  qed simp
  with assms(2) show ?thesis by fastforce
qed

lemma replace_leases_confined:
  assumes "replace_leases idna now dn records p = (Inr installed, p')" "confined K H p"
  shows "confined K (H \<union> granted idna now dn records) p'"
proof -
  from assms(1) obtain domain where n: "normalize_hostname idna dn = Inr domain"
    and p': "leases p' = dset domain (fold (add_lease now domain) records []) (leases p)"
      "permits_by_token p' = permits_by_token p"
    by (auto simp: replace_leases_def Let_def split: sum.splits if_splits)
  have "lease_entries p' \<subseteq> lease_entries p \<union> granted idna now dn records"
    using add_leases_granted [OF n] by (auto simp: lease_entries_def p' dest!: dset_in)
  with assms(2) show ?thesis by (auto simp: confined_def p')
qed

lemma policy_acts_raise:
  "replace_leases idna now dn records p = (Inl e, p') \<Longrightarrow> p' = p"
  "register_alias idna now dn alias ttl p = (r, p') \<Longrightarrow> permits_by_token p' = permits_by_token p \<and> leases p' = leases p"
  by (auto simp: replace_leases_def register_alias_def Let_def split: sum.splits if_splits)

lemma confined_commit:
  assumes "confined K H p" "commit_control_flow token k name mapping key e p = (r, p')"
  shows "case r of Inl _ \<Rightarrow> confined K H p' | Inr tk \<Rightarrow> tk = token \<and> confined K H (revoke_control_flow token p')"
proof (cases r)
  case (Inl x)
  then have "p' = p" using assms(2)
    by (auto simp: commit_control_flow_def Let_def split: sum.splits if_splits)
  then show ?thesis using assms(1) by (simp add: Inl)
next
  case (Inr tk)
  define bt where "bt = (case Option.bind (dget (permits_by_key p) key) (dget (permit_objs p)) of
      None \<Rightarrow> permits_by_token p | Some old \<Rightarrow> ddel (permit_token old) (permits_by_token p))"
  have sub: "dget (permits_by_token p) t \<noteq> None" if "dget bt t \<noteq> None" for t
    using that by (auto simp: bt_def dict_simps split: option.splits if_splits)
  have p': "tk = token" "permits_by_token p' = dset token (permit_counter p + 1) bt" "leases p' = leases p"
    "permit_objs p' = dset (permit_counter p + 1) \<lparr>permit_token = token, permit_kind = k, permit_key = key,
       permit_domain = name, permit_expires = e\<rparr> (permit_objs p)"
    using assms(2) Inr unfolding commit_control_flow_def Let_def bt_def [symmetric]
    by (auto split: sum.splits if_splits)
  then have "permits_by_token (revoke_control_flow token p') = ddel token (dset token (permit_counter p + 1) bt)"
    "leases (revoke_control_flow token p') = leases p"
    by (simp_all add: revoke_control_flow_def drop_permit_def dict_simps)
  with assms(1) sub show ?thesis by (auto simp: Inr p'(1) confined_def lease_entries_def dict_simps)
qed

lemma confined_register:
  "triple (confined K H) (register_control_flow idna n1 n2 token kind proto src port dst dport domain ttl gen)
     (\<lambda>tk p. confined K H (revoke_control_flow tk p)) (\<lambda>_. confined K H)"
proof (rule tripleI)
  fix p r p'
  assume p: "confined K H p"
    and m: "register_control_flow idna n1 n2 token kind proto src port dst dport domain ttl gen p = (r, p')"
  obtain c p1 where c: "check_control_flow idna n1 kind proto src dst dport domain gen p = (c, p1)" by force
  then have p1: "confined K H p1"
    using check_control_flow_state [of idna n1 kind proto src dst dport domain gen p] confined_cleanup p by auto
  show "case r of Inl _ \<Rightarrow> confined K H p' | Inr tk \<Rightarrow> confined K H (revoke_control_flow tk p')"
  proof (cases c)
    case (Inl e)
    with m c p1 show ?thesis by (auto simp: register_control_flow_def)
  next
    case (Inr x)
    obtain k name mapping where x: "x = (k, name, mapping)" by (cases x) auto
    from m have "commit_control_flow token k name mapping (flow_key proto src port dst dport) (n2 + of_int (max 1 ttl)) p1 = (r, p')"
      by (simp add: register_control_flow_def c Inr x)
    from confined_commit [OF p1 this] show ?thesis by (auto split: sum.splits)
  qed
qed

lemma confined_query [act_rules]: "keeps_inv (confined K H) (query_upstream_proto idna proto x)"
proof -
  have f: "triple (\<lambda>p. confined K H (revoke_control_flow tk p)) (sfinally (of_result (x_reply x)) (revoke_control_flow tk))
      (\<lambda>_. confined K H) (\<lambda>_. confined K H)" for tk
    by (simp add: triple_def sfinally_def of_result_def act_defs split: sum.split)
  show ?thesis
    unfolding query_upstream_proto_def
    by (intro keeps_sbind [OF keeps_of_result] keeps_sget_bind, unfold keeps_inv_def)
      (rule triple_sbind [OF confined_register f])
qed

lemma confined_resolve [act_rules]: "keeps_inv (confined K H) (resolve_dns_rule idna now q)"
  by (auto simp: keeps_inv_iff resolve_dns_rule_def Let_def confined_cleanup split: sum.split option.split)

lemma confined_query_upstream: "keeps_inv (confined K H) (query_upstream idna request i udp tcp)"
  unfolding query_upstream_def by (intro act_rules)

section \<open>What is answered\<close>

text \<open>The reply that is believed: it came over UDP, or over TCP after a truncated one, and it carries the
  transaction and the question that were sent.\<close>

definition header_ok :: "idna_codec \<Rightarrow> dns_message \<Rightarrow> int \<Rightarrow> dns_message \<Rightarrow> bool" where
  "header_ok idna request i up \<longleftrightarrow> dns_id up = i \<and> dns_qr up = 1 \<and> dns_rcode up = 0 \<and> length (questions up) = 1 \<and>
     q_type (first_question up) = type_A \<and> (\<exists>name. norm_name idna (q_name (first_question up)) = Inr name \<and>
       norm_name idna (q_name (first_question request)) = Inr name)"

definition believed :: "idna_codec \<Rightarrow> dns_message \<Rightarrow> int \<Rightarrow> exchange \<Rightarrow> exchange \<Rightarrow> dns_message \<Rightarrow> bool" where
  "believed idna request i udp tcp up \<longleftrightarrow> header_ok idna request i up \<and>
     (x_reply udp = Inr up \<and> dns_tc up = 0 \<or>
      (\<exists>first. x_reply udp = Inr first \<and> header_ok idna request i first \<and> dns_tc first \<noteq> 0 \<and> x_reply tcp = Inr up))"

lemma header_ok_iff: "validate_upstream_header idna up request i = Inr () \<longleftrightarrow> header_ok idna request i up"
  by (auto simp: validate_upstream_header_def header_ok_def ebind_Inr_iff)

lemma query_reply: "query_upstream_proto idna proto x p = (Inr m, p') \<Longrightarrow> x_reply x = Inr m"
  by (auto simp: query_upstream_proto_def sbind_def act_defs of_result_def sfinally_def split: prod.splits sum.splits)

lemma query_believed:
  assumes "query_upstream idna request i udp tcp p = (Inr up, p')"
  shows "believed idna request i udp tcp up"
  using assms unfolding query_upstream_def believed_def
  by (auto simp: sbind_Inr of_result_Inr header_ok_iff sret_def dest!: query_reply split: if_splits)

text \<open>What an answer amounts to: a chain of aliases from the queried name, every link a record of the answer,
  and usable addresses of the last name.\<close>

definition answer_from :: "idna_codec \<Rightarrow> dns_message \<Rightarrow> string \<Rightarrow> string \<Rightarrow> (string \<times> string \<times> int) list \<Rightarrow>
    (string \<times> int) list \<Rightarrow> bool" where
  "answer_from idna up qname current chain records \<longleftrightarrow>
     (\<exists>start. norm_name idna qname = Inr start \<and> is_path start chain current) \<and> distinct (map fst chain) \<and> length chain \<le> 16 \<and>
     (\<forall>(owner, target, ttl) \<in> set chain. cname_record idna (dns_answers up) owner target ttl) \<and>
     (\<forall>r \<in> set records. usable_record idna (dns_answers up) current (map (\<lambda>(_, _, ttl). ttl) chain) r)"

definition chain_reply :: "dns_message \<Rightarrow> string \<Rightarrow> (string \<times> string \<times> int) list \<Rightarrow> (string \<times> int) list \<Rightarrow> dns_response" where
  "chain_reply request current chain records = reply_to request False 0
     (map (\<lambda>(owner, target, ttl). CnameAnswer owner ttl target) chain @
      map (\<lambda>(address, ttl). AddressAnswer current ttl address) records)"

lemma synthesize_confined:
  assumes p: "confined K H p" and m: "validate_and_synthesize idna now request up qname dn p = (r, p')"
  shows "case r of Inl _ \<Rightarrow> confined K H p'
    | Inr resp \<Rightarrow> (\<exists>current chain records. answer_from idna up qname current chain records \<and>
        resp = chain_reply request current chain records \<and> confined K (H \<union> granted idna now dn records) p')"
proof (cases "validate_answer idna up qname")
  case (Inl e)
  with m p show ?thesis by (auto simp: validate_and_synthesize_def sraise_def)
next
  case (Inr x)
  then obtain current chain given records where v: "validate_answer idna up qname = Inr (current, chain, given, records)"
    by (cases x) auto
  let ?r = "chain_reply request current chain records"
  have a: "answer_from idna up qname current chain records"
    unfolding answer_from_def using validate_answer_sound [OF v] by blast
  show ?thesis
  proof (cases "records = []")
    case True
    then have "permits_by_token p' = permits_by_token p \<and> leases p' = leases p \<and> (\<forall>resp. r = Inr resp \<longrightarrow> resp = ?r)"
      using m policy_acts_raise(2)
      by (auto simp: validate_and_synthesize_def v act_defs sbind_def Let_def chain_reply_def
          split: prod.splits sum.splits if_splits)
    with p have "confined K H p'" "\<And>resp. r = Inr resp \<Longrightarrow> resp = ?r" by (auto simp: confined_cong [of p' p])
    moreover from this have "confined K (H \<union> granted idna now dn records) p'" by (auto simp: confined_def)
    ultimately show ?thesis using a by (cases r) auto
  next
    case False
    then consider e where "replace_leases idna now dn records p = (Inl e, p')" "r = Inl e"
      | installed where "replace_leases idna now dn records p = (Inr installed, p')" "r = Inr ?r"
      using m by (auto simp: validate_and_synthesize_def v act_defs sbind_def Let_def chain_reply_def
          split: prod.splits sum.splits if_splits)
    then show ?thesis
    proof cases
      case 1
      with policy_acts_raise(1) [OF 1(1)] p show ?thesis by simp
    next
      case 2
      from a replace_leases_confined [OF 2(1) p] show ?thesis by (simp only: 2(2) sum.case) blast
    qed
  qed
qed

lemma resolve_allowed_result:
  assumes p: "confined K H p" and m: "resolve_allowed_a idna now request qname dn i udp tcp p = (r, p')"
  shows "r = Inr (error_response request 2) \<and> confined K H p' \<or>
    (\<exists>up current chain records. believed idna request i udp tcp up \<and> answer_from idna up qname current chain records \<and>
       r = Inr (chain_reply request current chain records) \<and> confined K (H \<union> granted idna now dn records) p')"
proof -
  obtain u p1 where q: "query_upstream idna request i udp tcp p = (u, p1)" by force
  then have p1: "confined K H p1" by (rule keeps_invD [OF confined_query_upstream p])
  show ?thesis
  proof (cases u)
    case (Inl e)
    with m q p1 show ?thesis by (auto simp: resolve_allowed_a_def scatch_def sbind_def sret_def)
  next
    case (Inr up)
    obtain v p2 where v: "validate_and_synthesize idna now request up qname dn p1 = (v, p2)" by force
    with m q Inr have "(r, p') = (case v of Inl _ \<Rightarrow> (Inr (error_response request 2), p2) | Inr resp \<Rightarrow> (Inr resp, p2))"
      by (auto simp: resolve_allowed_a_def scatch_def sbind_def sret_def split: sum.splits)
    then show ?thesis
      using synthesize_confined [OF p1 v] query_believed q Inr by (fastforce split: sum.splits)
  qed
qed

section \<open>Queries and the policy\<close>

lemma moves_on_dns_policy:
  "policy_moves m \<Longrightarrow> on_dns_policy m s = (r, s') \<Longrightarrow> policy_step\<^sup>*\<^sup>* (d_policy s, f) (d_policy s', f)"
  unfolding policy_moves_def on_dns_policy_def by (auto split: prod.splits) (metis snd_conv)

lemma fake_policy: "keeps_inv (\<lambda>s. d_policy s = p) (fake_response ev d qname)"
  unfolding fake_response_def fake_a_def fake_mx_def fake_txt_def fake_reply_def Let_def
  by (intro act_rules) auto

text \<open>The queries that are resolved upstream.\<close>

definition resolvable :: "idna_codec \<Rightarrow> dns_env \<Rightarrow> dns_message \<Rightarrow> policy \<Rightarrow> string \<Rightarrow> string \<Rightarrow> bool" where
  "resolvable idna ev d p qname dn \<longleftrightarrow> dns_qr d = 0 \<and> is_local_address p (e_client ev) \<and> dns_opcode d = 0 \<and>
     length (questions d) = 1 \<and> q_class (first_question d) = 1 \<and> q_type (first_question d) = type_A \<and>
     fst (resolve_dns_rule idna (e_clock ev) qname p) = Inr (Some dn) \<and> dn \<noteq> []"

lemma policy_response_resolvable:
  assumes "resolvable idna ev d (d_policy s) qname dn"
  shows "policy_response idna ev d qname s = sbind (on_dns_policy (resolve_allowed_a idna (e_clock2 ev) d qname dn (e_id ev) (e_udp ev) (e_tcp ev)))
     (\<lambda>r. sret (Some r)) (s\<lparr>d_policy := snd (resolve_dns_rule idna (e_clock ev) qname (d_policy s))\<rparr>)"
  using assms unfolding resolvable_def policy_response_def
  by (cases "resolve_dns_rule idna (e_clock ev) qname (d_policy s)")
    (simp add: Let_def sbind_def sget_def on_dns_policy_def rule_response_def)

lemma keeps_takeover [act_rules]: "keeps_inv I (takeover_response ev d p)"
  by (simp add: takeover_response_def split: option.split)

lemma keeps_rule_response:
  "\<not> (rule \<noteq> None \<and> rule \<noteq> Some [] \<and> q_type (first_question d) = type_A) \<Longrightarrow> keeps_inv I (rule_response idna ev d qname rule)"
  unfolding rule_response_def Let_def by (intro act_rules) auto

lemma policy_response_other:
  assumes no: "\<nexists>dn. resolvable idna ev d (d_policy s) qname dn" and "dns_qr d = 0"
    and m: "policy_response idna ev d qname s = (r, s')"
  shows "d_policy s' = d_policy s \<or> d_policy s' = snd (resolve_dns_rule idna (e_clock ev) qname (d_policy s))"
proof (cases "is_local_address (d_policy s) (e_client ev) \<and> dns_opcode d = 0 \<and> length (questions d) = 1 \<and>
    q_class (first_question d) = 1")
  case False
  with m have "s' = s"
    unfolding policy_response_def by (auto simp: sbind_def sget_def sret_def split: if_splits)
  then show ?thesis by simp
next
  case True
  obtain q p1 where q: "resolve_dns_rule idna (e_clock ev) qname (d_policy s) = (q, p1)" by force
  have m': "policy_response idna ev d qname s = (case q of Inl e \<Rightarrow> (Inl e, s\<lparr>d_policy := p1\<rparr>)
      | Inr rule \<Rightarrow> rule_response idna ev d qname rule (s\<lparr>d_policy := p1\<rparr>))"
    using True q unfolding policy_response_def by (simp add: sbind_def sget_def on_dns_policy_def split: sum.split)
  have "d_policy s' = p1"
  proof (cases q)
    case (Inl e)
    with m m' show ?thesis by auto
  next
    case (Inr rule)
    with no True q assms(2) have "keeps_inv (\<lambda>s. d_policy s = p1) (rule_response idna ev d qname rule)"
      by (intro keeps_rule_response) (auto simp: resolvable_def)
    from keeps_invD [OF this, of "s\<lparr>d_policy := p1\<rparr>" r s'] m m' Inr show ?thesis by simp
  qed
  with q show ?thesis by simp
qed

lemma answer_query_policy:
  assumes "answer_query idna egress ev d s = (r, s')"
  shows "d_policy s' = d_policy s \<or> dns_qr d = 0 \<and> egress \<and> (\<exists>r1 s1.
    policy_response idna ev d (query_name d) s = (r1, s1) \<and> d_policy s' = d_policy s1 \<and>
    (\<forall>resp. r1 = Inr (Some resp) \<longrightarrow> r = Inr (Some resp)))"
proof -
  note f = keeps_invD [OF fake_policy refl]
  have "d_policy s2 = d_policy s1" if "sbind (fake_response ev d q) (\<lambda>resp. sret (Some resp)) s1 = (x, s2)" for q x s1 s2
    using that f by (auto simp: sbind_def sret_def split: prod.splits sum.splits)
  then show ?thesis
    using assms unfolding answer_query_def Let_def query_name_def
    by (auto simp: sbind_def [of "policy_response _ _ _ _"] sret_def sraise_def
        split: if_splits prod.splits sum.splits option.splits)
qed

text \<open>The two ways a query ends: it left the policy as it is or with what had expired removed, or it was resolved.\<close>

lemma answer_query_cases:
  assumes "answer_query idna egress ev d s = (r, s')"
  obtains (unchanged) "d_policy s' = d_policy s \<or> d_policy s' = snd (resolve_dns_rule idna (e_clock ev) (query_name d) (d_policy s))"
  | (resolved) dn p1 resp where "egress" "resolvable idna ev d (d_policy s) (query_name d) dn"
      "p1 = snd (resolve_dns_rule idna (e_clock ev) (query_name d) (d_policy s))"
      "resolve_allowed_a idna (e_clock2 ev) d (query_name d) dn (e_id ev) (e_udp ev) (e_tcp ev) p1 = (Inr resp, d_policy s')"
      "r = Inr (Some resp)"
proof (cases "d_policy s' = d_policy s")
  case False
  with answer_query_policy [OF assms] obtain r1 s1 where c: "dns_qr d = 0" "egress"
    "policy_response idna ev d (query_name d) s = (r1, s1)" "d_policy s' = d_policy s1"
    "\<And>resp. r1 = Inr (Some resp) \<Longrightarrow> r = Inr (Some resp)" by blast
  show thesis
  proof (cases "\<exists>dn. resolvable idna ev d (d_policy s) (query_name d) dn")
    case False
    from policy_response_other [OF False c(1,3)] c(4) unchanged show thesis by simp
  next
    case True
    then obtain dn where dn: "resolvable idna ev d (d_policy s) (query_name d) dn" by blast
    define p1 where "p1 = snd (resolve_dns_rule idna (e_clock ev) (query_name d) (d_policy s))"
    obtain u p2 where u: "resolve_allowed_a idna (e_clock2 ev) d (query_name d) dn (e_id ev) (e_udp ev) (e_tcp ev) p1 = (u, p2)"
      by force
    from resolve_allowed_result [OF confined_self u] obtain resp where "u = Inr resp" by auto
    with u c policy_response_resolvable [OF dn] have "r1 = Inr (Some resp)" "d_policy s1 = p2"
      by (auto simp: p1_def [symmetric] sbind_def on_dns_policy_def sret_def)
    with resolved [OF c(2) dn p1_def] u c(4,5) \<open>u = Inr resp\<close> show thesis by simp
  qed
qed (use unchanged in simp)

lemma rule_confined: "confined K H p \<Longrightarrow> confined K H (snd (resolve_dns_rule idna now q p))"
  using confined_resolve by (auto simp: keeps_inv_iff)

text \<open>With \<open>GetFirstNonLoopback\<close> the address of a later interface replaces that of an earlier one, and an
  interface without an IPv4 address raises.\<close>

lemma last_interface_wins:
  "first_non_loopback [Some [Some ''127.0.0.1'', Some ''10.0.0.1''], Some [Some ''10.0.0.2'']] fake = Inr ''10.0.0.2''"
  "first_non_loopback [Some [Some ''10.0.0.1''], None] fake = Inl (KeyError ''AF_INET'')"
  by (simp_all add: first_non_loopback_def starts_with_def)

section \<open>A query for an allowed name\<close>

definition demo_question :: dns_question where
  "demo_question = \<lparr>q_name = ''Example.COM.'', q_type = 1, q_class = 1\<rparr>"

definition demo_query :: dns_message where
  "demo_query = \<lparr>dns_id = 7, dns_qr = 0, dns_opcode = 0, dns_rcode = 0, dns_tc = 0, dns_rd = 1,
     questions = [demo_question], dns_answers = [], dns_auth = [], dns_ar = []\<rparr>"

definition demo_upstream :: dns_message where
  "demo_upstream = \<lparr>dns_id = 4711, dns_qr = 1, dns_opcode = 0, dns_rcode = 0, dns_tc = 0, dns_rd = 1,
     questions = [demo_question],
     dns_answers = [\<lparr>rr_name = ''example.com.'', rr_type = 5, rr_ttl = 60, rr_text = ''e.net.'', rr_label = ''e.net.''\<rparr>,
       \<lparr>rr_name = ''E.net.'', rr_type = 1, rr_ttl = 300, rr_text = ''93.184.216.34'', rr_label = []\<rparr>],
     dns_auth = [], dns_ar = []\<rparr>"

definition demo_exchange :: exchange where
  "demo_exchange = \<lparr>x_source = Inr ''192.168.56.10'', x_bind = Inr 50000, x_token = ''t7'', x_now = 10, x_now2 = 11,
     x_reply = Inr demo_upstream\<rparr>"

definition demo_dns_env :: dns_env where
  "demo_dns_env = \<lparr>e_client = ''192.168.56.10'', e_clock = 10, e_clock2 = 12, e_id = 4711, e_udp = demo_exchange,
     e_tcp = demo_exchange, interfaces = [], hostbyname = Inr ''127.0.0.1'', rdata_ok = (\<lambda>_ _. True)\<rparr>"

definition demo_dns_state :: dns_state where
  "demo_dns_state = \<lparr>d_policy = demo_p0, d_server = \<lparr>responsea = None, responsemx = ''mail.evil.com'',
     responsetxt = ''FAKENET'', nxdomains = 0\<rparr>\<rparr>"

definition demo_response :: dns_response where
  "demo_response = \<lparr>resp_id = 7, resp_aa = False, resp_rd = 1, resp_rcode = 0, resp_question = demo_question,
     resp_answers = [CnameAnswer ''example.com'' 60 ''e.net'', AddressAnswer ''e.net'' 60 ''93.184.216.34'']\<rparr>"

lemmas dns_eval = policy_eval demo_question_def demo_query_def demo_upstream_def demo_exchange_def demo_dns_env_def
  demo_dns_state_def demo_response_def demo_p0_def first_question_def reply_to_def norm_name_def
  validate_upstream_header_def collect_answer_def follow_cnames.simps check_owners_def global_version4_def effective_record_def
  validate_answer_def sfinally_def of_result_def query_name_def
  resolve_dns_rule_def is_local_address_def register_control_flow_def revoke_control_flow_def drop_permit_def
  act_defs sbind_def scatch_def

lemma demo_resolvable: "resolvable (\<lambda>_. None) demo_dns_env demo_query demo_p0 ''Example.COM'' ''example.com''"
  unfolding resolvable_def by (simp add: dns_eval)

lemma demo_validated: "validate_answer (\<lambda>_. None) demo_upstream ''Example.COM'' =
    Inr (''e.net'', [(''example.com'', ''e.net'', 60)], True, [(''93.184.216.34'', 60)])"
  by (simp add: dns_eval)

lemma demo_answered: "fst (answer_query (\<lambda>_. None) True demo_dns_env demo_query demo_dns_state) = Inr (Some demo_response)"
  "leases (d_policy (snd (answer_query (\<lambda>_. None) True demo_dns_env demo_query demo_dns_state))) =
    [(''example.com'', [(''93.184.216.34'', \<lparr>l_domain = ''example.com'', l_ip = ''93.184.216.34'', l_expires = 72\<rparr>)])]"
  "permits_by_token (d_policy (snd (answer_query (\<lambda>_. None) True demo_dns_env demo_query demo_dns_state))) = []"
  by (simp_all add: dns_eval answer_query_def policy_response_def rule_response_def on_dns_policy_def resolve_allowed_a_def
      query_upstream_def query_upstream_proto_def validate_and_synthesize_def demo_validated [unfolded demo_upstream_def demo_question_def])

section \<open>Properties\<close>

text \<open>C12. Whatever one DNS query does to the egress policy, it is a run of the policy's own operations, and it
  leaves no permit behind: every token that is registered afterwards was registered before. A lease is added
  only for a query of a local client for the address of an allowed name, and then only from the answer section
  of a believed reply: the upstream server's transaction and question, a chain of at most sixteen distinct
  aliases from the queried name, a global IPv4 address of the last one, for no longer than any record on the way.\<close>

theorem dns_query_confined:
  assumes "answer_query idna egress ev d s = (r, s')"
  shows "policy_step\<^sup>*\<^sup>* (d_policy s, f) (d_policy s', f) \<and>
    (\<forall>t. dget (permits_by_token (d_policy s')) t \<noteq> None \<longrightarrow> dget (permits_by_token (d_policy s)) t \<noteq> None) \<and>
    (lease_entries (d_policy s') \<subseteq> lease_entries (d_policy s) \<or>
     (\<exists>dn up current chain records. egress \<and> resolvable idna ev d (d_policy s) (query_name d) dn \<and>
        believed idna d (e_id ev) (e_udp ev) (e_tcp ev) up \<and> answer_from idna up (query_name d) current chain records \<and>
        r = Inr (Some (chain_reply d current chain records)) \<and>
        lease_entries (d_policy s') \<subseteq> lease_entries (d_policy s) \<union> granted idna (e_clock2 ev) dn records))"
  using assms
proof (cases rule: answer_query_cases)
  case unchanged
  then have "confined (tokens_of (d_policy s)) (lease_entries (d_policy s)) (d_policy s')"
    using confined_self rule_confined by auto
  moreover have "policy_step\<^sup>*\<^sup>* (d_policy s, f) (d_policy s', f)"
    using unchanged step_resolve by (auto intro: r_into_rtranclp)
  ultimately show ?thesis by (simp add: confined_def)
next
  case (resolved dn p1 resp)
  let ?K = "tokens_of (d_policy s)" and ?H = "lease_entries (d_policy s)"
  have "policy_step\<^sup>*\<^sup>* (d_policy s, f) (p1, f)" "policy_step\<^sup>*\<^sup>* (p1, f) (d_policy s', f)"
    using moves_resolve policy_movesD [OF moves_resolve_allowed resolved(4)] by (auto simp: policy_moves_def resolved(3))
  then have "policy_step\<^sup>*\<^sup>* (d_policy s, f) (d_policy s', f)" by (rule rtranclp_trans)
  moreover have "confined ?K ?H p1" unfolding resolved(3) using rule_confined confined_self .
  from resolve_allowed_result [OF this resolved(4)] have "(\<forall>t. dget (permits_by_token (d_policy s')) t \<noteq> None \<longrightarrow> t \<in> ?K) \<and>
    (lease_entries (d_policy s') \<subseteq> ?H \<or> (\<exists>up current chain records. believed idna d (e_id ev) (e_udp ev) (e_tcp ev) up \<and>
      answer_from idna up (query_name d) current chain records \<and> resp = chain_reply d current chain records \<and>
      lease_entries (d_policy s') \<subseteq> ?H \<union> granted idna (e_clock2 ev) dn records))"
    by (auto simp: confined_def)
  ultimately show ?thesis using resolved(1,2,5) by blast
qed

theorem dns_query_confined_witness:
  "\<exists>up current chain records. believed (\<lambda>_. None) demo_query 4711 demo_exchange demo_exchange up \<and>
     answer_from (\<lambda>_. None) up ''Example.COM'' current chain records \<and>
     lease_entries (d_policy (snd (answer_query (\<lambda>_. None) True demo_dns_env demo_query demo_dns_state)))
       \<subseteq> lease_entries demo_p0 \<union> granted (\<lambda>_. None) 12 ''example.com'' records"
proof -
  let ?a = "answer_query (\<lambda>_. None) True demo_dns_env demo_query demo_dns_state"
  have n: "query_name demo_query = ''Example.COM''" "d_policy demo_dns_state = demo_p0" "e_clock2 demo_dns_env = 12"
    "e_id demo_dns_env = 4711" "e_udp demo_dns_env = demo_exchange" "e_tcp demo_dns_env = demo_exchange"
    by (simp_all add: dns_eval)
  have "lease_entries demo_p0 = {}" by (simp add: lease_entries_def demo_p0_def policy_eval)
  moreover have "lease_entries (d_policy (snd ?a)) \<noteq> {}" by (simp add: lease_entries_def demo_answered)
  moreover have "resolvable (\<lambda>_. None) demo_dns_env demo_query demo_p0 ''Example.COM'' dn \<Longrightarrow> dn = ''example.com''" for dn
    using demo_resolvable by (simp add: resolvable_def)
  ultimately show ?thesis
    using dns_query_confined [OF prod.collapse [of ?a, symmetric], of "[]"] unfolding n by blast
qed

text \<open>C13. An allowed name is never faked: a local client's query for the address of such a name is answered, and the
  answer is either a server failure or the aliases and addresses of a believed reply of the upstream server.\<close>

theorem dns_allowed_sound:
  assumes "answer_query idna True ev d s = (r, s')" "resolvable idna ev d (d_policy s) (query_name d) dn"
    "q_name (first_question d) \<noteq> []"
  shows "r = Inr (Some (error_response d 2)) \<or> (\<exists>up current chain records.
    believed idna d (e_id ev) (e_udp ev) (e_tcp ev) up \<and> answer_from idna up (query_name d) current chain records \<and>
    r = Inr (Some (chain_reply d current chain records)))"
proof -
  define p1 where "p1 = snd (resolve_dns_rule idna (e_clock ev) (query_name d) (d_policy s))"
  obtain u p2 where u: "resolve_allowed_a idna (e_clock2 ev) d (query_name d) dn (e_id ev) (e_udp ev) (e_tcp ev) p1 = (u, p2)"
    by force
  note res = resolve_allowed_result [OF confined_self u]
  then obtain resp where resp: "u = Inr resp" by auto
  with u have "policy_response idna ev d (query_name d) s = (Inr (Some resp), s\<lparr>d_policy := p2\<rparr>)"
    unfolding policy_response_resolvable [OF assms(2)] by (simp add: p1_def [symmetric] sbind_def on_dns_policy_def sret_def)
  with assms have "r = Inr (Some resp)"
    by (auto simp: answer_query_def Let_def resolvable_def sbind_def sret_def)
  with res resp show ?thesis by auto
qed

theorem dns_allowed_sound_witness:
  "\<exists>up current chain records. answer_from (\<lambda>_. None) up ''Example.COM'' current chain records \<and>
     demo_response = chain_reply demo_query current chain records"
proof -
  have n: "query_name demo_query = ''Example.COM''" "d_policy demo_dns_state = demo_p0" "q_name (first_question demo_query) \<noteq> []"
    by (simp_all add: dns_eval)
  have "demo_response \<noteq> error_response demo_query 2" by (simp add: demo_response_def error_response_def reply_to_def)
  with dns_allowed_sound [of "\<lambda>_. None" demo_dns_env demo_query demo_dns_state "Inr (Some demo_response)", OF _ _ n(3)]
    demo_resolvable demo_answered(1) n show ?thesis by (metis Inr_inject option.inject prod.collapse)
qed

end
