(* ===== verification/RelayPump.thy ===== *)
theory RelayPump
  imports ClientHello StateExn
begin

text \<open>
  The copying loop of the TLS relay (\<open>DomainEgressRelay._relay\<close> in \<open>fakenet/listeners/DomainEgressRelay.py\<close>):
  two buffers between the client and the upstream server. What \<open>select\<close>, the sockets and the clock
  answer in one pass of the loop is the record \<open>pass_answers\<close>; the state records what went over the
  sockets, next to the variables of the loop.
\<close>

section \<open>The loop\<close>

datatype relay_socket = ClientSocket | UpstreamSocket

record pump =
  to_upstream :: "byte list"
  to_client :: "byte list"
  client_open :: bool
  upstream_open :: bool
  last_activity :: time
  from_client :: "byte list"
  from_upstream :: "byte list"
  sent_upstream :: "byte list"
  sent_client :: "byte list"
  shut_upstream :: bool
  shut_client :: bool

type_synonym 'a pump_act = "(pump, 'a) act"

text \<open>A socket returns at most the bytes asked for and sends at most the bytes given, or raises.\<close>

record pass_answers =
  pass_stop :: bool
  pass_now :: time
  pass_select :: "(relay_socket set \<times> relay_socket set) result"
  pass_recv :: "relay_socket \<Rightarrow> byte list result"
  pass_recv_now :: "relay_socket \<Rightarrow> time"
  pass_send :: "relay_socket \<Rightarrow> nat result"
  pass_send_now :: "relay_socket \<Rightarrow> time"

datatype relay_end = Stopped | IdleTimeout | Drained

definition pump_start :: "byte list \<Rightarrow> time \<Rightarrow> pump" where
  "pump_start initial now = \<lparr>to_upstream = initial, to_client = [], client_open = True, upstream_open = True,
     last_activity = now, from_client = [], from_upstream = [], sent_upstream = [], sent_client = [],
     shut_upstream = False, shut_client = False\<rparr>"

definition recv_size :: "int \<Rightarrow> byte list \<Rightarrow> int" where
  "recv_size limit destination = min 65536 (limit - int (length destination))"

definition receive_from :: "int \<Rightarrow> pass_answers \<Rightarrow> relay_socket \<Rightarrow> unit pump_act" where
  "receive_from limit a sock = sbind (sget (\<lambda>s. case sock of ClientSocket \<Rightarrow> to_upstream s | UpstreamSocket \<Rightarrow> to_client s)) (\<lambda>destination.
     let size = recv_size limit destination in
     if size < 0 then sraise (ValueError ''negative buffersize in recv'')
     else sbind (of_result (pass_recv a sock)) (\<lambda>available.
       let chunk = take (nat size) available in
       case sock of
         ClientSocket \<Rightarrow>
           if chunk \<noteq> [] then smod (\<lambda>s. s\<lparr>last_activity := pass_recv_now a sock, to_upstream := to_upstream s @ chunk,
             from_client := from_client s @ chunk\<rparr>)
           else smod (\<lambda>s. s\<lparr>client_open := False, shut_upstream := True\<rparr>)
       | UpstreamSocket \<Rightarrow>
           if chunk \<noteq> [] then smod (\<lambda>s. s\<lparr>last_activity := pass_recv_now a sock, to_client := to_client s @ chunk,
             from_upstream := from_upstream s @ chunk\<rparr>)
           else smod (\<lambda>s. s\<lparr>upstream_open := False, shut_client := True\<rparr>)))"

definition send_to :: "pass_answers \<Rightarrow> relay_socket \<Rightarrow> unit pump_act" where
  "send_to a sock = sbind (of_result (pass_send a sock)) (\<lambda>accepted.
     case sock of
       UpstreamSocket \<Rightarrow> sbind (sget to_upstream) (\<lambda>buffer. let sent = min accepted (length buffer) in
         if sent \<noteq> 0 then smod (\<lambda>s. s\<lparr>to_upstream := drop sent buffer, sent_upstream := sent_upstream s @ take sent buffer,
           last_activity := pass_send_now a sock\<rparr>) else sret ())
     | ClientSocket \<Rightarrow> sbind (sget to_client) (\<lambda>buffer. let sent = min accepted (length buffer) in
         if sent \<noteq> 0 then smod (\<lambda>s. s\<lparr>to_client := drop sent buffer, sent_client := sent_client s @ take sent buffer,
           last_activity := pass_send_now a sock\<rparr>) else sret ()))"

definition wanted_reads :: "int \<Rightarrow> pump \<Rightarrow> relay_socket list" where
  "wanted_reads limit s = (if client_open s \<and> int (length (to_upstream s)) < limit then [ClientSocket] else []) @
     (if upstream_open s \<and> int (length (to_client s)) < limit then [UpstreamSocket] else [])"

definition wanted_writes :: "pump \<Rightarrow> relay_socket list" where
  "wanted_writes s = (if to_upstream s \<noteq> [] then [UpstreamSocket] else []) @
     (if to_client s \<noteq> [] then [ClientSocket] else [])"

text \<open>One pass; the end is told apart by which of the three exits it takes. \<open>select\<close> returns those of the
  sockets it was asked for that are ready, in the order asked.\<close>

definition relay_pass :: "int \<Rightarrow> int \<Rightarrow> pass_answers \<Rightarrow> relay_end option pump_act" where
  "relay_pass limit idle a = sbind (sget id) (\<lambda>s.
     if pass_stop a then sret (Some Stopped)
     else if pass_now a - last_activity s \<ge> of_int idle then sret (Some IdleTimeout)
     else let reads = wanted_reads limit s; writes = wanted_writes s in
       if reads = [] \<and> writes = [] then sret (Some Drained)
       else sbind (of_result (pass_select a)) (\<lambda>(readable, writable).
         sbind (sfor (filter (\<lambda>x. x \<in> readable) reads) (receive_from limit a)) (\<lambda>_.
         sbind (sfor (filter (\<lambda>x. x \<in> writable) writes) (send_to a)) (\<lambda>_. sret None))))"

text \<open>The loop on the answers of its passes; \<open>None\<close> while it is still running when they are used up.\<close>

fun relay_loop :: "int \<Rightarrow> int \<Rightarrow> pass_answers list \<Rightarrow> relay_end option pump_act" where
  "relay_loop limit idle [] = sret None"
| "relay_loop limit idle (a # as) = sbind (relay_pass limit idle a) (\<lambda>r. case r of
     Some e \<Rightarrow> sret (Some e) | None \<Rightarrow> relay_loop limit idle as)"

section \<open>What was received is sent, in order\<close>

text \<open>Each direction is one stream; the buffers hold what is still to be sent and stay within their limits. A side
  is shut down for writing only after the other side ended.\<close>

definition pump_ok :: "int \<Rightarrow> byte list \<Rightarrow> pump \<Rightarrow> bool" where
  "pump_ok limit initial s \<longleftrightarrow> initial @ from_client s = sent_upstream s @ to_upstream s \<and>
     from_upstream s = sent_client s @ to_client s \<and>
     int (length (to_upstream s)) \<le> max limit (int (length initial)) \<and> int (length (to_client s)) \<le> max limit 0 \<and>
     (shut_upstream s \<longleftrightarrow> \<not> client_open s) \<and> (shut_client s \<longleftrightarrow> \<not> upstream_open s)"

lemma pump_start_ok: "pump_ok limit initial (pump_start initial now)"
  by (simp add: pump_ok_def pump_start_def)

lemma receive_ok: "keeps_inv (pump_ok limit initial) (receive_from limit a sock)"
  unfolding keeps_inv_iff receive_from_def
  by (auto simp: sbind_def sget_def of_result_def smod_def sret_def sraise_def Let_def pump_ok_def recv_size_def
      split: relay_socket.split sum.split)

lemma send_ok: "keeps_inv (pump_ok limit initial) (send_to a sock)"
  unfolding keeps_inv_iff send_to_def
  by (auto simp: sbind_def sget_def of_result_def smod_def sret_def sraise_def Let_def pump_ok_def
      split: relay_socket.split sum.split)

lemma pass_ok: "keeps_inv (pump_ok limit initial) (relay_pass limit idle a)"
  unfolding relay_pass_def Let_def split_beta
  by (intro act_rules keeps_sfor receive_ok send_ok)

lemma loop_ok: "keeps_inv (pump_ok limit initial) (relay_loop limit idle as)"
  by (induction as) (auto intro!: keeps_sbind pass_ok split: option.split)

lemma loop_drained:
  "relay_loop limit idle as s = (Inr (Some Drained), s') \<Longrightarrow> wanted_reads limit s' = [] \<and> wanted_writes s' = []"
proof (induction as arbitrary: s)
  case (Cons a as)
  then obtain r s1 where p: "relay_pass limit idle a s = (Inr r, s1)"
    and c: "(case r of Some e \<Rightarrow> sret (Some e) | None \<Rightarrow> relay_loop limit idle as) s1 = (Inr (Some Drained), s')"
    by (auto simp: sbind_Inr)
  show ?case
  proof (cases r)
    case None
    with c Cons.IH show ?thesis by simp
  next
    case (Some e)
    with c have "e = Drained" "s' = s1" by (auto simp: sret_def)
    with p Some show ?thesis
      by (auto simp: relay_pass_def sbind_Inr sget_def sret_def Let_def split: if_splits prod.splits)
  qed
qed (simp add: sret_def)

section \<open>The loop raises only what the sockets raise\<close>

definition destination_of :: "relay_socket \<Rightarrow> pump \<Rightarrow> byte list" where
  "destination_of sock s = (case sock of ClientSocket \<Rightarrow> to_upstream s | UpstreamSocket \<Rightarrow> to_client s)"

lemma receive_raises:
  assumes "receive_from limit a sock s = (Inl e, s')" "int (length (destination_of sock s)) \<le> limit"
  shows "pass_recv a sock = Inl e"
  using assms by (auto simp: receive_from_def destination_of_def sbind_def sget_def of_result_def smod_def sret_def sraise_def
      Let_def recv_size_def split: relay_socket.splits sum.splits if_splits)

lemma receive_other: "receive_from limit a sock s = (r, s') \<Longrightarrow> x \<noteq> sock \<Longrightarrow> destination_of x s' = destination_of x s"
  by (auto simp: receive_from_def destination_of_def sbind_def sget_def of_result_def smod_def sret_def sraise_def Let_def
      split: relay_socket.splits sum.splits if_splits)

lemma receives_raise:
  "sfor xs (receive_from limit a) s = (Inl e, s') \<Longrightarrow> distinct xs \<Longrightarrow>
    \<forall>x \<in> set xs. int (length (destination_of x s)) \<le> limit \<Longrightarrow> \<exists>x. pass_recv a x = Inl e"
proof (induction xs arbitrary: s)
  case (Cons x xs)
  obtain r s1 where r: "receive_from limit a x s = (r, s1)" by force
  show ?case
  proof (cases r)
    case (Inl e')
    with r Cons.prems have "receive_from limit a x s = (Inl e, s')" by (simp add: sbind_def)
    with receive_raises Cons.prems(3) show ?thesis by fastforce
  next
    case (Inr u)
    with r Cons.prems have "sfor xs (receive_from limit a) s1 = (Inl e, s')" by (simp add: sbind_def)
    moreover have "\<forall>y \<in> set xs. int (length (destination_of y s1)) \<le> limit"
    proof
      fix y
      assume y: "y \<in> set xs"
      with Cons.prems(2) have "y \<noteq> x" by auto
      from receive_other [OF r this] y Cons.prems(3) show "int (length (destination_of y s1)) \<le> limit" by simp
    qed
    ultimately show ?thesis using Cons.IH Cons.prems(2) by simp
  qed
qed (simp add: sret_def)

lemma sends_raise: "sfor xs (send_to a) s = (Inl e, s') \<Longrightarrow> \<exists>x. pass_send a x = Inl e"
proof (induction xs arbitrary: s)
  case (Cons x xs)
  obtain r s1 where r: "send_to a x s = (r, s1)" by force
  show ?case
  proof (cases r)
    case (Inl e')
    then have "pass_send a x = Inl e'" using r
      by (auto simp: send_to_def sbind_def sget_def of_result_def smod_def sret_def sraise_def Let_def
          split: relay_socket.splits sum.splits if_splits)
    with r Inl Cons.prems show ?thesis by (auto simp: sbind_def)
  next
    case (Inr u)
    with r Cons show ?thesis by (auto simp: sbind_def)
  qed
qed (simp add: sret_def)

text \<open>What the system raised in a pass.\<close>

definition socket_error :: "pass_answers \<Rightarrow> exn \<Rightarrow> bool" where
  "socket_error a e \<longleftrightarrow> pass_select a = Inl e \<or> (\<exists>x. pass_recv a x = Inl e) \<or> (\<exists>x. pass_send a x = Inl e)"

lemma pass_raises:
  assumes "relay_pass limit idle a s = (Inl e, s')"
  shows "socket_error a e"
proof (cases "pass_select a")
  case (Inl x)
  with assms show ?thesis
    by (auto simp: relay_pass_def socket_error_def sbind_def sget_def sret_def of_result_def sraise_def Let_def split: if_splits)
next
  case (Inr x)
  obtain readable writable where x: "x = (readable, writable)" by force
  let ?xs = "filter (\<lambda>x. x \<in> readable) (wanted_reads limit s)"
  obtain r s1 where r: "sfor ?xs (receive_from limit a) s = (r, s1)" by force
  show ?thesis
  proof (cases r)
    case (Inl e')
    with assms Inr x r have "e' = e"
      by (auto simp: relay_pass_def sbind_def sget_def sret_def of_result_def Let_def split: if_splits)
    moreover have "distinct ?xs" "\<forall>x \<in> set ?xs. int (length (destination_of x s)) \<le> limit"
      by (auto simp: wanted_reads_def destination_of_def)
    ultimately show ?thesis using receives_raise r Inl by (auto simp: socket_error_def)
  next
    case (Inr u)
    with assms \<open>pass_select a = Inr x\<close> x r obtain s2 where "sfor (filter (\<lambda>x. x \<in> writable) (wanted_writes s)) (send_to a) s1 = (Inl e, s2)"
      by (auto simp: relay_pass_def sbind_def sget_def sret_def of_result_def Let_def split: if_splits prod.splits sum.splits)
    then show ?thesis using sends_raise by (auto simp: socket_error_def)
  qed
qed

lemma loop_raises: "relay_loop limit idle as s = (Inl e, s') \<Longrightarrow> \<exists>a \<in> set as. socket_error a e"
proof (induction as arbitrary: s)
  case (Cons a as)
  then show ?case
    using pass_raises [of limit idle a s e]
    by (auto simp: sbind_def sret_def split: prod.splits sum.splits option.splits)
qed (simp add: sret_def)

section \<open>A quiet connection ends\<close>

definition moved :: "pump \<Rightarrow> nat" where
  "moved s = length (from_client s) + length (from_upstream s) + length (sent_upstream s) + length (sent_client s)"

text \<open>Bytes only accumulate, and as long as none moves the time of the last activity stays.\<close>

definition since :: "pump \<Rightarrow> pump \<Rightarrow> bool" where
  "since s0 s \<longleftrightarrow> moved s0 \<le> moved s \<and> (moved s = moved s0 \<longrightarrow> last_activity s = last_activity s0)"

lemma since_receive:
  "chunk \<noteq> [] \<Longrightarrow> since s0 s \<Longrightarrow> since s0 (s\<lparr>last_activity := t, to_upstream := b, from_client := from_client s @ chunk\<rparr>)"
  "chunk \<noteq> [] \<Longrightarrow> since s0 s \<Longrightarrow> since s0 (s\<lparr>last_activity := t, to_client := b, from_upstream := from_upstream s @ chunk\<rparr>)"
  "since s0 (s\<lparr>client_open := c, shut_upstream := d\<rparr>) = since s0 s"
  "since s0 (s\<lparr>upstream_open := c, shut_client := d\<rparr>) = since s0 s"
  by (auto simp: since_def moved_def neq_Nil_conv)

lemma since_send:
  "chunk \<noteq> [] \<Longrightarrow> since s0 s \<Longrightarrow> since s0 (s\<lparr>to_upstream := b, sent_upstream := sent_upstream s @ chunk, last_activity := t\<rparr>)"
  "chunk \<noteq> [] \<Longrightarrow> since s0 s \<Longrightarrow> since s0 (s\<lparr>to_client := b, sent_client := sent_client s @ chunk, last_activity := t\<rparr>)"
  by (auto simp: since_def moved_def neq_Nil_conv)

lemma receive_since: "keeps_inv (since s0) (receive_from limit a sock)"
  unfolding receive_from_def Let_def
  by (cases sock) (auto intro!: act_rules since_receive simp: since_receive(3,4))

lemma send_since: "keeps_inv (since s0) (send_to a sock)"
  unfolding keeps_inv_iff send_to_def
  by (cases sock) (auto simp: sbind_def sget_def of_result_def smod_def sret_def sraise_def Let_def
      min_def intro!: since_send split: sum.split)

lemma pass_since: "keeps_inv (since s0) (relay_pass limit idle a)"
  unfolding relay_pass_def Let_def split_beta
  by (intro act_rules keeps_sfor receive_since send_since)

lemma loop_since: "keeps_inv (since s0) (relay_loop limit idle as)"
  by (induction as) (auto intro!: keeps_sbind pass_since split: option.split)

lemma pass_not_idle:
  "relay_pass limit idle a s = (Inr None, s') \<Longrightarrow> pass_now a - last_activity s < of_int idle"
  by (auto simp: relay_pass_def sbind_Inr sget_def sret_def Let_def split: if_splits)

lemma quiet_loop_ends:
  "relay_loop limit idle as s = (Inr None, s') \<Longrightarrow> moved s' = moved s \<Longrightarrow> a \<in> set as \<Longrightarrow>
    pass_now a - last_activity s < of_int idle"
proof (induction as arbitrary: s)
  case (Cons b bs)
  then obtain s1 where p: "relay_pass limit idle b s = (Inr None, s1)" and l: "relay_loop limit idle bs s1 = (Inr None, s')"
    by (auto simp: sbind_Inr sret_def split: option.splits)
  have "since s s1" "since s1 s'"
    using keeps_invD [OF pass_since _ p] keeps_invD [OF loop_since _ l] by (simp_all add: since_def)
  then have "moved s' = moved s1" "last_activity s1 = last_activity s" using Cons.prems(2) by (auto simp: since_def)
  with Cons.IH [OF l] pass_not_idle [OF p] Cons.prems(3) show ?case by auto
qed simp

section \<open>Concrete runs\<close>

definition demo_pass :: pass_answers where
  "demo_pass = \<lparr>pass_stop = False, pass_now = 10, pass_select = Inr ({ClientSocket, UpstreamSocket}, {ClientSocket, UpstreamSocket}),
     pass_recv = (\<lambda>_. Inr []), pass_recv_now = (\<lambda>_. 10), pass_send = (\<lambda>_. Inr 2), pass_send_now = (\<lambda>_. 10)\<rparr>"

text \<open>One byte comes from each side, then both end; the three bytes go upstream in two passes and the loop is done.\<close>

definition demo_passes :: "pass_answers list" where
  "demo_passes = [demo_pass\<lparr>pass_recv := (\<lambda>x. case x of ClientSocket \<Rightarrow> Inr [3] | UpstreamSocket \<Rightarrow> Inr [7])\<rparr>,
     demo_pass, demo_pass, demo_pass]"

lemmas pump_eval = demo_pass_def demo_passes_def pump_start_def relay_pass_def wanted_reads_def wanted_writes_def
  receive_from_def send_to_def recv_size_def sbind_def sget_def of_result_def smod_def sret_def sraise_def Let_def

lemma demo_drained: "relay_loop 1000 300 demo_passes (pump_start [1, 2] 0) =
    (Inr (Some Drained), \<lparr>to_upstream = [], to_client = [], client_open = False, upstream_open = False, last_activity = 10,
      from_client = [3], from_upstream = [7], sent_upstream = [1, 2, 3], sent_client = [7],
      shut_upstream = True, shut_client = True\<rparr>)"
  by (simp add: pump_eval)

text \<open>The write side of the upstream socket is shut down as soon as the client ends, also while bytes for it
  are still buffered.\<close>

lemma half_close_before_sent:
  "snd (relay_pass 1000 300 (demo_pass\<lparr>pass_select := Inr ({ClientSocket}, {})\<rparr>) (pump_start [1, 2] 0)) =
     (pump_start [1, 2] 0)\<lparr>client_open := False, shut_upstream := True\<rparr>"
  by (simp add: pump_eval)

section \<open>Properties\<close>



text \<open>C18. A connection on which nothing moves is given up: when the clock of some pass shows that the idle time has
  gone by since the last byte before the run, and no byte moved in the run, the loop has ended.\<close>

theorem relay_idle_ends:
  assumes "relay_loop limit idle as s = (r, s')" "moved s' = moved s" "a \<in> set as"
    "pass_now a - last_activity s \<ge> of_int idle"
  shows "r \<noteq> Inr None"
  using quiet_loop_ends [of limit idle as s s' a] assms by auto

theorem relay_idle_ends_witness:
  "fst (relay_loop 1000 300 [demo_pass\<lparr>pass_select := Inr ({}, {})\<rparr>, demo_pass\<lparr>pass_now := 301\<rparr>] (pump_start [1, 2] 0)) \<noteq> Inr None"
proof -
  let ?l = "relay_loop 1000 300 [demo_pass\<lparr>pass_select := Inr ({}, {})\<rparr>, demo_pass\<lparr>pass_now := 301\<rparr>] (pump_start [1, 2] 0)"
  have "moved (snd ?l) = moved (pump_start [1, 2] 0)" "pass_now (demo_pass\<lparr>pass_now := 301\<rparr>) - last_activity (pump_start [1, 2] 0) \<ge> of_int 300"
    by (simp_all add: pump_eval moved_def)
  then show ?thesis using relay_idle_ends [OF prod.collapse [of ?l, symmetric], of "demo_pass\<lparr>pass_now := 301\<rparr>"] by simp
qed

end
