(* ===== verification/McpCoordinator.thy ===== *)
theory McpCoordinator
  imports Prelude
begin

text \<open>
  The serial coordinator of the remote control (\<open>fakenet/mcp/coordination.py\<close>): who may change the
  managed run, one version counter, a cache of commands for retries, and the bounded event log. A command is
  checked under the lock, executed without it and completed under it again; other threads run in between,
  so the three phases are separate operations. Responses are values here; the code copies the nested ones.
  Time stamps and the details of an error are not modelled; of the further fields of an event the command, the
  state, the reason and the run are kept.
\<close>

section \<open>Event log\<close>

record mcp_event =
  ev_seq :: int
  ev_kind :: string
  ev_command :: "string option"
  ev_state :: "string option"
  ev_reason :: "string option"
  ev_run_id :: "string option"

record event_log =
  log_limit :: nat
  log_epoch :: string
  log_seq :: int
  log_entries :: "mcp_event list"

definition new_log :: "nat \<Rightarrow> string \<Rightarrow> event_log" where
  "new_log limit epoch = \<lparr>log_limit = limit, log_epoch = epoch, log_seq = 0, log_entries = []\<rparr>"

definition log_record :: "string \<Rightarrow> string option \<Rightarrow> string option \<Rightarrow> string option \<Rightarrow> string option \<Rightarrow> event_log \<Rightarrow> event_log" where
  "log_record kind command st reason run l = (let entries = log_entries l @ [\<lparr>ev_seq = log_seq l + 1, ev_kind = kind,
       ev_command = command, ev_state = st, ev_reason = reason, ev_run_id = run\<rparr>] in
     l\<lparr>log_seq := log_seq l + 1, log_entries := drop (length entries - log_limit l) entries\<rparr>)"

text \<open>\<open>items[-limit:] if limit else items\<close>.\<close>

definition log_snapshot :: "nat option \<Rightarrow> event_log \<Rightarrow> mcp_event list" where
  "log_snapshot limit l = (case limit of None \<Rightarrow> log_entries l
     | Some n \<Rightarrow> if n = 0 then log_entries l else drop (length (log_entries l) - n) (log_entries l))"

definition log_window :: "event_log \<Rightarrow> string \<times> mcp_event list \<times> int option \<times> int" where
  "log_window l = (let items = log_entries l in
     (log_epoch l, items, if items = [] then None else Some (ev_seq (hd items)), if items = [] then 0 else ev_seq (last items)))"

section \<open>Commands\<close>

datatype mcp_exn = McpError string string | OtherExn string

fun exn_text :: "mcp_exn \<Rightarrow> string" where
  "exn_text (McpError _ message) = message"
| "exn_text (OtherExn text) = text"

text \<open>The fields of a result that the coordinator reads; \<open>None\<close> is an absent key. Where the value itself may be
  Python's \<open>None\<close> the option is doubled. Nested structures are opaque texts, a verification with its identity.\<close>

record exec_result =
  res_state :: "string option"
  res_run_id :: "string option option"
  res_failure :: "string option"
  res_controller :: "string option"
  res_release :: "bool option"
  res_changed :: "bool option"
  res_config_identity :: "string option option"
  res_last_outcome :: "string option option"
  res_bound_run_id :: "string option"
  res_config_result :: "string option"
  res_verification :: "(string \<times> string option) option"
  res_checkpoint :: "string option"

text \<open>A response; where it carries a checkpoint the code also notes that the controller was not released.\<close>

record mcp_response =
  rs_state :: string
  rs_version :: int
  rs_run_id :: "string option"
  rs_changed :: bool
  rs_command_id :: string
  rs_in_progress :: bool
  rs_replayed :: bool
  rs_last_outcome :: "string option"
  rs_bound_run_id :: "string option"
  rs_config_identity :: "string option option"
  rs_config_result :: "string option"
  rs_verification :: "(string \<times> string option) option"
  rs_verification_id :: "string option"
  rs_checkpoint :: "string option"

text \<open>A request; \<open>rq_verification_id\<close> is what its description holds under that key.\<close>

record request =
  rq_command_id :: string
  rq_expected :: int
  rq_controller :: "string option"
  rq_valid :: bool
  rq_kind :: string
  rq_verification_id :: "string option"
  rq_internal :: bool
  rq_conflicts :: "string list option"
  rq_identity :: "string option"

record cached_command =
  cc_controller :: "string option"
  cc_kind :: string
  cc_identity :: "string option"
  cc_response :: mcp_response
  cc_exception :: "mcp_exn option"

record coordinator =
  co_state :: string
  co_version :: int
  co_run_id :: "string option"
  co_controller :: "string option"
  co_failure :: "string option"
  co_config_identity :: "string option"
  co_commands :: "(string, cached_command) dict"
  co_draining :: bool
  co_last_outcome :: "string option"
  co_operation_active :: bool
  co_active :: "(string, string list option) dict"
  co_exit_fenced :: "string list"
  co_exit_failure :: "string option"
  co_recovery :: bool
  co_recovery_running :: bool
  co_run_ends :: nat
  co_events :: event_log

definition new_coordinator :: "string \<Rightarrow> coordinator" where
  "new_coordinator epoch = \<lparr>co_state = ''stopped'', co_version = 1, co_run_id = None, co_controller = None,
     co_failure = None, co_config_identity = None, co_commands = [], co_draining = False, co_last_outcome = None,
     co_operation_active = False, co_active = [], co_exit_fenced = [], co_exit_failure = None, co_recovery = False,
     co_recovery_running = False, co_run_ends = 0, co_events = new_log 500 epoch\<rparr>"

definition log_event :: "string \<Rightarrow> string option \<Rightarrow> string option \<Rightarrow> string option \<Rightarrow> coordinator \<Rightarrow> coordinator" where
  "log_event kind command st reason c = c\<lparr>co_events := log_record kind command st reason None (co_events c)\<rparr>"

section \<open>Recovery when idle\<close>

text \<open>Starting the thread is \<open>co_recovery_running\<close>; its end is \<open>recovery_done\<close>.\<close>

definition dispatch_idle_recovery :: "coordinator \<Rightarrow> coordinator" where
  "dispatch_idle_recovery c =
     (if co_active c \<noteq> [] \<or> \<not> co_recovery c \<or> co_recovery_running c then c else c\<lparr>co_recovery_running := True\<rparr>)"

definition recover_when_idle :: "coordinator \<Rightarrow> coordinator" where
  "recover_when_idle c = dispatch_idle_recovery (c\<lparr>co_recovery := True\<rparr>)"

definition recovery_done :: "coordinator \<Rightarrow> coordinator" where
  "recovery_done c = c\<lparr>co_recovery := False, co_recovery_running := False\<rparr>"

section \<open>Submitting a command\<close>

definition active_conflicts :: "string list option \<Rightarrow> coordinator \<Rightarrow> bool" where
  "active_conflicts names c =
     (if co_active c = [] then False
      else if co_state c \<noteq> ''stopped'' \<or> co_controller c \<noteq> None then True
      else list_ex (\<lambda>owned. owned = None \<or> names = None \<or> set (the owned) \<inter> set (the names) \<noteq> {}) (dvals (co_active c)))"

text \<open>Only completed commands are evicted, the ones accepted first before the others.\<close>

definition completed_commands :: "(string, string list option) dict \<Rightarrow> (string, cached_command) dict \<Rightarrow> string list" where
  "completed_commands act commands = filter (\<lambda>key. dget act key = None) (dkeys commands)"

definition evict_commands :: "(string, string list option) dict \<Rightarrow> (string, cached_command) dict \<Rightarrow> (string, cached_command) dict" where
  "evict_commands act commands = (let completed = completed_commands act commands in
     fold ddel (take (length completed - 256) completed) commands)"

definition finish_operation :: "string \<Rightarrow> coordinator \<Rightarrow> coordinator" where
  "finish_operation cid c0 =
     (let c1 = c0\<lparr>co_active := ddel cid (co_active c0)\<rparr>;
          c = dispatch_idle_recovery (c1\<lparr>co_operation_active := (co_active c1 \<noteq> [])\<rparr>) in
      c\<lparr>co_commands := evict_commands (co_active c) (co_commands c)\<rparr>)"

definition in_progress_response :: "request \<Rightarrow> coordinator \<Rightarrow> mcp_response" where
  "in_progress_response rq c = \<lparr>rs_state = co_state c, rs_version = co_version c, rs_run_id = co_run_id c,
     rs_changed = False, rs_command_id = rq_command_id rq, rs_in_progress = True, rs_replayed = False,
     rs_last_outcome = None, rs_bound_run_id = None, rs_config_identity = None, rs_config_result = None,
     rs_verification = None,
     rs_verification_id = (if rq_kind rq = ''verify_egress'' then rq_verification_id rq else None), rs_checkpoint = None\<rparr>"

definition command_entry :: "request \<Rightarrow> mcp_response \<Rightarrow> cached_command" where
  "command_entry rq response = \<lparr>cc_controller = rq_controller rq, cc_kind = rq_kind rq, cc_identity = rq_identity rq,
     cc_response = response, cc_exception = None\<rparr>"

text \<open>A retry of a known command: the identity checks, then the original outcome.\<close>

definition replay_command :: "request \<Rightarrow> cached_command \<Rightarrow> mcp_exn + mcp_response" where
  "replay_command rq cached =
     (if cc_controller cached \<noteq> rq_controller rq
      then Inl (McpError ''controller_conflict'' ''command_id belongs to another controller'')
      else if cc_kind cached \<noteq> rq_kind rq \<and> (rq_kind rq = ''verify_egress'' \<or> cc_kind cached = ''verify_egress'')
      then Inl (McpError ''invalid_request'' ''command_id belongs to another kind'')
      else if cc_identity cached \<noteq> None \<and> rq_identity rq \<noteq> None \<and> cc_identity cached \<noteq> rq_identity rq
      then Inl (McpError ''invalid_request'' ''command_id reused with different request'')
      else (case cc_exception cached of
          Some e \<Rightarrow> Inl e
        | None \<Rightarrow> Inr ((cc_response cached)\<lparr>rs_replayed := True\<rparr>)))"

text \<open>The checks before a retry is recognised.\<close>

definition identity_gate :: "request \<Rightarrow> coordinator \<Rightarrow> mcp_exn option" where
  "identity_gate rq c =
     (if (co_draining c \<or> co_state c = ''recovering'' \<or> co_recovery c) \<and> \<not> rq_internal rq
      then Some (McpError ''not_allowed_in_state'' ''service is in controlled shutdown; new mutations rejected'')
      else if \<not> rq_valid rq
      then Some (McpError ''controller_identity_missing'' ''mutation requires a valid X-FakeNet-Controller-ID header'')
      else if co_controller c \<noteq> None \<and> rq_controller rq \<noteq> co_controller c
      then Some (McpError ''controller_conflict'' ''another controller owns the active run'')
      else if rq_controller rq = None \<and> \<not> rq_internal rq
      then Some (McpError ''controller_identity_missing'' ''mutation requires controller identity'')
      else if rq_kind rq = ''verify_egress'' \<and> (rq_identity rq = None \<or> rq_identity rq = Some [])
      then Some (McpError ''invalid_request'' ''verification requires a non-empty semantic request identity'')
      else None)"

text \<open>Phase 1: \<open>Inr None\<close> is a command that was accepted and is executed next.\<close>

definition submit_begin :: "request \<Rightarrow> coordinator \<Rightarrow> (mcp_exn + mcp_response option) \<times> coordinator" where
  "submit_begin rq c = (case identity_gate rq c of
     Some e \<Rightarrow> (Inl e, c)
   | None \<Rightarrow> (case dget (co_commands c) (rq_command_id rq) of
       Some cached \<Rightarrow> (case replay_command rq cached of Inl e \<Rightarrow> (Inl e, c) | Inr response \<Rightarrow> (Inr (Some response), c))
     | None \<Rightarrow>
         if active_conflicts (rq_conflicts rq) c then (Inl (McpError ''operation_busy'' ''another mutation is executing''), c)
         else if rq_expected rq \<noteq> co_version c
         then (Inl (McpError ''state_conflict'' ''expected_state_version does not match current state''), c)
         else (let c1 = c\<lparr>co_version := co_version c + 1,
                   co_active := dset (rq_command_id rq) (rq_conflicts rq) (co_active c), co_operation_active := True\<rparr>;
                   c2 = c1\<lparr>co_commands := dset (rq_command_id rq) (command_entry rq (in_progress_response rq c1)) (co_commands c1)\<rparr> in
               (Inr None, log_event ''command.accepted'' (Some (rq_command_id rq)) None None c2))))"

text \<open>Phase 2 ended with an exception; \<open>None\<close> would be a \<open>KeyError\<close> on the cached command.\<close>

definition submit_failed :: "request \<Rightarrow> mcp_exn \<Rightarrow> coordinator \<Rightarrow> coordinator option" where
  "submit_failed rq e c = (case dget (co_commands c) (rq_command_id rq) of
     None \<Rightarrow> None
   | Some cached \<Rightarrow>
       (let c1 = c\<lparr>co_commands := dset (rq_command_id rq) (cached\<lparr>cc_exception := Some e\<rparr>) (co_commands c)\<rparr> in
        Some (finish_operation (rq_command_id rq)
          (log_event ''command.failed'' (Some (rq_command_id rq)) None (Some (exn_text e)) c1))))"

text \<open>An operation that was under way when the controlled exit failed may neither announce another state nor
  release the run.\<close>

definition fence_result :: "string option \<Rightarrow> exec_result \<Rightarrow> exec_result" where
  "fence_result exit_failure r = r\<lparr>res_state := Some ''failed'', res_failure := exit_failure, res_release := Some False,
     res_run_id := (if Option.bind (res_run_id r) id = None then None else res_run_id r)\<rparr>"

definition apply_result :: "request \<Rightarrow> exec_result \<Rightarrow> coordinator \<Rightarrow> coordinator" where
  "apply_result rq r c =
     (let run_id = (case res_run_id r of None \<Rightarrow> co_run_id c | Some v \<Rightarrow> v);
          st = (case res_state r of None \<Rightarrow> co_state c | Some s \<Rightarrow> s);
          failure = (if res_failure r \<noteq> None then res_failure r else if st \<noteq> ''failed'' then None else co_failure c);
          run_ended = (co_run_id c \<noteq> None \<and> run_id = None);
          owner = (if res_release r = Some True then None else if res_controller r \<noteq> None then res_controller r else co_controller c);
          c1 = log_event ''command.completed'' (Some (rq_command_id rq)) (Some st) None
            (c\<lparr>co_run_id := run_id, co_state := st, co_failure := failure, co_controller := owner,
               co_config_identity := (case res_config_identity r of None \<Rightarrow> co_config_identity c | Some v \<Rightarrow> v)\<rparr>);
          c2 = (if run_ended then c1\<lparr>co_run_ends := co_run_ends c1 + 1\<rparr> else c1) in
      c2\<lparr>co_last_outcome := (case res_last_outcome r of
           Some v \<Rightarrow> v
         | None \<Rightarrow> if res_release r = Some True \<and> res_changed r \<noteq> Some False \<and> res_state r = Some ''stopped''
             then Some ''ok'' else co_last_outcome c2)\<rparr>)"

definition final_response :: "request \<Rightarrow> bool \<Rightarrow> exec_result \<Rightarrow> coordinator \<Rightarrow> mcp_response" where
  "final_response rq fenced r c = \<lparr>rs_state = co_state c, rs_version = co_version c, rs_run_id = co_run_id c,
     rs_changed = (res_changed r \<noteq> Some False), rs_command_id = rq_command_id rq, rs_in_progress = False,
     rs_replayed = False, rs_last_outcome = co_last_outcome c, rs_bound_run_id = res_bound_run_id r,
     rs_config_identity = res_config_identity r, rs_config_result = res_config_result r,
     rs_verification = (if rq_kind rq = ''verify_egress'' then res_verification r else None),
     rs_verification_id = (if rq_kind rq = ''verify_egress'' then Option.bind (res_verification r) snd else None),
     rs_checkpoint = (if \<not> fenced \<and> rq_kind rq = ''capture_stop'' \<and> res_release r = Some False \<and>
         res_state r = Some ''healthy'' \<and> Option.bind (res_run_id r) id \<noteq> None \<and> res_run_id r = Some (co_run_id c)
       then res_checkpoint r else None)\<rparr>"

text \<open>Phase 3.\<close>

definition submit_finish :: "request \<Rightarrow> exec_result \<Rightarrow> coordinator \<Rightarrow> mcp_response \<times> coordinator" where
  "submit_finish rq result c0 =
     (let cid = rq_command_id rq;
          fenced = (cid \<in> set (co_exit_fenced c0));
          c1 = finish_operation cid (c0\<lparr>co_exit_fenced := removeAll cid (co_exit_fenced c0)\<rparr>);
          r = (if fenced then fence_result (co_exit_failure c1) result else result);
          c2 = apply_result rq r c1;
          response = final_response rq fenced r c2 in
      (response, finish_operation cid (c2\<lparr>co_commands := dset cid (command_entry rq response) (co_commands c2)\<rparr>)))"

section \<open>Transitions outside commands\<close>

definition end_run :: "coordinator \<Rightarrow> coordinator" where
  "end_run c = c\<lparr>co_run_id := None, co_controller := None\<rparr>"

definition release_run_scope :: "bool \<Rightarrow> coordinator \<Rightarrow> coordinator" where
  "release_run_scope run_ended c = (if run_ended then c\<lparr>co_run_ends := co_run_ends c + 1\<rparr> else c)"

definition record_terminal_failure :: "string \<Rightarrow> coordinator \<Rightarrow> coordinator" where
  "record_terminal_failure reason c =
     (let stopped = (co_state c = ''stopped'');
          c1 = (if stopped then end_run c else c\<lparr>co_state := ''failed''\<rparr>);
          c2 = c1\<lparr>co_failure := Some reason, co_last_outcome := Some ''failed''\<rparr> in
      release_run_scope (stopped \<and> co_run_id c \<noteq> None) (log_event ''terminal_failure'' None None (Some reason) c2))"

definition begin_draining :: "coordinator \<Rightarrow> coordinator" where
  "begin_draining c = log_event ''draining.begin'' None None None (c\<lparr>co_draining := True\<rparr>)"

text \<open>The marker of an earlier process, when it still needs recovery: its run and its controller.\<close>

definition restore_responsibility ::
  "(string option \<times> string option) option \<Rightarrow> string \<Rightarrow> string option \<Rightarrow> string option \<Rightarrow> coordinator \<Rightarrow> coordinator" where
  "restore_responsibility marker st reason last_outcome c =
     (let c1 = c\<lparr>co_state := st, co_failure := reason,
            co_last_outcome := (if last_outcome \<noteq> None then last_outcome else co_last_outcome c)\<rparr>;
          c2 = (case marker of None \<Rightarrow> c1 | Some (run_id, owner) \<Rightarrow> c1\<lparr>co_run_id := run_id, co_controller := owner\<rparr>);
          run_ended = (st = ''stopped'' \<and> co_run_id c2 \<noteq> None);
          c3 = (if st = ''stopped'' then end_run c2 else c2) in
      release_run_scope run_ended (log_event ''recovery'' None (Some st) reason c3))"

definition fail_controlled_exit :: "string \<Rightarrow> coordinator \<Rightarrow> coordinator" where
  "fail_controlled_exit reason c = log_event ''draining.failed'' None None (Some reason)
     (c\<lparr>co_draining := True, co_exit_failure := Some reason,
        co_exit_fenced := remdups (co_exit_fenced c @ dkeys (co_active c)),
        co_state := ''failed'', co_failure := Some reason\<rparr>)"

text \<open>An empty reason of the failed exit counts as none.\<close>

definition update_health_state :: "string \<Rightarrow> string option \<Rightarrow> coordinator \<Rightarrow> coordinator" where
  "update_health_state st reason c =
     (let (st', reason') = (if co_exit_failure c \<noteq> None \<and> co_exit_failure c \<noteq> Some [] \<and>
              st \<in> {''healthy'', ''starting'', ''degraded''} then (''failed'', co_exit_failure c) else (st, reason)) in
      log_event ''health'' None (Some st') reason' (c\<lparr>co_state := st', co_failure := reason'\<rparr>))"

definition set_config_identity :: "string option \<Rightarrow> coordinator \<Rightarrow> coordinator" where
  "set_config_identity identity c = c\<lparr>co_config_identity := identity\<rparr>"

text \<open>A hook of the tests that stands for a restart; no step of a run.\<close>

definition forget_commands :: "coordinator \<Rightarrow> coordinator" where
  "forget_commands c = c\<lparr>co_commands := []\<rparr>"

section \<open>Read-only queries\<close>

datatype command_report = UnknownCommand | FailedCommand mcp_exn | InProgress mcp_response | Completed mcp_response

definition command_status :: "string \<Rightarrow> string option \<Rightarrow> bool \<Rightarrow> coordinator \<Rightarrow> mcp_exn + command_report" where
  "command_status cid controller valid c =
     (if \<not> valid then Inl (McpError ''controller_identity_missing'' ''command queries require a valid X-FakeNet-Controller-ID header'')
      else if co_controller c \<noteq> None \<and> controller \<noteq> co_controller c
      then Inl (McpError ''controller_conflict'' ''another controller owns the active run'')
      else if cid = [] then Inl (McpError ''invalid_request'' ''command_id must be a non-empty string'')
      else (case dget (co_commands c) cid of
          None \<Rightarrow> Inr UnknownCommand
        | Some cached \<Rightarrow>
            if cc_controller cached \<noteq> controller
            then Inl (McpError ''controller_conflict'' ''command_id belongs to another controller'')
            else (case cc_exception cached of
                Some (McpError code message) \<Rightarrow> Inr (FailedCommand (McpError code message))
              | Some (OtherExn _) \<Rightarrow> Inr (FailedCommand (McpError ''internal_error'' ''command failed with an internal error''))
              | None \<Rightarrow> Inr (if rs_in_progress (cc_response cached) then InProgress (cc_response cached) else Completed (cc_response cached)))))"

definition needs_recovery :: "coordinator \<Rightarrow> bool" where
  "needs_recovery c \<longleftrightarrow> co_state c \<in> {''failed'', ''recovering''} \<or> co_draining c"

end
