(* ===== verification/McpRuns.thy ===== *)
theory McpRuns
  imports McpCoordinator
begin

text \<open>
  Runs of the coordinator: the phases of any number of commands and the transitions outside commands, in
  any order. What holds in every state, and what a retry, a stale version, another controller or a failed exit
  can and cannot bring about.
\<close>

section \<open>The command cache\<close>

lemma dget_fold_ddel: "dget (fold ddel ks d) k = (if k \<in> set ks then None else dget d k)"
  by (induction ks arbitrary: d) (auto simp: dict_simps)

lemma dkeys_ddel: "dkeys (ddel k d) = filter (\<lambda>j. j \<noteq> k) (dkeys d)"
  by (induction d) (auto simp: dkeys_def ddel_def)

lemma dkeys_fold_ddel: "dkeys (fold ddel ks d) = filter (\<lambda>j. j \<notin> set ks) (dkeys d)"
  by (induction ks arbitrary: d) (auto simp: dkeys_ddel intro: filter_cong)

lemma dkeys_dset: "dkeys (dset k v d) = (if k \<in> set (dkeys d) then dkeys d else dkeys d @ [k])"
  by (induction d) (auto simp: dkeys_def dset_def)

lemma filter_not_take: "distinct xs \<Longrightarrow> filter (\<lambda>x. x \<notin> set (take n xs)) xs = drop n xs"
proof (induction xs arbitrary: n)
  case (Cons x xs)
  show ?case
  proof (cases n)
    case (Suc m)
    have "filter (\<lambda>y. y \<notin> set (take n (x # xs))) (x # xs) = filter (\<lambda>y. y \<notin> set (take m xs)) xs"
      using Cons.prems by (auto simp: Suc intro!: filter_cong)
    with Cons show ?thesis by (simp add: Suc)
  qed simp
qed simp

lemma evict_keys: "dkeys (evict_commands act cmds) =
    filter (\<lambda>k. k \<notin> set (take (length (completed_commands act cmds) - 256) (completed_commands act cmds))) (dkeys cmds)"
  by (simp add: evict_commands_def Let_def dkeys_fold_ddel)

lemma evict_completed:
  assumes "distinct (dkeys cmds)"
  shows "completed_commands act (evict_commands act cmds) =
    drop (length (completed_commands act cmds) - 256) (completed_commands act cmds)"
proof -
  let ?c = "completed_commands act cmds"
  have "completed_commands act (evict_commands act cmds) = filter (\<lambda>k. k \<notin> set (take (length ?c - 256) ?c)) ?c"
    by (simp add: completed_commands_def [of act "evict_commands act cmds"] evict_keys)
      (simp add: completed_commands_def conj_commute)
  also have "\<dots> = drop (length ?c - 256) ?c"
    using assms by (intro filter_not_take) (simp add: completed_commands_def)
  finally show ?thesis .
qed

lemma evict_bound: "distinct (dkeys cmds) \<Longrightarrow> length (completed_commands act (evict_commands act cmds)) \<le> 256"
  by (simp add: evict_completed)

lemma evict_distinct: "distinct (dkeys cmds) \<Longrightarrow> distinct (dkeys (evict_commands act cmds))"
  by (simp add: evict_keys)

lemma evict_get: "dget (evict_commands act cmds) k = dget cmds k \<or> dget (evict_commands act cmds) k = None \<and> dget act k = None"
proof -
  have "k \<in> set (take n (completed_commands act cmds)) \<Longrightarrow> dget act k = None" for n
    by (auto simp: completed_commands_def dest: in_set_takeD)
  then show ?thesis by (auto simp: evict_commands_def Let_def dget_fold_ddel)
qed

lemma evict_active: "dget act k \<noteq> None \<Longrightarrow> dget (evict_commands act cmds) k = dget cmds k"
  using evict_get by metis

lemma evict_none: "length (completed_commands act cmds) \<le> 256 \<Longrightarrow> evict_commands act cmds = cmds"
  by (simp add: evict_commands_def Let_def)

text \<open>The command that was stored last survives the eviction that follows.\<close>

lemma evict_stored:
  assumes "distinct (dkeys cmds)" "length (completed_commands act cmds) \<le> 256" "dget act k = None"
  shows "dget (evict_commands act (dset k e cmds)) k = Some e"
proof (cases "k \<in> set (dkeys cmds)")
  case True
  then have "completed_commands act (dset k e cmds) = completed_commands act cmds"
    by (simp add: completed_commands_def dkeys_dset)
  with assms(2) show ?thesis by (simp add: evict_none dict_simps)
next
  case False
  let ?c = "completed_commands act cmds"
  have c: "completed_commands act (dset k e cmds) = ?c @ [k]"
    using False assms(3) by (simp add: completed_commands_def dkeys_dset)
  have "k \<notin> set ?c" using False by (simp add: completed_commands_def)
  moreover have "take (length (?c @ [k]) - 256) (?c @ [k]) = take (length (?c @ [k]) - 256) ?c"
    using assms(2) by simp
  ultimately have "k \<notin> set (take (length (?c @ [k]) - 256) (?c @ [k]))" by (metis in_set_takeD)
  then show ?thesis by (simp add: evict_commands_def Let_def c dget_fold_ddel dict_simps)
qed

section \<open>Operations under way\<close>

text \<open>Every operation under way is in the table of active ones and in the cache, without a final answer, and no
  two of them share a name of their scope. Every other command in the cache has its answer.\<close>

definition scopes_apart :: "(string, string list option) dict \<Rightarrow> bool" where
  "scopes_apart act \<longleftrightarrow> (\<forall>a b x y. dget act a = Some x \<longrightarrow> dget act b = Some y \<longrightarrow> a \<noteq> b \<longrightarrow>
     (\<exists>xs ys. x = Some xs \<and> y = Some ys \<and> set xs \<inter> set ys = {}))"

definition answered :: "cached_command \<Rightarrow> bool" where
  "answered e \<longleftrightarrow> cc_exception e \<noteq> None \<or> \<not> rs_in_progress (cc_response e)"

definition ops_ok :: "(string, string list option) dict \<Rightarrow> (string, cached_command) dict \<Rightarrow> request list \<Rightarrow> bool" where
  "ops_ok act cmds fl \<longleftrightarrow> distinct (map rq_command_id fl) \<and> distinct (dkeys act) \<and> distinct (dkeys cmds) \<and>
     (\<forall>k. dget act k \<noteq> None \<longleftrightarrow> k \<in> rq_command_id ` set fl) \<and>
     (\<forall>rq \<in> set fl. dget act (rq_command_id rq) = Some (rq_conflicts rq) \<and>
        (\<exists>resp. dget cmds (rq_command_id rq) = Some (command_entry rq resp) \<and> rs_in_progress resp)) \<and>
     (\<forall>k e. dget cmds k = Some e \<longrightarrow> dget act k = None \<longrightarrow> answered e) \<and>
     scopes_apart act \<and> length (completed_commands act cmds) \<le> 256"

lemma scopes_apart_dset:
  assumes act: "scopes_apart act"
    and free: "\<forall>k owned. dget act k = Some owned \<longrightarrow> (\<exists>xs ys. owned = Some xs \<and> names = Some ys \<and> set xs \<inter> set ys = {})"
  shows "scopes_apart (dset k names act)"
  unfolding scopes_apart_def
proof (intro allI impI)
  fix a b x y
  assume g: "dget (dset k names act) a = Some x" "dget (dset k names act) b = Some y" and n: "a \<noteq> b"
  consider "a = k" "x = names" "dget act b = Some y" | "b = k" "y = names" "dget act a = Some x"
    | "dget act a = Some x" "dget act b = Some y"
    using g n by (cases "a = k"; cases "b = k") (simp_all add: dict_simps)
  then show "\<exists>xs ys. x = Some xs \<and> y = Some ys \<and> set xs \<inter> set ys = {}"
  proof cases
    case 1
    from free 1(3) obtain xs ys where "y = Some xs" "names = Some ys" "set xs \<inter> set ys = {}" by blast
    with 1(2) show ?thesis by (simp add: Int_commute)
  next
    case 2
    from free 2(3) obtain xs ys where "x = Some xs" "names = Some ys" "set xs \<inter> set ys = {}" by blast
    with 2(2) show ?thesis by simp
  next
    case 3
    with act n show ?thesis unfolding scopes_apart_def by blast
  qed
qed

lemma ops_accept:
  assumes ok: "ops_ok act cmds fl" and new: "dget cmds (rq_command_id rq) = None" and p: "rs_in_progress resp"
    and free: "\<forall>k owned. dget act k = Some owned \<longrightarrow>
      (\<exists>xs ys. owned = Some xs \<and> rq_conflicts rq = Some ys \<and> set xs \<inter> set ys = {})"
  shows "ops_ok (dset (rq_command_id rq) (rq_conflicts rq) act) (dset (rq_command_id rq) (command_entry rq resp) cmds) (rq # fl)"
proof -
  let ?k = "rq_command_id rq"
  have na: "dget act ?k = None" and nf: "?k \<notin> rq_command_id ` set fl"
    using ok new unfolding ops_ok_def by force+
  have c: "completed_commands (dset ?k (rq_conflicts rq) act) (dset ?k (command_entry rq resp) cmds) = completed_commands act cmds"
    using new na unfolding completed_commands_def by (auto simp: dkeys_dset dict_simps dkeys_iff intro!: filter_cong)
  have "scopes_apart (dset ?k (rq_conflicts rq) act)"
    using ok free by (simp add: ops_ok_def scopes_apart_dset)
  moreover have "distinct (dkeys (dset ?k (rq_conflicts rq) act))" "distinct (dkeys (dset ?k (command_entry rq resp) cmds))"
    using ok by (auto simp: ops_ok_def dkeys_dset)
  moreover have "\<forall>r \<in> set (rq # fl). dget (dset ?k (rq_conflicts rq) act) (rq_command_id r) = Some (rq_conflicts r) \<and>
      (\<exists>resp'. dget (dset ?k (command_entry rq resp) cmds) (rq_command_id r) = Some (command_entry r resp') \<and> rs_in_progress resp')"
  proof
    fix r
    assume "r \<in> set (rq # fl)"
    then consider "r = rq" | "r \<in> set fl" "rq_command_id r \<noteq> ?k" using nf by (auto simp: image_iff)
    then show "dget (dset ?k (rq_conflicts rq) act) (rq_command_id r) = Some (rq_conflicts r) \<and>
      (\<exists>resp'. dget (dset ?k (command_entry rq resp) cmds) (rq_command_id r) = Some (command_entry r resp') \<and> rs_in_progress resp')"
      using ok p by cases (simp_all add: ops_ok_def dict_simps, blast)
  qed
  moreover have "dget (dset ?k (rq_conflicts rq) act) k \<noteq> None \<longleftrightarrow> k \<in> rq_command_id ` set (rq # fl)" for k
    using ok by (simp add: ops_ok_def dict_simps)
  moreover have "answered e" if "dget (dset ?k (command_entry rq resp) cmds) k = Some e" "dget (dset ?k (rq_conflicts rq) act) k = None" for k e
    using that ok by (simp add: ops_ok_def dict_simps split: if_splits)
  moreover have "distinct (map rq_command_id (rq # fl))" using ok nf by (simp add: ops_ok_def)
  moreover have "length (completed_commands act cmds) \<le> 256" using ok by (simp add: ops_ok_def)
  ultimately show ?thesis
    unfolding ops_ok_def c by blast
qed

lemma ops_close:
  assumes ok: "ops_ok act cmds fl" and rq: "rq \<in> set fl" and e: "answered e"
    and a: "a = ddel (rq_command_id rq) act" and d: "distinct (dkeys cmds')"
    and sub: "\<And>k x. k \<noteq> rq_command_id rq \<Longrightarrow> dget cmds' k = Some x \<Longrightarrow> dget cmds k = Some x"
    and keep: "\<And>k. dget a k \<noteq> None \<Longrightarrow> dget cmds' k = dget cmds k"
    and self: "\<And>x. dget cmds' (rq_command_id rq) = Some x \<Longrightarrow> x = e"
  shows "ops_ok a (evict_commands a cmds') (remove1 rq fl)"
proof -
  let ?k = "rq_command_id rq"
  have dist: "distinct (map rq_command_id fl)" and df: "distinct fl" using ok by (auto simp: ops_ok_def distinct_map)
  have mem: "r \<in> set (remove1 rq fl) \<longleftrightarrow> r \<in> set fl \<and> rq_command_id r \<noteq> ?k" for r
    using dist df rq by (auto simp: distinct_map inj_on_def set_remove1_eq)
  have keys: "dget a k \<noteq> None \<longleftrightarrow> k \<in> rq_command_id ` set (remove1 rq fl)" for k
    using ok mem unfolding ops_ok_def a by (auto simp: dict_simps image_iff)
  have entry: "dget a (rq_command_id r) = Some (rq_conflicts r) \<and>
      (\<exists>resp. dget (evict_commands a cmds') (rq_command_id r) = Some (command_entry r resp) \<and> rs_in_progress resp)"
    if r: "r \<in> set (remove1 rq fl)" for r
  proof -
    have r': "r \<in> set fl" "rq_command_id r \<noteq> ?k" using r mem by auto
    then have g: "dget a (rq_command_id r) = Some (rq_conflicts r)" using ok by (simp add: ops_ok_def a dict_simps)
    with evict_active [of a "rq_command_id r" cmds'] keep r' ok show ?thesis by (auto simp: ops_ok_def)
  qed
  have ans: "answered x" if "dget (evict_commands a cmds') k = Some x" "dget a k = None" for k x
  proof (cases "k = ?k")
    case True
    with evict_get [of a cmds' k] that have "dget cmds' ?k = Some x" by auto
    with self e show ?thesis by blast
  next
    case False
    from evict_get [of a cmds' k] that(1) have "dget cmds' k = Some x" by auto
    then have "dget cmds k = Some x" by (rule sub [OF False])
    moreover have "dget act k = None" using that(2) False by (simp add: a dict_simps)
    ultimately show ?thesis using ok by (simp add: ops_ok_def)
  qed
  have "scopes_apart a" using ok unfolding ops_ok_def scopes_apart_def a by (auto simp: dict_simps split: if_splits)
  moreover have "distinct (map rq_command_id (remove1 rq fl))" using dist df by (auto simp: distinct_map intro: inj_on_subset dest: notin_set_remove1)
  moreover have "distinct (dkeys a)" using ok by (simp add: ops_ok_def a dkeys_ddel)
  ultimately show ?thesis
    unfolding ops_ok_def using keys entry ans d by (auto simp: evict_distinct evict_bound)
qed

section \<open>The event log\<close>

text \<open>The entries carry consecutive numbers, the last one the counter, and there are never more than the limit.\<close>

definition log_ok :: "event_log \<Rightarrow> bool" where
  "log_ok l \<longleftrightarrow> log_limit l = 500 \<and> length (log_entries l) \<le> log_limit l \<and> int (length (log_entries l)) \<le> log_seq l \<and>
     map ev_seq (log_entries l) = [log_seq l - int (length (log_entries l)) + 1..log_seq l]"

lemma drop_upto: "drop n [i..j] = [i + int n..j]"
proof (induction n arbitrary: i)
  case (Suc n)
  then show ?case by (cases "i \<le> j") (simp_all add: upto.simps [of i j] algebra_simps)
qed simp

lemma log_record_ok:
  assumes ok: "log_ok l"
  shows "log_ok (log_record kind cmd st reason run l)"
proof -
  define es where "es = log_entries l @ [\<lparr>ev_seq = log_seq l + 1, ev_kind = kind, ev_command = cmd, ev_state = st, ev_reason = reason, ev_run_id = run\<rparr>]"
  define d where "d = length es - log_limit l"
  have d: "d \<le> length es" "length es - d \<le> log_limit l" "log_limit l = 500" using ok by (auto simp: d_def log_ok_def)
  have "map ev_seq es = [log_seq l + 1 - int (length es) + 1..log_seq l + 1]"
    using ok by (simp add: log_ok_def es_def upto_rec2)
  then have m: "map ev_seq (drop d es) = [log_seq l + 1 - int (length es) + 1 + int d..log_seq l + 1]"
    by (simp only: drop_map [symmetric] drop_upto)
  moreover have "int (length es) \<le> log_seq l + 1" using ok by (simp add: log_ok_def es_def)
  ultimately have "log_ok (l\<lparr>log_seq := log_seq l + 1, log_entries := drop d es\<rparr>)"
    using d by (simp add: log_ok_def of_nat_diff algebra_simps)
  then show ?thesis by (simp add: log_record_def Let_def es_def d_def)
qed

section \<open>Fields the bookkeeping leaves alone\<close>

lemma dispatch_fields [simp]:
  "co_active (dispatch_idle_recovery c) = co_active c" "co_commands (dispatch_idle_recovery c) = co_commands c"
  "co_state (dispatch_idle_recovery c) = co_state c" "co_version (dispatch_idle_recovery c) = co_version c"
  "co_run_id (dispatch_idle_recovery c) = co_run_id c" "co_controller (dispatch_idle_recovery c) = co_controller c"
  "co_failure (dispatch_idle_recovery c) = co_failure c" "co_draining (dispatch_idle_recovery c) = co_draining c"
  "co_exit_fenced (dispatch_idle_recovery c) = co_exit_fenced c" "co_exit_failure (dispatch_idle_recovery c) = co_exit_failure c"
  "co_recovery (dispatch_idle_recovery c) = co_recovery c" "co_events (dispatch_idle_recovery c) = co_events c"
  "co_operation_active (dispatch_idle_recovery c) = co_operation_active c"
  by (simp_all add: dispatch_idle_recovery_def)

lemma finish_fields [simp]:
  "co_active (finish_operation k c) = ddel k (co_active c)"
  "co_commands (finish_operation k c) = evict_commands (ddel k (co_active c)) (co_commands c)"
  "co_state (finish_operation k c) = co_state c" "co_version (finish_operation k c) = co_version c"
  "co_run_id (finish_operation k c) = co_run_id c" "co_controller (finish_operation k c) = co_controller c"
  "co_failure (finish_operation k c) = co_failure c" "co_draining (finish_operation k c) = co_draining c"
  "co_exit_fenced (finish_operation k c) = co_exit_fenced c" "co_exit_failure (finish_operation k c) = co_exit_failure c"
  "co_recovery (finish_operation k c) = co_recovery c" "co_events (finish_operation k c) = co_events c"
  "co_operation_active (finish_operation k c) = (ddel k (co_active c) \<noteq> [])"
  by (simp_all add: finish_operation_def Let_def)

lemma log_event_fields [simp]:
  "co_active (log_event a b d e c) = co_active c" "co_commands (log_event a b d e c) = co_commands c"
  "co_state (log_event a b d e c) = co_state c" "co_version (log_event a b d e c) = co_version c"
  "co_run_id (log_event a b d e c) = co_run_id c" "co_controller (log_event a b d e c) = co_controller c"
  "co_failure (log_event a b d e c) = co_failure c" "co_draining (log_event a b d e c) = co_draining c"
  "co_exit_fenced (log_event a b d e c) = co_exit_fenced c" "co_exit_failure (log_event a b d e c) = co_exit_failure c"
  "co_recovery (log_event a b d e c) = co_recovery c" "co_recovery_running (log_event a b d e c) = co_recovery_running c"
  "co_operation_active (log_event a b d e c) = co_operation_active c"
  "co_events (log_event a b d e c) = log_record a b d e None (co_events c)"
  by (simp_all add: log_event_def)

lemma apply_fields [simp]:
  "co_active (apply_result rq r c) = co_active c" "co_commands (apply_result rq r c) = co_commands c"
  "co_version (apply_result rq r c) = co_version c" "co_draining (apply_result rq r c) = co_draining c"
  "co_exit_fenced (apply_result rq r c) = co_exit_fenced c" "co_exit_failure (apply_result rq r c) = co_exit_failure c"
  "co_recovery (apply_result rq r c) = co_recovery c" "co_recovery_running (apply_result rq r c) = co_recovery_running c"
  "co_operation_active (apply_result rq r c) = co_operation_active c"
  by (simp_all add: apply_result_def Let_def)

lemma apply_log: "log_ok (co_events c) \<Longrightarrow> log_ok (co_events (apply_result rq r c))"
  by (simp add: apply_result_def Let_def log_record_ok)

section \<open>Steps\<close>

text \<open>The state with the requests that were accepted and whose execution has not ended.\<close>

type_synonym coord_run = "coordinator \<times> request list"

inductive coord_step :: "coord_run \<Rightarrow> coord_run \<Rightarrow> bool" where
  step_accept: "submit_begin rq c = (Inr None, c') \<Longrightarrow> coord_step (c, fl) (c', rq # fl)"
| step_answer: "submit_begin rq c = (Inr (Some resp), c') \<Longrightarrow> coord_step (c, fl) (c', fl)"
| step_refuse: "submit_begin rq c = (Inl e, c') \<Longrightarrow> coord_step (c, fl) (c', fl)"
| step_failed: "rq \<in> set fl \<Longrightarrow> submit_failed rq e c = Some c' \<Longrightarrow> coord_step (c, fl) (c', remove1 rq fl)"
| step_finish: "rq \<in> set fl \<Longrightarrow> submit_finish rq res c = (resp, c') \<Longrightarrow> coord_step (c, fl) (c', remove1 rq fl)"
| step_recover: "coord_step (c, fl) (recover_when_idle c, fl)"
| step_recovered: "co_recovery_running c \<Longrightarrow> coord_step (c, fl) (recovery_done c, fl)"
| step_terminal: "coord_step (c, fl) (record_terminal_failure reason c, fl)"
| step_drain: "coord_step (c, fl) (begin_draining c, fl)"
| step_restore: "coord_step (c, fl) (restore_responsibility marker st reason2 outcome c, fl)"
| step_exit_failed: "coord_step (c, fl) (fail_controlled_exit reason c, fl)"
| step_health: "coord_step (c, fl) (update_health_state st reason2 c, fl)"
| step_identity: "coord_step (c, fl) (set_config_identity identity c, fl)"

definition coord_init :: "coord_run \<Rightarrow> bool" where
  "coord_init = (\<lambda>(c, fl). fl = [] \<and> (\<exists>epoch. c = new_coordinator epoch))"

text \<open>The recovery that waits for the operations under way runs once there are none.\<close>

definition coord_inv :: "coord_run \<Rightarrow> bool" where
  "coord_inv = (\<lambda>(c, fl). ops_ok (co_active c) (co_commands c) fl \<and> log_ok (co_events c) \<and>
     (co_recovery c \<and> co_active c = [] \<longrightarrow> co_recovery_running c) \<and> (co_operation_active c \<longleftrightarrow> co_active c \<noteq> []) \<and>
     (co_recovery_running c \<longrightarrow> co_recovery c))"

text \<open>The transitions that leave operations, cache and version alone.\<close>

definition keeps_ops :: "coordinator \<Rightarrow> coordinator \<Rightarrow> bool" where
  "keeps_ops c c' \<longleftrightarrow> co_active c' = co_active c \<and> co_commands c' = co_commands c \<and> co_version c' = co_version c \<and>
     co_operation_active c' = co_operation_active c \<and> (co_draining c \<longrightarrow> co_draining c') \<and>
     set (co_exit_fenced c) \<subseteq> set (co_exit_fenced c') \<and> (co_exit_failure c \<noteq> None \<longrightarrow> co_exit_failure c' \<noteq> None) \<and>
     (log_ok (co_events c) \<longrightarrow> log_ok (co_events c'))"

lemmas outside_defs = record_terminal_failure_def begin_draining_def restore_responsibility_def fail_controlled_exit_def
  update_health_state_def set_config_identity_def end_run_def release_run_scope_def

lemma outside_ops:
  "keeps_ops c (recover_when_idle c)" "keeps_ops c (recovery_done c)" "keeps_ops c (record_terminal_failure reason c)"
  "keeps_ops c (begin_draining c)" "keeps_ops c (restore_responsibility marker st reason2 outcome c)"
  "keeps_ops c (fail_controlled_exit reason c)" "keeps_ops c (update_health_state st reason2 c)"
  "keeps_ops c (set_config_identity identity c)"
  by (simp_all add: keeps_ops_def outside_defs recover_when_idle_def recovery_done_def Let_def log_record_ok
      split: option.split)

lemma outside_recovery:
  "co_recovery (record_terminal_failure reason c) = co_recovery c" "co_recovery (begin_draining c) = co_recovery c"
  "co_recovery (restore_responsibility marker st reason2 outcome c) = co_recovery c"
  "co_recovery (fail_controlled_exit reason c) = co_recovery c" "co_recovery (update_health_state st reason2 c) = co_recovery c"
  "co_recovery (set_config_identity identity c) = co_recovery c"
  "co_recovery_running (record_terminal_failure reason c) = co_recovery_running c"
  "co_recovery_running (begin_draining c) = co_recovery_running c"
  "co_recovery_running (restore_responsibility marker st reason2 outcome c) = co_recovery_running c"
  "co_recovery_running (fail_controlled_exit reason c) = co_recovery_running c"
  "co_recovery_running (update_health_state st reason2 c) = co_recovery_running c"
  "co_recovery_running (set_config_identity identity c) = co_recovery_running c"
  by (simp_all add: outside_defs Let_def split: option.split)

lemma dispatch_runs:
  "co_recovery c \<and> co_active c = [] \<longrightarrow> co_recovery_running (dispatch_idle_recovery c)"
  "co_recovery_running (dispatch_idle_recovery c) \<longrightarrow> co_recovery_running c \<or> co_recovery c"
  by (auto simp: dispatch_idle_recovery_def)

lemma finish_running:
  "co_recovery_running (finish_operation k c) =
     co_recovery_running (dispatch_idle_recovery (c\<lparr>co_active := ddel k (co_active c), co_operation_active := (ddel k (co_active c) \<noteq> [])\<rparr>))"
  by (simp add: finish_operation_def Let_def)

lemma finish_runs:
  "(co_recovery_running c \<longrightarrow> co_recovery c) \<Longrightarrow>
    (co_recovery c \<and> ddel k (co_active c) = [] \<longrightarrow> co_recovery_running (finish_operation k c)) \<and>
    (co_recovery_running (finish_operation k c) \<longrightarrow> co_recovery c)"
  by (auto simp: finish_running dispatch_idle_recovery_def)

text \<open>What acceptance means.\<close>

definition admissible :: "request \<Rightarrow> coordinator \<Rightarrow> bool" where
  "admissible rq c \<longleftrightarrow> identity_gate rq c = None \<and> dget (co_commands c) (rq_command_id rq) = None \<and>
     \<not> active_conflicts (rq_conflicts rq) c \<and> rq_expected rq = co_version c"

lemma accept_iff: "fst (submit_begin rq c) = Inr None \<longleftrightarrow> admissible rq c"
  by (auto simp: submit_begin_def admissible_def Let_def split: option.splits sum.splits)

lemma not_accepted: "fst (submit_begin rq c) \<noteq> Inr None \<Longrightarrow> snd (submit_begin rq c) = c"
  by (auto simp: submit_begin_def Let_def split: option.splits sum.splits if_splits)

lemma in_progress_response_simp [simp]: "rs_in_progress (in_progress_response rq c)"
  by (simp add: in_progress_response_def)

lemma accepted_fields:
  assumes "submit_begin rq c = (Inr None, c')"
  shows "co_version c' = co_version c + 1" "co_active c' = dset (rq_command_id rq) (rq_conflicts rq) (co_active c)"
    "\<exists>resp. rs_in_progress resp \<and> co_commands c' = dset (rq_command_id rq) (command_entry rq resp) (co_commands c)"
    "co_operation_active c'" "co_recovery c' = co_recovery c" "co_recovery_running c' = co_recovery_running c"
    "co_draining c' = co_draining c" "co_exit_fenced c' = co_exit_fenced c" "log_ok (co_events c) \<Longrightarrow> log_ok (co_events c')"
    "co_exit_failure c' = co_exit_failure c"
  using assms by (auto simp: submit_begin_def Let_def log_record_ok intro!: exI split: option.splits sum.splits if_splits)

lemma dset_not_empty: "dset k v d \<noteq> []"
  by (cases d) (auto simp: dset_def)

lemma no_conflicts:
  assumes "\<not> active_conflicts names c" "dget (co_active c) k = Some owned"
  shows "\<exists>xs ys. owned = Some xs \<and> names = Some ys \<and> set xs \<inter> set ys = {}"
proof -
  have "(k, owned) \<in> set (co_active c)" using assms(2) unfolding dget_def by (rule map_of_SomeD)
  then have "owned \<in> set (dvals (co_active c))" "co_active c \<noteq> []" by (force simp: dvals_def)+
  with assms(1) show ?thesis by (auto simp: active_conflicts_def list_ex_iff split: if_splits)
qed

lemma inv_close:
  assumes inv: "coord_inv (c, fl)" and ops: "ops_ok (ddel k (co_active c)) (co_commands c') fl'"
    and c': "c' = finish_operation k c1" "co_active c1 = co_active c \<or> co_active c1 = ddel k (co_active c)" "co_recovery c1 = co_recovery c"
    and run: "co_recovery_running c1 \<longrightarrow> co_recovery c1" and log: "log_ok (co_events c1)"
  shows "coord_inv (c', fl')"
proof -
  have a: "co_active c' = ddel k (co_active c)" using c'(2) by (auto simp: c'(1) ddel_def)
  then have "ddel k (co_active c1) = ddel k (co_active c)" using c'(1) by simp
  then have "co_recovery c \<and> co_active c' = [] \<longrightarrow> co_recovery_running c'" "co_recovery_running c' \<longrightarrow> co_recovery c"
    using finish_runs [OF run, of k] c'(3) by (simp_all add: c'(1))
  then show ?thesis using ops log a by (simp add: coord_inv_def c'(1,3))
qed

lemma inv_accept:
  assumes inv: "coord_inv (c, fl)" and a: "submit_begin rq c = (Inr None, c')"
  shows "coord_inv (c', rq # fl)"
proof -
  note f = accepted_fields [OF a]
  from f(3) obtain resp where r: "rs_in_progress resp" "co_commands c' = dset (rq_command_id rq) (command_entry rq resp) (co_commands c)"
    by blast
  have ad: "admissible rq c" using accept_iff [of rq c] a by simp
  have "ops_ok (co_active c') (co_commands c') (rq # fl)"
    unfolding f(2) r(2) using inv ad no_conflicts r(1) by (intro ops_accept) (auto simp: coord_inv_def admissible_def)
  then show ?thesis using inv f(4-6,9) by (auto simp: coord_inv_def f(2) dset_not_empty)
qed

lemma inv_failed:
  assumes inv: "coord_inv (c, fl)" and rq: "rq \<in> set fl" and a: "submit_failed rq e c = Some c'"
  shows "coord_inv (c', remove1 rq fl)"
proof -
  let ?k = "rq_command_id rq"
  have ok: "ops_ok (co_active c) (co_commands c) fl" using inv by (simp add: coord_inv_def)
  from a obtain cached where cached: "dget (co_commands c) ?k = Some cached" and
    c': "c' = finish_operation ?k (log_event ''command.failed'' (Some ?k) None (Some (exn_text e))
      (c\<lparr>co_commands := dset ?k (cached\<lparr>cc_exception := Some e\<rparr>) (co_commands c)\<rparr>))" (is "_ = finish_operation _ ?c1")
    by (auto simp: submit_failed_def Let_def split: option.splits)
  have "ops_ok (co_active c') (co_commands c') (remove1 rq fl)"
    unfolding c' finish_fields
  proof (rule ops_close [OF ok rq])
    show "answered (cached\<lparr>cc_exception := Some e\<rparr>)" by (simp add: answered_def)
    show "distinct (dkeys (co_commands ?c1))" using ok by (simp add: dkeys_dset ops_ok_def)
  qed (simp_all add: dict_simps split: if_splits)
  then have "ops_ok (ddel ?k (co_active c)) (co_commands c') (remove1 rq fl)" by (simp add: c')
  from inv_close [OF inv this c'] inv show ?thesis by (simp add: coord_inv_def log_record_ok)
qed

text \<open>Completion, seen as two updates of the cache around the new state.\<close>

lemma finish_unfold:
  assumes "submit_finish rq res c = (resp, c')"
  obtains c2 where "c' = finish_operation (rq_command_id rq) c2"
    "co_active c2 = ddel (rq_command_id rq) (co_active c)" "co_recovery c2 = co_recovery c" "co_version c2 = co_version c"
    "co_commands c2 = dset (rq_command_id rq) (command_entry rq resp) (evict_commands (ddel (rq_command_id rq) (co_active c)) (co_commands c))"
    "\<not> rs_in_progress resp" "co_draining c2 = co_draining c" "co_exit_failure c2 = co_exit_failure c"
    "co_exit_fenced c2 = removeAll (rq_command_id rq) (co_exit_fenced c)"
    "log_ok (co_events c) \<Longrightarrow> log_ok (co_events c2)"
    "(co_recovery_running c \<longrightarrow> co_recovery c) \<Longrightarrow> co_recovery_running c2 \<longrightarrow> co_recovery c2"
proof -
  let ?k = "rq_command_id rq"
  define c1 where "c1 = finish_operation ?k (c\<lparr>co_exit_fenced := removeAll ?k (co_exit_fenced c)\<rparr>)"
  define r where "r = (if ?k \<in> set (co_exit_fenced c) then fence_result (co_exit_failure c1) res else res)"
  define c2 where "c2 = (apply_result rq r c1)\<lparr>co_commands := dset ?k (command_entry rq resp) (co_commands (apply_result rq r c1))\<rparr>"
  have resp: "resp = final_response rq (?k \<in> set (co_exit_fenced c)) r (apply_result rq r c1)" and c': "c' = finish_operation ?k c2"
    using assms unfolding submit_finish_def Let_def c1_def [symmetric] r_def [symmetric] c2_def by auto
  show thesis
  proof (rule that [OF c'])
    show "\<not> rs_in_progress resp" by (simp add: resp final_response_def)
    show "(co_recovery_running c \<longrightarrow> co_recovery c) \<Longrightarrow> co_recovery_running c2 \<longrightarrow> co_recovery c2"
      using finish_runs [of "c\<lparr>co_exit_fenced := removeAll ?k (co_exit_fenced c)\<rparr>" ?k] by (simp add: c2_def c1_def)
  qed (simp_all add: c2_def c1_def apply_log)
qed

lemma ddel_ddel: "ddel k (ddel k d) = ddel k d"
  by (simp add: ddel_def)

lemma inv_finish:
  assumes inv: "coord_inv (c, fl)" and rq: "rq \<in> set fl" and a: "submit_finish rq res c = (resp, c')"
  shows "coord_inv (c', remove1 rq fl)" "dget (co_commands c') (rq_command_id rq) = Some (command_entry rq resp)"
proof -
  let ?k = "rq_command_id rq" and ?a = "ddel (rq_command_id rq) (co_active c)"
  have ok: "ops_ok (co_active c) (co_commands c) fl" using inv by (simp add: coord_inv_def)
  then have d: "distinct (dkeys (co_commands c))" by (simp add: ops_ok_def)
  from a obtain c2 where c': "c' = finish_operation ?k c2" "co_active c2 = ?a" "co_recovery c2 = co_recovery c"
    and cmds: "co_commands c2 = dset ?k (command_entry rq resp) (evict_commands ?a (co_commands c))"
    and np: "\<not> rs_in_progress resp" and log: "log_ok (co_events c) \<Longrightarrow> log_ok (co_events c2)"
    and run: "(co_recovery_running c \<longrightarrow> co_recovery c) \<Longrightarrow> co_recovery_running c2 \<longrightarrow> co_recovery c2"
    by (rule finish_unfold) (rule that; assumption)
  have "ops_ok ?a (evict_commands ?a (dset ?k (command_entry rq resp) (evict_commands ?a (co_commands c)))) (remove1 rq fl)"
  proof (rule ops_close [OF ok rq])
    show "answered (command_entry rq resp)" using np by (simp add: answered_def command_entry_def)
    show "distinct (dkeys (dset ?k (command_entry rq resp) (evict_commands ?a (co_commands c))))"
      using d by (simp add: dkeys_dset evict_distinct)
    show "dget (dset ?k (command_entry rq resp) (evict_commands ?a (co_commands c))) k = dget (co_commands c) k"
      if "dget ?a k \<noteq> None" for k
      using that evict_active [OF that] by (simp add: dict_simps split: if_splits)
    show "dget (co_commands c) k = Some x"
      if "k \<noteq> ?k" "dget (dset ?k (command_entry rq resp) (evict_commands ?a (co_commands c))) k = Some x" for k x
      using that evict_get [of ?a "co_commands c" k] by (simp add: dict_simps)
  qed (simp_all add: dict_simps)
  then have "ops_ok ?a (co_commands c') (remove1 rq fl)" by (simp add: c'(1,2) cmds ddel_ddel)
  from inv_close [OF inv this c'(1) disjI2 [OF c'(2)] c'(3)] run log inv show "coord_inv (c', remove1 rq fl)"
    by (simp add: coord_inv_def)
  have "dget ?a ?k = None" by (simp add: dict_simps)
  with evict_stored [OF evict_distinct [OF d] evict_bound [OF d]] show "dget (co_commands c') ?k = Some (command_entry rq resp)"
    by (simp add: c'(1,2) cmds ddel_ddel)
qed

lemma inv_outside:
  assumes "coord_inv (c, fl)" "keeps_ops c c'"
    "co_recovery c' \<and> co_active c = [] \<longrightarrow> co_recovery_running c'" "co_recovery_running c' \<longrightarrow> co_recovery c'"
  shows "coord_inv (c', fl)"
  using assms by (auto simp: coord_inv_def keeps_ops_def)

lemma inv_calm:
  assumes "coord_inv (c, fl)" "keeps_ops c c'" "co_recovery c' = co_recovery c" "co_recovery_running c' = co_recovery_running c"
  shows "coord_inv (c', fl)"
  using assms by (auto simp: coord_inv_def keeps_ops_def)

lemma begin_unchanged: "submit_begin rq c = (r, c') \<Longrightarrow> r \<noteq> Inr None \<Longrightarrow> c' = c"
  using not_accepted [of rq c] by simp

lemma coord_step_inv: "coord_step s t \<Longrightarrow> coord_inv s \<Longrightarrow> coord_inv t"
proof (induction rule: coord_step.induct)
  case (step_accept rq c c' fl)
  then show ?case by (blast intro: inv_accept)
next
  case (step_answer rq c resp c' fl)
  then show ?case using begin_unchanged by blast
next
  case (step_refuse rq c e c' fl)
  then show ?case using begin_unchanged by blast
next
  case (step_failed rq fl e c c')
  then show ?case by (blast intro: inv_failed)
next
  case (step_finish rq fl res c resp c')
  then show ?case by (blast intro: inv_finish)
next
  case (step_recover c fl)
  show ?case by (rule inv_outside [OF step_recover outside_ops(1)])
      (auto simp: recover_when_idle_def dispatch_idle_recovery_def)
next
  case (step_recovered c fl)
  show ?case by (rule inv_outside [OF step_recovered(2) outside_ops(2)]) (auto simp: recovery_done_def)
next
  case (step_terminal c fl reason)
  show ?case by (rule inv_calm [OF step_terminal outside_ops(3)]) (simp_all add: outside_recovery)
next
  case (step_drain c fl)
  show ?case by (rule inv_calm [OF step_drain outside_ops(4)]) (simp_all add: outside_recovery)
next
  case (step_restore c fl marker st reason2 outcome)
  show ?case by (rule inv_calm [OF step_restore outside_ops(5)]) (simp_all add: outside_recovery)
next
  case (step_exit_failed c fl reason)
  show ?case by (rule inv_calm [OF step_exit_failed outside_ops(6)]) (simp_all add: outside_recovery)
next
  case (step_health c fl st reason2)
  show ?case by (rule inv_calm [OF step_health outside_ops(7)]) (simp_all add: outside_recovery)
next
  case (step_identity c fl identity)
  show ?case by (rule inv_calm [OF step_identity outside_ops(8)]) (simp_all add: outside_recovery)
qed

lemma coord_init_inv: "coord_init s \<Longrightarrow> coord_inv s"
  by (auto simp: coord_init_def coord_inv_def new_coordinator_def ops_ok_def new_log_def log_ok_def scopes_apart_def
      completed_commands_def dkeys_def dict_simps)

interpretation coord: invariant_machine coord_init coord_step coord_inv
  by unfold_locales (blast intro: coord_init_inv coord_step_inv)+

section \<open>The version only grows\<close>

text \<open>A step begins or ends a command, or leaves operations and cache alone.\<close>

lemma keeps_ops_refl: "keeps_ops c c"
  by (simp add: keeps_ops_def)

lemma coord_step_parts:
  assumes "coord_step (c, fl) (c', fl')"
  obtains (accept) rq where "submit_begin rq c = (Inr None, c')" "fl' = rq # fl"
  | (failed) rq e where "rq \<in> set fl" "submit_failed rq e c = Some c'" "fl' = remove1 rq fl"
  | (finish) rq res resp where "rq \<in> set fl" "submit_finish rq res c = (resp, c')" "fl' = remove1 rq fl"
  | (other) "keeps_ops c c'" "fl' = fl"
  using assms
proof (cases rule: coord_step.cases)
  case (step_answer rq resp)
  then show thesis using begin_unchanged [of rq c "Inr (Some resp)" c'] keeps_ops_refl other by simp
next
  case (step_refuse rq e)
  then show thesis using begin_unchanged [of rq c "Inl e" c'] keeps_ops_refl other by simp
next
  case (step_accept rq)
  then show thesis by (intro accept)
next
  case (step_failed rq e)
  then show thesis by (intro failed)
next
  case (step_finish rq res resp)
  then show thesis by (intro finish)
qed (rule other; simp add: outside_ops)+

lemma failed_fields:
  assumes "submit_failed rq e c = Some c'"
  obtains cached where "dget (co_commands c) (rq_command_id rq) = Some cached" "co_active c' = ddel (rq_command_id rq) (co_active c)"
    "co_commands c' = evict_commands (ddel (rq_command_id rq) (co_active c))
       (dset (rq_command_id rq) (cached\<lparr>cc_exception := Some e\<rparr>) (co_commands c))"
    "co_version c' = co_version c" "co_draining c' = co_draining c" "co_exit_failure c' = co_exit_failure c"
    "co_exit_fenced c' = co_exit_fenced c"
  using assms by (auto simp: submit_failed_def Let_def split: option.splits)

lemma step_version: "coord_step s t \<Longrightarrow> co_version (fst s) \<le> co_version (fst t)"
proof -
  assume st: "coord_step s t"
  obtain c fl c' fl' where st': "s = (c, fl)" "t = (c', fl')" by (cases s; cases t)
  from st [unfolded st'] have "co_version c \<le> co_version c'"
  proof (cases rule: coord_step_parts)
    case (accept rq)
    then show ?thesis by (simp add: accepted_fields)
  next
    case (failed rq e)
    from failed(2) show ?thesis by (rule failed_fields) simp
  next
    case (finish rq res resp)
    from finish(2) show ?thesis by (rule finish_unfold) simp
  next
    case other
    then show ?thesis by (simp add: keeps_ops_def)
  qed
  then show ?thesis by (simp add: st')
qed

lemma run_version: "coord_step\<^sup>*\<^sup>* s t \<Longrightarrow> co_version (fst s) \<le> co_version (fst t)"
  by (induction rule: rtranclp_induct) (auto dest: step_version)

section \<open>A cached answer stays as it is\<close>

definition kept :: "string \<Rightarrow> coord_run \<Rightarrow> coord_run \<Rightarrow> bool" where
  "kept k s t \<longleftrightarrow> coord_step s t \<and> dget (co_commands (fst t)) k \<noteq> None"

definition holds_answer :: "string \<Rightarrow> cached_command \<Rightarrow> coord_run \<Rightarrow> bool" where
  "holds_answer k e s \<longleftrightarrow> dget (co_commands (fst s)) k = Some e \<and> dget (co_active (fst s)) k = None"

lemma answer_step:
  assumes st: "coord_step (c, fl) (c', fl')" and inv: "coord_inv (c, fl)" and h: "holds_answer k e (c, fl)"
    and e: "dget (co_commands c') k \<noteq> None"
  shows "holds_answer k e (c', fl')"
  using st
proof (cases rule: coord_step_parts)
  case (accept rq)
  have "dget (co_commands c) (rq_command_id rq) = None" using accept_iff [of rq c] accept by (simp add: admissible_def)
  with h have "k \<noteq> rq_command_id rq" by (auto simp: holds_answer_def)
  moreover obtain resp where "co_commands c' = dset (rq_command_id rq) (command_entry rq resp) (co_commands c)"
    using accepted_fields(3) [OF accept(1)] by blast
  ultimately show ?thesis
    using h accepted_fields(2) [OF accept(1)] by (simp add: holds_answer_def dict_simps)
next
  case (failed rq e')
  let ?a = "ddel (rq_command_id rq) (co_active c)"
  have "dget (co_active c) (rq_command_id rq) \<noteq> None" using inv failed(1) by (auto simp: coord_inv_def ops_ok_def)
  with h have n: "k \<noteq> rq_command_id rq" by (auto simp: holds_answer_def)
  from failed(2) obtain cached where c': "co_active c' = ?a"
    "co_commands c' = evict_commands ?a (dset (rq_command_id rq) (cached\<lparr>cc_exception := Some e'\<rparr>) (co_commands c))"
    by (rule failed_fields) (rule that; assumption)
  with e evict_get [of ?a "dset (rq_command_id rq) (cached\<lparr>cc_exception := Some e'\<rparr>) (co_commands c)" k] h n show ?thesis
    by (auto simp: holds_answer_def dict_simps)
next
  case (finish rq res resp)
  have "dget (co_active c) (rq_command_id rq) \<noteq> None" using inv finish(1) by (auto simp: coord_inv_def ops_ok_def)
  with h have n: "k \<noteq> rq_command_id rq" by (auto simp: holds_answer_def)
  let ?a = "ddel (rq_command_id rq) (co_active c)"
  from finish(2) have c': "co_commands c' = evict_commands ?a (dset (rq_command_id rq) (command_entry rq resp) (evict_commands ?a (co_commands c)))"
    "co_active c' = ?a" by (rule finish_unfold; simp add: ddel_ddel)+
  have "dget (co_commands c') k = dget (co_commands c) k"
    using e n evict_get [of ?a "co_commands c" k]
      evict_get [of ?a "dset (rq_command_id rq) (command_entry rq resp) (evict_commands ?a (co_commands c))" k]
    by (auto simp: c' dict_simps)
  with h n show ?thesis by (simp add: holds_answer_def c'(2) dict_simps)
next
  case other
  with h show ?thesis by (simp add: holds_answer_def keeps_ops_def)
qed

lemma answer_run:
  "(kept k)\<^sup>*\<^sup>* s t \<Longrightarrow> coord_inv s \<Longrightarrow> holds_answer k e s \<Longrightarrow> holds_answer k e t \<and> coord_inv t"
proof (induction rule: rtranclp_induct)
  case (step t u)
  then have "coord_step t u" "holds_answer k e t" "coord_inv t" "dget (co_commands (fst u)) k \<noteq> None" by (auto simp: kept_def)
  then show ?case using answer_step [of "fst t" "snd t" "fst u" "snd u" k e] coord_step_inv by simp
qed simp

section \<open>After a failed exit\<close>

definition fenced_run :: "coord_run \<Rightarrow> bool" where
  "fenced_run = (\<lambda>(c, fl). co_draining c \<and> co_exit_failure c \<noteq> None \<and>
     (\<forall>rq \<in> set fl. \<not> rq_internal rq \<longrightarrow> rq_command_id rq \<in> set (co_exit_fenced c)))"

lemma fenced_start: "coord_inv (c, fl) \<Longrightarrow> fenced_run (fail_controlled_exit reason c, fl)"
  by (auto simp: fenced_run_def fail_controlled_exit_def coord_inv_def ops_ok_def dkeys_iff)

lemma draining_refuses: "co_draining c \<Longrightarrow> \<not> rq_internal rq \<Longrightarrow>
    submit_begin rq c = (Inl (McpError ''not_allowed_in_state'' ''service is in controlled shutdown; new mutations rejected''), c)"
  by (simp add: submit_begin_def identity_gate_def)

lemma other_command: "coord_inv (c, fl) \<Longrightarrow> rq \<in> set fl \<Longrightarrow> x \<in> set (remove1 rq fl) \<Longrightarrow> x \<in> set fl \<and> rq_command_id x \<noteq> rq_command_id rq"
  by (auto simp: coord_inv_def ops_ok_def distinct_map inj_on_def set_remove1_eq)

lemma fenced_step:
  assumes st: "coord_step (c, fl) (c', fl')" and inv: "coord_inv (c, fl)" and f: "fenced_run (c, fl)"
  shows "fenced_run (c', fl')"
  using st
proof (cases rule: coord_step_parts)
  case (accept rq)
  then have "rq_internal rq" using draining_refuses [of c rq] f by (auto simp: fenced_run_def)
  then show ?thesis using f accept accepted_fields(7,8,10) [OF accept(1)] by (simp add: fenced_run_def)
next
  case (failed rq e)
  from failed(2) have "co_draining c' = co_draining c" "co_exit_failure c' = co_exit_failure c" "co_exit_fenced c' = co_exit_fenced c"
    by (rule failed_fields; simp)+
  with f show ?thesis by (auto simp: fenced_run_def failed(3) dest: notin_set_remove1)
next
  case (finish rq res resp)
  from finish(2) have "co_draining c' = co_draining c" "co_exit_failure c' = co_exit_failure c"
    "co_exit_fenced c' = removeAll (rq_command_id rq) (co_exit_fenced c)" by (rule finish_unfold; simp)+
  moreover have "rq_command_id x \<in> set (removeAll (rq_command_id rq) (co_exit_fenced c))"
    if "x \<in> set (remove1 rq fl)" "\<not> rq_internal x" for x
    using that(2) f other_command [OF inv finish(1) that(1)] by (simp add: fenced_run_def)
  ultimately show ?thesis using f by (simp add: fenced_run_def finish(3))
next
  case other
  with f show ?thesis by (auto simp: fenced_run_def keeps_ops_def)
qed

lemma fenced_steps: "coord_step\<^sup>*\<^sup>* s t \<Longrightarrow> coord_inv s \<Longrightarrow> fenced_run s \<Longrightarrow> fenced_run t \<and> coord_inv t"
proof (induction rule: rtranclp_induct)
  case (step t u)
  then show ?case using fenced_step [of "fst t" "snd t" "fst u" "snd u"] coord_step_inv by simp
qed simp

lemma apply_state:
  "co_state (apply_result rq r c) = (case res_state r of None \<Rightarrow> co_state c | Some s \<Rightarrow> s)"
  "co_run_id (apply_result rq r c) = (case res_run_id r of None \<Rightarrow> co_run_id c | Some v \<Rightarrow> v)"
  "co_controller (apply_result rq r c) =
     (if res_release r = Some True then None else if res_controller r \<noteq> None then res_controller r else co_controller c)"
  "res_failure r \<noteq> None \<Longrightarrow> co_failure (apply_result rq r c) = res_failure r"
  by (simp_all add: apply_result_def Let_def)

lemma fenced_finish:
  assumes "submit_finish rq res c = (resp, c')" "rq_command_id rq \<in> set (co_exit_fenced c)" "co_exit_failure c \<noteq> None"
  shows "co_state c' = ''failed'' \<and> co_failure c' = co_exit_failure c \<and> rs_state resp = ''failed'' \<and>
    (co_controller c \<noteq> None \<longrightarrow> co_controller c' \<noteq> None) \<and> (co_run_id c \<noteq> None \<longrightarrow> co_run_id c' \<noteq> None)"
proof -
  define c1 where "c1 = finish_operation (rq_command_id rq) (c\<lparr>co_exit_fenced := removeAll (rq_command_id rq) (co_exit_fenced c)\<rparr>)"
  define r where "r = fence_result (co_exit_failure c) res"
  have c1: "co_exit_failure c1 = co_exit_failure c" "co_controller c1 = co_controller c" "co_run_id c1 = co_run_id c"
    by (simp_all add: c1_def)
  have "co_state c' = co_state (apply_result rq r c1)" "co_failure c' = co_failure (apply_result rq r c1)"
    "co_controller c' = co_controller (apply_result rq r c1)" "co_run_id c' = co_run_id (apply_result rq r c1)"
    "rs_state resp = co_state (apply_result rq r c1)"
    using assms unfolding submit_finish_def Let_def c1_def [symmetric] c1(1) by (auto simp: r_def final_response_def)
  moreover have "res_state r = Some ''failed''" "res_failure r = co_exit_failure c" "res_release r = Some False" "res_run_id r \<noteq> Some None"
    by (auto simp: r_def fence_result_def)
  ultimately show ?thesis using assms(3) by (auto simp: apply_state c1 split: option.split)
qed

section \<open>A concrete run\<close>

definition demo_request :: request where
  "demo_request = \<lparr>rq_command_id = ''cmd-1'', rq_expected = 1, rq_controller = Some ''alice'', rq_valid = True, rq_kind = ''start'',
     rq_verification_id = None, rq_internal = False, rq_conflicts = None, rq_identity = None\<rparr>"

definition demo_result :: exec_result where
  "demo_result = \<lparr>res_state = Some ''healthy'', res_run_id = Some (Some ''run-1''), res_failure = None, res_controller = Some ''alice'',
     res_release = None, res_changed = None, res_config_identity = None, res_last_outcome = None, res_bound_run_id = None,
     res_config_result = None, res_verification = None, res_checkpoint = None\<rparr>"

definition demo_c0 :: coordinator where
  "demo_c0 = new_coordinator ''epoch''"

definition demo_c1 :: coordinator where
  "demo_c1 = snd (submit_begin demo_request demo_c0)"

definition demo_c2 :: coordinator where
  "demo_c2 = snd (submit_finish demo_request demo_result demo_c1)"

lemmas coord_eval = py_eval demo_request_def demo_result_def demo_c0_def new_coordinator_def new_log_def submit_begin_def
  identity_gate_def active_conflicts_def log_event_def log_record_def command_entry_def in_progress_response_def

lemma demo_accepted: "submit_begin demo_request demo_c0 = (Inr None, demo_c1)"
  unfolding demo_c1_def by (simp add: coord_eval)

lemma demo_coord_reach: "coord_init (demo_c0, [])" "coord_step\<^sup>*\<^sup>* (demo_c0, []) (demo_c1, [demo_request])"
  using step_accept [OF demo_accepted] by (auto simp: coord_init_def demo_c0_def)

lemma finish_state:
  assumes "rq_command_id rq \<notin> set (co_exit_fenced c)"
  shows "co_state (snd (submit_finish rq res c)) = (case res_state res of None \<Rightarrow> co_state c | Some s \<Rightarrow> s)"
    "co_controller (snd (submit_finish rq res c)) =
       (if res_release res = Some True then None else if res_controller res \<noteq> None then res_controller res else co_controller c)"
  using assms by (simp_all add: submit_finish_def Let_def apply_state split: option.split)

lemma demo_c2_fields: "co_controller demo_c2 = Some ''alice''" "co_state demo_c2 = ''healthy''" "co_draining demo_c2 = False"
  "co_recovery demo_c2 = False" "co_version demo_c2 = 2" "co_active demo_c2 = []" "dget (co_commands demo_c2) ''cmd-2'' = None"
proof -
  note f = accepted_fields [OF demo_accepted]
  have c1: "co_exit_fenced demo_c1 = []" "co_draining demo_c1 = False" "co_recovery demo_c1 = False" "co_version demo_c1 = 2"
    "co_active demo_c1 = [(''cmd-1'', None)]" "dget (co_commands demo_c1) ''cmd-2'' = None"
    using f by (auto simp: demo_c0_def new_coordinator_def demo_request_def py_eval)
  show "co_controller demo_c2 = Some ''alice''" "co_state demo_c2 = ''healthy''"
    unfolding demo_c2_def using finish_state [of demo_request demo_c1 demo_result] c1(1) by (simp_all add: demo_result_def)
  let ?a = "ddel ''cmd-1'' (co_active demo_c1)"
  have "submit_finish demo_request demo_result demo_c1 = (fst (submit_finish demo_request demo_result demo_c1), demo_c2)"
    by (simp add: demo_c2_def)
  then obtain c2 e where c2: "demo_c2 = finish_operation ''cmd-1'' c2" "co_active c2 = ?a" "co_recovery c2 = co_recovery demo_c1"
      "co_version c2 = co_version demo_c1" "co_commands c2 = dset ''cmd-1'' e (evict_commands ?a (co_commands demo_c1))"
      "co_draining c2 = co_draining demo_c1"
    by (rule finish_unfold) (simp add: demo_request_def that)
  have "ddel ''cmd-1'' (co_active c2) = []" unfolding c2(2) c1(5) by (simp add: ddel_def)
  then show "co_draining demo_c2 = False" "co_recovery demo_c2 = False" "co_version demo_c2 = 2" "co_active demo_c2 = []"
    by (simp_all add: c2(1) c2(3,4,6) c1)
  have "dget (co_commands c2) ''cmd-2'' = None"
    using evict_get [of ?a "co_commands demo_c1" "''cmd-2''"] c1(6) by (auto simp: c2(5) dict_simps)
  then show "dget (co_commands demo_c2) ''cmd-2'' = None"
    using evict_get [of "ddel ''cmd-1'' (co_active c2)" "co_commands c2" "''cmd-2''"] by (auto simp: c2(1))
qed

section \<open>Properties\<close>

text \<open>C19. Mutations exclude each other: in every state of every run, of two operations under way each declares the
  names it works on and they share none; a command under way is in the cache without an answer, so that a retry
  of it is not executed again; at most 256 finished commands are kept; a recovery that waits for idleness runs
  once nothing is under way; and the event log is a window of at most 500 consecutive numbers.\<close>

theorem mutations_exclusive:
  assumes "coord_init s" "coord_step\<^sup>*\<^sup>* s (c, fl)"
  shows "(\<forall>a \<in> set fl. \<forall>b \<in> set fl. a \<noteq> b \<longrightarrow> (\<exists>xs ys. rq_conflicts a = Some xs \<and> rq_conflicts b = Some ys \<and> set xs \<inter> set ys = {})) \<and>
    (\<forall>a \<in> set fl. (\<exists>resp. dget (co_commands c) (rq_command_id a) = Some (command_entry a resp) \<and> rs_in_progress resp) \<and>
       (\<forall>rq. rq_command_id rq = rq_command_id a \<longrightarrow> fst (submit_begin rq c) \<noteq> Inr None \<and> snd (submit_begin rq c) = c)) \<and>
    length (completed_commands (co_active c) (co_commands c)) \<le> 256 \<and>
    (co_recovery c \<and> fl = [] \<longrightarrow> co_recovery_running c) \<and>
    (let l = co_events c in length (log_entries l) \<le> 500 \<and>
       map ev_seq (log_entries l) = [log_seq l - int (length (log_entries l)) + 1..log_seq l])"
proof -
  have inv: "coord_inv (c, fl)" using coord.reachable_inv [OF assms] .
  then have ops: "ops_ok (co_active c) (co_commands c) fl" by (simp add: coord_inv_def)
  have "\<exists>xs ys. rq_conflicts a = Some xs \<and> rq_conflicts b = Some ys \<and> set xs \<inter> set ys = {}"
    if "a \<in> set fl" "b \<in> set fl" "a \<noteq> b" for a b
  proof -
    have "rq_command_id a \<noteq> rq_command_id b" using ops that by (auto simp: ops_ok_def distinct_map inj_on_def)
    moreover have "dget (co_active c) (rq_command_id a) = Some (rq_conflicts a)" "dget (co_active c) (rq_command_id b) = Some (rq_conflicts b)"
      using ops that by (simp_all add: ops_ok_def)
    ultimately show ?thesis using ops unfolding ops_ok_def scopes_apart_def by blast
  qed
  moreover have "fst (submit_begin rq c) \<noteq> Inr None \<and> snd (submit_begin rq c) = c"
    if "a \<in> set fl" "rq_command_id rq = rq_command_id a" for a rq
  proof -
    have "dget (co_commands c) (rq_command_id rq) \<noteq> None" using ops that by (auto simp: ops_ok_def)
    then have "fst (submit_begin rq c) \<noteq> Inr None" unfolding accept_iff admissible_def by blast
    with not_accepted show ?thesis by blast
  qed
  moreover have "fl = [] \<Longrightarrow> co_active c = []"
    using ops by (cases "co_active c") (simp_all add: ops_ok_def dget_def, metis option.distinct(1))
  ultimately show ?thesis using inv ops by (auto simp: coord_inv_def ops_ok_def log_ok_def Let_def)
qed

theorem mutations_exclusive_witness:
  "fst (submit_begin demo_request demo_c1) \<noteq> Inr None \<and> length (completed_commands (co_active demo_c1) (co_commands demo_c1)) \<le> 256"
  using mutations_exclusive [OF demo_coord_reach] by simp

text \<open>C20. A command is executed once and answered once: after it completed, and for as long as it is in the cache
  through whatever other steps, a submission under its identifier changes nothing and is not executed; the same
  request from the same controller gets the original answer, and another controller gets an error.\<close>

theorem command_answered_once:
  assumes "coord_init s" "coord_step\<^sup>*\<^sup>* s (c, fl)" "rq \<in> set fl" "submit_finish rq res c = (resp, c')"
    and "(kept (rq_command_id rq))\<^sup>*\<^sup>* (c', remove1 rq fl) (d, gl)" "rq_command_id retry = rq_command_id rq"
  shows "fst (submit_begin retry d) \<noteq> Inr None \<and> snd (submit_begin retry d) = d \<and>
    (identity_gate retry d = None \<and> rq_controller retry = rq_controller rq \<and> rq_kind retry = rq_kind rq \<and>
       rq_identity retry = rq_identity rq \<longrightarrow> fst (submit_begin retry d) = Inr (Some (resp\<lparr>rs_replayed := True\<rparr>))) \<and>
    (rq_controller retry \<noteq> rq_controller rq \<longrightarrow> (\<exists>e. fst (submit_begin retry d) = Inl e))"
proof -
  have inv: "coord_inv (c, fl)" using coord.reachable_inv [OF assms(1,2)] .
  note f = inv_finish [OF inv assms(3,4)]
  have "dget (co_active c') (rq_command_id rq) = None"
    using assms(4) by (rule finish_unfold) (simp add: dict_simps)
  then have "holds_answer (rq_command_id rq) (command_entry rq resp) (c', remove1 rq fl)" using f(2) by (simp add: holds_answer_def)
  from answer_run [OF assms(5) f(1) this] have e: "dget (co_commands d) (rq_command_id retry) = Some (command_entry rq resp)"
    using assms(6) by (simp add: holds_answer_def)
  then have n: "fst (submit_begin retry d) \<noteq> Inr None" unfolding accept_iff admissible_def by simp
  have "rq_controller retry \<noteq> rq_controller rq \<Longrightarrow> \<exists>e. fst (submit_begin retry d) = Inl e"
    by (simp add: submit_begin_def e replay_command_def command_entry_def split: option.split)
  moreover have "identity_gate retry d = None \<Longrightarrow> rq_controller retry = rq_controller rq \<Longrightarrow> rq_kind retry = rq_kind rq \<Longrightarrow>
      rq_identity retry = rq_identity rq \<Longrightarrow> fst (submit_begin retry d) = Inr (Some (resp\<lparr>rs_replayed := True\<rparr>))"
    by (simp add: submit_begin_def e replay_command_def command_entry_def)
  ultimately show ?thesis using n not_accepted by blast
qed

theorem command_answered_once_witness:
  "fst (submit_begin demo_request demo_c2) = Inr (Some ((fst (submit_finish demo_request demo_result demo_c1))\<lparr>rs_replayed := True\<rparr>))"
proof -
  have "identity_gate demo_request demo_c2 = None"
    by (simp add: identity_gate_def demo_c2_fields demo_request_def)
  moreover have "submit_finish demo_request demo_result demo_c1 = (fst (submit_finish demo_request demo_result demo_c1), demo_c2)"
    by (simp add: demo_c2_def)
  ultimately show ?thesis
    using command_answered_once [OF demo_coord_reach, of demo_request demo_result _ demo_c2 demo_c2 "[]" demo_request] by simp
qed

text \<open>Every accepted command was sent for the state it meets: along any run a later accepted command expects a
  greater version than an earlier one, so no two are accepted for the same version; while a controller owns the
  run only its own commands are accepted, and while the service shuts down or recovers none of a client.\<close>

theorem mutations_versioned:
  assumes "submit_begin rq1 c1 = (Inr None, c1')" "coord_step\<^sup>*\<^sup>* (c1', fl1) (c2, fl2)" "submit_begin rq2 c2 = (Inr None, c2')"
  shows "rq_expected rq1 = co_version c1 \<and> rq_expected rq1 < rq_expected rq2 \<and> co_version c2' = rq_expected rq2 + 1 \<and>
    (co_controller c2 \<noteq> None \<longrightarrow> rq_controller rq2 = co_controller c2) \<and>
    (\<not> rq_internal rq2 \<longrightarrow> rq_controller rq2 \<noteq> None \<and> \<not> co_draining c2 \<and> co_state c2 \<noteq> ''recovering'' \<and> \<not> co_recovery c2)"
proof -
  have "admissible rq1 c1" "admissible rq2 c2" using accept_iff [of rq1 c1] accept_iff [of rq2 c2] assms(1,3) by simp_all
  moreover have "co_version c1' \<le> co_version c2" using run_version [OF assms(2)] by simp
  ultimately show ?thesis
    using accepted_fields(1) [OF assms(1)] accepted_fields(1) [OF assms(3)]
    by (auto simp: admissible_def identity_gate_def split: if_splits)
qed

theorem mutations_versioned_witness:
  "rq_expected demo_request < rq_expected (demo_request\<lparr>rq_command_id := ''cmd-2'', rq_expected := 2\<rparr>)"
proof -
  let ?rq = "demo_request\<lparr>rq_command_id := ''cmd-2'', rq_expected := 2\<rparr>"
  have "coord_step (demo_c1, [demo_request]) (demo_c2, remove1 demo_request [demo_request])"
    by (rule step_finish [of demo_request _ demo_result demo_c1 "fst (submit_finish demo_request demo_result demo_c1)"])
      (simp_all add: demo_c2_def)
  then have "coord_step\<^sup>*\<^sup>* (demo_c1, [demo_request]) (demo_c2, [])" by auto
  moreover have "fst (submit_begin ?rq demo_c2) = Inr None"
    unfolding accept_iff admissible_def
    by (simp add: identity_gate_def active_conflicts_def demo_c2_fields) (simp add: demo_request_def)
  ultimately show ?thesis
    using mutations_versioned [OF demo_accepted, of _ demo_c2 "[]" ?rq "snd (submit_begin ?rq demo_c2)"] by (metis prod.collapse)
qed



end
