(* ===== verification/McpQueries.thy ===== *)
theory McpQueries
  imports McpRuns StateExn
begin

text \<open>
  Read-only queries over the event log (\<open>fakenet/mcp/queries.py\<close>): opaque cursors, pages of events and the bounded
  wait for a state. \<open>json\<close> is a parameter; Base64 is the one of the standard library, with its lenient decoder.
\<close>

section \<open>Base64\<close>

definition sextet_char :: "nat \<Rightarrow> char" where
  "sextet_char n = (if n < 26 then char_of (65 + n) else if n < 52 then char_of (97 + (n - 26))
     else if n < 62 then char_of (48 + (n - 52)) else if n = 62 then CHR ''-'' else CHR ''_'')"

definition char_sextet :: "char \<Rightarrow> nat option" where
  "char_sextet c = (let n = of_char c in
     if 65 \<le> n \<and> n \<le> 90 then Some (n - 65) else if 97 \<le> n \<and> n \<le> 122 then Some (n - 97 + 26)
     else if 48 \<le> n \<and> n \<le> 57 then Some (n - 48 + 52)
     else if c = CHR ''-'' \<or> c = CHR ''+'' then Some 62 else if c = CHR ''_'' \<or> c = CHR ''/'' then Some 63 else None)"

text \<open>Bytes as numbers below 256. The unpadded form is what \<open>urlsafe_b64encode(raw).rstrip('=')\<close> leaves.\<close>

fun b64encode :: "nat list \<Rightarrow> string" where
  "b64encode [] = []"
| "b64encode [a] = [sextet_char (a div 4), sextet_char (a mod 4 * 16)]"
| "b64encode [a, b] = [sextet_char (a div 4), sextet_char (a mod 4 * 16 + b div 16), sextet_char (b mod 16 * 4)]"
| "b64encode (a # b # c # rest) = sextet_char (a div 4) # sextet_char (a mod 4 * 16 + b div 16) #
     sextet_char (b mod 16 * 4 + c div 64) # sextet_char (c mod 64) # b64encode rest"

text \<open>\<open>binascii.a2b_base64\<close>, not strict: characters outside the alphabet are skipped, padding ends the data once
  the group is complete, and a group that stays incomplete is an error.\<close>

fun a2b_base64 :: "string \<Rightarrow> nat \<Rightarrow> nat \<Rightarrow> nat \<Rightarrow> nat list option" where
  "a2b_base64 [] quad left pads = (if quad = 0 then Some [] else None)"
| "a2b_base64 (c # cs) quad left pads =
     (if c = CHR ''='' then (if 2 \<le> quad \<and> 4 \<le> quad + (pads + 1) then Some [] else a2b_base64 cs quad left (if 2 \<le> quad then pads + 1 else pads))
      else (case char_sextet c of
          None \<Rightarrow> a2b_base64 cs quad left pads
        | Some v \<Rightarrow>
            if quad = 0 then a2b_base64 cs 1 v 0
            else if quad = 1 then map_option ((#) (left * 4 + v div 16)) (a2b_base64 cs 2 (v mod 16) 0)
            else if quad = 2 then map_option ((#) (left * 16 + v div 4)) (a2b_base64 cs 3 (v mod 4) 0)
            else map_option ((#) (left * 64 + v)) (a2b_base64 cs 0 0 0)))"

lemma sextet_char_lt:
  assumes "n < 64"
  shows "char_sextet (sextet_char n) = Some n" "sextet_char n \<noteq> CHR ''=''"
proof -
  consider "n < 26" | m where "n = 26 + m" "m < 26" | m where "n = 52 + m" "m < 10" | "n = 62" | "n = 63"
  proof -
    have "n < 26 \<or> (n = 26 + (n - 26) \<and> n - 26 < 26) \<or> (n = 52 + (n - 52) \<and> n - 52 < 10) \<or> n = 62 \<or> n = 63"
      using assms by linarith
    then show thesis using that by blast
  qed
  then show c: "char_sextet (sextet_char n) = Some n"
    by cases (simp_all add: sextet_char_def char_sextet_def Let_def)
  have "char_sextet (CHR ''='') = None" by (simp add: char_sextet_def Let_def)
  with c show "sextet_char n \<noteq> CHR ''=''" by auto
qed

lemma b64_length: "length (b64encode bs) mod 4 \<noteq> 1"
  by (induction bs rule: b64encode.induct) auto

text \<open>What \<open>body + '=' * (-len(body) % 4)\<close> decodes to.\<close>

definition urlsafe_b64decode :: "string \<Rightarrow> nat list option" where
  "urlsafe_b64decode body = a2b_base64 (body @ replicate (nat (- int (length body) mod 4)) (CHR ''='')) 0 0 0"

lemma a2b_group:
  assumes "a < 256" "b < 256" "c < 256"
  shows "a2b_base64 (sextet_char (a div 4) # sextet_char (a mod 4 * 16 + b div 16) #
    sextet_char (b mod 16 * 4 + c div 64) # sextet_char (c mod 64) # cs) 0 0 p = map_option (\<lambda>xs. a # b # c # xs) (a2b_base64 cs 0 0 0)"
proof -
  have d: "a div 4 < 64" "a mod 4 * 16 + b div 16 < 64" "b mod 16 * 4 + c div 64 < 64" "c mod 64 < 64" using assms by auto
  have q: "b div 16 < 16" "c div 64 < 4" using assms by auto
  show ?thesis
    using q by (simp add: sextet_char_lt d option.map_comp comp_def)
qed

lemma b64_round_trip:
  "\<forall>b \<in> set bs. b < 256 \<Longrightarrow>
    a2b_base64 (b64encode bs @ replicate (nat (- int (length (b64encode bs)) mod 4)) (CHR ''='')) 0 0 0 = Some bs"
proof (induction bs rule: b64encode.induct)
  case (2 a)
  then have d: "a div 4 < 64" "a mod 4 * 16 < 64" by auto
  have "replicate (nat (- int 2 mod 4)) (CHR ''='') = [CHR ''='', CHR ''='']" by (simp add: numeral_2_eq_2)
  with d show ?case by (simp add: sextet_char_lt)
next
  case (3 a b)
  then have d: "a div 4 < 64" "a mod 4 * 16 + b div 16 < 64" "b mod 16 * 4 < 64" by auto
  have "replicate (nat (- int 3 mod 4)) (CHR ''='') = [CHR ''='']" "b div 16 < 16" using 3 by auto
  with d show ?case by (simp add: sextet_char_lt)
next
  case (4 a b c rest)
  have "- int (length (b64encode (a # b # c # rest))) mod 4 = - int (length (b64encode rest)) mod 4"
    by simp presburger
  then have e: "b64encode (a # b # c # rest) @ replicate (nat (- int (length (b64encode (a # b # c # rest))) mod 4)) (CHR ''='') =
      sextet_char (a div 4) # sextet_char (a mod 4 * 16 + b div 16) # sextet_char (b mod 16 * 4 + c div 64) # sextet_char (c mod 64) #
      b64encode rest @ replicate (nat (- int (length (b64encode rest)) mod 4)) (CHR ''='')"
    by simp
  have lt: "a < 256" "b < 256" "c < 256" using 4(2) by simp_all
  show ?case unfolding e a2b_group [OF lt] using 4 by simp
qed simp

section \<open>Cursors\<close>

text \<open>The values of \<open>json\<close> as far as they are looked at; \<open>True\<close> and \<open>1.0\<close> equal \<open>1\<close>.\<close>

datatype json = JObject "(string \<times> json) list" | JString string | JInt int | JFloat rat | JBool bool | JOther

definition json_get :: "string \<Rightarrow> (string \<times> json) list \<Rightarrow> json option" where
  "json_get k kvs = dget kvs k"

record json_codec =
  json_dumps :: "json \<Rightarrow> nat list"
  json_loads :: "nat list \<Rightarrow> json option"

definition CURSOR_PREFIX :: string where
  "CURSOR_PREFIX = ''fnev1.''"

definition cursor_payload :: "string \<Rightarrow> int \<Rightarrow> json" where
  "cursor_payload epoch seq = JObject [(''v'', JInt 1), (''epoch'', JString epoch), (''seq'', JInt seq)]"

definition encode_cursor :: "json_codec \<Rightarrow> string \<Rightarrow> int \<Rightarrow> string result" where
  "encode_cursor js epoch seq =
     (if epoch = [] then Inl (ValueError ''cursor epoch must be a non-empty string'')
      else if seq < 0 then Inl (ValueError ''cursor seq must be a non-negative integer'')
      else Inr (CURSOR_PREFIX @ b64encode (json_dumps js (cursor_payload epoch seq))))"

definition decode_cursor :: "json_codec \<Rightarrow> string \<Rightarrow> (string \<times> int) result" where
  "decode_cursor js token =
     (if \<not> (take (length CURSOR_PREFIX) token = CURSOR_PREFIX) then Inl (ValueError ''cursor must be an opaque event token'')
      else case Option.bind (urlsafe_b64decode (drop (length CURSOR_PREFIX) token)) (json_loads js) of
        None \<Rightarrow> Inl (ValueError ''cursor is not a decodable token'')
      | Some (JObject kvs) \<Rightarrow>
          if json_get ''v'' kvs \<noteq> Some (JInt 1) \<and> json_get ''v'' kvs \<noteq> Some (JFloat 1) \<and> json_get ''v'' kvs \<noteq> Some (JBool True)
          then Inl (ValueError ''cursor version is not supported'')
          else (case json_get ''epoch'' kvs of
              Some (JString epoch) \<Rightarrow>
                if epoch = [] then Inl (ValueError ''cursor epoch is malformed'')
                else (case json_get ''seq'' kvs of
                    Some (JInt seq) \<Rightarrow> if seq < 0 then Inl (ValueError ''cursor seq is malformed'') else Inr (epoch, seq)
                  | _ \<Rightarrow> Inl (ValueError ''cursor seq is malformed''))
            | _ \<Rightarrow> Inl (ValueError ''cursor epoch is malformed''))
      | Some _ \<Rightarrow> Inl (ValueError ''cursor version is not supported''))"

section \<open>Pages\<close>

record event_page =
  page_events :: "mcp_event list"
  page_epoch :: string
  page_next :: string
  page_next_seq :: int
  page_has_more :: bool
  page_gap :: bool
  page_reset :: bool
  page_oldest :: "int option"
  page_latest :: int

definition event_matches :: "string option \<Rightarrow> mcp_event \<Rightarrow> bool" where
  "event_matches run_id e \<longleftrightarrow> run_id = None \<or> ev_run_id e = run_id"

text \<open>\<open>page_next_seq\<close> is the number inside the next cursor.\<close>

definition page_response :: "json_codec \<Rightarrow> int option \<Rightarrow> int \<Rightarrow> mcp_event list \<Rightarrow> string \<Rightarrow> int \<Rightarrow> bool \<Rightarrow> bool \<Rightarrow> bool \<Rightarrow> event_page result" where
  "page_response js oldest latest page epoch next_seq has_more gap reset = ebind (encode_cursor js epoch next_seq) (\<lambda>token.
     Inr \<lparr>page_events = page, page_epoch = epoch, page_next = token, page_next_seq = next_seq, page_has_more = has_more,
       page_gap = gap, page_reset = reset, page_oldest = oldest, page_latest = latest\<rparr>)"

text \<open>The window is \<open>(epoch, entries, oldest, latest)\<close>, as \<open>EventLog.window\<close> returns it.\<close>

definition events_page :: "json_codec \<Rightarrow> string \<times> mcp_event list \<times> int option \<times> int \<Rightarrow> int option \<Rightarrow> string option \<Rightarrow>
    string option \<Rightarrow> event_page result" where
  "events_page js = (\<lambda>(epoch, entries, oldest, latest) limit0 cursor run_id.
     let limit = (case limit0 of None \<Rightarrow> 100 | Some n \<Rightarrow> if n < 1 then 100 else nat n);
         matched = filter (event_matches run_id) entries in
     case cursor of
       None \<Rightarrow> page_response js oldest latest (drop (length matched - limit) matched) epoch latest False False False
     | Some token \<Rightarrow> (case decode_cursor js token of
         Inl e \<Rightarrow> Inl e
       | Inr (cursor_epoch, cursor_seq) \<Rightarrow>
           if cursor_epoch \<noteq> epoch then
             (let page = take limit matched in
              page_response js oldest latest page epoch (if page \<noteq> [] then ev_seq (last page) else latest) (length matched > limit) False True)
           else if cursor_seq > latest then Inl (ValueError ''cursor seq is beyond the current tail'')
           else (let gap = (case oldest of None \<Rightarrow> False | Some n \<Rightarrow> cursor_seq < n - 1);
                     later = filter (\<lambda>e. ev_seq e > cursor_seq \<and> event_matches run_id e) entries;
                     page = take limit later in
              if length later > limit then page_response js oldest latest page epoch (ev_seq (last page)) True gap False
              else page_response js oldest latest page epoch latest False gap False)))"

text \<open>A cursor survives its encoding, whatever epoch and number it carries.\<close>

lemma cursor_round_trip:
  assumes law: "json_loads js (json_dumps js (cursor_payload epoch seq)) = Some (cursor_payload epoch seq)"
    and bytes: "\<forall>b \<in> set (json_dumps js (cursor_payload epoch seq)). b < 256"
    and ok: "epoch \<noteq> []" "0 \<le> seq"
  shows "\<exists>token. encode_cursor js epoch seq = Inr token \<and> decode_cursor js token = Inr (epoch, seq)"
proof -
  have "urlsafe_b64decode (b64encode (json_dumps js (cursor_payload epoch seq))) = Some (json_dumps js (cursor_payload epoch seq))"
    unfolding urlsafe_b64decode_def using b64_round_trip [OF bytes] .
  with law ok show ?thesis
    by (simp add: encode_cursor_def decode_cursor_def) (simp add: cursor_payload_def json_get_def dget_def)
qed

section \<open>The log and its history\<close>

type_synonym event_data = "string \<times> string option \<times> string option \<times> string option \<times> string option"

definition record_event :: "event_data \<Rightarrow> event_log \<Rightarrow> event_log" where
  "record_event = (\<lambda>(kind, command, st, reason, run). log_record kind command st reason run)"

definition run_log :: "string \<Rightarrow> event_data list \<Rightarrow> event_log" where
  "run_log epoch ds = fold record_event ds (new_log 500 epoch)"

text \<open>Everything that was ever recorded, numbered from 1.\<close>

fun number_events :: "int \<Rightarrow> event_data list \<Rightarrow> mcp_event list" where
  "number_events n [] = []"
| "number_events n ((kind, command, st, reason, run) # ds) = \<lparr>ev_seq = n, ev_kind = kind, ev_command = command, ev_state = st,
     ev_reason = reason, ev_run_id = run\<rparr> # number_events (n + 1) ds"

definition event_history :: "event_data list \<Rightarrow> mcp_event list" where
  "event_history ds = number_events 1 ds"

lemma number_events_append: "number_events n (xs @ ys) = number_events n xs @ number_events (n + int (length xs)) ys"
  by (induction n xs rule: number_events.induct) (auto simp: algebra_simps)

lemma number_events_seqs: "map ev_seq (number_events n ds) = [n..n + int (length ds) - 1]"
  by (induction n ds rule: number_events.induct) (auto simp: upto_rec1 algebra_simps)

lemma history_length [simp]: "length (event_history ds) = length ds"
proof -
  have "length (map ev_seq (number_events 1 ds)) = length ds" by (simp add: number_events_seqs)
  then show ?thesis by (simp add: event_history_def)
qed

lemma history_append: "\<exists>ys. event_history (ds @ new) = event_history ds @ ys \<and> (\<forall>e \<in> set ys. ev_seq e > int (length ds))"
proof -
  let ?ys = "number_events (1 + int (length ds)) new"
  have "set (map ev_seq ?ys) = {1 + int (length ds)..int (length ds) + int (length new)}"
    by (simp only: number_events_seqs set_upto) (simp add: algebra_simps)
  then have "ev_seq e \<in> {1 + int (length ds)..int (length ds) + int (length new)}" if "e \<in> set ?ys" for e
    using that by (metis image_eqI set_map)
  then have "\<forall>e \<in> set ?ys. ev_seq e > int (length ds)" by force
  then show ?thesis by (auto simp: event_history_def number_events_append)
qed

lemma run_log_entries:
  "log_entries (run_log epoch ds) = drop (length ds - 500) (event_history ds) \<and> log_seq (run_log epoch ds) = int (length ds) \<and>
    log_limit (run_log epoch ds) = 500 \<and> log_epoch (run_log epoch ds) = epoch"
proof (induction ds rule: rev_induct)
  case Nil
  show ?case by (simp add: run_log_def new_log_def event_history_def)
next
  case (snoc d ds)
  obtain kind command st reason run where d: "d = (kind, command, st, reason, run)" by (cases d) auto
  let ?l = "run_log epoch ds" and ?h = "event_history ds"
  let ?e = "\<lparr>ev_seq = int (length ds) + 1, ev_kind = kind, ev_command = command, ev_state = st, ev_reason = reason, ev_run_id = run\<rparr>"
  have l: "run_log epoch (ds @ [d]) = log_record kind command st reason run ?l"
    by (simp add: run_log_def record_event_def d)
  have h: "event_history (ds @ [d]) = ?h @ [?e]" by (simp add: event_history_def number_events_append d algebra_simps)
  let ?es = "log_entries ?l @ [?e]"
  have "?es = drop (length ds - 500) (?h @ [?e])" using snoc by simp
  then have "drop (length ?es - 500) ?es = drop (length (ds @ [d]) - 500) (?h @ [?e])"
    by (cases "length ds < 500") (simp_all add: drop_drop Suc_diff_le [symmetric])
  then show ?case using snoc by (simp add: l h log_record_def Let_def)
qed

section \<open>Polling\<close>

text \<open>Events in the order of their numbers: the first ones are those up to the last one taken.\<close>

lemma take_by_seq:
  assumes "sorted_wrt (<) (map ev_seq xs)" "0 < n" "n < length xs"
  shows "take n xs = filter (\<lambda>e. ev_seq e \<le> ev_seq (last (take n xs))) xs"
proof -
  have l: "last (take n xs) = xs ! (n - 1)" using assms by (subst last_conv_nth) (auto simp: min_def)
  have "filter (\<lambda>e. ev_seq e \<le> ev_seq (xs ! (n - 1))) (take n xs) = take n xs"
  proof (rule filter_True, rule ballI)
    fix e
    assume "e \<in> set (take n xs)"
    then obtain i where i: "i < n" "e = xs ! i" using assms(3) by (auto simp: in_set_conv_nth)
    show "ev_seq e \<le> ev_seq (xs ! (n - 1))"
    proof (cases "i = n - 1")
      case False
      then have "i < n - 1" using i(1) by simp
      moreover have "n - 1 < length xs" using assms(3) by simp
      ultimately show ?thesis using sorted_wrt_nth_less [OF assms(1), of i "n - 1"] i by simp
    qed (simp add: i)
  qed
  moreover have "filter (\<lambda>e. ev_seq e \<le> ev_seq (xs ! (n - 1))) (drop n xs) = []"
  proof (rule filter_False, rule ballI)
    fix e
    assume "e \<in> set (drop n xs)"
    then obtain i where i: "i < length xs - n" "e = xs ! (n + i)" by (auto simp: in_set_conv_nth)
    have "n - 1 < n + i" "n + i < length xs" "n - 1 < length xs" using i(1) assms(2,3) by linarith+
    then show "\<not> ev_seq e \<le> ev_seq (xs ! (n - 1))"
      using sorted_wrt_nth_less [OF assms(1), of "n - 1" "n + i"] by (simp add: i(2))
  qed
  ultimately show ?thesis
    unfolding l by (metis append_Nil2 append_take_drop_id filter_append)
qed

lemma history_sorted: "sorted_wrt (<) (map ev_seq (event_history ds))"
  by (simp add: event_history_def number_events_seqs sorted_wrt_upto)

lemma history_seqs: "e \<in> set (event_history ds) \<Longrightarrow> 0 < ev_seq e \<and> ev_seq e \<le> int (length ds)"
proof -
  assume "e \<in> set (event_history ds)"
  then have "ev_seq e \<in> set (map ev_seq (event_history ds))" by simp
  then show ?thesis by (simp add: event_history_def number_events_seqs)
qed

text \<open>The window of a log holds the end of its history, from the number it reports as the oldest.\<close>

lemma window_of_log:
  assumes "log_window (run_log epoch ds) = (ep, entries, oldest, latest)"
  shows "ep = epoch" "latest = int (length ds)" "entries = drop (length ds - 500) (event_history ds)"
    "oldest = (if ds = [] then None else Some (int (length ds - 500) + 1))"
proof -
  define es where "es = drop (length ds - 500) (event_history ds)"
  have seqs: "map ev_seq (event_history ds) = [1..int (length ds)]" by (simp add: event_history_def number_events_seqs)
  have w: "ep = epoch" "entries = es" "oldest = (if es = [] then None else Some (ev_seq (hd es)))"
    "latest = (if es = [] then 0 else ev_seq (last es))"
    using assms run_log_entries [of epoch ds] by (auto simp: log_window_def Let_def es_def [symmetric])
  then show "ep = epoch" "entries = drop (length ds - 500) (event_history ds)" by (simp_all add: es_def)
  have n: "es = [] \<longleftrightarrow> ds = []" unfolding es_def drop_eq_Nil history_length by (cases ds) auto
  have last: "ev_seq (last es) = int (length ds)" if "ds \<noteq> []"
  proof -
    have ne: "event_history ds \<noteq> []" using that history_length [of ds] by force
    have "last es = last (event_history ds)" using that n unfolding es_def by (intro last_drop) simp
    then have "ev_seq (last es) = last (map ev_seq (event_history ds))" using ne by (simp add: last_map)
    then show ?thesis using that by (simp add: seqs upto_rec2 [of 1 "int (length ds)"] Suc_le_eq)
  qed
  have hd: "ev_seq (hd es) = int (length ds - 500) + 1" if "ds \<noteq> []"
  proof -
    have "length ds - 500 < length (event_history ds)" using that by (cases ds) auto
    then have "ev_seq (hd es) = map ev_seq (event_history ds) ! (length ds - 500)"
      by (simp add: es_def hd_drop_conv_nth)
    also have "\<dots> = 1 + int (length ds - 500)" unfolding seqs using that by (subst nth_upto) (cases ds; simp)+
    finally show ?thesis by simp
  qed
  from w n last hd show "latest = int (length ds)" "oldest = (if ds = [] then None else Some (int (length ds - 500) + 1))"
    by (cases "ds = []"; simp)+
qed

text \<open>One page after a cursor: the matching events of the history beyond it, up to the next cursor, and all of
  them when nothing is left; a missed event shows as a gap.\<close>

lemma page_after_cursor:
  assumes page: "events_page js (log_window (run_log epoch ds)) limit (Some token) run_id = Inr p"
    and tok: "decode_cursor js token = Inr (epoch, s)" and nogap: "\<not> page_gap p"
  shows "page_events p = filter (\<lambda>e. s < ev_seq e \<and> ev_seq e \<le> page_next_seq p \<and> event_matches run_id e) (event_history ds)"
    "s \<le> page_next_seq p" "page_next_seq p \<le> int (length ds)" "\<not> page_has_more p \<Longrightarrow> page_next_seq p = int (length ds)"
    "\<not> page_reset p"
proof -
  obtain ep entries oldest latest where w: "log_window (run_log epoch ds) = (ep, entries, oldest, latest)" by (metis prod_cases4)
  note wl = window_of_log [OF w]
  define n where "n = (case limit of None \<Rightarrow> 100 | Some n \<Rightarrow> if n < 1 then 100 else nat n)"
  have n: "0 < n" by (auto simp: n_def split: option.split)
  define later where "later = filter (\<lambda>e. ev_seq e > s \<and> event_matches run_id e) entries"
  have p: "s \<le> latest" "page_gap p = (case oldest of None \<Rightarrow> False | Some m \<Rightarrow> s < m - 1)" "\<not> page_reset p"
    "page_events p = (if n < length later then take n later else later)"
    "page_next_seq p = (if n < length later then ev_seq (last (take n later)) else latest)" "page_has_more p = (n < length later)"
    using page tok unfolding events_page_def w prod.case Let_def wl(1) n_def [symmetric]
    by (auto simp: later_def page_response_def ebind_Inr_iff split: if_splits)
  have low: "ev_seq e \<le> s" if "e \<in> set (take (length ds - 500) (event_history ds))" for e
  proof -
    from that obtain i where i: "i < length ds - 500" "e = event_history ds ! i" by (auto simp: in_set_conv_nth)
    have "ev_seq e = map ev_seq (event_history ds) ! i" using i by simp
    also have "\<dots> = 1 + int i" unfolding event_history_def number_events_seqs using i(1) by (subst nth_upto) auto
    finally have "ev_seq e \<le> int (length ds - 500)" using i(1) by simp
    moreover have "ds \<noteq> []" using i(1) by auto
    ultimately show ?thesis using nogap p(2) wl(4) by simp
  qed
  have all: "filter (\<lambda>e. s < ev_seq e \<and> event_matches run_id e) (event_history ds) = later"
  proof -
    have "filter (\<lambda>e. s < ev_seq e \<and> event_matches run_id e) (take (length ds - 500) (event_history ds)) = []"
      using low by (fastforce intro: filter_False)
    then show ?thesis unfolding later_def wl(3)
      by (metis (no_types, lifting) append_Nil append_take_drop_id filter_append)
  qed
  have "sorted_wrt (<) (map ev_seq later)"
    using history_sorted [of ds] unfolding all [symmetric] by (simp add: sorted_wrt_map sorted_wrt_filter)
  note take = take_by_seq [OF this n]
  have seqs: "e \<in> set later \<Longrightarrow> s < ev_seq e \<and> ev_seq e \<le> latest" for e
    using history_seqs [of e ds] wl(2) by (auto simp: all [symmetric])
  show "\<not> page_reset p" by (rule p(3))
  show "page_events p = filter (\<lambda>e. s < ev_seq e \<and> ev_seq e \<le> page_next_seq p \<and> event_matches run_id e) (event_history ds)"
    "s \<le> page_next_seq p" "page_next_seq p \<le> int (length ds)" "\<not> page_has_more p \<Longrightarrow> page_next_seq p = int (length ds)"
  proof -
    have f: "filter (\<lambda>e. s < ev_seq e \<and> ev_seq e \<le> m \<and> event_matches run_id e) (event_history ds) = filter (\<lambda>e. ev_seq e \<le> m) later" for m
      unfolding all [symmetric] by (simp add: conj_ac)
    consider "n < length later" "page_events p = take n later" "page_next_seq p = ev_seq (last (take n later))" "page_has_more p"
      | "page_events p = later" "page_next_seq p = latest"
      using p(4-6) by (cases "n < length later") auto
    then have "page_events p = filter (\<lambda>e. ev_seq e \<le> page_next_seq p) later \<and> s \<le> page_next_seq p \<and> page_next_seq p \<le> latest \<and>
        (\<not> page_has_more p \<longrightarrow> page_next_seq p = latest)"
    proof cases
      case 1
      have "last (take n later) \<in> set later" using n 1(1) by (intro in_set_takeD [OF last_in_set]) auto
      from seqs [OF this] take [OF 1(1)] show ?thesis using 1 by auto
    next
      case 2
      have "filter (\<lambda>e. ev_seq e \<le> latest) later = later" using seqs by (auto intro: filter_True)
      with 2 p(1) show ?thesis by simp
    qed
    then show "page_events p = filter (\<lambda>e. s < ev_seq e \<and> ev_seq e \<le> page_next_seq p \<and> event_matches run_id e) (event_history ds)"
      "s \<le> page_next_seq p" "page_next_seq p \<le> int (length ds)" "\<not> page_has_more p \<Longrightarrow> page_next_seq p = int (length ds)"
      unfolding f wl(2) [symmetric] by auto
  qed
qed

text \<open>A client that keeps asking with the cursor it got last, while events are recorded; it goes on as long as no page
  reports a gap.\<close>

inductive polls :: "json_codec \<Rightarrow> string \<Rightarrow> int option \<Rightarrow> string option \<Rightarrow> int \<Rightarrow> mcp_event list \<Rightarrow> int \<Rightarrow> event_data list \<Rightarrow> bool"
  for js epoch limit run_id s0 where
  polls_start: "polls js epoch limit run_id s0 [] s0 ds"
| polls_page: "polls js epoch limit run_id s0 got s ds \<Longrightarrow> encode_cursor js epoch s = Inr token \<Longrightarrow>
    events_page js (log_window (run_log epoch (ds @ new))) limit (Some token) run_id = Inr p \<Longrightarrow> \<not> page_gap p \<Longrightarrow>
    polls js epoch limit run_id s0 (got @ page_events p) (page_next_seq p) (ds @ new)"

text \<open>What the encoding of a cursor relies on: \<open>json.loads\<close> reads back the object \<open>json.dumps\<close> wrote.\<close>

definition json_law :: "json_codec \<Rightarrow> string \<Rightarrow> bool" where
  "json_law js epoch \<longleftrightarrow> (\<forall>seq \<ge> 0. json_loads js (json_dumps js (cursor_payload epoch seq)) = Some (cursor_payload epoch seq) \<and>
     (\<forall>b \<in> set (json_dumps js (cursor_payload epoch seq)). b < 256))"

lemma cursor_token:
  "json_law js epoch \<Longrightarrow> encode_cursor js epoch s = Inr token \<Longrightarrow> decode_cursor js token = Inr (epoch, s)"
  using cursor_round_trip [of js epoch s] by (auto simp: json_law_def encode_cursor_def split: if_splits)

lemma delivered_append:
  assumes "s = s0 \<or> s \<le> int (length ds)" "s0 \<le> s" "s \<le> s'"
  shows "filter (\<lambda>e. s0 < ev_seq e \<and> ev_seq e \<le> s \<and> P e) (event_history ds) @
      filter (\<lambda>e. s < ev_seq e \<and> ev_seq e \<le> s' \<and> P e) (event_history (ds @ new)) =
    filter (\<lambda>e. s0 < ev_seq e \<and> ev_seq e \<le> s' \<and> P e) (event_history (ds @ new))"
proof -
  have split: "filter (\<lambda>e. s0 < ev_seq e \<and> ev_seq e \<le> s \<and> P e) xs @ filter (\<lambda>e. s < ev_seq e \<and> ev_seq e \<le> s' \<and> P e) xs =
      filter (\<lambda>e. s0 < ev_seq e \<and> ev_seq e \<le> s' \<and> P e) xs" if "sorted_wrt (<) (map ev_seq xs)" for xs
    using that
  proof (induction xs)
    case (Cons x xs)
    show ?case
    proof (cases "ev_seq x \<le> s")
      case True
      with Cons assms(2,3) show ?thesis by auto
    next
      case False
      with Cons.prems have "filter (\<lambda>e. s0 < ev_seq e \<and> ev_seq e \<le> s \<and> P e) (x # xs) = []" by (auto intro!: filter_False)
      moreover from False Cons.prems assms(2) have "\<forall>e \<in> set (x # xs). s < ev_seq e \<and> s0 < ev_seq e" by auto
      then have "filter (\<lambda>e. s < ev_seq e \<and> ev_seq e \<le> s' \<and> P e) (x # xs) = filter (\<lambda>e. s0 < ev_seq e \<and> ev_seq e \<le> s' \<and> P e) (x # xs)"
        by (intro filter_cong) auto
      ultimately show ?thesis by simp
    qed
  qed simp
  obtain ys where ys: "event_history (ds @ new) = event_history ds @ ys" "\<forall>e \<in> set ys. ev_seq e > int (length ds)"
    using history_append by blast
  have "filter (\<lambda>e. s0 < ev_seq e \<and> ev_seq e \<le> s \<and> P e) ys = []"
    using assms(1) ys(2) by (intro filter_False) auto
  then have "filter (\<lambda>e. s0 < ev_seq e \<and> ev_seq e \<le> s \<and> P e) (event_history ds) =
      filter (\<lambda>e. s0 < ev_seq e \<and> ev_seq e \<le> s \<and> P e) (event_history (ds @ new))"
    by (simp add: ys(1))
  with split [OF history_sorted] show ?thesis by simp
qed

lemma polls_delivered:
  assumes law: "json_law js epoch" and "polls js epoch limit run_id s0 got s ds"
  shows "got = filter (\<lambda>e. s0 < ev_seq e \<and> ev_seq e \<le> s \<and> event_matches run_id e) (event_history ds) \<and>
    s0 \<le> s \<and> (s = s0 \<or> s \<le> int (length ds))"
  using assms(2)
proof (induction rule: polls.induct)
  case (polls_start ds)
  show ?case by (auto intro!: filter_False [symmetric])
next
  case (polls_page got s ds token new p)
  note pg = page_after_cursor [OF polls_page.hyps(3) cursor_token [OF law polls_page.hyps(2)] polls_page.hyps(4)]
  from polls_page.IH delivered_append [of s s0 ds "page_next_seq p" "event_matches run_id" new] pg(1-3) show ?case by simp
qed

section \<open>Waiting for a state\<close>

record wait_pass =
  w_state :: string
  w_version :: int
  w_now :: time

definition wait_matches :: "string list option \<Rightarrow> int option \<Rightarrow> wait_pass \<Rightarrow> bool" where
  "wait_matches states after o1 \<longleftrightarrow> (case states of None \<Rightarrow> True | Some xs \<Rightarrow> w_state o1 \<in> set xs) \<and>
     (case after of None \<Rightarrow> True | Some n \<Rightarrow> w_version o1 > n)"

definition valid_service_states :: "string list" where
  "valid_service_states = [''stopped'', ''starting'', ''healthy'', ''degraded'', ''failed'', ''recovering'']"

text \<open>Arguments of the right type; a time-out is a finite number.\<close>

definition validate_wait_request :: "string list option \<Rightarrow> int option \<Rightarrow> time \<Rightarrow> unit result" where
  "validate_wait_request states after timeout =
     (if states = None \<and> after = None then Inl (ValueError ''states or after_state_version is required'')
      else if (case states of None \<Rightarrow> False | Some xs \<Rightarrow> xs = [] \<or> list_ex (\<lambda>x. x \<notin> set valid_service_states) xs)
      then Inl (ValueError ''states must be a non-empty list of known service states'')
      else if (case after of None \<Rightarrow> False | Some n \<Rightarrow> n < 0)
      then Inl (ValueError ''after_state_version must be a non-negative integer'')
      else if \<not> (0 \<le> timeout \<and> timeout \<le> 30) then Inl (ValueError ''timeout_seconds must be a finite number within 0..30 seconds'')
      else Inr ())"

text \<open>The loop over successive observations, each with the clock reading after it: \<open>Some (matched, observation)\<close> when
  it returns, \<open>None\<close> while it still waits when they are used up.\<close>

fun wait_for_status :: "string list option \<Rightarrow> int option \<Rightarrow> time \<Rightarrow> wait_pass list \<Rightarrow> (bool \<times> wait_pass) option" where
  "wait_for_status states after deadline [] = None"
| "wait_for_status states after deadline (o1 # os) =
     (if wait_matches states after o1 then Some (True, o1)
      else if deadline - w_now o1 \<le> 0 then Some (False, o1)
      else wait_for_status states after deadline os)"

lemma wait_decides:
  assumes "o1 \<in> set os" "wait_matches states after o1 \<or> deadline \<le> w_now o1"
  shows "\<exists>ob. ob \<in> set os \<and> wait_for_status states after deadline os = Some (wait_matches states after ob, ob) \<and>
    (wait_matches states after ob \<or> deadline \<le> w_now ob)"
  using assms by (induction os) auto

section \<open>A concrete codec\<close>

text \<open>An encoding that satisfies the law: the number of bytes is the number of the cursor.\<close>

definition demo_codec :: json_codec where
  "demo_codec = \<lparr>json_dumps = (\<lambda>x. case x of JObject [_, _, (_, JInt n)] \<Rightarrow> replicate (nat n) 1 | _ \<Rightarrow> []),
     json_loads = (\<lambda>bs. Some (cursor_payload ''e1'' (int (length bs))))\<rparr>"

lemma demo_json_law: "json_law demo_codec ''e1''"
  by (simp add: json_law_def demo_codec_def cursor_payload_def)

definition demo_events :: "event_data list" where
  "demo_events = [(''start'', None, None, None, Some ''r1''), (''health'', None, None, None, None), (''stop'', None, None, None, Some ''r1'')]"

definition demo_page :: event_page where
  "demo_page = \<lparr>page_events = take 1 (filter (event_matches (Some ''r1'')) (event_history demo_events)), page_epoch = ''e1'',
     page_next = ''fnev1.AQ'', page_next_seq = 1, page_has_more = True, page_gap = False, page_reset = False, page_oldest = Some 1,
     page_latest = 3\<rparr>"

section \<open>Properties\<close>

text \<open>Polling delivers every event exactly once: a client that goes on from cursor to cursor while events are being
  recorded, with any page size and any filter, has received, as long as no page reports a gap, the matching events of
  the whole history from its first cursor to its last one, in order; and after a page that announces nothing
  further, all of them.\<close>

theorem polling_exactly_once:
  assumes "json_law js epoch" "polls js epoch limit run_id s0 got s ds"
  shows "got = filter (\<lambda>e. s0 < ev_seq e \<and> ev_seq e \<le> s \<and> event_matches run_id e) (event_history ds) \<and>
    (\<forall>token new p. encode_cursor js epoch s = Inr token \<and>
       events_page js (log_window (run_log epoch (ds @ new))) limit (Some token) run_id = Inr p \<and> \<not> page_gap p \<and> \<not> page_has_more p \<longrightarrow>
       got @ page_events p = filter (\<lambda>e. s0 < ev_seq e \<and> event_matches run_id e) (event_history (ds @ new)))"
proof (intro conjI allI impI)
  show "got = filter (\<lambda>e. s0 < ev_seq e \<and> ev_seq e \<le> s \<and> event_matches run_id e) (event_history ds)"
    using polls_delivered [OF assms] by simp
  fix token new p
  assume p: "encode_cursor js epoch s = Inr token \<and> events_page js (log_window (run_log epoch (ds @ new))) limit (Some token) run_id = Inr p \<and>
    \<not> page_gap p \<and> \<not> page_has_more p"
  then have "polls js epoch limit run_id s0 (got @ page_events p) (page_next_seq p) (ds @ new)" using polls_page assms(2) by blast
  from polls_delivered [OF assms(1) this] have g: "got @ page_events p =
      filter (\<lambda>e. s0 < ev_seq e \<and> ev_seq e \<le> page_next_seq p \<and> event_matches run_id e) (event_history (ds @ new))" by simp
  have "page_next_seq p = int (length (ds @ new))"
    using page_after_cursor(4) [of js epoch "ds @ new" limit token run_id p s] cursor_token [OF assms(1)] p by blast
  then show "got @ page_events p = filter (\<lambda>e. s0 < ev_seq e \<and> event_matches run_id e) (event_history (ds @ new))"
    unfolding g using history_seqs [of _ "ds @ new"] by (intro filter_cong) auto
qed

theorem polling_exactly_once_witness:
  "page_events demo_page = filter (\<lambda>e. 0 < ev_seq e \<and> ev_seq e \<le> 1 \<and> event_matches (Some ''r1'') e) (event_history demo_events) \<and>
   map ev_kind (page_events demo_page) = [''start'']"
proof -
  have t: "encode_cursor demo_codec ''e1'' 0 = Inr ''fnev1.''"
    by (simp add: encode_cursor_def CURSOR_PREFIX_def demo_codec_def cursor_payload_def)
  have n: "encode_cursor demo_codec ''e1'' 1 = Inr ''fnev1.AQ''"
    by (simp add: encode_cursor_def CURSOR_PREFIX_def demo_codec_def cursor_payload_def sextet_char_def char_of_def bit_0)
  have w: "log_window (run_log ''e1'' ([] @ demo_events)) = (''e1'', event_history demo_events, Some 1, 3)"
    by (simp add: log_window_def Let_def run_log_entries) (simp add: demo_events_def event_history_def)
  have "events_page demo_codec (log_window (run_log ''e1'' ([] @ demo_events))) (Some 1) (Some ''fnev1.'') (Some ''r1'') = Inr demo_page"
    unfolding w using cursor_token [OF demo_json_law t]
    by (simp add: events_page_def demo_page_def demo_events_def event_history_def event_matches_def page_response_def n)
  moreover have "polls demo_codec ''e1'' (Some 1) (Some ''r1'') 0 [] 0 []" by (rule polls_start)
  moreover have "\<not> page_gap demo_page" by (simp add: demo_page_def)
  ultimately have "polls demo_codec ''e1'' (Some 1) (Some ''r1'') 0 ([] @ page_events demo_page) (page_next_seq demo_page) ([] @ demo_events)"
    using t by (intro polls_page)
  then have "polls demo_codec ''e1'' (Some 1) (Some ''r1'') 0 (page_events demo_page) 1 demo_events"
    by (simp add: demo_page_def)
  from polling_exactly_once [OF demo_json_law this] show ?thesis
    by (simp add: demo_events_def event_history_def event_matches_def)
qed

text \<open>A cursor means what it meant: the token that encodes an epoch and a number decodes to them, whatever they
  are, given that \<open>json\<close> reads back what it wrote.\<close>

theorem cursor_survives:
  assumes "json_law js epoch" "epoch \<noteq> []" "0 \<le> seq"
  shows "\<exists>token. encode_cursor js epoch seq = Inr token \<and> decode_cursor js token = Inr (epoch, seq)"
  using cursor_round_trip [of js epoch seq] assms by (simp add: json_law_def)

theorem cursor_survives_witness: "\<exists>token. encode_cursor demo_codec ''e1'' 42 = Inr token \<and> decode_cursor demo_codec token = Inr (''e1'', 42)"
  using cursor_survives [OF demo_json_law] by simp

end
