(* ===== verification/McpWatch.thy ===== *)
theory McpWatch
  imports McpRuns McpQueries
begin

text \<open>
  The coordinator and the event queries together: a client that follows the coordinator's log
  (\<open>fakenet/mcp/coordination.py\<close>) page by page (\<open>get_events\<close> of \<open>fakenet/mcp/queries.py\<close>) while commands are accepted,
  fail and end. The steps of the combined run are those of the coordinator and the client's pages, in any order;
  the lemmas show that the log is the account of the commands, so that a client that has caught up knows
  which of them are under way.
\<close>

section \<open>What a step of the coordinator records\<close>

text \<open>The events of the given kinds about a command.\<close>

definition mentions :: "string list \<Rightarrow> string \<Rightarrow> mcp_event list \<Rightarrow> nat" where
  "mentions kinds cid es = length (filter (\<lambda>e. ev_kind e \<in> set kinds \<and> ev_command e = Some cid) es)"

definition data_mentions :: "string list \<Rightarrow> string \<Rightarrow> event_data list \<Rightarrow> nat" where
  "data_mentions kinds cid ds = length (filter (\<lambda>d. fst d \<in> set kinds \<and> fst (snd d) = Some cid) ds)"

abbreviation begun :: "string list" where "begun \<equiv> [''command.accepted'']"
abbreviation ended :: "string list" where "ended \<equiv> [''command.completed'', ''command.failed'']"

lemma mentions_history: "mentions kinds cid (event_history ds) = data_mentions kinds cid ds"
proof -
  have "mentions kinds cid (number_events n ds) = data_mentions kinds cid ds" for n
    by (induction n ds rule: number_events.induct) (auto simp: mentions_def data_mentions_def)
  then show ?thesis by (simp add: event_history_def)
qed

lemma data_mentions_simps [simp]:
  "data_mentions kinds cid [] = 0" "data_mentions kinds cid (xs @ ys) = data_mentions kinds cid xs + data_mentions kinds cid ys"
  "data_mentions kinds cid [(kind, command, rest)] = (if kind \<in> set kinds \<and> command = Some cid then 1 else 0)"
  by (simp_all add: data_mentions_def)

text \<open>Every step extends the log by the events it stands for: the beginning or the end of a command changes the
  commands under way by it, and nothing else is recorded about commands.\<close>

definition accounts :: "coord_run \<Rightarrow> coord_run \<Rightarrow> event_data list \<Rightarrow> bool" where
  "accounts r r' new \<longleftrightarrow> co_events (fst r') = fold record_event new (co_events (fst r)) \<and>
     (\<forall>k. data_mentions begun k new + (if k \<in> rq_command_id ` set (snd r) then 1 else 0) =
          data_mentions ended k new + (if k \<in> rq_command_id ` set (snd r') then 1 else 0))"

lemma accounts_silent: "co_events c' = co_events c \<Longrightarrow> accounts (c, fl) (c', fl) []"
  by (simp add: accounts_def)

lemma accounts_other:
  "co_events c' = log_record kind None st reason None (co_events c) \<Longrightarrow> accounts (c, fl) (c', fl) [(kind, None, st, reason, None)]"
  by (simp add: accounts_def record_event_def)

lemma accounts_accept:
  assumes "submit_begin rq c = (Inr None, c')" "coord_inv (c, fl)"
  shows "accounts (c, fl) (c', rq # fl) [(''command.accepted'', Some (rq_command_id rq), None, None, None)]"
proof -
  have adm: "admissible rq c" and c': "c' = snd (submit_begin rq c)" using assms(1) accept_iff [of rq c] by simp_all
  then have "co_events c' = log_record ''command.accepted'' (Some (rq_command_id rq)) None None None (co_events c)"
    by (simp add: submit_begin_def admissible_def Let_def)
  moreover have "rq_command_id rq \<notin> rq_command_id ` set fl"
    using adm assms(2) by (force simp: admissible_def coord_inv_def ops_ok_def)
  ultimately show ?thesis by (auto simp: accounts_def record_event_def)
qed

lemma accounts_end:
  assumes "co_events c' = log_record kind (Some (rq_command_id rq)) st reason None (co_events c)" "kind \<in> set ended"
    "rq \<in> set fl" "coord_inv (c, fl)"
  shows "accounts (c, fl) (c', remove1 rq fl) [(kind, Some (rq_command_id rq), st, reason, None)]"
proof -
  have d: "distinct (map rq_command_id fl)" using assms(4) by (simp add: coord_inv_def ops_ok_def)
  then have "rq_command_id ` set (remove1 rq fl) = rq_command_id ` set fl - {rq_command_id rq}"
    using assms(3) by (auto simp: distinct_map set_remove1_eq inj_on_def)
  then show ?thesis using assms(1,2,3) by (auto simp: accounts_def record_event_def)
qed

lemma failed_events:
  "submit_failed rq e c = Some c' \<Longrightarrow>
    co_events c' = log_record ''command.failed'' (Some (rq_command_id rq)) None (Some (exn_text e)) None (co_events c)"
  by (auto simp: submit_failed_def Let_def split: option.splits)

lemma apply_events: "co_events (apply_result rq r c) = log_record ''command.completed'' (Some (rq_command_id rq))
    (Some (case res_state r of None \<Rightarrow> co_state c | Some s \<Rightarrow> s)) None None (co_events c)"
  by (simp add: apply_result_def Let_def)

lemma finish_events:
  assumes "submit_finish rq res c = (resp, c')"
  shows "\<exists>st. co_events c' = log_record ''command.completed'' (Some (rq_command_id rq)) st None None (co_events c)"
proof -
  let ?k = "rq_command_id rq"
  define c1 where "c1 = finish_operation ?k (c\<lparr>co_exit_fenced := removeAll ?k (co_exit_fenced c)\<rparr>)"
  define r where "r = (if ?k \<in> set (co_exit_fenced c) then fence_result (co_exit_failure c1) res else res)"
  have "c' = finish_operation ?k ((apply_result rq r c1)\<lparr>co_commands := dset ?k (command_entry rq resp) (co_commands (apply_result rq r c1))\<rparr>)"
    using assms unfolding submit_finish_def Let_def c1_def [symmetric] r_def [symmetric] by auto
  then show ?thesis by (simp add: apply_events c1_def) blast
qed

lemma outside_events:
  "co_events (record_terminal_failure reason c) = log_record ''terminal_failure'' None None (Some reason) None (co_events c)"
  "co_events (begin_draining c) = log_record ''draining.begin'' None None None None (co_events c)"
  "co_events (restore_responsibility marker st reason2 outcome c) = log_record ''recovery'' None (Some st) reason2 None (co_events c)"
  "co_events (fail_controlled_exit reason c) = log_record ''draining.failed'' None None (Some reason) None (co_events c)"
  "\<exists>st' reason'. co_events (update_health_state st reason2 c) = log_record ''health'' None st' reason' None (co_events c)"
  "co_events (set_config_identity identity c) = co_events c" "co_events (recover_when_idle c) = co_events c"
  "co_events (recovery_done c) = co_events c"
  by (auto simp: outside_defs recover_when_idle_def recovery_done_def Let_def split: option.split prod.split)

lemma coord_step_accounts:
  assumes "coord_step r r'" "coord_inv r"
  shows "\<exists>new. accounts r r' new"
  using assms
proof (induction rule: coord_step.induct)
  case (step_accept rq c c' fl)
  then show ?case using accounts_accept by blast
next
  case (step_answer rq c resp c' fl)
  then show ?case using begin_unchanged accounts_silent by blast
next
  case (step_refuse rq c e c' fl)
  then show ?case using begin_unchanged accounts_silent by blast
next
  case (step_failed rq fl e c c')
  then show ?case using accounts_end [OF failed_events] by fastforce
next
  case (step_finish rq fl res c resp c')
  then obtain st where "co_events c' = log_record ''command.completed'' (Some (rq_command_id rq)) st None None (co_events c)"
    using finish_events by blast
  from accounts_end [OF this _ step_finish(1,3)] show ?case by auto
next
  case (step_health c fl st reason2)
  then show ?case using outside_events(5) accounts_other by blast
next
  case (step_terminal c fl reason)
  then show ?case using outside_events(1) accounts_other by blast
next
  case (step_drain c fl)
  then show ?case using outside_events(2) accounts_other by blast
next
  case (step_restore c fl marker st reason2 outcome)
  then show ?case using outside_events(3) accounts_other by blast
next
  case (step_exit_failed c fl reason)
  then show ?case using outside_events(4) accounts_other by blast
next
  case (step_identity c fl identity)
  then show ?case using outside_events(6) accounts_silent by blast
next
  case (step_recover c fl)
  then show ?case using outside_events(7) accounts_silent by blast
next
  case (step_recovered c fl)
  then show ?case using outside_events(8) accounts_silent by blast
qed

section \<open>The combined run\<close>

type_synonym watch_run = "coord_run \<times> mcp_event list \<times> int"

inductive watch_step :: "json_codec \<Rightarrow> string \<Rightarrow> int option \<Rightarrow> watch_run \<Rightarrow> watch_run \<Rightarrow> bool" for js epoch limit where
  watch_service: "coord_step r r' \<Longrightarrow> watch_step js epoch limit (r, got, s) (r', got, s)"
| watch_page: "encode_cursor js epoch s = Inr token \<Longrightarrow>
    events_page js (log_window (co_events (fst r))) limit (Some token) None = Inr p \<Longrightarrow> \<not> page_gap p \<Longrightarrow>
    watch_step js epoch limit (r, got, s) (r, got @ page_events p, page_next_seq p)"

definition watch_init :: "string \<Rightarrow> watch_run \<Rightarrow> bool" where
  "watch_init epoch = (\<lambda>(r, got, s). r = (new_coordinator epoch, []) \<and> got = [] \<and> s = 0)"

text \<open>The log is that of some history; the client has its events up to its cursor, and the history accounts for
  the commands under way.\<close>

definition history_of :: "string \<Rightarrow> coord_run \<Rightarrow> event_data list \<Rightarrow> bool" where
  "history_of epoch r ds \<longleftrightarrow> co_events (fst r) = run_log epoch ds \<and>
     (\<forall>k. data_mentions begun k ds = data_mentions ended k ds + (if k \<in> rq_command_id ` set (snd r) then 1 else 0))"

definition watch_inv :: "json_codec \<Rightarrow> string \<Rightarrow> watch_run \<Rightarrow> bool" where
  "watch_inv js epoch = (\<lambda>(r, got, s). json_law js epoch \<longrightarrow> coord_inv r \<and> (\<exists>ds. history_of epoch r ds \<and>
     got = filter (\<lambda>e. 0 < ev_seq e \<and> ev_seq e \<le> s) (event_history ds) \<and> 0 \<le> s \<and> s \<le> int (length ds)))"

lemma history_step:
  assumes "history_of epoch r ds" "accounts r r' new"
  shows "history_of epoch r' (ds @ new)"
proof -
  let ?n = "\<lambda>r k. if k \<in> rq_command_id ` set (snd r) then 1 else (0 :: nat)"
  have "data_mentions begun k (ds @ new) = data_mentions ended k (ds @ new) + ?n r' k" for k
  proof -
    have "data_mentions begun k ds = data_mentions ended k ds + ?n r k" using assms(1) unfolding history_of_def by blast
    moreover have "data_mentions begun k new + ?n r k = data_mentions ended k new + ?n r' k" using assms(2) unfolding accounts_def by blast
    ultimately show ?thesis unfolding data_mentions_simps(2) by linarith
  qed
  then show ?thesis using assms by (simp add: history_of_def accounts_def run_log_def)
qed

lemma history_init: "history_of epoch (new_coordinator epoch, []) []"
  by (simp add: history_of_def new_coordinator_def run_log_def)

lemma received_longer:
  assumes "s \<le> int (length ds)"
  shows "filter (\<lambda>e. 0 < ev_seq e \<and> ev_seq e \<le> s) (event_history (ds @ new)) = filter (\<lambda>e. 0 < ev_seq e \<and> ev_seq e \<le> s) (event_history ds)"
proof -
  obtain ys where "event_history (ds @ new) = event_history ds @ ys" "\<forall>e \<in> set ys. ev_seq e > int (length ds)"
    using history_append by blast
  then show ?thesis using assms by (auto intro!: filter_False)
qed

lemma watch_init_inv: "watch_init epoch w \<Longrightarrow> watch_inv js epoch w"
proof -
  assume "watch_init epoch w"
  then have w: "w = ((new_coordinator epoch, []), [], 0)" by (cases w) (simp add: watch_init_def)
  have "coord_inv (new_coordinator epoch, [])" by (rule coord_init_inv) (auto simp: coord_init_def)
  moreover have "event_history [] = []" by (simp add: event_history_def)
  ultimately show ?thesis using history_init [of epoch] by (force simp: watch_inv_def w)
qed

lemma watch_step_inv: "watch_step js epoch limit w w' \<Longrightarrow> watch_inv js epoch w \<Longrightarrow> watch_inv js epoch w'"
proof (induction rule: watch_step.induct)
  case (watch_service r r' got s)
  show ?case unfolding watch_inv_def prod.case
  proof
    assume "json_law js epoch"
    then obtain ds where inv: "coord_inv r" and ds: "history_of epoch r ds" "0 \<le> s" "s \<le> int (length ds)"
      "got = filter (\<lambda>e. 0 < ev_seq e \<and> ev_seq e \<le> s) (event_history ds)" using watch_service(2) by (auto simp: watch_inv_def)
    obtain new where "accounts r r' new" using coord_step_accounts [OF watch_service(1) inv] by blast
    with ds received_longer [OF ds(3), of new] history_step
    show "coord_inv r' \<and> (\<exists>ds. history_of epoch r' ds \<and> got = filter (\<lambda>e. 0 < ev_seq e \<and> ev_seq e \<le> s) (event_history ds) \<and>
        0 \<le> s \<and> s \<le> int (length ds))"
      using coord_step_inv [OF watch_service(1) inv] by (intro conjI exI [of _ "ds @ new"]) auto
  qed
next
  case (watch_page s token r p got)
  show ?case unfolding watch_inv_def prod.case
  proof
    assume law: "json_law js epoch"
    then obtain ds where inv: "coord_inv r" and ds: "history_of epoch r ds" "0 \<le> s" "s \<le> int (length ds)"
      "got = filter (\<lambda>e. 0 < ev_seq e \<and> ev_seq e \<le> s) (event_history ds)" using watch_page(4) by (auto simp: watch_inv_def)
    have "events_page js (log_window (run_log epoch ds)) limit (Some token) None = Inr p"
      using watch_page(2) ds(1) by (simp add: history_of_def)
    note pg = page_after_cursor [OF this cursor_token [OF law watch_page(1)] watch_page(3)]
    have "got @ page_events p = filter (\<lambda>e. 0 < ev_seq e \<and> ev_seq e \<le> page_next_seq p) (event_history ds)"
      using delivered_append [of s 0 ds "page_next_seq p" "event_matches None" "[]"] ds(2-4) pg(1,2) by (simp add: event_matches_def)
    then show "coord_inv r \<and> (\<exists>ds. history_of epoch r ds \<and>
        got @ page_events p = filter (\<lambda>e. 0 < ev_seq e \<and> ev_seq e \<le> page_next_seq p) (event_history ds) \<and>
        0 \<le> page_next_seq p \<and> page_next_seq p \<le> int (length ds))"
      using inv ds(1,2) pg(2,3) by auto
  qed
qed

interpretation watch: invariant_machine "watch_init epoch" "watch_step js epoch limit" "watch_inv js epoch"
  for js epoch limit
  by unfold_locales (blast intro: watch_init_inv watch_step_inv)+

section \<open>The next page\<close>

text \<open>A cursor within the history is answered, and a gap is reported exactly when events beyond it have left the
  window.\<close>

lemma page_answered:
  assumes law: "json_law js epoch" and "epoch \<noteq> []" "0 \<le> s" "s \<le> int (length ds)"
  obtains token p where "encode_cursor js epoch s = Inr token" "decode_cursor js token = Inr (epoch, s)"
    "events_page js (log_window (run_log epoch ds)) limit (Some token) run_id = Inr p"
    "page_gap p \<longleftrightarrow> s + 500 < int (length ds)"
proof -
  obtain token where tok: "encode_cursor js epoch s = Inr token" using assms(2,3) by (simp add: encode_cursor_def)
  note dec = cursor_token [OF law tok]
  obtain ep entries oldest latest where w: "log_window (run_log epoch ds) = (ep, entries, oldest, latest)" by (metis prod_cases4)
  note wl = window_of_log [OF w]
  define n where "n = (case limit of None \<Rightarrow> 100 | Some n \<Rightarrow> if n < 1 then 100 else nat n)"
  define later where "later = filter (\<lambda>e. ev_seq e > s \<and> event_matches run_id e) entries"
  define next_seq where "next_seq = (if n < length later then ev_seq (last (take n later)) else latest)"
  have n: "0 < n" by (auto simp: n_def split: option.split)
  have "0 \<le> next_seq"
  proof (cases "n < length later")
    case True
    then have "last (take n later) \<in> set later" using n by (intro in_set_takeD [OF last_in_set]) auto
    then show ?thesis using True assms(3) by (simp add: next_seq_def later_def)
  qed (simp add: next_seq_def wl(2))
  then obtain token' where t: "encode_cursor js epoch next_seq = Inr token'" using assms(2) by (simp add: encode_cursor_def)
  let ?gap = "case oldest of None \<Rightarrow> False | Some m \<Rightarrow> s < m - 1"
  let ?p = "\<lparr>page_events = take n later, page_epoch = epoch, page_next = token', page_next_seq = next_seq,
    page_has_more = (n < length later), page_gap = ?gap, page_reset = False, page_oldest = oldest, page_latest = latest\<rparr>"
  have "events_page js (log_window (run_log epoch ds)) limit (Some token) run_id = Inr ?p"
    using t assms(4) wl(1,2) by (cases "n < length later")
      (simp_all add: events_page_def w Let_def n_def [symmetric] dec later_def [symmetric] next_seq_def page_response_def)
  moreover have "?gap \<longleftrightarrow> s + 500 < int (length ds)" using assms(3) by (auto simp: wl(4))
  ultimately show thesis using that [OF tok dec] by simp
qed

section \<open>A client and one command\<close>

definition demo_coordinator :: coordinator where
  "demo_coordinator = snd (submit_begin demo_request (new_coordinator ''e1''))"

lemma demo_coordinator_events: "co_events demo_coordinator = \<lparr>log_limit = 500, log_epoch = ''e1'', log_seq = 1,
    log_entries = [\<lparr>ev_seq = 1, ev_kind = ''command.accepted'', ev_command = Some ''cmd-1'', ev_state = None, ev_reason = None, ev_run_id = None\<rparr>]\<rparr>"
  by (simp add: demo_coordinator_def coord_eval)

lemma demo_watch: "(watch_step demo_codec ''e1'' None)\<^sup>*\<^sup>* ((new_coordinator ''e1'', []), [], 0) ((demo_coordinator, [demo_request]), [], 0)"
proof -
  have "submit_begin demo_request (new_coordinator ''e1'') = (Inr None, demo_coordinator)"
    unfolding demo_coordinator_def by (simp add: coord_eval)
  then show ?thesis by (intro r_into_rtranclp watch_service step_accept)
qed

lemma demo_first_page: "\<exists>p. events_page demo_codec (log_window (co_events demo_coordinator)) None (Some ''fnev1.'') None = Inr p \<and>
  \<not> page_gap p \<and> \<not> page_has_more p"
proof -
  have "encode_cursor demo_codec ''e1'' 0 = Inr ''fnev1.''"
    by (simp add: encode_cursor_def CURSOR_PREFIX_def demo_codec_def cursor_payload_def)
  note dec = cursor_token [OF demo_json_law this]
  show ?thesis by (simp add: events_page_def log_window_def demo_coordinator_events Let_def dec event_matches_def
      page_response_def encode_cursor_def)
qed

section \<open>Properties\<close>

text \<open>C22. A client that follows the log knows which commands are under way. While the coordinator accepts, fails and
  ends commands and a client asks for page after page without meeting a gap, in any order, the client's next
  page is always answered, reports a gap exactly when more than 500 events lie beyond its cursor, and, when
  it reports neither a gap nor more, completes the account: the client then has every event of the log's
  lifetime once and in order, and a command is under way exactly when its acceptances outnumber its ends, by one.\<close>

theorem commands_observed:
  assumes law: "json_law js epoch" and epoch: "epoch \<noteq> []"
    and run: "(watch_step js epoch limit)\<^sup>*\<^sup>* ((new_coordinator epoch, []), [], 0) ((c, fl), got, s)"
  shows "\<exists>token p. encode_cursor js epoch s = Inr token \<and>
    events_page js (log_window (co_events c)) limit (Some token) None = Inr p \<and>
    (page_gap p \<longleftrightarrow> s + 500 < log_seq (co_events c)) \<and>
    (\<not> page_gap p \<and> \<not> page_has_more p \<longrightarrow> (let seen = got @ page_events p in
       map ev_seq seen = [1..log_seq (co_events c)] \<and>
       (\<forall>k. mentions begun k seen = mentions ended k seen + (if k \<in> rq_command_id ` set fl then 1 else 0))))"
proof -
  have "watch_init epoch ((new_coordinator epoch, []), [], 0)" by (simp add: watch_init_def)
  from watch.reachable_inv [OF this run] law obtain ds where ds: "history_of epoch (c, fl) ds" "0 \<le> s" "s \<le> int (length ds)"
    "got = filter (\<lambda>e. 0 < ev_seq e \<and> ev_seq e \<le> s) (event_history ds)" by (auto simp: watch_inv_def)
  have c: "co_events c = run_log epoch ds" using ds(1) by (simp add: history_of_def)
  then have len: "log_seq (co_events c) = int (length ds)" by (simp add: run_log_entries)
  obtain token p where tok: "encode_cursor js epoch s = Inr token" "decode_cursor js token = Inr (epoch, s)"
    and p: "events_page js (log_window (run_log epoch ds)) limit (Some token) None = Inr p" "page_gap p \<longleftrightarrow> s + 500 < int (length ds)"
    using page_answered [OF law epoch ds(2,3)] by blast
  have "got @ page_events p = event_history ds" if caught_up: "\<not> page_gap p" "\<not> page_has_more p"
  proof -
    note pg = page_after_cursor [OF p(1) tok(2) caught_up(1)]
    have "got @ page_events p = filter (\<lambda>e. 0 < ev_seq e \<and> ev_seq e \<le> int (length ds)) (event_history ds)"
      using delivered_append [of s 0 ds "page_next_seq p" "event_matches None" "[]"] ds(2-4) pg(1,2) pg(4) [OF caught_up(2)]
      by (simp add: event_matches_def)
    then show ?thesis using history_seqs [of _ ds] by (auto intro: filter_True)
  qed
  moreover have "map ev_seq (event_history ds) = [1..int (length ds)]" by (simp add: event_history_def number_events_seqs)
  moreover have "\<forall>k. mentions begun k (event_history ds) = mentions ended k (event_history ds) + (if k \<in> rq_command_id ` set fl then 1 else 0)"
    using ds(1) by (simp add: history_of_def mentions_history)
  ultimately show ?thesis using tok(1) p unfolding c [symmetric] len Let_def by metis
qed

theorem commands_observed_witness:
  "\<exists>p. events_page demo_codec (log_window (co_events demo_coordinator)) None (Some ''fnev1.'') None = Inr p \<and>
    map ev_seq (page_events p) = [1] \<and>
    mentions begun ''cmd-1'' (page_events p) = mentions ended ''cmd-1'' (page_events p) + 1 \<and>
    mentions begun ''cmd-2'' (page_events p) = mentions ended ''cmd-2'' (page_events p)"
proof -
  have tok: "encode_cursor demo_codec ''e1'' 0 = Inr ''fnev1.''"
    by (simp add: encode_cursor_def CURSOR_PREFIX_def demo_codec_def cursor_payload_def)
  have one: "log_seq (co_events demo_coordinator) = 1" by (simp add: demo_coordinator_events)
  show ?thesis
    using commands_observed [OF demo_json_law _ demo_watch] demo_first_page
    by (auto simp: tok one Let_def demo_request_def)
qed

end
