(* ===== verification/McpConfigStore.thy ===== *)
theory McpConfigStore
  imports McpCoordinator PyText StateExn
begin

text \<open>
  The store of configurations behind the remote control (\<open>fakenet/mcp/configstore.py\<close>): names, built-in and
  custom files, the audit trail and the audited commit of every change. Files are entries of two directories; on
  Windows two names that differ in case are one entry, so entries are kept under the folded name. What the file
  system refuses during one operation is the record \<open>store_io\<close>: a line of the audit trail is appended as a whole
  or not at all, and reading a file that exists succeeds. Contents are ASCII texts, SHA-256 is a parameter. A
  name with a colon, which Windows reads as a drive or a stream, is outside the model. \<open>list\<close> and
  \<open>validate_content\<close>, which change nothing, are not modelled.
\<close>

section \<open>State\<close>

text \<open>A file with its number of links, a symbolic link, or anything else (a directory).\<close>

datatype dirent = RegularFile string nat | Symlink | OtherEntry

text \<open>A line of the audit trail, without its time stamp.\<close>

record audit_entry =
  au_controller :: "string option"
  au_command_id :: "string option"
  au_target :: string
  au_operation :: string
  au_before :: "string option"
  au_after :: "string option"
  au_result :: string

text \<open>\<open>cs_custom\<close> and \<open>cs_builtin\<close> are the two directories, \<open>cs_staged\<close> the temporary file of a commit.\<close>

record config_store =
  cs_windows :: bool
  cs_custom :: "(string, dirent) dict"
  cs_builtin :: "(string, string) dict"
  cs_audit :: "audit_entry list"
  cs_active :: "string option"
  cs_staged :: "string option"

text \<open>How writing the temporary file ends: a write that fails leaves what was written before.\<close>

datatype stage_io = Staged | OpenFails | WriteFails nat

text \<open>Whether the audit log can be written (at its first and its second line in one operation), the temporary
  file removed, the file replaced or removed.\<close>

record store_io =
  io_audit :: bool
  io_audit2 :: bool
  io_stage :: stage_io
  io_unstage :: bool
  io_replace :: bool
  io_unlink :: bool

text \<open>Who asks: the controller and the command.\<close>

record origin =
  by_controller :: "string option"
  by_command :: "string option"

type_synonym 'a store_act = "(mcp_exn, config_store, 'a) action"

text \<open>The reply to a change: name, digest, whether anything changed.\<close>

type_synonym store_reply = "string \<times> string option \<times> bool"

abbreviation craise :: "string \<Rightarrow> string \<Rightarrow> 'a store_act" where
  "craise err message \<equiv> sraise (McpError err message)"

definition new_store :: "bool \<Rightarrow> (string, dirent) dict \<Rightarrow> (string, string) dict \<Rightarrow> audit_entry list \<Rightarrow> config_store" where
  "new_store windows custom builtin trail = \<lparr>cs_windows = windows, cs_custom = custom, cs_builtin = builtin,
     cs_audit = trail, cs_active = None, cs_staged = None\<rparr>"

section \<open>Names and paths\<close>

definition name_char :: "char \<Rightarrow> bool" where
  "name_char c \<longleftrightarrow> is_lower c \<or> is_upper c \<or> is_digit c \<or> c = CHR ''.'' \<or> c = CHR ''_'' \<or> c = CHR ''-''"

definition ini_name :: "string \<Rightarrow> bool" where
  "ini_name name \<longleftrightarrow> ends_with name ''.ini'' \<and> length name > 4 \<and> list_all name_char name"

text \<open>\<open>re.match\<close> with a final \<open>$\<close>, which also matches before a final newline.\<close>

definition name_pattern :: "string \<Rightarrow> bool" where
  "name_pattern name \<longleftrightarrow> ini_name name \<or> (name \<noteq> [] \<and> last name = newline \<and> ini_name (butlast name))"

definition RESERVED_DEVICE_NAMES :: "string list" where
  "RESERVED_DEVICE_NAMES = [''CON'', ''PRN'', ''AUX'', ''NUL''] @
     map (\<lambda>c. ''COM'' @ [c]) ''123456789'' @ map (\<lambda>c. ''LPT'' @ [c]) ''123456789''"

definition reserved_name :: "string \<Rightarrow> bool" where
  "reserved_name name \<longleftrightarrow> upper (hd (split_on CHR ''.'' name)) \<in> set RESERVED_DEVICE_NAMES"

definition validate_name :: "string \<Rightarrow> unit store_act" where
  "validate_name name =
     (if \<not> name_pattern name then craise ''path_escape_blocked'' ''config name must match [A-Za-z0-9._-]+.ini''
      else if reserved_name name then craise ''path_escape_blocked'' ''config name uses a reserved device name''
      else sret ())"

text \<open>The separator of the platform is the slash or the backslash.\<close>

definition is_builtin_candidate :: "bool \<Rightarrow> string \<Rightarrow> bool" where
  "is_builtin_candidate windows name \<longleftrightarrow>
     (windows \<longrightarrow> char_of (92 :: nat) \<notin> set name) \<and> CHR ''/'' \<notin> set name \<and> \<not> contains name ''..''"

text \<open>The entry that a name denotes.\<close>

definition file_key :: "bool \<Rightarrow> string \<Rightarrow> string" where
  "file_key windows name = (if windows then lower name else name)"

definition custom_entry :: "config_store \<Rightarrow> string \<Rightarrow> dirent option" where
  "custom_entry s name = dget (cs_custom s) (file_key (cs_windows s) name)"

definition custom_file :: "config_store \<Rightarrow> string \<Rightarrow> string option" where
  "custom_file s name = (case custom_entry s name of Some (RegularFile content _) \<Rightarrow> Some content | _ \<Rightarrow> None)"

definition builtin_file :: "config_store \<Rightarrow> string \<Rightarrow> string option" where
  "builtin_file s name = (if is_builtin_candidate (cs_windows s) name
     then dget (cs_builtin s) (file_key (cs_windows s) name) else None)"

text \<open>A valid name has no separator, so its path leaves the directory only through a symbolic link.\<close>

definition custom_path :: "string \<Rightarrow> unit store_act" where
  "custom_path name = sbind (validate_name name) (\<lambda>_. sbind (sget (\<lambda>s. custom_entry s name)) (\<lambda>entry.
     if entry = Some Symlink then craise ''path_escape_blocked'' ''symlink rejected'' else sret ()))"

definition check_not_hardlink :: "string \<Rightarrow> unit store_act" where
  "check_not_hardlink name = sbind (sget (\<lambda>s. custom_entry s name)) (\<lambda>entry. case entry of
     Some (RegularFile _ links) \<Rightarrow> if links > 1 then craise ''path_escape_blocked'' ''hard link rejected'' else sret ()
   | _ \<Rightarrow> sret ())"

definition guard_writable :: "string \<Rightarrow> unit store_act" where
  "guard_writable name = sbind (sget cs_active) (\<lambda>active.
     if active = Some name then craise ''config_in_use'' ''config is active for the running FakeNet-NG'' else sret ())"

definition set_active :: "string option \<Rightarrow> unit store_act" where
  "set_active name = smod (\<lambda>s. s\<lparr>cs_active := name\<rparr>)"

section \<open>Audit and reading\<close>

definition audit :: "bool \<Rightarrow> origin \<Rightarrow> string \<Rightarrow> string \<Rightarrow> string option \<Rightarrow> string option \<Rightarrow> string \<Rightarrow> unit store_act" where
  "audit ok by target operation before after result =
     (if ok then smod (\<lambda>s. s\<lparr>cs_audit := cs_audit s @ [\<lparr>au_controller = by_controller by, au_command_id = by_command by,
        au_target = target, au_operation = operation, au_before = before, au_after = after, au_result = result\<rparr>]\<rparr>)
      else craise ''audit_write_failed'' ''config audit log unavailable; refusing commit'')"

definition MAX_CONFIG_BYTES :: nat where
  "MAX_CONFIG_BYTES = 1024 * 1024"

text \<open>A record of a configuration: whether it is built in, its digest, its content.\<close>

definition read_config :: "(string \<Rightarrow> string) \<Rightarrow> string \<Rightarrow> (bool \<times> string \<times> string) store_act" where
  "read_config sha name = sbind (sget (\<lambda>s. builtin_file s name)) (\<lambda>builtin. case builtin of
       Some raw \<Rightarrow> sret (True, sha raw, raw)
     | None \<Rightarrow> sbind (custom_path name) (\<lambda>_. sbind (sget (\<lambda>s. custom_file s name)) (\<lambda>file. case file of
           None \<Rightarrow> craise ''config_not_found'' ''config not found''
         | Some raw \<Rightarrow> sbind (check_not_hardlink name) (\<lambda>_.
             if length raw > MAX_CONFIG_BYTES then craise ''invalid_request'' ''config exceeds size limit''
             else sret (False, sha raw, raw)))))"

section \<open>Changes\<close>

definition refuse :: "store_io \<Rightarrow> origin \<Rightarrow> string \<Rightarrow> string \<Rightarrow> string option \<Rightarrow> string \<Rightarrow> string \<Rightarrow> 'a store_act" where
  "refuse io by name operation before err message =
     sbind (audit (io_audit io) by name operation before None err) (\<lambda>_. craise err message)"

text \<open>Removing the temporary file may fail silently.\<close>

definition unstage :: "store_io \<Rightarrow> unit store_act" where
  "unstage io = smod (\<lambda>s. if io_unstage io then s\<lparr>cs_staged := None\<rparr> else s)"

definition commit_failed :: "store_io \<Rightarrow> bool \<Rightarrow> origin \<Rightarrow> string \<Rightarrow> string \<Rightarrow> string option \<Rightarrow> string \<Rightarrow> 'a store_act" where
  "commit_failed io audit_ok by name operation before after = sbind (unstage io) (\<lambda>_.
     sbind (audit audit_ok by name operation before (Some after) ''commit_failed'') (\<lambda>_.
     craise ''internal_error'' ''commit failed''))"

text \<open>\<open>os.replace(tmp, target)\<close>: refused by the system, or because a directory has the name.\<close>

definition replace_file :: "store_io \<Rightarrow> string \<Rightarrow> dirent \<Rightarrow> config_store \<Rightarrow> config_store option" where
  "replace_file io name entry s = (if io_replace io \<and> custom_entry s name \<noteq> Some OtherEntry
     then Some (s\<lparr>cs_custom := dset (file_key (cs_windows s) name) entry (cs_custom s)\<rparr>) else None)"

definition stage_and_replace :: "store_io \<Rightarrow> origin \<Rightarrow> string \<Rightarrow> string \<Rightarrow> string option \<Rightarrow> string \<Rightarrow> string \<Rightarrow> unit store_act" where
  "stage_and_replace io by name operation before after raw = (case io_stage io of
       OpenFails \<Rightarrow> commit_failed io (io_audit io) by name operation before after
     | WriteFails n \<Rightarrow> sbind (smod (\<lambda>s. s\<lparr>cs_staged := Some (take n raw)\<rparr>)) (\<lambda>_.
         commit_failed io (io_audit io) by name operation before after)
     | Staged \<Rightarrow> sbind (smod (\<lambda>s. s\<lparr>cs_staged := Some raw\<rparr>)) (\<lambda>_.
         sbind (scatch (audit (io_audit io) by name operation before (Some after) ''ok'')
             (\<lambda>e. sbind (unstage io) (\<lambda>_. sraise e))) (\<lambda>_.
         sbind (sget (replace_file io name (RegularFile raw 1))) (\<lambda>replaced. case replaced of
             Some s' \<Rightarrow> smod (\<lambda>_. s'\<lparr>cs_staged := None\<rparr>)
           | None \<Rightarrow> commit_failed io (io_audit2 io) by name operation before after))))"

text \<open>\<open>_commit\<close>, after the checks of the path: what is refused, and the change itself.\<close>

definition commit_change :: "(string \<Rightarrow> string) \<Rightarrow> store_io \<Rightarrow> origin \<Rightarrow> string \<Rightarrow> string \<Rightarrow> string \<Rightarrow> string option \<Rightarrow> bool \<Rightarrow>
    string option \<Rightarrow> string option \<Rightarrow> store_reply store_act" where
  "commit_change sha io by operation name content expected allow_create current shadow =
     (let before = map_option sha current; after = sha content in
      if current = None \<and> \<not> allow_create then
        (if shadow \<noteq> None then refuse io by name operation before ''builtin_readonly'' ''builtin configs are read-only''
         else refuse io by name operation before ''config_not_found'' ''config not found'')
      else if current \<noteq> None \<and> allow_create then refuse io by name operation before ''name_conflict'' ''config already exists''
      else if current = None \<and> shadow \<noteq> None then
        refuse io by name operation before ''name_conflict'' ''name is reserved by a builtin config''
      else if current \<noteq> None \<and> expected \<noteq> None \<and> expected \<noteq> before then
        refuse io by name operation before ''version_conflict'' ''expected_sha256 does not match current content''
      else if current \<noteq> None \<and> before = Some after \<and> operation \<noteq> ''rename'' then
        sbind (audit (io_audit io) by name operation before (Some after) ''no_change'') (\<lambda>_. sret (name, Some after, False))
      else sbind (stage_and_replace io by name operation before after content) (\<lambda>_. sret (name, Some after, True)))"

definition commit_config :: "(string \<Rightarrow> string) \<Rightarrow> store_io \<Rightarrow> origin \<Rightarrow> string \<Rightarrow> string \<Rightarrow> string \<Rightarrow> string option \<Rightarrow> bool \<Rightarrow>
    store_reply store_act" where
  "commit_config sha io by operation name content expected allow_create =
     sbind (custom_path name) (\<lambda>_.
     sbind (sget (\<lambda>s. custom_file s name)) (\<lambda>current.
     sbind (if current \<noteq> None then sbind (check_not_hardlink name) (\<lambda>_. guard_writable name) else sret ()) (\<lambda>_.
     sbind (sget (\<lambda>s. builtin_file s name)) (\<lambda>shadow.
     commit_change sha io by operation name content expected allow_create current shadow))))"

definition create_config :: "(string \<Rightarrow> string) \<Rightarrow> store_io \<Rightarrow> origin \<Rightarrow> string \<Rightarrow> string \<Rightarrow> store_reply store_act" where
  "create_config sha io by name content = sbind (validate_name name) (\<lambda>_.
     commit_config sha io by ''create'' name content None True)"

definition edit_config :: "(string \<Rightarrow> string) \<Rightarrow> store_io \<Rightarrow> origin \<Rightarrow> string \<Rightarrow> string \<Rightarrow> string option \<Rightarrow> store_reply store_act" where
  "edit_config sha io by name content expected = commit_config sha io by ''edit'' name content expected False"

text \<open>\<open>path.unlink()\<close>, and the name that a move leaves.\<close>

definition remove_file :: "string \<Rightarrow> config_store \<Rightarrow> config_store" where
  "remove_file name s = s\<lparr>cs_custom := ddel (file_key (cs_windows s) name) (cs_custom s)\<rparr>"

text \<open>The end of \<open>rename\<close>: the line of the trail, the move, the name of the active configuration.\<close>

definition rename_commit :: "store_io \<Rightarrow> origin \<Rightarrow> string \<Rightarrow> string \<Rightarrow> string \<Rightarrow> store_reply store_act" where
  "rename_commit io by name new_name digest =
     sbind (audit (io_audit io) by name ''rename'' (Some digest) (Some digest) (''ok:'' @ new_name)) (\<lambda>_.
     sbind (sget (\<lambda>s. case custom_entry s name of None \<Rightarrow> None
         | Some entry \<Rightarrow> map_option (remove_file name) (replace_file io new_name entry s))) (\<lambda>replaced. case replaced of
         Some s' \<Rightarrow> sbind (smod (\<lambda>_. s')) (\<lambda>_.
           sbind (smod (\<lambda>s. if cs_active s = Some name then s\<lparr>cs_active := Some new_name\<rparr> else s)) (\<lambda>_.
           sret (new_name, Some digest, True)))
       | None \<Rightarrow> sbind (audit (io_audit2 io) by name ''rename'' (Some digest) (Some digest) ''commit_failed'') (\<lambda>_.
           craise ''internal_error'' ''rename failed'')))"

definition rename_config :: "(string \<Rightarrow> string) \<Rightarrow> store_io \<Rightarrow> origin \<Rightarrow> string \<Rightarrow> string \<Rightarrow> string option \<Rightarrow> store_reply store_act" where
  "rename_config sha io by name new_name expected =
     sbind (validate_name new_name) (\<lambda>_.
     sbind (custom_path name) (\<lambda>_.
     sbind (guard_writable name) (\<lambda>_.
     sbind (read_config sha name) (\<lambda>(builtin, digest, raw).
     if builtin then craise ''builtin_readonly'' ''builtin configs are read-only''
     else sbind (sget (\<lambda>s. builtin_file s new_name)) (\<lambda>shadow.
       if shadow \<noteq> None
       then refuse io by name ''rename'' (Some digest) ''name_conflict'' ''name is reserved by a builtin config''
       else sbind (custom_path new_name) (\<lambda>_.
         sbind (sget (\<lambda>s. custom_file s new_name)) (\<lambda>taken.
         if taken \<noteq> None then refuse io by name ''rename'' (Some digest) ''name_conflict'' ''target name already exists''
         else if expected \<noteq> None \<and> expected \<noteq> Some digest
         then refuse io by name ''rename'' (Some digest) ''version_conflict'' ''expected_sha256 does not match current content''
         else rename_commit io by name new_name digest)))))))"

definition delete_commit :: "store_io \<Rightarrow> origin \<Rightarrow> string \<Rightarrow> string \<Rightarrow> store_reply store_act" where
  "delete_commit io by name digest = sbind (audit (io_audit io) by name ''delete'' (Some digest) None ''ok'') (\<lambda>_.
     if io_unlink io then sbind (smod (remove_file name)) (\<lambda>_. sret (name, None, True))
     else craise ''internal_error'' ''delete failed'')"

definition delete_config :: "(string \<Rightarrow> string) \<Rightarrow> store_io \<Rightarrow> origin \<Rightarrow> string \<Rightarrow> string option \<Rightarrow> store_reply store_act" where
  "delete_config sha io by name expected =
     sbind (custom_path name) (\<lambda>_.
     sbind (read_config sha name) (\<lambda>(builtin, digest, raw).
     if builtin then craise ''builtin_readonly'' ''builtin configs are read-only''
     else sbind (guard_writable name) (\<lambda>_.
       if expected \<noteq> None \<and> expected \<noteq> Some digest
       then refuse io by name ''delete'' (Some digest) ''version_conflict'' ''expected_sha256 does not match current content''
       else delete_commit io by name digest)))"

text \<open>The calls of the store that change something, and sequences of them.\<close>

datatype store_op =
    Create string string
  | Edit string string "string option"
  | Rename string string "string option"
  | Delete string "string option"
  | SetActive "string option"

fun run_op :: "(string \<Rightarrow> string) \<Rightarrow> store_io \<Rightarrow> origin \<Rightarrow> store_op \<Rightarrow> store_reply store_act" where
  "run_op sha io by (Create name content) = create_config sha io by name content"
| "run_op sha io by (Edit name content expected) = edit_config sha io by name content expected"
| "run_op sha io by (Rename name new_name expected) = rename_config sha io by name new_name expected"
| "run_op sha io by (Delete name expected) = delete_config sha io by name expected"
| "run_op sha io by (SetActive name) = sbind (set_active name) (\<lambda>_. sret ([], None, False))"

fun run_ops :: "(string \<Rightarrow> string) \<Rightarrow> (store_io \<times> origin \<times> store_op) list \<Rightarrow> config_store \<Rightarrow> config_store" where
  "run_ops sha [] s = s"
| "run_ops sha ((io, by, op) # ops) s = run_ops sha ops (snd (run_op sha io by op s))"

section \<open>What one call does\<close>

definition valid_name :: "string \<Rightarrow> bool" where
  "valid_name name \<longleftrightarrow> name_pattern name \<and> \<not> reserved_name name"

definition put_file :: "string \<Rightarrow> dirent \<Rightarrow> config_store \<Rightarrow> config_store" where
  "put_file name entry s = s\<lparr>cs_custom := dset (file_key (cs_windows s) name) entry (cs_custom s)\<rparr>"

definition logged :: "origin \<Rightarrow> string \<Rightarrow> string \<Rightarrow> string option \<Rightarrow> string option \<Rightarrow> string \<Rightarrow> config_store \<Rightarrow> config_store" where
  "logged by target operation before after result s = s\<lparr>cs_audit := cs_audit s @ [\<lparr>au_controller = by_controller by,
     au_command_id = by_command by, au_target = target, au_operation = operation, au_before = before, au_after = after,
     au_result = result\<rparr>]\<rparr>"

text \<open>The changes a client can bring about, each with its line in the trail.\<close>

inductive store_change :: "(string \<Rightarrow> string) \<Rightarrow> origin \<Rightarrow> store_op \<Rightarrow> config_store \<Rightarrow> store_reply \<Rightarrow> config_store \<Rightarrow> bool"
  for sha :: "string \<Rightarrow> string" and who :: origin where
  created: "store_change sha who (Create name content) s (name, Some (sha content), True)
      ((logged who name ''create'' None (Some (sha content)) ''ok'' (put_file name (RegularFile content 1) s))\<lparr>cs_staged := None\<rparr>)"
    if "valid_name name" and "custom_entry s name = None" and "builtin_file s name = None"
| edited: "store_change sha who (Edit name content expected) s (name, Some (sha content), True)
      ((logged who name ''edit'' (Some (sha old)) (Some (sha content)) ''ok'' (put_file name (RegularFile content 1) s))\<lparr>cs_staged := None\<rparr>)"
    if "valid_name name" and "custom_entry s name = Some (RegularFile old links)" and "links \<le> 1"
      and "cs_active s \<noteq> Some name" and "expected = None \<or> expected = Some (sha old)" and "sha content \<noteq> sha old"
| renamed: "store_change sha who (Rename name new_name expected) s (new_name, Some (sha old), True)
      (logged who name ''rename'' (Some (sha old)) (Some (sha old)) (''ok:'' @ new_name)
        (remove_file name (put_file new_name (RegularFile old links) s)))"
    if "valid_name name" and "valid_name new_name" and "custom_entry s name = Some (RegularFile old links)" and "links \<le> 1"
      and "custom_entry s new_name = None" and "builtin_file s new_name = None" and "cs_active s \<noteq> Some name"
      and "expected = None \<or> expected = Some (sha old)"
| deleted: "store_change sha who (Delete name expected) s (name, None, True)
      (logged who name ''delete'' (Some (sha old)) None ''ok'' (remove_file name s))"
    if "valid_name name" and "custom_entry s name = Some (RegularFile old links)" and "links \<le> 1"
      and "cs_active s \<noteq> Some name" and "expected = None \<or> expected = Some (sha old)"
| activated: "store_change sha who (SetActive name) s ([], None, False) (s\<lparr>cs_active := name\<rparr>)"

inductive_cases store_changeE: "store_change sha by op s r s'"

definition accepted :: "audit_entry \<Rightarrow> bool" where
  "accepted l \<longleftrightarrow> au_result l = ''ok'' \<or> starts_with (au_result l) ''ok:''"

definition no_directories :: "config_store \<Rightarrow> bool" where
  "no_directories s \<longleftrightarrow> (\<forall>k. dget (cs_custom s) k \<noteq> Some OtherEntry)"

definition io_reliable :: "store_io \<Rightarrow> bool" where
  "io_reliable io \<longleftrightarrow> io_replace io \<and> io_unlink io"

text \<open>A call that changes nothing leaves lines in the trail at most, and no temporary file it could remove.\<close>

definition untouched :: "store_io \<Rightarrow> config_store \<Rightarrow> config_store \<Rightarrow> bool" where
  "untouched io s s' \<longleftrightarrow> (\<exists>ls staged. s' = s\<lparr>cs_audit := cs_audit s @ ls, cs_staged := staged\<rparr> \<and>
     (io_unstage io \<and> cs_staged s = None \<longrightarrow> staged = None) \<and>
     (io_reliable io \<and> no_directories s \<longrightarrow> list_all (\<lambda>l. \<not> accepted l) ls))"

lemma untouchedI:
  "s' = s\<lparr>cs_audit := cs_audit s @ ls, cs_staged := staged\<rparr> \<Longrightarrow> (io_unstage io \<Longrightarrow> cs_staged s = None \<Longrightarrow> staged = None) \<Longrightarrow>
    (io_reliable io \<Longrightarrow> no_directories s \<Longrightarrow> list_all (\<lambda>l. \<not> accepted l) ls) \<Longrightarrow> untouched io s s'"
  unfolding untouched_def by (intro exI [of _ ls] exI [of _ staged]) simp

lemma untouchedE:
  assumes "untouched io s s'"
  obtains ls staged where "s' = s\<lparr>cs_audit := cs_audit s @ ls, cs_staged := staged\<rparr>"
    and "io_unstage io \<Longrightarrow> cs_staged s = None \<Longrightarrow> staged = None"
    and "io_reliable io \<Longrightarrow> no_directories s \<Longrightarrow> list_all (\<lambda>l. \<not> accepted l) ls"
  using assms unfolding untouched_def by blast

lemma untouched_refl [simp]: "untouched io s s"
  by (rule untouchedI [where ls = "[]" and staged = "cs_staged s"]) simp_all

lemma no_directories_entry: "no_directories s \<Longrightarrow> custom_entry s name \<noteq> Some OtherEntry"
  by (simp add: no_directories_def custom_entry_def)

text \<open>Actions that only look: where they return, they report a fact about the state.\<close>

definition reads :: "config_store \<Rightarrow> 'a store_act \<Rightarrow> ('a \<Rightarrow> bool) \<Rightarrow> bool" where
  "reads s m A \<longleftrightarrow> triple (\<lambda>t. t = s) m (\<lambda>x t. t = s \<and> A x) (\<lambda>_ t. t = s)"

lemma reads_bind:
  assumes "reads s m A" and "\<And>x. A x \<Longrightarrow> reads s (f x) B"
  shows "reads s (sbind m f) B"
  using assms unfolding reads_def triple_def sbind_def by (fastforce split: prod.splits sum.splits)

lemma reads_then:
  assumes "reads s m A" and "\<And>x. A x \<Longrightarrow> triple (\<lambda>t. t = s) (f x) Q R" and "\<And>e. R e s"
  shows "triple (\<lambda>t. t = s) (sbind m f) Q R"
  using assms unfolding reads_def triple_def sbind_def by (fastforce split: prod.splits sum.splits)

lemma reads_sget [simp, intro]: "reads s (sget f) (\<lambda>x. f s = x)"
  by (simp add: reads_def triple_def sget_def)

lemma reads_sret: "A x \<Longrightarrow> reads s (sret x) A"
  by (simp add: reads_def triple_def sret_def)

lemma reads_sraise [simp]: "reads s (sraise e) A"
  by (simp add: reads_def triple_def sraise_def)

lemma reads_validate_name: "reads s (validate_name name) (\<lambda>_. valid_name name)"
  unfolding validate_name_def by (auto simp: valid_name_def intro: reads_sret)

lemma reads_custom_path:
  "reads s (custom_path name) (\<lambda>_. valid_name name \<and> custom_entry s name \<noteq> Some Symlink)"
  unfolding custom_path_def by (rule reads_bind [OF reads_validate_name], rule reads_bind [OF reads_sget]) (auto intro: reads_sret)

lemma reads_guard_writable: "reads s (guard_writable name) (\<lambda>_. cs_active s \<noteq> Some name)"
  unfolding guard_writable_def by (rule reads_bind [OF reads_sget]) (auto intro: reads_sret)

lemma reads_check_not_hardlink:
  "reads s (check_not_hardlink name) (\<lambda>_. \<forall>raw links. custom_entry s name = Some (RegularFile raw links) \<longrightarrow> links \<le> 1)"
  unfolding check_not_hardlink_def
  by (rule reads_bind [OF reads_sget]) (auto intro: reads_sret split: option.split dirent.split)

lemma custom_file_iff: "custom_file s name = Some raw \<longleftrightarrow> (\<exists>links. custom_entry s name = Some (RegularFile raw links))"
  by (auto simp: custom_file_def split: option.splits dirent.splits)

lemma reads_option:
  "(x = None \<Longrightarrow> reads s m A) \<Longrightarrow> (\<And>y. x = Some y \<Longrightarrow> reads s (f y) A) \<Longrightarrow> reads s (case x of None \<Rightarrow> m | Some y \<Rightarrow> f y) A"
  by (cases x) auto

lemma reads_if: "(b \<Longrightarrow> reads s m A) \<Longrightarrow> (\<not> b \<Longrightarrow> reads s n A) \<Longrightarrow> reads s (if b then m else n) A"
  by simp

lemma reads_read_config:
  "reads s (read_config sha name) (\<lambda>(builtin, digest, raw). digest = sha raw \<and> (if builtin then builtin_file s name = Some raw
     else builtin_file s name = None \<and> length raw \<le> MAX_CONFIG_BYTES \<and>
       (\<exists>links. custom_entry s name = Some (RegularFile raw links) \<and> links \<le> 1)))"
  unfolding read_config_def
  by (rule reads_bind [OF reads_sget] reads_option reads_bind [OF reads_custom_path] reads_bind [OF reads_check_not_hardlink]
        reads_if reads_sraise)+ (auto simp: custom_file_iff intro!: reads_sret)

text \<open>Every way of refusing a call leaves the store untouched.\<close>

abbreviation refuses :: "store_io \<Rightarrow> config_store \<Rightarrow> 'a store_act \<Rightarrow> bool" where
  "refuses io s m \<equiv> triple (\<lambda>t. untouched io s t) m (\<lambda>_ _. False) (\<lambda>_ t. untouched io s t)"

lemma audit_ok: "audit True by target operation before after result = smod (logged by target operation before after result)"
  by (simp add: audit_def logged_def [abs_def])

lemma audit_fails: "audit False by target operation before after result =
    craise ''audit_write_failed'' ''config audit log unavailable; refusing commit''"
  by (simp add: audit_def)

lemma untouched_logged:
  assumes "untouched io s t" and "result \<noteq> ''ok''" and "\<not> starts_with result ''ok:''"
  shows "untouched io s (logged by target operation before after result t)"
proof (rule untouchedE [OF assms(1)])
  fix ls staged
  let ?line = "\<lparr>au_controller = by_controller by, au_command_id = by_command by, au_target = target,
    au_operation = operation, au_before = before, au_after = after, au_result = result\<rparr>"
  assume t: "t = s\<lparr>cs_audit := cs_audit s @ ls, cs_staged := staged\<rparr>"
    and "io_unstage io \<Longrightarrow> cs_staged s = None \<Longrightarrow> staged = None"
    and "io_reliable io \<Longrightarrow> no_directories s \<Longrightarrow> list_all (\<lambda>l. \<not> accepted l) ls"
  then show ?thesis using assms(2,3)
    by (intro untouchedI [where ls = "ls @ [?line]" and staged = staged]) (simp_all add: logged_def accepted_def)
qed

lemma audit_untouched:
  assumes "result \<noteq> ''ok''" and "\<not> starts_with result ''ok:''"
  shows "triple (untouched io s) (audit ok by target operation before after result) (\<lambda>_. untouched io s) (\<lambda>_. untouched io s)"
proof (cases ok)
  case True
  have "triple (untouched io s) (smod (logged by target operation before after result)) (\<lambda>_. untouched io s) (\<lambda>_. untouched io s)"
    by (rule triple_smod) (rule untouched_logged [OF _ assms])
  with True show ?thesis by (simp add: audit_ok)
qed (simp add: audit_def triple_def sraise_def)

lemma refuse_untouched:
  assumes "err \<noteq> ''ok''" and "\<not> starts_with err ''ok:''"
  shows "refuses io s (refuse io by name operation before err message)"
  unfolding refuse_def by (rule triple_sbind [OF audit_untouched [OF assms]]) (simp add: triple_def sraise_def)

lemma commit_failed_untouched:
  assumes "\<And>staged. io_unstage io \<and> cs_staged s = None \<longrightarrow> staged = None \<Longrightarrow> untouched io s (t\<lparr>cs_staged := staged\<rparr>)"
    and "\<not> io_unstage io \<Longrightarrow> untouched io s t"
  shows "triple (\<lambda>u. u = t) (commit_failed io ok by name operation before after) (\<lambda>_ _. False) (\<lambda>_. untouched io s)"
  unfolding commit_failed_def
  apply (rule triple_sbind [where A = "\<lambda>_. untouched io s"])
  subgoal using assms(1) [of None] assms(2) by (simp add: unstage_def triple_def smod_def)
  subgoal by (rule triple_sbind [OF audit_untouched]) (simp_all add: starts_with_def triple_def sraise_def)
  done

lemma logged_simps [simp]:
  "cs_custom (logged by target operation before after result s) = cs_custom s"
  "cs_windows (logged by target operation before after result s) = cs_windows s"
  "cs_builtin (logged by target operation before after result s) = cs_builtin s"
  "cs_active (logged by target operation before after result s) = cs_active s"
  "cs_staged (logged by target operation before after result s) = cs_staged s"
  "cs_custom (put_file name entry s) = dset (file_key (cs_windows s) name) entry (cs_custom s)"
  "cs_windows (put_file name entry s) = cs_windows s"
  "cs_builtin (put_file name entry s) = cs_builtin s"
  "cs_active (put_file name entry s) = cs_active s"
  "cs_audit (put_file name entry s) = cs_audit s"
  "cs_custom (remove_file name s) = ddel (file_key (cs_windows s) name) (cs_custom s)"
  "cs_windows (remove_file name s) = cs_windows s"
  "cs_builtin (remove_file name s) = cs_builtin s"
  "cs_active (remove_file name s) = cs_active s"
  "cs_audit (remove_file name s) = cs_audit s"
  by (simp_all add: logged_def put_file_def remove_file_def)

lemma triple_never: "triple P m (\<lambda>_ _. False) R \<Longrightarrow> triple P m Q R"
  by (erule triple_post) simp_all

lemma triple_sget_at: "triple (\<lambda>t. t = s) (g (f s)) Q R \<Longrightarrow> triple (\<lambda>t. t = s) (sbind (sget f) g) Q R"
  by (simp add: triple_def sbind_def sget_def)

lemma triple_smod_at: "triple (\<lambda>t. t = f s) (g ()) Q R \<Longrightarrow> triple (\<lambda>t. t = s) (sbind (smod f) g) Q R"
  by (simp add: triple_def sbind_def smod_def)

lemma commit_failed_staged:
  "triple (\<lambda>u. u = s\<lparr>cs_staged := staged\<rparr>) (commit_failed io ok by name operation before after)
     (\<lambda>_ _. False) (\<lambda>_. untouched io s)"
  by (rule commit_failed_untouched; rule untouchedI [where ls = "[]"]) simp_all

lemma untouched_ok_line:
  assumes "\<not> (io_reliable io \<and> no_directories s)" and "io_unstage io \<Longrightarrow> cs_staged s = None \<Longrightarrow> staged = None"
  shows "untouched io s ((logged by target operation before after ''ok'' s)\<lparr>cs_staged := staged\<rparr>)"
  using assms by (intro untouchedI [where staged = staged]) (auto simp: logged_def)

lemma replace_file_None:
  "replace_file io name entry s = None \<Longrightarrow> \<not> (io_reliable io \<and> no_directories s)"
  using no_directories_entry [of s name] by (auto simp: replace_file_def io_reliable_def split: if_splits)

lemma replace_file_Some:
  "replace_file io name entry s = Some s' \<longleftrightarrow> io_replace io \<and> custom_entry s name \<noteq> Some OtherEntry \<and> s' = put_file name entry s"
  by (auto simp: replace_file_def put_file_def)

text \<open>The state once the temporary file is written and the line is in the trail.\<close>

lemma replace_effect:
  "triple (\<lambda>t. t = (logged by name operation before (Some after) ''ok'' s)\<lparr>cs_staged := Some raw\<rparr>)
     (sbind (sget (replace_file io name (RegularFile raw 1))) (\<lambda>replaced. case replaced of
          Some s' \<Rightarrow> smod (\<lambda>_. s'\<lparr>cs_staged := None\<rparr>)
        | None \<Rightarrow> commit_failed io (io_audit2 io) by name operation before after))
     (\<lambda>_ t. custom_entry s name \<noteq> Some OtherEntry \<and>
        t = (logged by name operation before (Some after) ''ok'' (put_file name (RegularFile raw 1) s))\<lparr>cs_staged := None\<rparr>)
     (\<lambda>_. untouched io s)" (is "triple (\<lambda>t. t = ?t) _ _ _")
proof (cases "replace_file io name (RegularFile raw 1) ?t")
  case None
  then have "\<not> (io_reliable io \<and> no_directories s)"
    using replace_file_None [of io name "RegularFile raw 1" ?t] by (simp add: no_directories_def)
  then have "triple (\<lambda>t. t = ?t) (commit_failed io (io_audit2 io) by name operation before after) (\<lambda>_ _. False) (\<lambda>_. untouched io s)"
    by (intro commit_failed_untouched; simp; rule untouched_ok_line) auto
  then show ?thesis using None by (intro triple_sget_at) (auto intro: triple_never)
next
  case (Some s')
  then have "custom_entry s name \<noteq> Some OtherEntry" and "s' = put_file name (RegularFile raw 1) ?t"
    by (simp_all add: replace_file_Some custom_entry_def)
  then have "triple (\<lambda>t. t = ?t) (smod (\<lambda>_. s'\<lparr>cs_staged := None\<rparr>)) (\<lambda>_ t. custom_entry s name \<noteq> Some OtherEntry \<and>
      t = (logged by name operation before (Some after) ''ok'' (put_file name (RegularFile raw 1) s))\<lparr>cs_staged := None\<rparr>)
      (\<lambda>_. untouched io s)"
    by (intro triple_smod) (simp add: logged_def put_file_def)
  then show ?thesis using Some by (intro triple_sget_at) simp
qed

lemma stage_and_replace_effect:
  "triple (\<lambda>t. t = s) (stage_and_replace io by name operation before after raw)
     (\<lambda>_ t. custom_entry s name \<noteq> Some OtherEntry \<and>
        t = (logged by name operation before (Some after) ''ok'' (put_file name (RegularFile raw 1) s))\<lparr>cs_staged := None\<rparr>)
     (\<lambda>_. untouched io s)"
proof (cases "io_stage io")
  case OpenFails
  then show ?thesis using triple_never [OF commit_failed_staged [where s = s and staged = "cs_staged s"]]
    by (simp add: stage_and_replace_def)
next
  case (WriteFails n)
  then show ?thesis using triple_never [OF commit_failed_staged [where s = s and staged = "Some (take n raw)"]]
    by (auto simp: stage_and_replace_def intro!: triple_smod_at)
next
  case Staged
  have staged: "untouched io s (if io_unstage io then s\<lparr>cs_staged := None\<rparr> else s\<lparr>cs_staged := Some raw\<rparr>)"
    by (rule untouchedI [where ls = "[]" and staged = "if io_unstage io then None else Some raw"]) auto
  have "triple (\<lambda>t. t = s\<lparr>cs_staged := Some raw\<rparr>)
      (scatch (audit (io_audit io) by name operation before (Some after) ''ok'') (\<lambda>e. sbind (unstage io) (\<lambda>_. sraise e)))
      (\<lambda>_ t. t = (logged by name operation before (Some after) ''ok'' s)\<lparr>cs_staged := Some raw\<rparr>) (\<lambda>_. untouched io s)"
    using staged by (cases "io_audit io")
      (auto simp: triple_def scatch_def audit_ok audit_def unstage_def sbind_def smod_def sraise_def logged_def)
  then show ?thesis
    using Staged by (auto simp: stage_and_replace_def intro!: triple_smod_at triple_sbind [OF _ replace_effect [simplified]])
qed

text \<open>An edit whose content has the digest of the file already there is answered without a change.\<close>

definition already_there :: "(string \<Rightarrow> string) \<Rightarrow> store_op \<Rightarrow> config_store \<Rightarrow> store_reply \<Rightarrow> bool" where
  "already_there sha op s reply \<longleftrightarrow> (\<exists>name content expected old links. op = Edit name content expected \<and>
     reply = (name, Some (sha content), False) \<and> valid_name name \<and> custom_entry s name = Some (RegularFile old links) \<and>
     links \<le> 1 \<and> cs_active s \<noteq> Some name \<and> (expected = None \<or> expected = Some (sha old)) \<and> sha content = sha old)"

text \<open>Each call either leaves the store untouched or makes one of the changes.\<close>

definition effect :: "(string \<Rightarrow> string) \<Rightarrow> store_io \<Rightarrow> origin \<Rightarrow> store_op \<Rightarrow> config_store \<Rightarrow> store_reply store_act \<Rightarrow> bool" where
  "effect sha io by op s m \<longleftrightarrow> triple (\<lambda>t. t = s) m
     (\<lambda>r t. (already_there sha op s r \<and> untouched io s t) \<or> store_change sha by op s r t) (\<lambda>_. untouched io s)"

lemma effect_refuse:
  "err \<noteq> ''ok'' \<Longrightarrow> \<not> starts_with err ''ok:'' \<Longrightarrow> effect sha io by op s (refuse io by' name operation before err message)"
  unfolding effect_def by (rule triple_never, rule triple_pre, rule refuse_untouched) auto

lemma effect_raise: "effect sha io by op s (sraise e)"
  by (simp add: effect_def triple_def sraise_def)

lemma effect_bind: "reads s m A \<Longrightarrow> (\<And>x. A x \<Longrightarrow> effect sha io by op s (f x)) \<Longrightarrow> effect sha io by op s (sbind m f)"
  unfolding effect_def by (erule reads_then) simp_all

lemma effect_if: "(b \<Longrightarrow> effect sha io by op s m) \<Longrightarrow> (\<not> b \<Longrightarrow> effect sha io by op s n) \<Longrightarrow> effect sha io by op s (if b then m else n)"
  by simp

lemma effect_no_change:
  "already_there sha op s (name, d, False) \<Longrightarrow> effect sha io by op s (sbind (audit ok by name operation before after ''no_change'') (\<lambda>_. sret (name, d, False)))"
  unfolding effect_def
  by (rule triple_sbind [OF triple_pre [OF audit_untouched]]) (simp_all add: starts_with_def triple_def sret_def)

lemma effect_write:
  assumes "\<And>s'. custom_entry s name \<noteq> Some OtherEntry \<Longrightarrow>
      s' = (logged by name operation before (Some after) ''ok'' (put_file name (RegularFile raw 1) s))\<lparr>cs_staged := None\<rparr> \<Longrightarrow>
      store_change sha by op s (name, Some after, True) s'"
  shows "effect sha io by op s (sbind (stage_and_replace io by name operation before after raw) (\<lambda>_. sret (name, Some after, True)))"
  unfolding effect_def using assms
  by (intro triple_sbind [OF stage_and_replace_effect triple_sret]) blast

lemma create_change_effect:
  assumes "valid_name name" and "custom_entry s name \<noteq> Some Symlink"
  shows "effect sha io by (Create name content) s
    (commit_change sha io by ''create'' name content None True (custom_file s name) (builtin_file s name))"
proof -
  have none: "custom_entry s name = None" if "custom_file s name = None" and "custom_entry s name \<noteq> Some OtherEntry"
    using that assms(2) by (auto simp: custom_file_def split: option.splits dirent.splits)
  show ?thesis unfolding commit_change_def Let_def
    by (cases "custom_file s name"; simp) (auto simp: starts_with_def assms(1)
       intro!: effect_refuse effect_write store_change.created [simplified] none)
qed

lemma edit_change_effect:
  assumes "valid_name name" and "\<And>raw links. custom_entry s name = Some (RegularFile raw links) \<Longrightarrow> links \<le> 1 \<and> cs_active s \<noteq> Some name"
  shows "effect sha io by (Edit name content expected) s
    (commit_change sha io by ''edit'' name content expected False (custom_file s name) (builtin_file s name))"
proof (cases "custom_file s name")
  case None
  then show ?thesis by (simp add: commit_change_def effect_refuse starts_with_def)
next
  case (Some old)
  then obtain links where entry: "custom_entry s name = Some (RegularFile old links)" by (auto simp: custom_file_iff)
  note facts = assms(1) entry assms(2) [OF entry, THEN conjunct1] assms(2) [OF entry, THEN conjunct2]
  have "effect sha io by (Edit name content expected) s
      (sbind (stage_and_replace io by name ''edit'' (Some (sha old)) (sha content) content) (\<lambda>_. sret (name, Some (sha content), True)))"
    if "sha content \<noteq> sha old" and "expected = None \<or> expected = Some (sha old)"
    by (rule effect_write) (simp only: store_change.edited [OF facts that(2,1)])
  moreover have "already_there sha (Edit name content expected) s (name, Some (sha content), False)"
    if "sha content = sha old" and "expected = None \<or> expected = Some (sha old)"
    unfolding already_there_def using facts that by blast
  ultimately show ?thesis unfolding commit_change_def Let_def Some
    by (auto intro!: effect_refuse effect_no_change simp: starts_with_def)
qed

lemma reads_writable:
  "reads s (if exists then sbind (check_not_hardlink name) (\<lambda>_. guard_writable name) else sret ())
     (\<lambda>_. exists \<longrightarrow> (\<forall>raw links. custom_entry s name = Some (RegularFile raw links) \<longrightarrow> links \<le> 1) \<and> cs_active s \<noteq> Some name)"
  by (auto simp: reads_sret guard_writable_def intro!: reads_bind [OF reads_check_not_hardlink] reads_bind [OF reads_sget])

lemma create_effect: "effect sha io by (Create name content) s (create_config sha io by name content)"
  unfolding create_config_def commit_config_def
  by (rule effect_bind [OF reads_validate_name] effect_bind [OF reads_custom_path] effect_bind [OF reads_sget]
        effect_bind [OF reads_writable])+ (auto intro: create_change_effect)

lemma edit_effect: "effect sha io by (Edit name content expected) s (edit_config sha io by name content expected)"
  unfolding edit_config_def commit_config_def
  by (rule effect_bind [OF reads_custom_path] effect_bind [OF reads_sget] effect_bind [OF reads_writable])+
     (auto simp: custom_file_iff intro!: edit_change_effect)

lemma rename_commit_effect:
  assumes names: "valid_name name" "valid_name new_name"
    and there: "\<exists>links. custom_entry s name = Some (RegularFile old links) \<and> links \<le> 1"
    and new: "custom_file s new_name = None" "custom_entry s new_name \<noteq> Some Symlink" and builtin: "builtin_file s new_name = None"
    and active: "cs_active s \<noteq> Some name" and expected: "expected = None \<or> expected = Some (sha old)"
  shows "effect sha io by (Rename name new_name expected) s (rename_commit io by name new_name (sha old))"
proof (cases "io_audit io")
  case False
  then show ?thesis by (simp add: rename_commit_def effect_def triple_def audit_def sbind_def sraise_def)
next
  case True
  let ?t = "logged by name ''rename'' (Some (sha old)) (Some (sha old)) (''ok:'' @ new_name) s"
  obtain links where entry: "custom_entry s name = Some (RegularFile old links)" "links \<le> 1" using there by blast
  show ?thesis
  proof (cases "replace_file io new_name (RegularFile old links) ?t")
    case None
    then have "\<not> (io_reliable io \<and> no_directories s)"
      using replace_file_None [of io new_name "RegularFile old links" ?t] by (simp add: no_directories_def)
    then have "untouched io s ?t" "untouched io s (logged by name ''rename'' (Some (sha old)) (Some (sha old)) ''commit_failed'' ?t)"
      by (auto simp: logged_def intro!: untouchedI [where staged = "cs_staged s"])
    then show ?thesis using True None entry unfolding rename_commit_def effect_def
      by (cases "io_audit2 io")
         (simp_all add: audit_ok audit_fails triple_def sbind_def smod_def sget_def sraise_def custom_entry_def)
  next
    case (Some s')
    then have free: "custom_entry s new_name = None" and s': "s' = put_file new_name (RegularFile old links) ?t"
      using new by (auto simp: replace_file_Some custom_file_def custom_entry_def split: option.splits dirent.splits)
    have "remove_file name s' = logged by name ''rename'' (Some (sha old)) (Some (sha old)) (''ok:'' @ new_name)
        (remove_file name (put_file new_name (RegularFile old links) s))"
      by (simp add: s' logged_def put_file_def remove_file_def)
    then have "store_change sha by (Rename name new_name expected) s (new_name, Some (sha old), True) (remove_file name s')"
      using store_change.renamed [where sha = sha and who = "by" and old = old, OF names entry free builtin active expected] by simp
    moreover have "cs_active (remove_file name s') \<noteq> Some name" using active by (simp add: s')
    ultimately show ?thesis using True Some entry unfolding rename_commit_def effect_def
      by (simp add: audit_ok triple_def sbind_def smod_def sget_def sret_def custom_entry_def)
  qed
qed

lemma rename_effect: "effect sha io by (Rename name new_name expected) s (rename_config sha io by name new_name expected)"
  unfolding rename_config_def
  by (rule effect_bind [OF reads_validate_name] effect_bind [OF reads_custom_path] effect_bind [OF reads_guard_writable]
        effect_bind [OF reads_read_config] effect_bind [OF reads_sget])+
     (auto simp: effect_raise starts_with_def intro!: effect_refuse rename_commit_effect
        effect_bind [OF reads_custom_path] effect_bind [OF reads_sget])

lemma delete_commit_effect:
  assumes "valid_name name" and there: "\<exists>links. custom_entry s name = Some (RegularFile old links) \<and> links \<le> 1"
    and "cs_active s \<noteq> Some name" and "expected = None \<or> expected = Some (sha old)"
  shows "effect sha io by (Delete name expected) s (delete_commit io by name (sha old))"
proof -
  let ?t = "logged by name ''delete'' (Some (sha old)) None ''ok'' s"
  have "remove_file name ?t = logged by name ''delete'' (Some (sha old)) None ''ok'' (remove_file name s)"
    by (simp add: logged_def remove_file_def)
  then have "store_change sha by (Delete name expected) s (name, None, True) (remove_file name ?t)"
    using there store_change.deleted [where sha = sha and who = "by" and old = old, OF assms(1) _ _ assms(3,4)] by auto
  moreover have "untouched io s ?t" if "\<not> io_unlink io"
    using that by (auto simp: logged_def io_reliable_def intro!: untouchedI [where staged = "cs_staged s"])
  ultimately show ?thesis unfolding effect_def delete_commit_def
    by (cases "io_audit io") (simp_all add: audit_ok audit_fails triple_def sbind_def smod_def sraise_def sret_def)
qed

lemma delete_effect: "effect sha io by (Delete name expected) s (delete_config sha io by name expected)"
  unfolding delete_config_def
  by (rule effect_bind [OF reads_custom_path] effect_bind [OF reads_read_config])+
     (auto simp: effect_raise starts_with_def intro!: effect_bind [OF reads_guard_writable] effect_refuse delete_commit_effect)

lemma set_active_effect: "effect sha io by (SetActive name) s (run_op sha io by (SetActive name))"
  by (simp add: effect_def triple_def set_active_def sbind_def smod_def sret_def store_change.activated)

lemma run_op_effect: "effect sha io by op s (run_op sha io by op)"
  by (cases op) (simp_all only: run_op.simps(1-4) create_effect edit_effect rename_effect delete_effect set_active_effect)

lemma run_op_cases:
  assumes "run_op sha io by op s = (r, s')"
  obtains (error) e where "r = Inl e" and "untouched io s s'"
    | (same) reply where "r = Inr reply" and "already_there sha op s reply" and "untouched io s s'"
    | (change) reply where "r = Inr reply" and "store_change sha by op s reply s'"
  using tripleD [OF run_op_effect [unfolded effect_def] refl assms] by (cases r) (auto simp: that)

section \<open>Properties\<close>


definition demo_io :: store_io where
  "demo_io = \<lparr>io_audit = True, io_audit2 = True, io_stage = Staged, io_unstage = True, io_replace = True, io_unlink = True\<rparr>"

definition demo_origin :: origin where
  "demo_origin = \<lparr>by_controller = Some ''c'', by_command = Some ''1''\<rparr>"

definition demo_sha :: "string \<Rightarrow> string" where
  "demo_sha raw = show_nat (length raw)"

definition demo_store :: config_store where
  "demo_store = new_store False [(''a.ini'', RegularFile ''x'' 1)] [(''default.ini'', ''d'')] []"



section \<open>Invariants of runs\<close>

text \<open>What a call keeps, sequences of calls keep; \<open>allowed\<close> restricts the calls considered.\<close>

locale store_invariant =
  fixes sha :: "string \<Rightarrow> string"
    and allowed :: "store_io \<times> origin \<times> store_op \<Rightarrow> bool"
    and kept :: "config_store \<Rightarrow> bool"
  assumes keeps: "allowed (io, who, op) \<Longrightarrow> kept s \<Longrightarrow> run_op sha io who op s = (r, s') \<Longrightarrow> kept s'"
begin

lemma runs: "list_all allowed calls \<Longrightarrow> kept s \<Longrightarrow> kept (run_ops sha calls s)"
proof (induction calls arbitrary: s)
  case (Cons call calls)
  obtain io who op where call: "call = (io, who, op)" by (cases call)
  have "kept (snd (run_op sha io who op s))"
    using keeps [OF _ Cons.prems(2) prod.collapse [symmetric]] Cons.prems(1) by (simp add: call)
  then show ?case using Cons by (simp add: call)
qed simp

end

text \<open>The trail as an account of the directory: what the digests of the files become line by line.\<close>

definition digests :: "(string \<Rightarrow> string) \<Rightarrow> config_store \<Rightarrow> string \<Rightarrow> string option" where
  "digests sha s k = (case dget (cs_custom s) k of Some (RegularFile raw _) \<Rightarrow> Some (sha raw) | _ \<Rightarrow> None)"

definition replay_line :: "bool \<Rightarrow> audit_entry \<Rightarrow> (string \<Rightarrow> string option) \<Rightarrow> string \<Rightarrow> string option" where
  "replay_line windows l d =
     (if au_result l = ''ok'' then d(file_key windows (au_target l) := au_after l)
      else if starts_with (au_result l) ''ok:''
      then d(file_key windows (au_target l) := None, file_key windows (drop 3 (au_result l)) := au_after l)
      else d)"

lemma replay_rejected: "list_all (\<lambda>l. \<not> accepted l) ls \<Longrightarrow> fold (replay_line windows) ls d = d"
  by (induction ls) (auto simp: accepted_def replay_line_def)

lemma digests_simps [simp]:
  "digests sha (put_file name (RegularFile raw links) s) = (digests sha s)(file_key (cs_windows s) name := Some (sha raw))"
  "digests sha (remove_file name s) = (digests sha s)(file_key (cs_windows s) name := None)"
  "digests sha (logged by target operation before after result s) = digests sha s"
  "digests sha (s\<lparr>cs_staged := staged\<rparr>) = digests sha s"
  "digests sha (s\<lparr>cs_audit := trail\<rparr>) = digests sha s"
  "digests sha (s\<lparr>cs_active := active\<rparr>) = digests sha s"
  by (auto simp: digests_def fun_eq_iff dict_simps)

lemma no_directories_simps [simp]:
  "no_directories s \<Longrightarrow> no_directories (put_file name (RegularFile raw links) s)"
  "no_directories s \<Longrightarrow> no_directories (remove_file name s)"
  "no_directories (logged by target operation before after result s) \<longleftrightarrow> no_directories s"
  "no_directories (s\<lparr>cs_staged := staged\<rparr>) \<longleftrightarrow> no_directories s"
  "no_directories (s\<lparr>cs_audit := trail\<rparr>) \<longleftrightarrow> no_directories s"
  "no_directories (s\<lparr>cs_active := active\<rparr>) \<longleftrightarrow> no_directories s"
  by (auto simp: no_directories_def dict_simps)

lemma change_replayed:
  assumes "store_change sha by op s reply s'" and "no_directories s"
  shows "\<exists>ls. cs_audit s' = cs_audit s @ ls \<and> digests sha s' = fold (replay_line (cs_windows s)) ls (digests sha s) \<and>
    no_directories s' \<and> cs_windows s' = cs_windows s"
  using assms
proof cases
  case (renamed name new_name old links expected)
  then have "file_key (cs_windows s) name \<noteq> file_key (cs_windows s) new_name" by (auto simp: custom_entry_def)
  then show ?thesis using renamed assms(2)
    by (intro exI) (auto simp: logged_def replay_line_def starts_with_def fun_upd_twist)
qed (auto simp: replay_line_def logged_def starts_with_def)

lemma call_replayed:
  assumes "run_op sha io by op s = (r, s')" and "io_reliable io" and "no_directories s"
  shows "\<exists>ls. cs_audit s' = cs_audit s @ ls \<and> digests sha s' = fold (replay_line (cs_windows s)) ls (digests sha s) \<and>
    no_directories s' \<and> cs_windows s' = cs_windows s" (is ?replayed)
proof -
  have same: ?replayed if "untouched io s s'"
    using that assms(2,3) by (auto simp: untouched_def replay_rejected)
  from assms(1) show ?thesis
    by (rule run_op_cases) (blast intro: same change_replayed [OF _ assms(3)])+
qed

definition accounted :: "(string \<Rightarrow> string) \<Rightarrow> config_store \<Rightarrow> config_store \<Rightarrow> bool" where
  "accounted sha s t \<longleftrightarrow> no_directories t \<and> cs_windows t = cs_windows s \<and>
     (\<exists>ls. cs_audit t = cs_audit s @ ls \<and> digests sha t = fold (replay_line (cs_windows s)) ls (digests sha s))"

lemma call_accounted:
  "io_reliable io \<Longrightarrow> accounted sha s t \<Longrightarrow> run_op sha io by op t = (r, t') \<Longrightarrow> accounted sha s t'"
  using call_replayed [of sha io "by" op t r t'] by (auto simp: accounted_def)

interpretation trail: store_invariant sha "\<lambda>(io, by, op). io_reliable io" "accounted sha s" for sha s
  by unfold_locales (auto intro: call_accounted)

text \<open>C31. The audit trail accounts for the files: after any sequence of calls in which the final replacement or
  removal of a file is not refused by the system, the digests of all custom files are those that
  result from the digests before by replaying the new lines of the trail, whatever else failed in between.
\<close>

theorem trail_accounts_for_files:
  assumes "list_all (\<lambda>(io, by, op). io_reliable io) ops" and "no_directories s"
  shows "digests sha (run_ops sha ops s) =
    fold (replay_line (cs_windows s)) (drop (length (cs_audit s)) (cs_audit (run_ops sha ops s))) (digests sha s)"
  using trail.runs [OF assms(1), of sha s s] assms(2) by (auto simp: accounted_def)

theorem trail_accounts_for_files_witness:
  "digests demo_sha (run_ops demo_sha [(demo_io\<lparr>io_audit := False\<rparr>, demo_origin, Delete ''a.ini'' None),
      (demo_io, demo_origin, Rename ''a.ini'' ''b.ini'' (Some ''1''))] demo_store) =
    fold (replay_line False) (cs_audit (run_ops demo_sha [(demo_io\<lparr>io_audit := False\<rparr>, demo_origin, Delete ''a.ini'' None),
      (demo_io, demo_origin, Rename ''a.ini'' ''b.ini'' (Some ''1''))] demo_store)) (digests demo_sha demo_store)"
proof -
  have "no_directories demo_store" by (simp add: no_directories_def demo_store_def new_store_def dget_def)
  from trail_accounts_for_files [OF _ this, of "[(demo_io\<lparr>io_audit := False\<rparr>, demo_origin, Delete ''a.ini'' None),
      (demo_io, demo_origin, Rename ''a.ini'' ''b.ini'' (Some ''1''))]" demo_sha]
  show ?thesis by (simp add: io_reliable_def demo_io_def demo_store_def new_store_def del: run_ops.simps)
qed

text \<open>What a call cannot change.\<close>

lemma custom_entry_simps [simp]:
  "custom_entry (put_file name entry s) other =
     (if file_key (cs_windows s) other = file_key (cs_windows s) name then Some entry else custom_entry s other)"
  "custom_entry (remove_file name s) other =
     (if file_key (cs_windows s) other = file_key (cs_windows s) name then None else custom_entry s other)"
  "custom_entry (logged by target operation before after result s) other = custom_entry s other"
  "custom_entry (s\<lparr>cs_staged := staged\<rparr>) other = custom_entry s other"
  "custom_entry (s\<lparr>cs_audit := trail\<rparr>) other = custom_entry s other"
  "custom_entry (s\<lparr>cs_active := active\<rparr>) other = custom_entry s other"
  by (auto simp: custom_entry_def dict_simps)

lemma call_keeps_active:
  assumes "run_op sha io by op s = (r, s')" and kept: "\<not> cs_windows s" "cs_active s = Some name" "custom_entry s name = Some entry"
    and "\<forall>a. op \<noteq> SetActive a"
  shows "\<not> cs_windows s' \<and> cs_active s' = Some name \<and> custom_entry s' name = Some entry" (is ?kept)
proof -
  have same: ?kept if "untouched io s s'"
    by (rule untouchedE [OF that]) (simp add: kept)
  have change: ?kept if "store_change sha by op s reply s'" for reply
    using that assms(2-5) by cases (simp_all add: file_key_def, auto)
  from assms(1) show ?thesis by (rule run_op_cases) (erule same change)+
qed

interpretation active_config: store_invariant sha "\<lambda>(io, by, op). case op of SetActive _ \<Rightarrow> False | _ \<Rightarrow> True"
  "\<lambda>s. \<not> cs_windows s \<and> cs_active s = Some name \<and> custom_entry s name = Some entry" for sha name entry
  by unfold_locales (auto dest!: call_keeps_active)

text \<open>C32. On a file system that tells names apart by case, the configuration of the running program is frozen: as long as
  the active name is not registered anew, no sequence of calls, whatever fails in it, changes, renames, removes
  or replaces the file of the active configuration.
\<close>

theorem active_config_frozen:
  assumes "\<not> cs_windows s" and "cs_active s = Some name" and "custom_file s name = Some raw"
    and "list_all (\<lambda>(io, by, op). case op of SetActive _ \<Rightarrow> False | _ \<Rightarrow> True) ops"
  shows "cs_active (run_ops sha ops s) = Some name \<and> custom_file (run_ops sha ops s) name = Some raw"
proof -
  obtain links where "custom_entry s name = Some (RegularFile raw links)" using assms(3) by (auto simp: custom_file_iff)
  then show ?thesis using active_config.runs [OF assms(4), of s name "RegularFile raw links" sha] assms(1,2) by (simp add: custom_file_iff)
qed

theorem active_config_frozen_witness:
  "custom_file (run_ops demo_sha [(demo_io, demo_origin, Edit ''a.ini'' ''yy'' None), (demo_io, demo_origin, Delete ''a.ini'' None),
      (demo_io, demo_origin, Rename ''a.ini'' ''b.ini'' None)] (demo_store\<lparr>cs_active := Some ''a.ini''\<rparr>)) ''a.ini'' = Some ''x''"
  by (rule active_config_frozen [THEN conjunct2]) (simp_all add: demo_store_def new_store_def custom_file_def custom_entry_def
     file_key_def dget_def)

text \<open>On Windows the guard compares names the file system does not tell apart: the active file can be edited.\<close>

lemma active_config_edited_by_case:
  "let s = demo_store\<lparr>cs_windows := True, cs_active := Some ''a.ini''\<rparr>;
       s' = snd (run_op demo_sha demo_io demo_origin (Edit ''A.ini'' ''yy'' None) s)
   in cs_active s' = Some ''a.ini'' \<and> custom_file s ''a.ini'' = Some ''x'' \<and> custom_file s' ''a.ini'' = Some ''yy''"
  by code_simp

text \<open>Whether a name is taken by a built-in configuration depends on the entry it denotes only.\<close>

lemma is_lower_lower_char: "is_upper x \<Longrightarrow> is_lower (lower_char x)"
  by (simp add: lower_char_def is_upper_def is_lower_def code_def)

lemma lower_char_iff: "\<not> is_lower c \<Longrightarrow> \<not> is_upper c \<Longrightarrow> lower_char x = c \<longleftrightarrow> x = c"
  using is_lower_lower_char [of x] by (cases "is_upper x") (auto simp: lower_char_def)

lemma separators_have_no_case [simp]:
  "lower_char x = CHR ''.'' \<longleftrightarrow> x = CHR ''.''" "lower_char x = CHR ''/'' \<longleftrightarrow> x = CHR ''/''"
  "lower_char x = char_of (92 :: nat) \<longleftrightarrow> x = char_of (92 :: nat)"
  by (rule lower_char_iff; simp add: is_lower_def is_upper_def code_def)+

lemma contains_dots_lower: "contains (lower name) ''..'' \<longleftrightarrow> contains name ''..''"
  by (induction name) (auto simp: lower_def starts_with_def take_Suc_Cons take_map neq_Nil_conv)

lemma is_builtin_candidate_lower: "is_builtin_candidate windows (lower name) \<longleftrightarrow> is_builtin_candidate windows name"
proof -
  have "c \<in> set (lower name) \<longleftrightarrow> c \<in> set name" if "\<And>x. lower_char x = c \<longleftrightarrow> x = c" for c
    using that unfolding lower_def set_map image_iff by metis
  then show ?thesis by (simp add: is_builtin_candidate_def contains_dots_lower)
qed

lemma builtin_file_key: "file_key (cs_windows s) a = file_key (cs_windows s) b \<Longrightarrow> builtin_file s a = builtin_file s b"
  by (auto simp: builtin_file_def file_key_def split: if_splits) (metis is_builtin_candidate_lower)+

text \<open>Every custom entry has a valid name that no built-in configuration has.\<close>

definition store_ok :: "config_store \<Rightarrow> bool" where
  "store_ok s \<longleftrightarrow> dict_ok (cs_custom s) \<and> (\<forall>k. dget (cs_custom s) k \<noteq> None \<longrightarrow>
     (\<exists>name. k = file_key (cs_windows s) name \<and> valid_name name \<and> builtin_file s name = None))"

lemma builtin_file_simps [simp]:
  "builtin_file (put_file name entry s) = builtin_file s" "builtin_file (remove_file name s) = builtin_file s"
  "builtin_file (logged by target operation before after result s) = builtin_file s"
  "builtin_file (s\<lparr>cs_staged := staged\<rparr>) = builtin_file s" "builtin_file (s\<lparr>cs_audit := trail\<rparr>) = builtin_file s"
  "builtin_file (s\<lparr>cs_active := active\<rparr>) = builtin_file s"
  by (simp_all add: builtin_file_def fun_eq_iff)

lemma store_ok_simps [simp]:
  "store_ok s \<Longrightarrow> valid_name name \<Longrightarrow> builtin_file s name = None \<Longrightarrow> store_ok (put_file name entry s)"
  "store_ok s \<Longrightarrow> store_ok (remove_file name s)"
  "store_ok (logged by target operation before after result s) \<longleftrightarrow> store_ok s"
  "store_ok (s\<lparr>cs_staged := staged\<rparr>) \<longleftrightarrow> store_ok s" "store_ok (s\<lparr>cs_audit := trail\<rparr>) \<longleftrightarrow> store_ok s"
  "store_ok (s\<lparr>cs_active := active\<rparr>) \<longleftrightarrow> store_ok s"
  by (auto simp: store_ok_def dict_simps)

lemma store_ok_entry: "store_ok s \<Longrightarrow> custom_entry s name = Some entry \<Longrightarrow> builtin_file s name = None"
  unfolding store_ok_def custom_entry_def by (metis builtin_file_key option.distinct(1))

lemma call_store_ok:
  assumes "run_op sha io by op s = (r, s')" and "store_ok s"
  shows "store_ok s'"
proof -
  have same: "store_ok s'" if "untouched io s s'"
    by (rule untouchedE [OF that]) (simp add: assms(2))
  have change: "store_ok s'" if "store_change sha by op s reply s'" for reply
    using that assms(2) store_ok_entry [OF assms(2)] by cases simp_all
  from assms(1) show ?thesis by (rule run_op_cases) (erule same change)+
qed

interpretation names: store_invariant sha "\<lambda>_. True" store_ok for sha
  by unfold_locales (rule call_store_ok)

text \<open>No sequence of calls lets a custom configuration shadow a built-in one: the custom directory keeps
  one entry per name, every entry has a name that passed the validation, and none has the name of a built-in
  configuration, also where the file system ignores case.
\<close>

theorem builtin_never_shadowed:
  assumes "store_ok s"
  shows "store_ok (run_ops sha ops s)"
  using names.runs assms by (simp add: list_all_iff)

theorem builtin_never_shadowed_witness:
  "store_ok (run_ops demo_sha [(demo_io, demo_origin, Create ''Default.ini'' ''y''), (demo_io, demo_origin, Create ''b.ini'' ''y'')]
     (new_store True [] [(''default.ini'', ''d'')] []))"
  by (rule builtin_never_shadowed) (simp add: store_ok_def new_store_def dget_def)


text \<open>Looking back at what a call wrote.\<close>

lemma read_back:
  assumes "valid_name name" and "builtin_file s name = None" and "custom_entry s name = Some (RegularFile raw links)" and "links \<le> 1"
    and "length raw \<le> MAX_CONFIG_BYTES"
  shows "read_config sha name s = (Inr (False, sha raw, raw), s)"
  using assms
  by (simp add: read_config_def custom_path_def validate_name_def valid_name_def check_not_hardlink_def custom_file_def
     sbind_def sget_def sret_def)

lemma created_read_back:
  assumes "create_config sha io by name content s = (Inr reply, s')" and "length content \<le> MAX_CONFIG_BYTES"
  shows "reply = (name, Some (sha content), True) \<and> read_config sha name s' = (Inr (False, sha content, content), s')"
proof -
  have "run_op sha io by (Create name content) s = (Inr reply, s')" using assms(1) by simp
  then show ?thesis
  proof (cases rule: run_op_cases)
    case (change r)
    from change(2) show ?thesis using change(1) assms(2) by cases (simp add: read_back)
  qed (simp_all add: already_there_def)
qed

lemma edited_read_back:
  assumes "edit_config sha io by name content expected s = (Inr reply, s')" and "length content \<le> MAX_CONFIG_BYTES"
    and "store_ok s" and inj: "\<And>old. sha old = sha content \<Longrightarrow> old = content"
  shows "fst (snd reply) = Some (sha content) \<and> read_config sha name s' = (Inr (False, sha content, content), s')"
proof -
  have "run_op sha io by (Edit name content expected) s = (Inr reply, s')" using assms(1) by simp
  then show ?thesis
  proof (cases rule: run_op_cases)
    case (change r)
    from change(2) show ?thesis using change(1) assms(2) store_ok_entry [OF assms(3)] by cases (simp add: read_back)
  next
    case (same r)
    from same(2) obtain old links where facts: "valid_name name" "custom_entry s name = Some (RegularFile old links)" "links \<le> 1"
      and old: "sha content = sha old" by (auto simp: already_there_def)
    have "old = content" using inj [of old] old by simp
    obtain ls staged where s': "s' = s\<lparr>cs_audit := cs_audit s @ ls, cs_staged := staged\<rparr>" using same(3) by (rule untouchedE)
    have "read_config sha name s' = (Inr (False, sha content, content), s')"
      using facts \<open>old = content\<close> assms(2) store_ok_entry [OF assms(3) facts(2)]
      by (intro read_back [where links = links]) (simp_all add: s')
    then show ?thesis using same(1,2) by (auto simp: already_there_def)
  qed simp
qed

text \<open>C33. What was written is read back: after a call that creates or edits a configuration of at most one megabyte has
  answered, reading the name gives the content that was sent, with its digest, as a custom configuration; for
  an edit, in a store in which no custom name shadows a built-in one and where no other content has the digest.
\<close>

theorem written_config_read_back:
  assumes "op = Create name content \<or> (op = Edit name content expected \<and> store_ok s \<and> (\<forall>old. sha old = sha content \<longrightarrow> old = content))"
    and "run_op sha io by op s = (Inr reply, s')" and "length content \<le> MAX_CONFIG_BYTES"
  shows "fst (snd reply) = Some (sha content) \<and> read_config sha name s' = (Inr (False, sha content, content), s')"
  using assms created_read_back [of sha io "by" name content s reply s'] edited_read_back [of sha io "by" name content expected s reply s']
  by auto

theorem written_config_read_back_witness:
  "read_config demo_sha ''b.ini'' (snd (run_op demo_sha demo_io demo_origin (Create ''b.ini'' ''new'') demo_store)) =
    (Inr (False, ''3'', ''new''), snd (run_op demo_sha demo_io demo_origin (Create ''b.ini'' ''new'') demo_store))"
proof -
  let ?run = "run_op demo_sha demo_io demo_origin (Create ''b.ini'' ''new'') demo_store"
  have "fst ?run = Inr (''b.ini'', Some ''3'', True)" by code_simp
  then have "?run = (Inr (''b.ini'', Some ''3'', True), snd ?run)" by (metis prod.collapse)
  from written_config_read_back [OF disjI1, OF refl this] show ?thesis
    by (simp add: MAX_CONFIG_BYTES_def demo_sha_def)
qed

end
