(* ===== verification/TftpService.thy ===== *)
theory TftpService
  imports PyText FnPacket StateExn
begin

text \<open>
  The fake TFTP service (\<open>fakenet/listeners/TFTPListener.py\<close>, the request handler) with the path arithmetic of
  \<open>ListenerBase.safe_join\<close> and what it uses of the standard library (\<open>posixpath.normpath\<close>, \<open>splitext\<close>,
  \<open>urllib.parse.quote\<close>, \<open>struct\<close>). Paths are those of a POSIX system without symbolic links: a file is known by the
  components of its path. Decoding UTF-8 is exact on ASCII and a parameter otherwise. Sending a datagram and
  writing a file that can be opened succeed.
\<close>

section \<open>Paths\<close>

text \<open>One round of the loop of \<open>posix_normpath\<close>.\<close>

definition norm_step :: "bool \<Rightarrow> string \<Rightarrow> string list \<Rightarrow> string list" where
  "norm_step rooted part new_comps =
     (if part = [] \<or> part = ''.'' then new_comps
      else if part \<noteq> ''..'' \<or> (\<not> rooted \<and> new_comps = []) \<or> (new_comps \<noteq> [] \<and> last new_comps = ''..'') then new_comps @ [part]
      else if new_comps \<noteq> [] then butlast new_comps
      else new_comps)"

text \<open>POSIX allows two leading slashes to have a meaning of their own, three are one.\<close>

definition initial_slashes :: "string \<Rightarrow> nat" where
  "initial_slashes path = (if \<not> starts_with path ''/'' then 0
     else if starts_with path ''//'' \<and> \<not> starts_with path ''///'' then 2 else 1)"

definition posix_normpath :: "string \<Rightarrow> string" where
  "posix_normpath path = (if path = [] then ''.'' else
     (let slashes = initial_slashes path;
          comps = fold (norm_step (slashes > 0)) (split_on CHR ''/'' path) [];
          result = replicate slashes CHR ''/'' @ join_with ''/'' comps
      in if result = [] then ''.'' else result))"

definition safe_join :: "string \<Rightarrow> string \<Rightarrow> string" where
  "safe_join base path = (let path' = (if \<not> starts_with path ''/'' then CHR ''/'' # path else path) in base @ posix_normpath path')"

text \<open>The components by which the system finds a file.\<close>

definition path_parts :: "string \<Rightarrow> string list" where
  "path_parts path = filter (\<lambda>c. c \<noteq> []) (split_on CHR ''/'' path)"

text \<open>\<open>os.path.splitext(p)[1]\<close>: what follows the last dot of the last component, unless only dots precede it.\<close>

definition splitext_ext :: "string \<Rightarrow> string" where
  "splitext_ext p = (let base = last (split_on CHR ''/'' p); parts = split_on CHR ''.'' base; stem = join_with ''.'' (butlast parts) in
     if length parts > 1 \<and> \<not> list_all (\<lambda>c. c = CHR ''.'') stem then CHR ''.'' # last parts else [])"

definition hex_digit :: "nat \<Rightarrow> char" where
  "hex_digit n = ''0123456789ABCDEF'' ! n"

text \<open>\<open>urllib.parse.quote(filename, '')\<close> of bytes.\<close>

definition quote_byte :: "byte \<Rightarrow> string" where
  "quote_byte b = (let c = char_of (unat b) in
     if is_lower c \<or> is_upper c \<or> is_digit c \<or> c = CHR ''_'' \<or> c = CHR ''.'' \<or> c = CHR ''-'' \<or> c = CHR ''~'' then [c]
     else [CHR ''%'', hex_digit (unat b div 16), hex_digit (unat b mod 16)])"

definition quote :: "byte list \<Rightarrow> string" where
  "quote bs = concat (map quote_byte bs)"

section \<open>Server\<close>

datatype tftp_exn = UnpackValueError | StructError | DecodeError | FileNotFound

datatype tftp_nbi =
    NbiRrq string
  | NbiWrq string
  | NbiAck nat
  | NbiData string "string option"
  | NbiError nat string
  | NbiUnknown string string

text \<open>\<open>ts_filename\<close> is the attribute \<open>filename_path\<close> of the server, absent at first; \<open>ts_sent\<close> and \<open>ts_nbis\<close> record what
  was sent and reported.\<close>

record tftp_server =
  ts_root :: string
  ts_prefix :: string
  ts_cwd :: string
  ts_filename :: "byte list option"
  ts_files :: "(string list, byte list) dict"
  ts_sent :: "(string \<times> byte list) list"
  ts_nbis :: "(string \<times> tftp_nbi) list"

type_synonym 'a tftp_act = "(tftp_exn, tftp_server, 'a) action"

definition EXT_FILE_RESPONSE :: "(string, string) dict" where
  "EXT_FILE_RESPONSE = [(''.html'', ''FakeNet.html''), (''.png'', ''FakeNet.png''), (''.ico'', ''FakeNet.ico''),
     (''.jpeg'', ''FakeNet.jpg''), (''.exe'', ''FakeNetMini.exe''), (''.pdf'', ''FakeNet.pdf''), (''.xml'', ''FakeNet.html''),
     (''.txt'', ''FakeNet.txt'')]"

definition BLOCKSIZE :: nat where
  "BLOCKSIZE = 512"

definition decode_utf8 :: "(byte list \<Rightarrow> string option) \<Rightarrow> byte list \<Rightarrow> string tftp_act" where
  "decode_utf8 dec bs = (if list_all (\<lambda>b. unat b < 128) bs then sret (map (\<lambda>b. char_of (unat b)) bs)
     else (case dec bs of Some s \<Rightarrow> sret s | None \<Rightarrow> sraise DecodeError))"

text \<open>\<open>struct.unpack('!H', bs)[0]\<close> and \<open>struct.pack('!H', n)\<close>.\<close>

definition unpack_H :: "byte list \<Rightarrow> nat tftp_act" where
  "unpack_H bs = (if length bs = 2 then sret (unat (bs ! 0) * 256 + unat (bs ! 1)) else sraise StructError)"

definition pack_H :: "nat \<Rightarrow> byte list tftp_act" where
  "pack_H n = (if n < 65536 then sret [word_of_nat (n div 256), word_of_nat (n mod 256)] else sraise StructError)"

definition sendto :: "string \<Rightarrow> byte list \<Rightarrow> unit tftp_act" where
  "sendto client packet = smod (\<lambda>s. s\<lparr>ts_sent := ts_sent s @ [(client, packet)]\<rparr>)"

definition collect_nbi :: "string \<Rightarrow> tftp_nbi \<Rightarrow> unit tftp_act" where
  "collect_nbi client nbi = smod (\<lambda>s. s\<lparr>ts_nbis := ts_nbis s @ [(client, nbi)]\<rparr>)"

text \<open>\<open>filename, mode, _ = data[2:].split(b'\\x00', 2)\<close> needs two zero bytes.\<close>

definition parse_rrq_wrq_packet :: "byte list \<Rightarrow> (byte list \<times> byte list) tftp_act" where
  "parse_rrq_wrq_packet data = (let rest = drop 2 data; filename = takeWhile (\<lambda>b. b \<noteq> 0) rest;
       rest' = dropWhile (\<lambda>b. b \<noteq> 0) rest; mode = takeWhile (\<lambda>b. b \<noteq> 0) (tl rest') in
     if rest' = [] \<or> 0 \<notin> set (tl rest') then sraise UnpackValueError else sret (filename, mode))"

text \<open>The loop of a download from block \<open>i\<close> on.\<close>

function send_blocks :: "string \<Rightarrow> nat \<Rightarrow> byte list \<Rightarrow> unit tftp_act" where
  "send_blocks client i content = (if content = [] then sret ()
     else sbind (pack_H i) (\<lambda>num. sbind (sendto client ([0, 3] @ num @ take BLOCKSIZE content)) (\<lambda>_.
       send_blocks client (i + 1) (drop BLOCKSIZE content))))"
  by pat_completeness auto
termination
  by (relation "measure (\<lambda>(client, i, content). length content)") (auto simp: BLOCKSIZE_def)

declare send_blocks.simps [simp del]

definition handle_rrq :: "string \<Rightarrow> string \<Rightarrow> unit tftp_act" where
  "handle_rrq client filename = sbind (sget (\<lambda>s. let path = safe_join (ts_root s) filename in
       if dget (ts_files s) (path_parts path) \<noteq> None then path
       else safe_join (ts_root s) (case dget EXT_FILE_RESPONSE (lower (splitext_ext filename)) of
         Some name \<Rightarrow> name | None \<Rightarrow> ''FakeNetMini.exe''))) (\<lambda>filename_path.
     sbind (sget (\<lambda>s. dget (ts_files s) (path_parts filename_path))) (\<lambda>content. case content of
       None \<Rightarrow> sraise FileNotFound
     | Some bs \<Rightarrow> send_blocks client 1 bs))"

definition handle_wrq :: "string \<Rightarrow> byte list \<Rightarrow> unit tftp_act" where
  "handle_wrq client filename = sbind (smod (\<lambda>s. s\<lparr>ts_filename := Some filename\<rparr>)) (\<lambda>_. sendto client [0, 4, 0, 0])"

text \<open>The file an upload is stored in.\<close>

definition upload_path :: "tftp_server \<Rightarrow> byte list \<Rightarrow> string list" where
  "upload_path s filename = path_parts (safe_join (ts_cwd s) (ts_prefix s @ ''_'' @ quote filename))"

definition append_file :: "string list \<Rightarrow> byte list \<Rightarrow> tftp_server \<Rightarrow> tftp_server" where
  "append_file path bs s = s\<lparr>ts_files := dset path ((case dget (ts_files s) path of Some old \<Rightarrow> old | None \<Rightarrow> []) @ bs) (ts_files s)\<rparr>"

definition handle_data :: "(byte list \<Rightarrow> string option) \<Rightarrow> string \<Rightarrow> byte list \<Rightarrow> unit tftp_act" where
  "handle_data dec client data = sbind (unpack_H (take 2 (drop 2 data))) (\<lambda>block_num.
     sbind (sget ts_filename) (\<lambda>filename_path. case filename_path of
       Some (b # bs) \<Rightarrow>
         sbind (smod (\<lambda>s. append_file (upload_path s (b # bs)) (drop 4 data) s)) (\<lambda>_.
         sbind (decode_utf8 dec data) (\<lambda>indicator_data.
         sbind (decode_utf8 dec (b # bs)) (\<lambda>indicator_filename.
         sbind (sendto client ([0, 4] @ take 2 (drop 2 data))) (\<lambda>_.
         collect_nbi client (NbiData (drop 4 indicator_data) (Some indicator_filename))))))
     | _ \<Rightarrow> sbind (decode_utf8 dec data) (\<lambda>indicator_data.
         collect_nbi client (NbiData (drop 4 indicator_data) None))))"

definition tftp_handle :: "(byte list \<Rightarrow> string option) \<Rightarrow> string \<Rightarrow> byte list \<Rightarrow> unit tftp_act" where
  "tftp_handle dec client data =
     (let opcode = take 2 data in
      if data = [] then sret ()
      else if opcode = [0, 1] then
        sbind (parse_rrq_wrq_packet data) (\<lambda>(filename, mode).
        sbind (decode_utf8 dec filename) (\<lambda>name. sbind (handle_rrq client name) (\<lambda>_.
        collect_nbi client (NbiRrq name))))
      else if opcode = [0, 2] then
        sbind (parse_rrq_wrq_packet data) (\<lambda>(filename, mode).
        sbind (handle_wrq client filename) (\<lambda>_. sbind (decode_utf8 dec filename) (\<lambda>name.
        collect_nbi client (NbiWrq name))))
      else if opcode = [0, 4] then
        sbind (unpack_H (take 2 (drop 2 data))) (\<lambda>block_num. collect_nbi client (NbiAck block_num))
      else if opcode = [0, 3] then handle_data dec client data
      else if opcode = [0, 5] then
        sbind (unpack_H (take 2 (drop 2 data))) (\<lambda>error_num. sbind (decode_utf8 dec data) (\<lambda>text.
        collect_nbi client (NbiError error_num (drop 4 text))))
      else
        sbind (unpack_H opcode) (\<lambda>unknown_opcode. sbind (decode_utf8 dec data) (\<lambda>text.
        collect_nbi client (NbiUnknown (show_nat unknown_opcode) (drop 4 text)))))"

text \<open>Requests in the order in which they are served; a request that raises ends alone.\<close>

fun tftp_serve :: "(byte list \<Rightarrow> string option) \<Rightarrow> (string \<times> byte list) list \<Rightarrow> tftp_server \<Rightarrow> tftp_server" where
  "tftp_serve dec [] s = s"
| "tftp_serve dec ((client, data) # requests) s = tftp_serve dec requests (snd (tftp_handle dec client data s))"

section \<open>Paths stay below their root\<close>

lemma split_on_sep: "split_on c (xs @ c # ys) = split_on c xs @ split_on c ys"
proof (induction xs)
  case (Cons x xs)
  then show ?case by (cases "split_on c xs") auto
qed simp

lemma path_parts_slash: "path_parts (a @ CHR ''/'' # b) = path_parts a @ path_parts b"
  by (simp add: path_parts_def split_on_sep)

lemma path_parts_Nil [simp]: "path_parts [] = []"
  by (simp add: path_parts_def)

text \<open>A component that names an entry of a directory.\<close>

definition plain_part :: "string \<Rightarrow> bool" where
  "plain_part c \<longleftrightarrow> c \<noteq> [] \<and> c \<noteq> ''.'' \<and> c \<noteq> ''..'' \<and> CHR ''/'' \<notin> set c"

lemma path_parts_join: "list_all plain_part comps \<Longrightarrow> path_parts (join_with ''/'' comps) = comps"
proof (induction "''/''" comps rule: join_with.induct)
  case (2 x)
  then show ?case by (simp add: path_parts_def plain_part_def split_on_no_sep)
next
  case (3 x y ys)
  then show ?case using path_parts_slash [of x]
    by (simp add: plain_part_def) (simp add: path_parts_def split_on_no_sep)
qed simp

lemma path_parts_slashes: "path_parts (replicate n CHR ''/'' @ p) = path_parts p"
proof (induction n)
  case (Suc n)
  then show ?case using path_parts_slash [of "[]"] by simp
qed simp

lemma norm_steps_plain:
  "list_all plain_part acc \<Longrightarrow> list_all (\<lambda>c. CHR ''/'' \<notin> set c) parts \<Longrightarrow> list_all plain_part (fold (norm_step True) parts acc)"
proof (induction parts arbitrary: acc)
  case (Cons part parts)
  have "list_all plain_part (norm_step True part acc)"
    using Cons.prems by (auto simp: norm_step_def plain_part_def list_all_iff dest: in_set_butlastD last_in_set)
  then show ?case using Cons by simp
qed simp

lemma normpath_rooted:
  assumes "starts_with path ''/''"
  shows "\<exists>n comps. posix_normpath path = CHR ''/'' # replicate n CHR ''/'' @ join_with ''/'' comps \<and> list_all plain_part comps"
proof -
  have "list_all plain_part (fold (norm_step True) (split_on CHR ''/'' path) [])"
    by (rule norm_steps_plain) (auto simp: list_all_iff dest: split_on_sep_free)
  moreover have "path \<noteq> []" using assms by (auto simp: starts_with_def)
  moreover obtain n where "initial_slashes path = Suc n" using assms by (cases "initial_slashes path") (auto simp: initial_slashes_def split: if_splits)
  ultimately show ?thesis by (auto simp: posix_normpath_def Let_def)
qed


text \<open>A single plain component is joined as it is.\<close>

lemma safe_join_plain:
  assumes "plain_part name"
  shows "path_parts (safe_join base name) = path_parts base @ [name]"
proof -
  have name: "\<not> starts_with name ''/''" "split_on CHR ''/'' name = [name]"
    using assms by (auto simp: plain_part_def starts_with_iff split_on_no_sep)
  have "initial_slashes (CHR ''/'' # name) = 1"
    using assms by (cases name) (auto simp: initial_slashes_def starts_with_def plain_part_def)
  then have "posix_normpath (CHR ''/'' # name) = CHR ''/'' # name"
    using assms by (simp add: posix_normpath_def name norm_step_def plain_part_def)
  then show ?thesis
    using path_parts_slash [of base name] assms by (simp add: safe_join_def name path_parts_def plain_part_def)
qed

lemma quote_byte_plain: "CHR ''/'' \<notin> set (quote_byte b)"
proof -
  have hex: "hex_digit n \<noteq> CHR ''/''" if "n < 16" for n
  proof -
    have "hex_digit n \<in> set ''0123456789ABCDEF''" unfolding hex_digit_def by (rule nth_mem) (use that in simp)
    then show ?thesis by auto
  qed
  have "unat b < 256" using unsigned_less [of b, where 'a = nat] by simp
  then have "unat b div 16 < 16" by simp
  then show ?thesis
    using hex [of "unat b div 16"] hex [of "unat b mod 16"]
    by (cases "char_of (unat b) = CHR ''/''")
       (auto simp: quote_byte_def Let_def is_lower_def is_upper_def is_digit_def code_def)
qed

lemma upload_path_eq:
  assumes "CHR ''/'' \<notin> set (ts_prefix s)"
  shows "upload_path s filename = path_parts (ts_cwd s) @ [ts_prefix s @ ''_'' @ quote filename]"
proof -
  have "plain_part (ts_prefix s @ ''_'' @ quote filename)"
    using assms quote_byte_plain by (auto simp: plain_part_def quote_def append_eq_Cons_conv)
  then show ?thesis by (simp add: upload_path_def safe_join_plain)
qed

section \<open>Downloads\<close>

text \<open>The packets of a download, numbered from \<open>i\<close> on.\<close>

function data_packets :: "nat \<Rightarrow> byte list \<Rightarrow> byte list list" where
  "data_packets i content = (if content = [] then []
     else ([0, 3, word_of_nat (i div 256), word_of_nat (i mod 256)] @ take BLOCKSIZE content) # data_packets (i + 1) (drop BLOCKSIZE content))"
  by pat_completeness auto
termination
  by (relation "measure (\<lambda>(i, content). length content)") (auto simp: BLOCKSIZE_def)

declare data_packets.simps [simp del]

lemma data_packets_Nil [simp]: "data_packets i [] = []"
  by (simp add: data_packets.simps)

lemma data_packets_step: "content \<noteq> [] \<Longrightarrow> data_packets i content =
    ([0, 3, word_of_nat (i div 256), word_of_nat (i mod 256)] @ take BLOCKSIZE content) # data_packets (i + 1) (drop BLOCKSIZE content)"
  by (subst data_packets.simps) simp

lemma send_blocks_packets:
  assumes "length content \<le> (65536 - i) * BLOCKSIZE"
  shows "send_blocks client i content s = (Inr (), s\<lparr>ts_sent := ts_sent s @ map (Pair client) (data_packets i content)\<rparr>)"
  using assms
proof (induction client i content arbitrary: s rule: send_blocks.induct)
  case (1 client i content)
  show ?case
  proof (cases "content = []")
    case True
    then show ?thesis by (simp add: send_blocks.simps sret_def)
  next
    case False
    then have "i < 65536" using "1.prems" by (cases "i < 65536") simp_all
    moreover have "length (drop BLOCKSIZE content) \<le> (65536 - (i + 1)) * BLOCKSIZE"
      using "1.prems" \<open>i < 65536\<close> by (simp add: diff_mult_distrib)
    ultimately show ?thesis using "1.IH" [OF False] False
      by (simp add: send_blocks.simps [of client i content] data_packets_step [OF False] pack_H_def sbind_def sret_def sendto_def smod_def)
  qed
qed

lemma data_packets_content: "concat (map (drop 4) (data_packets i content)) = content"
proof (induction i content rule: data_packets.induct)
  case (1 i content)
  then show ?case by (cases "content = []") (simp_all add: data_packets_step)
qed

lemma data_packets_numbered:
  "k < length (data_packets i content) \<Longrightarrow>
    take 4 (data_packets i content ! k) = [0, 3, word_of_nat ((i + k) div 256), word_of_nat ((i + k) mod 256)]"
proof (induction i content arbitrary: k rule: data_packets.induct)
  case (1 i content)
  then show ?case by (cases "content = []"; cases k) (simp_all add: data_packets_step)
qed

lemma data_packets_block:
  "k < length (data_packets i content) \<Longrightarrow> drop 4 (data_packets i content ! k) = take BLOCKSIZE (drop (k * BLOCKSIZE) content)"
proof (induction i content arbitrary: k rule: data_packets.induct)
  case (1 i content)
  then show ?case by (cases "content = []"; cases k) (simp_all add: data_packets_step add.commute)
qed

lemma data_packets_count: "k < length (data_packets i content) \<longleftrightarrow> k * BLOCKSIZE < length content"
proof (induction i content arbitrary: k rule: data_packets.induct)
  case (1 i content)
  show ?case
  proof (cases "content = []")
    case False
    with 1 show ?thesis by (cases k) (simp_all add: data_packets_step less_diff_conv add.commute)
  qed simp
qed

lemma takeWhile_sep: "c \<notin> set xs \<Longrightarrow> takeWhile (\<lambda>x. x \<noteq> c) (xs @ c # ys) = xs"
  by (induction xs) auto

lemma dropWhile_sep: "c \<notin> set xs \<Longrightarrow> dropWhile (\<lambda>x. x \<noteq> c) (xs @ c # ys) = c # ys"
  by (induction xs) auto

lemma read_request:
  assumes "0 \<notin> set filename" and "0 \<notin> set mode"
  shows "parse_rrq_wrq_packet (op1 # op2 # filename @ 0 # mode @ 0 # rest) = sret (filename, mode)"
  by (simp add: parse_rrq_wrq_packet_def takeWhile_sep [OF assms(1)] dropWhile_sep [OF assms(1)] takeWhile_sep [OF assms(2)])

definition ascii :: "byte list \<Rightarrow> bool" where
  "ascii bs \<longleftrightarrow> list_all (\<lambda>b. unat b < 128) bs"

text \<open>C34. A download is complete: a well-formed read request for a file below the root, of at most 65535 blocks, succeeds,
  changes no file and sends data packets, numbered from one in order without a gap, whose blocks are the
  consecutive pieces of 512 bytes of the file and together give its content.
\<close>

theorem tftp_download_complete:
  assumes "0 \<notin> set filename" and "0 \<notin> set mode" and "ascii filename"
    and "dget (ts_files s) (path_parts (safe_join (ts_root s) (map (\<lambda>b. char_of (unat b)) filename))) = Some content"
    and "length content \<le> 65535 * BLOCKSIZE"
  shows "\<exists>s' packets. tftp_handle dec client ([0, 1] @ filename @ [0] @ mode @ [0] @ rest) s = (Inr (), s') \<and>
    ts_files s' = ts_files s \<and> ts_sent s' = ts_sent s @ map (Pair client) packets \<and>
    concat (map (drop 4) packets) = content \<and>
    (\<forall>k. k < length packets \<longleftrightarrow> k * BLOCKSIZE < length content) \<and>
    (\<forall>k < length packets. take 4 (packets ! k) = [0, 3, word_of_nat ((k + 1) div 256), word_of_nat ((k + 1) mod 256)] \<and>
       drop 4 (packets ! k) = take BLOCKSIZE (drop (k * BLOCKSIZE) content))"
proof -
  let ?s = "s\<lparr>ts_sent := ts_sent s @ map (Pair client) (data_packets 1 content)\<rparr>"
  let ?name = "map (\<lambda>b. char_of (unat b)) filename"
  have "handle_rrq client ?name s = (Inr (), ?s)"
    using assms(4,5) send_blocks_packets [of content 1 client s]
    by (simp add: handle_rrq_def sbind_def sget_def)
  then have "tftp_handle dec client ([0, 1] @ filename @ [0] @ mode @ [0] @ rest) s =
      (Inr (), ?s\<lparr>ts_nbis := ts_nbis s @ [(client, NbiRrq ?name)]\<rparr>)"
    using read_request [OF assms(1,2), of 0 1 rest] assms(3)
    by (simp add: tftp_handle_def sbind_def sret_def decode_utf8_def ascii_def collect_nbi_def smod_def)
  then show ?thesis
    by (intro exI [of _ "?s\<lparr>ts_nbis := ts_nbis s @ [(client, NbiRrq ?name)]\<rparr>"] exI [of _ "data_packets 1 content"])
       (simp add: data_packets_content data_packets_numbered data_packets_block data_packets_count)
qed

definition demo_server :: tftp_server where
  "demo_server = \<lparr>ts_root = ''/srv'', ts_prefix = ''tftp'', ts_cwd = ''/tmp'', ts_filename = None,
     ts_files = [([''srv'', ''a''], [1, 2, 3])], ts_sent = [], ts_nbis = []\<rparr>"

theorem tftp_download_complete_witness:
  "\<exists>s' packets. tftp_handle (\<lambda>_. None) ''c'' ([0, 1] @ [97] @ [0] @ [111] @ [0] @ []) demo_server = (Inr (), s') \<and>
    ts_sent s' = map (Pair ''c'') packets \<and> concat (map (drop 4) packets) = [1, 2, 3]"
proof -
  have stored: "dget (ts_files demo_server) (path_parts (safe_join (ts_root demo_server) (map (\<lambda>b. char_of (unat b)) [97 :: byte]))) =
      Some [1, 2, 3]" by code_simp
  have "ascii [97]" by code_simp
  from tftp_download_complete [OF _ _ this stored, where mode = "[111]" and dec = "\<lambda>_. None" and client = "''c''" and rest = "[]"]
  show ?thesis by (auto simp: BLOCKSIZE_def demo_server_def)
qed

section \<open>Uploads\<close>

text \<open>What a request can change: no file but that of the upload in progress, which it appends to.\<close>

definition same_setting :: "tftp_server \<Rightarrow> tftp_server \<Rightarrow> bool" where
  "same_setting s t \<longleftrightarrow> ts_prefix t = ts_prefix s \<and> ts_cwd t = ts_cwd s"

definition stored :: "tftp_server \<Rightarrow> byte list \<Rightarrow> tftp_server \<Rightarrow> bool" where
  "stored s bs t \<longleftrightarrow> same_setting s t \<and> (ts_files t = ts_files s \<or>
     (\<exists>filename. ts_filename s = Some filename \<and> ts_files t = ts_files (append_file (upload_path s filename) bs s)))"

lemma same_setting_simps [simp]:
  "same_setting s s" "same_setting s (t\<lparr>ts_sent := x\<rparr>) = same_setting s t" "same_setting s (t\<lparr>ts_nbis := y\<rparr>) = same_setting s t"
  "same_setting s (t\<lparr>ts_filename := z\<rparr>) = same_setting s t" "same_setting s (append_file path bs t) = same_setting s t"
  by (simp_all add: same_setting_def append_file_def)

lemma stored_simps [simp]:
  "stored s bs s" "stored s bs (t\<lparr>ts_sent := x\<rparr>) = stored s bs t" "stored s bs (t\<lparr>ts_nbis := y\<rparr>) = stored s bs t"
  "stored s bs (t\<lparr>ts_filename := z\<rparr>) = stored s bs t"
  by (simp_all add: stored_def)

lemma keeps_simple [simp, intro]:
  "keeps_inv (stored s bs) (sendto client packet)" "keeps_inv (stored s bs) (collect_nbi client nbi)"
  "keeps_inv (stored s bs) (pack_H n)" "keeps_inv (stored s bs) (unpack_H u)" "keeps_inv (stored s bs) (decode_utf8 dec v)"
  "keeps_inv (stored s bs) (parse_rrq_wrq_packet data)" "keeps_inv (stored s bs) (handle_wrq client filename)"
  by (auto simp: sendto_def collect_nbi_def pack_H_def unpack_H_def decode_utf8_def parse_rrq_wrq_packet_def handle_wrq_def Let_def
     intro!: keeps_smod keeps_sbind split: option.split)

lemma send_blocks_keeps: "keeps_inv (stored s bs) (send_blocks client i content)"
proof (induction client i content rule: send_blocks.induct)
  case (1 client i content)
  then show ?case by (subst send_blocks.simps) (auto intro!: keeps_sbind)
qed

lemma handle_rrq_keeps: "keeps_inv (stored s bs) (handle_rrq client filename)"
  unfolding handle_rrq_def by (intro keeps_sbind keeps_sget) (auto intro: send_blocks_keeps split: option.split)

text \<open>From a known state: an action that keeps what is stored, and one that is bound after reading.\<close>

lemma keeps_from: "keeps_inv (stored s bs) m \<Longrightarrow> stored s bs t \<Longrightarrow> stored s bs (snd (m t))"
  by (simp add: keeps_inv_iff)

lemma handle_data_stores: "stored s (drop 4 data) (snd (handle_data dec client data s))"
proof (cases "length (take 2 (drop 2 data)) = 2 \<and> (\<exists>b bs. ts_filename s = Some (b # bs))")
  case True
  then obtain b bs where name: "ts_filename s = Some (b # bs)" by blast
  let ?t = "append_file (upload_path s (b # bs)) (drop 4 data) s"
  let ?rest = "sbind (decode_utf8 dec data) (\<lambda>indicator_data. sbind (decode_utf8 dec (b # bs)) (\<lambda>indicator_filename.
    sbind (sendto client ([0, 4] @ take 2 (drop 2 data))) (\<lambda>_.
    collect_nbi client (NbiData (drop 4 indicator_data) (Some indicator_filename)))))"
  have "handle_data dec client data s = ?rest ?t"
    using True name by (simp add: handle_data_def unpack_H_def sbind_def sret_def sget_def smod_def)
  moreover have "stored s (drop 4 data) ?t" using name by (auto simp: stored_def)
  moreover have "keeps_inv (stored s (drop 4 data)) ?rest" by (intro keeps_sbind keeps_simple)
  ultimately show ?thesis by (simp add: keeps_from)
next
  case False
  have idle: "keeps_inv (stored s (drop 4 data)) (sbind (decode_utf8 dec data) (\<lambda>indicator_data.
      collect_nbi client (NbiData (drop 4 indicator_data) None)))" by (intro keeps_sbind keeps_simple)
  show ?thesis
  proof (cases "length (take 2 (drop 2 data)) = 2")
    case True
    then have "ts_filename s = None \<or> ts_filename s = Some []" using False by (cases "ts_filename s"; cases "the (ts_filename s)") auto
    then have "handle_data dec client data s = sbind (decode_utf8 dec data) (\<lambda>indicator_data.
        collect_nbi client (NbiData (drop 4 indicator_data) None)) s"
      using True by (auto simp: handle_data_def unpack_H_def sbind_def [of "sret x" for x] sbind_def [of "sget f" for f] sret_def sget_def)
    then show ?thesis using keeps_from [OF idle] by simp
  next
    case False
    then have "unpack_H (take 2 (drop 2 data)) = sraise StructError" by (simp only: unpack_H_def if_False)
    then show ?thesis by (simp add: handle_data_def sbind_def sraise_def)
  qed
qed

lemma tftp_handle_stores: "stored s (drop 4 data) (snd (tftp_handle dec client data s))"
proof (cases "data \<noteq> [] \<and> take 2 data = [0, 3]")
  case True
  then show ?thesis using handle_data_stores [of s data dec client] by (simp add: tftp_handle_def)
next
  case False
  have "keeps_inv (stored s (drop 4 data)) (tftp_handle dec client data)"
    unfolding tftp_handle_def Let_def using False
    by (auto intro!: keeps_sbind handle_rrq_keeps)
  then show ?thesis by (simp add: keeps_from)
qed

lemma stored_elsewhere:
  assumes "stored s bs t" and "dget (ts_files t) path \<noteq> dget (ts_files s) path" and "CHR ''/'' \<notin> set (ts_prefix s)"
  shows "\<exists>name. path = path_parts (ts_cwd s) @ [ts_prefix s @ ''_'' @ quote name]"
  using assms by (auto simp: stored_def append_file_def dict_simps upload_path_eq split: if_splits)

text \<open>Uploads stay in the working directory: whatever requests arrive, in whatever order and however malformed,
  every file that is not as before is an entry of the working directory itself, whose name is the configured prefix,
  an underscore and the quoted name of some upload, without a slash.
\<close>

theorem tftp_writes_confined:
  assumes "CHR ''/'' \<notin> set (ts_prefix s)" and "dget (ts_files (tftp_serve dec requests s)) path \<noteq> dget (ts_files s) path"
  shows "\<exists>name. path = path_parts (ts_cwd s) @ [ts_prefix s @ ''_'' @ quote name] \<and> CHR ''/'' \<notin> set (quote name)"
proof -
  have "\<exists>name. path = path_parts (ts_cwd s) @ [ts_prefix s @ ''_'' @ quote name]" using assms
  proof (induction requests arbitrary: s)
    case (Cons request requests)
    obtain client data where request: "request = (client, data)" by (cases request)
    let ?t = "snd (tftp_handle dec client data s)"
    have step: "stored s (drop 4 data) ?t" by (rule tftp_handle_stores)
    show ?case
    proof (cases "dget (ts_files ?t) path = dget (ts_files s) path")
      case True
      then show ?thesis using Cons.IH [of ?t] Cons.prems step by (simp add: request stored_def same_setting_def)
    qed (rule stored_elsewhere [OF step _ Cons.prems(1)])
  qed simp
  moreover have "CHR ''/'' \<notin> set (quote name)" for name using quote_byte_plain by (simp add: quote_def)
  ultimately show ?thesis by blast
qed

definition demo_upload :: tftp_server where
  "demo_upload = demo_server\<lparr>ts_filename := Some [47]\<rparr>"

text \<open>A DATA packet, its block and its acknowledgement.\<close>

definition data_packet :: "byte \<times> byte \<times> byte list \<Rightarrow> byte list" where
  "data_packet = (\<lambda>(hi, lo, block). [0, 3, hi, lo] @ block)"

definition decodes :: "(byte list \<Rightarrow> string option) \<Rightarrow> byte list \<Rightarrow> bool" where
  "decodes dec bs \<longleftrightarrow> ascii bs \<or> dec bs \<noteq> None"

definition uploaded :: "tftp_server \<Rightarrow> byte list \<Rightarrow> byte list" where
  "uploaded s filename = (case dget (ts_files s) (upload_path s filename) of Some bs \<Rightarrow> bs | None \<Rightarrow> [])"

lemma decode_utf8_cases:
  "decodes dec bs \<Longrightarrow> \<exists>text. decode_utf8 dec bs = sret text"
  "\<not> decodes dec bs \<Longrightarrow> decode_utf8 dec bs = sraise DecodeError"
  by (auto simp: decodes_def decode_utf8_def ascii_def split: option.split)

lemma data_packet_stored:
  assumes "ts_filename s = Some filename" and "filename \<noteq> []"
  shows "\<exists>t nbis. snd (tftp_handle dec client (data_packet (hi, lo, block)) s) = t\<lparr>ts_nbis := nbis\<rparr> \<and>
    t = (append_file (upload_path s filename) block s)\<lparr>ts_sent := ts_sent s @
      (if decodes dec (data_packet (hi, lo, block)) \<and> decodes dec filename then [(client, [0, 4, hi, lo])] else [])\<rparr>"
proof -
  obtain b bs where f: "filename = b # bs" using assms(2) by (cases filename) auto
  let ?t = "append_file (upload_path s filename) block s"
  have run: "tftp_handle dec client (data_packet (hi, lo, block)) s =
      sbind (decode_utf8 dec (data_packet (hi, lo, block))) (\<lambda>d. sbind (decode_utf8 dec filename) (\<lambda>f.
        sbind (sendto client [0, 4, hi, lo]) (\<lambda>_. collect_nbi client (NbiData (drop 4 d) (Some f))))) ?t"
    using assms(1) by (simp add: tftp_handle_def handle_data_def data_packet_def unpack_H_def f
      sbind_def [of "sret x" for x] sbind_def [of "sget g" for g] sbind_def [of "smod g" for g] sret_def sget_def smod_def)
  have t: "ts_sent ?t = ts_sent s" "ts_nbis ?t = ts_nbis s" by (simp_all add: append_file_def)
  have same: "?t = ?t\<lparr>ts_sent := ts_sent s, ts_nbis := ts_nbis s\<rparr>" by (simp flip: t)
  consider "decodes dec (data_packet (hi, lo, block))" "decodes dec filename"
    | "\<not> decodes dec (data_packet (hi, lo, block))" | "decodes dec (data_packet (hi, lo, block))" "\<not> decodes dec filename" by blast
  then show ?thesis
  proof cases
    case 1
    then obtain d f where "decode_utf8 dec (data_packet (hi, lo, block)) = sret d" "decode_utf8 dec filename = sret f"
      using decode_utf8_cases(1) by blast
    then show ?thesis using 1 by (simp add: run sbind_def sret_def sendto_def collect_nbi_def smod_def t) blast
  next
    case 2
    then show ?thesis using same by (simp add: run decode_utf8_cases(2) sbind_def sraise_def) blast
  next
    case 3
    then obtain d where "decode_utf8 dec (data_packet (hi, lo, block)) = sret d" using decode_utf8_cases(1) by blast
    then show ?thesis using 3 same by (simp add: run decode_utf8_cases(2) sbind_def sret_def sraise_def) blast
  qed
qed

theorem tftp_writes_confined_witness:
  "\<exists>name. upload_path demo_upload [47] = path_parts (ts_cwd demo_upload) @ [ts_prefix demo_upload @ ''_'' @ quote name] \<and>
    CHR ''/'' \<notin> set (quote name)"
proof (rule tftp_writes_confined [where dec = "\<lambda>_. None" and requests = "[(''c'', data_packet (0, 1, [7]))]"])
  show "CHR ''/'' \<notin> set (ts_prefix demo_upload)" by (simp add: demo_upload_def demo_server_def)
  have "dget (ts_files (tftp_serve (\<lambda>_. None) [(''c'', data_packet (0, 1, [7]))] demo_upload)) (upload_path demo_upload [47]) \<noteq> None"
    using data_packet_stored [of demo_upload "[47]" "\<lambda>_. None" "''c''" 0 1 "[7]"]
    by (auto simp: demo_upload_def append_file_def dict_simps)
  moreover have "dget (ts_files demo_upload) (upload_path demo_upload [47]) = None"
    by (simp add: upload_path_eq demo_upload_def demo_server_def dget_def path_parts_def)
  ultimately show "dget (ts_files (tftp_serve (\<lambda>_. None) [(''c'', data_packet (0, 1, [7]))] demo_upload)) (upload_path demo_upload [47]) \<noteq>
    dget (ts_files demo_upload) (upload_path demo_upload [47])" by simp
qed

lemma uploaded_simps [simp]:
  "ts_filename (append_file path bs s) = ts_filename s" "ts_sent (append_file path bs s) = ts_sent s"
  "upload_path (append_file path bs s) = upload_path s" "upload_path (s\<lparr>ts_sent := x\<rparr>) = upload_path s"
  "upload_path (s\<lparr>ts_nbis := y\<rparr>) = upload_path s" "uploaded (s\<lparr>ts_sent := x\<rparr>) = uploaded s" "uploaded (s\<lparr>ts_nbis := y\<rparr>) = uploaded s"
  by (simp_all add: append_file_def upload_path_def [abs_def] uploaded_def [abs_def])

lemma uploaded_append: "uploaded (append_file (upload_path s filename) bs s) filename = uploaded s filename @ bs"
  by (auto simp: uploaded_def upload_path_def append_file_def dict_simps)

text \<open>An upload is stored as it arrives: once a write request has named a file, any sequence of DATA packets, from
  whatever client, appends exactly their blocks, in order of arrival, to the file of that upload; a packet
  is acknowledged, with its own block number, exactly if it and the name are text.
\<close>

theorem tftp_upload_stored:
  assumes "ts_filename s = Some filename" and "filename \<noteq> []"
  shows "uploaded (tftp_serve dec (map (\<lambda>(client, p). (client, data_packet p)) packets) s) filename =
      uploaded s filename @ concat (map (\<lambda>(client, hi, lo, block). block) packets) \<and>
    ts_sent (tftp_serve dec (map (\<lambda>(client, p). (client, data_packet p)) packets) s) = ts_sent s @
      concat (map (\<lambda>(client, hi, lo, block). if decodes dec (data_packet (hi, lo, block)) \<and> decodes dec filename
        then [(client, [0, 4, hi, lo])] else []) packets)"
  using assms(1)
proof (induction packets arbitrary: s)
  case (Cons packet packets)
  obtain client hi lo block where packet: "packet = (client, hi, lo, block)" by (cases packet) auto
  obtain t nbis where t: "snd (tftp_handle dec client (data_packet (hi, lo, block)) s) = t\<lparr>ts_nbis := nbis\<rparr>"
    "t = (append_file (upload_path s filename) block s)\<lparr>ts_sent := ts_sent s @
      (if decodes dec (data_packet (hi, lo, block)) \<and> decodes dec filename then [(client, [0, 4, hi, lo])] else [])\<rparr>"
    using data_packet_stored [OF Cons.prems assms(2)] by metis
  have "ts_filename (t\<lparr>ts_nbis := nbis\<rparr>) = Some filename" using Cons.prems by (simp add: t(2))
  from Cons.IH [OF this] show ?case by (simp add: packet t uploaded_append)
qed simp

text \<open>Binary data is stored and never acknowledged.\<close>

lemma binary_block_not_acknowledged:
  assumes "ts_filename s = Some filename" and "filename \<noteq> []" and "\<not> decodes dec (data_packet (hi, lo, block))"
  shows "ts_sent (snd (tftp_handle dec client (data_packet (hi, lo, block)) s)) = ts_sent s"
  using data_packet_stored [OF assms(1,2), of dec client hi lo block] assms(3) by auto

theorem tftp_upload_stored_witness:
  "uploaded (tftp_serve (\<lambda>_. None) (map (\<lambda>(client, p). (client, data_packet p)) [(''c'', 0, 1, [7]), (''d'', 0, 1, [200])]) demo_upload) [47] =
    uploaded demo_upload [47] @ concat (map (\<lambda>(client, hi, lo, block). block) [(''c'', 0, 1, [7]), (''d'', 0 :: byte, 1 :: byte, [200])])"
  by (rule tftp_upload_stored [THEN conjunct1]) (simp_all add: demo_upload_def)

end
