(* ===== verification/ProxyTaste.thy ===== *)
theory ProxyTaste
  imports PyText Diverter
begin

text \<open>
  How the proxy listener finds the service for a connection it knows nothing about: the TLS detector
  (\<open>fakenet/listeners/ssl_utils/ssl_detector.py\<close>), the \<open>taste\<close> methods of the fake services and
  \<open>get_top_listener\<close> of \<open>fakenet/listeners/ProxyListener.py\<close>. Bytes are characters here. The parser of dnslib is a
  parameter that says which data it accepts; whether bytes are UTF-8 is another, and a decoded text is known by its bytes.
\<close>

section \<open>Bytes\<close>

text \<open>\<open>bytes.lstrip()\<close> strips ASCII white space.\<close>

definition byte_space :: "char \<Rightarrow> bool" where
  "byte_space c \<longleftrightarrow> (9 \<le> code c \<and> code c \<le> 13) \<or> code c = 32"

definition blstrip :: "string \<Rightarrow> string" where
  "blstrip data = dropWhile byte_space data"

definition byte :: "nat \<Rightarrow> char" where
  "byte n = char_of n"

section \<open>TLS detection\<close>

definition ssl_versions :: "nat list" where
  "ssl_versions = [768, 769, 770, 771]"

definition ssl_content_types :: "nat list" where
  "ssl_content_types = [20, 21, 22, 23, 24]"

definition handshake_message_types :: "nat list" where
  "handshake_message_types = [0, 1, 2, 4, 11, 12, 13, 14, 15, 16, 20]"

text \<open>In the branch of SSLv2 the code looks the byte up among the names of the message types, which are texts.\<close>

definition handshake_message_names :: "string list" where
  "handshake_message_names = [''HelloRequest'', ''ClientHello'', ''ServerHello'', ''NewSessionTicket'', ''Certificate'', ''ServerKeyExchange'',
     ''CertificateRequest'', ''ServerHelloDone'', ''CertificateVerify'', ''ClientKeyExchange'', ''Finished'']"

datatype key = IntKey nat | StrKey string

definition looks_like_ssl :: "string \<Rightarrow> bool" where
  "looks_like_ssl data =
     (if length data < 10 then False
      else if code (data ! 0) = 128 then IntKey (code (data ! 2)) \<in> set (map StrKey handshake_message_names)
      else if code (data ! 0) \<notin> set ssl_content_types then False
      else if code (data ! 0) = 22 then code (data ! 5) \<in> set handshake_message_types
      else code (data ! 1) * 256 + code (data ! 2) \<in> set ssl_versions)"

section \<open>Tasting\<close>

datatype taste_exn = TasteTypeError | TasteDecodeError | TasteAttributeError

text \<open>The classes of listeners; \<open>OtherListener\<close> is one without a \<open>taste\<close>, as the proxy itself.\<close>

datatype listener_kind =
    DNSListener | FTPListener | HTTPListener | IRCListener | POPListener | RawListener | SMTPListener | TFTPListener
  | DomainEgressRelay | OtherListener

record proxied_listener =
  pl_kind :: listener_kind
  pl_name :: string
  pl_port :: int

text \<open>How many of the commands the data starts with.\<close>

definition hits :: "string list \<Rightarrow> string \<Rightarrow> nat" where
  "hits commands data = length (filter (starts_with data) commands)"

definition on_port :: "int option \<Rightarrow> int list \<Rightarrow> nat" where
  "on_port dest ports = (case dest of None \<Rightarrow> 0 | Some p \<Rightarrow> if p \<in> set ports then 1 else 0)"

definition http_methods :: "string list" where
  "http_methods = [''GET'', ''HEAD'', ''POST'', ''PUT'', ''DELETE'', ''TRACE'', ''OPTIONS'', ''CONNECT'', ''PATCH'']"

definition http_taste :: "string \<Rightarrow> int option \<Rightarrow> nat" where
  "http_taste data dest = on_port dest [80, 443] + 2 * hits http_methods (blstrip data)"

definition smtp_commands :: "string list" where
  "smtp_commands = [''HELO'', ''EHLO'', ''MAIL FROM'', ''RCPT TO'', ''TURN'', ''ATRN'', ''SIZE'', ''ETRN'', ''PIPELINING'', ''CHUNKING'',
     ''DATA'', ''DSN'', ''RSET'', ''VRFY'', ''HELP'', ''QUIT'', ''X-EXPS GSSAPI'', ''X-EXPS=LOGIN'', ''X-EXCH50'', ''X-LINK2STATE'']"

definition smtp_taste :: "string \<Rightarrow> int option \<Rightarrow> nat" where
  "smtp_taste data dest = on_port dest [25, 587, 465] + 2 * hits smtp_commands (blstrip data)"

definition pop_commands :: "string list" where
  "pop_commands = [''QUIT'', ''STAT'', ''LIST'', ''RETR'', ''DELE'', ''NOOP'', ''RSET'', ''TOP'', ''UIDL'', ''USER'', ''PASS'', ''APOP'']"

definition pop_taste :: "string \<Rightarrow> int option \<Rightarrow> nat" where
  "pop_taste data dest = on_port dest [110] + 2 * hits pop_commands (blstrip data)"

definition ftp_commands :: "string list" where
  "ftp_commands = [''abor'', ''acct'', ''allo'', ''appe'', ''cwd'', ''dele'', ''help'', ''list'', ''mode'', ''nlst'', ''noop'', ''pass'',
     ''pasv'', ''port'', ''quit'', ''rein'', ''rest'', ''retr'', ''rnfr'', ''rnto'', ''site'', ''stat'', ''stor'', ''stru'', ''type'', ''user'',
     ''cdup'', ''mkd'', ''pwd'', ''rmd'', ''smnt'', ''stou'', ''syst'']"

definition ftp_taste :: "string \<Rightarrow> int option \<Rightarrow> nat" where
  "ftp_taste data dest = on_port dest [21] + (if list_ex (starts_with (lower (blstrip data))) ftp_commands then 1 else 0)"

definition irc_commands :: "string list" where
  "irc_commands = [''ADMIN'', ''AWAY'', ''CAP'', ''CNOTICE'', ''CPRIVMSG'', ''CONNECT'', ''DIE'', ''ENCAP'', ''ERROR'', ''HELP'', ''INFO'',
     ''INVITE'', ''ISON'', ''JOIN'', ''KICK'', ''KILL'', ''KNOCK'', ''LINKS'', ''LIST'', ''LUSERS'', ''MODE'', ''MOTD'', ''NAMES'', ''NAMESX'',
     ''NICK'', ''NOTICE'', ''OPER'', ''PART'', ''PASS'', ''PING'', ''PONG'', ''PRIVMSG'', ''QUIT'', ''REHASH'', ''RESTART'', ''RULES'',
     ''SERVER'', ''SERVICE'', ''SERVLIST'', ''SQUERY'', ''SQUIT'', ''SETNAME'', ''SILENCE'', ''STATS'', ''SUMMON'', ''TIME'', ''TOPIC'',
     ''TRACE'', ''UHNAMES'', ''USER'', ''USERHOST'', ''USERIP'', ''USERS'', ''VERSION'', ''WALLOPS'', ''WATCH'', ''WHO'', ''WHOIS'', ''WHOWAS'']"

text \<open>The commands are texts: \<open>startswith\<close> raises on data that is still bytes. The list of ports has the range 6660 to 7000
  as one element, which no port equals.\<close>

definition irc_taste :: "(string \<Rightarrow> bool) \<Rightarrow> string \<Rightarrow> int option \<Rightarrow> taste_exn + nat" where
  "irc_taste utf8 data dest =
     (let confidence = on_port dest [194, 6667, 8001]; data' = blstrip data in
      if starts_with data' '':'' then
        (let prefix = hd (split_on CHR '' '' data') in
         if utf8 prefix then Inr (confidence + 2 * hits irc_commands prefix) else Inl TasteDecodeError)
      else Inl TasteTypeError)"

text \<open>Unless the data is a read request the code calls the bytes, which raises.\<close>

definition tftp_taste :: "string \<Rightarrow> int option \<Rightarrow> taste_exn + nat" where
  "tftp_taste data dest =
     (let confidence = on_port dest [69]; max_rrq_wrq_len = 128 + length ''netascii'' + 4; min_rrq_wrq_len = 6 in
      if starts_with (blstrip data) [byte 0, byte 1] then
        Inr (if min_rrq_wrq_len \<le> length data \<and> length data \<le> max_rrq_wrq_len then confidence + 2 else confidence)
      else Inl TasteTypeError)"

definition dns_taste :: "(string \<Rightarrow> bool) \<Rightarrow> string \<Rightarrow> int option \<Rightarrow> nat" where
  "dns_taste parses data dest = (if parses data then on_port dest [53] + 2 else on_port dest [53])"

record taste_env =
  te_dns :: "string \<Rightarrow> bool"
  te_utf8 :: "string \<Rightarrow> bool"

fun taste :: "taste_env \<Rightarrow> listener_kind \<Rightarrow> string \<Rightarrow> int option \<Rightarrow> taste_exn + nat" where
  "taste env DNSListener data dest = Inr (dns_taste (te_dns env) data dest)"
| "taste env FTPListener data dest = Inr (ftp_taste data dest)"
| "taste env HTTPListener data dest = Inr (http_taste data dest)"
| "taste env IRCListener data dest = irc_taste (te_utf8 env) data dest"
| "taste env POPListener data dest = Inr (pop_taste data dest)"
| "taste env RawListener data dest = Inr 1"
| "taste env SMTPListener data dest = Inr (smtp_taste data dest)"
| "taste env TFTPListener data dest = tftp_taste data dest"
| "taste env DomainEgressRelay data dest = Inr 0"
| "taste env OtherListener data dest = Inl TasteAttributeError"

section \<open>Choosing the listener\<close>

fun taste_loop :: "taste_env \<Rightarrow> string \<Rightarrow> int option \<Rightarrow> proxied_listener list \<Rightarrow> proxied_listener option \<times> nat \<Rightarrow> proxied_listener option" where
  "taste_loop env data dest [] (top_listener, top_confidence) = top_listener"
| "taste_loop env data dest (l # listeners) (top_listener, top_confidence) =
     (case taste env (pl_kind l) data dest of
        Inl _ \<Rightarrow> taste_loop env data dest listeners (top_listener, top_confidence)
      | Inr confidence \<Rightarrow> if confidence > top_confidence then taste_loop env data dest listeners (Some l, confidence)
          else taste_loop env data dest listeners (top_listener, top_confidence))"

definition get_top_listener :: "taste_env \<Rightarrow> string \<Rightarrow> proxied_listener list \<Rightarrow> diverter option \<Rightarrow> string \<Rightarrow> int \<Rightarrow> string \<Rightarrow>
    proxied_listener option" where
  "get_top_listener env data listeners diverter orig_src_ip orig_src_port p = (case diverter of
       None \<Rightarrow> None
     | Some d \<Rightarrow> taste_loop env data (getOriginalDestPort d orig_src_ip orig_src_port p) listeners (None, 0))"

section \<open>The choice is the best taste\<close>

definition confidence :: "taste_env \<Rightarrow> string \<Rightarrow> int option \<Rightarrow> proxied_listener \<Rightarrow> nat" where
  "confidence env data dest l = (case taste env (pl_kind l) data dest of Inl _ \<Rightarrow> 0 | Inr c \<Rightarrow> c)"

text \<open>The reference: the first listener whose confidence is the highest, if any is confident at all.\<close>

definition best_listener :: "taste_env \<Rightarrow> string \<Rightarrow> int option \<Rightarrow> proxied_listener list \<Rightarrow> proxied_listener option" where
  "best_listener env data dest listeners = (let m = fold max (map (confidence env data dest) listeners) 0 in
     if m = 0 then None else find (\<lambda>l. confidence env data dest l = m) listeners)"

lemma fold_max_ge: "(a :: nat) \<le> fold max xs a"
proof (induction xs arbitrary: a)
  case (Cons x xs)
  show ?case using Cons.IH [of "max x a"] by simp
qed simp

lemma fold_max_member: "x \<in> set xs \<Longrightarrow> (x :: nat) \<le> fold max xs a"
proof (induction xs arbitrary: a)
  case (Cons y xs)
  then show ?case using fold_max_ge [of "max y a" xs] by auto
qed simp

lemma taste_loop_step:
  "taste_loop env data dest (l # ls) (chosen, c) = (if confidence env data dest l > c
     then taste_loop env data dest ls (Some l, confidence env data dest l) else taste_loop env data dest ls (chosen, c))"
  by (simp add: confidence_def split: sum.split)

lemma taste_loop_best:
  "taste_loop env data dest ls (chosen, c) = (let m = fold max (map (confidence env data dest) ls) c in
     if m = c then chosen else find (\<lambda>l. confidence env data dest l = m) ls)"
proof (induction ls arbitrary: chosen c)
  case (Cons l ls)
  let ?c = "confidence env data dest l" and ?m = "\<lambda>c. fold max (map (confidence env data dest) ls) c"
  show ?case
  proof (cases "?c > c")
    case True
    then have "max ?c c = ?c" by simp
    moreover have "?c \<le> ?m ?c" by (rule fold_max_ge)
    ultimately show ?thesis using True by (simp only: taste_loop_step Cons.IH if_True) (auto simp: Let_def)
  next
    case False
    then have "max ?c c = c" by simp
    moreover have "c \<le> ?m c" by (rule fold_max_ge)
    ultimately show ?thesis using False by (simp only: taste_loop_step Cons.IH if_False) (auto simp: Let_def)
  qed
qed simp

lemma get_top_listener_eq:
  "get_top_listener env data listeners (Some d) ip src_port p =
    best_listener env data (getOriginalDestPort d ip src_port p) listeners"
  by (simp add: get_top_listener_def best_listener_def taste_loop_best)

text \<open>C35. The proxy picks the best taste: with a diverter, \<open>get_top_listener\<close> is the first of the running listeners whose
  confidence is highest, where one whose \<open>taste\<close> raises counts as not confident, and nothing if none is confident.
\<close>

theorem top_listener_best:
  "get_top_listener env data listeners (Some d) ip src_port p =
    best_listener env data (getOriginalDestPort d ip src_port p) listeners"
  by (rule get_top_listener_eq)

lemma best_listener_Some:
  assumes "l \<in> set listeners" and "confidence env data dest l > 0"
  shows "\<exists>best. best_listener env data dest listeners = Some best \<and> best \<in> set listeners \<and>
    confidence env data dest l \<le> confidence env data dest best"
proof -
  let ?m = "fold max (map (confidence env data dest) listeners) 0"
  have ge: "confidence env data dest l \<le> ?m" using assms(1) by (intro fold_max_member) simp
  have "?m = 0 \<or> ?m \<in> set (map (confidence env data dest) listeners)"
    using Max.set_eq_fold [of 0 "map (confidence env data dest) listeners"] Max_in [of "set (0 # map (confidence env data dest) listeners)"]
    by auto
  then have "\<exists>best \<in> set listeners. confidence env data dest best = ?m" using ge assms(2) by auto
  then obtain best where "find (\<lambda>l. confidence env data dest l = ?m) listeners = Some best"
    by (cases "find (\<lambda>l. confidence env data dest l = ?m) listeners") (auto simp: find_None_iff)
  then show ?thesis using ge assms(2) by (auto simp: best_listener_def Let_def find_Some_iff)
qed

text \<open>With a raw listener every connection is served by someone.\<close>

lemma raw_listener_fallback:
  assumes "l \<in> set listeners" and "pl_kind l = RawListener"
  shows "get_top_listener env data listeners (Some d) ip src_port p \<noteq> None"
  using best_listener_Some [OF assms(1)] assms(2) by (fastforce simp: get_top_listener_eq confidence_def)

section \<open>How confident a taste can be\<close>

fun prefix_free :: "string list \<Rightarrow> bool" where
  "prefix_free [] = True"
| "prefix_free (c # cs) = (list_all (\<lambda>d. \<not> starts_with c d \<and> \<not> starts_with d c) cs \<and> prefix_free cs)"

lemma starts_with_both: "starts_with data c \<Longrightarrow> starts_with data d \<Longrightarrow> starts_with c d \<or> starts_with d c"
  by (auto simp: starts_with_iff append_eq_append_conv2)

lemma hits_le: "prefix_free cs \<Longrightarrow> hits cs data \<le> 1"
proof (induction cs)
  case (Cons c cs)
  have "filter (starts_with data) cs = []" if "starts_with data c"
    using Cons.prems starts_with_both [OF that] by (auto simp: filter_empty_conv list_all_iff)
  then show ?case using Cons by (auto simp: hits_def)
qed (simp add: hits_def)

lemma commands_prefix_free: "prefix_free http_methods" "prefix_free smtp_commands" "prefix_free pop_commands"
  by code_simp+

lemma irc_commands_no_colon: "list_all (\<lambda>c. \<not> starts_with c '':'' \<and> c \<noteq> []) irc_commands"
  by code_simp

lemma hits_irc_prefix: "hits irc_commands (CHR '':'' # w) = 0"
proof -
  have "\<not> starts_with (CHR '':'' # w) c" if "c \<in> set irc_commands" for c
    using irc_commands_no_colon that by (cases c) (auto simp: list_all_iff starts_with_def)
  then show ?thesis by (simp add: hits_def filter_empty_conv)
qed

lemma split_on_head: "x \<noteq> c \<Longrightarrow> \<exists>w. hd (split_on c (x # xs)) = x # w"
  by (cases "split_on c xs") auto

text \<open>What the code makes of the two services whose \<open>taste\<close> raises: IRC is never recognised by its commands, TFTP by
  read requests only, and SSLv2 not at all.\<close>

lemma irc_never_recognised: "irc_taste utf8 data dest = Inr c \<Longrightarrow> c \<le> 1"
proof -
  assume *: "irc_taste utf8 data dest = Inr c"
  then obtain w where "blstrip data = CHR '':'' # w"
    by (auto simp: irc_taste_def Let_def starts_with_iff split: if_splits)
  moreover obtain v where "hd (split_on CHR '' '' (CHR '':'' # w)) = CHR '':'' # v" using split_on_head [of "CHR '':''" "CHR '' ''" w] by auto
  ultimately show ?thesis using *
    by (auto simp: irc_taste_def Let_def hits_irc_prefix on_port_def split: if_splits option.splits)
qed

lemma tftp_only_reads: "tftp_taste data dest = Inr c \<Longrightarrow> starts_with (blstrip data) [byte 0, byte 1]"
  by (auto simp: tftp_taste_def Let_def split: if_splits)

lemma sslv2_never_detected: "code (data ! 0) = 128 \<Longrightarrow> \<not> looks_like_ssl data"
  by (auto simp: looks_like_ssl_def)

lemma on_port_le: "on_port dest ports \<le> 1"
  by (simp add: on_port_def split: option.split)

lemma command_taste_le: "prefix_free cs \<Longrightarrow> on_port dest ports + 2 * hits cs data \<le> 3"
  using hits_le [of cs data] on_port_le [of dest ports] by simp

text \<open>No taste is more confident than three: one for the port and two for the data, whatever the data is; the lists
  of commands are such that data never starts with two of them.
\<close>

theorem taste_bounded:
  assumes "taste env kind data dest = Inr c"
  shows "c \<le> 3"
proof (cases kind)
  case TFTPListener
  then show ?thesis using assms on_port_le [of dest "[69]"] by (auto simp: tftp_taste_def Let_def split: if_splits)
next
  case IRCListener
  then show ?thesis using assms irc_never_recognised [of "te_utf8 env" data dest c] by simp
next
  case DNSListener
  then show ?thesis using assms on_port_le [of dest "[53]"] by (auto simp: dns_taste_def split: if_splits)
next
  case FTPListener
  then show ?thesis using assms on_port_le [of dest "[21]"] by (auto simp: ftp_taste_def split: if_splits)
qed (use assms commands_prefix_free in \<open>auto simp: http_taste_def pop_taste_def smtp_taste_def command_taste_le\<close>)

definition demo_taste_env :: taste_env where
  "demo_taste_env = \<lparr>te_dns = (\<lambda>_. False), te_utf8 = (\<lambda>_. True)\<rparr>"

theorem taste_bounded_witness: "(3 :: nat) \<le> 3 \<and> taste demo_taste_env HTTPListener ''GET / HTTP/1.1'' (Some 80) = Inr 3"
proof -
  have "taste demo_taste_env HTTPListener ''GET / HTTP/1.1'' (Some 80) = Inr 3" by code_simp
  from taste_bounded [OF this] this show ?thesis by simp
qed

section \<open>HTTP requests\<close>

definition incomparable :: "string \<Rightarrow> string list \<Rightarrow> bool" where
  "incomparable m cs \<longleftrightarrow> list_all (\<lambda>c. \<not> starts_with m c \<and> \<not> starts_with c m) cs"

lemma incomparable_not: "incomparable m cs \<Longrightarrow> starts_with data m \<Longrightarrow> c \<in> set cs \<Longrightarrow> \<not> starts_with data c"
  using starts_with_both [of data m c] by (auto simp: incomparable_def list_all_iff)

lemma incomparable_hits: "incomparable m cs \<Longrightarrow> starts_with data m \<Longrightarrow> hits cs data = 0"
  by (simp add: hits_def filter_empty_conv incomparable_not)

definition plain_methods :: "string list" where
  "plain_methods = [''GET'', ''HEAD'', ''POST'', ''PUT'', ''TRACE'', ''OPTIONS'', ''CONNECT'', ''PATCH'']"

lemma methods_incomparable:
  "list_all (\<lambda>m. incomparable m smtp_commands \<and> incomparable m pop_commands \<and> incomparable (lower m) ftp_commands \<and>
     incomparable m [[byte 0, byte 1], '':'']) plain_methods"
  by code_simp

lemma lower_starts_with: "starts_with data m \<Longrightarrow> starts_with (lower data) (lower m)"
  by (auto simp: starts_with_iff)

lemma http_data_elsewhere:
  assumes m: "m \<in> set plain_methods" and data: "starts_with (blstrip data) m" and "\<not> te_dns env data"
    and kind: "kind \<noteq> HTTPListener" and "taste env kind data dest = Inr c"
  shows "c \<le> 1"
proof -
  have inc: "incomparable m smtp_commands" "incomparable m pop_commands" "incomparable (lower m) ftp_commands"
    "incomparable m [[byte 0, byte 1], '':'']" using methods_incomparable m by (auto simp: list_all_iff)
  have none: "hits smtp_commands (blstrip data) = 0" "hits pop_commands (blstrip data) = 0"
    using inc(1,2) data by (simp_all add: incomparable_hits)
  have ftp: "\<not> list_ex (starts_with (lower (blstrip data))) ftp_commands"
    using incomparable_not [OF inc(3) lower_starts_with [OF data]] by (auto simp: list_ex_iff)
  have raises: "\<not> starts_with (blstrip data) [byte 0, byte 1]" "\<not> starts_with (blstrip data) '':''"
    using incomparable_not [OF inc(4) data] by simp_all
  show ?thesis using assms(3-5) none ftp raises on_port_le [of dest "[53]"] on_port_le [of dest "[21]"]
      on_port_le [of dest "[110]"] on_port_le [of dest "[25, 587, 465]"]
    by (cases kind) (auto simp: dns_taste_def ftp_taste_def pop_taste_def smtp_taste_def irc_taste_def tftp_taste_def Let_def)
qed

text \<open>An HTTP request reaches the HTTP service on every port: where an HTTP listener runs, data that begins with any
  method but DELETE, after any white space, and that is not a DNS message is handed to an HTTP listener, whatever other
  listeners run, in whatever order, and whatever the original port was.
\<close>

theorem http_request_routed:
  assumes "m \<in> set plain_methods" and "starts_with (blstrip data) m" and "\<not> te_dns env data"
    and "l \<in> set listeners" and "pl_kind l = HTTPListener"
  shows "\<exists>best. get_top_listener env data listeners (Some d) ip src_port p = Some best \<and> pl_kind best = HTTPListener"
proof -
  let ?dest = "getOriginalDestPort d ip src_port p"
  have "m \<in> set http_methods" using assms(1) by (auto simp: plain_methods_def http_methods_def)
  then have "hits http_methods (blstrip data) \<noteq> 0" using assms(2) by (auto simp: hits_def filter_empty_conv)
  then have l: "confidence env data ?dest l \<ge> 2" using assms(5) by (simp add: confidence_def http_taste_def)
  then obtain best where best: "best_listener env data ?dest listeners = Some best" "confidence env data ?dest best \<ge> 2"
    using best_listener_Some [OF assms(4), of env data ?dest] by fastforce
  have "pl_kind best = HTTPListener"
    using http_data_elsewhere [OF assms(1-3), of "pl_kind best" ?dest] best(2)
    by (fastforce simp: confidence_def split: sum.splits)
  then show ?thesis using best(1) by (simp add: get_top_listener_eq)
qed

theorem http_request_routed_witness:
  "\<forall>d. \<exists>best. get_top_listener demo_taste_env '' GET / HTTP/1.1'' [\<lparr>pl_kind = RawListener, pl_name = ''Raw'', pl_port = 1337\<rparr>,
      \<lparr>pl_kind = HTTPListener, pl_name = ''HTTP'', pl_port = 80\<rparr>] (Some d) ''192.0.2.1'' 40000 ''TCP'' = Some best \<and> pl_kind best = HTTPListener"
  by (intro allI, rule http_request_routed [where m = "''GET''" and l = "\<lparr>pl_kind = HTTPListener, pl_name = ''HTTP'', pl_port = 80\<rparr>"])
     code_simp+

text \<open>A DELETE request is as good a POP command, and goes to the listener that comes first.\<close>

lemma delete_request_tie:
  "best_listener demo_taste_env ''DELETE / HTTP/1.1'' None [\<lparr>pl_kind = POPListener, pl_name = ''POP'', pl_port = 110\<rparr>,
     \<lparr>pl_kind = HTTPListener, pl_name = ''HTTP'', pl_port = 80\<rparr>] = Some \<lparr>pl_kind = POPListener, pl_name = ''POP'', pl_port = 110\<rparr>"
  by code_simp

end
