(* ===== verification/ProxyPump.thy ===== *)
theory ProxyPump
  imports ProxyTaste "HOL-Library.Sublist"
begin

text \<open>
  The TCP side of the proxy listener (\<open>fakenet/listeners/ProxyListener.py\<close>): the first part of \<open>handle\<close>, which finds the
  listener and tells the diverter the new source port, and the two loops that copy between the client and that
  listener through two queues, one in the handler and one in the thread of \<open>ThreadedTCPClientSocket\<close>. The
  loops run concurrently: each receive and each send is one step, and the steps of the two threads interleave
  freely. How many bytes a \<open>send\<close> takes is up to the system; the code does not look at it.
\<close>

section \<open>Finding the listener\<close>

text \<open>\<open>peeked\<close> is what the first \<open>recv\<close> shows, or \<open>None\<close> if it raises; \<open>tls\<close> what the wrapped socket gives first, or \<open>None\<close> if
  wrapping or reading it fails; \<open>new_sport\<close> the port of the connection to the listener. The answer is the listener, whether
  the connection is encrypted, and the data it was chosen by.\<close>

definition tcp_route :: "taste_env \<Rightarrow> proxied_listener list \<Rightarrow> string \<Rightarrow> int \<Rightarrow> string option \<Rightarrow> string option \<Rightarrow> int option \<Rightarrow>
    diverter option \<Rightarrow> diverter option \<times> (proxied_listener \<times> bool \<times> string) option" where
  "tcp_route env listeners orig_src_ip orig_src_port peeked tls new_sport dv =
     (case peeked of None \<Rightarrow> (dv, None)
      | Some data \<Rightarrow>
          if data = [] then (dv, None)
          else if looks_like_ssl data \<and> tls = None then (dv, None)
          else (let first = (if looks_like_ssl data then the tls else data) in
            case get_top_listener env first listeners dv orig_src_ip orig_src_port ''TCP'' of
              None \<Rightarrow> (dv, None)
            | Some l \<Rightarrow> (case new_sport of
                  Some p \<Rightarrow> if p \<noteq> 0 then map_option (mapProxySportToOrigSport ''TCP'' orig_src_port p (looks_like_ssl data)) dv else dv
                | None \<Rightarrow> dv, Some (l, looks_like_ssl data, first))))"

section \<open>Copying\<close>

definition BUF_SZ :: nat where
  "BUF_SZ = 1024"

text \<open>Bytes still to come from the client and from the listener, the two queues, what was sent to each side, and which
  thread runs.\<close>

record proxy_conn =
  px_remote_in :: string
  px_listener_in :: string
  px_remote_q :: "string list"
  px_listener_q :: "string list"
  px_remote_out :: string
  px_listener_out :: string
  px_handler :: bool
  px_client :: bool

text \<open>The data read through TLS is already consumed and goes into the queue; plain data was only peeked at.\<close>

definition proxy_start :: "bool \<Rightarrow> string \<Rightarrow> string \<Rightarrow> string \<Rightarrow> proxy_conn" where
  "proxy_start ssl first rest answer = \<lparr>px_remote_in = (if ssl then rest else first @ rest), px_listener_in = answer,
     px_remote_q = (if ssl then [first] else []), px_listener_q = [], px_remote_out = [], px_listener_out = [],
     px_handler = True, px_client = True\<rparr>"

text \<open>The steps of the handler and of the client thread. With \<open>whole\<close> every send takes all bytes it is given.\<close>

inductive proxy_step :: "bool \<Rightarrow> proxy_conn \<Rightarrow> proxy_conn \<Rightarrow> bool" for whole where
  remote_recv: "px_handler s \<Longrightarrow> px_remote_in s = d @ rest \<Longrightarrow> d \<noteq> [] \<Longrightarrow> length d \<le> BUF_SZ \<Longrightarrow>
    proxy_step whole s (s\<lparr>px_remote_in := rest, px_remote_q := px_remote_q s @ [d]\<rparr>)"
| remote_eof: "px_handler s \<Longrightarrow> px_remote_in s = [] \<Longrightarrow> proxy_step whole s (s\<lparr>px_handler := False\<rparr>)"
| remote_error: "px_handler s \<Longrightarrow> proxy_step whole s (s\<lparr>px_handler := False\<rparr>)"
| remote_send: "px_handler s \<Longrightarrow> px_listener_q s = d # q \<Longrightarrow> n \<le> length d \<Longrightarrow> (whole \<Longrightarrow> n = length d) \<Longrightarrow>
    proxy_step whole s (s\<lparr>px_listener_q := q, px_remote_out := px_remote_out s @ take n d\<rparr>)"
| remote_send_error: "px_handler s \<Longrightarrow> px_listener_q s = d # q \<Longrightarrow>
    proxy_step whole s (s\<lparr>px_listener_q := q, px_handler := False\<rparr>)"
| listener_send: "px_client s \<Longrightarrow> px_remote_q s = d # q \<Longrightarrow> n \<le> length d \<Longrightarrow> (whole \<Longrightarrow> n = length d) \<Longrightarrow>
    proxy_step whole s (s\<lparr>px_remote_q := q, px_listener_out := px_listener_out s @ take n d\<rparr>)"
| listener_send_error: "px_client s \<Longrightarrow> px_remote_q s = d # q \<Longrightarrow>
    proxy_step whole s (s\<lparr>px_remote_q := q, px_client := False\<rparr>)"
| listener_recv: "px_client s \<Longrightarrow> px_listener_in s = d @ rest \<Longrightarrow> d \<noteq> [] \<Longrightarrow> length d \<le> BUF_SZ \<Longrightarrow>
    proxy_step whole s (s\<lparr>px_listener_in := rest, px_listener_q := px_listener_q s @ [d]\<rparr>)"
| listener_eof: "px_client s \<Longrightarrow> px_listener_in s = [] \<Longrightarrow> proxy_step whole s (s\<lparr>px_client := False\<rparr>)"
| listener_error: "px_client s \<Longrightarrow> proxy_step whole s (s\<lparr>px_client := False\<rparr>)"

inductive_cases proxy_stepE: "proxy_step whole s s'"

section \<open>The streams\<close>

text \<open>What was sent is the beginning of what was received, and while the sender runs nothing is missing.\<close>

definition stream_ok :: "string \<Rightarrow> string \<Rightarrow> string list \<Rightarrow> string \<Rightarrow> bool \<Rightarrow> bool" where
  "stream_ok whole_text sent queue waiting running \<longleftrightarrow>
     (\<exists>lost. whole_text = sent @ lost @ concat queue @ waiting \<and> (running \<longrightarrow> lost = []))"

definition conn_ok :: "string \<Rightarrow> string \<Rightarrow> proxy_conn \<Rightarrow> bool" where
  "conn_ok request answer s \<longleftrightarrow>
     stream_ok request (px_listener_out s) (px_remote_q s) (px_remote_in s) (px_client s) \<and>
     stream_ok answer (px_remote_out s) (px_listener_q s) (px_listener_in s) (px_handler s)"

lemma stream_start: "stream_ok (concat queue @ waiting) [] queue waiting running"
  by (auto simp: stream_ok_def)

lemma stream_recv: "stream_ok whole_text sent queue (d @ rest) running \<Longrightarrow> stream_ok whole_text sent (queue @ [d]) rest running"
  by (auto simp: stream_ok_def)

lemma stream_send: "stream_ok whole_text sent (d # queue) waiting True \<Longrightarrow> stream_ok whole_text (sent @ d) queue waiting True"
  by (auto simp: stream_ok_def)

lemma stream_lose: "stream_ok whole_text sent (d # queue) waiting True \<Longrightarrow> stream_ok whole_text sent queue waiting False"
  by (auto simp: stream_ok_def)

lemma stream_stop: "stream_ok whole_text sent queue waiting running \<Longrightarrow> stream_ok whole_text sent queue waiting False"
  by (auto simp: stream_ok_def)

lemma proxy_step_ok: "proxy_step True s s' \<Longrightarrow> conn_ok request answer s \<Longrightarrow> conn_ok request answer s'"
  by (erule proxy_stepE) (auto simp: conn_ok_def dest: stream_recv stream_send stream_lose stream_stop)

lemma proxy_start_ok: "conn_ok (first @ rest) answer (proxy_start ssl first rest answer)"
  using stream_start [of "[first]" rest True] stream_start [of "[]" "first @ rest" True] stream_start [of "[]" answer True]
  by (auto simp: conn_ok_def proxy_start_def)

interpretation proxy_run: invariant_machine "\<lambda>s. s = proxy_start ssl first rest answer" "proxy_step True" "conn_ok (first @ rest) answer"
  for ssl first rest answer
  by unfold_locales (auto intro: proxy_step_ok proxy_start_ok)


text \<open>Everything received can still be delivered: the queue empties without further input.\<close>

lemma queue_drains:
  assumes "px_client s"
  shows "\<exists>s'. (proxy_step True)\<^sup>*\<^sup>* s s' \<and> px_remote_q s' = [] \<and> px_listener_out s' = px_listener_out s @ concat (px_remote_q s) \<and>
    px_client s' \<and> px_remote_in s' = px_remote_in s"
  using assms
proof (induction "px_remote_q s" arbitrary: s)
  case Nil
  then show ?case by (intro exI [of _ s]) simp
next
  case (Cons d q)
  let ?t = "s\<lparr>px_remote_q := q, px_listener_out := px_listener_out s @ take (length d) d\<rparr>"
  have step: "proxy_step True s ?t" using Cons.hyps(2) Cons.prems by (intro proxy_step.listener_send) auto
  obtain s' where s': "(proxy_step True)\<^sup>*\<^sup>* ?t s'" "px_remote_q s' = []" "px_listener_out s' = px_listener_out ?t @ concat (px_remote_q ?t)"
    "px_client s'" "px_remote_in s' = px_remote_in ?t" using Cons.hyps(1) [of ?t] Cons.prems by auto
  have "(proxy_step True)\<^sup>*\<^sup>* s s'" using step s'(1) by (rule converse_rtranclp_into_rtranclp)
  moreover have "px_listener_out s' = px_listener_out s @ concat (px_remote_q s)" using s'(3) Cons.hyps(2) by (simp flip: Cons.hyps(2))
  ultimately show ?case using s' by auto
qed

text \<open>Nothing received is stuck: from every state the two threads can reach, as long as the thread to the listener
  runs, finitely many of its steps alone hand the listener everything received from the client so far.
\<close>

theorem proxy_delivers:
  assumes "(proxy_step True)\<^sup>*\<^sup>* (proxy_start ssl first rest answer) s" and "px_client s"
  shows "\<exists>s'. (proxy_step True)\<^sup>*\<^sup>* s s' \<and> px_listener_out s' @ px_remote_in s = first @ rest"
proof -
  have "px_listener_out s @ concat (px_remote_q s) @ px_remote_in s = first @ rest"
    using proxy_run.reachable_inv [OF refl assms(1)] assms(2) by (auto simp: conn_ok_def stream_ok_def)
  then show ?thesis using queue_drains [OF assms(2)] by (metis append_assoc)
qed

lemma demo_received: "(proxy_step True)\<^sup>*\<^sup>* (proxy_start False ''ab'' ''c'' []) ((proxy_start False ''ab'' ''c'' [])\<lparr>px_remote_in := ''c'', px_remote_q := [''ab'']\<rparr>)"
proof -
  have "proxy_step True (proxy_start False ''ab'' ''c'' []) ((proxy_start False ''ab'' ''c'' [])\<lparr>px_remote_in := ''c'',
      px_remote_q := px_remote_q (proxy_start False ''ab'' ''c'' []) @ [''ab'']\<rparr>)"
    by (rule proxy_step.remote_recv) (simp_all add: proxy_start_def BUF_SZ_def)
  then show ?thesis by (simp add: proxy_start_def r_into_rtranclp)
qed


theorem proxy_delivers_witness:
  "\<exists>s'. (proxy_step True)\<^sup>*\<^sup>* ((proxy_start False ''ab'' ''c'' [])\<lparr>px_remote_in := ''c'', px_remote_q := [''ab'']\<rparr>) s' \<and> px_listener_out s' @ ''c'' = ''abc''"
  using proxy_delivers [OF demo_received] by (simp add: proxy_start_def)

text \<open>The number of bytes a send took is ignored: what it did not take is lost and later bytes follow.\<close>

lemma partial_send_loses:
  "\<exists>s. (proxy_step False)\<^sup>*\<^sup>* (proxy_start True ''ab'' ''c'' []) s \<and> px_listener_out s = ''ac'' \<and> px_client s"
proof -
  let ?s0 = "proxy_start True ''ab'' ''c'' []"
  let ?s1 = "?s0\<lparr>px_remote_in := [], px_remote_q := px_remote_q ?s0 @ [''c'']\<rparr>"
  let ?s2 = "?s1\<lparr>px_remote_q := [''c''], px_listener_out := px_listener_out ?s1 @ take 1 ''ab''\<rparr>"
  let ?s3 = "?s2\<lparr>px_remote_q := [], px_listener_out := px_listener_out ?s2 @ take 1 ''c''\<rparr>"
  have "proxy_step False ?s0 ?s1" by (rule proxy_step.remote_recv) (simp_all add: proxy_start_def BUF_SZ_def)
  moreover have "proxy_step False ?s1 ?s2" by (rule proxy_step.listener_send [where n = 1]) (simp_all add: proxy_start_def)
  moreover have "proxy_step False ?s2 ?s3" by (rule proxy_step.listener_send [where n = 1]) (simp_all add: proxy_start_def)
  ultimately have "(proxy_step False)\<^sup>*\<^sup>* ?s0 ?s3" by (meson converse_rtranclp_into_rtranclp rtranclp.rtrancl_refl)
  then show ?thesis by (intro exI [of _ ?s3]) (simp add: proxy_start_def)
qed

end
