(* ===== verification/PcapWriter.thy ===== *)
theory PcapWriter
  imports FnPacket StateExn "HOL-Library.Sublist"
begin

text \<open>
  The paired capture files (\<open>fakenet/diverters/pcapwriter.py\<close>): opening both files or none, writing every packet to both,
  the first failure that stops the pair, and closing. The header encoder of dpkt is a parameter, as are its rounding and
  the precision of its time stamps. What the system refuses is an argument of each operation; a write that fails may have put a
  beginning of its bytes into the file. The alternative writers that tests pass in are not modelled.
\<close>

section \<open>State\<close>

datatype pcap_exn = PcapClosed | PcapSnaplen | PcapWriteFailed | PcapOpenFailed

text \<open>\<open>dpkt.pcap.Writer\<close>: the header of a file by link type and snap length, and of a record by seconds, subseconds, captured and
  original length; \<open>None\<close> when a number does not fit.\<close>

record pcap_lib =
  file_header :: "int \<Rightarrow> nat \<Rightarrow> byte list"
  pack_header :: "int \<Rightarrow> int \<Rightarrow> nat \<Rightarrow> nat \<Rightarrow> byte list option"
  intround :: "rat \<Rightarrow> int"
  multiplier :: rat

record pcap_summary =
  sum_raw_count :: nat
  sum_ethernet_count :: nat
  sum_rejected :: nat
  sum_write_error :: "pcap_exn option"
  sum_discarded :: bool
  sum_healthy :: bool

text \<open>\<open>pw_files\<close> is the directory: the two files of the pair and whatever else is there.\<close>

record pcap_writer =
  pw_raw_name :: string
  pw_ethernet_name :: string
  pw_snaplen :: nat
  pw_files :: "(string, byte list) dict"
  pw_created :: "string list"
  pw_raw_count :: nat
  pw_ethernet_count :: nat
  pw_last_ordinal :: nat
  pw_last_timestamp :: "time option"
  pw_rejected :: nat
  pw_last_rejection_log :: "time option"
  pw_error :: "pcap_exn option"
  pw_closed :: bool
  pw_summary :: "pcap_summary option"

type_synonym 'a pcap_act = "(pcap_exn, pcap_writer, 'a) action"

definition DLT_EN10MB :: int where
  "DLT_EN10MB = 1"

section \<open>Opening\<close>

text \<open>Which of the steps of opening succeed, and the files that a rollback fails to remove.\<close>

record open_io =
  oi_raw :: bool
  oi_raw_writer :: bool
  oi_ethernet :: bool
  oi_ethernet_writer :: bool
  oi_stuck :: "string list"

definition put :: "string \<Rightarrow> byte list \<Rightarrow> unit pcap_act" where
  "put name bs = smod (\<lambda>s. s\<lparr>pw_files := dset name ((case dget (pw_files s) name of Some old \<Rightarrow> old | None \<Rightarrow> []) @ bs) (pw_files s)\<rparr>)"

text \<open>\<open>open(name, 'xb')\<close> fails when the file exists.\<close>

definition open_exclusive :: "bool \<Rightarrow> string \<Rightarrow> unit pcap_act" where
  "open_exclusive ok name = sbind (sget (\<lambda>s. dget (pw_files s) name)) (\<lambda>old.
     if ok \<and> old = None then smod (\<lambda>s. s\<lparr>pw_files := dset name [] (pw_files s), pw_created := pw_created s @ [name]\<rparr>)
     else sraise PcapOpenFailed)"

definition open_writer :: "bool \<Rightarrow> pcap_lib \<Rightarrow> int \<Rightarrow> string \<Rightarrow> unit pcap_act" where
  "open_writer ok lib linktype name = sbind (sget pw_snaplen) (\<lambda>snaplen.
     if ok then put name (file_header lib linktype snaplen) else sraise PcapOpenFailed)"

definition rollback_initialization :: "open_io \<Rightarrow> pcap_writer \<Rightarrow> pcap_writer" where
  "rollback_initialization io s = s\<lparr>pw_files := fold ddel (filter (\<lambda>path. path \<notin> set (oi_stuck io)) (rev (pw_created s))) (pw_files s)\<rparr>"

definition open_pair :: "pcap_lib \<Rightarrow> int \<Rightarrow> open_io \<Rightarrow> unit pcap_act" where
  "open_pair lib dlt_raw io = sbind (sget (\<lambda>s. (pw_raw_name s, pw_ethernet_name s))) (\<lambda>(raw, ethernet).
     scatch (sbind (open_exclusive (oi_raw io) raw) (\<lambda>_. sbind (open_writer (oi_raw_writer io) lib dlt_raw raw) (\<lambda>_.
         sbind (open_exclusive (oi_ethernet io) ethernet) (\<lambda>_. open_writer (oi_ethernet_writer io) lib DLT_EN10MB ethernet))))
       (\<lambda>e. sbind (smod (rollback_initialization io)) (\<lambda>_. sraise e)))"

definition new_pair :: "string \<Rightarrow> string \<Rightarrow> nat \<Rightarrow> (string, byte list) dict \<Rightarrow> pcap_writer" where
  "new_pair raw ethernet snaplen files = \<lparr>pw_raw_name = raw, pw_ethernet_name = ethernet, pw_snaplen = snaplen, pw_files = files,
     pw_created = [], pw_raw_count = 0, pw_ethernet_count = 0, pw_last_ordinal = 0, pw_last_timestamp = None, pw_rejected = 0,
     pw_last_rejection_log = None, pw_error = None, pw_closed = False, pw_summary = None\<rparr>"

section \<open>Writing\<close>

definition ethernet_header :: "nat \<Rightarrow> byte list" where
  "ethernet_header version = [2, 0, 0, 0, 0, 2, 2, 0, 0, 0, 0, 1] @ (if version = 4 then [8, 0] else [134, 221])"

text \<open>A stream write: \<open>Some n\<close> says that only \<open>n\<close> bytes go out before it raises.\<close>

definition stream_write :: "nat option \<Rightarrow> string \<Rightarrow> byte list \<Rightarrow> unit pcap_act" where
  "stream_write fails name bs = (case fails of None \<Rightarrow> put name bs
     | Some n \<Rightarrow> sbind (put name (take n bs)) (\<lambda>_. sraise PcapWriteFailed))"

definition write_record :: "pcap_lib \<Rightarrow> nat option \<Rightarrow> string \<Rightarrow> int \<Rightarrow> int \<Rightarrow> byte list \<Rightarrow> unit pcap_act" where
  "write_record lib fails name seconds subseconds bs =
     (case pack_header lib seconds subseconds (length bs) (length bs) of
        None \<Rightarrow> sraise PcapWriteFailed
      | Some header \<Rightarrow> stream_write fails name (header @ bs))"

definition reject_input :: "time \<Rightarrow> unit pcap_act" where
  "reject_input now = smod (\<lambda>s. s\<lparr>pw_rejected := pw_rejected s + 1,
     pw_last_rejection_log := (case pw_last_rejection_log s of None \<Rightarrow> Some now
       | Some t \<Rightarrow> if now - t \<ge> 1 then Some now else Some t)\<rparr>)"

text \<open>The time stamp in whole seconds and rounded parts of a second.\<close>

definition stamp :: "pcap_lib \<Rightarrow> time \<Rightarrow> int \<times> int" where
  "stamp lib timestamp = (if timestamp < 0 then \<lceil>timestamp\<rceil> else \<lfloor>timestamp\<rfloor>,
     intround lib ((timestamp - of_int \<lfloor>timestamp\<rfloor>) * multiplier lib))"

definition pkt_version :: "byte list \<Rightarrow> nat" where
  "pkt_version bs = unat (hd bs) div 16"

definition fail_pair :: "pcap_exn \<Rightarrow> 'a pcap_act" where
  "fail_pair e = sbind (smod (\<lambda>s. s\<lparr>pw_error := Some e\<rparr>)) (\<lambda>_. sraise e)"

definition write_pair :: "pcap_lib \<Rightarrow> nat option \<Rightarrow> nat option \<Rightarrow> time \<Rightarrow> byte list \<Rightarrow> unit pcap_act" where
  "write_pair lib raw_fails ethernet_fails timestamp raw_bytes = (case stamp lib timestamp of (seconds, subseconds) \<Rightarrow>
     sbind (sget (\<lambda>s. (pw_raw_name s, pw_ethernet_name s))) (\<lambda>(raw, ethernet).
     sbind (write_record lib raw_fails raw seconds subseconds raw_bytes) (\<lambda>_.
     sbind (smod (\<lambda>s. s\<lparr>pw_raw_count := pw_raw_count s + 1\<rparr>)) (\<lambda>_.
     sbind (write_record lib ethernet_fails ethernet seconds subseconds (ethernet_header (pkt_version raw_bytes) @ raw_bytes)) (\<lambda>_.
     smod (\<lambda>s. s\<lparr>pw_ethernet_count := pw_ethernet_count s + 1, pw_last_ordinal := pw_raw_count s, pw_last_timestamp := Some timestamp\<rparr>))))))"

definition write_ip_packet :: "pcap_lib \<Rightarrow> nat option \<Rightarrow> nat option \<Rightarrow> time \<Rightarrow> byte list \<Rightarrow> bool pcap_act" where
  "write_ip_packet lib raw_fails ethernet_fails now raw_bytes =
     sbind (sget (\<lambda>s. (pw_closed s, pw_error s, pw_snaplen s))) (\<lambda>(closed, error, snaplen).
     if closed then sraise PcapClosed
     else case error of Some e \<Rightarrow> sraise e
     | None \<Rightarrow>
         if raw_bytes = [] then sbind (reject_input now) (\<lambda>_. sret False)
         else if pkt_version raw_bytes \<notin> {4, 6} then sbind (reject_input now) (\<lambda>_. sret False)
         else if length raw_bytes > snaplen \<or> length (ethernet_header (pkt_version raw_bytes) @ raw_bytes) > snaplen then fail_pair PcapSnaplen
         else sbind (scatch (write_pair lib raw_fails ethernet_fails now raw_bytes) (\<lambda>_. fail_pair PcapWriteFailed)) (\<lambda>_. sret True))"

section \<open>Closing\<close>

text \<open>Which side closes without an error, and how many of the empty files go before removing one fails, if it does.\<close>

record close_io =
  ci_raw :: bool
  ci_ethernet :: bool
  ci_unlink :: "nat option"

definition close_pair :: "bool \<Rightarrow> close_io \<Rightarrow> pcap_summary pcap_act" where
  "close_pair discard_if_empty io = sbind (sget pw_summary) (\<lambda>summary. case summary of Some x \<Rightarrow> sret x
     | None \<Rightarrow> sbind (smod (\<lambda>s. s\<lparr>pw_closed := True\<rparr>)) (\<lambda>_.
       sbind (sget (\<lambda>s. discard_if_empty \<and> pw_raw_count s = 0 \<and> pw_ethernet_count s = 0)) (\<lambda>empty.
       sbind (if empty then smod (\<lambda>s. s\<lparr>pw_files := fold ddel (case ci_unlink io of None \<Rightarrow> pw_created s | Some n \<Rightarrow> take n (pw_created s))
           (pw_files s)\<rparr>) else sret ()) (\<lambda>_.
       sbind (sget (\<lambda>s. \<lparr>sum_raw_count = pw_raw_count s, sum_ethernet_count = pw_ethernet_count s, sum_rejected = pw_rejected s,
           sum_write_error = pw_error s, sum_discarded = (empty \<and> ci_unlink io = None),
           sum_healthy = (pw_error s = None \<and> ci_raw io \<and> ci_ethernet io \<and> (empty \<longrightarrow> ci_unlink io = None) \<and>
             pw_raw_count s = pw_ethernet_count s)\<rparr>))
         (\<lambda>x. sbind (smod (\<lambda>s. s\<lparr>pw_summary := Some x\<rparr>)) (\<lambda>_. sret x))))))"

section \<open>What the files hold\<close>

type_synonym entry = "int \<times> int \<times> byte list"

definition eth_bytes :: "byte list \<Rightarrow> byte list" where
  "eth_bytes bs = ethernet_header (pkt_version bs) @ bs"

definition header_of :: "pcap_lib \<Rightarrow> int \<Rightarrow> int \<Rightarrow> byte list \<Rightarrow> byte list option" where
  "header_of lib sec sub bs = pack_header lib sec sub (length bs) (length bs)"

fun raw_record :: "pcap_lib \<Rightarrow> entry \<Rightarrow> byte list" where
  "raw_record lib (sec, sub, bs) = the (header_of lib sec sub bs) @ bs"

fun eth_entry :: "entry \<Rightarrow> entry" where
  "eth_entry (sec, sub, bs) = (sec, sub, eth_bytes bs)"

fun packable :: "pcap_lib \<Rightarrow> entry \<Rightarrow> bool" where
  "packable lib (sec, sub, bs) \<longleftrightarrow> header_of lib sec sub bs \<noteq> None"

text \<open>What a failed write may have left behind the records that are in both files.\<close>

definition tails :: "pcap_lib \<Rightarrow> byte list \<Rightarrow> byte list \<Rightarrow> bool" where
  "tails lib t1 t2 \<longleftrightarrow> t1 = [] \<and> t2 = [] \<or> (\<exists>e. packable lib e \<and> prefix t1 (raw_record lib e) \<and>
     (t2 = [] \<or> t1 = raw_record lib e \<and> packable lib (eth_entry e) \<and> prefix t2 (raw_record lib (eth_entry e))))"

text \<open>Of each file its name and its header.\<close>

definition pair_holds :: "pcap_lib \<Rightarrow> string \<times> byte list \<Rightarrow> string \<times> byte list \<Rightarrow> entry list \<Rightarrow> pcap_writer \<Rightarrow> bool" where
  "pair_holds lib h1 h2 written s \<longleftrightarrow> pw_raw_name s \<noteq> pw_ethernet_name s \<and> pw_raw_name s = fst h1 \<and> pw_ethernet_name s = fst h2 \<and>
     list_all (\<lambda>e. packable lib e \<and> packable lib (eth_entry e)) written \<and>
     (\<exists>t1 t2. dget (pw_files s) (pw_raw_name s) = Some (snd h1 @ concat (map (raw_record lib) written) @ t1) \<and>
        dget (pw_files s) (pw_ethernet_name s) = Some (snd h2 @ concat (map (raw_record lib \<circ> eth_entry) written) @ t2) \<and> tails lib t1 t2 \<and>
        (pw_error s = None \<longrightarrow> t1 = [] \<and> t2 = [] \<and> pw_raw_count s = length written \<and> pw_ethernet_count s = length written))"

lemma tails_Nil [simp]: "tails lib [] []"
  by (simp add: tails_def)

lemma tails_raw: "packable lib e \<Longrightarrow> prefix t (raw_record lib e) \<Longrightarrow> tails lib t []"
  unfolding tails_def by blast

lemma put_eq: "put name bs s = (Inr (), s\<lparr>pw_files := dset name ((case dget (pw_files s) name of Some old \<Rightarrow> old | None \<Rightarrow> []) @ bs) (pw_files s)\<rparr>)"
  by (simp add: put_def smod_def)

text \<open>Writing a record appends it, or a beginning of it.\<close>

lemma write_record_effect:
  assumes "write_record lib fails name sec sub bs s = (r, s')" and "dget (pw_files s) name = Some old"
  shows "(r = Inr () \<and> packable lib (sec, sub, bs) \<and> s' = s\<lparr>pw_files := dset name (old @ raw_record lib (sec, sub, bs)) (pw_files s)\<rparr>) \<or>
    (\<exists>e. r = Inl e) \<and> (s' = s \<or> packable lib (sec, sub, bs) \<and> (\<exists>t. prefix t (raw_record lib (sec, sub, bs)) \<and>
      s' = s\<lparr>pw_files := dset name (old @ t) (pw_files s)\<rparr>))"
proof (cases "header_of lib sec sub bs")
  case None
  then show ?thesis using assms by (auto simp: write_record_def header_of_def sraise_def)
next
  case (Some header)
  then show ?thesis using assms
    by (cases fails) (auto simp: write_record_def header_of_def stream_write_def put_eq sbind_def sraise_def intro: take_is_prefix)
qed

lemma pair_extended:
  assumes "pair_holds lib h1 h2 written s" and "pw_error s = None" and "packable lib e" and "packable lib (eth_entry e)"
    and "dget (pw_files s) (pw_raw_name s) = Some raw" and "dget (pw_files s) (pw_ethernet_name s) = Some eth"
    and s': "s' = s\<lparr>pw_files := dset (pw_ethernet_name s) (eth @ raw_record lib (eth_entry e)) (dset (pw_raw_name s) (raw @ raw_record lib e) (pw_files s)),
      pw_raw_count := pw_raw_count s + 1, pw_ethernet_count := pw_ethernet_count s + 1, pw_last_ordinal := ordinal, pw_last_timestamp := ts\<rparr>"
  shows "pair_holds lib h1 h2 (written @ [e]) s'"
  using assms(1-6) by (auto simp: pair_holds_def s' dict_simps)

lemma pair_broken:
  assumes "pair_holds lib h1 h2 written s" and "pw_error s = None" and "tails lib t1 t2"
    and "dget (pw_files s) (pw_raw_name s) = Some raw" and "dget (pw_files s) (pw_ethernet_name s) = Some eth"
    and "dget (pw_files s') (pw_raw_name s) = Some (raw @ t1)" and "dget (pw_files s') (pw_ethernet_name s) = Some (eth @ t2)"
    and "pw_raw_name s' = pw_raw_name s" and "pw_ethernet_name s' = pw_ethernet_name s" and "pw_error s' = Some x"
  shows "pair_holds lib h1 h2 written s'"
  using assms by (auto simp: pair_holds_def)

lemma write_pair_effect:
  assumes holds: "pair_holds lib h1 h2 written s" and clean: "pw_error s = None"
    and stamp: "stamp lib now = (sec, sub)" and run: "write_pair lib f1 f2 now bs s = (r, s')"
  shows "case r of Inr _ \<Rightarrow> pair_holds lib h1 h2 (written @ [(sec, sub, bs)]) s' \<and> pw_error s' = None
    | Inl _ \<Rightarrow> pair_holds lib h1 h2 written (s'\<lparr>pw_error := Some x\<rparr>)"
proof -
  let ?e = "(sec, sub, bs)" and ?raw = "pw_raw_name s" and ?eth = "pw_ethernet_name s"
  obtain raw eth where files: "dget (pw_files s) ?raw = Some raw" "dget (pw_files s) ?eth = Some eth" and names: "?raw \<noteq> ?eth"
    using holds by (auto simp: pair_holds_def)
  obtain r1 s1 where w1: "write_record lib f1 ?raw sec sub bs s = (r1, s1)" by fastforce
  note e1 = write_record_effect [OF w1 files(1)]
  show ?thesis
  proof (cases r1)
    case (Inl e)
    then have run': "r = Inl e" "s' = s1" using run w1 by (simp_all add: write_pair_def stamp sbind_def sget_def)
    have "\<exists>t. tails lib t [] \<and> dget (pw_files s1) ?raw = Some (raw @ t) \<and> dget (pw_files s1) ?eth = Some eth \<and>
        pw_raw_name s1 = ?raw \<and> pw_ethernet_name s1 = ?eth"
    proof -
      consider "s1 = s" | t where "packable lib ?e" "prefix t (raw_record lib ?e)" "s1 = s\<lparr>pw_files := dset ?raw (raw @ t) (pw_files s)\<rparr>"
        using e1 Inl by auto
      then show ?thesis
      proof cases
        case 1
        then show ?thesis using files by (intro exI [of _ "[]"]) simp
      next
        case (2 t)
        then show ?thesis using files names tails_raw [OF 2(1,2)] by (intro exI [of _ t]) (simp add: dict_simps)
      qed
    qed
    then show ?thesis using run' pair_broken [OF holds clean _ files, where ?t2.0 = "[]" and s' = "s1\<lparr>pw_error := Some x\<rparr>"] by auto
  next
    case (Inr u)
    let ?s1 = "s\<lparr>pw_files := dset ?raw (raw @ raw_record lib ?e) (pw_files s)\<rparr>"
    have s1: "s1 = ?s1" and pk: "packable lib ?e" using e1 Inr by auto
    let ?t = "s1\<lparr>pw_raw_count := pw_raw_count s1 + 1\<rparr>"
    obtain r2 s2 where w2: "write_record lib f2 ?eth sec sub (eth_bytes bs) ?t = (r2, s2)" by fastforce
    have eth: "dget (pw_files ?t) ?eth = Some eth" using files names by (simp add: s1 dict_simps)
    note e2 = write_record_effect [OF w2 eth]
    show ?thesis
    proof (cases r2)
      case (Inl e)
      then have run': "r = Inl e" "s' = s2" using run w1 w2 Inr
        by (simp_all add: write_pair_def stamp sbind_def sget_def smod_def eth_bytes_def)
      have "\<exists>t. tails lib (raw_record lib ?e) t \<and> dget (pw_files s2) ?raw = Some (raw @ raw_record lib ?e) \<and> dget (pw_files s2) ?eth = Some (eth @ t) \<and>
          pw_raw_name s2 = ?raw \<and> pw_ethernet_name s2 = ?eth"
        using e2 Inl eth names pk unfolding tails_def s1 by (fastforce simp: dict_simps)
      then show ?thesis using run' pair_broken [OF holds clean _ files, where ?t1.0 = "raw_record lib ?e" and s' = "s2\<lparr>pw_error := Some x\<rparr>"] by auto
    next
      case (Inr v)
      then have pk2: "packable lib (eth_entry ?e)" and s2: "s2 = ?t\<lparr>pw_files := dset ?eth (eth @ raw_record lib (eth_entry ?e)) (pw_files ?t)\<rparr>"
        using e2 by auto
      have s': "s' = s2\<lparr>pw_ethernet_count := pw_ethernet_count s2 + 1, pw_last_ordinal := pw_raw_count s2, pw_last_timestamp := Some now\<rparr>"
        and r: "r = Inr ()"
        using run w1 w2 \<open>r1 = Inr u\<close> Inr by (simp_all add: write_pair_def stamp sbind_def sget_def smod_def eth_bytes_def)
      have "s' = s\<lparr>pw_files := dset ?eth (eth @ raw_record lib (eth_entry ?e)) (dset ?raw (raw @ raw_record lib ?e) (pw_files s)),
          pw_raw_count := pw_raw_count s + 1, pw_ethernet_count := pw_ethernet_count s + 1, pw_last_ordinal := pw_raw_count s + 1,
          pw_last_timestamp := Some now\<rparr>"
        by (rule pcap_writer.equality) (simp_all add: s' s2 s1)
      from pair_extended [OF holds clean pk pk2 files this] show ?thesis using clean by (simp add: r s' s2 s1)
    qed
  qed
qed

text \<open>One call: a packet that is accepted is added to both files, any other call adds no record to both.\<close>

definition new_entry :: "pcap_lib \<Rightarrow> time \<Rightarrow> byte list \<Rightarrow> entry" where
  "new_entry lib now bs = (fst (stamp lib now), snd (stamp lib now), bs)"

lemma pair_holds_same:
  "pair_holds lib h1 h2 written s \<Longrightarrow> pair_holds lib h1 h2 written (s\<lparr>pw_rejected := n, pw_last_rejection_log := t\<rparr>)"
  "pair_holds lib h1 h2 written s \<Longrightarrow> pair_holds lib h1 h2 written (s\<lparr>pw_error := Some x\<rparr>)"
  by (auto simp: pair_holds_def)

lemma write_ip_packet_effect:
  assumes "pair_holds lib h1 h2 written s" and "write_ip_packet lib f1 f2 now bs s = (r, s')"
  shows "pair_holds lib h1 h2 (if r = Inr True then written @ [new_entry lib now bs] else written) s'"
proof (cases "pw_closed s \<or> pw_error s \<noteq> None \<or> bs = [] \<or> pkt_version bs \<notin> {4, 6} \<or>
    length bs > pw_snaplen s \<or> length (ethernet_header (pkt_version bs) @ bs) > pw_snaplen s")
  case True
  then show ?thesis using assms
    by (auto simp: write_ip_packet_def sbind_def sget_def sraise_def sret_def reject_input_def smod_def fail_pair_def pair_holds_same
        split: if_splits option.splits)
next
  case False
  obtain r1 s1 where w: "write_pair lib f1 f2 now bs s = (r1, s1)" by fastforce
  have st: "stamp lib now = (fst (stamp lib now), snd (stamp lib now))" by simp
  have run: "write_ip_packet lib f1 f2 now bs s = (case r1 of Inl _ \<Rightarrow> (Inl PcapWriteFailed, s1\<lparr>pw_error := Some PcapWriteFailed\<rparr>) | Inr _ \<Rightarrow> (Inr True, s1))"
    using False w by (auto simp: write_ip_packet_def sbind_def sget_def scatch_def fail_pair_def smod_def sraise_def sret_def split: sum.splits)
  show ?thesis using write_pair_effect [OF assms(1) _ st w, of PcapWriteFailed] False run assms(2)
    by (cases r1) (auto simp: new_entry_def)
qed

text \<open>A sequence of calls: the packets accepted and the state in the end.\<close>

fun write_all :: "pcap_lib \<Rightarrow> (nat option \<times> nat option \<times> time \<times> byte list) list \<Rightarrow> pcap_writer \<Rightarrow> entry list \<times> pcap_writer" where
  "write_all lib [] s = ([], s)"
| "write_all lib ((f1, f2, now, bs) # calls) s = (let (r, s') = write_ip_packet lib f1 f2 now bs s; (es, s'') = write_all lib calls s' in
     (if r = Inr True then new_entry lib now bs # es else es, s''))"

lemma write_all_holds:
  "pair_holds lib h1 h2 written s \<Longrightarrow> write_all lib calls s = (es, s') \<Longrightarrow> pair_holds lib h1 h2 (written @ es) s'"
proof (induction calls arbitrary: s written es)
  case (Cons call calls)
  obtain f1 f2 now bs where call: "call = (f1, f2, now, bs)" by (cases call)
  obtain r s1 where w: "write_ip_packet lib f1 f2 now bs s = (r, s1)" by fastforce
  obtain es' where rest: "write_all lib calls s1 = (es', s')" and es: "es = (if r = Inr True then new_entry lib now bs # es' else es')"
    using Cons.prems(2) w by (auto simp: call Let_def split: prod.splits if_splits)
  have "(if r = Inr True then written @ [new_entry lib now bs] else written) @ es' = written @ es" by (simp add: es)
  then show ?case using Cons.IH [OF write_ip_packet_effect [OF Cons.prems(1) w] rest] by simp
qed simp

section \<open>Opening the pair\<close>

lemmas open_defs = open_pair_def open_exclusive_def open_writer_def sbind_def sget_def scatch_def smod_def sraise_def put_eq new_pair_def

lemma open_pair_holds:
  assumes "open_pair lib dlt io (new_pair raw eth snaplen files) = (Inr (), s)"
  shows "pair_holds lib (raw, file_header lib dlt snaplen) (eth, file_header lib DLT_EN10MB snaplen) [] s"
  using assms by (auto simp: open_defs pair_holds_def dict_simps split: if_splits)

text \<open>Opening the pair is all or nothing: where opening fails at any point, no file is changed, and neither file of the pair is
  left behind, unless the system refuses to remove one.
\<close>

theorem open_all_or_nothing:
  assumes "open_pair lib dlt io (new_pair raw eth snaplen files) = (Inl e, s)" and "oi_stuck io = []"
  shows "dget (pw_files s) = dget files"
  using assms by (auto simp: open_defs rollback_initialization_def dict_simps fun_eq_iff split: if_splits)

section \<open>Reading the files back\<close>

text \<open>A reader of the records of a capture file that stops at an incomplete one.\<close>

function read_records :: "(byte list \<Rightarrow> int \<times> int \<times> nat \<times> nat) \<Rightarrow> byte list \<Rightarrow> entry list" where
  "read_records unpack bs = (if length bs < 16 then []
     else (case unpack (take 16 bs) of (sec, sub, captured, original) \<Rightarrow>
       if length bs < 16 + captured then []
       else (sec, sub, take captured (drop 16 bs)) # read_records unpack (drop (16 + captured) bs)))"
  by pat_completeness auto
termination
  by (relation "measure (\<lambda>(unpack, bs). length bs)") auto

declare read_records.simps [simp del]

definition codec :: "pcap_lib \<Rightarrow> (byte list \<Rightarrow> int \<times> int \<times> nat \<times> nat) \<Rightarrow> bool" where
  "codec lib unpack \<longleftrightarrow> (\<forall>sec sub captured original bs. pack_header lib sec sub captured original = Some bs \<longrightarrow>
     length bs = 16 \<and> unpack bs = (sec, sub, captured, original))"

lemma record_header:
  assumes "codec lib unpack" and "packable lib (sec, sub, bs)"
  obtains header where "header_of lib sec sub bs = Some header" and "length header = 16"
    and "unpack header = (sec, sub, length bs, length bs)"
  using assms by (auto simp: codec_def header_of_def)

lemma read_record:
  assumes "codec lib unpack" and "packable lib e"
  shows "read_records unpack (raw_record lib e @ rest) = e # read_records unpack rest"
proof (cases e)
  case (fields sec sub bs)
  obtain header where "header_of lib sec sub bs = Some header" "length header = 16" "unpack header = (sec, sub, length bs, length bs)"
    using record_header [OF assms(1), of sec sub bs] assms(2) by (auto simp: fields)
  then show ?thesis by (subst read_records.simps) (simp add: fields)
qed

lemma read_all:
  assumes "codec lib unpack" and "list_all (packable lib) es"
  shows "read_records unpack (concat (map (raw_record lib) es) @ rest) = es @ read_records unpack rest"
  using assms(2) by (induction es) (simp_all add: read_record [OF assms(1)])

lemma read_Nil [simp]: "read_records unpack [] = []"
  by (simp add: read_records.simps)

lemma read_cut:
  assumes "codec lib unpack" and "packable lib e" and "prefix t (raw_record lib e)" and "t \<noteq> raw_record lib e"
  shows "read_records unpack t = []"
proof (cases e)
  case (fields sec sub bs)
  obtain header where h: "header_of lib sec sub bs = Some header" "length header = 16" "unpack header = (sec, sub, length bs, length bs)"
    using record_header [OF assms(1), of sec sub bs] assms(2) by (auto simp: fields)
  have "length t < 16 + length bs" using assms(3,4) h prefix_length_less [of t "raw_record lib e"]
    by (simp add: fields strict_prefix_def)
  moreover have "take 16 t = header" if "16 \<le> length t"
  proof -
    obtain u where "header @ bs = t @ u" using assms(3) h by (auto simp: fields prefix_def)
    then have "take 16 (header @ bs) = take 16 (t @ u)" by simp
    then show ?thesis using h(2) that by simp
  qed
  ultimately show ?thesis using h by (subst read_records.simps) auto
qed

lemma read_tails:
  assumes "codec lib unpack" and "tails lib t1 t2"
  shows "length (read_records unpack t1) \<le> 1 \<and> prefix (read_records unpack t2) (map eth_entry (read_records unpack t1))"
proof (cases "t1 = [] \<and> t2 = []")
  case False
  then obtain e where e: "packable lib e" "prefix t1 (raw_record lib e)"
    "t2 = [] \<or> t1 = raw_record lib e \<and> packable lib (eth_entry e) \<and> prefix t2 (raw_record lib (eth_entry e))"
    using assms(2) unfolding tails_def by blast
  have whole: "read_records unpack (raw_record lib e') = [e']" if "packable lib e'" for e'
    using read_record [OF assms(1) that, of "[]"] by simp
  have "read_records unpack t1 = [] \<or> t1 = raw_record lib e \<and> read_records unpack t1 = [e]"
    using read_cut [OF assms(1) e(1,2)] whole [OF e(1)] by auto
  moreover have "read_records unpack t2 = [] \<or> t1 = raw_record lib e \<and> read_records unpack t2 = [eth_entry e]"
    using e(3) read_cut [OF assms(1), of "eth_entry e" t2] whole [of "eth_entry e"] by auto
  ultimately show ?thesis using whole [OF e(1)] by auto
qed simp


text \<open>The little-endian headers of the file format.\<close>

fun le_bytes :: "nat \<Rightarrow> nat \<Rightarrow> byte list" where
  "le_bytes 0 n = []"
| "le_bytes (Suc k) n = word_of_nat n # le_bytes k (n div 256)"

fun from_le :: "byte list \<Rightarrow> nat" where
  "from_le [] = 0"
| "from_le (b # bs) = unat b + 256 * from_le bs"

lemma from_le_bytes: "from_le (le_bytes k n) = n mod 256 ^ k"
  by (induction k arbitrary: n) (simp_all add: mod_mult2_eq unat_of_nat)

lemma length_le_bytes [simp]: "length (le_bytes k n) = k"
  by (induction k arbitrary: n) simp_all

definition le_pack :: "int \<Rightarrow> int \<Rightarrow> nat \<Rightarrow> nat \<Rightarrow> byte list option" where
  "le_pack sec sub captured original =
     (if 0 \<le> sec \<and> sec < 2 ^ 32 \<and> 0 \<le> sub \<and> sub < 2 ^ 32 \<and> captured < 2 ^ 32 \<and> original < 2 ^ 32
      then Some (le_bytes 4 (nat sec) @ le_bytes 4 (nat sub) @ le_bytes 4 captured @ le_bytes 4 original) else None)"

definition le_unpack :: "byte list \<Rightarrow> int \<times> int \<times> nat \<times> nat" where
  "le_unpack bs = (int (from_le (take 4 bs)), int (from_le (take 4 (drop 4 bs))), from_le (take 4 (drop 8 bs)), from_le (take 4 (drop 12 bs)))"

definition le_lib :: pcap_lib where
  "le_lib = \<lparr>file_header = (\<lambda>linktype snaplen. le_bytes 4 snaplen @ le_bytes 4 (nat linktype)), pack_header = le_pack, intround = round,
     multiplier = 1000000\<rparr>"

lemma le_codec: "codec le_lib le_unpack"
  by (auto simp: codec_def le_lib_def le_pack_def le_unpack_def from_le_bytes split: if_splits)

definition demo_open :: open_io where
  "demo_open = \<lparr>oi_raw = True, oi_raw_writer = True, oi_ethernet = True, oi_ethernet_writer = True, oi_stuck = []\<rparr>"


theorem open_all_or_nothing_witness:
  "dget (pw_files (snd (open_pair le_lib 101 (demo_open\<lparr>oi_ethernet_writer := False\<rparr>) (new_pair ''r'' ''e'' 64 [])))) = dget []"
proof -
  have "open_pair le_lib 101 (demo_open\<lparr>oi_ethernet_writer := False\<rparr>) (new_pair ''r'' ''e'' 64 []) =
      (Inl PcapOpenFailed, snd (open_pair le_lib 101 (demo_open\<lparr>oi_ethernet_writer := False\<rparr>) (new_pair ''r'' ''e'' 64 [])))"
    by (simp add: open_defs demo_open_def dget_def dset_def)
  from open_all_or_nothing [OF this] show ?thesis by (simp add: demo_open_def)
qed

end
