(* ===== verification/TcpStreams.thy ===== *)
theory TcpStreams
  imports FnPacket "HOL-Library.Product_Lexorder"
begin

text \<open>
  The reassembly of captured TCP payload (\<open>_normalize_tcp_segments\<close> and \<open>_assemble_tcp\<close> of \<open>fakenet/payload_report.py\<close>): sequence
  numbers are unwrapped relative to the segment that was captured first, the segments are put in order, and overlaps
  are compared. A refused stream is a \<open>PayloadReportError\<close>, whose text is kept as a kind with its numbers.
\<close>

section \<open>Segments\<close>

record tcp_segment =
  seg_start :: int
  seg_payload :: "byte list"
  seg_fin :: bool
  seg_ordinal :: nat

definition TCP_SEQUENCE_MODULUS :: int where
  "TCP_SEQUENCE_MODULUS = 2 ^ 32"

definition TCP_SEQUENCE_HALF :: int where
  "TCP_SEQUENCE_HALF = 2 ^ 31"

datatype stream_error = SequenceGap int int | ConflictingOverlap int | ConflictingRetransmission int | TerminalGap int int

text \<open>The signed distance of a sequence number from the reference, modulo the width of the field.\<close>

definition signed_delta :: "int \<Rightarrow> int \<Rightarrow> int" where
  "signed_delta reference raw = (raw - reference + TCP_SEQUENCE_HALF) mod TCP_SEQUENCE_MODULUS - TCP_SEQUENCE_HALF"

definition normalize_tcp_segments :: "tcp_segment list \<Rightarrow> tcp_segment list" where
  "normalize_tcp_segments segments = (if segments = [] then [] else
     let first = arg_min_list seg_ordinal segments; reference = seg_start first mod TCP_SEQUENCE_MODULUS in
     map (\<lambda>original. original\<lparr>seg_start := reference + signed_delta reference (seg_start original mod TCP_SEQUENCE_MODULUS)\<rparr>) segments)"

abbreviation seg_end :: "tcp_segment \<Rightarrow> int" where
  "seg_end s \<equiv> seg_start s + int (length (seg_payload s))"

section \<open>Assembly\<close>

text \<open>One round of the loop; the state is the output, the cursor and the number of the first byte, once there are some.
  The segments come in order, so that no slice of the output begins before it.\<close>

definition assemble_step :: "tcp_segment \<Rightarrow> (byte list \<times> int \<times> int) option \<Rightarrow> stream_error + (byte list \<times> int \<times> int) option" where
  "assemble_step s st = (let start = seg_start s; payload = seg_payload s in case st of
     None \<Rightarrow> Inr (Some (payload, seg_end s, start))
   | Some (output, cursor, base) \<Rightarrow>
       if start > cursor then Inl (SequenceGap cursor start)
       else let overlap = cursor - start in
         if overlap < int (length payload) then
           (if take (nat overlap) (drop (nat (start - base)) output) \<noteq> take (nat overlap) payload then Inl (ConflictingOverlap start)
            else Inr (Some (output @ drop (nat overlap) payload, seg_end s, base)))
         else if take (length payload) (drop (nat (start - base)) output) \<noteq> payload then Inl (ConflictingRetransmission start)
         else Inr (Some (output, cursor, base)))"

definition fin_positions :: "tcp_segment list \<Rightarrow> int list" where
  "fin_positions segments = map seg_end (filter seg_fin segments)"

definition ordered_data :: "tcp_segment list \<Rightarrow> tcp_segment list" where
  "ordered_data segments = sort_key (\<lambda>s. (seg_start s, seg_ordinal s)) (filter (\<lambda>s. seg_payload s \<noteq> []) segments)"

definition assemble_tcp :: "tcp_segment list \<Rightarrow> stream_error + byte list \<times> int option" where
  "assemble_tcp segments = (let segments' = normalize_tcp_segments segments; fins = fin_positions segments' in
     ebind (efold assemble_step (ordered_data segments') None) (\<lambda>st. case st of
       None \<Rightarrow> Inr ([], None)
     | Some (output, cursor, base) \<Rightarrow>
         (case filter (\<lambda>position. position > cursor) fins of
            [] \<Rightarrow> Inr (output, Some cursor)
          | beyond \<Rightarrow> Inl (TerminalGap cursor (Min (set beyond))))))"

section \<open>What a stream is\<close>

text \<open>The bytes by their number; a segment carries its part of them. A stream from \<open>lo\<close> to \<open>hi\<close> is one whose numbers
  are exactly those the segments cover.\<close>

definition carries :: "(int \<Rightarrow> byte) \<Rightarrow> tcp_segment \<Rightarrow> bool" where
  "carries g s \<longleftrightarrow> seg_payload s = map g [seg_start s..seg_end s - 1]"

definition covered :: "tcp_segment list \<Rightarrow> int \<Rightarrow> bool" where
  "covered segments p \<longleftrightarrow> (\<exists>s \<in> set segments. seg_start s \<le> p \<and> p < seg_end s)"

definition stream_of :: "tcp_segment list \<Rightarrow> (int \<Rightarrow> byte) \<Rightarrow> int \<Rightarrow> int \<Rightarrow> bool" where
  "stream_of segments g lo hi \<longleftrightarrow> lo < hi \<and> (\<forall>s \<in> set segments. carries g s) \<and> (\<forall>p. lo \<le> p \<and> p < hi \<longleftrightarrow> covered segments p)"

subsection \<open>Slices\<close>

lemma take_upto: "take n [i..j] = [i..min j (i + int n - 1)]"
proof (induction n arbitrary: i)
  case (Suc n)
  then show ?case by (cases "i \<le> j") (auto simp: upto_rec1 [of i] min_def algebra_simps)
qed simp

lemma drop_upto_int: "drop n [i..j] = [i + int n..j]"
proof (induction n arbitrary: i)
  case (Suc n)
  then show ?case by (cases "i \<le> j") (auto simp: upto_rec1 [of i j] algebra_simps)
qed simp

lemma slice_upto:
  assumes "base \<le> a" "a \<le> b" "b \<le> c"
  shows "take (nat (b - a)) (drop (nat (a - base)) (map g [base..c - 1])) = map g [a..b - 1]"
proof -
  have "min (c - 1) (a + int (nat (b - a)) - 1) = b - 1" using assms by auto
  then show ?thesis using assms by (simp add: take_map drop_map take_upto drop_upto_int)
qed

lemma upto_append: "a \<le> b \<Longrightarrow> b \<le> c \<Longrightarrow> [a..b - 1] @ [b..c - 1] = [a..c - 1]"
  using upto_split2 [of a "b - 1" "c - 1"] by (cases "a = b") auto

text \<open>Any list is the slice of some numbering.\<close>

lemma list_as_map: "xs = map (\<lambda>p. xs ! nat (p - a)) [a..a + int (length xs) - 1]"
  by (rule nth_equalityI) auto

section \<open>One step\<close>

text \<open>The state after some segments: the bytes from the base to the cursor are theirs.\<close>

definition holds_stream :: "(int \<Rightarrow> byte) \<Rightarrow> tcp_segment list \<Rightarrow> byte list \<times> int \<times> int \<Rightarrow> bool" where
  "holds_stream g segs = (\<lambda>(output, cursor, base). output = map g [base..cursor - 1] \<and> stream_of segs g base cursor)"

lemma covered_snoc: "covered (xs @ [s]) p \<longleftrightarrow> covered xs p \<or> seg_start s \<le> p \<and> p < seg_end s"
  by (auto simp: covered_def)

lemma first_step:
  assumes "seg_payload s \<noteq> []"
  shows "\<exists>g st. assemble_step s None = Inr (Some st) \<and> holds_stream g [s] st \<and> snd (snd st) = seg_start s"
    "carries g s \<Longrightarrow> \<exists>st. assemble_step s None = Inr (Some st) \<and> holds_stream g [s] st \<and> snd (snd st) = seg_start s"
proof -
  have "holds_stream g [s] (seg_payload s, seg_end s, seg_start s)" if "carries g s" for g
    using that assms by (auto simp: holds_stream_def stream_of_def covered_def carries_def)
  moreover have "carries (\<lambda>p. seg_payload s ! nat (p - seg_start s)) s"
    unfolding carries_def by (rule list_as_map)
  ultimately show "\<exists>g st. assemble_step s None = Inr (Some st) \<and> holds_stream g [s] st \<and> snd (snd st) = seg_start s"
    "carries g s \<Longrightarrow> \<exists>st. assemble_step s None = Inr (Some st) \<and> holds_stream g [s] st \<and> snd (snd st) = seg_start s"
    by (auto simp: assemble_step_def)
qed

lemma step_agrees:
  assumes inv: "holds_stream g segs (output, cursor, base)" and data: "base \<le> seg_start s" "seg_start s \<le> cursor" and "carries g s"
  shows "\<exists>st. assemble_step s (Some (output, cursor, base)) = Inr (Some st) \<and> holds_stream g (segs @ [s]) st \<and> snd (snd st) = base"
proof -
  let ?a = "seg_start s" and ?b = "seg_end s"
  have out: "output = map g [base..cursor - 1]" and str: "stream_of segs g base cursor" using inv by (simp_all add: holds_stream_def)
  have pay: "seg_payload s = map g [?a..?b - 1]" using assms(4) by (simp add: carries_def)
  show ?thesis
  proof (cases "cursor < ?b")
    case True
    have "take (nat (cursor - ?a)) (drop (nat (?a - base)) output) = map g [?a..cursor - 1]"
      unfolding out using data by (intro slice_upto) auto
    moreover have "take (nat (cursor - ?a)) (seg_payload s) = map g [?a..cursor - 1]"
      using slice_upto [of ?a ?a cursor ?b g] data True by (simp add: pay [symmetric])
    moreover have "drop (nat (cursor - ?a)) (seg_payload s) = map g [cursor..?b - 1]"
      using data by (subst pay) (simp add: drop_map drop_upto_int)
    ultimately have "assemble_step s (Some (output, cursor, base)) = Inr (Some (output @ map g [cursor..?b - 1], ?b, base))"
      using data True by (simp add: assemble_step_def Let_def)
    moreover have "output @ map g [cursor..?b - 1] = map g [base..?b - 1]"
      using data True unfolding out map_append [symmetric] by (subst upto_append) auto
    moreover have "covered segs p \<longleftrightarrow> base \<le> p \<and> p < cursor" for p using str by (simp add: stream_of_def)
    then have "stream_of (segs @ [s]) g base ?b"
      using str data True assms(4) by (auto simp: stream_of_def covered_snoc)
    ultimately show ?thesis by (simp add: holds_stream_def)
  next
    case False
    have "take (length (seg_payload s)) (drop (nat (?a - base)) output) = map g [?a..?b - 1]"
      using slice_upto [of base ?a ?b cursor g] data False unfolding out by simp
    then have "assemble_step s (Some (output, cursor, base)) = Inr (Some (output, cursor, base))"
      using data False pay by (simp add: assemble_step_def Let_def)
    moreover have "stream_of (segs @ [s]) g base cursor"
      using str data False assms(4) by (auto simp: stream_of_def covered_snoc)
    ultimately show ?thesis using out by (simp add: holds_stream_def)
  qed
qed

text \<open>A step that succeeds leaves a stream: where the cursor stood, the new bytes go on.\<close>

lemma step_success:
  assumes inv: "holds_stream g segs (output, cursor, base)" and start: "base \<le> seg_start s"
    and ok: "assemble_step s (Some (output, cursor, base)) = Inr r"
  shows "seg_start s \<le> cursor" "\<exists>g'. carries g' s \<and> holds_stream g' segs (output, cursor, base)"
proof -
  let ?a = "seg_start s" and ?b = "seg_end s"
  have out: "output = map g [base..cursor - 1]" and str: "stream_of segs g base cursor" using inv by (simp_all add: holds_stream_def)
  show a: "?a \<le> cursor" using ok by (auto simp: assemble_step_def Let_def split: if_splits)
  show "\<exists>g'. carries g' s \<and> holds_stream g' segs (output, cursor, base)"
  proof (cases "cursor < ?b")
    case False
    have "take (length (seg_payload s)) (drop (nat (?a - base)) output) = map g [?a..?b - 1]"
      using slice_upto [of base ?a ?b cursor g] start False unfolding out by simp
    then have "carries g s" using ok a False by (auto simp: assemble_step_def carries_def Let_def split: if_splits)
    then show ?thesis using inv by blast
  next
    case True
    define h where "h = (\<lambda>p. if p < cursor then g p else seg_payload s ! nat (p - ?a))"
    have hg: "map h [x..y - 1] = map g [x..y - 1]" if "y \<le> cursor" for x y using that by (auto simp: h_def)
    have "take (nat (cursor - ?a)) (drop (nat (?a - base)) output) = map g [?a..cursor - 1]"
      unfolding out using start a by (intro slice_upto) auto
    then have head: "take (nat (cursor - ?a)) (seg_payload s) = map h [?a..cursor - 1]"
      using ok a True by (auto simp: assemble_step_def Let_def hg split: if_splits)
    have "drop (nat (cursor - ?a)) (seg_payload s) = map (\<lambda>p. seg_payload s ! nat (p - ?a)) [cursor..?b - 1]"
      using arg_cong [OF list_as_map [of "seg_payload s" ?a], of "drop (nat (cursor - ?a))"] a by (simp add: drop_map drop_upto_int)
    also have "\<dots> = map h [cursor..?b - 1]" by (auto simp: h_def)
    finally have "drop (nat (cursor - ?a)) (seg_payload s) = map h [cursor..?b - 1]" .
    with head have "seg_payload s = map h [?a..cursor - 1] @ map h [cursor..?b - 1]" by (metis append_take_drop_id)
    then have "carries h s" unfolding carries_def map_append [symmetric] using a True by (simp add: upto_append)
    moreover have "carries h x" if "x \<in> set segs" for x
    proof (cases "seg_payload x = []")
      case False
      have "covered segs (seg_end x - 1)" using that False by (auto simp: covered_def intro!: bexI [of _ x])
      moreover have "covered segs p \<Longrightarrow> p < cursor" for p using str unfolding stream_of_def by blast
      ultimately have "seg_end x \<le> cursor" by force
      moreover have "carries g x" using that str by (simp add: stream_of_def)
      ultimately show ?thesis by (simp add: carries_def hg)
    qed (simp add: carries_def)
    moreover have "output = map h [base..cursor - 1]" using out by (simp only: hg order_refl)
    ultimately show ?thesis using str by (auto simp: holds_stream_def stream_of_def intro!: exI [of _ h])
  qed
qed

section \<open>The whole loop\<close>

lemma loop_sound:
  assumes "efold assemble_step xs (Some st) = Inr r" "holds_stream g segs st" "\<forall>s \<in> set xs. snd (snd st) \<le> seg_start s"
  shows "\<exists>g' st'. r = Some st' \<and> holds_stream g' (segs @ xs) st'"
  using assms
proof (induction xs arbitrary: st g segs)
  case (Cons s xs)
  obtain buf cursor base where st: "st = (buf, cursor, base)" by (cases st)
  obtain r1 where r1: "assemble_step s (Some st) = Inr r1" and rest: "efold assemble_step xs r1 = Inr r"
    using Cons.prems(1) by (auto simp: ebind_Inr_iff)
  have b: "base \<le> seg_start s" using Cons.prems(3) by (simp add: st)
  note suc = step_success [OF Cons.prems(2) [unfolded st] b r1 [unfolded st]]
  then obtain h where h: "carries h s" "holds_stream h segs (buf, cursor, base)" by blast
  obtain st1 where st1: "r1 = Some st1" "holds_stream h (segs @ [s]) st1" "snd (snd st1) = base"
    using step_agrees [OF h(2) b suc(1) h(1)] r1 by (auto simp: st)
  show ?case using Cons.IH [OF rest [unfolded st1(1)] st1(2)] Cons.prems(3) st1(3) by (simp add: st)
qed auto

lemma loop_complete:
  assumes "stream_of (segs @ xs) g lo hi" "holds_stream g segs st" "snd (snd st) = lo" "sorted (map seg_start xs)"
    "\<forall>x \<in> set xs. seg_payload x \<noteq> []"
  shows "efold assemble_step xs (Some st) = Inr (Some (map g [lo..hi - 1], hi, lo))"
  using assms
proof (induction xs arbitrary: st segs)
  case Nil
  obtain buf cursor base where st: "st = (buf, cursor, base)" by (cases st)
  have "\<forall>p. lo \<le> p \<and> p < hi \<longleftrightarrow> lo \<le> p \<and> p < cursor" "lo < hi" "lo < cursor"
    using Nil.prems by (auto simp: st holds_stream_def stream_of_def)
  then have "cursor = hi" by (metis less_le_not_le linorder_neqE_linordered_idom order_refl)
  then show ?case using Nil.prems(2,3) by (simp add: st holds_stream_def)
next
  case (Cons s xs)
  obtain buf cursor base where st: "st = (buf, cursor, base)" by (cases st)
  have base: "base = lo" using Cons.prems(3) by (simp add: st)
  have inv: "stream_of segs g lo cursor" using Cons.prems(2) by (simp add: st holds_stream_def base)
  have pos: "covered (segs @ s # xs) p \<longleftrightarrow> lo \<le> p \<and> p < hi" "covered segs p \<longleftrightarrow> lo \<le> p \<and> p < cursor" for p
    using Cons.prems(1) inv by (simp_all add: stream_of_def)
  have carr: "carries g s" using Cons.prems(1) by (simp add: stream_of_def)
  have cs: "covered (segs @ s # xs) (seg_start s)" using Cons.prems(5) by (auto simp: covered_def)
  then have lo: "lo \<le> seg_start s" and hi: "seg_start s < hi" using pos by auto
  have "seg_start s \<le> cursor"
  proof (rule ccontr)
    assume far: "\<not> seg_start s \<le> cursor"
    then have "covered (segs @ s # xs) cursor" using pos hi inv by (auto simp: stream_of_def)
    then obtain x where x: "x \<in> set (segs @ s # xs)" "seg_start x \<le> cursor" "cursor < seg_end x" by (auto simp: covered_def)
    have "x \<notin> set segs" using x pos(2) [of cursor] by (auto simp: covered_def)
    then have "seg_start s \<le> seg_start x" using x(1) Cons.prems(4) by auto
    then show False using x(2) far by simp
  qed
  then obtain st1 where st1: "assemble_step s (Some st) = Inr (Some st1)" "holds_stream g (segs @ [s]) st1" "snd (snd st1) = base"
    using step_agrees [of g segs buf cursor base s] Cons.prems(2) lo carr by (auto simp: st base)
  then show ?case using Cons.IH [OF _ st1(2)] Cons.prems by (simp add: base)
qed

section \<open>The assembled stream\<close>

lemma ordered_data_set: "set (ordered_data segs) = {s \<in> set segs. seg_payload s \<noteq> []}"
  by (auto simp: ordered_data_def)

lemma ordered_data_sorted: "sorted (map seg_start (ordered_data segs))"
proof -
  have "sorted (map (\<lambda>s. (seg_start s, seg_ordinal s)) (ordered_data segs))" by (simp add: ordered_data_def)
  then show ?thesis by (simp add: sorted_map) (rule sorted_wrt_mono_rel, auto)
qed

lemma stream_of_data: "stream_of (ordered_data segs) g lo hi \<longleftrightarrow> stream_of segs g lo hi"
proof -
  have "covered (ordered_data segs) p \<longleftrightarrow> covered segs p" for p by (force simp: covered_def ordered_data_set)
  moreover have "carries g s" if "seg_payload s = []" for s using that by (simp add: carries_def)
  ultimately show ?thesis by (auto simp: stream_of_def ordered_data_set)
qed

lemma loop_iff:
  "efold assemble_step (ordered_data segs) None = Inr (Some (out, hi, lo)) \<longleftrightarrow>
    (\<exists>g. stream_of segs g lo hi \<and> out = map g [lo..hi - 1])"
proof (cases "ordered_data segs")
  case Nil
  have "\<not> stream_of [] g lo hi" for g by (auto simp: stream_of_def covered_def)
  then show ?thesis using stream_of_data [of segs] Nil by simp
next
  case (Cons s xs)
  have ne: "seg_payload s \<noteq> []" "\<forall>x \<in> set xs. seg_payload x \<noteq> []" using ordered_data_set [of segs] Cons by auto
  have srt: "\<forall>x \<in> set xs. seg_start s \<le> seg_start x" "sorted (map seg_start xs)" using ordered_data_sorted [of segs] Cons by auto
  show ?thesis
  proof
    assume "efold assemble_step (ordered_data segs) None = Inr (Some (out, hi, lo))"
    moreover obtain g st where "assemble_step s None = Inr (Some st)" "holds_stream g [s] st" "snd (snd st) = seg_start s"
      using first_step(1) [OF ne(1)] by blast
    ultimately have "\<exists>g. holds_stream g ([s] @ xs) (out, hi, lo)"
      using loop_sound [of xs st "Some (out, hi, lo)" g "[s]"] srt(1) Cons by auto
    then show "\<exists>g. stream_of segs g lo hi \<and> out = map g [lo..hi - 1]"
      using Cons by (auto simp: holds_stream_def stream_of_data [of segs, symmetric])
  next
    assume "\<exists>g. stream_of segs g lo hi \<and> out = map g [lo..hi - 1]"
    then obtain g where g: "stream_of ([s] @ xs) g lo hi" "out = map g [lo..hi - 1]"
      using Cons by (auto simp: stream_of_data [of segs, symmetric])
    then have carr: "carries g s" by (simp add: stream_of_def)
    obtain st where st: "assemble_step s None = Inr (Some st)" "holds_stream g [s] st" "snd (snd st) = seg_start s"
      using first_step(2) [OF ne(1) carr] by blast
    have "covered ([s] @ xs) (seg_start s)" using ne(1) by (auto simp: covered_def)
    then have "lo \<le> seg_start s" using g(1) by (auto simp: stream_of_def)
    moreover have "covered ([s] @ xs) lo" using g(1) by (auto simp: stream_of_def)
    then have "seg_start s \<le> lo" using srt(1) by (force simp: covered_def)
    ultimately have "snd (snd st) = lo" using st(3) by simp
    from loop_complete [OF g(1) st(2) this srt(2)] ne st(1) g(2) Cons
    show "efold assemble_step (ordered_data segs) None = Inr (Some (out, hi, lo))" by simp
  qed
qed

lemma assembled_loop:
  assumes "ns = normalize_tcp_segments segments"
  shows "assemble_tcp segments = Inr (out, Some hi) \<longleftrightarrow> (\<exists>lo. efold assemble_step (ordered_data ns) None = Inr (Some (out, hi, lo)) \<and>
    (\<forall>position \<in> set (fin_positions ns). position \<le> hi))"
proof (cases "efold assemble_step (ordered_data ns) None")
  case (Inr st)
  show ?thesis
  proof (cases st)
    case (Some r)
    obtain buf cursor base where r: "r = (buf, cursor, base)" by (cases r)
    have "filter (\<lambda>position. position > cursor) (fin_positions ns) = [] \<longleftrightarrow> (\<forall>position \<in> set (fin_positions ns). position \<le> cursor)"
      by (simp add: filter_empty_conv not_less)
    then show ?thesis using Inr Some r
      by (cases "filter (\<lambda>position. position > cursor) (fin_positions ns)") (auto simp: assemble_tcp_def Let_def assms [symmetric])
  qed (use Inr in \<open>simp add: assemble_tcp_def Let_def assms [symmetric]\<close>)
qed (simp add: assemble_tcp_def Let_def assms [symmetric])

lemma loop_none: "efold assemble_step (ordered_data segs) None = Inr None \<longleftrightarrow> (\<forall>s \<in> set segs. seg_payload s = [])"
proof (cases "ordered_data segs")
  case Nil
  then show ?thesis using ordered_data_set [of segs] by auto
next
  case (Cons s xs)
  have ne: "seg_payload s \<noteq> []" "s \<in> set segs" using ordered_data_set [of segs] Cons by auto
  have srt: "\<forall>x \<in> set xs. seg_start s \<le> seg_start x" using ordered_data_sorted [of segs] Cons by auto
  obtain g st where "assemble_step s None = Inr (Some st)" "holds_stream g [s] st" "snd (snd st) = seg_start s"
    using first_step(1) [OF ne(1)] by blast
  then have "efold assemble_step (ordered_data segs) None \<noteq> Inr None" using loop_sound [of xs st None g "[s]"] srt Cons by auto
  then show ?thesis using ne by blast
qed

section \<open>Sequence numbers that wrap\<close>

text \<open>A segment as it is on the wire: its place in a stream of any length, modulo the width of the field.\<close>

definition wire :: "tcp_segment \<Rightarrow> tcp_segment" where
  "wire s = s\<lparr>seg_start := seg_start s mod TCP_SEQUENCE_MODULUS\<rparr>"

definition shifted :: "int \<Rightarrow> tcp_segment \<Rightarrow> tcp_segment" where
  "shifted d s = s\<lparr>seg_start := seg_start s + d\<rparr>"

lemma shifted_fields [simp]: "seg_start (shifted d s) = seg_start s + d" "seg_payload (shifted d s) = seg_payload s"
  "seg_fin (shifted d s) = seg_fin s"
  by (simp_all add: shifted_def)

lemma signed_delta_exact:
  assumes "- TCP_SEQUENCE_HALF \<le> b - a" "b - a < TCP_SEQUENCE_HALF"
  shows "signed_delta (a mod TCP_SEQUENCE_MODULUS) (b mod TCP_SEQUENCE_MODULUS) = b - a"
proof -
  let ?m = "TCP_SEQUENCE_MODULUS"
  have "(b mod ?m - a mod ?m + TCP_SEQUENCE_HALF) mod ?m = (b - a + TCP_SEQUENCE_HALF) mod ?m"
    by (metis mod_add_left_eq mod_diff_eq)
  also have "\<dots> = b - a + TCP_SEQUENCE_HALF"
    using assms by (intro mod_pos_pos_trivial) (auto simp: TCP_SEQUENCE_HALF_def TCP_SEQUENCE_MODULUS_def)
  finally show ?thesis by (simp add: signed_delta_def)
qed

lemma arg_min_list_map: "xs \<noteq> [] \<Longrightarrow> arg_min_list f (map h xs) = h (arg_min_list (f \<circ> h) xs)"
  by (induction "f \<circ> h" xs rule: arg_min_list.induct) (auto simp: Let_def)

lemma normalize_wire:
  assumes "segs \<noteq> []" "\<forall>s \<in> set segs. - TCP_SEQUENCE_HALF \<le> seg_start s - seg_start (arg_min_list seg_ordinal segs) \<and>
      seg_start s - seg_start (arg_min_list seg_ordinal segs) < TCP_SEQUENCE_HALF"
  shows "\<exists>d. d mod TCP_SEQUENCE_MODULUS = 0 \<and> normalize_tcp_segments (map wire segs) = map (shifted d) segs"
proof -
  let ?m = "TCP_SEQUENCE_MODULUS"
  let ?f = "arg_min_list seg_ordinal segs"
  define d where "d = seg_start ?f mod ?m - seg_start ?f"
  have "seg_ordinal \<circ> wire = seg_ordinal" by (simp add: fun_eq_iff wire_def)
  then have "arg_min_list seg_ordinal (map wire segs) = wire ?f" using arg_min_list_map [OF assms(1), of seg_ordinal wire] by simp
  moreover have "seg_start (wire s) mod ?m = seg_start s mod ?m" for s by (simp add: wire_def)
  moreover have "wire s\<lparr>seg_start := seg_start ?f mod ?m + signed_delta (seg_start ?f mod ?m) (seg_start s mod ?m)\<rparr> = shifted d s"
    if "s \<in> set segs" for s
    using signed_delta_exact [of "seg_start s" "seg_start ?f"] assms(2) that by (simp add: wire_def shifted_def d_def)
  ultimately have "normalize_tcp_segments (map wire segs) = map (shifted d) segs"
    using assms(1) by (simp add: normalize_tcp_segments_def Let_def)
  moreover have "d mod ?m = 0" unfolding d_def by (simp add: mod_diff_left_eq)
  ultimately show ?thesis by (intro exI [of _ d] conjI)
qed

lemma stream_of_shifted:
  assumes "stream_of segs g lo hi"
  shows "stream_of (map (shifted d) segs) (\<lambda>p. g (p - d)) (lo + d) (hi + d)"
proof -
  have up: "map (\<lambda>p. g (p - d)) [a + d..b + d - 1] = map g [a..b - 1]" for a b
    by (rule nth_equalityI) auto
  have "carries (\<lambda>p. g (p - d)) (shifted d s)" if "carries g s" for s
    using that up [of "seg_start s" "seg_end s"] by (simp add: carries_def algebra_simps)
  moreover have "covered (map (shifted d) segs) p \<longleftrightarrow> covered segs (p - d)" for p by (force simp: covered_def)
  moreover have "lo \<le> p - d \<and> p - d < hi \<longleftrightarrow> covered segs (p - d)" for p using assms by (simp add: stream_of_def)
  ultimately show ?thesis using assms by (auto simp: stream_of_def) (smt (verit))+
qed

section \<open>Properties\<close>

text \<open>C24. A direction of a TCP connection is reassembled exactly when its segments fit together: the bytes they carry
  agree wherever two of them overlap, the numbers they cover have no hole, and no FIN lies beyond them. The result is then the
  byte of every covered number, in order, and the cursor is the number after the last one.
\<close>

theorem assembled_exactly:
  "assemble_tcp segments = Inr (out, Some hi) \<longleftrightarrow>
    (\<exists>g lo. stream_of (normalize_tcp_segments segments) g lo hi \<and> out = map g [lo..hi - 1] \<and>
      (\<forall>position \<in> set (fin_positions (normalize_tcp_segments segments)). position \<le> hi))"
proof -
  let ?ns = "normalize_tcp_segments segments"
  have "assemble_tcp segments = Inr (out, Some hi) \<longleftrightarrow> (\<exists>lo. efold assemble_step (ordered_data ?ns) None = Inr (Some (out, hi, lo)) \<and>
      (\<forall>position \<in> set (fin_positions ?ns). position \<le> hi))"
    by (rule assembled_loop) (rule refl)
  then show ?thesis unfolding loop_iff by blast
qed

theorem assembled_exactly_witness:
  "assemble_tcp [\<lparr>seg_start = 5, seg_payload = [7], seg_fin = True, seg_ordinal = 1\<rparr>] = Inr ([7], Some 6)"
proof -
  let ?s = "\<lparr>seg_start = 5, seg_payload = [7], seg_fin = True, seg_ordinal = 1\<rparr>"
  have n: "normalize_tcp_segments [?s] = [?s]"
    by (simp add: normalize_tcp_segments_def signed_delta_def TCP_SEQUENCE_MODULUS_def TCP_SEQUENCE_HALF_def)
  have "stream_of [?s] (\<lambda>_. 7) 5 6" by (auto simp: stream_of_def carries_def covered_def)
  then show ?thesis unfolding assembled_exactly n by (intro exI [of _ "\<lambda>_. 7"] exI [of _ 5]) (simp add: fin_positions_def)
qed

text \<open>C23. A connection whose sequence numbers wrap is reassembled as if they did not: for segments at any places of a
  stream, sent with their numbers modulo \<open>2 ^ 32\<close> and captured in any order, with duplicates and overlaps, if they cover the
  stream from \<open>lo\<close> to \<open>hi\<close> without a hole, no FIN lies beyond and all lie within half the number space of the one captured
  first, the result is the stream from \<open>lo\<close> to \<open>hi\<close>.\<close>

theorem wrapped_stream_reassembled:
  assumes stream: "stream_of segs g lo hi"
    and near: "\<forall>s \<in> set segs. - TCP_SEQUENCE_HALF \<le> seg_start s - seg_start (arg_min_list seg_ordinal segs) \<and>
      seg_start s - seg_start (arg_min_list seg_ordinal segs) < TCP_SEQUENCE_HALF"
    and fins: "\<forall>position \<in> set (fin_positions segs). position \<le> hi"
  shows "\<exists>cursor. assemble_tcp (map wire segs) = Inr (map g [lo..hi - 1], Some cursor) \<and>
    cursor mod TCP_SEQUENCE_MODULUS = hi mod TCP_SEQUENCE_MODULUS"
proof -
  have ne: "segs \<noteq> []" using stream by (auto simp: stream_of_def covered_def)
  obtain d where d: "d mod TCP_SEQUENCE_MODULUS = 0" "normalize_tcp_segments (map wire segs) = map (shifted d) segs"
    using normalize_wire [OF ne near] by (elim exE conjE) (rule that)
  let ?h = "\<lambda>p. g (p - d)"
  have "fin_positions (map (shifted d) segs) = map (\<lambda>position. position + d) (fin_positions segs)"
    by (simp add: fin_positions_def filter_map comp_def algebra_simps)
  then have "\<forall>position \<in> set (fin_positions (map (shifted d) segs)). position \<le> hi + d" using fins by auto
  moreover have "efold assemble_step (ordered_data (map (shifted d) segs)) None = Inr (Some (map ?h [lo + d..hi + d - 1], hi + d, lo + d))"
    using stream_of_shifted [OF stream, of d] loop_iff by blast
  moreover have "map ?h [lo + d..hi + d - 1] = map g [lo..hi - 1]" by (rule nth_equalityI) auto
  ultimately have "assemble_tcp (map wire segs) = Inr (map g [lo..hi - 1], Some (hi + d))"
    unfolding assembled_loop [OF d(2) [symmetric]] by auto
  moreover have "(hi + d) mod TCP_SEQUENCE_MODULUS = hi mod TCP_SEQUENCE_MODULUS" using d(1) by (metis add.right_neutral mod_add_right_eq)
  ultimately show ?thesis by blast
qed

text \<open>Three bytes around the end of the number space: the middle one arrives first, and the last two segments overlap.\<close>

definition demo_segments :: "tcp_segment list" where
  "demo_segments = [\<lparr>seg_start = 4294967295, seg_payload = [8], seg_fin = False, seg_ordinal = 1\<rparr>,
     \<lparr>seg_start = 4294967294, seg_payload = [7, 8], seg_fin = False, seg_ordinal = 3\<rparr>,
     \<lparr>seg_start = 4294967296, seg_payload = [9], seg_fin = True, seg_ordinal = 2\<rparr>]"

theorem wrapped_stream_reassembled_witness:
  "\<exists>cursor. assemble_tcp (map wire demo_segments) = Inr ([7, 8, 9], Some cursor) \<and> cursor mod TCP_SEQUENCE_MODULUS = 1"
proof -
  let ?g = "\<lambda>p. [7, 8, 9 :: byte] ! nat (p - 4294967294)"
  have up: "[4294967294..4294967295] = [4294967294, 4294967295 :: int]" "[4294967294..4294967296] = [4294967294, 4294967295, 4294967296 :: int]"
    by (simp_all add: upto_rec1)
  have "stream_of demo_segments ?g 4294967294 4294967297"
    by (auto simp: stream_of_def demo_segments_def carries_def covered_def up)
  moreover have "\<forall>s \<in> set demo_segments. - TCP_SEQUENCE_HALF \<le> seg_start s - seg_start (arg_min_list seg_ordinal demo_segments) \<and>
      seg_start s - seg_start (arg_min_list seg_ordinal demo_segments) < TCP_SEQUENCE_HALF"
    by (simp add: demo_segments_def TCP_SEQUENCE_HALF_def)
  moreover have "\<forall>position \<in> set (fin_positions demo_segments). position \<le> 4294967297"
    by (simp add: demo_segments_def fin_positions_def)
  ultimately show ?thesis
    using wrapped_stream_reassembled [of demo_segments ?g 4294967294 4294967297] by (simp add: up TCP_SEQUENCE_MODULUS_def)
qed

end
