(* ===== verification/PayloadFlows.thy ===== *)
theory PayloadFlows
  imports PyText TcpStreams "HOL-Library.List_Lexorder" "HOL-Library.Char_ord"
begin

unbundle bit_operations_syntax

text \<open>
  The flows of a capture (\<open>_packet_parts\<close>, \<open>CaptureObservationIndex\<close> and \<open>SessionFlowRegistry\<close> of \<open>fakenet/payload_report.py\<close>): which
  connection a packet belongs to, when a connection begins anew, and which of its two sides a packet comes from.
  The parsers of dpkt and \<open>inet_ntop\<close> are parameters. The registry's tables hold references to its flows; here a flow is
  the position in \<open>fr_flows\<close> that the tables name.
\<close>

section \<open>Packets\<close>

datatype report_exn = EmptyPacket | UnsupportedVersion nat | UnparsableIp | TruncatedTcp | TruncatedUdp
  | UnknownRole string | EmptyObservation | UnexpectedOrdinal nat nat
  | DuplicateObservation string string | IncompatibleRoles string string string
  | CountMismatch nat nat | RecordMismatch string nat | UnhealthyCapture | BadStream stream_error

record packet_facts =
  pf_version :: nat
  pf_protocol :: string
  pf_src :: string
  pf_dst :: string
  pf_sport :: int
  pf_dport :: int
  pf_seq :: int
  pf_ack :: int
  pf_flags :: "16 word"
  pf_payload :: "byte list"

text \<open>The transport part of a parsed packet: ports, and for TCP sequence number, acknowledgement and flags, with the payload;
  or bytes that dpkt did not parse.\<close>

type_synonym tcp_view = "int \<times> int \<times> int \<times> int \<times> 16 word \<times> byte list"
type_synonym udp_view = "int \<times> int \<times> byte list"

datatype l4_view = TcpView tcp_view | UdpView udp_view | RawData "byte list"

record report_dpkt =
  rd_ip4 :: "byte list \<Rightarrow> (int \<times> byte list \<times> byte list \<times> l4_view) option"
  rd_ip6 :: "byte list \<Rightarrow> (int \<times> byte list \<times> byte list \<times> l4_view) option"
  rd_tcp :: "byte list \<Rightarrow> tcp_view option"
  rd_udp :: "byte list \<Rightarrow> udp_view option"
  rd_bytes :: "l4_view \<Rightarrow> byte list"
  rd_ntop :: "nat \<Rightarrow> byte list \<Rightarrow> string option"
  rd_sha256 :: "byte list \<Rightarrow> string"

definition hex_byte :: "byte \<Rightarrow> string" where
  "hex_byte b = (let digit = (\<lambda>n. ''0123456789abcdef'' ! n) in [digit (unat b div 16), digit (unat b mod 16)])"

definition ip_text :: "report_dpkt \<Rightarrow> byte list \<Rightarrow> nat \<Rightarrow> string" where
  "ip_text lib bs version = (case rd_ntop lib version bs of Some s \<Rightarrow> s | None \<Rightarrow> concat (map hex_byte bs))"

definition tcp_facts :: "nat \<Rightarrow> string \<Rightarrow> string \<Rightarrow> tcp_view \<Rightarrow> packet_facts" where
  "tcp_facts version src dst = (\<lambda>(sport, dport, seq, ack, flags, payload).
     \<lparr>pf_version = version, pf_protocol = ''TCP'', pf_src = src, pf_dst = dst, pf_sport = sport, pf_dport = dport, pf_seq = seq,
       pf_ack = ack, pf_flags = flags, pf_payload = payload\<rparr>)"

definition udp_facts :: "nat \<Rightarrow> string \<Rightarrow> string \<Rightarrow> udp_view \<Rightarrow> packet_facts" where
  "udp_facts version src dst = (\<lambda>(sport, dport, payload).
     \<lparr>pf_version = version, pf_protocol = ''UDP'', pf_src = src, pf_dst = dst, pf_sport = sport, pf_dport = dport, pf_seq = 0,
       pf_ack = 0, pf_flags = 0, pf_payload = payload\<rparr>)"

text \<open>The numbers that a protocol does not have are \<open>None\<close> in the code and 0 here; they are never read.\<close>

definition packet_parts :: "report_dpkt \<Rightarrow> byte list \<Rightarrow> report_exn + packet_facts" where
  "packet_parts lib raw = (if raw = [] then Inl EmptyPacket else
     let version = unat (hd raw AND 0xf0) div 16;
         parsed = (if version = 4 then Inr (rd_ip4 lib raw) else if version = 6 then Inr (rd_ip6 lib raw) else Inl (UnsupportedVersion version)) in
     ebind parsed (\<lambda>ip. case ip of
       None \<Rightarrow> Inl UnparsableIp
     | Some (protocol, src_bytes, dst_bytes, transport) \<Rightarrow>
         (let src = ip_text lib src_bytes version; dst = ip_text lib dst_bytes version in
          if protocol = 6 then
            (case transport of
               TcpView t \<Rightarrow> Inr (tcp_facts version src dst t)
             | _ \<Rightarrow> (case rd_tcp lib (rd_bytes lib transport) of None \<Rightarrow> Inl TruncatedTcp | Some t \<Rightarrow> Inr (tcp_facts version src dst t)))
          else if protocol = 17 then
            (case transport of
               UdpView u \<Rightarrow> Inr (udp_facts version src dst u)
             | _ \<Rightarrow> (case rd_udp lib (rd_bytes lib transport) of None \<Rightarrow> Inl TruncatedUdp | Some u \<Rightarrow> Inr (udp_facts version src dst u)))
          else Inr \<lparr>pf_version = version, pf_protocol = ''OTHER'', pf_src = src, pf_dst = dst, pf_sport = 0, pf_dport = 0, pf_seq = 0,
            pf_ack = 0, pf_flags = 0, pf_payload = []\<rparr>)))"

section \<open>Flows\<close>

type_synonym endpoint = "string \<times> int"
type_synonym flow_key = "string \<times> endpoint \<times> endpoint \<times> nat"

definition pf_source :: "packet_facts \<Rightarrow> endpoint" where
  "pf_source facts = (pf_src facts, pf_sport facts)"

definition pf_destination :: "packet_facts \<Rightarrow> endpoint" where
  "pf_destination facts = (pf_dst facts, pf_dport facts)"

definition canonical_key :: "packet_facts \<Rightarrow> flow_key" where
  "canonical_key facts = (let left = pf_source facts; right = pf_destination facts in
     (pf_protocol facts, min left right, max left right, pf_version facts))"

definition TH_FIN :: "16 word" where "TH_FIN = 1"
definition TH_SYN :: "16 word" where "TH_SYN = 2"
definition TH_RST :: "16 word" where "TH_RST = 4"
definition TH_ACK :: "16 word" where "TH_ACK = 16"

abbreviation has_flag :: "packet_facts \<Rightarrow> 16 word \<Rightarrow> bool" where
  "has_flag facts flag \<equiv> pf_flags facts AND flag \<noteq> 0"

record reg_flow =
  fl_id :: string
  fl_protocol :: string
  fl_version :: nat
  fl_source :: endpoint
  fl_destination :: endpoint
  fl_owner :: string
  fl_pid :: "int option"
  fl_process :: string
  fl_disposition :: string
  fl_domain :: string
  fl_started :: "time option"
  fl_ended :: "time option"
  fl_closed :: bool
  fl_directions :: "(endpoint \<times> endpoint, string) dict"
  fl_syns :: "(endpoint \<times> endpoint, int) dict"
  fl_logical :: "string set"

record registry =
  fr_next :: nat
  fr_flows :: "reg_flow list"
  fr_by_key :: "(flow_key, nat) dict"
  fr_logical :: "(string, nat) dict"

definition new_registry :: registry where
  "new_registry = \<lparr>fr_next = 1, fr_flows = [], fr_by_key = [], fr_logical = []\<rparr>"

definition zero_pad :: "nat \<Rightarrow> string \<Rightarrow> string" where
  "zero_pad width s = replicate (width - length s) CHR ''0'' @ s"

definition flow_name :: "nat \<Rightarrow> string" where
  "flow_name n = ''flow-'' @ zero_pad 6 (show_nat n)"

definition syn_of :: "packet_facts \<Rightarrow> bool" where
  "syn_of facts \<longleftrightarrow> pf_protocol facts = ''TCP'' \<and> has_flag facts TH_SYN"

abbreviation sequence_of :: "packet_facts \<Rightarrow> int" where
  "sequence_of facts \<equiv> pf_seq facts mod TCP_SEQUENCE_MODULUS"

definition new_flow :: "string \<Rightarrow> packet_facts \<Rightarrow> time option \<Rightarrow> string \<Rightarrow> reg_flow" where
  "new_flow flow_id facts timestamp direction = (let key = (pf_source facts, pf_destination facts) in
     \<lparr>fl_id = flow_id, fl_protocol = pf_protocol facts, fl_version = pf_version facts, fl_source = pf_source facts,
      fl_destination = pf_destination facts, fl_owner = ''unknown'', fl_pid = None, fl_process = ''unknown'',
      fl_disposition = ''unknown'', fl_domain = ''unknown'', fl_started = timestamp, fl_ended = timestamp, fl_closed = False,
      fl_directions = [(key, direction)], fl_syns = (if syn_of facts then [(key, sequence_of facts)] else []), fl_logical = {}\<rparr>)"

definition allocate_flow :: "packet_facts \<Rightarrow> time option \<Rightarrow> string \<Rightarrow> registry \<Rightarrow> nat \<times> registry" where
  "allocate_flow facts timestamp direction r = (let i = length (fr_flows r) in
     (i, r\<lparr>fr_next := fr_next r + 1, fr_flows := fr_flows r @ [new_flow (flow_name (fr_next r)) facts timestamp direction],
        fr_by_key := dset (canonical_key facts) i (fr_by_key r)\<rparr>))"

text \<open>A bare SYN without a direction comes from the side that opens the connection.\<close>

definition origin_direction :: "packet_facts \<Rightarrow> string \<Rightarrow> string" where
  "origin_direction facts direction = (if direction = ''unknown'' \<and> syn_of facts \<and> \<not> has_flag facts TH_ACK then ''outbound'' else direction)"

definition opposite :: "string \<Rightarrow> string \<Rightarrow> string" where
  "opposite known direction = (if known = ''outbound'' then ''inbound'' else if known = ''inbound'' then ''outbound'' else direction)"

definition orient :: "packet_facts \<Rightarrow> string \<Rightarrow> reg_flow \<Rightarrow> reg_flow" where
  "orient facts origin flow = (let key = (pf_source facts, pf_destination facts) in
     if dget (fl_directions flow) key \<noteq> None then flow
     else flow\<lparr>fl_directions := dset key (case dget (fl_directions flow) (pf_destination facts, pf_source facts) of
         Some known \<Rightarrow> opposite known origin | None \<Rightarrow> origin) (fl_directions flow)\<rparr>)"

definition note_syn :: "packet_facts \<Rightarrow> reg_flow \<Rightarrow> reg_flow" where
  "note_syn facts flow = (let key = (pf_source facts, pf_destination facts) in
     if syn_of facts \<and> dget (fl_syns flow) key = None then flow\<lparr>fl_syns := dset key (sequence_of facts) (fl_syns flow)\<rparr> else flow)"

definition note_time :: "time option \<Rightarrow> reg_flow \<Rightarrow> reg_flow" where
  "note_time timestamp flow = (case timestamp of None \<Rightarrow> flow
     | Some ts \<Rightarrow> flow\<lparr>fl_started := (case fl_started flow of None \<Rightarrow> Some ts | Some t \<Rightarrow> Some (if ts < t then ts else t)),
         fl_ended := (case fl_ended flow of None \<Rightarrow> Some ts | Some t \<Rightarrow> Some (if ts > t then ts else t))\<rparr>)"

definition note_logical :: "string option \<Rightarrow> reg_flow \<Rightarrow> reg_flow" where
  "note_logical logical flow = (case logical of None \<Rightarrow> flow | Some l \<Rightarrow> flow\<lparr>fl_logical := insert l (fl_logical flow)\<rparr>)"

definition note_close :: "packet_facts \<Rightarrow> reg_flow \<Rightarrow> reg_flow" where
  "note_close facts flow = (if pf_protocol facts = ''TCP'' \<and> has_flag facts (TH_FIN OR TH_RST) then flow\<lparr>fl_closed := True\<rparr> else flow)"

definition touch_flow :: "packet_facts \<Rightarrow> string \<Rightarrow> time option \<Rightarrow> string option \<Rightarrow> reg_flow \<Rightarrow> reg_flow" where
  "touch_flow facts origin timestamp logical flow =
     note_close facts (note_logical logical (note_time timestamp (note_syn facts (orient facts origin flow))))"

definition new_generation :: "packet_facts \<Rightarrow> reg_flow \<Rightarrow> bool" where
  "new_generation facts flow \<longleftrightarrow> syn_of facts \<and> (fl_closed flow \<or>
     (case dget (fl_syns flow) (pf_source facts, pf_destination facts) of None \<Rightarrow> False | Some known \<Rightarrow> sequence_of facts \<noteq> known))"

definition DIRECTIONS :: "string list" where
  "DIRECTIONS = [''outbound'', ''inbound'', ''unknown'']"

definition observe_facts :: "packet_facts \<Rightarrow> string \<Rightarrow> time option \<Rightarrow> string option \<Rightarrow> registry \<Rightarrow> string \<times> registry" where
  "observe_facts facts direction timestamp logical r = (case Option.bind logical (dget (fr_logical r)) of
     Some known \<Rightarrow> (fl_id (fr_flows r ! known), r)
   | None \<Rightarrow>
       (let origin = origin_direction facts direction;
            (i, r1) = (case dget (fr_by_key r) (canonical_key facts) of
                None \<Rightarrow> allocate_flow facts timestamp origin r
              | Some i \<Rightarrow> if new_generation facts (fr_flows r ! i) then allocate_flow facts timestamp origin r else (i, r));
            flow = touch_flow facts origin timestamp logical (fr_flows r1 ! i) in
        (fl_id flow, r1\<lparr>fr_flows := (fr_flows r1)[i := flow],
           fr_logical := (case logical of None \<Rightarrow> fr_logical r1 | Some l \<Rightarrow> dset l i (fr_logical r1))\<rparr>)))"

text \<open>\<open>observe_packet\<close>; \<open>None\<close> for a packet that has no flow.\<close>

definition observe_packet :: "report_dpkt \<Rightarrow> byte list \<Rightarrow> string \<Rightarrow> time option \<Rightarrow> string option \<Rightarrow> registry \<Rightarrow> string option \<times> registry" where
  "observe_packet lib raw direction0 timestamp logical r = (case packet_parts lib raw of
     Inl e \<Rightarrow> (None, r)
   | Inr facts \<Rightarrow>
       if pf_protocol facts \<notin> {''TCP'', ''UDP''} then (None, r)
       else (let direction = (if direction0 \<notin> set DIRECTIONS then ''unknown'' else direction0);
                 (flow_id, r') = observe_facts facts direction timestamp logical r in (Some flow_id, r')))"

definition find_flow :: "string \<Rightarrow> registry \<Rightarrow> nat option" where
  "find_flow flow_id r = (let i = length (takeWhile (\<lambda>flow. fl_id flow \<noteq> flow_id) (fr_flows r)) in
     if i < length (fr_flows r) then Some i else None)"

text \<open>The attributes that \<open>update\<close> sets; an empty text counts as none.\<close>

record flow_update =
  fu_owner :: "string option"
  fu_pid :: "int option"
  fu_process :: "string option"
  fu_disposition :: "string option"
  fu_domain :: "string option"

definition given :: "string option \<Rightarrow> string \<Rightarrow> string" where
  "given new old = (case new of None \<Rightarrow> old | Some s \<Rightarrow> if s = [] then old else s)"

definition update_flow :: "string option \<Rightarrow> flow_update \<Rightarrow> registry \<Rightarrow> registry" where
  "update_flow flow_id u r = (case Option.bind flow_id (\<lambda>fid. find_flow fid r) of
     None \<Rightarrow> r
   | Some i \<Rightarrow> (let flow = fr_flows r ! i in
       r\<lparr>fr_flows := (fr_flows r)[i := flow\<lparr>fl_owner := given (fu_owner u) (fl_owner flow),
          fl_pid := (if fu_pid u \<noteq> None then fu_pid u else fl_pid flow), fl_process := given (fu_process u) (fl_process flow),
          fl_disposition := given (fu_disposition u) (fl_disposition flow), fl_domain := given (fu_domain u) (fl_domain flow)\<rparr>]\<rparr>))"

definition direction_for :: "string \<Rightarrow> endpoint \<Rightarrow> endpoint \<Rightarrow> registry \<Rightarrow> string" where
  "direction_for flow_id source destination r = (case find_flow flow_id r of
     None \<Rightarrow> ''unknown''
   | Some i \<Rightarrow> (case dget (fl_directions (fr_flows r ! i)) (source, destination) of None \<Rightarrow> ''unknown'' | Some d \<Rightarrow> d))"

section \<open>The invariant\<close>

text \<open>What a flow's own tables say: its first side has a direction, the other side at most the opposite one, and nobody else
  has any.\<close>

definition sides_ok :: "reg_flow \<Rightarrow> bool" where
  "sides_ok flow \<longleftrightarrow> (let s = fl_source flow; d = fl_destination flow in
     dget (fl_directions flow) (s, d) \<noteq> None \<and>
     (\<forall>key. dget (fl_directions flow) key \<noteq> None \<longrightarrow> key = (s, d) \<or> key = (d, s)) \<and>
     (\<forall>x y. s \<noteq> d \<longrightarrow> dget (fl_directions flow) (s, d) = Some x \<longrightarrow> dget (fl_directions flow) (d, s) = Some y \<longrightarrow>
        x \<in> {''outbound'', ''inbound''} \<longrightarrow> y = opposite x y))"

definition flow_key_of :: "reg_flow \<Rightarrow> flow_key" where
  "flow_key_of flow = (fl_protocol flow, min (fl_source flow) (fl_destination flow), max (fl_source flow) (fl_destination flow), fl_version flow)"

definition reg_ok :: "registry \<Rightarrow> bool" where
  "reg_ok r \<longleftrightarrow> fr_next r = Suc (length (fr_flows r)) \<and>
     (\<forall>i < length (fr_flows r). fl_id (fr_flows r ! i) = flow_name (Suc i) \<and> sides_ok (fr_flows r ! i)) \<and>
     (\<forall>key i. dget (fr_by_key r) key = Some i \<longrightarrow> i < length (fr_flows r) \<and> flow_key_of (fr_flows r ! i) = key) \<and>
     (\<forall>i < length (fr_flows r). \<forall>l. l \<in> fl_logical (fr_flows r ! i) \<longleftrightarrow> dget (fr_logical r) l = Some i) \<and>
     (\<forall>l i. dget (fr_logical r) l = Some i \<longrightarrow> i < length (fr_flows r))"

text \<open>What no operation changes of a flow.\<close>

definition same_flow :: "reg_flow \<Rightarrow> reg_flow \<Rightarrow> bool" where
  "same_flow a b \<longleftrightarrow> fl_id b = fl_id a \<and> fl_protocol b = fl_protocol a \<and> fl_version b = fl_version a \<and>
     fl_source b = fl_source a \<and> fl_destination b = fl_destination a"

lemma same_flow_key: "same_flow a b \<Longrightarrow> flow_key_of b = flow_key_of a"
  by (simp add: same_flow_def flow_key_of_def)

lemma touch_same: "same_flow flow (touch_flow facts origin timestamp logical flow)"
  by (simp add: same_flow_def touch_flow_def note_close_def note_logical_def note_time_def note_syn_def orient_def Let_def split: option.split)

lemma touch_logical: "fl_logical (touch_flow facts origin timestamp logical flow) = fl_logical flow \<union> set_option logical"
  by (auto simp: touch_flow_def note_close_def note_logical_def note_time_def note_syn_def orient_def Let_def split: option.split)

lemma touch_directions: "fl_directions (touch_flow facts origin timestamp logical flow) = fl_directions (orient facts origin flow)"
  by (auto simp: touch_flow_def note_close_def note_logical_def note_time_def note_syn_def Let_def split: option.split)

text \<open>A packet with the key of a flow comes from one of its two sides.\<close>

lemma key_sides:
  assumes "flow_key_of flow = canonical_key facts"
  shows "(pf_source facts, pf_destination facts) = (fl_source flow, fl_destination flow) \<or>
    (pf_source facts, pf_destination facts) = (fl_destination flow, fl_source flow)"
  using assms by (auto simp: flow_key_of_def canonical_key_def Let_def min_def max_def split: if_splits)

lemma orient_sides:
  assumes "sides_ok flow" "flow_key_of flow = canonical_key facts"
  shows "sides_ok (orient facts origin flow)"
proof (cases "dget (fl_directions flow) (pf_source facts, pf_destination facts)")
  case (Some d)
  then show ?thesis using assms(1) by (simp add: orient_def Let_def)
next
  case None
  let ?s = "fl_source flow" and ?d = "fl_destination flow"
  obtain x where x: "dget (fl_directions flow) (?s, ?d) = Some x" using assms(1) by (auto simp: sides_ok_def Let_def)
  with None have k: "pf_source facts = ?d" "pf_destination facts = ?s" using key_sides [OF assms(2)] by auto
  with None x have "?s \<noteq> ?d" by auto
  then show ?thesis using assms(1) None k x by (auto simp: sides_ok_def orient_def Let_def dict_simps opposite_def)
qed

lemma by_key_ok: "reg_ok r \<Longrightarrow> dget (fr_by_key r) key = Some i \<Longrightarrow> i < length (fr_flows r) \<and> flow_key_of (fr_flows r ! i) = key"
  unfolding reg_ok_def by blast

lemma new_flow_sides: "sides_ok (new_flow flow_id facts timestamp direction)"
  by (auto simp: sides_ok_def new_flow_def Let_def dget_def split: if_splits)

lemma new_flow_key: "flow_key_of (new_flow flow_id facts timestamp direction) = canonical_key facts"
  by (simp add: flow_key_of_def new_flow_def canonical_key_def Let_def)

lemma reg_ok_allocate:
  assumes "reg_ok r" "allocate_flow facts timestamp origin r = (i, r1)"
  shows "reg_ok r1" "i < length (fr_flows r1)" "flow_key_of (fr_flows r1 ! i) = canonical_key facts" "fr_logical r1 = fr_logical r"
    "i = length (fr_flows r)" "fl_id (fr_flows r1 ! i) = flow_name (fr_next r)"
proof -
  let ?n = "length (fr_flows r)" and ?f = "new_flow (flow_name (fr_next r)) facts timestamp origin"
  have r1: "i = ?n" "r1 = r\<lparr>fr_next := fr_next r + 1, fr_flows := fr_flows r @ [?f], fr_by_key := dset (canonical_key facts) ?n (fr_by_key r)\<rparr>"
    using assms(2) by (auto simp: allocate_flow_def Let_def)
  then show "i = length (fr_flows r)" "i < length (fr_flows r1)" "flow_key_of (fr_flows r1 ! i) = canonical_key facts"
    "fr_logical r1 = fr_logical r" "fl_id (fr_flows r1 ! i) = flow_name (fr_next r)"
    by (simp_all add: new_flow_key) (simp add: new_flow_def Let_def)
  have "\<not> dget (fr_logical r) l = Some ?n" for l using assms(1) by (auto simp: reg_ok_def)
  moreover have "fl_id ?f = flow_name (Suc ?n)" "fl_logical ?f = {}" using assms(1) by (simp_all add: new_flow_def reg_ok_def Let_def)
  ultimately show "reg_ok r1"
    using assms(1) unfolding r1(2) reg_ok_def
    by (auto simp: nth_append less_Suc_eq new_flow_sides new_flow_key dict_simps split: if_splits)
qed

lemma reg_ok_replace:
  assumes "reg_ok r" "i < length (fr_flows r)" "same_flow (fr_flows r ! i) flow" "sides_ok flow"
    "fl_logical flow = fl_logical (fr_flows r ! i) \<union> set_option logical" "Option.bind logical (dget (fr_logical r)) = None"
  shows "reg_ok (r\<lparr>fr_flows := (fr_flows r)[i := flow], fr_logical := (case logical of None \<Rightarrow> fr_logical r | Some l \<Rightarrow> dset l i (fr_logical r))\<rparr>)"
    (is "reg_ok ?r")
proof -
  let ?fs = "(fr_flows r)[i := flow]"
  note ok = assms(1) [unfolded reg_ok_def]
  have f: "?fs ! j = (if j = i then flow else fr_flows r ! j)" if "j < length (fr_flows r)" for j using that by (simp add: nth_list_update)
  have log: "dget (fr_logical ?r) l = (if logical = Some l then Some i else dget (fr_logical r) l)" for l
    by (cases logical) (auto simp: dict_simps)
  have "l \<in> fl_logical (?fs ! j) \<longleftrightarrow> dget (fr_logical ?r) l = Some j" if j: "j < length (fr_flows r)" for j l
    using ok j assms(2,5,6) unfolding f [OF j] log by (cases logical) auto
  moreover have "fl_id (?fs ! j) = flow_name (Suc j) \<and> sides_ok (?fs ! j)" if "j < length (fr_flows r)" for j
    using ok that assms(3,4) by (auto simp: f same_flow_def)
  moreover have "flow_key_of (?fs ! j) = flow_key_of (fr_flows r ! j)" if "j < length (fr_flows r)" for j
    using that same_flow_key [OF assms(3)] by (auto simp: f)
  ultimately show ?thesis using ok assms(2) unfolding reg_ok_def log by simp
qed

lemma observe_cases:
  assumes "reg_ok r" "Option.bind logical (dget (fr_logical r)) = None"
  obtains i r1 where "reg_ok r1" "i < length (fr_flows r1)" "flow_key_of (fr_flows r1 ! i) = canonical_key facts" "fr_logical r1 = fr_logical r"
    "observe_facts facts direction timestamp logical r =
      (let flow = touch_flow facts (origin_direction facts direction) timestamp logical (fr_flows r1 ! i) in
       (fl_id flow, r1\<lparr>fr_flows := (fr_flows r1)[i := flow],
          fr_logical := (case logical of None \<Rightarrow> fr_logical r1 | Some l \<Rightarrow> dset l i (fr_logical r1))\<rparr>))"
    "(dget (fr_by_key r) (canonical_key facts) = None \<or> syn_of facts) \<and> (i, r1) = allocate_flow facts timestamp (origin_direction facts direction) r \<or>
      r1 = r \<and> dget (fr_by_key r) (canonical_key facts) = Some i \<and> \<not> new_generation facts (fr_flows r ! i)"
proof -
  define p where "p = (case dget (fr_by_key r) (canonical_key facts) of
      None \<Rightarrow> allocate_flow facts timestamp (origin_direction facts direction) r
    | Some i \<Rightarrow> if new_generation facts (fr_flows r ! i) then allocate_flow facts timestamp (origin_direction facts direction) r else (i, r))"
  obtain i r1 where p: "p = (i, r1)" by (cases p)
  have obs: "observe_facts facts direction timestamp logical r =
      (let flow = touch_flow facts (origin_direction facts direction) timestamp logical (fr_flows r1 ! i) in
       (fl_id flow, r1\<lparr>fr_flows := (fr_flows r1)[i := flow],
          fr_logical := (case logical of None \<Rightarrow> fr_logical r1 | Some l \<Rightarrow> dset l i (fr_logical r1))\<rparr>))"
    by (simp add: observe_facts_def assms(2) p_def [symmetric] p Let_def)
  have c: "(dget (fr_by_key r) (canonical_key facts) = None \<or> syn_of facts) \<and> (i, r1) = allocate_flow facts timestamp (origin_direction facts direction) r \<or>
      r1 = r \<and> dget (fr_by_key r) (canonical_key facts) = Some i \<and> \<not> new_generation facts (fr_flows r ! i)"
    using p by (auto simp: p_def new_generation_def split: option.splits if_splits)
  then show thesis
  proof
    assume "(dget (fr_by_key r) (canonical_key facts) = None \<or> syn_of facts) \<and> (i, r1) = allocate_flow facts timestamp (origin_direction facts direction) r"
    then have a: "allocate_flow facts timestamp (origin_direction facts direction) r = (i, r1)" by simp
    show thesis by (rule that [OF reg_ok_allocate(1-4) [OF assms(1) a] obs c])
  next
    assume a: "r1 = r \<and> dget (fr_by_key r) (canonical_key facts) = Some i \<and> \<not> new_generation facts (fr_flows r ! i)"
    then have "i < length (fr_flows r)" "flow_key_of (fr_flows r ! i) = canonical_key facts" using by_key_ok [OF assms(1)] by blast+
    then show thesis using that [of r1 i] obs c a assms(1) by blast
  qed
qed

lemma observe_ok:
  assumes "reg_ok r"
  shows "reg_ok (snd (observe_facts facts direction timestamp logical r))"
proof (cases "Option.bind logical (dget (fr_logical r))")
  case (Some known)
  then show ?thesis using assms by (simp add: observe_facts_def)
next
  case None
  obtain i r1 where r1: "reg_ok r1" "i < length (fr_flows r1)" "flow_key_of (fr_flows r1 ! i) = canonical_key facts" "fr_logical r1 = fr_logical r"
    and obs: "observe_facts facts direction timestamp logical r =
      (let flow = touch_flow facts (origin_direction facts direction) timestamp logical (fr_flows r1 ! i) in
       (fl_id flow, r1\<lparr>fr_flows := (fr_flows r1)[i := flow],
          fr_logical := (case logical of None \<Rightarrow> fr_logical r1 | Some l \<Rightarrow> dset l i (fr_logical r1))\<rparr>))"
    by (rule observe_cases [OF assms None])
  let ?f = "touch_flow facts (origin_direction facts direction) timestamp logical (fr_flows r1 ! i)"
  have "sides_ok (orient facts (origin_direction facts direction) (fr_flows r1 ! i))"
    using r1(1-3) by (intro orient_sides) (auto simp: reg_ok_def)
  moreover have "fl_source ?f = fl_source (fr_flows r1 ! i)" "fl_destination ?f = fl_destination (fr_flows r1 ! i)"
    "fl_source (orient facts (origin_direction facts direction) (fr_flows r1 ! i)) = fl_source (fr_flows r1 ! i)"
    "fl_destination (orient facts (origin_direction facts direction) (fr_flows r1 ! i)) = fl_destination (fr_flows r1 ! i)"
    using touch_same [of "fr_flows r1 ! i"] by (auto simp: same_flow_def orient_def Let_def)
  ultimately have "sides_ok ?f" by (simp add: sides_ok_def touch_directions)
  from reg_ok_replace [OF r1(1,2) touch_same this touch_logical] None r1(4) show ?thesis by (simp add: obs Let_def)
qed

lemma find_flow_some: "find_flow flow_id r = Some i \<Longrightarrow> i < length (fr_flows r) \<and> fl_id (fr_flows r ! i) = flow_id"
  by (auto simp: find_flow_def Let_def split: if_splits dest: nth_length_takeWhile)

lemma takeWhile_shorter: "x \<in> set xs \<Longrightarrow> \<not> P x \<Longrightarrow> length (takeWhile P xs) < length xs"
  by (induction xs) auto

lemma find_flow_member: "flow \<in> set (fr_flows r) \<Longrightarrow> \<exists>i < length (fr_flows r). find_flow (fl_id flow) r = Some i"
  using takeWhile_shorter [of flow "fr_flows r" "\<lambda>f. fl_id f \<noteq> fl_id flow"] by (simp add: find_flow_def Let_def)

lemma update_ok:
  assumes "reg_ok r"
  shows "reg_ok (update_flow flow_id u r)"
proof (cases "Option.bind flow_id (\<lambda>fid. find_flow fid r)")
  case (Some i)
  let ?f = "fr_flows r ! i"
  let ?g = "?f\<lparr>fl_owner := given (fu_owner u) (fl_owner ?f), fl_pid := (if fu_pid u \<noteq> None then fu_pid u else fl_pid ?f),
    fl_process := given (fu_process u) (fl_process ?f), fl_disposition := given (fu_disposition u) (fl_disposition ?f),
    fl_domain := given (fu_domain u) (fl_domain ?f)\<rparr>"
  have i: "i < length (fr_flows r)" using Some find_flow_some by (auto simp: bind_eq_Some_conv)
  then have "sides_ok ?g" using assms by (simp add: reg_ok_def sides_ok_def)
  from reg_ok_replace [OF assms i _ this, of None] Some show ?thesis by (simp add: same_flow_def update_flow_def Let_def)
qed (simp add: update_flow_def assms)

lemma sides_directions:
  assumes "sides_ok flow" "a \<noteq> b" "dget (fl_directions flow) (a, b) = Some d" "dget (fl_directions flow) (b, a) = Some d"
  shows "d \<notin> {''outbound'', ''inbound''}"
proof -
  let ?s = "fl_source flow" and ?d = "fl_destination flow"
  have "(a, b) = (?s, ?d) \<or> (a, b) = (?d, ?s)" using assms(1,3) unfolding sides_ok_def Let_def by blast
  then have "?s \<noteq> ?d \<and> dget (fl_directions flow) (?s, ?d) = Some d \<and> dget (fl_directions flow) (?d, ?s) = Some d" using assms(2-4) by auto
  then have "d \<in> {''outbound'', ''inbound''} \<longrightarrow> d = opposite d d" using assms(1) unfolding sides_ok_def Let_def by blast
  then show ?thesis by (auto simp: opposite_def)
qed

section \<open>Runs of the registry\<close>

datatype reg_op = Observe "byte list" string "time option" "string option" | Update "string option" flow_update

fun apply_op :: "report_dpkt \<Rightarrow> reg_op \<Rightarrow> registry \<Rightarrow> registry" where
  "apply_op lib (Observe raw direction timestamp logical) r = snd (observe_packet lib raw direction timestamp logical r)"
| "apply_op lib (Update flow_id u) r = update_flow flow_id u r"

abbreviation apply_ops :: "report_dpkt \<Rightarrow> reg_op list \<Rightarrow> registry \<Rightarrow> registry" where
  "apply_ops lib \<equiv> fold (apply_op lib)"

lemma new_registry_ok: "reg_ok new_registry"
  by (simp add: reg_ok_def new_registry_def dict_simps)

lemma observe_packet_facts:
  assumes "packet_parts lib raw = Inr facts" "pf_protocol facts \<in> {''TCP'', ''UDP''}"
  shows "observe_packet lib raw direction timestamp logical r =
    (let (flow_id, r') = observe_facts facts (if direction \<notin> set DIRECTIONS then ''unknown'' else direction) timestamp logical r in (Some flow_id, r'))"
  using assms by (simp add: observe_packet_def)

lemma observe_packet_cases:
  obtains "snd (observe_packet lib raw direction timestamp logical r) = r"
  | facts d where "packet_parts lib raw = Inr facts"
    "snd (observe_packet lib raw direction timestamp logical r) = snd (observe_facts facts d timestamp logical r)"
proof (cases "packet_parts lib raw")
  case (Inr facts)
  show thesis
  proof (cases "pf_protocol facts \<in> {''TCP'', ''UDP''}")
    case True
    let ?d = "if direction \<notin> set DIRECTIONS then ''unknown'' else direction"
    have "snd (observe_packet lib raw direction timestamp logical r) = snd (observe_facts facts ?d timestamp logical r)"
      unfolding observe_packet_facts [OF Inr True] by (simp add: split_def Let_def)
    then show thesis by (rule that(2) [OF Inr])
  qed (use that(1) Inr in \<open>simp add: observe_packet_def\<close>)
qed (use that in \<open>auto simp: observe_packet_def\<close>)

interpretation flows: invariant_machine "\<lambda>r. r = new_registry" "\<lambda>r r'. \<exists>op. r' = apply_op lib op r" reg_ok for lib
proof unfold_locales
  fix r r'
  assume "\<exists>op. r' = apply_op lib op r" "reg_ok r"
  then obtain op where r': "r' = apply_op lib op r" by blast
  show "reg_ok r'"
  proof (cases op)
    case (Observe raw direction timestamp logical)
    then show ?thesis using observe_packet_cases [of lib raw direction timestamp logical r] observe_ok [OF \<open>reg_ok r\<close>] \<open>reg_ok r\<close>
      unfolding r' Observe apply_op.simps by metis
  qed (simp add: r' update_ok \<open>reg_ok r\<close>)
qed (simp add: new_registry_ok)

lemma apply_ops_ok: "reg_ok r \<Longrightarrow> reg_ok (apply_ops lib ops r)"
proof (induction ops arbitrary: r)
  case (Cons op ops)
  then show ?case using flows.inv_step [of "apply_op lib op r" lib r] by auto
qed simp

lemma flow_name_inj: "flow_name m = flow_name n \<Longrightarrow> m = n"
proof -
  have zeros: "nat_of_digits (replicate k CHR ''0'' @ s) = nat_of_digits s" for k s
    by (induction k) (simp_all add: nat_of_digits_def digit_val_def code_def)
  assume "flow_name m = flow_name n"
  then have "nat_of_digits (zero_pad 6 (show_nat m)) = nat_of_digits (zero_pad 6 (show_nat n))" by (simp add: flow_name_def)
  then show ?thesis by (simp add: zero_pad_def zeros nat_of_digits_show_nat)
qed

text \<open>An open conversation stays where it is until one of its sides opens it anew.\<close>

fun opens :: "report_dpkt \<Rightarrow> flow_key \<Rightarrow> reg_op \<Rightarrow> bool" where
  "opens lib key (Observe raw _ _ _) = (case packet_parts lib raw of Inl _ \<Rightarrow> False | Inr facts \<Rightarrow> canonical_key facts = key \<and> syn_of facts)"
| "opens lib key (Update _ _) = False"

lemma observe_keeps_key:
  assumes "reg_ok r" "dget (fr_by_key r) key = Some i" "\<not> (canonical_key facts = key \<and> syn_of facts)"
  shows "dget (fr_by_key (snd (observe_facts facts direction timestamp logical r))) key = Some i"
proof (cases "Option.bind logical (dget (fr_logical r))")
  case (Some known)
  then show ?thesis using assms(2) by (simp add: observe_facts_def)
next
  case None
  let ?o = "origin_direction facts direction"
  have key: "dget (fr_by_key (snd (allocate_flow facts timestamp ?o r))) key = Some i" if "canonical_key facts \<noteq> key"
    using that assms(2) by (simp add: allocate_flow_def Let_def dict_simps)
  have "canonical_key facts = key \<Longrightarrow> \<not> new_generation facts flow" for flow using assms(3) by (simp add: new_generation_def)
  then show ?thesis using key assms(2) None
    by (cases "canonical_key facts = key") (auto simp: observe_facts_def Let_def split: option.split prod.split)
qed

lemma apply_op_keeps_key:
  assumes "reg_ok r" "dget (fr_by_key r) key = Some i" "\<not> opens lib key op"
  shows "dget (fr_by_key (apply_op lib op r)) key = Some i"
proof (cases op)
  case (Observe raw direction timestamp logical)
  show ?thesis
  proof (rule observe_packet_cases [of lib raw direction timestamp logical r])
    fix facts d
    assume a: "packet_parts lib raw = Inr facts"
      "snd (observe_packet lib raw direction timestamp logical r) = snd (observe_facts facts d timestamp logical r)"
    then show ?thesis using observe_keeps_key [OF assms(1,2), of facts] assms(3) Observe by simp
  qed (simp add: Observe assms(2))
next
  case (Update flow_id u)
  then show ?thesis using assms(2) by (simp add: update_flow_def Let_def split: option.split)
qed

lemma apply_ops_keep_key:
  "reg_ok r \<Longrightarrow> dget (fr_by_key r) key = Some i \<Longrightarrow> \<forall>op \<in> set ops. \<not> opens lib key op \<Longrightarrow>
    dget (fr_by_key (apply_ops lib ops r)) key = Some i"
proof (induction ops arbitrary: r)
  case (Cons op ops)
  then show ?case using apply_ops_ok [of r lib "[op]"] apply_op_keeps_key [of r key i lib op] by simp
qed simp

text \<open>What an observation answers, and what it leaves for the next packet of the conversation.\<close>

lemma observe_answer:
  assumes "reg_ok r" "Option.bind logical (dget (fr_logical r)) = None"
  shows "\<exists>i. fst (observe_facts facts direction timestamp logical r) = flow_name (Suc i) \<and>
    dget (fr_by_key (snd (observe_facts facts direction timestamp logical r))) (canonical_key facts) = Some i \<and>
    (\<forall>l. logical = Some l \<longrightarrow> dget (fr_logical (snd (observe_facts facts direction timestamp logical r))) l = Some i) \<and>
    (\<forall>j. dget (fr_by_key r) (canonical_key facts) = Some j \<and> \<not> syn_of facts \<longrightarrow> i = j)"
proof -
  obtain i r1 where r1: "reg_ok r1" "i < length (fr_flows r1)" "flow_key_of (fr_flows r1 ! i) = canonical_key facts" "fr_logical r1 = fr_logical r"
    and obs: "observe_facts facts direction timestamp logical r =
      (let flow = touch_flow facts (origin_direction facts direction) timestamp logical (fr_flows r1 ! i) in
       (fl_id flow, r1\<lparr>fr_flows := (fr_flows r1)[i := flow],
          fr_logical := (case logical of None \<Rightarrow> fr_logical r1 | Some l \<Rightarrow> dset l i (fr_logical r1))\<rparr>))"
    and which: "(dget (fr_by_key r) (canonical_key facts) = None \<or> syn_of facts) \<and> (i, r1) = allocate_flow facts timestamp (origin_direction facts direction) r \<or>
      r1 = r \<and> dget (fr_by_key r) (canonical_key facts) = Some i \<and> \<not> new_generation facts (fr_flows r ! i)"
    by (rule observe_cases [OF assms])
  have "fl_id (touch_flow facts (origin_direction facts direction) timestamp logical (fr_flows r1 ! i)) = flow_name (Suc i)"
    using touch_same [of "fr_flows r1 ! i" facts "origin_direction facts direction" timestamp logical] r1(1,2)
    by (simp add: same_flow_def reg_ok_def)
  moreover have "dget (fr_by_key r1) (canonical_key facts) = Some i"
    using which by (auto simp: allocate_flow_def Let_def dict_simps)
  moreover have "\<forall>j. dget (fr_by_key r) (canonical_key facts) = Some j \<and> \<not> syn_of facts \<longrightarrow> i = j" using which by auto
  ultimately show ?thesis unfolding obs Let_def fst_conv snd_conv by (intro exI [of _ i]) (auto simp: dict_simps)
qed

section \<open>A small capture\<close>

text \<open>Packets whose bytes after the first are source, destination, their ports, the flags and the payload.\<close>

definition demo_parse :: "byte list \<Rightarrow> (int \<times> byte list \<times> byte list \<times> l4_view) option" where
  "demo_parse bs = (case bs of v # a # b # p # q # fl # rest \<Rightarrow>
       Some (6, [a], [b], TcpView (uint p, uint q, 100, 0, ucast fl, rest))
     | _ \<Rightarrow> None)"

definition demo_lib :: report_dpkt where
  "demo_lib = \<lparr>rd_ip4 = demo_parse, rd_ip6 = (\<lambda>_. None), rd_tcp = (\<lambda>_. None), rd_udp = (\<lambda>_. None), rd_bytes = (\<lambda>_. []),
     rd_ntop = (\<lambda>_ _. None), rd_sha256 = (\<lambda>_. [])\<rparr>"

definition demo_syn :: "byte list" where "demo_syn = [0x45, 10, 20, 3, 4, 2]"
definition demo_data :: "byte list" where "demo_data = [0x45, 20, 10, 4, 3, 16, 7]"

definition demo_ops :: "reg_op list" where
  "demo_ops = [Observe demo_syn ''unknown'' None (Some ''a''), Observe demo_data ''unknown'' None (Some ''b'')]"

lemma demo_syn_parts: "packet_parts demo_lib demo_syn = Inr \<lparr>pf_version = 4, pf_protocol = ''TCP'', pf_src = ''0a'', pf_dst = ''14'',
    pf_sport = 3, pf_dport = 4, pf_seq = 100, pf_ack = 0, pf_flags = 2, pf_payload = []\<rparr>"
  by code_simp

lemma demo_data_parts: "packet_parts demo_lib demo_data = Inr \<lparr>pf_version = 4, pf_protocol = ''TCP'', pf_src = ''14'', pf_dst = ''0a'',
    pf_sport = 4, pf_dport = 3, pf_seq = 100, pf_ack = 0, pf_flags = 16, pf_payload = [7]\<rparr>"
  by code_simp

section \<open>Properties\<close>

text \<open>C25. The two sides of a connection stay apart. Whatever packets are observed and whatever is learned about their owners,
  in any order, no two flows share a name, a packet belongs to at most one flow, and the two sides of a flow never
  have the same known direction, so that where directions are known their sequence numbers are not mixed.\<close>

theorem flow_sides_apart:
  "let r = apply_ops lib ops new_registry in distinct (map fl_id (fr_flows r)) \<and>
    (\<forall>i j l. i < length (fr_flows r) \<longrightarrow> j < length (fr_flows r) \<longrightarrow> l \<in> fl_logical (fr_flows r ! i) \<inter> fl_logical (fr_flows r ! j) \<longrightarrow> i = j) \<and>
    (\<forall>flow \<in> set (fr_flows r). \<forall>a b. a \<noteq> b \<longrightarrow> direction_for (fl_id flow) a b r = direction_for (fl_id flow) b a r \<longrightarrow>
       direction_for (fl_id flow) a b r \<notin> {''outbound'', ''inbound''})"
  unfolding Let_def
proof (intro conjI allI impI ballI)
  let ?r = "apply_ops lib ops new_registry"
  have ok: "reg_ok ?r" by (rule apply_ops_ok [OF new_registry_ok])
  then have ids: "fl_id (fr_flows ?r ! i) = flow_name (Suc i)" if "i < length (fr_flows ?r)" for i using that by (simp add: reg_ok_def)
  show "distinct (map fl_id (fr_flows ?r))" using ids flow_name_inj by (fastforce simp: distinct_conv_nth)
  show "i = j" if "i < length (fr_flows ?r)" "j < length (fr_flows ?r)" "l \<in> fl_logical (fr_flows ?r ! i) \<inter> fl_logical (fr_flows ?r ! j)" for i j l
    using that ok by (auto simp: reg_ok_def)
  fix flow a b
  assume flow: "flow \<in> set (fr_flows ?r)" and ab: "a \<noteq> b" "direction_for (fl_id flow) a b ?r = direction_for (fl_id flow) b a ?r"
  obtain i where i: "i < length (fr_flows ?r)" "find_flow (fl_id flow) ?r = Some i" using find_flow_member [OF flow] by blast
  let ?ds = "fl_directions (fr_flows ?r ! i)"
  have sides: "sides_ok (fr_flows ?r ! i)" using ok i(1) by (simp add: reg_ok_def)
  have "direction_for (fl_id flow) x y ?r = (case dget ?ds (x, y) of None \<Rightarrow> ''unknown'' | Some d \<Rightarrow> d)" for x y
    using i(2) by (simp add: direction_for_def)
  then show "direction_for (fl_id flow) a b ?r \<notin> {''outbound'', ''inbound''}"
    using ab sides_directions [OF sides ab(1)] by (auto split: option.splits)
qed

theorem flow_sides_apart_witness:
  "distinct (map fl_id (fr_flows (apply_ops demo_lib demo_ops new_registry))) \<and>
    direction_for ''flow-000001'' (''14'', 4) (''0a'', 3) (apply_ops demo_lib demo_ops new_registry) \<noteq>
    direction_for ''flow-000001'' (''0a'', 3) (''14'', 4) (apply_ops demo_lib demo_ops new_registry)"
proof -
  let ?r = "apply_ops demo_lib demo_ops new_registry"
  have dir: "direction_for ''flow-000001'' (''14'', 4) (''0a'', 3) ?r = ''inbound''" by code_simp
  have ids: "map fl_id (fr_flows ?r) = [''flow-000001'']" by code_simp
  then obtain flow where flow: "flow \<in> set (fr_flows ?r)" "fl_id flow = ''flow-000001''" by (cases "fr_flows ?r") auto
  have "\<forall>a b. a \<noteq> b \<longrightarrow> direction_for ''flow-000001'' a b ?r = direction_for ''flow-000001'' b a ?r \<longrightarrow>
      direction_for ''flow-000001'' a b ?r \<notin> {''outbound'', ''inbound''}"
    using flow_sides_apart [of demo_lib demo_ops] flow unfolding Let_def by metis
  then have "direction_for ''flow-000001'' (''14'', 4) (''0a'', 3) ?r \<noteq> direction_for ''flow-000001'' (''0a'', 3) (''14'', 4) ?r"
    using dir by force
  then show ?thesis using ids by simp
qed



end
