(* ===== verification/Spec2Isabelle.thy ===== *)
theory Spec2Isabelle
  imports EgressRuns ProcessRuns LinuxDiverter LinuxNetPolicy WindowsOutcome RelayWorkers DnsResolver RelayPump McpWatch
    McpConfigStore TftpService ProxyPump PcapWriter PayloadFlows
begin

text \<open>
  A verification library for FakeNet-NG, a program that runs beside malware in a sandbox, diverts its
  network traffic to fake services and, under an egress policy, lets out exactly the connections a
  reviewer allowed.

  \<^bold>\<open>The program and its parts.\<close> A \<^emph>\<open>diverter\<close> sees every packet (NFQUEUE hooks on Linux, a WinDivert
  handle on Windows), decides what it may do and sends it on, changed or not. \<^emph>\<open>Listeners\<close> are the fake
  services it redirects to. With \<open>ExternalAccessPolicy\<close> the Windows diverter consults three state
  machines for each packet: the \<^emph>\<open>egress policy\<close> (control flows of FakeNet's own sockets, DNS leases,
  the relay's NAT tables, reviewed addresses, the takeover address), the \<^emph>\<open>process redirection engine\<close>
  (one program's connections to one address go to another) and its own tables of observed flows. The
  \<^emph>\<open>TLS relay\<close> accepts the connections the policy redirected, reads the server name of the ClientHello
  and connects upstream only for the domain of the mapping. The \<^emph>\<open>DNS listener\<close> resolves allowed names
  through one upstream server, leases the addresses it returns, and fakes every other answer. On Linux, \<^emph>\<open>network policy\<close> rules in
  iptables isolate the machine. An \<^emph>\<open>MCP server\<close> starts, changes and stops runs on request; its coordinator
  decides which request may change what, and its configuration store keeps the files a run is started with. Traffic
  to no known port goes to the \<^emph>\<open>proxy listener\<close>, which asks the fake services how they like its first bytes.

  \<^bold>\<open>Which theory models what\<close> (sources under \<open>src/fakenet\<close>):
  \<^item> \<open>Prelude\<close>, \<open>StateExn\<close>, \<open>PyText\<close>, \<open>IpAddress\<close>: dictionaries as association lists, exceptions as
    values, code with state and exceptions and its program logic, Python's \<open>str\<close>, \<open>int\<close> and
    \<open>ipaddress\<close> as far as the sources use them.
  \<^item> \<open>EgressConfig\<close>, \<open>RelayNat\<close>, \<open>EgressPolicy\<close>: \<open>diverters/egresspolicy.py\<close>; the record \<open>policy\<close> is the
    object \<open>EgressPolicy\<close>, \<open>nat_tables\<close> its relay tables, each method one definition with the clock
    reading as an argument. Mapping objects that several tables share live in a store keyed by their
    generation. \<open>EgressRuns\<close> has the runs: any interleaving of the critical sections (\<open>policy_step\<close>).
  \<^item> \<open>ProcessRule\<close>, \<open>ProcessEngine\<close>, \<open>ProcessTables\<close>, \<open>ProcessRuns\<close>: \<open>diverters/processredirect.py\<close>; the
    record \<open>engine\<close> is \<open>ProcessRedirectEngine\<close>. The lock is released while the owner of a connection is
    looked up, so a packet is several steps of \<open>engine_step\<close>.
  \<^item> \<open>FnConfig\<close>, \<open>Listeners\<close>, \<open>FnPacket\<close>, \<open>Diverter\<close>: \<open>diverters/fnconfig.py\<close>, \<open>fnpacket.py\<close> and
    \<open>diverterbase.py\<close>; \<open>PacketCtx\<close> is the packet, \<open>diverter\<close> the state of \<open>DiverterBase\<close>, and
    \<open>handle_pkt\<close> the packet path with its callbacks as parameters.
  \<^item> \<open>LinuxDiverter\<close>, \<open>LinuxNetPolicy\<close>: \<open>diverters/linux.py\<close> (the hooks) and \<open>linuxnetpolicy.py\<close>
    (the owned iptables rules, the command runner being a parameter).
  \<^item> \<open>WindowsPacket\<close>, \<open>WindowsEgress\<close>, \<open>WindowsRuns\<close>, \<open>WindowsOutcome\<close>: \<open>diverters/windows.py\<close>;
    \<open>handle_policy_packet\<close> is \<open>_handle_policy_packet\<close> cut into the stages of its body, on the record
    \<open>win\<close>, which contains the base diverter, the policy and the engine.
  \<^item> \<open>ClientHello\<close>, \<open>RelayWorkers\<close>: \<open>listeners/DomainEgressRelay.py\<close>: the parser and the reader of the
    ClientHello, and the accept loop and the workers as threads (\<open>relay_step\<close>) next to the policy.
    \<open>RelayPump\<close>: the loop \<open>_relay\<close> that copies the bytes once a worker is connected.
  \<^item> \<open>DnsResolver\<close>: \<open>listeners/DNSListener.py\<close>: \<open>answer_query\<close> is \<open>DNSHandler.parse\<close> on a parsed message,
    with the policy and the server's counter as state.
  \<^item> \<open>McpCoordinator\<close>, \<open>McpRuns\<close>: \<open>mcp/coordination.py\<close>; the record \<open>coordinator\<close> is \<open>Coordinator\<close>, the three
    phases of \<open>submit\<close> are three definitions, and \<open>coord_step\<close> interleaves them with everything else.
    \<open>McpQueries\<close>: \<open>mcp/queries.py\<close>, the cursors and pages over the event log and the bounded wait. \<open>McpWatch\<close> composes the
    two: a client that follows the log of a coordinator at work (\<open>watch_step\<close>).
    \<open>McpConfigStore\<close>: \<open>mcp/configstore.py\<close>; the record \<open>config_store\<close> holds the two directories, the audit
    trail and the active name, \<open>run_op\<close> is one call, and \<open>store_change\<close> the abstract specification.
  \<^item> \<open>TftpService\<close>: the request handler of \<open>listeners/TFTPListener.py\<close> and \<open>safe_join\<close> of \<open>ListenerBase.py\<close>.
  \<^item> \<open>ProxyTaste\<close>, \<open>ProxyPump\<close>: \<open>ssl_utils/ssl_detector.py\<close>, the \<open>taste\<close> methods of the services,
    \<open>get_top_listener\<close> and the two threads of a proxied TCP connection (\<open>proxy_step\<close>) in \<open>listeners/ProxyListener.py\<close>.
  \<^item> \<open>PcapWriter\<close>: \<open>diverters/pcapwriter.py\<close>, the record \<open>pcap_writer\<close> being \<open>DualPcapWriter\<close> with its directory.
  \<^item> \<open>TcpStreams\<close>, \<open>PayloadFlows\<close>: \<open>payload_report.py\<close>, the reassembly of captured TCP payload, and the record \<open>registry\<close>, which
    is \<open>SessionFlowRegistry\<close>, with \<open>apply_op\<close> for one call.

  \<^bold>\<open>What is shown.\<close> For the policy: no control flow other than a DNS query to the configured server or
  the relay's connection to a leased address ever matches, a closed or suspended policy matches nothing,
  quotas hold in every reachable state, forward and return path of a mapping are inverse. For the engine:
  only connections of the reviewed program are redirected, capacities and the query budget hold, a token
  is completed once. For the Windows handler, composed of both: every packet handed to the driver is
  authorised, its changes of policy and engine are steps of their machines, it is captured before it is
  sent, and a mapping created for a packet that fails does not stay. For the base diverter: the redirect
  decision is the documented truth table, forwarding is undone on the way back, ignored packets are left
  alone. For iptables: isolated mode has all its rules in force, and stop leaves none of them. For TLS:
  the parser accepts exactly the words of a grammar of ClientHello messages, and the reader accepts every
  such message however it is cut into pieces. For the relay: it connects upstream only for a client that
  named the domain of its mapping, its quotas count exactly the workers that hold a slot, and every worker
  ends and gives back what it holds; what it copies arrives unchanged, in order and within its buffers, and a
  quiet connection is given up. For DNS: an allowed name is never faked, leases come only from the
  answer section of a reply that matches the query, and no query leaves a permit behind. For the
  coordinator: operations under way never share a name, a command is executed and answered once while it is
  remembered, accepted commands have increasing versions, and a failed exit is final. A
  client that polls the event log gets every event once, and one that has caught up knows which commands are under way. For the configuration store: every call refines its
  specification, the audit trail accounts for the files, the configuration of a running program is frozen, none shadows a
  built-in one, and what was written is read back. For TFTP: no path a client sends leaves its directory, uploads
  stay in theirs, downloads are complete. For the proxy: the first of the most confident services is chosen, HTTP requests
  reach the HTTP service on every port, and both directions are copied in order on every interleaving. For the captures: both
  files hold the accepted packets, in order and matching, also after a failure. For the payload report: a TCP stream is
  reassembled exactly when its segments fit together, across the end of the number space too, a conversation stays in its
  flow until a SYN, and its two sides never share a known direction.

  \<^bold>\<open>Interfaces.\<close> \<open>table\<close> and \<open>invariant_machine\<close> (\<open>Prelude\<close>), the callbacks of the packet path
  (\<open>packet_callbacks\<close>, \<open>Diverter\<close>) and those of the other theories are locales; each is interpreted on
  the definitions of the model, and the properties use the facts of the interpretations.

  \<^bold>\<open>Parameters.\<close> Code that is not in the repository is an argument: \<open>dpkt\<close> and \<open>pydivert\<close>, IDNA for
  non-ASCII names, SHA-256, \<open>str.format\<close>, the owner lookup of Windows, the route reader, iptables,
  \<open>dnslib\<close>, \<open>json\<close>, sockets. Clock readings are arguments; where a function reads the clock several times, each call site
  has its own. What a raising callback leaves of the base diverter is arbitrary (\<open>failed_base\<close>).

  \<^bold>\<open>Bounds.\<close> Every loop is a total function; the measures are lengths of the remaining input, of tables or
  of byte budgets, and no fuel is used. Bytes are 8-bit words, addresses 32-bit words, ports and counters
  Python's unbounded integers.

  \<^bold>\<open>Not modelled\<close>, and why: text outside ASCII, the digit limit of \<open>int()\<close> and log output; opening and
  closing of drivers and sockets, threads, watchdogs and latency statistics; the journals and seals beside
  the captures (\<open>capture_originals.py\<close>); Windows API calls (\<open>winutil.py\<close>); the conversations of the other fake
  services and UDP through the proxy, which are I/O through library servers; the report model beyond flows and streams, its rendering, the command line, the MCP server
  beyond its coordinator, queries and configuration store, the graphical interface and the acceptance tools.
\<close>

end
